(* ===== verification/Prelude.thy ===== *)
theory Prelude
  imports Main "HOL-Library.List_Lexorder" "HOL-Library.Product_Lexorder" "HOL-Library.Option_ord"
    "HOL-Library.Code_Target_Nat" "HOL-Library.AList"
begin

text \<open>
  Shared material of the development: results that may be errors (\<open>'e + 'a\<close>, with
  \<open>Inl\<close> for a raised exception), sequencing and traversal of such results, and the generic
  list facts the component theories use. Code points are natural numbers, so the
  lexicographic order of lists, pairs and options of the library is Python's order on
  strings, tuples and keys.
\<close>

section \<open>Collections of rewrite rules\<close>

named_theorems result_simps "equations that open a successful or failed result"

section \<open>Results\<close>

fun bindE :: "'e + 'a \<Rightarrow> ('a \<Rightarrow> 'e + 'b) \<Rightarrow> 'e + 'b" where
  "bindE (Inl e) f = Inl e"
| "bindE (Inr x) f = f x"

definition guardE :: "bool \<Rightarrow> 'e \<Rightarrow> 'e + unit" where
  "guardE ok e = (if ok then Inr () else Inl e)"

fun mapE :: "('a \<Rightarrow> 'e + 'b) \<Rightarrow> 'a list \<Rightarrow> 'e + 'b list" where
  "mapE f [] = Inr []"
| "mapE f (x # xs) = bindE (f x) (\<lambda>y. bindE (mapE f xs) (\<lambda>ys. Inr (y # ys)))"

fun foldE :: "('s \<Rightarrow> 'a \<Rightarrow> 'e + 's) \<Rightarrow> 's \<Rightarrow> 'a list \<Rightarrow> 'e + 's" where
  "foldE f s [] = Inr s"
| "foldE f s (x # xs) = bindE (f s x) (\<lambda>t. foldE f t xs)"

lemma bindE_Inr_iff [result_simps]: "bindE m f = Inr y \<longleftrightarrow> (\<exists>x. m = Inr x \<and> f x = Inr y)"
  by (cases m) auto

lemma bindE_Inl_iff: "bindE m f = Inl e \<longleftrightarrow> m = Inl e \<or> (\<exists>x. m = Inr x \<and> f x = Inl e)"
  by (cases m) auto

lemma guardE_Inr_iff [result_simps]: "guardE ok e = Inr x \<longleftrightarrow> ok"
  by (simp add: guardE_def)

lemma guardE_Inl_iff: "guardE ok e = Inl e' \<longleftrightarrow> \<not> ok \<and> e' = e"
  by (auto simp: guardE_def)

lemma guardE_True [simp]: "guardE True e = Inr ()"
  and guardE_False [simp]: "guardE False e = Inl e"
  by (simp_all add: guardE_def)

lemma bindE_cong [fundef_cong]:
  "m = m' \<Longrightarrow> (\<And>x. m' = Inr x \<Longrightarrow> f x = g x) \<Longrightarrow> bindE m f = bindE m' g"
  by (cases m') auto

lemma mapE_cong [fundef_cong]:
  "xs = ys \<Longrightarrow> (\<And>x. x \<in> set ys \<Longrightarrow> f x = g x) \<Longrightarrow> mapE f xs = mapE g ys"
  by (induction xs arbitrary: ys) auto

lemma mapE_Inr_iff: "mapE f xs = Inr ys \<longleftrightarrow> list_all2 (\<lambda>x y. f x = Inr y) xs ys"
proof (induction xs arbitrary: ys)
  case Nil
  then show ?case by auto
next
  case (Cons x xs)
  then show ?case by (cases ys) (auto simp: bindE_Inr_iff)
qed

lemma mapE_length: "mapE f xs = Inr ys \<Longrightarrow> length ys = length xs"
  by (auto simp: mapE_Inr_iff dest: list_all2_lengthD)

lemma mapE_Inr_nth: "mapE f xs = Inr ys \<Longrightarrow> i < length xs \<Longrightarrow> f (xs ! i) = Inr (ys ! i)"
  by (auto simp: mapE_Inr_iff list_all2_conv_all_nth)

lemma mapE_Inr_ex: "mapE f xs = Inr ys \<Longrightarrow> x \<in> set xs \<Longrightarrow> \<exists>y \<in> set ys. f x = Inr y"
  by (induction xs arbitrary: ys) (auto simp: bindE_Inr_iff)

lemma mapE_total: "(\<And>x. x \<in> set xs \<Longrightarrow> \<exists>y. f x = Inr y) \<Longrightarrow> \<exists>ys. mapE f xs = Inr ys"
proof (induction xs)
  case Nil
  then show ?case by simp
next
  case (Cons x xs)
  from Cons.prems [of x] obtain y where "f x = Inr y" by auto
  moreover from Cons obtain ys where "mapE f xs = Inr ys" by auto
  ultimately show ?case by simp
qed

lemma mapE_Inl_iff: "(\<exists>e. mapE f xs = Inl e) \<longleftrightarrow> (\<exists>x \<in> set xs. \<exists>e. f x = Inl e)"
proof (induction xs)
  case Nil
  then show ?case by simp
next
  case (Cons x xs)
  then show ?case by (cases "f x"; cases "mapE f xs") (auto simp: bindE_Inl_iff)
qed

lemma foldE_append: "foldE f s (xs @ ys) = bindE (foldE f s xs) (\<lambda>t. foldE f t ys)"
proof (induction xs arbitrary: s)
  case Nil
  then show ?case by simp
next
  case (Cons x xs)
  then show ?case by (cases "f s x") auto
qed

text \<open>An invariant that every step keeps holds of the result.\<close>

lemma foldE_invariant:
  assumes "foldE f s xs = Inr t" and "P s"
    and "\<And>a x b. P a \<Longrightarrow> x \<in> set xs \<Longrightarrow> f a x = Inr b \<Longrightarrow> P b"
  shows "P t"
  using assms
proof (induction xs arbitrary: s)
  case Nil
  then show ?case by simp
next
  case (Cons x xs)
  from Cons.prems(1) obtain a where a: "f s x = Inr a" "foldE f a xs = Inr t"
    by (auto simp: bindE_Inr_iff)
  have "P a" by (rule Cons.prems(3) [OF Cons.prems(2) _ a(1)]) simp
  then show ?case
  proof (rule Cons.IH [OF a(2)])
    fix a' y b assume "P a'" "y \<in> set xs" "f a' y = Inr b"
    then show "P b" using Cons.prems(3) [of a' y b] by simp
  qed
qed

text \<open>A fold whose steps all go along a preorder goes along it as a whole, and visits each element of its
  list between its start and its end.\<close>

lemma foldE_related:
  assumes "foldE f s xs = Inr t" and step: "\<And>a x b. x \<in> set xs \<Longrightarrow> f a x = Inr b \<Longrightarrow> R a b"
    and "\<And>a. R a a" and trans: "\<And>a b c. R a b \<Longrightarrow> R b c \<Longrightarrow> R a c"
  shows "R s t"
proof (rule foldE_invariant [where P = "R s", OF assms(1) assms(3)])
  fix a x b assume "R s a" "x \<in> set xs" "f a x = Inr b"
  then show "R s b" using step trans by blast
qed

lemma foldE_visits:
  assumes "foldE f s xs = Inr t" and "x \<in> set xs" and step: "\<And>a x b. x \<in> set xs \<Longrightarrow> f a x = Inr b \<Longrightarrow> R a b"
    and refl: "\<And>a. R a a" and trans: "\<And>a b c. R a b \<Longrightarrow> R b c \<Longrightarrow> R a c"
  shows "\<exists>a b. R s a \<and> f a x = Inr b \<and> R b t"
proof -
  from assms(2) obtain ys zs where xs: "xs = ys @ x # zs" by (auto dest: split_list)
  from assms(1) obtain a b where ab: "foldE f s ys = Inr a" "f a x = Inr b" "foldE f b zs = Inr t"
    by (auto simp: xs foldE_append bindE_Inr_iff)
  have "R s a" by (rule foldE_related [OF ab(1) _ refl trans]) (auto intro: step simp: xs)
  moreover have "R b t" by (rule foldE_related [OF ab(3) _ refl trans]) (auto intro: step simp: xs)
  ultimately show ?thesis using ab(2) by blast
qed

section \<open>Lists\<close>

lemma dropWhile_hd_not: "dropWhile P xs \<noteq> [] \<Longrightarrow> \<not> P (hd (dropWhile P xs))"
  by (induction xs) auto

lemma last_neq: "x \<notin> set xs \<Longrightarrow> xs \<noteq> [] \<Longrightarrow> last xs \<noteq> x"
  by (metis last_in_set)

lemma last_dropWhile: "dropWhile P xs \<noteq> [] \<Longrightarrow> last (dropWhile P xs) = last xs"
  by (metis last_appendR takeWhile_dropWhile_id)

lemma takeWhile_append_stop: "\<forall>x \<in> set xs. P x \<Longrightarrow> ys = [] \<or> \<not> P (hd ys) \<Longrightarrow> takeWhile P (xs @ ys) = xs"
  by (induction xs) (cases ys; auto)+

lemma dropWhile_append_stop: "\<forall>x \<in> set xs. P x \<Longrightarrow> ys = [] \<or> \<not> P (hd ys) \<Longrightarrow> dropWhile P (xs @ ys) = ys"
  by (induction xs) (cases ys; auto)+

lemma dropWhile_idem_hd: "xs = [] \<or> \<not> P (hd xs) \<Longrightarrow> dropWhile P xs = xs"
  by (cases xs) auto

section \<open>Work lists\<close>

text \<open>The members of a universe that are reachable from the seeds along successors.\<close>

inductive_set reached :: "('a \<Rightarrow> 'a set) \<Rightarrow> ('a \<Rightarrow> bool) \<Rightarrow> 'a set \<Rightarrow> 'a set"
  for succ :: "'a \<Rightarrow> 'a set" and member :: "'a \<Rightarrow> bool" and seeds :: "'a set" where
  seed: "x \<in> seeds \<Longrightarrow> member x \<Longrightarrow> x \<in> reached succ member seeds"
| step: "x \<in> reached succ member seeds \<Longrightarrow> y \<in> succ x \<Longrightarrow> member y \<Longrightarrow> y \<in> reached succ member seeds"

text \<open>What a work-list loop keeps: the visited elements are reachable, the pending ones are seeds or
  successors of visited ones, and each member among those is visited or pending.\<close>

definition worklist_inv :: "('a \<Rightarrow> 'a set) \<Rightarrow> ('a \<Rightarrow> bool) \<Rightarrow> 'a set \<Rightarrow> 'a set \<Rightarrow> 'a set \<Rightarrow> bool" where
  "worklist_inv succ member seeds visited pending \<longleftrightarrow>
     visited \<subseteq> reached succ member seeds \<and> pending \<subseteq> seeds \<union> \<Union> (succ ` visited)
     \<and> (\<forall>x \<in> seeds \<union> \<Union> (succ ` visited). member x \<longrightarrow> x \<in> visited \<union> pending)"

lemma worklist_inv_start: "worklist_inv succ member seeds {} seeds"
  by (simp add: worklist_inv_def)

lemma worklist_inv_skip:
  assumes inv: "worklist_inv succ member seeds visited pending" and x: "x \<in> visited \<or> \<not> member x"
    and p: "pending - {x} \<subseteq> pending'" "pending' \<subseteq> pending"
  shows "worklist_inv succ member seeds visited pending'"
  unfolding worklist_inv_def
proof (intro conjI ballI impI)
  show "visited \<subseteq> reached succ member seeds" "pending' \<subseteq> seeds \<union> \<Union> (succ ` visited)"
    using inv p(2) by (auto simp: worklist_inv_def)
  fix y assume "y \<in> seeds \<union> \<Union> (succ ` visited)" "member y"
  then have "y \<in> visited \<union> pending" using inv by (simp only: worklist_inv_def)
  then show "y \<in> visited \<union> pending'" using x p(1) \<open>member y\<close> by (cases "y = x") auto
qed

lemma worklist_inv_visit:
  assumes inv: "worklist_inv succ member seeds visited pending" and x: "x \<in> pending" "member x"
    and p: "pending - {x} \<subseteq> pending'" "\<And>y. y \<in> succ x \<Longrightarrow> member y \<Longrightarrow> y \<in> insert x visited \<union> pending'"
      "pending' \<subseteq> pending \<union> succ x"
  shows "worklist_inv succ member seeds (insert x visited) pending'"
  unfolding worklist_inv_def
proof (intro conjI ballI impI)
  from inv x have "x \<in> seeds \<or> (\<exists>y \<in> visited. x \<in> succ y)" by (auto simp: worklist_inv_def)
  then have "x \<in> reached succ member seeds"
    using inv x(2) by (auto simp: worklist_inv_def intro: reached.intros)
  then show "insert x visited \<subseteq> reached succ member seeds"
    using inv by (simp add: worklist_inv_def)
  show "pending' \<subseteq> seeds \<union> \<Union> (succ ` insert x visited)"
    using inv p(3) by (auto simp: worklist_inv_def)
  fix y assume y: "y \<in> seeds \<union> \<Union> (succ ` insert x visited)" "member y"
  show "y \<in> insert x visited \<union> pending'"
  proof (cases "y \<in> succ x")
    case True
    then show ?thesis using p(2) y(2) by blast
  next
    case False
    then have "y \<in> seeds \<union> \<Union> (succ ` visited)" using y(1) by simp
    then have "y \<in> visited \<union> pending" using inv y(2) by (simp only: worklist_inv_def)
    then show ?thesis using p(1) by blast
  qed
qed

lemma worklist_inv_done:
  assumes inv: "worklist_inv succ member seeds visited {}"
  shows "visited = reached succ member seeds"
proof (rule equalityI)
  show "visited \<subseteq> reached succ member seeds" using inv by (simp only: worklist_inv_def)
  have closed: "y \<in> visited" if "y \<in> seeds \<union> \<Union> (succ ` visited)" "member y" for y
  proof -
    have "y \<in> visited \<union> {}" using inv that by (simp only: worklist_inv_def)
    then show ?thesis by simp
  qed
  show "reached succ member seeds \<subseteq> visited"
  proof
    fix x assume "x \<in> reached succ member seeds"
    then show "x \<in> visited" by induction (blast intro: closed)+
  qed
qed

text \<open>Visiting an element of a finite universe decreases what is left of it, in the form the
  simplifier leaves the termination goals of the loops in.\<close>

lemma unvisited_decreases:
  "finite A \<Longrightarrow> x \<in> A \<Longrightarrow> x \<notin> B \<Longrightarrow> card (A - B) - Suc 0 < card (A - B)"
  by (metis DiffI card_gt_0_iff diff_Suc_less empty_iff finite_Diff)

section \<open>Names numbered by integers\<close>

text \<open>A family of names without repetitions: only finitely many of them are in a finite set, so the
  search for an unused one from any number on ends.\<close>

locale numbered_names =
  fixes cand :: "int \<Rightarrow> 'a"
  assumes cand_inject: "cand i = cand j \<Longrightarrow> i = j"
begin

definition taken_from :: "'a list \<Rightarrow> int \<Rightarrow> int set" where
  "taken_from used i = {j. i \<le> j \<and> cand j \<in> set used}"

lemma finite_taken: "finite (taken_from used i)"
proof -
  have "finite (cand -` set used)"
    by (rule finite_vimageI) (auto simp: inj_def intro: cand_inject)
  then show ?thesis by (rule rev_finite_subset) (auto simp: taken_from_def)
qed

lemma taken_decreases: "cand i \<in> set used \<Longrightarrow> card (taken_from used (i + 1)) < card (taken_from used i)"
proof (rule psubset_card_mono [OF finite_taken])
  assume "cand i \<in> set used"
  then have "i \<in> taken_from used i" "i \<notin> taken_from used (i + 1)" by (simp_all add: taken_from_def)
  moreover have "taken_from used (i + 1) \<subseteq> taken_from used i" by (auto simp: taken_from_def)
  ultimately show "taken_from used (i + 1) \<subset> taken_from used i" by blast
qed

end

section \<open>Supplies of fresh names\<close>

text \<open>What a client of a name allocator relies on: each name supplied was not taken before, it is
  taken afterwards, and nothing else changes.\<close>

locale fresh_supply =
  fixes issue :: "'s \<Rightarrow> 'r \<Rightarrow> 's \<times> 'n" and taken :: "'s \<Rightarrow> 'n set"
  assumes issue_fresh: "snd (issue s r) \<notin> taken s"
    and issue_taken: "taken (fst (issue s r)) = insert (snd (issue s r)) (taken s)"
begin

fun issue_all :: "'s \<Rightarrow> 'r list \<Rightarrow> 's \<times> 'n list" where
  "issue_all s [] = (s, [])"
| "issue_all s (r # rs) =
     (fst (issue_all (fst (issue s r)) rs), snd (issue s r) # snd (issue_all (fst (issue s r)) rs))"

lemma issue_all_length: "length (snd (issue_all s rs)) = length rs"
  by (induction rs arbitrary: s) auto

lemma issue_all_taken: "taken (fst (issue_all s rs)) = taken s \<union> set (snd (issue_all s rs))"
  by (induction rs arbitrary: s) (auto simp: issue_taken)

lemma issue_all_fresh: "set (snd (issue_all s rs)) \<inter> taken s = {} \<and> distinct (snd (issue_all s rs))"
proof (induction rs arbitrary: s)
  case (Cons r rs)
  then show ?case using issue_fresh [of s r] issue_taken [of s r] by auto
qed simp

lemma issue_all_append: "issue_all s (rs @ qs) =
    (fst (issue_all (fst (issue_all s rs)) qs), snd (issue_all s rs) @ snd (issue_all (fst (issue_all s rs)) qs))"
  by (induction rs arbitrary: s) auto

end

end
