(* ===== verification/Py_Text.thy ===== *)
theory Py_Text
  imports Prelude
begin

text \<open>
  Python's \<open>str\<close>: a sequence of Unicode code points, written as a list of naturals. The
  operations are those of the language and its standard library that the program calls:
  white space tests and stripping, case mapping of ASCII letters, decimal rendering of
  integers, the number of bytes of the UTF-8 encoding, and the pointer pattern
  \<open>XREF_RE\<close> with its full match, find-all and substitution. The encoding of a lone
  surrogate raises in Python; text that comes from decoded files never holds one.
\<close>

section \<open>Strings\<close>

type_synonym ustr = "nat list"

definition u :: "string \<Rightarrow> ustr" where
  "u s = map of_char s"

lemma u_inject [simp]: "u s = u t \<longleftrightarrow> s = t"
proof -
  have "inj (of_char :: char \<Rightarrow> nat)" by (rule inj_of_char)
  then show ?thesis by (simp add: u_def inj_map_eq_map)
qed

lemma u_Nil [simp]: "u [] = []"
  by (simp add: u_def)

lemma u_eq_Nil_iff [simp]: "u s = [] \<longleftrightarrow> s = []" and Nil_eq_u_iff [simp]: "[] = u s \<longleftrightarrow> s = []"
  by (simp_all add: u_def)

definition is_space :: "nat \<Rightarrow> bool" where
  "is_space c \<longleftrightarrow> 9 \<le> c \<and> c \<le> 13 \<or> 28 \<le> c \<and> c \<le> 32 \<or> c = 133 \<or> c = 160 \<or> c = 5760
     \<or> 8192 \<le> c \<and> c \<le> 8202 \<or> c = 8232 \<or> c = 8233 \<or> c = 8239 \<or> c = 8287 \<or> c = 12288"

definition is_digit :: "nat \<Rightarrow> bool" where
  "is_digit c \<longleftrightarrow> 48 \<le> c \<and> c \<le> 57"

definition is_upper :: "nat \<Rightarrow> bool" where
  "is_upper c \<longleftrightarrow> 65 \<le> c \<and> c \<le> 90"

definition is_lower :: "nat \<Rightarrow> bool" where
  "is_lower c \<longleftrightarrow> 97 \<le> c \<and> c \<le> 122"

definition is_alpha :: "nat \<Rightarrow> bool" where
  "is_alpha c \<longleftrightarrow> is_upper c \<or> is_lower c"

definition lstrip_if :: "(nat \<Rightarrow> bool) \<Rightarrow> ustr \<Rightarrow> ustr" where
  "lstrip_if P s = dropWhile P s"

definition rstrip_if :: "(nat \<Rightarrow> bool) \<Rightarrow> ustr \<Rightarrow> ustr" where
  "rstrip_if P s = rev (dropWhile P (rev s))"

definition py_strip :: "ustr \<Rightarrow> ustr" where
  "py_strip s = rstrip_if is_space (lstrip_if is_space s)"

text \<open>\<open>str.upper()\<close> on text that is known to be ASCII.\<close>

definition ascii_upper :: "ustr \<Rightarrow> ustr" where
  "ascii_upper s = map (\<lambda>c. if is_lower c then c - 32 else c) s"

text \<open>\<open>str.split()\<close> without a separator: the maximal runs that hold no white space.\<close>

function split_space :: "ustr \<Rightarrow> ustr list" where
  "split_space s = (let t = dropWhile is_space s in
     if t = [] then []
     else takeWhile (\<lambda>c. \<not> is_space c) t # split_space (dropWhile (\<lambda>c. \<not> is_space c) t))"
  by pat_completeness auto
termination
proof (relation "measure length", simp, goal_cases)
  case (1 s t)
  let ?t = "dropWhile is_space s"
  have "\<not> is_space (hd ?t)" using 1 by (simp add: dropWhile_hd_not)
  then have "length (dropWhile (\<lambda>c. \<not> is_space c) ?t) < length ?t"
    using 1 by (cases ?t) (auto intro: le_imp_less_Suc simp: length_dropWhile_le)
  also have "\<dots> \<le> length s" by (rule length_dropWhile_le)
  finally show ?case using 1 by simp
qed

declare split_space.simps [simp del]

lemma split_space_skip: "\<forall>c \<in> set w. is_space c \<Longrightarrow> split_space (w @ s) = split_space s"
proof -
  assume w: "\<forall>c \<in> set w. is_space c"
  then have "dropWhile is_space (w @ s) = dropWhile is_space s"
    by (induction w) auto
  then show ?thesis by (subst (1 2) split_space.simps) simp
qed

lemma split_space_word:
  assumes "w \<noteq> []" "\<forall>c \<in> set w. \<not> is_space c" "s = [] \<or> is_space (hd s)"
  shows "split_space (w @ s) = w # split_space s"
proof -
  have "dropWhile is_space (w @ s) = w @ s" using assms by (cases w) auto
  moreover have "takeWhile (\<lambda>c. \<not> is_space c) (w @ s) = w" "dropWhile (\<lambda>c. \<not> is_space c) (w @ s) = s"
    using assms takeWhile_append_stop [of w "\<lambda>c. \<not> is_space c" s] dropWhile_append_stop [of w "\<lambda>c. \<not> is_space c" s]
    by blast+
  ultimately show ?thesis using assms(1) by (subst split_space.simps) simp
qed

fun join :: "ustr \<Rightarrow> ustr list \<Rightarrow> ustr" where
  "join sep [] = []"
| "join sep [s] = s"
| "join sep (s # t # ss) = s @ sep @ join sep (t # ss)"

text \<open>\<open>str.split(sep)\<close> for a separator of one character.\<close>

fun split_on :: "nat \<Rightarrow> ustr \<Rightarrow> ustr list" where
  "split_on sep [] = [[]]"
| "split_on sep (c # cs) =
     (if c = sep then [] # split_on sep cs
      else case split_on sep cs of [] \<Rightarrow> [[c]] | p # ps \<Rightarrow> (c # p) # ps)"

section \<open>UTF-8 sizes\<close>

definition utf8_size :: "nat \<Rightarrow> nat" where
  "utf8_size c = (if c < 128 then 1 else if c < 2048 then 2 else if c < 65536 then 3 else 4)"

definition utf8_len :: "ustr \<Rightarrow> nat" where
  "utf8_len s = sum_list (map utf8_size s)"

lemma utf8_len_simps [simp]:
  "utf8_len [] = 0" "utf8_len (c # s) = utf8_size c + utf8_len s"
  "utf8_len (s @ t) = utf8_len s + utf8_len t"
  by (simp_all add: utf8_len_def)

lemma utf8_size_pos [simp]: "0 < utf8_size c"
  by (simp add: utf8_size_def)

lemma length_le_utf8_len: "length s \<le> utf8_len s"
proof (induction s)
  case (Cons c s)
  then show ?case using utf8_size_pos [of c] by (simp del: utf8_size_pos)
qed simp

lemma utf8_len_ascii: "\<forall>c \<in> set s. c < 128 \<Longrightarrow> utf8_len s = length s"
  by (induction s) (auto simp: utf8_size_def)

section \<open>Decimal numbers\<close>

fun dec_nat :: "nat \<Rightarrow> ustr" where
  "dec_nat n = (if n < 10 then [48 + n] else dec_nat (n div 10) @ [48 + n mod 10])"

declare dec_nat.simps [simp del]

definition dec_int :: "int \<Rightarrow> ustr" where
  "dec_int i = (if i < 0 then 45 # dec_nat (nat (- i)) else dec_nat (nat i))"

definition dec_value :: "ustr \<Rightarrow> nat" where
  "dec_value s = foldl (\<lambda>n c. 10 * n + (c - 48)) 0 s"

lemma dec_nat_not_Nil [simp]: "dec_nat n \<noteq> []"
  by (subst dec_nat.simps) simp

lemma dec_nat_digits: "\<forall>c \<in> set (dec_nat n). is_digit c"
proof (induction n rule: dec_nat.induct)
  case (1 n)
  show ?case
  proof (cases "n < 10")
    case True
    then show ?thesis by (subst dec_nat.simps) (simp add: is_digit_def)
  next
    case False
    with 1 have "\<forall>c \<in> set (dec_nat (n div 10)). is_digit c" by simp
    with False show ?thesis by (subst dec_nat.simps) (auto simp: is_digit_def)
  qed
qed

lemma dec_value_dec_nat [simp]: "dec_value (dec_nat n) = n"
proof (induction n rule: dec_nat.induct)
  case (1 n)
  show ?case
  proof (cases "n < 10")
    case True
    then show ?thesis by (subst dec_nat.simps) (simp add: dec_value_def)
  next
    case False
    with 1 have "dec_value (dec_nat (n div 10)) = n div 10" by simp
    with False show ?thesis by (subst dec_nat.simps) (simp add: dec_value_def)
  qed
qed

lemma dec_nat_inject [simp]: "dec_nat m = dec_nat n \<longleftrightarrow> m = n"
  by (metis dec_value_dec_nat)

lemma hd_dec_nat_digit: "is_digit (hd (dec_nat n))"
  using dec_nat_digits [of n] by (cases "dec_nat n") auto

lemma dec_int_inject [simp]: "dec_int i = dec_int j \<longleftrightarrow> i = j"
proof -
  have "dec_nat n \<noteq> 45 # s" for n s
    using hd_dec_nat_digit [of n] by (auto simp: is_digit_def)
  then show ?thesis by (auto simp: dec_int_def split: if_splits) (metis)+
qed

text \<open>The format \<open>{n:0wd}\<close>, padded with zeros to a width.\<close>

definition padded :: "nat \<Rightarrow> nat \<Rightarrow> ustr" where
  "padded w n = replicate (w - length (dec_nat n)) 48 @ dec_nat n"

lemma dec_value_padded [simp]: "dec_value (padded w n) = n"
proof -
  have "foldl (\<lambda>n c. 10 * n + (c - 48)) 0 (replicate k (48::nat)) = 0" for k by (induction k) simp_all
  then show ?thesis using dec_value_dec_nat [of n] by (simp add: padded_def dec_value_def)
qed

lemma padded_inject [simp]: "padded w m = padded w n \<longleftrightarrow> m = n"
  by (metis dec_value_padded)

lemma padded_digits: "\<forall>c \<in> set (padded w n). is_digit c"
  using dec_nat_digits [of n] by (auto simp: padded_def is_digit_def)

section \<open>Pointers\<close>

text \<open>\<open>XREF_RE\<close> is \<open>@[A-Za-z0-9_:-]+@\<close>.\<close>

definition xref_char :: "nat \<Rightarrow> bool" where
  "xref_char c \<longleftrightarrow> is_alpha c \<or> is_digit c \<or> c = 95 \<or> c = 58 \<or> c = 45"

text \<open>A match at the start of the text, with what follows it. The name is the longest run of
  name characters, since the closing \<open>@\<close> is not one.\<close>

definition xref_prefix :: "ustr \<Rightarrow> (ustr \<times> ustr) option" where
  "xref_prefix s = (case s of
     [] \<Rightarrow> None
   | c # cs \<Rightarrow>
       (let name = takeWhile xref_char cs; rest = dropWhile xref_char cs in
        if c = 64 \<and> name \<noteq> [] \<and> rest \<noteq> [] \<and> hd rest = 64
        then Some (c # name @ [64], tl rest) else None))"

definition xref_fullmatch :: "ustr \<Rightarrow> bool" where
  "xref_fullmatch s \<longleftrightarrow> (case xref_prefix s of None \<Rightarrow> False | Some (m, rest) \<Rightarrow> rest = [])"

lemma xref_prefix_append: "xref_prefix s = Some (m, rest) \<Longrightarrow> s = m @ rest"
proof -
  assume a: "xref_prefix s = Some (m, rest)"
  then obtain c cs where s: "s = c # cs" by (cases s) (auto simp: xref_prefix_def)
  let ?r = "dropWhile xref_char cs"
  from a s have m: "c = 64" "m = c # takeWhile xref_char cs @ [64]" "?r \<noteq> []" "hd ?r = 64" "rest = tl ?r"
    by (auto simp: xref_prefix_def Let_def split: if_splits)
  then have "cs = takeWhile xref_char cs @ 64 # rest"
    by (metis list.collapse takeWhile_dropWhile_id)
  with s m show ?thesis by simp
qed

lemma xref_prefix_shorter: "xref_prefix s = Some (m, rest) \<Longrightarrow> length rest < length s"
proof -
  assume a: "xref_prefix s = Some (m, rest)"
  then have "m \<noteq> []" by (auto simp: xref_prefix_def Let_def split: list.splits if_splits)
  with xref_prefix_append [OF a] show ?thesis by simp
qed

text \<open>The scan of a text: pointers (\<open>Inl\<close>) and the characters between them (\<open>Inr\<close>).\<close>

function xref_scan :: "ustr \<Rightarrow> (ustr + nat) list" where
  "xref_scan s = (case s of
     [] \<Rightarrow> []
   | c # cs \<Rightarrow> (case xref_prefix s of
        Some (m, rest) \<Rightarrow> Inl m # xref_scan rest
      | None \<Rightarrow> Inr c # xref_scan cs))"
  by pat_completeness auto
termination
  by (relation "measure length") (auto dest: xref_prefix_shorter)

declare xref_scan.simps [simp del]

definition xref_findall :: "ustr \<Rightarrow> ustr list" where
  "xref_findall s = concat (map (\<lambda>t. case t of Inl m \<Rightarrow> [m] | Inr c \<Rightarrow> []) (xref_scan s))"

definition xref_sub :: "(ustr \<Rightarrow> ustr) \<Rightarrow> ustr \<Rightarrow> ustr" where
  "xref_sub f s = concat (map (\<lambda>t. case t of Inl m \<Rightarrow> f m | Inr c \<Rightarrow> [c]) (xref_scan s))"

lemma xref_scan_Nil [simp]: "xref_scan [] = []"
  by (simp add: xref_scan.simps)

lemma xref_sub_ident: "(\<And>m. m \<in> set (xref_findall s) \<Longrightarrow> f m = m) \<Longrightarrow> xref_sub f s = s"
proof (induction s rule: xref_scan.induct)
  case (1 s)
  show ?case
  proof (cases s)
    case Nil
    then show ?thesis by (simp add: xref_sub_def)
  next
    case (Cons c cs)
    show ?thesis
    proof (cases "xref_prefix s")
      case None
      from None Cons have scan: "xref_scan s = Inr c # xref_scan cs" by (subst xref_scan.simps) simp
      have "xref_sub f cs = cs"
        using "1.IH"(1) [OF Cons None] "1.prems" scan by (auto simp: xref_findall_def)
      with scan Cons show ?thesis by (simp add: xref_sub_def)
    next
      case (Some p)
      obtain m rest where p: "p = (m, rest)" by (cases p)
      from Some p Cons have scan: "xref_scan s = Inl m # xref_scan rest"
        by (subst xref_scan.simps) simp
      have rest: "xref_sub f rest = rest"
        using "1.IH"(2) [OF Cons Some] p "1.prems" scan by (auto simp: xref_findall_def)
      have "f m = m" using "1.prems" scan by (simp add: xref_findall_def)
      with rest scan xref_prefix_append [OF Some [unfolded p]] show ?thesis
        by (simp add: xref_sub_def)
    qed
  qed
qed

end
