(* ===== verification/Gedcom_Model.thy ===== *)
theory Gedcom_Model
  imports Py_Text
begin

text \<open>
  The document values and the physical-line parser of \<open>gedcom/model.py\<close>: the parsed
  line, the level-zero record kept as its raw lines, and \<open>parse_gedcom_line\<close> with its two
  regular expressions. The level pattern is \<open>^(?:0|[1-9][0-9]?)(?:\s|$)\<close>; the line pattern
  is \<open>level (\s+ xref)? \s+ tag (\s+ value)?\<close>. Both are read left to right without
  backtracking here: after the level the next character is white space or the end, a
  pointer starts with \<open>@\<close> while a tag does not, a tag must be followed by white space or
  the end, and the value holds no line feed.
\<close>

section \<open>Data\<close>

text \<open>\<open>GedcomParseError\<close> and the other \<open>ValueError\<close>s of the GEDCOM kernel, one constructor per
  message, with the built-in errors of indexing.\<close>

datatype gedcom_error =
    InvalidLevel nat ustr
  | InvalidLine nat ustr
  | UnsupportedVersion ustr
  | VersionDeclaration
  | OutputEmpty
  | MustStartHead
  | MustEndTrlr
  | ExactlyOneHead
  | ExactlyOneTrlr
  | LineTooLong
  | TagTooLong ustr
  | TagNotUpper ustr
  | XrefNotLevelZero
  | InvalidXref ustr
  | DuplicateXref ustr
  | LevelSkipped
  | WrongVersion ustr
  | WrongCharset ustr
  | ContinuationLimit
  | WrapBelow99
  | InputBeginHead
  | InputEndTrlr
  | InputDuplicateIdentifier
  | InputOneHead
  | InputOneTrlr
  | IndexOutOfRange
  | KeyMissing ustr
  | UnknownScope ustr
  | NegativeGenerations
  | RootNotFound ustr
  | RootAmbiguous ustr
  | NameBlockExpected

record gedcom_line =
  gl_level :: nat
  gl_xref :: ustr
  gl_tag :: ustr
  gl_value :: ustr
  gl_raw :: ustr

record gedcom_record =
  gr_lines :: "ustr list"
  gr_source_file :: ustr
  gr_sequence :: nat
  gr_encoding :: ustr

section \<open>The line parser\<close>

definition tag_char :: "nat \<Rightarrow> bool" where
  "tag_char c \<longleftrightarrow> is_alpha c \<or> is_digit c \<or> c = 95"

definition clean_raw :: "ustr \<Rightarrow> ustr" where
  "clean_raw line = lstrip_if (\<lambda>c. c = 65279) (rstrip_if (\<lambda>c. c = 13 \<or> c = 10) line)"

text \<open>The level at the start of a raw line, with what follows it.\<close>

definition level_prefix :: "ustr \<Rightarrow> (ustr \<times> ustr) option" where
  "level_prefix raw =
     (let ds = takeWhile is_digit raw; rest = dropWhile is_digit raw in
      if (ds = [48] \<or> ds \<noteq> [] \<and> length ds \<le> 2 \<and> hd ds \<noteq> 48) \<and> (rest = [] \<or> is_space (hd rest))
      then Some (ds, rest) else None)"

text \<open>The general pointer of the line pattern, \<open>@[^@\s]+@\<close> followed by white space.\<close>

definition line_xref :: "ustr \<Rightarrow> (ustr \<times> ustr) option" where
  "line_xref s = (case s of
     [] \<Rightarrow> None
   | c # cs \<Rightarrow>
       (let name = takeWhile (\<lambda>d. d \<noteq> 64 \<and> \<not> is_space d) cs;
            rest = dropWhile (\<lambda>d. d \<noteq> 64 \<and> \<not> is_space d) cs in
        if c = 64 \<and> name \<noteq> [] \<and> rest \<noteq> [] \<and> hd rest = 64 \<and> tl rest \<noteq> [] \<and> is_space (hd (tl rest))
        then Some (c # name @ [64], tl rest) else None))"

text \<open>White space, a tag, and an optional value up to the end.\<close>

definition tag_value :: "ustr \<Rightarrow> (ustr \<times> ustr) option" where
  "tag_value s =
     (let t = dropWhile is_space s; tag = takeWhile tag_char t; rest = dropWhile tag_char t;
          value = dropWhile is_space rest in
      if s \<noteq> [] \<and> is_space (hd s) \<and> tag \<noteq> [] \<and> (rest = [] \<or> is_space (hd rest)) \<and> 10 \<notin> set value
      then Some (tag, value) else None)"

definition parse_gedcom_line :: "nat \<Rightarrow> ustr \<Rightarrow> gedcom_error + gedcom_line" where
  "parse_gedcom_line line_number line =
     (let raw = clean_raw line in
      case level_prefix raw of
        None \<Rightarrow> Inl (InvalidLevel line_number raw)
      | Some (ds, rest) \<Rightarrow>
          (let (xref, rest') = (if rest \<noteq> [] \<and> is_space (hd rest)
                then (case line_xref (dropWhile is_space rest) of
                        Some (x, r) \<Rightarrow> (x, r) | None \<Rightarrow> ([], rest))
                else ([], rest)) in
           case tag_value rest' of
             None \<Rightarrow> Inl (InvalidLine line_number raw)
           | Some (tag, value) \<Rightarrow>
               Inr \<lparr>gl_level = dec_value ds, gl_xref = xref, gl_tag = ascii_upper tag,
                    gl_value = value, gl_raw = raw\<rparr>))"

text \<open>The properties of a \<open>GedcomRecord\<close>; \<open>self.lines[0]\<close> raises on an empty record, which the
  loader never builds.\<close>

definition record_header :: "gedcom_record \<Rightarrow> gedcom_error + gedcom_line" where
  "record_header r = (case gr_lines r of [] \<Rightarrow> Inl IndexOutOfRange | l # _ \<Rightarrow> parse_gedcom_line 0 l)"

definition record_pointer :: "gedcom_record \<Rightarrow> gedcom_error + ustr" where
  "record_pointer r = bindE (record_header r) (\<lambda>h. Inr (gl_xref h))"

text \<open>\<open>_top_level_blocks\<close> and \<open>_direct_blocks\<close> share this loop: a line at the child level opens a
  block, deeper lines join the open block, and lines before the first block are dropped.\<close>

fun split_blocks :: "nat \<Rightarrow> ustr list list \<Rightarrow> ustr list \<Rightarrow> ustr list \<Rightarrow> gedcom_error + ustr list list" where
  "split_blocks child blocks current [] = Inr (if current = [] then blocks else blocks @ [current])"
| "split_blocks child blocks current (line # lines) = bindE (parse_gedcom_line 0 line) (\<lambda>p.
     if gl_level p = child
     then split_blocks child (if current = [] then blocks else blocks @ [current]) [line] lines
     else if current \<noteq> [] then split_blocks child blocks (current @ [line]) lines
     else split_blocks child blocks current lines)"

definition top_level_blocks :: "ustr list \<Rightarrow> gedcom_error + ustr list list" where
  "top_level_blocks lines = split_blocks 1 [] [] (drop 1 lines)"

definition record_tag :: "gedcom_record \<Rightarrow> gedcom_error + ustr" where
  "record_tag r = bindE (record_header r) (\<lambda>h. Inr (gl_tag h))"

section \<open>What a parsed line satisfies\<close>

text \<open>The parts a line can be parsed into: a level below 100, no pointer or one in at signs
  without white space, an upper-case tag, and a value that does not start with white space, holds
  no line feed and does not end in a carriage return.\<close>

definition xref_shape :: "ustr \<Rightarrow> bool" where
  "xref_shape x \<longleftrightarrow> (\<exists>name. x = 64 # name @ [64] \<and> name \<noteq> [] \<and> (\<forall>c \<in> set name. c \<noteq> 64 \<and> \<not> is_space c))"

definition tag_shape :: "ustr \<Rightarrow> bool" where
  "tag_shape t \<longleftrightarrow> t \<noteq> [] \<and> (\<forall>c \<in> set t. tag_char c \<and> \<not> is_lower c)"

definition value_shape :: "ustr \<Rightarrow> bool" where
  "value_shape v \<longleftrightarrow> (v \<noteq> [] \<longrightarrow> \<not> is_space (hd v) \<and> last v \<noteq> 13) \<and> 10 \<notin> set v"

definition parts_ok :: "nat \<Rightarrow> ustr \<Rightarrow> ustr \<Rightarrow> ustr \<Rightarrow> bool" where
  "parts_ok l x t v \<longleftrightarrow> l < 100 \<and> (x = [] \<or> xref_shape x) \<and> tag_shape t \<and> value_shape v"

text \<open>One space between the parts.\<close>

definition render_line :: "nat \<Rightarrow> ustr \<Rightarrow> ustr \<Rightarrow> ustr \<Rightarrow> ustr" where
  "render_line l x t v = dec_nat l @ 32 # (if x = [] then [] else x @ [32]) @ t
     @ (if v = [] then [] else 32 # v)"

lemma is_space_32 [simp]: "is_space 32" and is_space_64 [simp]: "\<not> is_space 64"
  by (simp_all add: is_space_def)

lemma digit_not_space: "is_digit c \<Longrightarrow> \<not> is_space c"
  by (auto simp: is_digit_def is_space_def)

lemma tag_char_not_space: "tag_char c \<Longrightarrow> \<not> is_space c"
  by (auto simp: tag_char_def is_alpha_def is_upper_def is_lower_def is_digit_def is_space_def)

lemma tag_char_not_at: "tag_char c \<Longrightarrow> c \<noteq> 64"
  by (auto simp: tag_char_def is_alpha_def is_upper_def is_lower_def is_digit_def)

lemma tag_shape_upper: "\<forall>c \<in> set t. tag_char c \<Longrightarrow> t \<noteq> [] \<Longrightarrow> tag_shape (ascii_upper t)"
  by (auto simp: tag_shape_def ascii_upper_def tag_char_def is_alpha_def is_upper_def is_lower_def is_digit_def)

lemma ascii_upper_tag [simp]: "tag_shape t \<Longrightarrow> ascii_upper t = t"
  by (auto simp: tag_shape_def ascii_upper_def intro!: map_idI)

lemma clean_raw_ident:
  assumes "s \<noteq> []" "hd s \<noteq> 65279" "last s \<noteq> 13" "last s \<noteq> 10"
  shows "clean_raw s = s"
proof -
  have "dropWhile (\<lambda>c. c = 13 \<or> c = 10) (rev s) = rev s"
    using assms by (intro dropWhile_idem_hd) (auto simp: hd_rev)
  with assms show ?thesis by (simp add: clean_raw_def rstrip_if_def lstrip_if_def dropWhile_idem_hd)
qed

lemma clean_raw_last: "clean_raw s \<noteq> [] \<Longrightarrow> last (clean_raw s) \<noteq> 13 \<and> last (clean_raw s) \<noteq> 10"
proof -
  assume ne: "clean_raw s \<noteq> []"
  let ?t = "rstrip_if (\<lambda>c. c = 13 \<or> c = 10) s"
  from ne have t: "last (clean_raw s) = last ?t" "?t \<noteq> []"
    by (auto simp: clean_raw_def lstrip_if_def last_dropWhile)
  have "rev ?t = dropWhile (\<lambda>c. c = 13 \<or> c = 10) (rev s)" by (simp add: rstrip_if_def)
  moreover have "rev ?t \<noteq> []" using t by simp
  ultimately have "\<not> (hd (rev ?t) = 13 \<or> hd (rev ?t) = 10)"
    using dropWhile_hd_not [of "\<lambda>c. c = 13 \<or> c = 10" "rev s"] by simp
  with t show ?thesis by (simp add: hd_rev)
qed

lemma dec_nat_below_100:
  "n < 100 \<Longrightarrow> dec_nat n = (if n < 10 then [48 + n] else [48 + n div 10, 48 + n mod 10])"
proof -
  assume n: "n < 100"
  then have "dec_nat (n div 10) = [48 + n div 10]" by (subst dec_nat.simps) simp
  then show ?thesis using n by (subst dec_nat.simps) simp
qed

lemma level_prefix_render: "l < 100 \<Longrightarrow> level_prefix (dec_nat l @ 32 # s) = Some (dec_nat l, 32 # s)"
proof -
  assume l: "l < 100"
  have no: "\<not> is_digit 32" by (simp add: is_digit_def)
  have tw: "takeWhile is_digit (dec_nat l @ 32 # s) = dec_nat l"
    using dec_nat_digits [of l] no by (simp add: takeWhile_append_stop)
  have dw: "dropWhile is_digit (dec_nat l @ 32 # s) = 32 # s"
    using dec_nat_digits [of l] no by (simp add: dropWhile_append_stop)
  from l have "dec_nat l = [48] \<or> length (dec_nat l) \<le> 2 \<and> hd (dec_nat l) \<noteq> 48"
    by (auto simp: dec_nat_below_100)
  then show ?thesis by (simp add: level_prefix_def tw dw Let_def)
qed

lemma level_prefix_Some:
  assumes "level_prefix raw = Some (ds, rest)"
  shows "raw = ds @ rest" "dec_value ds < 100" "rest = [] \<or> is_space (hd rest)" "ds \<noteq> []"
proof -
  from assms have ds: "ds = takeWhile is_digit raw" "rest = dropWhile is_digit raw"
    "ds = [48] \<or> ds \<noteq> [] \<and> length ds \<le> 2" "rest = [] \<or> is_space (hd rest)"
    by (auto simp: level_prefix_def Let_def split: if_splits)
  from ds show "raw = ds @ rest" "rest = [] \<or> is_space (hd rest)" "ds \<noteq> []" by auto
  have dig: "\<forall>c \<in> set ds. is_digit c" using ds(1) by (auto dest: set_takeWhileD)
  from ds(3) consider "ds = [48]" | a where "ds = [a]" | a b where "ds = [a, b]"
    by (cases ds; cases "tl ds"; cases "tl (tl ds)") auto
  then show "dec_value ds < 100"
    using dig by cases (auto simp: dec_value_def is_digit_def)
qed

lemma line_xref_render:
  "xref_shape x \<Longrightarrow> is_space c \<Longrightarrow> line_xref (x @ c # s) = Some (x, c # s)"
  by (auto simp: xref_shape_def line_xref_def takeWhile_append_stop dropWhile_append_stop Let_def)

lemma line_xref_Some: "line_xref s = Some (x, r) \<Longrightarrow> xref_shape x \<and> s = x @ r \<and> r \<noteq> [] \<and> is_space (hd r)"
proof -
  assume a: "line_xref s = Some (x, r)"
  let ?P = "\<lambda>d. d \<noteq> 64 \<and> \<not> is_space d"
  from a obtain cs where s: "s = 64 # cs" "takeWhile ?P cs \<noteq> []" "dropWhile ?P cs \<noteq> []"
    "hd (dropWhile ?P cs) = 64" "x = 64 # takeWhile ?P cs @ [64]" "r = tl (dropWhile ?P cs)"
    "r \<noteq> []" "is_space (hd r)"
    by (auto simp: line_xref_def Let_def split: list.splits if_splits)
  have "xref_shape x" using s(2,5) by (auto simp: xref_shape_def dest: set_takeWhileD)
  moreover have "cs = takeWhile ?P cs @ 64 # r"
    using s(3,4,6) by (metis list.collapse takeWhile_dropWhile_id)
  ultimately show ?thesis using s by simp
qed

lemma tag_value_render:
  assumes "tag_shape t" "value_shape v"
  shows "tag_value (32 # t @ (if v = [] then [] else 32 # v)) = Some (t, v)"
proof -
  let ?e = "if v = [] then [] else 32 # v"
  from assms(1) have t: "t \<noteq> []" "\<forall>c \<in> set t. tag_char c" "\<not> is_space (hd t)"
    by (auto simp: tag_shape_def tag_char_not_space)
  have no: "\<not> tag_char 32" by (simp add: tag_char_def is_alpha_def is_upper_def is_lower_def is_digit_def)
  have "dropWhile is_space (32 # t @ ?e) = t @ ?e"
    using t by (cases t) auto
  moreover have "takeWhile tag_char (t @ ?e) = t" "dropWhile tag_char (t @ ?e) = ?e"
    using t no by (auto simp: takeWhile_append_stop dropWhile_append_stop)
  moreover have "dropWhile is_space ?e = v"
    using assms(2) by (auto simp: value_shape_def dropWhile_idem_hd)
  ultimately show ?thesis
    using t assms(2) by (simp add: tag_value_def Let_def value_shape_def)
qed

lemma tag_value_Some:
  assumes "tag_value s = Some (t, v)"
  shows "t \<noteq> []" "\<forall>c \<in> set t. tag_char c" "10 \<notin> set v" "v \<noteq> [] \<Longrightarrow> \<not> is_space (hd v)"
    "v \<noteq> [] \<Longrightarrow> last v = last s" "\<exists>w. s = w @ v" "s \<noteq> []" "is_space (hd s)"
proof -
  let ?t = "dropWhile is_space s"
  let ?r = "dropWhile tag_char ?t"
  from assms have a: "t = takeWhile tag_char ?t" "v = dropWhile is_space ?r" "t \<noteq> []" "10 \<notin> set v"
    "s \<noteq> []" "is_space (hd s)"
    by (auto simp: tag_value_def Let_def split: if_splits)
  then show "t \<noteq> []" "10 \<notin> set v" "s \<noteq> []" "is_space (hd s)" by simp_all
  from a(1) show "\<forall>c \<in> set t. tag_char c" by (auto dest: set_takeWhileD)
  show "v \<noteq> [] \<Longrightarrow> \<not> is_space (hd v)" unfolding a(2) by (rule dropWhile_hd_not)
  show "v \<noteq> [] \<Longrightarrow> last v = last s" using a(2) by (metis dropWhile.simps(1) last_dropWhile)
  show "\<exists>w. s = w @ v" unfolding a(2) by (metis append.assoc takeWhile_dropWhile_id)
qed

text \<open>A rendered line parses into its parts.\<close>

lemma last_render: "parts_ok l x t v \<Longrightarrow> last (render_line l x t v) = last (t @ v)"
  by (auto simp: render_line_def parts_ok_def tag_shape_def)

lemma parse_render_line:
  assumes ok: "parts_ok l x t v"
  shows "parse_gedcom_line n (render_line l x t v) = Inr
    \<lparr>gl_level = l, gl_xref = x, gl_tag = t, gl_value = v, gl_raw = render_line l x t v\<rparr>"
proof -
  let ?s = "render_line l x t v"
  let ?body = "(if x = [] then [] else x @ [32]) @ t @ (if v = [] then [] else 32 # v)"
  from ok have t: "tag_shape t" and v: "value_shape v" and l: "l < 100" and x: "x = [] \<or> xref_shape x"
    by (simp_all add: parts_ok_def)
  have split: "?s = dec_nat l @ 32 # ?body" by (simp add: render_line_def)
  have "last ?s \<noteq> 13 \<and> last ?s \<noteq> 10"
  proof (cases "v = []")
    case True
    have "tag_char (last t)" using t by (auto simp: tag_shape_def)
    then show ?thesis using True last_render [OF ok]
      by (auto simp: tag_char_def is_alpha_def is_upper_def is_lower_def is_digit_def)
  next
    case False
    then have "last v \<noteq> 10" using v by (auto simp: value_shape_def) (metis last_in_set)
    with False v show ?thesis using last_render [OF ok] by (simp add: value_shape_def)
  qed
  moreover have "hd ?s \<noteq> 65279"
    using hd_dec_nat_digit [of l] by (simp add: render_line_def is_digit_def)
  ultimately have raw: "clean_raw ?s = ?s" by (intro clean_raw_ident) (auto simp: render_line_def)
  have lev: "level_prefix ?s = Some (dec_nat l, 32 # ?body)"
    unfolding split using l by (rule level_prefix_render)
  have tv: "tag_value (32 # t @ (if v = [] then [] else 32 # v)) = Some (t, v)"
    using t v by (rule tag_value_render)
  have hdt: "t \<noteq> []" "\<not> is_space (hd t)" "hd t \<noteq> 64"
    using t tag_char_not_space tag_char_not_at by (auto simp: tag_shape_def)
  show ?thesis
  proof (cases "x = []")
    case True
    have "line_xref (dropWhile is_space (32 # ?body)) = None"
      using True hdt by (cases t) (auto simp: line_xref_def)
    with True raw lev tv t show ?thesis by (simp add: parse_gedcom_line_def Let_def)
  next
    case False
    with x have xs: "xref_shape x" by simp
    then have dw: "dropWhile is_space (32 # ?body) = ?body"
      using False by (auto simp: xref_shape_def)
    have "line_xref ?body = Some (x, 32 # t @ (if v = [] then [] else 32 # v))"
      using False line_xref_render [OF xs, of 32 "t @ (if v = [] then [] else 32 # v)"] by simp
    with raw lev tv t dw show ?thesis by (simp add: parse_gedcom_line_def Let_def del: dropWhile.simps)
  qed
qed

text \<open>The parts of every parsed line satisfy \<open>parts_ok\<close>.\<close>

lemma parse_gedcom_line_parts:
  assumes p: "parse_gedcom_line n line = Inr p"
  shows "parts_ok (gl_level p) (gl_xref p) (gl_tag p) (gl_value p)" and "gl_raw p = clean_raw line"
proof -
  let ?raw = "clean_raw line"
  from p obtain ds rest where lev: "level_prefix ?raw = Some (ds, rest)"
    by (auto simp: parse_gedcom_line_def Let_def split: option.splits)
  note L = level_prefix_Some [OF lev]
  obtain x r where xr: "(if rest \<noteq> [] \<and> is_space (hd rest)
      then (case line_xref (dropWhile is_space rest) of Some (x, r) \<Rightarrow> (x, r) | None \<Rightarrow> ([], rest))
      else ([], rest)) = (x, r)" by fastforce
  from p lev xr obtain t v where tv: "tag_value r = Some (t, v)"
    and eq: "p = \<lparr>gl_level = dec_value ds, gl_xref = x, gl_tag = ascii_upper t, gl_value = v, gl_raw = ?raw\<rparr>"
    by (auto simp: parse_gedcom_line_def Let_def split: option.splits)
  note T = tag_value_Some [OF tv]
  have x: "x = [] \<or> xref_shape x" and r: "\<exists>w. rest = w @ r"
  proof -
    from xr show "x = [] \<or> xref_shape x"
      by (auto split: if_splits option.splits dest: line_xref_Some)
    show "\<exists>w. rest = w @ r"
    proof (cases "line_xref (dropWhile is_space rest)")
      case None
      then show ?thesis using xr by (auto split: if_splits)
    next
      case (Some q)
      obtain qx qr where q: "q = (qx, qr)" by (cases q)
      have "rest = takeWhile is_space rest @ qx @ qr"
        using line_xref_Some [OF Some [unfolded q]] by (metis takeWhile_dropWhile_id)
      then have "rest = (takeWhile is_space rest @ qx) @ qr" by simp
      then have "\<exists>w. rest = w @ qr" by (rule exI)
      with xr Some q show ?thesis by (auto split: if_splits)
    qed
  qed
  have "v \<noteq> [] \<Longrightarrow> last v \<noteq> 13"
  proof -
    assume v: "v \<noteq> []"
    from r obtain w where "?raw = ds @ w @ r" using L(1) by auto
    with T(5,7) v have "last v = last ?raw" by simp
    with clean_raw_last [of line] L(1,4) show "last v \<noteq> 13" by auto
  qed
  with T x L(2) show "parts_ok (gl_level p) (gl_xref p) (gl_tag p) (gl_value p)"
    by (simp add: eq parts_ok_def value_shape_def tag_shape_upper)
  show "gl_raw p = ?raw" by (simp add: eq)
qed

text \<open>The words of a parsed line: its level, its pointer if it has one, its tag as it is spelled.\<close>

lemma parse_gedcom_line_words:
  assumes p: "parse_gedcom_line n line = Inr p"
  shows "\<exists>ds t ws. split_space (gl_raw p) = ds # (if gl_xref p = [] then [] else [gl_xref p]) @ t # ws
    \<and> gl_tag p = ascii_upper t"
proof -
  let ?raw = "clean_raw line"
  let ?next = "\<lambda>rest. if rest \<noteq> [] \<and> is_space (hd rest)
      then (case line_xref (dropWhile is_space rest) of Some (x, r) \<Rightarrow> (x, r) | None \<Rightarrow> ([], rest))
      else ([], rest)"
  from p obtain ds rest where lev: "level_prefix ?raw = Some (ds, rest)"
    by (auto simp: parse_gedcom_line_def Let_def split: option.splits)
  note L = level_prefix_Some [OF lev]
  have dsn: "\<forall>c \<in> set ds. \<not> is_space c"
    using lev by (auto simp: level_prefix_def Let_def digit_not_space split: if_splits dest: set_takeWhileD)
  obtain x r where xr: "?next rest = (x, r)" by fastforce
  from p lev xr obtain t v where tv: "tag_value r = Some (t, v)"
    and eq: "p = \<lparr>gl_level = dec_value ds, gl_xref = x, gl_tag = ascii_upper t, gl_value = v, gl_raw = ?raw\<rparr>"
    by (auto simp: parse_gedcom_line_def Let_def split: option.splits)
  let ?t = "dropWhile is_space r"
  have tw: "t = takeWhile tag_char ?t" "t \<noteq> []"
    "dropWhile tag_char ?t = [] \<or> is_space (hd (dropWhile tag_char ?t))"
    using tv by (auto simp: tag_value_def Let_def split: if_splits)
  have r: "split_space r = t # split_space (dropWhile tag_char ?t)"
  proof -
    have "r = takeWhile is_space r @ t @ dropWhile tag_char ?t"
      unfolding tw(1) by (simp only: takeWhile_dropWhile_id)
    then have "split_space r = split_space (t @ dropWhile tag_char ?t)"
      by (metis set_takeWhileD split_space_skip)
    also have "\<dots> = t # split_space (dropWhile tag_char ?t)"
      using tw tag_value_Some(2) [OF tv] by (intro split_space_word) (auto simp: tag_char_not_space)
    finally show ?thesis .
  qed
  have rest: "split_space rest = (if x = [] then [] else [x]) @ split_space r"
  proof (cases "line_xref (dropWhile is_space rest)")
    case None
    then show ?thesis using xr by (auto split: if_splits)
  next
    case (Some q)
    obtain qx qr where q: "q = (qx, qr)" by (cases q)
    note X = line_xref_Some [OF Some [unfolded q]]
    have "rest \<noteq> []" using tag_value_Some(7) [OF tv] xr by (auto split: if_splits)
    with xr Some q L(3) have qe: "qx = x" "qr = r" by auto
    with X have xs: "xref_shape x" "dropWhile is_space rest = x @ r" "r \<noteq> []" "is_space (hd r)" by simp_all
    then have "x \<noteq> []" "\<forall>c \<in> set x. \<not> is_space c" by (auto simp: xref_shape_def)
    moreover have "split_space rest = split_space (x @ r)"
      using xs(2) split_space_skip [of "takeWhile is_space rest" "x @ r"]
      by (metis set_takeWhileD takeWhile_dropWhile_id)
    ultimately show ?thesis using xs split_space_word [of x r] by simp
  qed
  have "split_space ?raw = ds # split_space rest"
    unfolding L(1) using L(3,4) dsn by (intro split_space_word) auto
  with rest r show ?thesis by (auto simp: eq)
qed

lemma parse_line_number: "parse_gedcom_line n line = Inr p \<Longrightarrow> parse_gedcom_line m line = Inr p"
  by (auto simp: parse_gedcom_line_def Let_def split: option.splits prod.splits if_splits)

end
