(* ===== verification/Gedcom_Serializer.thy ===== *)
theory Gedcom_Serializer
  imports Gedcom_Model
begin

text \<open>
  \<open>gedcom/serializer.py\<close>: the canonical spelling of a line, the largest UTF-8 prefix within a
  byte limit, and the wrapping of long values into \<open>CONC\<close> continuations of at most 255 bytes.
  The optional checkpoint of the wrapper only raises when its job was cancelled; here it
  returns.
\<close>

section \<open>Operations\<close>

record gedcom_document =
  gd_version :: ustr
  gd_lines :: "ustr list"

definition supported_gedcom_versions :: "ustr list" where
  "supported_gedcom_versions = [u ''5.5.5'', u ''5.5.1'']"

definition serialize_gedcom_document :: "gedcom_document \<Rightarrow> gedcom_error + ustr" where
  "serialize_gedcom_document d =
     (if gd_version d \<notin> set supported_gedcom_versions then Inl (UnsupportedVersion (gd_version d))
      else Inr (join [10] (gd_lines d) @ [10]))"

definition canonical_gedcom_line :: "ustr \<Rightarrow> gedcom_error + ustr" where
  "canonical_gedcom_line line = bindE (parse_gedcom_line 0 line) (\<lambda>p.
     let prefix = dec_nat (gl_level p) @ [32];
         prefix = (if gl_xref p \<noteq> [] then prefix @ gl_xref p @ [32] else prefix);
         prefix = prefix @ gl_tag p in
     Inr (if gl_value p \<noteq> [] then prefix @ [32] @ gl_value p else prefix))"

text \<open>The loop of \<open>_take_utf8_prefix\<close>: the index after the last character that fits.\<close>

fun utf8_end :: "nat \<Rightarrow> int \<Rightarrow> ustr \<Rightarrow> nat" where
  "utf8_end used limit [] = 0"
| "utf8_end used limit (c # cs) =
     (if int (used + utf8_size c) > limit then 0 else Suc (utf8_end (used + utf8_size c) limit cs))"

definition take_utf8_prefix :: "ustr \<Rightarrow> int \<Rightarrow> gedcom_error + (ustr \<times> ustr)" where
  "take_utf8_prefix value limit =
     (let end_index = utf8_end 0 limit value in
      if end_index = 0 \<and> value \<noteq> [] then Inl ContinuationLimit
      else Inr (take end_index value, drop end_index value))"

lemma take_utf8_prefix_shorter:
  "take_utf8_prefix value limit = Inr (chunk, rest) \<Longrightarrow> value \<noteq> [] \<Longrightarrow> length rest < length value"
  by (auto simp: take_utf8_prefix_def Let_def split: if_splits)

text \<open>The continuation loop, which emits one chunk per round while text remains.\<close>

function wrap_chunks :: "ustr \<Rightarrow> int \<Rightarrow> ustr \<Rightarrow> gedcom_error + ustr list" where
  "wrap_chunks prefix limit remaining =
     (if remaining = [] then Inr []
      else case take_utf8_prefix remaining limit of
          Inl e \<Rightarrow> Inl e
        | Inr (chunk, rest) \<Rightarrow>
            bindE (wrap_chunks prefix limit rest) (\<lambda>ls. Inr ((prefix @ chunk) # ls)))"
  by pat_completeness auto
termination
  by (relation "measure (\<lambda>(p, l, r). length r)") (auto dest: take_utf8_prefix_shorter)

declare wrap_chunks.simps [simp del]

definition wrap_long_line :: "ustr \<Rightarrow> gedcom_error + ustr list" where
  "wrap_long_line line = bindE (parse_gedcom_line 0 line) (\<lambda>p.
     bindE (canonical_gedcom_line line) (\<lambda>canonical.
       if utf8_len canonical \<le> 255 \<or> gl_value p = [] then Inr [canonical]
       else if gl_level p \<ge> 99 then Inl WrapBelow99
       else
         let prefix = take (length canonical - length (gl_value p)) canonical;
             first_limit = 255 - int (utf8_len prefix) in
         bindE (take_utf8_prefix (gl_value p) first_limit) (\<lambda>(first, remaining).
           let continuation_prefix = dec_nat (gl_level p + 1) @ u '' CONC '';
               continuation_limit = 255 - int (utf8_len continuation_prefix) in
           bindE (wrap_chunks continuation_prefix continuation_limit remaining) (\<lambda>ls.
             Inr ((prefix @ first) # ls)))))"

definition wrap_long_gedcom_lines :: "ustr list \<Rightarrow> gedcom_error + ustr list" where
  "wrap_long_gedcom_lines lines = bindE (mapE wrap_long_line lines) (\<lambda>ls. Inr (concat ls))"

section \<open>Canonical lines\<close>

lemma canonical_gedcom_line_render:
  "canonical_gedcom_line line = bindE (parse_gedcom_line 0 line) (\<lambda>p.
     Inr (render_line (gl_level p) (gl_xref p) (gl_tag p) (gl_value p)))"
  by (cases "parse_gedcom_line 0 line") (auto simp: canonical_gedcom_line_def render_line_def Let_def)

lemma parse_canonical:
  assumes "parse_gedcom_line 0 line = Inr p" "canonical_gedcom_line line = Inr c"
  shows "parse_gedcom_line n c = Inr (p\<lparr>gl_raw := c\<rparr>)"
proof -
  from assms have c: "c = render_line (gl_level p) (gl_xref p) (gl_tag p) (gl_value p)"
    by (simp add: canonical_gedcom_line_render)
  show ?thesis
    unfolding c using parse_render_line [OF parse_gedcom_line_parts(1) [OF assms(1)]] by simp
qed

lemma canonical_length: "canonical_gedcom_line line = Inr c \<Longrightarrow> parse_gedcom_line 0 line = Inr p \<Longrightarrow>
    c = take (length c - length (gl_value p)) c @ gl_value p"
proof -
  assume "canonical_gedcom_line line = Inr c" "parse_gedcom_line 0 line = Inr p"
  then have "\<exists>pre. c = pre @ gl_value p"
    by (cases "gl_value p = []") (auto simp: canonical_gedcom_line_render render_line_def)
  then show ?thesis by auto
qed

section \<open>The byte prefix\<close>

lemma utf8_end_le: "utf8_end used limit s \<le> length s"
  by (induction used limit s rule: utf8_end.induct) auto

lemma utf8_end_fits:
  "int used \<le> limit \<Longrightarrow> int (used + utf8_len (take (utf8_end used limit s) s)) \<le> limit"
proof (induction used limit s rule: utf8_end.induct)
  case (2 used limit c cs)
  then show ?case by (auto simp: algebra_simps)
qed simp

lemma utf8_end_maximal:
  "utf8_end used limit s < length s \<Longrightarrow>
     int (used + utf8_len (take (Suc (utf8_end used limit s)) s)) > limit"
proof (induction used limit s rule: utf8_end.induct)
  case (2 used limit c cs)
  then show ?case by (auto simp: algebra_simps split: if_splits)
qed simp

lemma take_utf8_prefix_Inr:
  assumes "take_utf8_prefix s limit = Inr (chunk, rest)" "s \<noteq> []"
  shows "s = chunk @ rest" "chunk \<noteq> []" "int (utf8_len chunk) \<le> limit"
proof -
  from assms have e: "utf8_end 0 limit s \<noteq> 0" "chunk = take (utf8_end 0 limit s) s"
    "rest = drop (utf8_end 0 limit s) s"
    by (auto simp: take_utf8_prefix_def Let_def split: if_splits)
  then show "s = chunk @ rest" "chunk \<noteq> []" using assms by auto
  have "0 \<le> limit"
  proof (cases s)
    case (Cons c cs)
    with e(1) have "\<not> int (utf8_size c) > limit" by (auto split: if_splits)
    then show ?thesis by linarith
  qed (use assms in simp)
  with utf8_end_fits [of 0 limit s] e(2) show "int (utf8_len chunk) \<le> limit" by simp
qed

lemma take_utf8_prefix_total: "4 \<le> limit \<Longrightarrow> \<exists>chunk rest. take_utf8_prefix s limit = Inr (chunk, rest)"
proof -
  assume l: "4 \<le> limit"
  have "utf8_end 0 limit s \<noteq> 0" if "s \<noteq> []"
    using that l by (cases s) (auto simp: utf8_size_def)
  then show ?thesis by (auto simp: take_utf8_prefix_def Let_def)
qed

section \<open>Wrapping\<close>

text \<open>What the continuation loop emits: the prefix before non-empty chunks that are the
  remaining text cut into pieces, each within the limit.\<close>

lemma wrap_chunks_pieces:
  "wrap_chunks prefix limit s = Inr ls \<Longrightarrow>
     \<exists>cs. ls = map (\<lambda>c. prefix @ c) cs \<and> concat cs = s \<and> [] \<notin> set cs
        \<and> (\<forall>c \<in> set cs. int (utf8_len c) \<le> limit)"
proof (induction prefix limit s arbitrary: ls rule: wrap_chunks.induct)
  case (1 prefix limit s)
  show ?case
  proof (cases "s = []")
    case True
    with 1 show ?thesis by (auto simp: wrap_chunks.simps intro: exI [of _ "[]"])
  next
    case False
    with "1.prems" obtain chunk rest ms where
      t: "take_utf8_prefix s limit = Inr (chunk, rest)" and
      m: "wrap_chunks prefix limit rest = Inr ms" and ls: "ls = (prefix @ chunk) # ms"
      by (subst (asm) wrap_chunks.simps) (auto simp: bindE_Inr_iff split: sum.splits)
    from "1.IH" [OF False t refl m] obtain cs where
      cs: "ms = map (\<lambda>c. prefix @ c) cs" "concat cs = rest" "[] \<notin> set cs"
        "\<forall>c \<in> set cs. int (utf8_len c) \<le> limit" by auto
    note T = take_utf8_prefix_Inr [OF t False]
    show ?thesis using cs T ls by (intro exI [of _ "chunk # cs"]) auto
  qed
qed

lemma wrap_chunks_total: "4 \<le> limit \<Longrightarrow> \<exists>ls. wrap_chunks prefix limit s = Inr ls"
proof (induction prefix limit s rule: wrap_chunks.induct)
  case (1 prefix limit s)
  show ?case
  proof (cases "s = []")
    case True
    then show ?thesis by (simp add: wrap_chunks.simps)
  next
    case False
    obtain chunk rest where t: "take_utf8_prefix s limit = Inr (chunk, rest)"
      using take_utf8_prefix_total [OF "1.prems"] by blast
    with "1.IH" [OF False t refl "1.prems"] False show ?thesis
      by (subst wrap_chunks.simps) auto
  qed
qed

text \<open>The shape of the wrapping of one line: the line itself, or its first part and the
  continuation lines.\<close>

lemma wrap_long_line_shape:
  assumes w: "wrap_long_line line = Inr out" and p: "parse_gedcom_line 0 line = Inr p"
  obtains (short) "canonical_gedcom_line line = Inr (hd out)" "out = [hd out]"
      "utf8_len (hd out) \<le> 255 \<or> gl_value p = []"
  | (long) prefix first cs where "canonical_gedcom_line line = Inr (prefix @ gl_value p)"
      "gl_value p = first @ concat cs" "first \<noteq> []" "[] \<notin> set cs"
      "out = (prefix @ first) # map (\<lambda>c. dec_nat (gl_level p + 1) @ u '' CONC '' @ c) cs"
      "gl_level p < 99" "\<forall>l \<in> set out. utf8_len l \<le> 255"
proof -
  from p obtain c where c: "canonical_gedcom_line line = Inr c"
    by (simp add: canonical_gedcom_line_render)
  show thesis
  proof (cases "utf8_len c \<le> 255 \<or> gl_value p = []")
    case True
    with w p c show thesis by (intro short) (auto simp: wrap_long_line_def)
  next
    case False
    let ?prefix = "take (length c - length (gl_value p)) c"
    let ?cp = "dec_nat (gl_level p + 1) @ u '' CONC ''"
    from w p c False obtain first rest ls where lev: "gl_level p < 99" and
      f: "take_utf8_prefix (gl_value p) (255 - int (utf8_len ?prefix)) = Inr (first, rest)" and
      l: "wrap_chunks ?cp (255 - int (utf8_len ?cp)) rest = Inr ls" and
      out: "out = (?prefix @ first) # ls"
      by (auto simp: wrap_long_line_def bindE_Inr_iff Let_def split: if_splits)
    note F = take_utf8_prefix_Inr [OF f]
    from wrap_chunks_pieces [OF l] obtain cs where cs: "ls = map (\<lambda>c. ?cp @ c) cs"
      "concat cs = rest" "[] \<notin> set cs" "\<forall>c \<in> set cs. int (utf8_len c) \<le> 255 - int (utf8_len ?cp)"
      by auto
    have b: "utf8_len ?cp + utf8_len x \<le> 255" if "x \<in> set cs" for x
    proof -
      have "int (utf8_len x) \<le> 255 - int (utf8_len ?cp)" using cs(4) that by blast
      then show ?thesis by linarith
    qed
    have b0: "utf8_len ?prefix + utf8_len first \<le> 255"
      using F(3) False by linarith
    show thesis
    proof (rule long [of ?prefix first cs])
      show "canonical_gedcom_line line = Inr (?prefix @ gl_value p)"
        using canonical_length [OF c p] c by simp
      show "gl_value p = first @ concat cs" "first \<noteq> []" "[] \<notin> set cs" "gl_level p < 99"
        using F False cs lev by auto
      show "out = (?prefix @ first) # map (\<lambda>c. dec_nat (gl_level p + 1) @ u '' CONC '' @ c) cs"
        unfolding out cs(1) by simp
      show "\<forall>l \<in> set out. utf8_len l \<le> 255"
        using b b0 unfolding out cs(1) by (simp add: add.assoc del: append.simps)
    qed
  qed
qed

section \<open>Reading wrapped lines back\<close>

text \<open>A continuation line parses to its text without the white space in front.\<close>

lemma parse_continuation:
  assumes l: "l < 100" and t: "tag_shape t" and w: "10 \<notin> set w" "w \<noteq> [] \<Longrightarrow> last w \<noteq> 13"
  shows "parse_gedcom_line n (dec_nat l @ 32 # t @ 32 # w) = Inr
    \<lparr>gl_level = l, gl_xref = [], gl_tag = t, gl_value = dropWhile is_space w,
     gl_raw = dec_nat l @ 32 # t @ 32 # w\<rparr>"
proof -
  let ?s = "dec_nat l @ 32 # t @ 32 # w"
  have hdt: "t \<noteq> []" "\<not> is_space (hd t)" "hd t \<noteq> 64" "\<forall>c \<in> set t. tag_char c"
    using t tag_char_not_space tag_char_not_at by (auto simp: tag_shape_def)
  have "last ?s \<noteq> 13 \<and> last ?s \<noteq> 10"
    using w by (cases "w = []") (auto, metis last_in_set)
  moreover have "hd ?s \<noteq> 65279" using hd_dec_nat_digit [of l] by (simp add: is_digit_def)
  ultimately have raw: "clean_raw ?s = ?s" by (intro clean_raw_ident) auto
  have lev: "level_prefix ?s = Some (dec_nat l, 32 # t @ 32 # w)"
    using l by (rule level_prefix_render)
  have dw: "dropWhile is_space (t @ 32 # w) = t @ 32 # w" using hdt by (cases t) auto
  have "line_xref (t @ 32 # w) = None" using hdt by (cases t) (auto simp: line_xref_def)
  moreover have no: "\<not> tag_char 32" by (simp add: tag_char_def is_alpha_def is_upper_def is_lower_def is_digit_def)
  have "takeWhile tag_char (t @ 32 # w) = t" "dropWhile tag_char (t @ 32 # w) = 32 # w"
    using hdt no by (auto simp: takeWhile_append_stop dropWhile_append_stop)
  then have "tag_value (32 # t @ 32 # w) = Some (t, dropWhile is_space w)"
    using hdt w(1) dw by (auto simp: tag_value_def Let_def dest: set_dropWhileD)
  ultimately show ?thesis using raw lev dw t by (simp add: parse_gedcom_line_def Let_def)
qed

lemma tag_shape_CONC [simp]: "tag_shape (u ''CONC'')"
  by (simp add: tag_shape_def u_def tag_char_def is_alpha_def is_upper_def is_lower_def)

lemma u_CONC_spaced: "u '' CONC '' @ c = 32 # u ''CONC'' @ 32 # c"
  by (simp add: u_def)

lemma parts_ok_prefix:
  "parts_ok l x t (a @ b) \<Longrightarrow> 13 \<notin> set a \<Longrightarrow> a \<noteq> [] \<Longrightarrow> parts_ok l x t a"
  by (auto simp: parts_ok_def value_shape_def last_neq)

text \<open>Reading all lines of a wrapped value back: the first part unchanged, each chunk without its
  leading white space.\<close>

lemma wrap_long_line_reads_back:
  assumes w: "wrap_long_line line = Inr out" and p: "parse_gedcom_line 0 line = Inr p"
    and long: "1 < length out" and cr: "13 \<notin> set (gl_value p)"
  shows "\<exists>first cs qs. gl_value p = first @ concat cs \<and> mapE (parse_gedcom_line 0) out = Inr qs
    \<and> map gl_value qs = first # map (dropWhile is_space) cs
    \<and> map gl_tag qs = gl_tag p # replicate (length cs) (u ''CONC'')
    \<and> map gl_level qs = gl_level p # replicate (length cs) (gl_level p + 1)"
  using w p
proof (cases rule: wrap_long_line_shape)
  case short
  then have "length out = 1" by (metis One_nat_def length_Cons list.size(3))
  with long show ?thesis by simp
next
  case (long prefix first cs)
  let ?first = "p\<lparr>gl_value := first, gl_raw := prefix @ first\<rparr>"
  let ?line = "\<lambda>c. dec_nat (gl_level p + 1) @ u '' CONC '' @ c"
  let ?q = "\<lambda>c. \<lparr>gl_level = gl_level p + 1, gl_xref = [], gl_tag = u ''CONC'',
     gl_value = dropWhile is_space c, gl_raw = ?line c\<rparr>"
  from p have parts: "parts_ok (gl_level p) (gl_xref p) (gl_tag p) (gl_value p)"
    by (rule parse_gedcom_line_parts(1))
  have ne: "gl_value p \<noteq> []" using long(2,3) by simp
  have pre: "prefix @ first = render_line (gl_level p) (gl_xref p) (gl_tag p) first"
    using long(1,3) ne p by (auto simp: canonical_gedcom_line_render render_line_def)
  have "parts_ok (gl_level p) (gl_xref p) (gl_tag p) first"
    using parts cr long(2,3) parts_ok_prefix by (metis Un_iff set_append)
  then have f: "parse_gedcom_line 0 (prefix @ first) = Inr ?first"
    unfolding pre by (simp add: parse_render_line)
  have c: "parse_gedcom_line 0 (?line c) = Inr (?q c)" if "c \<in> set cs" for c
  proof -
    have sub: "set c \<subseteq> set (gl_value p)" using that long(2) by auto
    moreover have "10 \<notin> set (gl_value p)" using parts by (simp add: parts_ok_def value_shape_def)
    ultimately have "10 \<notin> set c" "13 \<notin> set c" using cr by auto
    then have "10 \<notin> set c" "c \<noteq> [] \<Longrightarrow> last c \<noteq> 13" by (simp_all add: last_neq)
    then show ?thesis using long(6) unfolding u_CONC_spaced by (intro parse_continuation) auto
  qed
  have "mapE (parse_gedcom_line 0) (map ?line cs) = Inr (map ?q cs)"
    using c by (auto simp: mapE_Inr_iff list_all2_conv_all_nth)
  with f have m: "mapE (parse_gedcom_line 0) out = Inr (?first # map ?q cs)"
    by (simp add: long(5))
  show ?thesis
    by (intro exI [of _ first] exI [of _ cs] exI [of _ "?first # map ?q cs"])
      (auto simp: m long(2) map_replicate_const comp_def)
qed

section \<open>Properties\<close>

text \<open>C9: The canonical spelling of a parseable line parses to the same level, pointer, tag and
  value, and is its own canonical spelling.\<close>

theorem canonical_roundtrip:
  assumes "parse_gedcom_line n line = Inr p"
  shows "\<exists>c. canonical_gedcom_line line = Inr c \<and> canonical_gedcom_line c = Inr c
    \<and> parse_gedcom_line m c = Inr (p\<lparr>gl_raw := c\<rparr>)"
proof -
  have p0: "parse_gedcom_line 0 line = Inr p" using assms by (rule parse_line_number)
  then obtain c where c: "canonical_gedcom_line line = Inr c"
    by (simp add: canonical_gedcom_line_render)
  note P = parse_canonical [OF p0 c]
  have "canonical_gedcom_line c = Inr c"
    using P [of 0] c p0 by (simp add: canonical_gedcom_line_render)
  with P c show ?thesis by auto
qed

theorem canonical_roundtrip_witness:
  "parse_gedcom_line 1 (u ''1   name  Ann /Lee/'') = Inr \<lparr>gl_level = 1, gl_xref = [], gl_tag = u ''NAME'',
       gl_value = u ''Ann /Lee/'', gl_raw = u ''1   name  Ann /Lee/''\<rparr>
   \<and> (\<exists>c. canonical_gedcom_line (u ''1   name  Ann /Lee/'') = Inr c \<and> canonical_gedcom_line c = Inr c)"
proof -
  have h: "parse_gedcom_line 1 (u ''1   name  Ann /Lee/'') = Inr \<lparr>gl_level = 1, gl_xref = [],
     gl_tag = u ''NAME'', gl_value = u ''Ann /Lee/'', gl_raw = u ''1   name  Ann /Lee/''\<rparr>"
    by code_simp
  with canonical_roundtrip [OF h] show ?thesis by blast
qed

text \<open>C11: Every line the wrapper emits is at most 255 bytes of UTF-8, except the canonical
  spelling of a line that has no value to wrap.\<close>

theorem wrap_bounds:
  assumes "wrap_long_gedcom_lines lines = Inr out" and "l \<in> set out"
  shows "utf8_len l \<le> 255
    \<or> (\<exists>line \<in> set lines. \<exists>p. parse_gedcom_line 0 line = Inr p \<and> gl_value p = []
         \<and> canonical_gedcom_line line = Inr l)"
proof -
  from assms(1) obtain outs where o: "mapE wrap_long_line lines = Inr outs" "out = concat outs"
    by (auto simp: wrap_long_gedcom_lines_def bindE_Inr_iff)
  from assms(2) o(2) have "\<exists>xs \<in> set outs. l \<in> set xs" by simp
  then obtain i where i: "i < length outs" "l \<in> set (outs ! i)" by (metis in_set_conv_nth)
  with o(1) have w: "wrap_long_line (lines ! i) = Inr (outs ! i)" and mem: "lines ! i \<in> set lines"
    using mapE_Inr_nth mapE_length by fastforce+
  then obtain p where p: "parse_gedcom_line 0 (lines ! i) = Inr p"
    by (auto simp: wrap_long_line_def bindE_Inr_iff)
  from w p show ?thesis
  proof (cases rule: wrap_long_line_shape)
    case short
    then have "l = hd (outs ! i)" using i(2) by (metis empty_iff list.set set_ConsD)
    then show ?thesis using short p mem by auto
  qed (use i(2) in auto)
qed

theorem wrap_bounds_witness:
  "wrap_long_gedcom_lines [u ''1  NOTE Hello''] = Inr [u ''1 NOTE Hello''] \<and> utf8_len (u ''1 NOTE Hello'') \<le> 255"
proof -
  have h: "wrap_long_gedcom_lines [u ''1  NOTE Hello''] = Inr [u ''1 NOTE Hello'']" by code_simp
  have m: "u ''1 NOTE Hello'' \<in> set [u ''1 NOTE Hello'']" by simp
  have "parse_gedcom_line 0 (u ''1  NOTE Hello'') = Inr \<lparr>gl_level = 1, gl_xref = [], gl_tag = u ''NOTE'',
     gl_value = u ''Hello'', gl_raw = u ''1  NOTE Hello''\<rparr>" by code_simp
  with wrap_bounds [OF h m] h show ?thesis by auto
qed

text \<open>C10: Reading the lines of a wrapped value back and joining their values gives the original
  value, except that white space at the start of a continuation chunk is lost; the
  continuations are \<open>CONC\<close> lines one level down.\<close>

theorem wrap_reads_back:
  assumes "wrap_long_line line = Inr out" "parse_gedcom_line 0 line = Inr p" "1 < length out"
    and "13 \<notin> set (gl_value p)"
  shows "\<exists>first cs qs. gl_value p = first @ concat cs \<and> mapE (parse_gedcom_line 0) out = Inr qs
    \<and> map gl_value qs = first # map (dropWhile is_space) cs
    \<and> map gl_tag qs = gl_tag p # replicate (length cs) (u ''CONC'')
    \<and> map gl_level qs = gl_level p # replicate (length cs) (gl_level p + 1)
    \<and> ((\<forall>c \<in> set cs. \<not> is_space (hd c)) \<longrightarrow> concat (map gl_value qs) = gl_value p)"
proof -
  from wrap_long_line_reads_back [OF assms] obtain first cs qs where
    r: "gl_value p = first @ concat cs" "mapE (parse_gedcom_line 0) out = Inr qs"
    "map gl_value qs = first # map (dropWhile is_space) cs"
    "map gl_tag qs = gl_tag p # replicate (length cs) (u ''CONC'')"
    "map gl_level qs = gl_level p # replicate (length cs) (gl_level p + 1)" by auto
  have "concat (map gl_value qs) = gl_value p" if "\<forall>c \<in> set cs. \<not> is_space (hd c)"
  proof -
    have "map (dropWhile is_space) cs = cs" using that by (intro map_idI) (simp add: dropWhile_idem_hd)
    then show ?thesis using r(1,3) by simp
  qed
  with r show ?thesis by (intro exI [of _ first] exI [of _ cs] exI [of _ qs]) simp
qed

text \<open>A line whose value has 249 letters, a space and a letter is cut before the space.\<close>

definition spaced_note :: ustr where
  "spaced_note = u ''1 NOTE '' @ replicate 248 97 @ u '' b''"

definition spaced_note_wrapped :: "ustr list" where
  "spaced_note_wrapped = [u ''1 NOTE '' @ replicate 248 97, u ''2 CONC  b'']"

lemma spaced_note_parse: "parse_gedcom_line 0 spaced_note = Inr \<lparr>gl_level = 1, gl_xref = [],
     gl_tag = u ''NOTE'', gl_value = replicate 248 97 @ u '' b'', gl_raw = spaced_note\<rparr>"
  unfolding spaced_note_def by code_simp

lemma spaced_note_wrap: "wrap_long_line spaced_note = Inr spaced_note_wrapped"
  unfolding spaced_note_def spaced_note_wrapped_def by code_simp

theorem wrap_reads_back_witness:
  "\<exists>first cs qs. replicate 248 97 @ u '' b'' = first @ concat cs
     \<and> mapE (parse_gedcom_line 0) spaced_note_wrapped = Inr qs
     \<and> map gl_value qs = first # map (dropWhile is_space) cs"
proof -
  have "1 < length spaced_note_wrapped" "13 \<notin> set (replicate 248 97 @ u '' b'')"
    by (simp_all add: spaced_note_wrapped_def u_def)
  with wrap_reads_back [OF spaced_note_wrap spaced_note_parse] show ?thesis
    by simp (elim exE conjE, intro exI conjI, assumption+)
qed

text \<open>Wrapping can lose text: there is a line whose wrapped form reads back to a different
  value, because the chunk begins with a space that the line parser drops.\<close>

theorem wrap_loses_boundary_space:
  "\<exists>line out p qs. parse_gedcom_line 0 line = Inr p \<and> wrap_long_gedcom_lines [line] = Inr out
     \<and> mapE (parse_gedcom_line 0) out = Inr qs \<and> concat (map gl_value qs) \<noteq> gl_value p"
proof -
  have w: "wrap_long_gedcom_lines [spaced_note] = Inr spaced_note_wrapped"
    by (simp add: wrap_long_gedcom_lines_def spaced_note_wrap)
  have "mapE (parse_gedcom_line 0) spaced_note_wrapped = Inr
    [\<lparr>gl_level = 1, gl_xref = [], gl_tag = u ''NOTE'', gl_value = replicate 248 97, gl_raw = u ''1 NOTE '' @ replicate 248 97\<rparr>,
     \<lparr>gl_level = 2, gl_xref = [], gl_tag = u ''CONC'', gl_value = u ''b'', gl_raw = u ''2 CONC  b''\<rparr>]"
    unfolding spaced_note_wrapped_def by code_simp
  with w spaced_note_parse show ?thesis
    by (intro exI [of _ spaced_note] exI [of _ spaced_note_wrapped] exI, intro conjI) (assumption+, simp add: u_def)
qed

text \<open>Wrapping does not fail on a parseable line below level 99 whose level, pointer and tag
  leave room for one character.\<close>

theorem wrap_long_line_total:
  assumes "parse_gedcom_line 0 line = Inr p" "gl_level p < 99"
    and "utf8_len (gl_xref p) + utf8_len (gl_tag p) \<le> 246"
  shows "\<exists>out. wrap_long_line line = Inr out"
proof -
  let ?l = "gl_level p"
  obtain c where c: "canonical_gedcom_line line = Inr c"
    using assms(1) by (simp add: canonical_gedcom_line_render)
  let ?prefix = "take (length c - length (gl_value p)) c"
  have dec: "utf8_len (dec_nat k) \<le> 2" if "k < 100" for k
    using that by (auto simp: dec_nat_below_100 utf8_size_def)
  show ?thesis
  proof (cases "utf8_len c \<le> 255 \<or> gl_value p = []")
    case True
    with assms(1) c show ?thesis by (auto simp: wrap_long_line_def)
  next
    case False
    then have "?prefix @ gl_value p = render_line ?l (gl_xref p) (gl_tag p) (gl_value p)"
      using canonical_length [OF c assms(1)] c assms(1) by (simp add: canonical_gedcom_line_render)
    with False have pre: "?prefix = dec_nat ?l @ 32 # (if gl_xref p = [] then [] else gl_xref p @ [32])
       @ gl_tag p @ [32]"
      by (auto simp: render_line_def)
    have "utf8_len ?prefix \<le> 251"
      using assms(3) dec [of ?l] assms(2) unfolding pre by (simp add: utf8_size_def)
    then obtain first rest where
      t: "take_utf8_prefix (gl_value p) (255 - int (utf8_len ?prefix)) = Inr (first, rest)"
      using take_utf8_prefix_total [of "255 - int (utf8_len ?prefix)"] by fastforce
    have "utf8_len (u '' CONC '') = 6" by code_simp
    with dec [of "?l + 1"] assms(2) have "utf8_len (dec_nat (?l + 1) @ u '' CONC '') \<le> 8" by simp
    then obtain ls where "wrap_chunks (dec_nat (?l + 1) @ u '' CONC '')
        (255 - int (utf8_len (dec_nat (?l + 1) @ u '' CONC ''))) rest = Inr ls"
      using wrap_chunks_total by fastforce
    with t assms c False show ?thesis by (auto simp: wrap_long_line_def Let_def)
  qed
qed

theorem wrap_long_line_total_witness: "\<exists>out. wrap_long_line spaced_note = Inr out"
  by (rule wrap_long_line_total [OF spaced_note_parse]) (simp_all add: u_def utf8_size_def)

end
