(* ===== verification/Gedcom_Validator.thy ===== *)
theory Gedcom_Validator
  imports Gedcom_Serializer
begin

text \<open>
  \<open>gedcom/validator.py\<close>: the structural validation of documents for GEDCOM 5.5.5 and, with
  the version line exchanged, 5.5.1. The loop over the parsed lines is a step function over
  the variables it carries; the specification \<open>document_ok\<close> states the same conditions on
  the whole document, and the two are proved equivalent.
\<close>

section \<open>The validator\<close>

record validator_state =
  vs_pointers :: "ustr list"
  vs_previous_level :: nat
  vs_head_version :: ustr
  vs_head_charset :: ustr
  vs_in_gedc :: bool

definition validator_start :: validator_state where
  "validator_start = \<lparr>vs_pointers = [], vs_previous_level = 0, vs_head_version = [],
     vs_head_charset = [], vs_in_gedc = False\<rparr>"

text \<open>The pattern \<open>@[A-Za-z_][A-Za-z0-9_:-]*@\<close> on the whole pointer.\<close>

definition xref_id :: "ustr \<Rightarrow> bool" where
  "xref_id x \<longleftrightarrow> 3 \<le> length x \<and> hd x = 64 \<and> last x = 64 \<and> (is_alpha (x ! 1) \<or> x ! 1 = 95)
     \<and> list_all xref_char (butlast (tl x))"

definition validate_xref :: "gedcom_line \<Rightarrow> ustr list \<Rightarrow> gedcom_error + ustr list" where
  "validate_xref p pointers =
     (if gl_xref p = [] then Inr pointers
      else if gl_level p \<noteq> 0 then Inl XrefNotLevelZero
      else if length (gl_xref p) > 22 \<or> \<not> xref_id (gl_xref p) then Inl (InvalidXref (gl_xref p))
      else if gl_xref p \<in> set pointers then Inl (DuplicateXref (gl_xref p))
      else Inr (gl_xref p # pointers))"

text \<open>The assignments at the end of the loop body.\<close>

definition validate_update :: "validator_state \<Rightarrow> gedcom_line \<Rightarrow> ustr list \<Rightarrow> validator_state" where
  "validate_update s p pointers =
     (let s = s\<lparr>vs_pointers := pointers, vs_previous_level := gl_level p\<rparr> in
      if gl_level p = 1 then
        let s = s\<lparr>vs_in_gedc := gl_tag p = u ''GEDC''\<rparr> in
        if gl_tag p = u ''CHAR'' then s\<lparr>vs_head_charset := ascii_upper (py_strip (gl_value p))\<rparr> else s
      else if gl_level p = 2 \<and> vs_in_gedc s \<and> gl_tag p = u ''VERS''
      then s\<lparr>vs_head_version := py_strip (gl_value p)\<rparr>
      else s)"

definition validate_step :: "validator_state \<Rightarrow> gedcom_line \<Rightarrow> gedcom_error + validator_state" where
  "validate_step s p =
     (if utf8_len (gl_raw p) > 255 then Inl LineTooLong
      else if length (gl_tag p) > 31 then Inl (TagTooLong (gl_tag p))
      else
        let words = split_space (gl_raw p); tag_index = (if gl_xref p \<noteq> [] then 2 else 1) in
        if length words \<le> tag_index then Inl IndexOutOfRange
        else if words ! tag_index \<noteq> gl_tag p then Inl (TagNotUpper (words ! tag_index))
        else bindE (validate_xref p (vs_pointers s)) (\<lambda>pointers.
          if gl_level p > vs_previous_level s + 1 then Inl LevelSkipped
          else Inr (validate_update s p pointers)))"

definition parse_numbered :: "ustr list \<Rightarrow> gedcom_error + gedcom_line list" where
  "parse_numbered lines = mapE (\<lambda>(number, line). parse_gedcom_line number line) (enumerate 1 lines)"

definition validate_gedcom_555 :: "ustr list \<Rightarrow> gedcom_error + unit" where
  "validate_gedcom_555 lines =
     (if lines = [] then Inl OutputEmpty
      else bindE (parse_numbered lines) (\<lambda>ps.
        if gl_level (hd ps) \<noteq> 0 \<or> gl_tag (hd ps) \<noteq> u ''HEAD'' then Inl MustStartHead
        else if gl_level (last ps) \<noteq> 0 \<or> gl_tag (last ps) \<noteq> u ''TRLR'' then Inl MustEndTrlr
        else if length (filter (\<lambda>p. gl_level p = 0 \<and> gl_tag p = u ''HEAD'') ps) \<noteq> 1 then Inl ExactlyOneHead
        else if length (filter (\<lambda>p. gl_level p = 0 \<and> gl_tag p = u ''TRLR'') ps) \<noteq> 1 then Inl ExactlyOneTrlr
        else bindE (foldE validate_step validator_start ps) (\<lambda>s.
          if vs_head_version s \<noteq> u ''5.5.5'' then Inl (WrongVersion (vs_head_version s))
          else if vs_head_charset s \<noteq> u ''UTF-8'' then Inl (WrongCharset (vs_head_charset s))
          else Inr ())))"

definition validate_gedcom_document :: "gedcom_document \<Rightarrow> gedcom_error + unit" where
  "validate_gedcom_document d =
     (if gd_version d = u ''5.5.5'' then validate_gedcom_555 (gd_lines d)
      else if gd_version d \<noteq> u ''5.5.1'' then Inl (UnsupportedVersion (gd_version d))
      else
        let version_lines = filter (\<lambda>i. gd_lines d ! i = u ''2 VERS 5.5.1'') [0..<length (gd_lines d)] in
        if length version_lines \<noteq> 1 then Inl VersionDeclaration
        else validate_gedcom_555 ((gd_lines d)[hd version_lines := u ''2 VERS 5.5.5'']))"

section \<open>The specification\<close>

text \<open>The last level-one line opens a \<open>GEDC\<close> structure.\<close>

definition in_gedc :: "gedcom_line list \<Rightarrow> bool" where
  "in_gedc ps = (let tops = filter (\<lambda>p. gl_level p = 1) ps in tops \<noteq> [] \<and> gl_tag (last tops) = u ''GEDC'')"

definition version_values :: "gedcom_line list \<Rightarrow> ustr list" where
  "version_values ps = map (\<lambda>i. py_strip (gl_value (ps ! i)))
     (filter (\<lambda>i. gl_level (ps ! i) = 2 \<and> gl_tag (ps ! i) = u ''VERS'' \<and> in_gedc (take i ps)) [0..<length ps])"

definition charset_values :: "gedcom_line list \<Rightarrow> ustr list" where
  "charset_values ps = map (\<lambda>p. ascii_upper (py_strip (gl_value p)))
     (filter (\<lambda>p. gl_level p = 1 \<and> gl_tag p = u ''CHAR'') ps)"

definition last_or :: "'a \<Rightarrow> 'a list \<Rightarrow> 'a" where
  "last_or d xs = (if xs = [] then d else last xs)"

text \<open>The pointers a document declares, in order.\<close>

definition declared_xrefs :: "gedcom_line list \<Rightarrow> ustr list" where
  "declared_xrefs ps = filter (\<lambda>x. x \<noteq> []) (map gl_xref ps)"

definition line_ok :: "gedcom_line \<Rightarrow> bool" where
  "line_ok p \<longleftrightarrow> utf8_len (gl_raw p) \<le> 255 \<and> length (gl_tag p) \<le> 31
     \<and> gl_tag p \<in> set (take 1 (drop (if gl_xref p \<noteq> [] then 2 else 1) (split_space (gl_raw p))))
     \<and> (gl_xref p \<noteq> [] \<longrightarrow> gl_level p = 0 \<and> length (gl_xref p) \<le> 22 \<and> xref_id (gl_xref p))"

definition levels_ok :: "gedcom_line list \<Rightarrow> bool" where
  "levels_ok ps \<longleftrightarrow> (\<forall>i < length ps. gl_level (ps ! i) \<le> last_or 0 (map gl_level (take i ps)) + 1)"

definition body_ok :: "gedcom_line list \<Rightarrow> bool" where
  "body_ok ps \<longleftrightarrow> (\<forall>p \<in> set ps. line_ok p) \<and> distinct (declared_xrefs ps) \<and> levels_ok ps"

definition document_ok :: "gedcom_line list \<Rightarrow> bool" where
  "document_ok ps \<longleftrightarrow> ps \<noteq> []
     \<and> gl_level (hd ps) = 0 \<and> gl_tag (hd ps) = u ''HEAD'' \<and> gl_level (last ps) = 0 \<and> gl_tag (last ps) = u ''TRLR''
     \<and> length (filter (\<lambda>p. gl_level p = 0 \<and> gl_tag p = u ''HEAD'') ps) = 1
     \<and> length (filter (\<lambda>p. gl_level p = 0 \<and> gl_tag p = u ''TRLR'') ps) = 1
     \<and> body_ok ps
     \<and> last_or [] (version_values ps) = u ''5.5.5'' \<and> last_or [] (charset_values ps) = u ''UTF-8''"

section \<open>The loop refines the specification\<close>

lemma last_or_snoc [simp]: "last_or d (xs @ [x]) = x" and last_or_Nil [simp]: "last_or d [] = d"
  by (simp_all add: last_or_def)

lemma levels_ok_snoc: "levels_ok (ps @ [p]) \<longleftrightarrow> levels_ok ps \<and> gl_level p \<le> last_or 0 (map gl_level ps) + 1"
  by (auto simp: levels_ok_def nth_append less_Suc_eq)

lemma declared_xrefs_snoc: "declared_xrefs (ps @ [p]) = declared_xrefs ps @ (if gl_xref p = [] then [] else [gl_xref p])"
  by (simp add: declared_xrefs_def)

lemma body_ok_snoc: "body_ok (ps @ [p]) \<longleftrightarrow> body_ok ps \<and> line_ok p
   \<and> (gl_xref p \<noteq> [] \<longrightarrow> gl_xref p \<notin> set (declared_xrefs ps)) \<and> gl_level p \<le> last_or 0 (map gl_level ps) + 1"
  by (auto simp: body_ok_def levels_ok_snoc declared_xrefs_snoc)

lemma version_values_snoc: "version_values (ps @ [p]) = version_values ps
   @ (if gl_level p = 2 \<and> gl_tag p = u ''VERS'' \<and> in_gedc ps then [py_strip (gl_value p)] else [])"
proof -
  have "filter (\<lambda>i. gl_level ((ps @ [p]) ! i) = 2 \<and> gl_tag ((ps @ [p]) ! i) = u ''VERS''
        \<and> in_gedc (take i (ps @ [p]))) [0..<length ps]
    = filter (\<lambda>i. gl_level (ps ! i) = 2 \<and> gl_tag (ps ! i) = u ''VERS'' \<and> in_gedc (take i ps)) [0..<length ps]"
    by (rule filter_cong) (auto simp: nth_append)
  then show ?thesis by (simp add: version_values_def nth_append)
qed

text \<open>What the loop variables hold after the lines \<open>ps\<close>.\<close>

definition validator_at :: "gedcom_line list \<Rightarrow> validator_state" where
  "validator_at ps = \<lparr>vs_pointers = rev (declared_xrefs ps), vs_previous_level = last_or 0 (map gl_level ps),
     vs_head_version = last_or [] (version_values ps), vs_head_charset = last_or [] (charset_values ps),
     vs_in_gedc = in_gedc ps\<rparr>"

lemma word_at_iff: "t \<in> set (take 1 (drop i ws)) \<longleftrightarrow> i < length ws \<and> ws ! i = t"
  by (cases "i < length ws") (auto simp: take_Suc hd_drop_conv_nth)

text \<open>The loop variables after one more line.\<close>

definition validator_next :: "validator_state \<Rightarrow> gedcom_line \<Rightarrow> validator_state" where
  "validator_next s p = \<lparr>
     vs_pointers = (if gl_xref p = [] then vs_pointers s else gl_xref p # vs_pointers s),
     vs_previous_level = gl_level p,
     vs_head_version = (if gl_level p = 2 \<and> gl_tag p = u ''VERS'' \<and> vs_in_gedc s then py_strip (gl_value p)
                        else vs_head_version s),
     vs_head_charset = (if gl_level p = 1 \<and> gl_tag p = u ''CHAR'' then ascii_upper (py_strip (gl_value p))
                        else vs_head_charset s),
     vs_in_gedc = (if gl_level p = 1 then gl_tag p = u ''GEDC'' else vs_in_gedc s)\<rparr>"

lemma validate_xref_Inr: "validate_xref p pointers = Inr q \<longleftrightarrow>
    (gl_xref p \<noteq> [] \<longrightarrow> gl_level p = 0 \<and> length (gl_xref p) \<le> 22 \<and> xref_id (gl_xref p) \<and> gl_xref p \<notin> set pointers)
    \<and> q = (if gl_xref p = [] then pointers else gl_xref p # pointers)"
  by (auto simp: validate_xref_def)

lemma validate_update_next:
  "validate_update s p (if gl_xref p = [] then vs_pointers s else gl_xref p # vs_pointers s) = validator_next s p"
  by (cases s) (simp add: validate_update_def validator_next_def Let_def)

lemma validate_step_Inr: "validate_step s p = Inr t \<longleftrightarrow>
    line_ok p \<and> (gl_xref p \<noteq> [] \<longrightarrow> gl_xref p \<notin> set (vs_pointers s))
    \<and> gl_level p \<le> vs_previous_level s + 1 \<and> t = validator_next s p"
proof -
  define i where "i = (if gl_xref p \<noteq> [] then 2 else 1 :: nat)"
  have "validate_step s p = Inr t \<longleftrightarrow> utf8_len (gl_raw p) \<le> 255 \<and> length (gl_tag p) \<le> 31
     \<and> i < length (split_space (gl_raw p)) \<and> split_space (gl_raw p) ! i = gl_tag p
     \<and> (\<exists>q. validate_xref p (vs_pointers s) = Inr q \<and> gl_level p \<le> vs_previous_level s + 1
          \<and> t = validate_update s p q)"
    unfolding validate_step_def Let_def i_def [symmetric] by (auto simp: bindE_Inr_iff not_less not_le)
  then show ?thesis
    unfolding validate_xref_Inr line_ok_def word_at_iff i_def [symmetric]
    by (auto simp: validate_update_next)
qed

lemma validator_next_at: "validator_next (validator_at ps) p = validator_at (ps @ [p])"
  by (simp add: validator_next_def validator_at_def declared_xrefs_snoc version_values_snoc charset_values_def
      in_gedc_def Let_def)

lemma validate_step_at:
  "validate_step (validator_at ps) p = Inr t \<longleftrightarrow>
     line_ok p \<and> (gl_xref p \<noteq> [] \<longrightarrow> gl_xref p \<notin> set (declared_xrefs ps))
     \<and> gl_level p \<le> last_or 0 (map gl_level ps) + 1 \<and> t = validator_at (ps @ [p])"
  by (simp add: validate_step_Inr validator_next_at) (simp add: validator_at_def)

lemma validate_loop: "foldE validate_step validator_start ps = Inr s \<longleftrightarrow> body_ok ps \<and> s = validator_at ps"
proof (induction ps arbitrary: s rule: rev_induct)
  case Nil
  show ?case by (auto simp: validator_start_def validator_at_def body_ok_def levels_ok_def declared_xrefs_def
        version_values_def charset_values_def in_gedc_def)
next
  case (snoc p ps)
  have "foldE validate_step validator_start (ps @ [p]) = Inr s \<longleftrightarrow>
      (body_ok ps \<and> validate_step (validator_at ps) p = Inr s)"
    by (auto simp: foldE_append bindE_Inr_iff snoc.IH)
  then show ?case by (auto simp: validate_step_at body_ok_snoc)
qed

lemma parse_numbered_Inr: "parse_numbered lines = Inr ps \<longleftrightarrow> mapE (parse_gedcom_line 0) lines = Inr ps"
proof -
  have "parse_gedcom_line n l = Inr q \<longleftrightarrow> parse_gedcom_line 0 l = Inr q" for n l q
    using parse_line_number by blast
  then show ?thesis
    by (auto simp: parse_numbered_def mapE_Inr_iff list_all2_conv_all_nth nth_enumerate_eq)
qed

section \<open>Properties\<close>

text \<open>C6: The validator accepts exactly the documents that satisfy the declarative specification: every
  line parses, one \<open>HEAD\<close> first and one \<open>TRLR\<close> last, lines within 255 bytes with upper-case
  tags, distinct well-formed level-zero pointers, no skipped level, version 5.5.5 and charset
  UTF-8.\<close>

theorem validator_refines_spec:
  "validate_gedcom_555 lines = Inr () \<longleftrightarrow> (\<exists>ps. mapE (parse_gedcom_line 0) lines = Inr ps \<and> document_ok ps)"
proof (cases "lines = []")
  case True
  then show ?thesis by (auto simp: validate_gedcom_555_def document_ok_def)
next
  case False
  show ?thesis
  proof (cases "parse_numbered lines")
    case (Inl e)
    then have "mapE (parse_gedcom_line 0) lines \<noteq> Inr ps" for ps
      using parse_numbered_Inr [of lines ps] by simp
    with Inl False show ?thesis by (simp add: validate_gedcom_555_def)
  next
    case (Inr ps)
    then have m: "mapE (parse_gedcom_line 0) lines = Inr ps" by (simp add: parse_numbered_Inr)
    then have "ps \<noteq> []" using False mapE_length by fastforce
    with Inr False m show ?thesis
      by (auto simp: validate_gedcom_555_def document_ok_def bindE_Inr_iff validate_loop
          validator_at_def split: if_splits)
  qed
qed

text \<open>The version and the character set that the messages call \<open>HEAD.GEDC.VERS\<close> and \<open>HEAD.CHAR\<close>
  need not be in the header: a document that declares both inside another record, and neither
  in its \<open>HEAD\<close>, is accepted.\<close>

definition headless_version :: "ustr list" where
  "headless_version = map u [''0 HEAD'', ''0 @N1@ NOTE'', ''1 GEDC'', ''2 VERS 5.5.5'', ''1 CHAR UTF-8'', ''0 TRLR'']"

theorem validator_accepts_version_outside_head:
  "validate_gedcom_555 headless_version = Inr () \<and> hd headless_version = u ''0 HEAD''
     \<and> headless_version ! 1 = u ''0 @N1@ NOTE''"
  unfolding headless_version_def by code_simp

text \<open>On an accepted document the tag of every line is spelled in its raw text where the
  validator looks for it, so its word index is never out of range on a parsed line.\<close>

theorem validator_never_out_of_range: "validate_gedcom_555 lines \<noteq> Inl IndexOutOfRange"
proof
  assume a: "validate_gedcom_555 lines = Inl IndexOutOfRange"
  have parse: "parse_gedcom_line n l \<noteq> Inl IndexOutOfRange" for n l
    by (auto simp: parse_gedcom_line_def Let_def split: option.splits prod.splits)
  have "mapE (\<lambda>(number, line). parse_gedcom_line number line) xs \<noteq> Inl IndexOutOfRange" for xs
    by (induction xs) (auto simp: bindE_Inl_iff parse)
  then have "parse_numbered lines \<noteq> Inl IndexOutOfRange" by (simp add: parse_numbered_def)
  with a obtain ps where ps: "parse_numbered lines = Inr ps"
    and loop: "foldE validate_step validator_start ps = Inl IndexOutOfRange"
    by (auto simp: validate_gedcom_555_def bindE_Inl_iff split: if_splits)
  have "validate_step s p \<noteq> Inl IndexOutOfRange" if p: "p \<in> set ps" for s p
  proof -
    from ps have "mapE (parse_gedcom_line 0) lines = Inr ps" by (simp add: parse_numbered_Inr)
    with p obtain l where "parse_gedcom_line 0 l = Inr p"
      by (auto simp: mapE_Inr_iff list_all2_conv_all_nth in_set_conv_nth)
    from parse_gedcom_line_words [OF this] obtain ds t ws where
      "split_space (gl_raw p) = ds # (if gl_xref p = [] then [] else [gl_xref p]) @ t # ws" by blast
    then show ?thesis
      by (auto simp: validate_step_def validate_xref_def Let_def bindE_Inl_iff split: if_splits)
  qed
  then have "foldE validate_step s qs \<noteq> Inl IndexOutOfRange" if "set qs \<subseteq> set ps" for s qs
    using that by (induction qs arbitrary: s) (auto simp: bindE_Inl_iff)
  with loop show False by blast
qed

end
