(* ===== verification/Gedcom_Graph.thy ===== *)
theory Gedcom_Graph
  imports Gedcom_Model
begin

text \<open>
  \<open>gedcom/graph.py\<close>: rewriting of pointers, the semantic references of lines, the closure of
  auxiliary records, the resolution of the root person, and the connected, ancestor and
  descendant selections. A Python set is a list of its elements in the order the model meets
  them; every theorem is about the set of that list, so it holds for any iteration order.
\<close>

section \<open>References\<close>

definition pointer_reference_tags :: "ustr list" where
  "pointer_reference_tags = map u [''ALIA'', ''ASSO'', ''CHIL'', ''FAMC'', ''FAMS'', ''HUSB'', ''WIFE'',
     ''OBJE'', ''NOTE'', ''REPO'', ''SOUR'', ''SUBM'', ''SNOTE'', ''WITN'']"

definition rooted_auxiliary_record_tags :: "ustr list" where
  "rooted_auxiliary_record_tags = map u [''NOTE'', ''SOUR'', ''OBJE'', ''REPO'', ''SUBM'']"

definition lookup_or_same :: "(ustr \<rightharpoonup> ustr) \<Rightarrow> ustr \<Rightarrow> ustr" where
  "lookup_or_same m x = (case m x of None \<Rightarrow> x | Some y \<Rightarrow> y)"

definition rewrite_xrefs :: "ustr \<Rightarrow> (ustr \<rightharpoonup> ustr) \<Rightarrow> gedcom_error + ustr" where
  "rewrite_xrefs line pointer_map = bindE (parse_gedcom_line 0 line) (\<lambda>p.
     if gl_xref p = [] \<and> gl_tag p \<notin> set pointer_reference_tags then Inr line
     else if gl_xref p = [] \<and> \<not> xref_fullmatch (py_strip (gl_value p)) then Inr line
     else Inr (xref_sub (lookup_or_same pointer_map) line))"

definition line_reference :: "ustr \<Rightarrow> gedcom_error + ustr list" where
  "line_reference line = bindE (parse_gedcom_line 0 line) (\<lambda>p.
     let value = py_strip (gl_value p) in
     Inr (if gl_xref p = [] \<and> gl_tag p \<in> set pointer_reference_tags \<and> xref_fullmatch value
          then [value] else []))"

definition exact_pointer_references :: "ustr list \<Rightarrow> gedcom_error + ustr list" where
  "exact_pointer_references lines = bindE (mapE line_reference lines) (\<lambda>rs. Inr (remdups (concat rs)))"

section \<open>Auxiliary records\<close>

definition add_auxiliary :: "(ustr \<rightharpoonup> ustr) \<Rightarrow> (ustr \<times> gedcom_record) list \<Rightarrow> gedcom_record
    \<Rightarrow> gedcom_error + (ustr \<times> gedcom_record) list" where
  "add_auxiliary pointer_map aux r = bindE (record_header r) (\<lambda>h.
     if gl_tag h \<notin> set rooted_auxiliary_record_tags \<or> gl_xref h = [] then Inr aux
     else bindE (rewrite_xrefs (hd (gr_lines r)) pointer_map) (\<lambda>line.
       bindE (parse_gedcom_line 0 line) (\<lambda>rh. Inr (AList.update (gl_xref rh) r aux))))"

definition record_references :: "(ustr \<rightharpoonup> ustr) \<Rightarrow> gedcom_record \<Rightarrow> gedcom_error + ustr list" where
  "record_references pointer_map r =
     bindE (mapE (\<lambda>l. rewrite_xrefs l pointer_map) (gr_lines r)) exact_pointer_references"

function closure_loop :: "(ustr \<rightharpoonup> ustr) \<Rightarrow> (ustr \<times> gedcom_record) list \<Rightarrow> ustr list \<Rightarrow> ustr list
    \<Rightarrow> gedcom_error + ustr list" where
  "closure_loop pm aux retained [] = Inr retained"
| "closure_loop pm aux retained (pointer # pending) =
     (if pointer \<in> set retained then closure_loop pm aux retained pending
      else case map_of aux pointer of
        None \<Rightarrow> closure_loop pm aux retained pending
      | Some r \<Rightarrow>
          (case record_references pm r of
             Inl e \<Rightarrow> Inl e
           | Inr refs \<Rightarrow> closure_loop pm aux (pointer # retained)
               (pending @ filter (\<lambda>x. x \<notin> set (pointer # retained)) (sort refs))))"
  by pat_completeness auto
termination
  by (relation "inv_image (less_than <*lex*> less_than)
    (\<lambda>(pm, aux, retained, pending). (card (dom (map_of aux) - set retained), length pending))")
    (auto simp: finite_dom_map_of intro!: psubset_card_mono)

definition rooted_auxiliary_pointer_closure ::
    "ustr list \<Rightarrow> gedcom_record list \<Rightarrow> (ustr \<rightharpoonup> ustr) \<Rightarrow> gedcom_error + ustr list" where
  "rooted_auxiliary_pointer_closure seed_lines source_records pointer_map =
     bindE (foldE (add_auxiliary pointer_map) [] source_records) (\<lambda>aux.
       bindE (exact_pointer_references seed_lines) (\<lambda>seeds. closure_loop pointer_map aux [] (sort seeds)))"

section \<open>Families\<close>

definition block_members :: "ustr list \<Rightarrow> gedcom_error + ustr list" where
  "block_members block = (case block of [] \<Rightarrow> Inl IndexOutOfRange | line # _ \<Rightarrow>
     bindE (parse_gedcom_line 0 line) (\<lambda>first.
       Inr (if gl_tag first \<in> {u ''HUSB'', u ''WIFE'', u ''CHIL''} \<and> gl_value first \<noteq> []
            then xref_findall (gl_value first) else [])))"

definition add_family :: "(ustr \<times> ustr list) list \<Rightarrow> gedcom_record \<Rightarrow> gedcom_error + (ustr \<times> ustr list) list" where
  "add_family result r = bindE (record_header r) (\<lambda>h.
     if gl_tag h \<noteq> u ''FAM'' \<or> gl_xref h = [] then Inr result
     else bindE (top_level_blocks (gr_lines r)) (\<lambda>blocks.
       bindE (mapE block_members blocks) (\<lambda>ms.
         Inr (AList.update (gl_xref h) (remdups (concat ms)) result))))"

definition family_members :: "gedcom_record list \<Rightarrow> gedcom_error + (ustr \<times> ustr list) list" where
  "family_members source_records = foldE add_family [] source_records"

section \<open>The root person\<close>

text \<open>The fields of an \<open>IndividualRecord\<close> the resolution reads. Case folding is the Unicode
  operation \<open>str.casefold\<close>, an argument of the model.\<close>

record person_name =
  pn_pointer :: ustr
  pn_full_name :: ustr

definition resolve_root_person :: "(ustr \<Rightarrow> ustr) \<Rightarrow> ustr \<Rightarrow> person_name list \<Rightarrow> (ustr \<rightharpoonup> ustr) list
    \<Rightarrow> (ustr \<rightharpoonup> ustr) \<Rightarrow> gedcom_error + ustr" where
  "resolve_root_person casefold requested0 records source_pointer_maps merged_pointer_map =
     (let requested = py_strip requested0; pointers = map pn_pointer records in
      if requested \<in> set pointers then Inr requested
      else
        let mapped = remdups (filter (\<lambda>x. x \<in> set pointers)
              (concat (map (\<lambda>pm. case pm requested of None \<Rightarrow> [] | Some g \<Rightarrow> [lookup_or_same merged_pointer_map g])
                source_pointer_maps))) in
        if length mapped = 1 then Inr (hd mapped)
        else
          let name_matches = remdups (map pn_pointer
                (filter (\<lambda>r. casefold (pn_full_name r) = casefold requested) records)) in
          if length name_matches = 1 then Inr (hd name_matches)
          else if name_matches = [] \<and> mapped = [] then Inl (RootNotFound requested)
          else Inl (RootAmbiguous requested))"

section \<open>The connected component\<close>

definition map_members :: "(ustr \<rightharpoonup> ustr) \<Rightarrow> (ustr \<times> ustr list) list \<Rightarrow> (ustr \<times> ustr list) list" where
  "map_members merged fm = map (\<lambda>(f, ms). (f, remdups (map (lookup_or_same merged) ms))) fm"

definition families_of :: "(ustr \<times> ustr list) list \<Rightarrow> ustr \<Rightarrow> ustr list" where
  "families_of fm p = map fst (filter (\<lambda>(f, ms). p \<in> set ms) fm)"

definition members_of :: "(ustr \<times> ustr list) list \<Rightarrow> ustr \<Rightarrow> ustr list" where
  "members_of fm f = (case map_of fm f of None \<Rightarrow> [] | Some ms \<Rightarrow> ms)"

text \<open>The inner loop over the families of a person: new families are kept and their members
  pushed; the top of the stack is the head of the list.\<close>

definition visit_families :: "(ustr \<times> ustr list) list \<Rightarrow> ustr list \<Rightarrow> ustr list \<Rightarrow> ustr list \<Rightarrow> ustr list \<times> ustr list" where
  "visit_families fm fams keep_families pending =
     foldl (\<lambda>(kf, pend) f. if f \<in> set kf then (kf, pend) else (f # kf, rev (members_of fm f) @ pend))
       (keep_families, pending) fams"

function connected_loop :: "(ustr \<times> ustr list) list \<Rightarrow> ustr list \<Rightarrow> ustr list \<Rightarrow> ustr list \<Rightarrow> ustr list
    \<Rightarrow> ustr list \<times> ustr list" where
  "connected_loop fm known kp kf [] = (kp, kf)"
| "connected_loop fm known kp kf (pointer # pending) =
     (if pointer \<in> set kp \<or> pointer \<notin> set known then connected_loop fm known kp kf pending
      else let r = visit_families fm (families_of fm pointer) kf pending in
           connected_loop fm known (pointer # kp) (fst r) (snd r))"
  by pat_completeness auto
termination
  by (relation "inv_image (less_than <*lex*> less_than)
    (\<lambda>(fm, known, kp, kf, pending). (card (set known - set kp), length pending))")
    (auto simp: unvisited_decreases case_prod_beta)

definition connected_tree_pointers :: "ustr \<Rightarrow> person_name list \<Rightarrow> gedcom_record list \<Rightarrow> (ustr \<rightharpoonup> ustr) option
    \<Rightarrow> gedcom_error + (ustr list \<times> ustr list)" where
  "connected_tree_pointers root people source_records merged =
     bindE (family_members source_records) (\<lambda>fm.
       let fm = (case merged of None \<Rightarrow> fm | Some m \<Rightarrow> map_members m fm) in
       Inr (connected_loop fm (map pn_pointer people) [] [] [root]))"

section \<open>Ancestors and descendants\<close>

text \<open>The tables of the scoped traversal: per family its parents and children, per person the
  families of its children and of its marriages.\<close>

record scope_tables =
  st_families :: "(ustr \<times> (ustr list \<times> ustr list)) list"
  st_child_families :: "ustr \<Rightarrow> ustr list"
  st_spouse_families :: "ustr \<Rightarrow> ustr list"

definition add_role :: "ustr list \<times> ustr list \<Rightarrow> ustr list \<Rightarrow> gedcom_error + (ustr list \<times> ustr list)" where
  "add_role roles block = (case block of [] \<Rightarrow> Inl IndexOutOfRange | line # _ \<Rightarrow>
     bindE (parse_gedcom_line 0 line) (\<lambda>first.
       let pointers = xref_findall (gl_value first) in
       Inr (if gl_tag first \<in> {u ''HUSB'', u ''WIFE''} then (remdups (fst roles @ pointers), snd roles)
            else if gl_tag first = u ''CHIL'' then (fst roles, remdups (snd roles @ pointers))
            else roles)))"

definition add_to_all :: "ustr \<Rightarrow> ustr list \<Rightarrow> (ustr \<Rightarrow> ustr list) \<Rightarrow> (ustr \<Rightarrow> ustr list)" where
  "add_to_all f ps table = foldl (\<lambda>t p. t(p := List.insert f (t p))) table ps"

text \<open>The same as one case distinction, which evaluation uses: no entry is computed twice.\<close>

lemma add_to_all_code [code]: "add_to_all f ps table = (\<lambda>x. if x \<in> set ps then List.insert f (table x) else table x)"
proof -
  have "foldl (\<lambda>t p. t(p := List.insert f (t p))) table ps = (\<lambda>x. if x \<in> set ps then List.insert f (table x) else table x)"
    by (induction ps arbitrary: table) (auto simp: fun_eq_iff)
  then show ?thesis by (simp add: add_to_all_def)
qed

definition add_scope_record :: "scope_tables \<Rightarrow> gedcom_record \<Rightarrow> gedcom_error + scope_tables" where
  "add_scope_record t r = bindE (record_header r) (\<lambda>h.
     if gl_tag h \<noteq> u ''FAM'' \<or> gl_xref h = [] then Inr t
     else bindE (top_level_blocks (gr_lines r)) (\<lambda>blocks.
       bindE (foldE add_role ([], []) blocks) (\<lambda>roles.
         Inr \<lparr>st_families = AList.update (gl_xref h) roles (st_families t),
              st_child_families = add_to_all (gl_xref h) (snd roles) (st_child_families t),
              st_spouse_families = add_to_all (gl_xref h) (fst roles) (st_spouse_families t)\<rparr>)))"

type_synonym scope_state = "ustr list \<times> ustr list \<times> (ustr \<times> nat) list"

text \<open>The two innermost loops: the related people of one family, and the families of one person.\<close>

definition enqueue_related :: "nat \<Rightarrow> ustr list \<times> (ustr \<times> nat) list \<Rightarrow> ustr \<Rightarrow> ustr list \<times> (ustr \<times> nat) list" where
  "enqueue_related depth s related =
     (if related \<in> set (fst s) then s else (related # fst s, snd s @ [(related, depth + 1)]))"

definition scope_family :: "bool \<Rightarrow> scope_tables \<Rightarrow> nat \<Rightarrow> scope_state \<Rightarrow> ustr \<Rightarrow> gedcom_error + scope_state" where
  "scope_family ancestors t depth s f = (case map_of (st_families t) f of
     None \<Rightarrow> Inl (KeyMissing f)
   | Some (parents, children) \<Rightarrow>
       (case s of (keep_people, keep_families, pending) \<Rightarrow>
          let keep_people = (if ancestors then keep_people else List.union parents keep_people);
              r = foldl (enqueue_related depth) (keep_people, pending) (if ancestors then parents else children) in
          Inr (fst r, List.insert f keep_families, snd r)))"

definition scope_people :: "scope_tables \<Rightarrow> ustr set" where
  "scope_people t = (\<Union>(f, ps, cs) \<in> set (st_families t). set ps \<union> set cs)"

definition scope_person :: "bool \<Rightarrow> scope_tables \<Rightarrow> nat option \<Rightarrow> scope_state \<Rightarrow> ustr \<Rightarrow> nat \<Rightarrow> gedcom_error + scope_state" where
  "scope_person ancestors t generations s pointer depth =
     (if (case generations of None \<Rightarrow> False | Some g \<Rightarrow> depth \<ge> g) then Inr s
      else foldE (scope_family ancestors t depth) s
        ((if ancestors then st_child_families t else st_spouse_families t) pointer))"

lemma enqueue_related_old: "x \<in> set keep \<Longrightarrow> enqueue_related d (keep, pending) x = (keep, pending)"
  and enqueue_related_new: "x \<notin> set keep \<Longrightarrow> enqueue_related d (keep, pending) x = (x # keep, pending @ [(x, d + 1)])"
  by (simp_all add: enqueue_related_def)

lemma enqueue_fold:
  "\<exists>new. foldl (enqueue_related d) (keep, pending) xs = (new @ keep, pending @ map (\<lambda>x. (x, d + 1)) (rev new))
     \<and> set (new @ keep) = set xs \<union> set keep \<and> set new = set xs - set keep \<and> distinct new"
proof (induction xs arbitrary: keep pending)
  case Nil
  show ?case by simp
next
  case (Cons x xs)
  show ?case
  proof (cases "x \<in> set keep")
    case True
    with Cons [of keep pending] show ?thesis by (auto simp: enqueue_related_old)
  next
    case False
    from Cons [of "x # keep" "pending @ [(x, d + 1)]"] obtain new where
      n: "foldl (enqueue_related d) (x # keep, pending @ [(x, d + 1)]) xs
         = (new @ x # keep, (pending @ [(x, d + 1)]) @ map (\<lambda>x. (x, d + 1)) (rev new))"
       "set (new @ x # keep) = set xs \<union> set (x # keep)" "set new = set xs - set (x # keep)" "distinct new" by blast
    with False show ?thesis
      by (intro exI [of _ "new @ [x]"]) (auto simp: enqueue_related_new)
  qed
qed

text \<open>One family adds its people; whatever it enqueues was not kept before and is one of them.\<close>

lemma scope_family_Inr:
  assumes "scope_family anc t d (kp, kf, pend) f = Inr (kp', kf', pend')"
  obtains parents children new where "map_of (st_families t) f = Some (parents, children)"
    "kf' = List.insert f kf"
    "set kp' = set kp \<union> (if anc then set parents else set parents \<union> set children)"
    "pend' = pend @ map (\<lambda>x. (x, d + 1)) new" "set new \<subseteq> set kp' - set kp"
    "anc \<Longrightarrow> set new = set parents - set kp"
    "\<not> anc \<Longrightarrow> set new = set children - set parents - set kp"
proof -
  from assms obtain parents children where f: "map_of (st_families t) f = Some (parents, children)"
    by (auto simp: scope_family_def split: option.splits prod.splits)
  let ?kp = "if anc then kp else List.union parents kp"
  let ?xs = "if anc then parents else children"
  obtain new where n: "foldl (enqueue_related d) (?kp, pend) ?xs
      = (new @ ?kp, pend @ map (\<lambda>x. (x, d + 1)) (rev new))"
    "set (new @ ?kp) = set ?xs \<union> set ?kp" "set new = set ?xs - set ?kp"
    using enqueue_fold [of d ?kp pend ?xs] by blast
  from assms f n(1) have r: "kp' = new @ ?kp" "kf' = List.insert f kf" "pend' = pend @ map (\<lambda>x. (x, d + 1)) (rev new)"
    by (simp_all add: scope_family_def Let_def split: if_splits)
  show thesis
  proof (rule that [OF f r(2) _ r(3)])
    show "set kp' = set kp \<union> (if anc then set parents else set parents \<union> set children)"
      using r(1) n(2) by auto
    show "set (rev new) \<subseteq> set kp' - set kp" using r(1) n(3) by (auto split: if_splits)
    show "anc \<Longrightarrow> set (rev new) = set parents - set kp" using n(3) by simp
    show "\<not> anc \<Longrightarrow> set (rev new) = set children - set parents - set kp" using n(3) by auto
  qed
qed

text \<open>Visiting a person keeps what was kept, adds people of the tables, and enqueues nothing
  unless it adds someone.\<close>

lemma scope_families_grow:
  "foldE (scope_family anc t d) (kp, kf, pend) fs = Inr (kp', kf', pend') \<Longrightarrow>
     set kp \<subseteq> set kp' \<and> set kp' \<subseteq> set kp \<union> scope_people t \<and> (set kp' = set kp \<longrightarrow> pend' = pend)"
proof (induction fs arbitrary: kp kf pend)
  case Nil
  then show ?case by simp
next
  case (Cons f fs)
  from Cons.prems obtain kp1 kf1 pend1 where
    s: "scope_family anc t d (kp, kf, pend) f = Inr (kp1, kf1, pend1)"
    and r: "foldE (scope_family anc t d) (kp1, kf1, pend1) fs = Inr (kp', kf', pend')"
    by (auto simp: bindE_Inr_iff)
  from s obtain ps cs new where f: "map_of (st_families t) f = Some (ps, cs)"
    "set kp1 = set kp \<union> (if anc then set ps else set ps \<union> set cs)"
    "pend1 = pend @ map (\<lambda>x. (x, d + 1)) new" "set new \<subseteq> set kp1 - set kp"
    by (rule scope_family_Inr) blast
  from f(1) have "set ps \<union> set cs \<subseteq> scope_people t"
    by (force simp: scope_people_def dest: map_of_SomeD)
  with Cons.IH [OF r] f have "set kp \<subseteq> set kp'" "set kp' \<subseteq> set kp \<union> scope_people t" "set kp1 \<subseteq> set kp'"
    by (auto split: if_splits)
  moreover have "pend' = pend" if eq: "set kp' = set kp"
  proof -
    have "set kp1 = set kp" using eq \<open>set kp1 \<subseteq> set kp'\<close> f(2) by auto
    with f(3,4) Cons.IH [OF r] eq show ?thesis by simp
  qed
  ultimately show ?case by simp
qed

lemma scope_person_grow:
  "scope_person anc t g (kp, kf, pend) p d = Inr (kp', kf', pend') \<Longrightarrow>
     set kp \<subseteq> set kp' \<and> set kp' \<subseteq> set kp \<union> scope_people t \<and> (set kp' = set kp \<longrightarrow> pend' = pend)"
  by (auto simp: scope_person_def dest: scope_families_grow split: if_splits)

lemma finite_scope_people [simp]: "finite (scope_people t)"
  by (auto simp: scope_people_def)

function scope_loop :: "bool \<Rightarrow> scope_tables \<Rightarrow> nat option \<Rightarrow> ustr list \<Rightarrow> ustr list \<Rightarrow> (ustr \<times> nat) list
    \<Rightarrow> gedcom_error + (ustr list \<times> ustr list)" where
  "scope_loop anc t generations kp kf [] = Inr (kp, kf)"
| "scope_loop anc t generations kp kf ((pointer, depth) # pending) =
     (case scope_person anc t generations (kp, kf, pending) pointer depth of
        Inl e \<Rightarrow> Inl e
      | Inr (kp', kf', pending') \<Rightarrow> scope_loop anc t generations kp' kf' pending')"
  by pat_completeness auto
termination
proof (relation "inv_image (less_than <*lex*> less_than)
    (\<lambda>(anc, t, g, kp, kf, pending). (card (scope_people t - set kp), length pending))", goal_cases)
  case (2 anc t g kp kf pointer depth pending b kp' y kf' pending')
  then have "scope_person anc t g (kp, kf, pending) pointer depth = Inr (kp', kf', pending')" by simp
  note G = scope_person_grow [OF this]
  show ?case
  proof (cases "set kp' = set kp")
    case True
    with G show ?thesis by simp
  next
    case False
    with G have "scope_people t - set kp' \<subset> scope_people t - set kp" by auto
    then show ?thesis by (simp add: psubset_card_mono)
  qed
qed (auto intro!: wf_inv_image wf_lex_prod)

definition scoped_tree_pointers :: "ustr \<Rightarrow> person_name list \<Rightarrow> gedcom_record list \<Rightarrow> ustr \<Rightarrow> int option
    \<Rightarrow> gedcom_error + (ustr list \<times> ustr list)" where
  "scoped_tree_pointers root people records scope generations =
     (if scope = u ''connected'' then connected_tree_pointers root people records None
      else if scope \<notin> {u ''ancestors'', u ''descendants''} then Inl (UnknownScope scope)
      else if (case generations of None \<Rightarrow> False | Some g \<Rightarrow> g < 0) then Inl NegativeGenerations
      else bindE (foldE add_scope_record \<lparr>st_families = [], st_child_families = (\<lambda>_. []),
             st_spouse_families = (\<lambda>_. [])\<rparr> records) (\<lambda>t.
        scope_loop (scope = u ''ancestors'') t (map_option nat generations) [root] [] [(root, 0)]))"

section \<open>The closure of auxiliary records\<close>

definition auxiliary_edges :: "(ustr \<rightharpoonup> ustr) \<Rightarrow> (ustr \<times> gedcom_record) list \<Rightarrow> ustr \<Rightarrow> ustr set" where
  "auxiliary_edges pm aux x = (case map_of aux x of None \<Rightarrow> {} | Some r \<Rightarrow>
     (case record_references pm r of Inl e \<Rightarrow> {} | Inr refs \<Rightarrow> set refs))"

lemma closure_loop_reached:
  "closure_loop pm aux retained pending = Inr K \<Longrightarrow>
   worklist_inv (auxiliary_edges pm aux) (\<lambda>x. map_of aux x \<noteq> None) seeds (set retained) (set pending) \<Longrightarrow>
   set K = reached (auxiliary_edges pm aux) (\<lambda>x. map_of aux x \<noteq> None) seeds"
proof (induction pm aux retained pending rule: closure_loop.induct)
  case (1 pm aux retained)
  then show ?case using worklist_inv_done by fastforce
next
  case (2 pm aux retained pointer pending)
  let ?inv = "worklist_inv (auxiliary_edges pm aux) (\<lambda>x. map_of aux x \<noteq> None) seeds"
  show ?case
  proof (cases "pointer \<in> set retained \<or> map_of aux pointer = None")
    case True
    have "?inv (set retained) (set pending)"
      by (rule worklist_inv_skip [OF "2.prems"(2), of pointer]) (use True in auto)
    with 2 True show ?thesis by (cases "pointer \<in> set retained") auto
  next
    case False
    then obtain r where r: "map_of aux pointer = Some r" "pointer \<notin> set retained" by auto
    with "2.prems"(1) obtain refs where refs: "record_references pm r = Inr refs"
      and rest: "closure_loop pm aux (pointer # retained)
        (pending @ filter (\<lambda>x. x \<notin> set (pointer # retained)) (sort refs)) = Inr K"
      by (auto split: sum.splits)
    have e: "auxiliary_edges pm aux pointer = set refs" using r refs by (simp add: auxiliary_edges_def)
    have "?inv (insert pointer (set retained))
        (set (pending @ filter (\<lambda>x. x \<notin> set (pointer # retained)) (sort refs)))"
      by (rule worklist_inv_visit [OF "2.prems"(2)]) (use r e in auto)
    with "2.IH"(3) [OF r(2,1) refs rest] show ?thesis by simp
  qed
qed

section \<open>The connected component is reachability\<close>

definition relatives :: "(ustr \<times> ustr list) list \<Rightarrow> ustr \<Rightarrow> ustr set" where
  "relatives fm p = (\<Union>f \<in> set (families_of fm p). set (members_of fm f))"

lemma visit_families_sets:
  "set (fst (visit_families fm fams kf pend)) = set kf \<union> set fams"
  "set (snd (visit_families fm fams kf pend)) = set pend \<union> (\<Union>f \<in> set fams - set kf. set (members_of fm f))"
proof (induction fams arbitrary: kf pend)
  case Nil
  { case 1 show ?case by (simp add: visit_families_def) }
  { case 2 show ?case by (simp add: visit_families_def) }
next
  case (Cons f fams)
  { case 1 show ?case using Cons.IH(1) [of kf pend] Cons.IH(1) [of "f # kf" "rev (members_of fm f) @ pend"]
      by (auto simp: visit_families_def) }
  { case 2 show ?case using Cons.IH(2) [of kf pend] Cons.IH(2) [of "f # kf" "rev (members_of fm f) @ pend"]
      by (auto simp: visit_families_def) }
qed

lemma connected_loop_reached:
  "worklist_inv (relatives fm) (\<lambda>p. p \<in> set known) seeds (set kp) (set pending) \<Longrightarrow>
   set kf = (\<Union>p \<in> set kp. set (families_of fm p)) \<Longrightarrow>
   (\<And>f y. f \<in> set kf \<Longrightarrow> y \<in> set (members_of fm f) \<Longrightarrow> y \<in> set known \<Longrightarrow> y \<in> set kp \<union> set pending) \<Longrightarrow>
   set (fst (connected_loop fm known kp kf pending)) = reached (relatives fm) (\<lambda>p. p \<in> set known) seeds
   \<and> set (snd (connected_loop fm known kp kf pending))
     = (\<Union>p \<in> set (fst (connected_loop fm known kp kf pending)). set (families_of fm p))"
proof (induction fm known kp kf pending rule: connected_loop.induct)
  case (1 fm known kp kf)
  then show ?case using worklist_inv_done by fastforce
next
  case (2 fm known kp kf pointer pending)
  let ?inv = "worklist_inv (relatives fm) (\<lambda>p. p \<in> set known) seeds"
  show ?case
  proof (cases "pointer \<in> set kp \<or> pointer \<notin> set known")
    case True
    have "?inv (set kp) (set pending)"
      by (rule worklist_inv_skip [OF "2.prems"(1), of pointer]) (use True in auto)
    moreover have "y \<in> set kp \<union> set pending"
      if "f \<in> set kf" "y \<in> set (members_of fm f)" "y \<in> set known" for f y
      using "2.prems"(3) [OF that] True that(3) by auto
    ultimately show ?thesis using "2.IH"(1) [OF True _ "2.prems"(2)] True by simp
  next
    case False
    let ?r = "visit_families fm (families_of fm pointer) kf pending"
    note V = visit_families_sets [of fm "families_of fm pointer" kf pending]
    have old: "y \<in> insert pointer (set kp) \<union> set (snd ?r)"
      if "f \<in> set kf" "y \<in> set (members_of fm f)" "y \<in> set known" for f y
      using "2.prems"(3) [OF that] V(2) by auto
    have new: "y \<in> insert pointer (set kp) \<union> set (snd ?r)"
      if "f \<in> set (families_of fm pointer)" "y \<in> set (members_of fm f)" "y \<in> set known" for f y
      using old [of f y] that V(2) by (cases "f \<in> set kf") auto
    have inv: "?inv (insert pointer (set kp)) (set (snd ?r))"
    proof (rule worklist_inv_visit [OF "2.prems"(1)])
      show "set (pointer # pending) - {pointer} \<subseteq> set (snd ?r)" using V(2) by auto
      show "set (snd ?r) \<subseteq> set (pointer # pending) \<union> relatives fm pointer" using V(2) by (auto simp: relatives_def)
      show "y \<in> insert pointer (set kp) \<union> set (snd ?r)" if "y \<in> relatives fm pointer" "y \<in> set known" for y
        using that new by (auto simp: relatives_def)
    qed (use False in auto)
    have "set (fst ?r) = (\<Union>p \<in> set (pointer # kp). set (families_of fm p))"
      using V(1) "2.prems"(2) by auto
    moreover have "y \<in> set (pointer # kp) \<union> set (snd ?r)"
      if "f \<in> set (fst ?r)" "y \<in> set (members_of fm f)" "y \<in> set known" for f y
      using that old new V(1) by auto
    ultimately show ?thesis
      using "2.IH"(2) [OF False refl] inv False by (simp add: Let_def)
  qed
qed

section \<open>Ancestors are the people within the generation limit\<close>

definition parent_edges :: "scope_tables \<Rightarrow> (ustr \<times> ustr) set" where
  "parent_edges t = {(x, y). \<exists>f \<in> set (st_child_families t x). \<exists>ps cs.
     map_of (st_families t) f = Some (ps, cs) \<and> y \<in> set ps}"

definition child_edges :: "scope_tables \<Rightarrow> (ustr \<times> ustr) set" where
  "child_edges t = {(x, y). \<exists>f \<in> set (st_spouse_families t x). \<exists>ps cs.
     map_of (st_families t) f = Some (ps, cs) \<and> y \<in> set cs}"

definition within_steps :: "('a \<times> 'a) set \<Rightarrow> 'a \<Rightarrow> nat \<Rightarrow> 'a set" where
  "within_steps E r n = {y. \<exists>k \<le> n. (r, y) \<in> E ^^ k}"

definition beyond :: "nat option \<Rightarrow> nat \<Rightarrow> bool" where
  "beyond generations d \<longleftrightarrow> (case generations of None \<Rightarrow> False | Some g \<Rightarrow> d \<ge> g)"

lemma within_steps_0 [simp]: "within_steps E r 0 = {r}"
  by (auto simp: within_steps_def)

lemma within_steps_Suc: "within_steps E r (Suc n) = within_steps E r n \<union> E `` within_steps E r n"
proof (intro equalityI subsetI)
  fix y assume "y \<in> within_steps E r (Suc n)"
  then obtain k where k: "k \<le> Suc n" "(r, y) \<in> E ^^ k" by (auto simp: within_steps_def)
  show "y \<in> within_steps E r n \<union> E `` within_steps E r n"
  proof (cases k)
    case 0
    then show ?thesis using k(2) by (auto simp: within_steps_def intro!: exI [of _ 0])
  next
    case (Suc m)
    then obtain z where "(r, z) \<in> E ^^ m" "(z, y) \<in> E" using k(2) by auto
    with Suc k(1) show ?thesis by (auto simp: within_steps_def)
  qed
next
  fix y assume "y \<in> within_steps E r n \<union> E `` within_steps E r n"
  then show "y \<in> within_steps E r (Suc n)"
  proof
    assume "y \<in> E `` within_steps E r n"
    then obtain z k where "k \<le> n" "(r, z) \<in> E ^^ k" "(z, y) \<in> E" by (auto simp: within_steps_def)
    then have "Suc k \<le> Suc n" "(r, y) \<in> E ^^ Suc k" by auto
    then show ?thesis unfolding within_steps_def by blast
  qed (auto simp: within_steps_def intro: le_SucI)
qed

lemma within_steps_closed: "E `` within_steps E r n \<subseteq> within_steps E r n \<Longrightarrow> (r, y) \<in> E ^^ k \<Longrightarrow> y \<in> within_steps E r n"
proof (induction k arbitrary: y)
  case 0
  then show ?case by (auto simp: within_steps_def)
qed auto

lemma scope_families_ancestors:
  "foldE (scope_family True t d) (kp, kf, pend) fs = Inr (kp', kf', pend') \<Longrightarrow>
     \<exists>new. pend' = pend @ map (\<lambda>x. (x, d + 1)) new \<and> set new = set kp' - set kp
       \<and> set kp' = set kp \<union> {y. \<exists>f \<in> set fs. \<exists>ps cs. map_of (st_families t) f = Some (ps, cs) \<and> y \<in> set ps}"
proof (induction fs arbitrary: kp kf pend)
  case Nil
  then show ?case by simp
next
  case (Cons f fs)
  from Cons.prems obtain kp1 kf1 pend1 where
    s: "scope_family True t d (kp, kf, pend) f = Inr (kp1, kf1, pend1)"
    and r: "foldE (scope_family True t d) (kp1, kf1, pend1) fs = Inr (kp', kf', pend')"
    by (auto simp: bindE_Inr_iff)
  from s obtain ps cs new where f: "map_of (st_families t) f = Some (ps, cs)" "set kp1 = set kp \<union> set ps"
    "pend1 = pend @ map (\<lambda>x. (x, d + 1)) new" "set new = set ps - set kp"
    by (rule scope_family_Inr) auto
  from Cons.IH [OF r] obtain new' where n: "pend' = pend1 @ map (\<lambda>x. (x, d + 1)) new'"
    "set new' = set kp' - set kp1"
    "set kp' = set kp1 \<union> {y. \<exists>f \<in> set fs. \<exists>ps cs. map_of (st_families t) f = Some (ps, cs) \<and> y \<in> set ps}" by blast
  have "set (new @ new') = set kp' - set kp" using n f by auto
  with n f show ?case by (intro exI [of _ "new @ new'"]) auto
qed

lemma scope_person_ancestors:
  assumes "scope_person True t g (kp, kf, pend) x d = Inr (kp', kf', pend')" "\<not> beyond g d"
  shows "\<exists>new. pend' = pend @ map (\<lambda>x. (x, d + 1)) new \<and> set new = set kp' - set kp
       \<and> set kp' = set kp \<union> parent_edges t `` {x}"
  using assms scope_families_ancestors [of t d kp kf pend "st_child_families t x" kp' kf' pend']
  by (auto simp: scope_person_def beyond_def parent_edges_def split: option.splits)

text \<open>The queue holds people of two consecutive depths; everyone within the smaller one is kept, and
  those of them that are not queued any more have their parents kept.\<close>

definition bfs_inv :: "scope_tables \<Rightarrow> ustr \<Rightarrow> nat option \<Rightarrow> ustr set \<Rightarrow> (ustr \<times> nat) list \<Rightarrow> nat \<Rightarrow> ustr list \<Rightarrow> ustr list \<Rightarrow> bool" where
  "bfs_inv t r g kept pending d A B \<longleftrightarrow>
     pending = map (\<lambda>x. (x, d)) A @ map (\<lambda>x. (x, d + 1)) B
     \<and> set A \<subseteq> within_steps (parent_edges t) r d
     \<and> kept = within_steps (parent_edges t) r d \<union> set B
     \<and> set B \<subseteq> within_steps (parent_edges t) r (d + 1)
     \<and> (\<not> beyond g d \<longrightarrow> (\<forall>x \<in> within_steps (parent_edges t) r d. x \<notin> set A \<longrightarrow> parent_edges t `` {x} \<subseteq> kept))
     \<and> (beyond g d \<longrightarrow> B = []) \<and> (\<forall>k < d. \<not> beyond g k)"

lemma bfs_inv_advance:
  assumes "bfs_inv t r g kept pending d [] B" "B \<noteq> []"
  shows "bfs_inv t r g kept pending (d + 1) B []"
proof -
  let ?D = "within_steps (parent_edges t) r"
  from assms have nb: "\<not> beyond g d" by (auto simp: bfs_inv_def)
  have "?D (d + 1) \<subseteq> kept"
    using assms nb by (auto simp: bfs_inv_def within_steps_Suc)
  moreover have "kept \<subseteq> ?D (d + 1)" using assms by (auto simp: bfs_inv_def within_steps_Suc)
  ultimately have D: "kept = ?D (d + 1)" by blast
  have "parent_edges t `` {x} \<subseteq> kept" if "x \<in> ?D (d + 1)" "x \<notin> set B" for x
    using that D assms nb by (auto simp: bfs_inv_def)
  with D assms nb show ?thesis by (auto simp: bfs_inv_def less_Suc_eq)
qed

lemma bfs_inv_end:
  assumes "bfs_inv t r g kept [] d A B"
  shows "kept = {y. \<exists>n. (case g of None \<Rightarrow> True | Some m \<Rightarrow> n \<le> m) \<and> (r, y) \<in> parent_edges t ^^ n}"
proof -
  let ?E = "parent_edges t"
  let ?D = "within_steps ?E r"
  from assms have AB: "A = []" "B = []" by (auto simp: bfs_inv_def)
  with assms have D: "kept = ?D d" and pre: "\<And>k. k < d \<Longrightarrow> \<not> beyond g k" by (auto simp: bfs_inv_def)
  show ?thesis
  proof (cases "beyond g d")
    case True
    then obtain m where m: "g = Some m" "m \<le> d" by (auto simp: beyond_def split: option.splits)
    have "\<not> m < d" using pre [of m] m(1) by (auto simp: beyond_def)
    with m(2) have "m = d" by simp
    with m D show ?thesis by (auto simp: within_steps_def)
  next
    case False
    with assms AB D have closed: "?E `` ?D d \<subseteq> ?D d" by (auto simp: bfs_inv_def)
    have "?D d \<subseteq> {y. \<exists>n. (case g of None \<Rightarrow> True | Some m \<Rightarrow> n \<le> m) \<and> (r, y) \<in> ?E ^^ n}"
      using False by (auto simp: within_steps_def beyond_def split: option.splits) (meson le_trans nat_le_linear)
    with D within_steps_closed [OF closed] show ?thesis by auto
  qed
qed

lemma scope_loop_ancestors:
  "scope_loop True t g kp kf pending = Inr (kp', kf') \<Longrightarrow> bfs_inv t r g (set kp) pending d A B \<Longrightarrow>
     set kp' = {y. \<exists>n. (case g of None \<Rightarrow> True | Some m \<Rightarrow> n \<le> m) \<and> (r, y) \<in> parent_edges t ^^ n}"
proof (induction "True" t g kp kf pending arbitrary: d A B rule: scope_loop.induct)
  case (1 t g kp kf)
  then show ?case using bfs_inv_end by (metis (no_types, lifting) fst_conv scope_loop.simps(1) sum.inject(2))
next
  case (2 t g kp kf pointer depth pending)
  let ?D = "within_steps (parent_edges t) r"
  obtain d A B where inv: "bfs_inv t r g (set kp) ((pointer, depth) # pending) d A B" and "A \<noteq> []"
  proof (cases "A = []")
    case True
    with "2.prems"(2) have "B \<noteq> []" by (auto simp: bfs_inv_def)
    with "2.prems"(2) True show thesis using bfs_inv_advance [of t r g "set kp" _ d B] that by auto
  next
    case False
    with "2.prems"(2) show thesis by (rule that)
  qed
  then obtain A' where A: "A = pointer # A'" "depth = d" "pending = map (\<lambda>x. (x, d)) A' @ map (\<lambda>x. (x, d + 1)) B"
    by (cases A) (auto simp: bfs_inv_def)
  from "2.prems"(1) obtain kp1 kf1 pend1 where
    s: "scope_person True t g (kp, kf, pending) pointer depth = Inr (kp1, kf1, pend1)"
    and l: "scope_loop True t g kp1 kf1 pend1 = Inr (kp', kf')"
    by (auto split: sum.splits)
  have "\<exists>B'. bfs_inv t r g (set kp1) pend1 d A' B'"
  proof (cases "beyond g d")
    case True
    then have "kp1 = kp" "pend1 = pending" using s A(2) by (auto simp: scope_person_def beyond_def)
    with inv True A show ?thesis by (intro exI [of _ B]) (auto simp: bfs_inv_def)
  next
    case False
    from scope_person_ancestors [OF s] False A(2) obtain new where
      n: "pend1 = pending @ map (\<lambda>x. (x, d + 1)) new" "set new = set kp1 - set kp"
      "set kp1 = set kp \<union> parent_edges t `` {pointer}" by blast
    have "pointer \<in> ?D d" using inv A by (simp add: bfs_inv_def)
    then have new: "set new \<subseteq> ?D (d + 1)" using n(2,3) by (auto simp: within_steps_Suc)
    have kept: "set kp1 = ?D d \<union> set (B @ new)" using n(2,3) inv by (auto simp: bfs_inv_def)
    have "parent_edges t `` {x} \<subseteq> set kp1" if "x \<in> ?D d" "x \<notin> set A'" for x
    proof (cases "x = pointer")
      case True
      then show ?thesis using n(3) by auto
    next
      case ne: False
      have "\<forall>x \<in> ?D d. x \<notin> set A \<longrightarrow> parent_edges t `` {x} \<subseteq> set kp"
        using inv False unfolding bfs_inv_def by blast
      with that A(1) ne have "parent_edges t `` {x} \<subseteq> set kp" by simp
      then show ?thesis using n(3) by auto
    qed
    with inv A n(1) new kept False show ?thesis
      by (intro exI [of _ "B @ new"]) (auto simp: bfs_inv_def)
  qed
  then obtain B' where "bfs_inv t r g (set kp1) pend1 d A' B'" ..
  from "2.hyps" [OF s refl refl l this] show ?case .
qed

section \<open>Properties\<close>


definition sample_record :: "string list \<Rightarrow> gedcom_record" where
  "sample_record ls = \<lparr>gr_lines = map u ls, gr_source_file = [], gr_sequence = 0, gr_encoding = u ''utf-8''\<rparr>"

definition sample_people :: "person_name list" where
  "sample_people = map (\<lambda>p. \<lparr>pn_pointer = u p, pn_full_name = []\<rparr>) [''@I1@'', ''@I2@'', ''@I3@'']"

definition sample_families :: "gedcom_record list" where
  "sample_families = [sample_record [''0 @F1@ FAM'', ''1 HUSB @I1@'', ''1 CHIL @I2@'']]"


text \<open>The closure over auxiliary records retains exactly the notes, sources, media, repositories and
  submitters reachable from the references of the seed lines.\<close>

theorem auxiliary_closure_is_reachability:
  assumes "rooted_auxiliary_pointer_closure seed_lines records pm = Inr K"
    and "foldE (add_auxiliary pm) [] records = Inr aux" "exact_pointer_references seed_lines = Inr seeds"
  shows "set K = reached (auxiliary_edges pm aux) (\<lambda>x. map_of aux x \<noteq> None) (set seeds)"
proof -
  from assms have "closure_loop pm aux [] (sort seeds) = Inr K"
    by (simp add: rooted_auxiliary_pointer_closure_def)
  then show ?thesis by (rule closure_loop_reached) (simp add: worklist_inv_start)
qed

definition sample_notes :: "gedcom_record list" where
  "sample_notes = [sample_record [''0 @S1@ SOUR'', ''1 NOTE @N1@''], sample_record [''0 @N1@ NOTE'']]"

theorem auxiliary_closure_is_reachability_witness:
  "\<exists>aux. set [u ''@N1@'', u ''@S1@'']
     = reached (auxiliary_edges Map.empty aux) (\<lambda>x. map_of aux x \<noteq> None) (set [u ''@S1@''])"
proof -
  define aux where "aux = [(u ''@S1@'', sample_record [''0 @S1@ SOUR'', ''1 NOTE @N1@'']),
     (u ''@N1@'', sample_record [''0 @N1@ NOTE''])]"
  have a: "foldE (add_auxiliary Map.empty) [] sample_notes = Inr aux"
    unfolding sample_notes_def aux_def sample_record_def by code_simp
  have s: "exact_pointer_references [u ''1 SOUR @S1@''] = Inr [u ''@S1@'']" by code_simp
  have k: "rooted_auxiliary_pointer_closure [u ''1 SOUR @S1@''] sample_notes Map.empty = Inr [u ''@N1@'', u ''@S1@'']"
    unfolding sample_notes_def sample_record_def by code_simp
  show ?thesis using auxiliary_closure_is_reachability [OF k a s] by blast
qed

text \<open>The ancestor selection keeps exactly the people within the requested number of parent steps
  of the root, and all ancestors when no limit is given.\<close>

theorem ancestors_within_generations:
  assumes "foldE add_scope_record \<lparr>st_families = [], st_child_families = (\<lambda>_. []),
      st_spouse_families = (\<lambda>_. [])\<rparr> records = Inr t"
    and "scoped_tree_pointers root people records (u ''ancestors'') generations = Inr (kp, kf)"
  shows "set kp = {y. \<exists>n. (case generations of None \<Rightarrow> True | Some g \<Rightarrow> int n \<le> g)
     \<and> (root, y) \<in> parent_edges t ^^ n}"
proof -
  from assms have l: "scope_loop True t (map_option nat generations) [root] [] [(root, 0)] = Inr (kp, kf)"
    and g: "case generations of None \<Rightarrow> True | Some g \<Rightarrow> 0 \<le> g"
    by (auto simp: scoped_tree_pointers_def split: if_splits option.splits)
  have "bfs_inv t root (map_option nat generations) (set [root]) [(root, 0)] 0 [root] []"
    by (simp add: bfs_inv_def)
  from scope_loop_ancestors [OF l this] g show ?thesis
    by (auto split: option.splits simp: nat_le_iff le_nat_iff)
qed

theorem ancestors_within_generations_witness:
  "\<exists>t. set [u ''@I1@'', u ''@I2@''] = {y. \<exists>n. int n \<le> 1 \<and> (u ''@I2@'', y) \<in> parent_edges t ^^ n}"
proof -
  let ?init = "\<lparr>st_families = [], st_child_families = (\<lambda>_. []), st_spouse_families = (\<lambda>_. [])\<rparr>"
  obtain t where t: "foldE add_scope_record ?init sample_families = Inr t"
  proof -
    have "(case foldE add_scope_record ?init sample_families of Inl _ \<Rightarrow> False | Inr _ \<Rightarrow> True)"
      unfolding sample_families_def sample_record_def by code_simp
    then show thesis using that by (auto split: sum.splits)
  qed
  have s: "scoped_tree_pointers (u ''@I2@'') sample_people sample_families (u ''ancestors'') (Some 1)
      = Inr ([u ''@I1@'', u ''@I2@''], [u ''@F1@''])"
    unfolding sample_families_def sample_record_def sample_people_def by code_simp
  show ?thesis using ancestors_within_generations [OF t s] by auto
qed

text \<open>The descendant selection can miss descendants: someone kept as the spouse of a descendant is not
  queued when found again as a child, so the people reachable only through that person are left
  out, whatever the set iteration order.\<close>

definition niece_marriage :: "gedcom_record list" where
  "niece_marriage = map sample_record
     [[''0 @F1@ FAM'', ''1 HUSB @R@'', ''1 CHIL @A@'', ''1 CHIL @B@''],
      [''0 @F2@ FAM'', ''1 HUSB @B@'', ''1 CHIL @C@''],
      [''0 @F3@ FAM'', ''1 HUSB @C@'', ''1 CHIL @X@''],
      [''0 @F4@ FAM'', ''1 HUSB @A@'', ''1 WIFE @X@''],
      [''0 @F5@ FAM'', ''1 WIFE @X@'', ''1 CHIL @Y@'']]"

theorem descendants_can_be_missed:
  "\<exists>t kp kf. foldE add_scope_record \<lparr>st_families = [], st_child_families = (\<lambda>_. []),
        st_spouse_families = (\<lambda>_. [])\<rparr> niece_marriage = Inr t
     \<and> scoped_tree_pointers (u ''@R@'') [] niece_marriage (u ''descendants'') None = Inr (kp, kf)
     \<and> (u ''@R@'', u ''@Y@'') \<in> child_edges t ^^ 4 \<and> u ''@Y@'' \<notin> set kp \<and> u ''@F5@'' \<notin> set kf"
proof -
  let ?init = "\<lparr>st_families = [], st_child_families = (\<lambda>_. []), st_spouse_families = (\<lambda>_. [])\<rparr>"
  have "(case foldE add_scope_record ?init niece_marriage of Inl _ \<Rightarrow> False | Inr t \<Rightarrow>
      st_spouse_families t (u ''@R@'') = [u ''@F1@''] \<and> st_spouse_families t (u ''@B@'') = [u ''@F2@'']
      \<and> st_spouse_families t (u ''@C@'') = [u ''@F3@''] \<and> st_spouse_families t (u ''@X@'') = [u ''@F5@'', u ''@F4@'']
      \<and> map_of (st_families t) (u ''@F1@'') = Some ([u ''@R@''], [u ''@A@'', u ''@B@''])
      \<and> map_of (st_families t) (u ''@F2@'') = Some ([u ''@B@''], [u ''@C@''])
      \<and> map_of (st_families t) (u ''@F3@'') = Some ([u ''@C@''], [u ''@X@''])
      \<and> map_of (st_families t) (u ''@F5@'') = Some ([u ''@X@''], [u ''@Y@'']))"
    unfolding niece_marriage_def sample_record_def by code_simp
  then obtain t where t: "foldE add_scope_record ?init niece_marriage = Inr t"
    and e: "(u ''@R@'', u ''@B@'') \<in> child_edges t" "(u ''@B@'', u ''@C@'') \<in> child_edges t"
      "(u ''@C@'', u ''@X@'') \<in> child_edges t" "(u ''@X@'', u ''@Y@'') \<in> child_edges t"
    by (auto simp: child_edges_def split: sum.splits)
  have "(u ''@R@'', u ''@Y@'') \<in> child_edges t ^^ 4"
    using e by (auto simp: numeral_eq_Suc)
  moreover have "(case scoped_tree_pointers (u ''@R@'') [] niece_marriage (u ''descendants'') None of
      Inl _ \<Rightarrow> False | Inr (kp, kf) \<Rightarrow> u ''@Y@'' \<notin> set kp \<and> u ''@F5@'' \<notin> set kf)"
    unfolding niece_marriage_def sample_record_def by code_simp
  ultimately show ?thesis using t by (auto split: sum.splits)
qed

text \<open>A resolved root person is always one of the surviving people, and the resolution fails as
  not found exactly when neither the pointer maps nor the names give any of them.\<close>

theorem root_resolution_sound:
  "(\<forall>x. resolve_root_person cf req people maps merged = Inr x \<longrightarrow> x \<in> pn_pointer ` set people)
   \<and> ((\<exists>x. resolve_root_person cf req people maps merged = Inl (RootNotFound x)) \<longleftrightarrow>
      py_strip req \<notin> pn_pointer ` set people
      \<and> (\<forall>m \<in> set maps. \<forall>g. m (py_strip req) = Some g \<longrightarrow> lookup_or_same merged g \<notin> pn_pointer ` set people)
      \<and> (\<forall>p \<in> set people. cf (pn_full_name p) \<noteq> cf (py_strip req)))"
proof -
  define R where "R = py_strip req"
  define P where "P = pn_pointer ` set people"
  define mapped where "mapped = remdups (filter (\<lambda>x. x \<in> set (map pn_pointer people))
     (concat (map (\<lambda>pm. case pm R of None \<Rightarrow> [] | Some g \<Rightarrow> [lookup_or_same merged g]) maps)))"
  define named where "named = remdups (map pn_pointer (filter (\<lambda>r. cf (pn_full_name r) = cf R) people))"
  have res: "resolve_root_person cf req people maps merged =
     (if R \<in> P then Inr R else if length mapped = 1 then Inr (hd mapped)
      else if length named = 1 then Inr (hd named)
      else if named = [] \<and> mapped = [] then Inl (RootNotFound R) else Inl (RootAmbiguous R))"
    by (simp add: resolve_root_person_def R_def mapped_def named_def P_def Let_def)
  have sub: "set mapped \<subseteq> P" "set named \<subseteq> P" by (auto simp: mapped_def named_def P_def)
  have "x \<in> set mapped \<longleftrightarrow> x \<in> P \<and> (\<exists>m \<in> set maps. \<exists>g. m R = Some g \<and> x = lookup_or_same merged g)" for x
    by (auto simp: mapped_def P_def split: option.splits) (metis option.exhaust)+
  then have "set mapped = {x \<in> P. \<exists>m \<in> set maps. \<exists>g. m R = Some g \<and> x = lookup_or_same merged g}" by blast
  then have "set mapped = {} \<longleftrightarrow> (\<forall>m \<in> set maps. \<forall>g. m R = Some g \<longrightarrow> lookup_or_same merged g \<notin> P)"
    by auto
  then have "mapped = [] \<longleftrightarrow> (\<forall>m \<in> set maps. \<forall>g. m R = Some g \<longrightarrow> lookup_or_same merged g \<notin> P)"
    by simp
  moreover have "named = [] \<longleftrightarrow> (\<forall>p \<in> set people. cf (pn_full_name p) \<noteq> cf R)"
    by (auto simp: named_def filter_empty_conv)
  ultimately show ?thesis
    unfolding res R_def [symmetric] P_def [symmetric] using sub
    by (auto simp: length_Suc_conv)
qed

theorem root_resolution_sound_witness:
  "u ''@I1@'' \<in> pn_pointer ` set sample_people"
proof -
  have "resolve_root_person (\<lambda>s. s) (u '' @I1@ '') sample_people [] Map.empty = Inr (u ''@I1@'')"
    unfolding sample_people_def by code_simp
  then show ?thesis using root_resolution_sound [of "\<lambda>s. s" "u '' @I1@ ''" sample_people "[]" Map.empty] by blast
qed

text \<open>On the first line of a record that declares a pointer, the rewriting also changes pointers that
  stand inside free note text.\<close>

theorem rewrite_touches_note_text:
  "rewrite_xrefs (u ''0 @N1@ NOTE ask @I1@ first'') [u ''@I1@'' \<mapsto> u ''@I7@'']
   = Inr (u ''0 @N1@ NOTE ask @I7@ first'')"
  by code_simp

end
