(* ===== verification/Gedcom_Dates.thy ===== *)
theory Gedcom_Dates
  imports Gedcom_Model
begin

text \<open>
  The date normalisation of \<open>gedcom/identity.py\<close>: one date value, and the birth and death
  dates of a record. The last resort of the code, \<open>dateutil\<close> with the \<open>strptime\<close> patterns
  behind it, is the argument \<open>calendar\<close>, which reads a text as year, month and day.
  A regular-expression digit is a Unicode decimal digit; the table is that of Python 3.12, the
  version the project pins.
\<close>

section \<open>Characters\<close>

definition decimal_zeros :: "nat list" where
  "decimal_zeros = [48, 1632, 1776, 1984, 2406, 2534, 2662, 2790, 2918, 3046, 3174, 3302, 3430, 3558,
     3664, 3792, 3872, 4160, 4240, 6112, 6160, 6470, 6608, 6784, 6800, 6992, 7088, 7232, 7248, 42528,
     43216, 43264, 43472, 43504, 43600, 44016, 65296, 66720, 68912, 69734, 69872, 69942, 70096, 70384,
     70736, 70864, 71248, 71360, 71472, 71904, 72016, 72784, 73040, 73120, 73552, 92768, 92864, 93008,
     120782, 120792, 120802, 120812, 120822, 123200, 123632, 124144, 125264, 130032]"

text \<open>The class \<open>\d\<close> and the value \<open>int()\<close> gives a digit and a numeral.\<close>

definition is_decimal :: "nat \<Rightarrow> bool" where
  "is_decimal c \<longleftrightarrow> list_ex (\<lambda>z. z \<le> c \<and> c \<le> z + 9) decimal_zeros"

definition decimal_digit :: "nat \<Rightarrow> nat" where
  "decimal_digit c = (case find (\<lambda>z. z \<le> c \<and> c \<le> z + 9) decimal_zeros of None \<Rightarrow> 0 | Some z \<Rightarrow> c - z)"

definition decimal_value :: "ustr \<Rightarrow> nat" where
  "decimal_value s = foldl (\<lambda>n c. 10 * n + decimal_digit c) 0 s"

text \<open>\<open>str.upper()\<close> as far as a comparison with ASCII text can see it: ASCII letters, and the
  characters whose upper case holds an ASCII letter. Every other character stays non-ASCII.\<close>

definition upper_char :: "nat \<Rightarrow> ustr" where
  "upper_char c = (if 97 \<le> c \<and> c \<le> 122 then [c - 32] else
     (case map_of [(223, [83, 83]), (305, [73]), (329, [700, 78]), (383, [83]), (496, [74, 780]),
        (7830, [72, 817]), (7831, [84, 776]), (7832, [87, 778]), (7833, [89, 778]), (7834, [65, 702]),
        (64256, [70, 70]), (64257, [70, 73]), (64258, [70, 76]), (64259, [70, 70, 73]),
        (64260, [70, 70, 76]), (64261, [83, 84]), (64262, [83, 84])] c of Some s \<Rightarrow> s | None \<Rightarrow> [c]))"

definition upper_text :: "ustr \<Rightarrow> ustr" where
  "upper_text s = concat (map upper_char s)"

definition startswith :: "ustr \<Rightarrow> ustr \<Rightarrow> bool" where
  "startswith s p \<longleftrightarrow> take (length p) s = p"

section \<open>The calendar\<close>

definition gedcom_months :: "ustr list" where
  "gedcom_months = map u [''JAN'', ''FEB'', ''MAR'', ''APR'', ''MAY'', ''JUN'', ''JUL'', ''AUG'', ''SEP'',
     ''OCT'', ''NOV'', ''DEC'']"

definition date_qualifiers :: "(ustr \<times> ustr) list" where
  "date_qualifiers = map (\<lambda>(a, b). (u a, u b)) [(''about'', ''ABT''), (''abt'', ''ABT''),
     (''approximately'', ''ABT''), (''circa'', ''ABT''), (''ca'', ''ABT''), (''ca.'', ''ABT''), (''c.'', ''ABT''),
     (''before'', ''BEF''), (''bef'', ''BEF''), (''after'', ''AFT''), (''aft'', ''AFT''),
     (''estimated'', ''EST''), (''est'', ''EST''), (''calculated'', ''CAL''), (''cal'', ''CAL'')]"

definition leap_year :: "nat \<Rightarrow> bool" where
  "leap_year y \<longleftrightarrow> y mod 4 = 0 \<and> (y mod 100 \<noteq> 0 \<or> y mod 400 = 0)"

definition days_in_month :: "nat \<Rightarrow> nat \<Rightarrow> nat" where
  "days_in_month y m = (if m = 2 then (if leap_year y then 29 else 28)
     else if m \<in> {4, 6, 9, 11} then 30 else 31)"

text \<open>\<open>datetime.date(y, m, d)\<close> does not raise.\<close>

definition valid_date :: "nat \<Rightarrow> nat \<Rightarrow> nat \<Rightarrow> bool" where
  "valid_date y m d \<longleftrightarrow> 1 \<le> y \<and> y \<le> 9999 \<and> 1 \<le> m \<and> m \<le> 12 \<and> 1 \<le> d \<and> d \<le> days_in_month y m"

text \<open>The number of a month abbreviation, from 1.\<close>

fun index_of :: "'a list \<Rightarrow> 'a \<Rightarrow> nat option" where
  "index_of [] x = None"
| "index_of (y # ys) x = (if y = x then Some 0 else map_option Suc (index_of ys x))"

definition month_number :: "ustr \<Rightarrow> nat option" where
  "month_number s = map_option Suc (index_of gedcom_months (ascii_upper s))"

definition month_name :: "nat \<Rightarrow> ustr" where
  "month_name m = gedcom_months ! (m - 1)"

section \<open>The patterns\<close>

text \<open>Digits at the start of a text, with what follows them.\<close>

definition digits_of :: "ustr \<Rightarrow> ustr \<times> ustr" where
  "digits_of s = (takeWhile is_decimal s, dropWhile is_decimal s)"

definition year_length :: "ustr \<Rightarrow> bool" where
  "year_length y \<longleftrightarrow> length y = 3 \<or> length y = 4"

text \<open>\<open>(\d{3,4})(?:/\d{2})?\<close>\<close>

definition year_match :: "ustr \<Rightarrow> ustr option" where
  "year_match s = (let (y, rest) = digits_of s in
     if year_length y \<and> (rest = [] \<or> hd rest = 47 \<and> length rest = 3 \<and> list_all is_decimal (tl rest))
     then Some y else None)"

text \<open>\<open>(\d{3,4})[-/](\d{1,2})[-/](\d{1,2})\<close>\<close>

definition iso_match :: "ustr \<Rightarrow> (ustr \<times> ustr \<times> ustr) option" where
  "iso_match s =
     (let (y, r1) = digits_of s; (m, r2) = digits_of (drop 1 r1); (d, r3) = digits_of (drop 1 r2) in
      if year_length y \<and> r1 \<noteq> [] \<and> hd r1 \<in> {45, 47} \<and> length m \<in> {1, 2} \<and> r2 \<noteq> [] \<and> hd r2 \<in> {45, 47}
         \<and> length d \<in> {1, 2} \<and> r3 = []
      then Some (y, m, d) else None)"

text \<open>\<open>([A-Za-z]{n})\s+(\d{3,4})\<close> for a given condition on the length of the word.\<close>

definition word_year_match :: "(nat \<Rightarrow> bool) \<Rightarrow> ustr \<Rightarrow> (ustr \<times> ustr) option" where
  "word_year_match len s =
     (let w = takeWhile is_alpha s; r1 = dropWhile is_alpha s; r2 = dropWhile is_space r1;
          (y, r3) = digits_of r2 in
      if len (length w) \<and> r1 \<noteq> [] \<and> is_space (hd r1) \<and> year_length y \<and> r3 = []
      then Some (w, y) else None)"

text \<open>\<open>(\d{1,2})\s+([A-Za-z]{3})\s+(\d{3,4})\<close>\<close>

definition full_match :: "ustr \<Rightarrow> (ustr \<times> ustr \<times> ustr) option" where
  "full_match s =
     (let (d, r1) = digits_of s in
      if length d \<in> {1, 2} \<and> r1 \<noteq> [] \<and> is_space (hd r1)
      then (case word_year_match (\<lambda>n. n = 3) (dropWhile is_space r1) of
              None \<Rightarrow> None | Some (w, y) \<Rightarrow> Some (d, w, y))
      else None)"

section \<open>Normalisation of a date\<close>

text \<open>The loop over the qualifiers: the canonical qualifier and the rest of the text.\<close>

fun find_qualifier :: "(ustr \<times> ustr) list \<Rightarrow> ustr \<Rightarrow> ustr \<times> ustr" where
  "find_qualifier [] original = ([], original)"
| "find_qualifier ((p, g) # qs) original =
     (let up = upper_text original in
      if up = g \<or> startswith up (g @ [32]) then (g, py_strip (drop (length g) original))
      else if up = upper_text p \<or> startswith up (upper_text p @ [32])
      then (g, py_strip (drop (length p) original))
      else find_qualifier qs original)"

definition with_qualifier :: "ustr \<Rightarrow> ustr \<Rightarrow> ustr" where
  "with_qualifier q result = py_strip (q @ [32] @ result)"

definition normalise_by_calendar ::
    "(ustr \<Rightarrow> (nat \<times> nat \<times> nat) option) \<Rightarrow> ustr \<Rightarrow> ustr \<Rightarrow> ustr \<Rightarrow> ustr" where
  "normalise_by_calendar calendar raw_date qualifier original =
     (case calendar original of
        None \<Rightarrow> raw_date
      | Some (y, m, d) \<Rightarrow>
          if word_year_match (\<lambda>n. 0 < n) original \<noteq> None
          then with_qualifier qualifier (month_name m @ [32] @ dec_nat y)
          else with_qualifier qualifier (padded 2 d @ [32] @ month_name m @ [32] @ dec_nat y))"

definition normalise_gedcom_date :: "(ustr \<Rightarrow> (nat \<times> nat \<times> nat) option) \<Rightarrow> ustr \<Rightarrow> ustr" where
  "normalise_gedcom_date calendar raw_date =
     (let stripped = py_strip raw_date; up = upper_text stripped in
      if stripped = [] then raw_date
      else if startswith up (u ''BET '') \<or> startswith up (u ''FROM '') \<or> startswith up (u ''TO '') then stripped
      else
        let (qualifier, original) = find_qualifier date_qualifiers stripped in
        case year_match original of
          Some y \<Rightarrow> with_qualifier qualifier y
        | None \<Rightarrow>
        (case iso_match original of
          Some (y, m, d) \<Rightarrow>
            (let y = decimal_value y; m = decimal_value m; d = decimal_value d in
             if valid_date y m d
             then with_qualifier qualifier (padded 2 d @ [32] @ month_name m @ [32] @ padded 4 y)
             else raw_date)
        | None \<Rightarrow>
        (case full_match original of
          Some (d, w, y) \<Rightarrow>
            (case month_number w of
               Some m \<Rightarrow>
                 if valid_date (decimal_value y) m (decimal_value d)
                 then with_qualifier qualifier (padded 2 (decimal_value d) @ [32] @ ascii_upper w @ [32] @ y)
                 else raw_date
             | None \<Rightarrow> normalise_by_calendar calendar raw_date qualifier original)
        | None \<Rightarrow>
        (case word_year_match (\<lambda>n. n = 3) original of
          Some (w, y) \<Rightarrow>
            if month_number w \<noteq> None then with_qualifier qualifier (ascii_upper w @ [32] @ y)
            else normalise_by_calendar calendar raw_date qualifier original
        | None \<Rightarrow> normalise_by_calendar calendar raw_date qualifier original))))"

section \<open>Canonical dates\<close>

lemma py_strip_ident: "s = [] \<or> \<not> is_space (hd s) \<and> \<not> is_space (last s) \<Longrightarrow> py_strip s = s"
  by (cases s rule: rev_cases) (auto simp: py_strip_def lstrip_if_def rstrip_if_def dropWhile_idem_hd)

lemma py_strip_idem: "py_strip (py_strip s) = py_strip s"
proof (cases "py_strip s = []")
  case False
  let ?t = "dropWhile is_space s" and ?r = "dropWhile is_space (rev (dropWhile is_space s))"
  have s: "py_strip s = rev ?r" by (simp add: py_strip_def lstrip_if_def rstrip_if_def)
  with False have r: "?r \<noteq> []" by auto
  then have last: "\<not> is_space (last (rev ?r))" using dropWhile_hd_not [of is_space "rev ?t"] by (simp add: last_rev)
  have "hd (rev ?r) = last ?r" by (rule hd_rev)
  also have "\<dots> = last (rev ?t)" using last_dropWhile [OF r] .
  also have "\<dots> = hd ?t" by (rule last_rev)
  finally have "hd (rev ?r) = hd ?t" .
  moreover have "?t \<noteq> []" using r by (metis dropWhile.simps(1) rev.simps(1))
  ultimately have "\<not> is_space (hd (rev ?r))" using dropWhile_hd_not [of is_space s] by metis
  with last s show ?thesis by (intro py_strip_ident) simp
next
  case True
  show ?thesis unfolding True by (simp add: py_strip_def lstrip_if_def rstrip_if_def)
qed

lemma py_strip_space: "py_strip (32 # s) = py_strip s"
  by (simp add: py_strip_def lstrip_if_def is_space_def)

text \<open>A fact about decimal digits is checked on each of the sixty-eight ranges.\<close>

lemma decimal_cases:
  assumes "is_decimal c" and "list_all (\<lambda>z. list_all (\<lambda>k. P (z + k)) [0, 1, 2, 3, 4, 5, 6, 7, 8, 9]) decimal_zeros"
  shows "P c"
proof -
  from assms(1) obtain z where z: "z \<in> set decimal_zeros" "z \<le> c" "c \<le> z + 9"
    by (auto simp: is_decimal_def list_ex_iff)
  then obtain k where k: "c = z + k" "k < 10" by (auto simp: le_iff_add)
  then have "k \<in> set [0, 1, 2, 3, 4, 5, 6, 7, 8, 9]" by simp presburger
  with assms(2) z(1) show ?thesis by (simp only: list_all_iff k(1))
qed

lemma decimal_not_space: "is_decimal c \<Longrightarrow> \<not> is_space c"
  by (erule decimal_cases) code_simp

lemma decimal_not_alpha: "is_decimal c \<Longrightarrow> \<not> is_alpha c"
  by (erule decimal_cases) code_simp

lemma decimal_upper: "is_decimal c \<Longrightarrow> upper_char c = [c]"
  by (erule decimal_cases) code_simp

lemma decimal_ascii: "is_digit c \<Longrightarrow> is_decimal c" and decimal_digit_ascii: "is_digit c \<Longrightarrow> decimal_digit c = c - 48"
  by (auto simp: is_digit_def is_decimal_def decimal_digit_def decimal_zeros_def)

lemma not_decimal_32 [simp]: "\<not> is_decimal 32"
  by (simp add: is_decimal_def decimal_zeros_def)

lemma decimal_value_dec_nat [simp]: "decimal_value (replicate k 48 @ dec_nat n) = n"
proof -
  have "\<forall>c \<in> set s. is_digit c \<Longrightarrow> foldl (\<lambda>n c. 10 * n + decimal_digit c) a s = foldl (\<lambda>n c. 10 * n + (c - 48)) a s"
    for a s by (induction s arbitrary: a) (simp_all add: decimal_digit_ascii)
  moreover have "foldl (\<lambda>n c. 10 * n + (c - 48)) 0 (replicate k (48::nat)) = 0" by (induction k) simp_all
  ultimately show ?thesis
    using dec_nat_digits [of n] dec_value_dec_nat [of n]
    by (auto simp: decimal_value_def dec_value_def is_digit_def)
qed

lemma months_ok: "list_all (\<lambda>m. month_number (month_name m) = Some m \<and> ascii_upper (month_name m) = month_name m
    \<and> length (month_name m) = 3 \<and> list_all is_upper (month_name m)) [1, 2, 3, 4, 5, 6, 7, 8, 9, 10, 11, 12]"
  by code_simp

lemma month_name_facts:
  assumes "1 \<le> m" and "m \<le> 12"
  shows "month_number (month_name m) = Some m" and "ascii_upper (month_name m) = month_name m"
    and "length (month_name m) = 3" and "list_all is_upper (month_name m)" and "month_name m \<in> set gedcom_months"
proof -
  have "m \<in> set [1, 2, 3, 4, 5, 6, 7, 8, 9, 10, 11, 12]" using assms by simp presburger
  with months_ok show "month_number (month_name m) = Some m" and "ascii_upper (month_name m) = month_name m"
    and "length (month_name m) = 3" and "list_all is_upper (month_name m)"
    unfolding list_all_iff [of "\<lambda>m. month_number (month_name m) = Some m \<and> _ m"] by blast+
  have "length gedcom_months = 12" by (simp add: gedcom_months_def)
  then show "month_name m \<in> set gedcom_months"
    unfolding month_name_def by (intro nth_mem) (use assms in simp)
qed

lemma index_of_Some: "index_of ys x = Some i \<Longrightarrow> i < length ys \<and> ys ! i = x"
  by (induction ys arbitrary: i) (auto split: if_splits)

lemma month_number_Some:
  "month_number w = Some m \<Longrightarrow> 1 \<le> m \<and> m \<le> 12 \<and> ascii_upper w = month_name m"
proof -
  assume "month_number w = Some m"
  then obtain i where i: "index_of gedcom_months (ascii_upper w) = Some i" "m = Suc i"
    by (auto simp: month_number_def)
  have "length gedcom_months = 12" by (simp add: gedcom_months_def)
  with index_of_Some [OF i(1)] i(2) show ?thesis by (simp add: month_name_def)
qed

definition numeral_year :: "ustr \<Rightarrow> bool" where
  "numeral_year y \<longleftrightarrow> year_length y \<and> list_all is_decimal y"

definition day_text :: "nat \<Rightarrow> nat \<Rightarrow> ustr \<Rightarrow> ustr" where
  "day_text d m y = padded 2 d @ [32] @ month_name m @ [32] @ y"

definition month_text :: "nat \<Rightarrow> ustr \<Rightarrow> ustr" where
  "month_text m y = month_name m @ [32] @ y"

text \<open>The three shapes a normalised date has after its qualifier.\<close>

definition canonical_date :: "ustr \<Rightarrow> bool" where
  "canonical_date b \<longleftrightarrow> numeral_year b
     \<or> (\<exists>m y. 1 \<le> m \<and> m \<le> 12 \<and> numeral_year y \<and> b = month_text m y)
     \<or> (\<exists>d m y. valid_date (decimal_value y) m d \<and> numeral_year y \<and> b = day_text d m y)"

definition canonical_qualifiers :: "ustr list" where
  "canonical_qualifiers = map u ['''', ''ABT'', ''BEF'', ''AFT'', ''EST'', ''CAL'']"

lemma digits_of_append: "list_all is_decimal y \<Longrightarrow> r = [] \<or> \<not> is_decimal (hd r) \<Longrightarrow> digits_of (y @ r) = (y, r)"
  unfolding digits_of_def list_all_iff by (simp only: takeWhile_append_stop dropWhile_append_stop)

lemma digits_of_all: "list_all is_decimal y \<Longrightarrow> digits_of y = (y, [])"
  using digits_of_append [of y "[]"] by simp

lemma numeral_year_ends: "numeral_year y \<Longrightarrow> y \<noteq> [] \<and> is_decimal (hd y) \<and> is_decimal (last y)"
proof -
  assume y: "numeral_year y"
  then have "y \<noteq> []" by (auto simp: numeral_year_def year_length_def)
  with hd_in_set [of y] last_in_set [of y] y show ?thesis
    unfolding numeral_year_def list_all_iff by blast
qed

lemma length_dec_nat: "length (dec_nat n) = (if n < 10 then 1 else Suc (length (dec_nat (n div 10))))"
  by (subst dec_nat.simps) simp

lemma padded_day: "1 \<le> d \<Longrightarrow> d \<le> 31 \<Longrightarrow> length (padded 2 d) = 2 \<and> list_all is_decimal (padded 2 d)
    \<and> decimal_value (padded 2 d) = d"
  using dec_nat_digits [of d] decimal_ascii decimal_ascii [of 48]
  by (auto simp: padded_def list_all_iff is_digit_def length_dec_nat [of d] length_dec_nat [of "d div 10"])

lemma padded_year: "1 \<le> y \<Longrightarrow> y \<le> 9999 \<Longrightarrow> numeral_year (padded 4 y) \<and> decimal_value (padded 4 y) = y"
  using dec_nat_digits [of y] decimal_ascii decimal_ascii [of 48]
  by (auto simp: padded_def list_all_iff is_digit_def numeral_year_def year_length_def length_dec_nat [of y]
      length_dec_nat [of "y div 10"] length_dec_nat [of "y div 10 div 10"]
      length_dec_nat [of "y div 10 div 10 div 10"])

lemma dec_year: "100 \<le> y \<Longrightarrow> y \<le> 9999 \<Longrightarrow> numeral_year (dec_nat y) \<and> decimal_value (dec_nat y) = y"
  using dec_nat_digits [of y] decimal_ascii decimal_value_dec_nat [of 0 y]
  by (auto simp: list_all_iff numeral_year_def year_length_def length_dec_nat [of y]
      length_dec_nat [of "y div 10"] length_dec_nat [of "y div 10 div 10"]
      length_dec_nat [of "y div 10 div 10 div 10"])

section \<open>Normalisation fixes canonical dates\<close>

lemma upper_text_append: "upper_text (s @ t) = upper_text s @ upper_text t"
  by (simp add: upper_text_def)

lemma canonical_ends:
  assumes "canonical_date b"
  shows "b \<noteq> []" and "is_decimal (last b)" and "is_decimal (hd b) \<or> (\<exists>m r. 1 \<le> m \<and> m \<le> 12 \<and> b = month_name m @ 32 # r)"
proof -
  have ne: "month_name m \<noteq> []" if "1 \<le> m" "m \<le> 12" for m
    using month_name_facts(3) [OF that] by auto
  have pad: "padded 2 d \<noteq> [] \<and> is_decimal (hd (padded 2 d))" if "valid_date y m d" for y m d
  proof -
    have "1 \<le> d" "d \<le> 31" using that by (auto simp: valid_date_def days_in_month_def split: if_splits)
    then have "list_all is_decimal (padded 2 d)" "padded 2 d \<noteq> []" using padded_day [of d] by auto
    then show ?thesis by (cases "padded 2 d") auto
  qed
  show "b \<noteq> []" using assms numeral_year_ends ne pad
    by (auto simp: canonical_date_def month_text_def day_text_def)
  show "is_decimal (last b)" using assms numeral_year_ends
    by (auto simp: canonical_date_def month_text_def day_text_def)
  show "is_decimal (hd b) \<or> (\<exists>m r. 1 \<le> m \<and> m \<le> 12 \<and> b = month_name m @ 32 # r)"
    using assms numeral_year_ends pad unfolding canonical_date_def month_text_def day_text_def by fastforce
qed

lemma is_upper_not_space: "is_upper c \<Longrightarrow> \<not> is_space c"
  by (simp add: is_upper_def is_space_def)

lemma canonical_strip:
  assumes "canonical_date b"
  shows "py_strip b = b"
proof (rule py_strip_ident)
  have "\<not> is_space (hd b)"
    using canonical_ends(3) [OF assms] decimal_not_space
  proof (elim disjE exE conjE)
    fix m r assume m: "1 \<le> m" "m \<le> 12" "b = month_name m @ 32 # r"
    then show ?thesis using month_name_facts(3,4) [OF m(1,2)] is_upper_not_space
      by (cases "month_name m") auto
  qed
  then show "b = [] \<or> \<not> is_space (hd b) \<and> \<not> is_space (last b)"
    using canonical_ends(2) [OF assms] decimal_not_space by blast
qed

text \<open>The first three characters decide whether a qualifier applies.\<close>

definition qualifier_starts :: "ustr list" where
  "qualifier_starts = map u [''BET'', ''FRO'', ''TO ''] @ concat (map (\<lambda>(p, g).
     [take 3 g, take 3 (upper_text p), take 3 (upper_text p @ [32])]) date_qualifiers)"

lemma startswith_take: "startswith s p \<Longrightarrow> n \<le> length p \<Longrightarrow> take n s = take n p"
  by (metis min.absorb1 startswith_def take_take)

lemma find_qualifier_none:
  assumes "\<And>p g. (p, g) \<in> set qs \<Longrightarrow> length g = 3 \<and> 2 \<le> length (upper_text p) \<and>
      take 3 (upper_text b) \<notin> {take 3 g, take 3 (upper_text p), take 3 (upper_text p @ [32])}"
  shows "find_qualifier qs b = ([], b)"
  using assms
proof (induction qs)
  case (Cons pg qs)
  let ?up = "upper_text b"
  obtain p g where pg: "pg = (p, g)" by (cases pg)
  have IH: "find_qualifier qs b = ([], b)" using Cons.prems by (intro Cons.IH) auto
  from Cons.prems [of p g] pg have *: "length g = 3" "2 \<le> length (upper_text p)"
    "take 3 ?up \<noteq> take 3 g" "take 3 ?up \<noteq> take 3 (upper_text p)" "take 3 ?up \<noteq> take 3 (upper_text p @ [32])"
    by auto
  have n: "\<not> startswith ?up (g @ [32])" using startswith_take [of ?up "g @ [32]" 3] * by auto
  have n2: "\<not> startswith ?up (upper_text p @ [32])"
    using startswith_take [of ?up "upper_text p @ [32]" 3] * by auto
  have "?up \<noteq> g" "?up \<noteq> upper_text p" using * by auto
  with n n2 IH pg show ?case by (simp add: Let_def)
qed simp

lemma date_qualifiers_shape: "list_all (\<lambda>(p, g). length g = 3 \<and> 2 \<le> length (upper_text p)) date_qualifiers"
  by code_simp

lemma qualifier_starts_apart:
  "list_all (\<lambda>m. month_name m \<notin> set qualifier_starts) [1, 2, 3, 4, 5, 6, 7, 8, 9, 10, 11, 12]"
  "list_all (\<lambda>s. s \<noteq> [] \<and> is_alpha (hd s)) qualifier_starts"
  by code_simp+

lemma upper_text_upper: "list_all is_upper s \<Longrightarrow> upper_text s = s"
proof (induction s)
  case (Cons c s)
  then have "upper_char c = [c]" by (auto simp: is_upper_def upper_char_def)
  with Cons show ?case by (simp add: upper_text_def)
qed (simp add: upper_text_def)

lemma canonical_start_apart:
  assumes "canonical_date b"
  shows "take 3 (upper_text b) \<notin> set qualifier_starts"
  using canonical_ends(3) [OF assms]
proof (elim disjE exE conjE)
  assume d: "is_decimal (hd b)"
  with canonical_ends(1) [OF assms] obtain c s where b: "b = c # s" by (cases b) auto
  with d have "upper_text b = c # upper_text s" by (simp add: upper_text_def decimal_upper)
  moreover have "\<not> is_alpha c" using d b decimal_not_alpha by simp
  ultimately show ?thesis using qualifier_starts_apart(2)
    unfolding list_all_iff by (metis list.sel(1) take_Cons_numeral)
next
  fix m r assume m: "1 \<le> m" "m \<le> 12" "b = month_name m @ 32 # r"
  then have "take 3 (upper_text b) = month_name m"
    using month_name_facts(3,4) [OF m(1,2)] by (simp add: upper_text_append upper_text_upper)
  moreover have "m \<in> set [1, 2, 3, 4, 5, 6, 7, 8, 9, 10, 11, 12]" using m by simp presburger
  ultimately show ?thesis using qualifier_starts_apart(1) unfolding list_all_iff by metis
qed

lemma not_range_qualifier:
  assumes "take 3 (upper_text s) \<notin> {u ''BET'', u ''FRO'', u ''TO ''}"
  shows "\<not> startswith (upper_text s) (u ''BET '')" "\<not> startswith (upper_text s) (u ''FROM '')"
    "\<not> startswith (upper_text s) (u ''TO '')"
  using assms startswith_take [of "upper_text s" "u ''BET ''" 3] startswith_take [of "upper_text s" "u ''FROM ''" 3]
    startswith_take [of "upper_text s" "u ''TO ''" 3]
  by (auto simp: u_def)

definition other_qualifier :: "ustr \<Rightarrow> ustr \<times> ustr \<Rightarrow> bool" where
  "other_qualifier q = (\<lambda>(p, g). length g = 3 \<and> 2 \<le> length (upper_text p) \<and> q \<noteq> g
     \<and> q \<noteq> take 3 (upper_text p) \<and> q \<noteq> take 3 (upper_text p @ [32]))"

lemma find_qualifier_skip:
  assumes q: "upper_text q = q" "length q = 3"
  shows "find_qualifier qs (q @ 32 # b) = find_qualifier (dropWhile (other_qualifier q) qs) (q @ 32 # b)"
proof (induction qs)
  case (Cons pg qs)
  obtain p g where pg: "pg = (p, g)" by (cases pg)
  have up: "upper_text (q @ 32 # b) = q @ 32 # upper_text b"
    using q(1) by (simp add: upper_text_append) (simp add: upper_text_def upper_char_def)
  show ?case
  proof (cases "other_qualifier q pg")
    case True
    then have t: "length g = 3" "2 \<le> length (upper_text p)" "q \<noteq> g" "q \<noteq> take 3 (upper_text p)"
      "q \<noteq> take 3 (upper_text p @ [32])" by (auto simp: other_qualifier_def pg)
    define s where "s = q @ 32 # upper_text b"
    have s: "take 3 s = q" using q(2) by (simp add: s_def)
    have "\<not> startswith s (g @ [32])" "s \<noteq> g" "\<not> startswith s (upper_text p @ [32])" "s \<noteq> upper_text p"
      using t s startswith_take [of s "g @ [32]" 3] startswith_take [of s "upper_text p @ [32]" 3] by auto
    then have "find_qualifier (pg # qs) (q @ 32 # b) = find_qualifier qs (q @ 32 # b)"
      by (simp add: Let_def up pg s_def)
    with Cons True show ?thesis by simp
  qed simp
qed simp

lemma canonical_qualifiers_found:
  "list_all (\<lambda>q. upper_text q = q \<and> length q = 3 \<and> list_all is_upper q \<and> q \<notin> {u ''BET'', u ''FRO'', u ''TO ''}
     \<and> (case dropWhile (other_qualifier q) date_qualifiers of [] \<Rightarrow> False | (p, g) # qs \<Rightarrow> g = q))
   (tl canonical_qualifiers)"
  by code_simp

lemma find_qualifier_given:
  assumes "q \<in> set (tl canonical_qualifiers)"
  shows "find_qualifier date_qualifiers (q @ 32 # b) = (q, py_strip (32 # b))"
proof -
  from assms canonical_qualifiers_found have q: "upper_text q = q" "length q = 3"
    and "case dropWhile (other_qualifier q) date_qualifiers of [] \<Rightarrow> False | (p, g) # qs \<Rightarrow> g = q"
    by (auto simp: list_all_iff)
  then obtain p qs where d: "dropWhile (other_qualifier q) date_qualifiers = (p, q) # qs"
    by (auto split: list.splits)
  have "upper_text (q @ 32 # b) = q @ 32 # upper_text b"
    using q(1) by (simp add: upper_text_append) (simp add: upper_text_def upper_char_def)
  then have "find_qualifier ((p, q) # qs) (q @ 32 # b) = (q, py_strip (32 # b))"
    by (simp add: Let_def startswith_def)
  then show ?thesis using find_qualifier_skip [OF q, of date_qualifiers b] d by simp
qed

text \<open>A canonical date with a canonical qualifier is read back as such.\<close>

lemma canonical_qualifier_read:
  assumes b: "canonical_date b" and q: "q \<in> set canonical_qualifiers"
  shows "py_strip (with_qualifier q b) = with_qualifier q b" and "with_qualifier q b \<noteq> []"
    and "take 3 (upper_text (with_qualifier q b)) \<notin> {u ''BET'', u ''FRO'', u ''TO ''}"
    and "find_qualifier date_qualifiers (with_qualifier q b) = (q, b)"
proof -
  consider "q = []" | "q \<in> set (tl canonical_qualifiers)"
    using q by (auto simp: canonical_qualifiers_def)
  then have "py_strip (with_qualifier q b) = with_qualifier q b \<and> with_qualifier q b \<noteq> []
      \<and> take 3 (upper_text (with_qualifier q b)) \<notin> {u ''BET'', u ''FRO'', u ''TO ''}
      \<and> find_qualifier date_qualifiers (with_qualifier q b) = (q, b)"
  proof cases
    case 1
    then have w: "with_qualifier q b = b" by (simp add: with_qualifier_def py_strip_space canonical_strip [OF b])
    have "length g = 3 \<and> 2 \<le> length (upper_text p) \<and>
        take 3 (upper_text b) \<notin> {take 3 g, take 3 (upper_text p), take 3 (upper_text p @ [32])}"
      if "(p, g) \<in> set date_qualifiers" for p g
      using that canonical_start_apart [OF b] date_qualifiers_shape
      by (fastforce simp: qualifier_starts_def list_all_iff)
    then have "find_qualifier date_qualifiers b = ([], b)" by (rule find_qualifier_none)
    moreover have "take 3 (upper_text b) \<notin> {u ''BET'', u ''FRO'', u ''TO ''}"
      using canonical_start_apart [OF b] by (simp add: qualifier_starts_def)
    ultimately show ?thesis using canonical_ends(1) [OF b] canonical_strip [OF b] w 1 by simp
  next
    case 2
    with canonical_qualifiers_found have u: "upper_text q = q" "length q = 3" "list_all is_upper q"
      "q \<notin> {u ''BET'', u ''FRO'', u ''TO ''}" by (auto simp: list_all_iff)
    then have "\<not> is_space (hd q)" "q \<noteq> []" using is_upper_not_space by (cases q; auto)+
    then have w: "with_qualifier q b = q @ 32 # b"
      using canonical_ends(1,2) [OF b] decimal_not_space
      by (simp add: with_qualifier_def) (intro py_strip_ident; simp)
    have "py_strip (q @ 32 # b) = q @ 32 # b"
      using canonical_ends(1,2) [OF b] decimal_not_space \<open>\<not> is_space (hd q)\<close> \<open>q \<noteq> []\<close>
      by (intro py_strip_ident) simp
    moreover have "take 3 (upper_text (q @ 32 # b)) = q"
      using u by (simp add: upper_text_append)
    ultimately show ?thesis
      using u find_qualifier_given [OF 2, of b] w by (simp add: py_strip_space canonical_strip [OF b])
  qed
  then show "py_strip (with_qualifier q b) = with_qualifier q b" and "with_qualifier q b \<noteq> []"
    and "take 3 (upper_text (with_qualifier q b)) \<notin> {u ''BET'', u ''FRO'', u ''TO ''}"
    and "find_qualifier date_qualifiers (with_qualifier q b) = (q, b)" by blast+
qed

lemma upper_not_decimal: "is_upper c \<Longrightarrow> \<not> is_decimal c"
  using decimal_not_alpha by (auto simp: is_alpha_def)

lemma numeral_digits: "numeral_year y \<Longrightarrow> digits_of y = (y, [])"
  by (simp add: numeral_year_def digits_of_all)

lemma word_year_month:
  assumes "1 \<le> m" "m \<le> 12" "numeral_year y"
  shows "word_year_match (\<lambda>n. n = 3) (month_text m y) = Some (month_name m, y)"
proof -
  have w: "takeWhile is_alpha (month_name m @ 32 # y) = month_name m" "dropWhile is_alpha (month_name m @ 32 # y) = 32 # y"
    using month_name_facts(4) [OF assms(1,2)]
    by (auto simp: list_all_iff is_alpha_def is_upper_def is_lower_def takeWhile_append dropWhile_append)
  have "dropWhile is_space y = y"
    using numeral_year_ends [OF assms(3)] decimal_not_space by (intro dropWhile_idem_hd) simp
  then show ?thesis
    using w month_name_facts(3) [OF assms(1,2)] numeral_digits [OF assms(3)] assms(3)
    by (simp add: word_year_match_def month_text_def numeral_year_def)
qed

lemma month_text_matches:
  assumes "1 \<le> m" "m \<le> 12" "numeral_year y"
  shows "year_match (month_text m y) = None" "iso_match (month_text m y) = None" "full_match (month_text m y) = None"
proof -
  have "digits_of (month_text m y) = ([], month_text m y)"
    using month_name_facts(3,4) [OF assms(1,2)] upper_not_decimal
    by (cases "month_name m") (auto simp: digits_of_def month_text_def)
  then show "year_match (month_text m y) = None" "iso_match (month_text m y) = None" "full_match (month_text m y) = None"
    by (simp_all add: year_match_def iso_match_def full_match_def year_length_def case_prod_beta Let_def)
qed

lemma day_text_matches:
  assumes v: "valid_date (decimal_value y) m d" and y: "numeral_year y"
  shows "year_match (day_text d m y) = None" "iso_match (day_text d m y) = None"
    and "full_match (day_text d m y) = Some (padded 2 d, month_name m, y)"
    and "decimal_value (padded 2 d) = d" and "1 \<le> m" and "m \<le> 12"
proof -
  from v show m: "1 \<le> m" "m \<le> 12" by (simp_all add: valid_date_def)
  have "1 \<le> d" "d \<le> 31" using v by (auto simp: valid_date_def days_in_month_def split: if_splits)
  then have p: "length (padded 2 d) = 2" "list_all is_decimal (padded 2 d)" and "decimal_value (padded 2 d) = d"
    using padded_day [of d] by auto
  then show "decimal_value (padded 2 d) = d" by simp
  have d: "digits_of (day_text d m y) = (padded 2 d, 32 # month_text m y)"
    using p by (simp add: day_text_def month_text_def digits_of_append)
  have "is_space 32" by (simp add: is_space_def)
  moreover have "dropWhile is_space (month_text m y) = month_text m y"
    using month_name_facts(3,4) [OF m] is_upper_not_space
    by (cases "month_name m") (auto simp: month_text_def)
  ultimately show "full_match (day_text d m y) = Some (padded 2 d, month_name m, y)"
    using p d word_year_month [OF m y] by (simp add: full_match_def)
  show "year_match (day_text d m y) = None" "iso_match (day_text d m y) = None"
    using p d by (simp_all add: year_match_def iso_match_def year_length_def case_prod_beta Let_def)
qed

lemma normalise_canonical:
  assumes b: "canonical_date b" and q: "q \<in> set canonical_qualifiers"
  shows "normalise_gedcom_date calendar (with_qualifier q b) = with_qualifier q b"
proof -
  note r = canonical_qualifier_read [OF b q]
  note apart = not_range_qualifier [OF r(3)]
  from b show ?thesis unfolding canonical_date_def
  proof (elim disjE exE conjE)
    assume "numeral_year b"
    then have "year_match b = Some b" by (simp add: year_match_def numeral_digits) (simp add: numeral_year_def)
    then show ?thesis using r apart by (simp add: normalise_gedcom_date_def Let_def)
  next
    fix m y assume m: "1 \<le> m" "m \<le> 12" "numeral_year y" "b = month_text m y"
    then show ?thesis
      using r apart month_text_matches [OF m(1-3)] word_year_month [OF m(1-3)] month_name_facts(1,2) [OF m(1,2)]
      by (simp add: normalise_gedcom_date_def Let_def) (simp add: month_text_def)
  next
    fix d m y assume d: "valid_date (decimal_value y) m d" "numeral_year y" "b = day_text d m y"
    note t = day_text_matches [OF d(1,2)]
    from d(1,3) show ?thesis
      using r apart t(1-4) month_name_facts(1,2) [OF t(5,6)]
      by (simp add: normalise_gedcom_date_def Let_def) (simp add: day_text_def)
  qed
qed

text \<open>What is relied on of the calendar parser: it returns calendar dates, in years of at least three
  digits.\<close>

definition calendar_ok :: "(ustr \<Rightarrow> (nat \<times> nat \<times> nat) option) \<Rightarrow> bool" where
  "calendar_ok calendar \<longleftrightarrow> (\<forall>s y m d. calendar s = Some (y, m, d) \<longrightarrow> valid_date y m d \<and> 100 \<le> y)"

definition canonical_output :: "ustr \<Rightarrow> bool" where
  "canonical_output s \<longleftrightarrow> (\<exists>q b. q \<in> set canonical_qualifiers \<and> canonical_date b \<and> s = with_qualifier q b)"

lemma canonical_outputI: "q \<in> set canonical_qualifiers \<Longrightarrow> canonical_date b \<Longrightarrow> canonical_output (with_qualifier q b)"
  unfolding canonical_output_def by blast

lemma find_qualifier_canonical: "fst (find_qualifier date_qualifiers s) \<in> set canonical_qualifiers"
proof -
  have "fst (find_qualifier qs s) \<in> insert [] (snd ` set qs)" for qs
    by (induction qs s rule: find_qualifier.induct) (auto simp: Let_def)
  moreover have "insert [] (snd ` set date_qualifiers) \<subseteq> set canonical_qualifiers"
    by (auto simp: date_qualifiers_def canonical_qualifiers_def)
  ultimately show ?thesis by blast
qed

lemma year_match_numeral: "year_match s = Some y \<Longrightarrow> numeral_year y"
  by (auto simp: year_match_def digits_of_def numeral_year_def list_all_iff Let_def
      dest: set_takeWhileD split: if_splits)

lemma word_year_numeral: "word_year_match len s = Some (w, y) \<Longrightarrow> numeral_year y"
  by (auto simp: word_year_match_def digits_of_def numeral_year_def list_all_iff Let_def
      dest: set_takeWhileD split: if_splits)

lemma full_match_numeral: "full_match s = Some (d, w, y) \<Longrightarrow> numeral_year y"
  by (auto simp: full_match_def Let_def digits_of_def split: if_splits option.splits dest: word_year_numeral)

lemma canonical_dateI:
  "numeral_year y \<Longrightarrow> canonical_date y"
  "1 \<le> m \<Longrightarrow> m \<le> 12 \<Longrightarrow> numeral_year y \<Longrightarrow> canonical_date (month_name m @ [32] @ y)"
  "valid_date (decimal_value y) m d \<Longrightarrow> numeral_year y \<Longrightarrow> canonical_date (padded 2 d @ [32] @ month_name m @ [32] @ y)"
  unfolding canonical_date_def month_text_def day_text_def by blast+

lemma by_calendar_shape:
  assumes c: "calendar_ok calendar" and q: "q \<in> set canonical_qualifiers"
  shows "normalise_by_calendar calendar raw q s = raw \<or> canonical_output (normalise_by_calendar calendar raw q s)"
proof (cases "calendar s")
  case (Some p)
  obtain y m d where p: "p = (y, m, d)" by (cases p)
  with c Some have v: "valid_date y m d" "100 \<le> y" by (auto simp: calendar_ok_def)
  then have y: "numeral_year (dec_nat y)" "decimal_value (dec_nat y) = y" and m: "1 \<le> m" "m \<le> 12"
    using dec_year [of y] by (auto simp: valid_date_def)
  have "canonical_date (month_name m @ [32] @ dec_nat y)"
    by (rule canonical_dateI(2) [OF m y(1)])
  moreover have "canonical_date (padded 2 d @ [32] @ month_name m @ [32] @ dec_nat y)"
    by (rule canonical_dateI(3)) (simp_all add: y v)
  ultimately show ?thesis using canonical_outputI [OF q] by (simp add: normalise_by_calendar_def Some p)
qed (simp add: normalise_by_calendar_def)

lemma normalise_shape:
  assumes c: "calendar_ok calendar"
  shows "normalise_gedcom_date calendar s = s \<or> canonical_output (normalise_gedcom_date calendar s)
    \<or> normalise_gedcom_date calendar s = py_strip s
      \<and> (\<exists>p \<in> {u ''BET '', u ''FROM '', u ''TO ''}. startswith (upper_text (py_strip s)) p)"
proof -
  let ?up = "upper_text (py_strip s)"
  consider "py_strip s = []" | "\<exists>p \<in> {u ''BET '', u ''FROM '', u ''TO ''}. startswith ?up p" "py_strip s \<noteq> []"
    | "py_strip s \<noteq> []" "\<not> startswith ?up (u ''BET '')" "\<not> startswith ?up (u ''FROM '')" "\<not> startswith ?up (u ''TO '')"
    by blast
  then show ?thesis
  proof cases
    case 3
    obtain q t where f: "find_qualifier date_qualifiers (py_strip s) = (q, t)"
      by (cases "find_qualifier date_qualifiers (py_strip s)")
    then have q: "q \<in> set canonical_qualifiers" using find_qualifier_canonical [of "py_strip s"] by simp
    note cal = by_calendar_shape [OF c q, of s t]
    show ?thesis
    proof (cases "year_match t")
      case (Some y)
      then have "canonical_output (with_qualifier q y)"
        by (intro canonical_outputI q canonical_dateI year_match_numeral)
      with 3 f Some show ?thesis by (simp add: normalise_gedcom_date_def Let_def)
    next
      case ym: None
      show ?thesis
      proof (cases "iso_match t")
        case (Some p)
        obtain y m d where p: "p = (y, m, d)" by (cases p)
        let ?y = "decimal_value y" and ?m = "decimal_value m" and ?d = "decimal_value d"
        have "canonical_output (with_qualifier q (padded 2 ?d @ [32] @ month_name ?m @ [32] @ padded 4 ?y))"
          if v: "valid_date ?y ?m ?d"
        proof (intro canonical_outputI q canonical_dateI(3))
          from v have "1 \<le> ?y" "?y \<le> 9999" by (simp_all add: valid_date_def)
          with padded_year [of ?y] v show "valid_date (decimal_value (padded 4 ?y)) ?m ?d" "numeral_year (padded 4 ?y)"
            by simp_all
        qed
        with 3 f ym Some p show ?thesis by (simp add: normalise_gedcom_date_def Let_def)
      next
        case im: None
        show ?thesis
        proof (cases "full_match t")
          case (Some p)
          obtain d w y where p: "p = (d, w, y)" by (cases p)
          note y = full_match_numeral [OF Some [unfolded p]]
          have "canonical_output (with_qualifier q (padded 2 (decimal_value d) @ [32] @ ascii_upper w @ [32] @ y))"
            if "month_number w = Some m" "valid_date (decimal_value y) m (decimal_value d)" for m
            using month_number_Some [OF that(1)] that(2) y by (auto intro!: canonical_outputI q canonical_dateI(3) simp del: append_Cons append_Nil)
          with 3 f ym im Some p cal show ?thesis
            by (auto simp: normalise_gedcom_date_def Let_def split: option.split)
        next
          case fm: None
          show ?thesis
          proof (cases "word_year_match (\<lambda>n. n = 3) t")
            case (Some p)
            obtain w y where p: "p = (w, y)" by (cases p)
            note y = word_year_numeral [OF Some [unfolded p]]
            have "canonical_output (with_qualifier q (ascii_upper w @ [32] @ y))" if "month_number w = Some m" for m
              using month_number_Some [OF that] y by (auto intro!: canonical_outputI q canonical_dateI(2) simp del: append_Cons append_Nil)
            with 3 f ym im fm Some p cal show ?thesis
              by (auto simp: normalise_gedcom_date_def Let_def)
          next
            case None
            with 3 f ym im fm cal show ?thesis by (auto simp: normalise_gedcom_date_def Let_def)
          qed
        qed
      qed
    qed
  qed (auto simp: normalise_gedcom_date_def Let_def)
qed



section \<open>The dates of a record\<close>

record date_state =
  ds_output :: "ustr list"
  ds_event_tag :: ustr
  ds_event_level :: int
  ds_extensions :: bool

definition enter_event :: "gedcom_line \<Rightarrow> date_state \<Rightarrow> date_state" where
  "enter_event p st =
     (if gl_level p \<le> 1 then
        st\<lparr>ds_event_tag := (if gl_level p = 1 then gl_tag p else []),
           ds_event_level := (if gl_level p = 1 then int (gl_level p) else -1)\<rparr>
      else st)"

definition date_step :: "(ustr \<Rightarrow> (nat \<times> nat \<times> nat) option) \<Rightarrow> date_state \<Rightarrow> ustr \<Rightarrow> gedcom_error + date_state" where
  "date_step calendar st0 line = bindE (parse_gedcom_line 0 line) (\<lambda>p.
     let st = enter_event p (st0\<lparr>ds_extensions := ds_extensions st0 \<or> startswith (gl_tag p) (u ''_'')\<rparr>);
         normalised = normalise_gedcom_date calendar (gl_value p) in
     if int (gl_level p) = ds_event_level st + 1 \<and> gl_tag p = u ''DATE''
        \<and> ds_event_tag st \<in> {u ''BIRT'', u ''DEAT''}
        \<and> normalised \<noteq> gl_value p \<and> py_strip normalised \<noteq> []
     then Inr (st\<lparr>ds_output := ds_output st
            @ [dec_nat (gl_level p) @ u '' DATE '' @ normalised,
               dec_nat (gl_level p) @ u '' _ORIGDATE '' @ gl_value p]\<rparr>)
     else Inr (st\<lparr>ds_output := ds_output st @ [line]\<rparr>))"

definition normalise_record_dates_with_metadata ::
    "(ustr \<Rightarrow> (nat \<times> nat \<times> nat) option) \<Rightarrow> ustr list \<Rightarrow> gedcom_error + ustr list \<times> bool" where
  "normalise_record_dates_with_metadata calendar lines =
     bindE (foldE (date_step calendar)
        \<lparr>ds_output = [], ds_event_tag = [], ds_event_level = -1, ds_extensions = False\<rparr> lines)
       (\<lambda>st. Inr (ds_output st, ds_extensions st))"

text \<open>What one line becomes: itself, or a normalised date with the source value in a line of its own.\<close>

definition dated_as :: "(ustr \<Rightarrow> (nat \<times> nat \<times> nat) option) \<Rightarrow> ustr \<Rightarrow> ustr list \<Rightarrow> bool" where
  "dated_as calendar line out \<longleftrightarrow> out = [line] \<or>
     (\<exists>p. parse_gedcom_line 0 line = Inr p \<and> gl_tag p = u ''DATE'' \<and> gl_level p = 2
        \<and> out = [dec_nat 2 @ u '' DATE '' @ normalise_gedcom_date calendar (gl_value p),
                 dec_nat 2 @ u '' _ORIGDATE '' @ gl_value p])"

lemma date_step_Inr:
  assumes "date_step calendar st line = Inr st'" and ev: "ds_event_level st \<in> {-1, 1}" "ds_event_level st = -1 \<longrightarrow> ds_event_tag st = []"
  shows "\<exists>out p. parse_gedcom_line 0 line = Inr p \<and> ds_output st' = ds_output st @ out \<and> dated_as calendar line out
     \<and> ds_event_level st' \<in> {-1, 1} \<and> (ds_event_level st' = -1 \<longrightarrow> ds_event_tag st' = [])
     \<and> ds_extensions st' = (ds_extensions st \<or> startswith (gl_tag p) (u ''_''))"
proof -
  obtain p where p: "parse_gedcom_line 0 line = Inr p" using assms(1) by (auto simp: date_step_def bindE_Inr_iff)
  let ?st = "enter_event p (st\<lparr>ds_extensions := ds_extensions st \<or> startswith (gl_tag p) (u ''_'')\<rparr>)"
  have e: "ds_event_level ?st \<in> {-1, 1}" "ds_event_level ?st = -1 \<longrightarrow> ds_event_tag ?st = []"
    "ds_output ?st = ds_output st" "ds_extensions ?st = (ds_extensions st \<or> startswith (gl_tag p) (u ''_''))"
    using ev by (auto simp: enter_event_def)
  consider "st' = ?st\<lparr>ds_output := ds_output ?st @ [line]\<rparr>"
    | "int (gl_level p) = ds_event_level ?st + 1" "gl_tag p = u ''DATE''" "ds_event_tag ?st \<noteq> []"
      "st' = ?st\<lparr>ds_output := ds_output ?st
            @ [dec_nat (gl_level p) @ u '' DATE '' @ normalise_gedcom_date calendar (gl_value p),
               dec_nat (gl_level p) @ u '' _ORIGDATE '' @ gl_value p]\<rparr>"
    using assms(1) by (auto simp: date_step_def p Let_def split: if_splits)
  then show ?thesis
  proof cases
    case 1
    with e p show ?thesis by (intro exI [of _ "[line]"] exI [of _ p]) (simp add: dated_as_def)
  next
    case 2
    with e have "ds_event_level ?st = 1" by auto
    then have l: "gl_level p = 2" using 2(1) by simp
    let ?out = "[dec_nat 2 @ u '' DATE '' @ normalise_gedcom_date calendar (gl_value p), dec_nat 2 @ u '' _ORIGDATE '' @ gl_value p]"
    have "dated_as calendar line ?out" using p 2(2) l unfolding dated_as_def by blast
    with e p 2(4) l show ?thesis by (intro exI [of _ ?out] exI [of _ p]) simp
  qed
qed

text \<open>Normalising the dates of a record loses no source text: the lines come out one by one in order,
  each either unchanged or, for a level-two date, as its normalised form followed by an extension
  line with the value it had; and extension tags are reported exactly when a line has one.\<close>

theorem record_dates_keep_evidence:
  assumes "normalise_record_dates_with_metadata calendar lines = Inr (out, ext)"
  shows "(\<exists>outs. list_all2 (dated_as calendar) lines outs \<and> out = concat outs)
    \<and> (ext \<longleftrightarrow> (\<exists>line \<in> set lines. \<exists>p. parse_gedcom_line 0 line = Inr p \<and> startswith (gl_tag p) (u ''_'')))"
proof -
  have "\<exists>outs. list_all2 (dated_as calendar) lines outs \<and> ds_output st' = ds_output st @ concat outs
     \<and> ds_extensions st' = (ds_extensions st \<or> (\<exists>line \<in> set lines. \<exists>p. parse_gedcom_line 0 line = Inr p \<and> startswith (gl_tag p) (u ''_'')))"
    if "foldE (date_step calendar) st lines = Inr st'" "ds_event_level st \<in> {-1, 1}"
      "ds_event_level st = -1 \<longrightarrow> ds_event_tag st = []" for st st'
    using that
  proof (induction lines arbitrary: st)
    case (Cons line lines)
    from Cons.prems(1) obtain a where a: "date_step calendar st line = Inr a" "foldE (date_step calendar) a lines = Inr st'"
      by (auto simp: bindE_Inr_iff)
    from date_step_Inr [OF a(1) Cons.prems(2,3)] obtain o1 p where o1: "parse_gedcom_line 0 line = Inr p"
      "ds_output a = ds_output st @ o1" "dated_as calendar line o1" "ds_event_level a \<in> {-1, 1}"
      "ds_event_level a = -1 \<longrightarrow> ds_event_tag a = []"
      "ds_extensions a = (ds_extensions st \<or> startswith (gl_tag p) (u ''_''))" by blast
    from Cons.IH [OF a(2) o1(4,5)] obtain outs where "list_all2 (dated_as calendar) lines outs"
      "ds_output st' = ds_output a @ concat outs"
      "ds_extensions st' = (ds_extensions a \<or> (\<exists>line \<in> set lines. \<exists>p. parse_gedcom_line 0 line = Inr p \<and> startswith (gl_tag p) (u ''_'')))"
      by blast
    with o1 show ?case by (intro exI [of _ "o1 # outs"]) auto
  qed auto
  with assms show ?thesis
    by (fastforce simp: normalise_record_dates_with_metadata_def bindE_Inr_iff)
qed

lemma record_dates_keep_evidence_witness:
  "let lines = map u [''0 @I1@ INDI'', ''1 BIRT'', ''2 DATE 1900-02-03'', ''1 _UID x''];
       out = map u [''0 @I1@ INDI'', ''1 BIRT'', ''2 DATE 03 FEB 1900'', ''2 _ORIGDATE 1900-02-03'', ''1 _UID x'']
   in normalise_record_dates_with_metadata (\<lambda>_. None) lines = Inr (out, True)
     \<and> (\<exists>outs. list_all2 (dated_as (\<lambda>_. None)) lines outs \<and> out = concat outs)"
proof -
  have "normalise_record_dates_with_metadata (\<lambda>_. None)
      (map u [''0 @I1@ INDI'', ''1 BIRT'', ''2 DATE 1900-02-03'', ''1 _UID x''])
    = Inr (map u [''0 @I1@ INDI'', ''1 BIRT'', ''2 DATE 03 FEB 1900'', ''2 _ORIGDATE 1900-02-03'', ''1 _UID x''], True)"
    by code_simp
  from this record_dates_keep_evidence [OF this] show ?thesis unfolding Let_def by blast
qed

end
