(* ===== verification/File_Ingress.thy ===== *)
theory File_Ingress
  imports Py_Text
begin

text \<open>
  The pure checks of \<open>core/ingress.py\<close>: the resource budgets of each input class, the record
  and collection budgets, the two scanners that bound container nesting in JSON and TOML
  text before a recursive parser runs, and the bound on the structure of parsed data. Opening,
  hashing and copying files is not modelled. A float is a number like an integer here: the
  checks treat all scalars but strings alike.
\<close>

section \<open>Budgets\<close>

datatype file_kind = Config | Gedcom | Rootsmagic | Ocr | Manifest | Json_Schema | Prompt_Body

record file_limit =
  fl_max_bytes :: nat
  fl_max_line_bytes :: "nat option"
  fl_max_records :: "nat option"
  fl_max_record_bytes :: "nat option"
  fl_max_nesting :: "nat option"
  fl_max_collection_items :: "nat option"

text \<open>The default limits of \<open>FileIngressLimits\<close> and the selection of \<open>FileIngressPolicy.limit\<close>.\<close>

fun default_limit :: "file_kind \<Rightarrow> file_limit" where
  "default_limit Config = \<lparr>fl_max_bytes = 1048576, fl_max_line_bytes = Some 65536, fl_max_records = Some 20000,
     fl_max_record_bytes = None, fl_max_nesting = Some 16, fl_max_collection_items = Some 20000\<rparr>"
| "default_limit Gedcom = \<lparr>fl_max_bytes = 536870912, fl_max_line_bytes = Some 1048576, fl_max_records = Some 5000000,
     fl_max_record_bytes = Some 16777216, fl_max_nesting = Some 99, fl_max_collection_items = Some 250000\<rparr>"
| "default_limit Rootsmagic = \<lparr>fl_max_bytes = 8589934592, fl_max_line_bytes = None, fl_max_records = Some 5000000,
     fl_max_record_bytes = Some 16777216, fl_max_nesting = None, fl_max_collection_items = Some 50000\<rparr>"
| "default_limit Ocr = \<lparr>fl_max_bytes = 5000000, fl_max_line_bytes = Some 1048576, fl_max_records = Some 100000,
     fl_max_record_bytes = None, fl_max_nesting = None, fl_max_collection_items = None\<rparr>"
| "default_limit Manifest = \<lparr>fl_max_bytes = 33554432, fl_max_line_bytes = Some 1048576, fl_max_records = Some 500000,
     fl_max_record_bytes = None, fl_max_nesting = Some 64, fl_max_collection_items = Some 2000000\<rparr>"
| "default_limit Json_Schema = \<lparr>fl_max_bytes = 2097152, fl_max_line_bytes = Some 262144, fl_max_records = Some 50000,
     fl_max_record_bytes = None, fl_max_nesting = Some 64, fl_max_collection_items = Some 100000\<rparr>"
| "default_limit Prompt_Body = \<lparr>fl_max_bytes = 1048576, fl_max_line_bytes = Some 262144, fl_max_records = Some 50000,
     fl_max_record_bytes = None, fl_max_nesting = None, fl_max_collection_items = None\<rparr>"

datatype ingress_error =
    RecordLimitExceeded nat
  | RecordTooLarge nat
  | NestingLimitExceeded nat
  | CollectionLimitExceeded nat
  | NulByteUnsupported
  | InputEmpty

text \<open>\<open>limit is not None and value > limit\<close>.\<close>

definition exceeds :: "nat option \<Rightarrow> nat \<Rightarrow> bool" where
  "exceeds limit value \<longleftrightarrow> (case limit of None \<Rightarrow> False | Some m \<Rightarrow> value > m)"

lemma exceeds_simps [simp]: "exceeds None v = False" "exceeds (Some m) v \<longleftrightarrow> m < v"
  by (simp_all add: exceeds_def)

lemma exceeds_mono: "v \<le> w \<Longrightarrow> exceeds m v \<Longrightarrow> exceeds m w"
  by (cases m) auto

definition validate_record :: "file_limit \<Rightarrow> nat \<Rightarrow> nat \<Rightarrow> nat \<Rightarrow> nat \<Rightarrow> ingress_error + unit" where
  "validate_record limit count byte_count nesting collection_items =
     (if exceeds (fl_max_records limit) count then Inl (RecordLimitExceeded (the (fl_max_records limit)))
      else if exceeds (fl_max_record_bytes limit) byte_count then Inl (RecordTooLarge (the (fl_max_record_bytes limit)))
      else if exceeds (fl_max_nesting limit) nesting then Inl (NestingLimitExceeded (the (fl_max_nesting limit)))
      else if exceeds (fl_max_collection_items limit) collection_items
      then Inl (CollectionLimitExceeded (the (fl_max_collection_items limit)))
      else Inr ())"

definition validate_collection_items :: "file_limit \<Rightarrow> nat \<Rightarrow> ingress_error + unit" where
  "validate_collection_items limit count =
     (if exceeds (fl_max_collection_items limit) count
      then Inl (CollectionLimitExceeded (the (fl_max_collection_items limit))) else Inr ())"

lemma validate_record_Inr: "validate_record limit c b n i = Inr x \<longleftrightarrow>
    \<not> exceeds (fl_max_records limit) c \<and> \<not> exceeds (fl_max_record_bytes limit) b
    \<and> \<not> exceeds (fl_max_nesting limit) n \<and> \<not> exceeds (fl_max_collection_items limit) i"
  by (simp add: validate_record_def)

section \<open>The JSON scanner\<close>

record scan_state =
  ss_depth :: nat
  ss_in_string :: bool
  ss_escaped :: bool

definition scan_start :: scan_state where
  "scan_start = \<lparr>ss_depth = 0, ss_in_string = False, ss_escaped = False\<rparr>"

text \<open>One character: 92 is the backslash, 34 the quotation mark, 91 and 123 open a container, 93
  and 125 close one.\<close>

definition json_scan_step :: "nat \<Rightarrow> scan_state \<Rightarrow> nat \<Rightarrow> ingress_error + scan_state" where
  "json_scan_step maximum s c =
     (if ss_in_string s then
        Inr (if ss_escaped s then s\<lparr>ss_escaped := False\<rparr>
             else if c = 92 then s\<lparr>ss_escaped := True\<rparr>
             else if c = 34 then s\<lparr>ss_in_string := False\<rparr>
             else s)
      else if c = 34 then Inr (s\<lparr>ss_in_string := True\<rparr>)
      else if c = 91 \<or> c = 123 then
        (if ss_depth s + 1 > maximum then Inl (NestingLimitExceeded maximum)
         else Inr (s\<lparr>ss_depth := ss_depth s + 1\<rparr>))
      else if c = 93 \<or> c = 125 then Inr (s\<lparr>ss_depth := ss_depth s - 1\<rparr>)
      else Inr s)"

definition validate_json_nesting :: "file_limit \<Rightarrow> ustr \<Rightarrow> ingress_error + unit" where
  "validate_json_nesting limit s = (case fl_max_nesting limit of
     None \<Rightarrow> Inr ()
   | Some maximum \<Rightarrow> bindE (foldE (json_scan_step maximum) scan_start s) (\<lambda>_. Inr ()))"

section \<open>The TOML scanner\<close>

text \<open>The open quotation: none, or a delimiter that is single or tripled.\<close>

datatype toml_mode = Plain | Comment | Quoted nat bool bool \<comment> \<open>delimiter, multiline, escaped\<close>

function toml_scan :: "nat \<Rightarrow> nat \<Rightarrow> toml_mode \<Rightarrow> ustr \<Rightarrow> ingress_error + unit" where
  "toml_scan maximum depth mode [] = Inr ()"
| "toml_scan maximum depth Comment (c # cs) =
     toml_scan maximum depth (if c = 13 \<or> c = 10 then Plain else Comment) cs"
| "toml_scan maximum depth (Quoted q multi esc) (c # cs) =
     (if q = 34 \<and> esc then toml_scan maximum depth (Quoted q multi False) cs
      else if q = 34 \<and> c = 92 then toml_scan maximum depth (Quoted q multi True) cs
      else if multi \<and> take 3 (c # cs) = [q, q, q] then toml_scan maximum depth Plain (drop 2 cs)
      else if \<not> multi \<and> c = q then toml_scan maximum depth Plain cs
      else toml_scan maximum depth (Quoted q multi esc) cs)"
| "toml_scan maximum depth Plain (c # cs) =
     (if take 3 (c # cs) = [34, 34, 34] then toml_scan maximum depth (Quoted 34 True False) (drop 2 cs)
      else if take 3 (c # cs) = [39, 39, 39] then toml_scan maximum depth (Quoted 39 True False) (drop 2 cs)
      else if c = 34 \<or> c = 39 then toml_scan maximum depth (Quoted c False False) cs
      else if c = 35 then toml_scan maximum depth Comment cs
      else if c = 91 \<or> c = 123 then
        (if depth + 1 > maximum then Inl (NestingLimitExceeded maximum)
         else toml_scan maximum (depth + 1) Plain cs)
      else if c = 93 \<or> c = 125 then toml_scan maximum (depth - 1) Plain cs
      else toml_scan maximum depth Plain cs)"
  by pat_completeness auto
termination
  by (relation "measure (\<lambda>(m, d, mode, s). length s)") auto

definition validate_toml_nesting :: "file_limit \<Rightarrow> ustr \<Rightarrow> ingress_error + unit" where
  "validate_toml_nesting limit s = (case fl_max_nesting limit of
     None \<Rightarrow> Inr () | Some maximum \<Rightarrow> toml_scan maximum 0 Plain s)"

section \<open>The structure of parsed data\<close>

datatype json = JNull | JBool bool | JNumber int | JStr ustr | JList "json list" | JObj "(ustr \<times> json) list"

fun json_size :: "json \<Rightarrow> nat" where
  "json_size (JList xs) = Suc (sum_list (map json_size xs))"
| "json_size (JObj kvs) = Suc (sum_list (map (\<lambda>(k, v). Suc (json_size v)) kvs))"
| "json_size _ = 1"

lemma sum_list_Suc_pairs: "(\<Sum>(k, v)\<leftarrow>xs. Suc (json_size v)) = length xs + (\<Sum>x\<leftarrow>xs. json_size (snd x))"
  by (induction xs) auto

text \<open>One pass of the loop, on the item popped and the items still pending; the head of a pending
  list is the end of the Python list. The result is the new item count and pending list.\<close>

definition structure_step :: "file_limit \<Rightarrow> nat \<Rightarrow> json \<Rightarrow> int \<Rightarrow> (json \<times> int) list \<Rightarrow>
    ingress_error + nat \<times> (json \<times> int) list" where
  "structure_step limit items item parent_depth pending =
     bindE
       (let depth = parent_depth + 1;
            too_deep = (case fl_max_nesting limit of None \<Rightarrow> False | Some m \<Rightarrow> depth > int m) in
        case item of
          JStr s \<Rightarrow> if 0 \<in> set s then Inl NulByteUnsupported else Inr (items, pending)
        | JObj kvs \<Rightarrow>
            if too_deep then Inl (NestingLimitExceeded (the (fl_max_nesting limit)))
            else Inr (items + length kvs,
              rev (map (\<lambda>(k, v). (v, depth)) kvs) @ rev (map (\<lambda>(k, v). (JStr k, depth)) kvs) @ pending)
        | JList xs \<Rightarrow>
            if too_deep then Inl (NestingLimitExceeded (the (fl_max_nesting limit)))
            else Inr (items + length xs, rev (map (\<lambda>x. (x, depth)) xs) @ pending)
        | _ \<Rightarrow> Inr (items, pending))
       (\<lambda>(items', pending'). if exceeds (fl_max_collection_items limit) items'
          then Inl (CollectionLimitExceeded (the (fl_max_collection_items limit)))
          else Inr (items', pending'))"

lemma structure_step_decreases:
  "structure_step limit items item d pending = Inr (items', pending') \<Longrightarrow>
   (\<Sum>(v, d)\<leftarrow>pending'. json_size v) < json_size item + (\<Sum>(v, d)\<leftarrow>pending. json_size v)"
  by (cases item)
    (auto simp: structure_step_def Let_def rev_map [symmetric] sum_list_rev comp_def case_prod_beta
       sum_list_triv sum_list_Suc_pairs split: if_splits)

function structure_loop :: "file_limit \<Rightarrow> nat \<Rightarrow> (json \<times> int) list \<Rightarrow> ingress_error + unit" where
  "structure_loop limit items [] = Inr ()"
| "structure_loop limit items ((item, parent_depth) # pending) =
     bindE (structure_step limit items item parent_depth pending)
       (\<lambda>next. structure_loop limit (fst next) (snd next))"
  by pat_completeness auto
termination
  by (relation "measure (\<lambda>(limit, items, pending). \<Sum>(v, d)\<leftarrow>pending. json_size v)")
    (auto dest: structure_step_decreases)

definition validate_structure :: "file_limit \<Rightarrow> json \<Rightarrow> bool \<Rightarrow> ingress_error + unit" where
  "validate_structure limit v root_container_implicit =
     (let root = (if root_container_implicit \<and> (case v of JList _ \<Rightarrow> True | JObj _ \<Rightarrow> True | _ \<Rightarrow> False)
                  then -1 else 0) in
      structure_loop limit 0 [(v, root)])"

section \<open>What the bounds mean\<close>

text \<open>The container depth of a value, the members of all its containers and its strings, keys
  included.\<close>

fun json_depth :: "json \<Rightarrow> nat" where
  "json_depth (JList xs) = Suc (foldr max (map json_depth xs) 0)"
| "json_depth (JObj kvs) = Suc (foldr max (map (\<lambda>(k, v). json_depth v) kvs) 0)"
| "json_depth _ = 0"

fun json_items :: "json \<Rightarrow> nat" where
  "json_items (JList xs) = length xs + sum_list (map json_items xs)"
| "json_items (JObj kvs) = length kvs + sum_list (map (\<lambda>(k, v). json_items v) kvs)"
| "json_items _ = 0"

fun json_strings :: "json \<Rightarrow> ustr list" where
  "json_strings (JStr s) = [s]"
| "json_strings (JList xs) = concat (map json_strings xs)"
| "json_strings (JObj kvs) = map fst kvs @ concat (map (\<lambda>(k, v). json_strings v) kvs)"
| "json_strings _ = []"

definition nesting_ok :: "nat option \<Rightarrow> int \<Rightarrow> json \<Rightarrow> bool" where
  "nesting_ok limit d v \<longleftrightarrow> (case limit of None \<Rightarrow> True
     | Some m \<Rightarrow> json_depth v = 0 \<or> d + int (json_depth v) \<le> int m)"

definition nul_free :: "json \<Rightarrow> bool" where
  "nul_free v \<longleftrightarrow> (\<forall>s \<in> set (json_strings v). 0 \<notin> set s)"

lemma foldr_max_le: "foldr max ns 0 \<le> (m::nat) \<longleftrightarrow> (\<forall>n \<in> set ns. n \<le> m)"
  by (induction ns) auto

lemma nesting_ok_list: "nesting_ok limit d (JList xs) \<longleftrightarrow>
    (case limit of None \<Rightarrow> True | Some m \<Rightarrow> d + 1 \<le> int m) \<and> (\<forall>x \<in> set xs. nesting_ok limit (d + 1) x)"
proof (cases limit)
  case (Some m)
  have "d + int (json_depth (JList xs)) \<le> int m \<longleftrightarrow>
    d + 1 \<le> int m \<and> foldr max (map json_depth xs) 0 \<le> nat (int m - d - 1)" by auto
  also have "\<dots> \<longleftrightarrow> d + 1 \<le> int m \<and> (\<forall>x \<in> set xs. json_depth x = 0 \<or> d + 1 + int (json_depth x) \<le> int m)"
    by (auto simp: foldr_max_le)
  finally show ?thesis using Some by (simp add: nesting_ok_def)
qed (simp add: nesting_ok_def)

lemma json_depth_object: "json_depth (JObj kvs) = json_depth (JList (map snd kvs))"
  by (induction kvs) auto

lemma nesting_ok_object: "nesting_ok limit d (JObj kvs) \<longleftrightarrow> nesting_ok limit d (JList (map snd kvs))"
  unfolding nesting_ok_def json_depth_object by (rule refl)

lemma nesting_ok_scalar: "json_depth v = 0 \<Longrightarrow> nesting_ok limit d v"
  by (simp add: nesting_ok_def split: option.split)

definition pending_ok :: "file_limit \<Rightarrow> nat \<Rightarrow> (json \<times> int) list \<Rightarrow> bool" where
  "pending_ok limit items pending \<longleftrightarrow>
     \<not> exceeds (fl_max_collection_items limit) (items + (\<Sum>(v, d)\<leftarrow>pending. json_items v))
     \<and> (\<forall>(v, d) \<in> set pending. nesting_ok (fl_max_nesting limit) d v \<and> nul_free v)"

lemma sum_rev_map: "(\<Sum>x\<leftarrow>rev xs. f x) = (\<Sum>x\<leftarrow>xs. f x :: nat)"
  by (simp add: rev_map [symmetric] sum_list_rev)

lemma json_items_object: "json_items (JObj kvs) = length kvs + (\<Sum>kv\<leftarrow>kvs. json_items (snd kv))"
  by (induction kvs) auto

lemma nul_free_object: "nul_free (JObj kvs) \<longleftrightarrow> (\<forall>(k, v) \<in> set kvs. 0 \<notin> set k \<and> nul_free v)"
  by (induction kvs) (auto simp: nul_free_def ball_Un)

lemma nul_free_list: "nul_free (JList xs) \<longleftrightarrow> (\<forall>x \<in> set xs. nul_free x)"
  by (auto simp: nul_free_def)

lemma nul_free_other: "nul_free JNull" "nul_free (JBool b)" "nul_free (JNumber i)"
  by (simp_all add: nul_free_def)

lemma nul_free_text: "nul_free (JStr s) \<longleftrightarrow> 0 \<notin> set s"
  by (simp add: nul_free_def)

lemma pending_ok_list:
  "pending_ok limit items ((JList xs, d) # pending) \<longleftrightarrow>
   (case fl_max_nesting limit of None \<Rightarrow> True | Some m \<Rightarrow> d + 1 \<le> int m)
   \<and> pending_ok limit (items + length xs) (rev (map (\<lambda>x. (x, d + 1)) xs) @ pending)"
  by (auto simp: pending_ok_def nesting_ok_list nul_free_list rev_map sum_rev_map comp_def add.assoc)

lemma pending_ok_object:
  "pending_ok limit items ((JObj kvs, d) # pending) \<longleftrightarrow>
   (case fl_max_nesting limit of None \<Rightarrow> True | Some m \<Rightarrow> d + 1 \<le> int m)
   \<and> pending_ok limit (items + length kvs)
       (rev (map (\<lambda>(k, v). (v, d + 1)) kvs) @ rev (map (\<lambda>(k, v). (JStr k, d + 1)) kvs) @ pending)"
  by (auto simp: pending_ok_def nesting_ok_object nesting_ok_list nul_free_object nul_free_text
      json_items_object rev_map sum_rev_map comp_def case_prod_beta add.assoc nesting_ok_scalar ball_Un simp del: json_items.simps(2))

lemma structure_loop_iff:
  "\<not> exceeds (fl_max_collection_items limit) items \<Longrightarrow>
   structure_loop limit items pending = Inr () \<longleftrightarrow> pending_ok limit items pending"
proof (induction limit items pending rule: structure_loop.induct)
  case (1 limit items)
  then show ?case by (simp add: pending_ok_def)
next
  case (2 limit items item d pending)
  have IH: "structure_loop limit (fst next) (snd next) = Inr () \<longleftrightarrow> pending_ok limit (fst next) (snd next)"
    if "structure_step limit items item d pending = Inr next" for "next"
    using that by (intro "2.IH") (auto simp: structure_step_def bindE_Inr_iff split: if_splits)
  show ?case
  proof (cases "\<exists>xs. item = JList xs \<or> (\<exists>kvs. item = JObj kvs)")
    case False
    then show ?thesis using IH "2.prems"
      by (cases item) (auto simp: structure_step_def pending_ok_def nesting_ok_scalar nul_free_text nul_free_other)
  next
    case True
    have mono: "\<not> exceeds (fl_max_collection_items limit) n" if "pending_ok limit n q" for n q
      using that exceeds_mono [of n "n + (\<Sum>(v, d)\<leftarrow>q. json_items v)"] by (auto simp: pending_ok_def)
    from True IH show ?thesis
      by (auto simp: structure_step_def Let_def pending_ok_list pending_ok_object
          dest: mono split: option.splits if_splits)
  qed
qed

text \<open>C12: Parsed data is accepted exactly when the members of all its containers together are within the
  collection budget, no container is deeper than the nesting limit (the document table of TOML not
  counted), and no string or key has a NUL character.\<close>

theorem validate_structure_iff:
  "validate_structure limit v implicit = Inr () \<longleftrightarrow>
     \<not> exceeds (fl_max_collection_items limit) (json_items v)
     \<and> \<not> exceeds (fl_max_nesting limit) (json_depth v - (if implicit then 1 else 0))
     \<and> nul_free v"
proof -
  have *: "validate_structure limit v implicit = Inr () \<longleftrightarrow>
      pending_ok limit 0 [(v, if implicit \<and> json_depth v > 0 then -1 else 0)]"
    unfolding validate_structure_def
    by (cases v) (simp_all add: structure_loop_iff exceeds_def del: structure_loop.simps split: option.split)
  show ?thesis
    unfolding * by (auto simp: pending_ok_def nesting_ok_def exceeds_def split: option.splits)
qed

section \<open>The scanner on printed JSON\<close>

text \<open>A value as JSON text, with quotation marks and backslashes of strings escaped.\<close>

definition json_string :: "ustr \<Rightarrow> ustr" where
  "json_string s = [34] @ concat (map (\<lambda>c. if c = 34 \<or> c = 92 then [92, c] else [c]) s) @ [34]"

fun json_text :: "json \<Rightarrow> ustr" where
  "json_text JNull = u ''null''"
| "json_text (JBool b) = (if b then u ''true'' else u ''false'')"
| "json_text (JNumber i) = dec_int i"
| "json_text (JStr s) = json_string s"
| "json_text (JList xs) = [91] @ join (u '','') (map json_text xs) @ [93]"
| "json_text (JObj kvs) = [123] @ join (u '','') (map (\<lambda>(k, v). json_string k @ u '':'' @ json_text v) kvs) @ [125]"

definition scan_plain :: "nat \<Rightarrow> scan_state" where
  "scan_plain d = \<lparr>ss_depth = d, ss_in_string = False, ss_escaped = False\<rparr>"

definition scan_quoted :: "nat \<Rightarrow> scan_state" where
  "scan_quoted d = \<lparr>ss_depth = d, ss_in_string = True, ss_escaped = False\<rparr>"

lemmas scan_defs = json_scan_step_def scan_plain_def scan_quoted_def

lemma scan_other: "\<forall>c \<in> set s. c \<notin> {34, 91, 93, 123, 125} \<Longrightarrow>
    foldE (json_scan_step m) (scan_plain d) s = Inr (scan_plain d)"
  by (induction s) (simp_all add: scan_defs)

lemma scan_words:
  "foldE (json_scan_step m) (scan_plain d) (u ''null'') = Inr (scan_plain d)"
  "foldE (json_scan_step m) (scan_plain d) (u ''true'') = Inr (scan_plain d)"
  "foldE (json_scan_step m) (scan_plain d) (u ''false'') = Inr (scan_plain d)"
  by (rule scan_other, simp add: u_def)+

lemma scan_escaped: "foldE (json_scan_step m) (scan_quoted d)
    (concat (map (\<lambda>c. if c = 34 \<or> c = 92 then [92, c] else [c]) s)) = Inr (scan_quoted d)"
  by (induction s) (simp_all add: foldE_append scan_defs)

lemma scan_string: "foldE (json_scan_step m) (scan_plain d) (json_string s) = Inr (scan_plain d)"
proof -
  have "json_scan_step m (scan_plain d) 34 = Inr (scan_quoted d)"
    and "json_scan_step m (scan_quoted d) 34 = Inr (scan_plain d)"
    by (simp_all add: scan_defs)
  then show ?thesis by (simp add: json_string_def foldE_append scan_escaped)
qed

lemma scan_bracket:
  "c = 91 \<or> c = 123 \<Longrightarrow> json_scan_step m (scan_plain d) c =
     (if d + 1 > m then Inl (NestingLimitExceeded m) else Inr (scan_plain (d + 1)))"
  "c = 93 \<or> c = 125 \<Longrightarrow> json_scan_step m (scan_plain (d + 1)) c = Inr (scan_plain d)"
  by (auto simp: scan_defs)

text \<open>What scanning the text of a value does at depth \<open>d\<close>.\<close>

definition scan_result :: "nat \<Rightarrow> nat \<Rightarrow> nat \<Rightarrow> ingress_error + scan_state" where
  "scan_result m d n = (if n = 0 \<or> d + n \<le> m then Inr (scan_plain d) else Inl (NestingLimitExceeded m))"

lemma scan_joined:
  assumes "\<And>x. x \<in> set xs \<Longrightarrow> foldE (json_scan_step m) (scan_plain d) (txt x) = scan_result m d (dep x)"
  shows "foldE (json_scan_step m) (scan_plain d) (join (u '','') (map txt xs))
    = scan_result m d (foldr max (map dep xs) 0)"
  using assms
proof (induction xs)
  case Nil
  then show ?case by (simp add: scan_result_def)
next
  case (Cons x xs)
  have comma: "json_scan_step m (scan_plain d) 44 = Inr (scan_plain d)"
    by (simp add: scan_defs)
  have first: "foldE (json_scan_step m) (scan_plain d) (txt x) = scan_result m d (dep x)"
    using Cons.prems by simp
  have rest: "foldE (json_scan_step m) (scan_plain d) (join (u '','') (map txt xs))
    = scan_result m d (foldr max (map dep xs) 0)"
    using Cons by simp
  show ?case using first rest comma
    by (cases xs) (auto simp: foldE_append scan_result_def u_def)
qed

lemma scan_container:
  assumes body: "foldE (json_scan_step m) (scan_plain (d + 1)) s = scan_result m (d + 1) n"
    and brackets: "b = 91 \<or> b = 123" "e = 93 \<or> e = 125"
  shows "foldE (json_scan_step m) (scan_plain d) ([b] @ s @ [e]) = scan_result m d (Suc n)"
  using body scan_bracket(1) [OF brackets(1), of m d] scan_bracket(2) [OF brackets(2), of m d]
  by (auto simp: foldE_append scan_result_def)

lemma scan_text: "foldE (json_scan_step m) (scan_plain d) (json_text v) = scan_result m d (json_depth v)"
proof (induction v arbitrary: d rule: json_text.induct)
  case (3 i)
  have "\<forall>c \<in> set (dec_int i). c \<notin> {34, 91, 93, 123, 125}"
    using dec_nat_digits [of "nat i"] dec_nat_digits [of "nat (- i)"]
    by (auto simp: dec_int_def is_digit_def split: if_splits)
  then show ?case by (simp add: scan_other scan_result_def)
next
  case (5 xs)
  have "foldE (json_scan_step m) (scan_plain (d + 1)) (join (u '','') (map json_text xs))
      = scan_result m (d + 1) (foldr max (map json_depth xs) 0)"
    by (rule scan_joined) (use 5 in simp)
  then show ?case unfolding json_text.simps json_depth.simps by (rule scan_container) simp_all
next
  case (6 kvs)
  have "json_scan_step m (scan_plain n) 58 = Inr (scan_plain n)" for n by (simp add: scan_defs)
  then have "foldE (json_scan_step m) (scan_plain (d + 1))
      (join (u '','') (map (\<lambda>(k, v). json_string k @ u '':'' @ json_text v) kvs))
      = scan_result m (d + 1) (foldr max (map (\<lambda>(k, v). json_depth v) kvs) 0)"
    by (intro scan_joined) (use 6 in \<open>auto simp: foldE_append scan_string u_def\<close>)
  then show ?case unfolding json_text.simps json_depth.simps by (rule scan_container) simp_all
qed (simp_all add: scan_words scan_string scan_result_def)

text \<open>C13: The scanner that runs before the recursive parser is exact on printed values: it accepts the
  text of a value just when the value's container depth is within the limit, whatever brackets,
  quotation marks and backslashes its strings and keys contain.\<close>

theorem json_scanner_exact:
  "validate_json_nesting limit (json_text v) = Inr () \<longleftrightarrow> \<not> exceeds (fl_max_nesting limit) (json_depth v)"
proof -
  have start: "scan_start = scan_plain 0" by (simp add: scan_start_def scan_plain_def)
  show ?thesis
    by (cases "fl_max_nesting limit")
      (auto simp: validate_json_nesting_def start scan_text scan_result_def)
qed

section \<open>What the TOML scanner skips\<close>

lemma toml_comment_skipped: "\<forall>c \<in> set s. c \<noteq> 10 \<and> c \<noteq> 13 \<Longrightarrow> e = 10 \<or> e = 13 \<Longrightarrow>
    toml_scan m d Comment (s @ e # t) = toml_scan m d Plain t"
  by (induction s) auto

lemma toml_literal_skipped: "39 \<notin> set s \<Longrightarrow>
    toml_scan m d (Quoted 39 False False) (s @ 39 # t) = toml_scan m d Plain t"
  by (induction s) auto

lemma toml_basic_skipped:
  "toml_scan m d (Quoted 34 False False) (concat (map (\<lambda>c. if c = 34 \<or> c = 92 then [92, c] else [c]) s) @ 34 # t)
   = toml_scan m d Plain t"
  by (induction s) auto

end
