(* ===== verification/Gedcom_Loader.thy ===== *)
theory Gedcom_Loader
  imports Gedcom_Graph Gedcom_Dates File_Ingress
begin

text \<open>
  \<open>gedcom/parser.py\<close>: reading the records of a file within its budgets, the allocation of
  pointers over several files, the structure check of a document and \<open>load_sources\<close>. The
  lines of a file, which the ingress policy decodes, are the input of the model; opening the
  file is not modelled. The cancellation checkpoints do nothing outside a cancelled job.
\<close>

section \<open>Reading records\<close>

record text_item =
  ti_text :: ustr
  ti_bytes :: nat
  ti_encoding :: ustr

datatype loader_error =
    LineError gedcom_error
  | PathError ustr gedcom_error
  | IngressError ingress_error

record reader_state =
  rs_records :: "gedcom_record list"
  rs_current :: "ustr list"
  rs_sequence :: nat
  rs_bytes :: nat
  rs_lines :: nat
  rs_nesting :: nat
  rs_content :: bool
  rs_encoding :: ustr

definition reader_start :: reader_state where
  "reader_start = \<lparr>rs_records = [], rs_current = [], rs_sequence = 0, rs_bytes = 0, rs_lines = 0,
     rs_nesting = 0, rs_content = False, rs_encoding = u ''utf-8''\<rparr>"

definition item_line :: "text_item \<Rightarrow> ustr" where
  "item_line i = rstrip_if (\<lambda>c. c = 13 \<or> c = 10) (ti_text i)"

definition blank :: "text_item \<Rightarrow> bool" where
  "blank i \<longleftrightarrow> py_strip (item_line i) = []"

text \<open>Yield the open record when a level-zero line follows it.\<close>

definition close_record :: "ustr \<Rightarrow> nat \<Rightarrow> reader_state \<Rightarrow> reader_state" where
  "close_record path level st =
     (if level = 0 \<and> rs_current st \<noteq> [] then
        st\<lparr>rs_records := rs_records st @ [\<lparr>gr_lines = rs_current st, gr_source_file = path,
             gr_sequence = rs_sequence st, gr_encoding = rs_encoding st\<rparr>],
           rs_sequence := rs_sequence st + 1, rs_current := [], rs_bytes := 0, rs_lines := 0, rs_nesting := 0\<rparr>
      else st)"

definition add_line :: "file_limit \<Rightarrow> text_item \<Rightarrow> nat \<Rightarrow> reader_state \<Rightarrow> loader_error + reader_state" where
  "add_line limit item level st0 =
     (let st = st0\<lparr>rs_bytes := rs_bytes st0 + ti_bytes item, rs_lines := rs_lines st0 + 1,
            rs_nesting := max (rs_nesting st0) level\<rparr> in
      case validate_record limit (rs_sequence st + 1) (rs_bytes st) (rs_nesting st) (rs_lines st) of
        Inl e \<Rightarrow> Inl (IngressError e)
      | Inr _ \<Rightarrow> Inr (st\<lparr>rs_current := rs_current st @ [item_line item]\<rparr>))"

definition reader_step :: "file_limit \<Rightarrow> ustr \<Rightarrow> reader_state \<Rightarrow> nat \<times> text_item \<Rightarrow> loader_error + reader_state" where
  "reader_step limit path st0 = (\<lambda>(line_number, item).
     let st = st0\<lparr>rs_encoding := ti_encoding item\<rparr> in
     if blank item then Inr st
     else case parse_gedcom_line line_number (item_line item) of
       Inl e \<Rightarrow> Inl (LineError e)
     | Inr p \<Rightarrow> add_line limit item (gl_level p)
         (close_record path (gl_level p) (st\<lparr>rs_content := True\<rparr>)))"

definition iter_gedcom_records :: "file_limit \<Rightarrow> ustr \<Rightarrow> text_item list \<Rightarrow> loader_error + gedcom_record list" where
  "iter_gedcom_records limit path items =
     bindE (foldE (reader_step limit path) reader_start (zip [1 ..< length items + 1] items)) (\<lambda>st.
       if \<not> rs_content st then Inl (IngressError InputEmpty)
       else Inr (rs_records (close_record path 0 st)))"

section \<open>Pointer allocation\<close>

record pointer_allocator =
  pa_used :: "ustr list"
  pa_next_suffix :: "(ustr \<times> nat) \<rightharpoonup> int"

text \<open>The group of \<open>@([A-Za-z_]+)(\d+)@\<close>, or \<open>X\<close>.\<close>

definition pointer_prefix :: "ustr \<Rightarrow> ustr" where
  "pointer_prefix original =
     (let name = takeWhile (\<lambda>c. is_alpha c \<or> c = 95) (drop 1 original);
          rest = dropWhile (\<lambda>c. is_alpha c \<or> c = 95) (drop 1 original);
          digits = takeWhile is_decimal rest in
      if original \<noteq> [] \<and> hd original = 64 \<and> name \<noteq> [] \<and> digits \<noteq> [] \<and> dropWhile is_decimal rest = [64]
      then name else u ''X'')"

definition suffixed_pointer :: "ustr \<Rightarrow> nat \<Rightarrow> int \<Rightarrow> ustr" where
  "suffixed_pointer prefix source suffix =
     [64] @ prefix @ dec_nat source @ [95] @ dec_int suffix @ [64]"

lemma suffixed_pointer_inject [simp]:
  "suffixed_pointer prefix source i = suffixed_pointer prefix source j \<longleftrightarrow> i = j"
  by (simp add: suffixed_pointer_def)

interpretation suffixes: numbered_names "suffixed_pointer prefix source" for prefix source
  by unfold_locales simp

function probe_suffix :: "ustr list \<Rightarrow> ustr \<Rightarrow> nat \<Rightarrow> int \<Rightarrow> int" where
  "probe_suffix used prefix source suffix =
     (if suffixed_pointer prefix source suffix \<in> set used
      then probe_suffix used prefix source (suffix + 1) else suffix)"
  by pat_completeness auto
termination
  by (relation "measure (\<lambda>(used, prefix, source, suffix). card (suffixes.taken_from prefix source used suffix))")
    (auto intro: suffixes.taken_decreases)

declare probe_suffix.simps [simp del]

definition allocate :: "pointer_allocator \<Rightarrow> ustr \<Rightarrow> nat \<Rightarrow> pointer_allocator \<times> ustr" where
  "allocate a original source_number =
     (if original \<notin> set (pa_used a) then (a\<lparr>pa_used := original # pa_used a\<rparr>, original)
      else
        let prefix = pointer_prefix original;
            start = (case pa_next_suffix a (prefix, source_number) of None \<Rightarrow> 1 | Some n \<Rightarrow> n);
            suffix = probe_suffix (pa_used a) prefix source_number start;
            candidate = suffixed_pointer prefix source_number suffix in
        (a\<lparr>pa_next_suffix := (pa_next_suffix a)((prefix, source_number) \<mapsto> suffix + 1),
           pa_used := candidate # pa_used a\<rparr>, candidate))"

lemma probe_suffix_spec:
  "suffixed_pointer prefix source (probe_suffix used prefix source i) \<notin> set used
   \<and> i \<le> probe_suffix used prefix source i
   \<and> (\<forall>j. i \<le> j \<and> j < probe_suffix used prefix source i \<longrightarrow> suffixed_pointer prefix source j \<in> set used)"
proof (induction used prefix source i rule: probe_suffix.induct)
  case (1 used prefix source i)
  show ?case
  proof (cases "suffixed_pointer prefix source i \<in> set used")
    case True
    then have "probe_suffix used prefix source i = probe_suffix used prefix source (i + 1)"
      by (simp add: probe_suffix.simps [of used prefix source i])
    moreover have "suffixed_pointer prefix source j \<in> set used"
      if "i \<le> j" "j < probe_suffix used prefix source (i + 1)" for j
      using 1 True that by (cases "j = i") auto
    ultimately show ?thesis using 1 [OF True] by auto
  next
    case False
    then show ?thesis by (auto simp: probe_suffix.simps [of used prefix source i])
  qed
qed

interpretation allocator: fresh_supply "\<lambda>a (original, source). allocate a original source" "\<lambda>a. set (pa_used a)"
proof
  fix a r
  show "snd ((\<lambda>(original, source). allocate a original source) r) \<notin> set (pa_used a)"
    using probe_suffix_spec by (auto simp: allocate_def Let_def split: prod.split)
  show "set (pa_used (fst ((\<lambda>(original, source). allocate a original source) r)))
    = insert (snd ((\<lambda>(original, source). allocate a original source) r)) (set (pa_used a))"
    by (auto simp: allocate_def Let_def split: prod.split)
qed

text \<open>The reference: scan from suffix 1 each time. The remembered suffixes are sound when all smaller
  ones are taken.\<close>

definition reference_name :: "ustr list \<Rightarrow> ustr \<Rightarrow> nat \<Rightarrow> ustr" where
  "reference_name used original source_number =
     (if original \<notin> set used then original
      else suffixed_pointer (pointer_prefix original) source_number
             (probe_suffix used (pointer_prefix original) source_number 1))"

definition suffixes_sound :: "pointer_allocator \<Rightarrow> bool" where
  "suffixes_sound a \<longleftrightarrow> (\<forall>prefix source n. pa_next_suffix a (prefix, source) = Some n \<longrightarrow>
     1 \<le> n \<and> (\<forall>j. 1 \<le> j \<and> j < n \<longrightarrow> suffixed_pointer prefix source j \<in> set (pa_used a)))"

lemma probe_suffix_skip:
  assumes "\<forall>j. i \<le> j \<and> j < n \<longrightarrow> suffixed_pointer prefix source j \<in> set used" and "i \<le> n"
  shows "probe_suffix used prefix source i = probe_suffix used prefix source n"
proof -
  note s = probe_suffix_spec [of prefix source used i] and t = probe_suffix_spec [of prefix source used n]
  have "n \<le> probe_suffix used prefix source i"
    using s assms by (meson not_le)
  then show ?thesis using s t assms(2) by (metis linorder_neqE order_trans)
qed

lemma allocate_reference:
  assumes sound: "suffixes_sound a"
  shows "snd (allocate a original source) = reference_name (pa_used a) original source"
    and "suffixes_sound (fst (allocate a original source))"
proof -
  let ?prefix = "pointer_prefix original"
  let ?start = "case pa_next_suffix a (?prefix, source) of None \<Rightarrow> 1 | Some n \<Rightarrow> n"
  let ?suffix = "probe_suffix (pa_used a) ?prefix source 1"
  have low: "\<forall>j. 1 \<le> j \<and> j < ?start \<longrightarrow> suffixed_pointer ?prefix source j \<in> set (pa_used a)" and "1 \<le> ?start"
    using sound by (auto simp: suffixes_sound_def split: option.split)
  then have eq: "probe_suffix (pa_used a) ?prefix source ?start = ?suffix"
    using probe_suffix_skip [OF low] by simp
  then show "snd (allocate a original source) = reference_name (pa_used a) original source"
    by (simp add: allocate_def reference_name_def Let_def)
  have spec: "1 \<le> ?suffix" "\<forall>j. 1 \<le> j \<and> j < ?suffix \<longrightarrow> suffixed_pointer ?prefix source j \<in> set (pa_used a)"
    using probe_suffix_spec [of ?prefix source "pa_used a" 1] by auto
  have "suffixed_pointer ?prefix source j \<in> set (suffixed_pointer ?prefix source ?suffix # pa_used a)"
    if "1 \<le> j" "j < ?suffix + 1" for j
    using spec(2) that by (cases "j = ?suffix") auto
  with sound spec(1) eq show "suffixes_sound (fst (allocate a original source))"
    by (auto simp: suffixes_sound_def allocate_def Let_def)
qed

text \<open>Allocation over a list of requests.\<close>

definition new_allocator :: pointer_allocator where
  "new_allocator = \<lparr>pa_used = [], pa_next_suffix = Map.empty\<rparr>"

fun reference_names :: "ustr list \<Rightarrow> (ustr \<times> nat) list \<Rightarrow> ustr list" where
  "reference_names used [] = []"
| "reference_names used ((original, source) # rs) =
     (let n = reference_name used original source in n # reference_names (n # used) rs)"

lemma allocate_used: "pa_used (fst (allocate a original source)) = snd (allocate a original source) # pa_used a"
  by (simp add: allocate_def Let_def)

text \<open>The allocator that remembers how far it probed gives every request the very name a scan of all
  suffixes from 1 gives: the original name while it is free, else the least free suffix; and no
  name is given out twice.\<close>

theorem allocator_is_reference:
  "snd (allocator.issue_all new_allocator rs) = reference_names [] rs
   \<and> distinct (snd (allocator.issue_all new_allocator rs))"
proof -
  have "snd (allocator.issue_all a rs) = reference_names (pa_used a) rs" if "suffixes_sound a" for a
    using that
  proof (induction rs arbitrary: a)
    case (Cons r rs)
    obtain original source where r: "r = (original, source)" by (cases r)
    from allocate_reference [OF Cons.prems, of original source] Cons.IH [of "fst (allocate a original source)"]
    show ?case by (simp add: r Let_def allocate_used)
  qed simp
  moreover have "suffixes_sound new_allocator" by (simp add: suffixes_sound_def new_allocator_def)
  ultimately show ?thesis
    using allocator.issue_all_fresh [of new_allocator rs] by (simp add: new_allocator_def)
qed

section \<open>The structure of an input document\<close>

record structure_counts =
  sc_heads :: nat
  sc_trailers :: nat
  sc_declared :: "ustr list"

definition count_record :: "structure_counts \<Rightarrow> gedcom_record \<Rightarrow> gedcom_error + structure_counts" where
  "count_record c r = bindE (record_header r) (\<lambda>h.
     let c1 = c\<lparr>sc_heads := sc_heads c + (if gl_tag h = u ''HEAD'' then 1 else 0),
                sc_trailers := sc_trailers c + (if gl_tag h = u ''TRLR'' then 1 else 0)\<rparr> in
     if gl_xref h = [] then Inr c1
     else if gl_xref h \<in> set (sc_declared c) then Inl InputDuplicateIdentifier
     else Inr (c1\<lparr>sc_declared := gl_xref h # sc_declared c\<rparr>))"

definition validate_input_document_structure :: "gedcom_record list \<Rightarrow> gedcom_error + unit" where
  "validate_input_document_structure records =
     (if records = [] then Inl InputBeginHead
      else bindE (record_tag (hd records)) (\<lambda>first.
        if first \<noteq> u ''HEAD'' then Inl InputBeginHead
        else bindE (record_tag (last records)) (\<lambda>final.
          if final \<noteq> u ''TRLR'' then Inl InputEndTrlr
          else bindE (foldE count_record \<lparr>sc_heads = 0, sc_trailers = 0, sc_declared = []\<rparr> records) (\<lambda>c.
            if sc_heads c \<noteq> 1 then Inl InputOneHead
            else if sc_trailers c \<noteq> 1 then Inl InputOneTrlr
            else Inr ()))))"

lemma count_records: "mapE record_header records = Inr hs \<Longrightarrow>
    foldE count_record c records = Inr c' \<longleftrightarrow>
      (let xs = filter (\<lambda>x. x \<noteq> []) (map gl_xref hs) in
       distinct xs \<and> set xs \<inter> set (sc_declared c) = {}
       \<and> c' = \<lparr>sc_heads = sc_heads c + length (filter (\<lambda>h. gl_tag h = u ''HEAD'') hs),
               sc_trailers = sc_trailers c + length (filter (\<lambda>h. gl_tag h = u ''TRLR'') hs),
               sc_declared = rev xs @ sc_declared c\<rparr>)"
proof (induction records arbitrary: c hs)
  case Nil
  then show ?case by (cases c) auto
next
  case (Cons r records)
  from Cons.prems obtain h hs' where h: "record_header r = Inr h" "mapE record_header records = Inr hs'" "hs = h # hs'"
    by (auto simp: bindE_Inr_iff)
  note IH = Cons.IH [OF h(2)]
  show ?case
  proof (cases "gl_xref h = []")
    case True
    with h IH show ?thesis by (simp add: count_record_def Let_def)
  next
    case False
    show ?thesis
    proof (cases "gl_xref h \<in> set (sc_declared c)")
      case True
      with False h show ?thesis by (simp add: count_record_def Let_def)
    next
      case new: False
      with False h IH show ?thesis by (auto simp: count_record_def Let_def)
    qed
  qed
qed

text \<open>A document of parseable records is accepted exactly when its first record is its only header,
  its last its only trailer, and no two records declare the same pointer.\<close>

theorem input_structure_iff:
  assumes "mapE record_header records = Inr hs"
  shows "validate_input_document_structure records = Inr () \<longleftrightarrow>
    (\<exists>body. map gl_tag hs = [u ''HEAD''] @ body @ [u ''TRLR''] \<and> u ''HEAD'' \<notin> set body \<and> u ''TRLR'' \<notin> set body)
    \<and> distinct (filter (\<lambda>x. x \<noteq> []) (map gl_xref hs))"
proof (cases hs)
  case Nil
  then show ?thesis using mapE_length [OF assms] by (simp add: validate_input_document_structure_def)
next
  case (Cons h hs')
  have ne: "records \<noteq> []" using mapE_length [OF assms] Cons by auto
  let ?tags = "map gl_tag hs"
  have ends: "record_tag (hd records) = Inr (hd ?tags)" "record_tag (last records) = Inr (last ?tags)"
  proof -
    have hs: "hs \<noteq> []" "length records = length hs" using Cons mapE_length [OF assms] by auto
    have "record_header (hd records) = Inr (hd hs)" "record_header (last records) = Inr (last hs)"
      using mapE_Inr_nth [OF assms, of 0] mapE_Inr_nth [OF assms, of "length records - 1"] hs ne
      by (simp_all add: hd_conv_nth last_conv_nth)
    then show "record_tag (hd records) = Inr (hd ?tags)" "record_tag (last records) = Inr (last ?tags)"
      using hs(1) by (simp_all add: record_tag_def hd_map last_map)
  qed
  have count: "length (filter (\<lambda>h. gl_tag h = t) hs) = length (filter (\<lambda>s. s = t) ?tags)" for t
    by (simp add: filter_map comp_def)

  have shape: "hd ?tags = u ''HEAD'' \<and> last ?tags = u ''TRLR'' \<and> length (filter (\<lambda>s. s = u ''HEAD'') ?tags) = 1
      \<and> length (filter (\<lambda>s. s = u ''TRLR'') ?tags) = 1 \<longleftrightarrow>
    (\<exists>body. ?tags = [u ''HEAD''] @ body @ [u ''TRLR''] \<and> u ''HEAD'' \<notin> set body \<and> u ''TRLR'' \<notin> set body)"
    (is "?l \<longleftrightarrow> ?r")
  proof
    assume l: ?l
    obtain a as where a: "?tags = a # as" using Cons by simp
    with l have "as \<noteq> []" by auto
    then obtain body z where "as = body @ [z]" by (cases as rule: rev_cases) auto
    with a l show ?r by (auto simp: filter_empty_conv)
  next
    assume ?r
    then obtain body where "?tags = [u ''HEAD''] @ body @ [u ''TRLR'']" and "u ''HEAD'' \<notin> set body" "u ''TRLR'' \<notin> set body"
      by blast
    then show ?l by (simp only:) (auto simp: filter_empty_conv)
  qed
  show ?thesis
    using ne ends count_records [OF assms] shape
    by (auto simp: validate_input_document_structure_def bindE_Inr_iff Let_def count)
qed

lemma input_structure_iff_witness:
  "let records = map (\<lambda>l. \<lparr>gr_lines = [l], gr_source_file = [], gr_sequence = 0, gr_encoding = []\<rparr>)
         [u ''0 HEAD'', u ''0 @I1@ INDI'', u ''0 TRLR'']
   in validate_input_document_structure records = Inr ()"
proof -
  let ?r = "map (\<lambda>l. \<lparr>gr_lines = [l], gr_source_file = [], gr_sequence = 0, gr_encoding = []\<rparr>)
         [u ''0 HEAD'', u ''0 @I1@ INDI'', u ''0 TRLR'']"
  let ?hs = "[\<lparr>gl_level = 0, gl_xref = [], gl_tag = u ''HEAD'', gl_value = [], gl_raw = u ''0 HEAD''\<rparr>,
      \<lparr>gl_level = 0, gl_xref = u ''@I1@'', gl_tag = u ''INDI'', gl_value = [], gl_raw = u ''0 @I1@ INDI''\<rparr>,
      \<lparr>gl_level = 0, gl_xref = [], gl_tag = u ''TRLR'', gl_value = [], gl_raw = u ''0 TRLR''\<rparr>]"
  have "mapE record_header ?r = Inr ?hs" by code_simp
  from input_structure_iff [OF this] show ?thesis by auto
qed

section \<open>Loading sources\<close>

record parsed_source =
  ps_path :: ustr
  ps_records :: "gedcom_record list"
  ps_pointer_map :: "ustr \<rightharpoonup> ustr"
  ps_normalized_dates :: bool
  ps_preserved_extensions :: bool

text \<open>A list of names is allocated one by one; a name that comes again is overwritten in the map.\<close>

fun allocate_into :: "nat \<Rightarrow> pointer_allocator \<Rightarrow> (ustr \<rightharpoonup> ustr) \<Rightarrow> ustr list \<Rightarrow> pointer_allocator \<times> (ustr \<rightharpoonup> ustr)" where
  "allocate_into source a pm [] = (a, pm)"
| "allocate_into source a pm (x # xs) =
     (let (a', n) = allocate a x source in allocate_into source a' (pm(x \<mapsto> n)) xs)"

text \<open>The lines of a record after rewriting and date normalisation, with the two flags it sets.\<close>

definition rewrite_record :: "(ustr \<Rightarrow> (nat \<times> nat \<times> nat) option) \<Rightarrow> (ustr \<rightharpoonup> ustr) \<Rightarrow> ustr \<Rightarrow> gedcom_record
    \<Rightarrow> gedcom_error + gedcom_record \<times> bool \<times> bool" where
  "rewrite_record calendar pm path r =
     bindE (mapE (\<lambda>line. rewrite_xrefs line pm) (gr_lines r)) (\<lambda>rewritten.
     bindE (normalise_record_dates_with_metadata calendar rewritten) (\<lambda>(lines, extensions).
       Inr (\<lparr>gr_lines = lines, gr_source_file = path, gr_sequence = gr_sequence r, gr_encoding = gr_encoding r\<rparr>,
            extensions, length (gr_lines r) < length lines)))"

definition at_line :: "gedcom_error + 'a \<Rightarrow> loader_error + 'a" where
  "at_line m = (case m of Inl e \<Rightarrow> Inl (LineError e) | Inr x \<Rightarrow> Inr x)"

text \<open>The pointers of one source in the order they are allocated: the declared ones record by record,
  then the other exact references in sorted order.\<close>

definition source_xrefs :: "gedcom_record list \<Rightarrow> gedcom_error + ustr list" where
  "source_xrefs records =
     bindE (mapE record_pointer records) (\<lambda>pointers.
     bindE (mapE (\<lambda>r. exact_pointer_references (gr_lines r)) records) (\<lambda>refs.
       let declared = filter (\<lambda>p. p \<noteq> []) pointers in
       Inr (declared @ sort (remdups (filter (\<lambda>x. x \<notin> set declared) (concat refs))))))"

definition load_source :: "(ustr \<Rightarrow> (nat \<times> nat \<times> nat) option) \<Rightarrow> file_limit \<Rightarrow> bool \<Rightarrow> nat \<Rightarrow> ustr \<Rightarrow> text_item list
    \<Rightarrow> pointer_allocator \<Rightarrow> loader_error + pointer_allocator \<times> parsed_source" where
  "load_source calendar limit validate source_number path items a =
     bindE (case iter_gedcom_records limit path items of
              Inl (LineError e) \<Rightarrow> Inl (PathError path e) | res \<Rightarrow> res) (\<lambda>records.
     bindE (if validate then at_line (validate_input_document_structure records) else Inr ()) (\<lambda>_.
     bindE (at_line (source_xrefs records)) (\<lambda>xrefs.
       let (a', pm) = allocate_into source_number a Map.empty xrefs in
       bindE (at_line (mapE (rewrite_record calendar pm path) records)) (\<lambda>rewritten.
         Inr (a', \<lparr>ps_path = path, ps_records = map fst rewritten, ps_pointer_map = pm,
                   ps_normalized_dates = list_ex (\<lambda>(r, ext, dates). dates) rewritten,
                   ps_preserved_extensions = list_ex (\<lambda>(r, ext, dates). ext) rewritten\<rparr>)))))"

fun load_from :: "(ustr \<Rightarrow> (nat \<times> nat \<times> nat) option) \<Rightarrow> file_limit \<Rightarrow> bool \<Rightarrow> nat \<Rightarrow> pointer_allocator
    \<Rightarrow> (ustr \<times> text_item list) list \<Rightarrow> loader_error + parsed_source list" where
  "load_from calendar limit validate n a [] = Inr []"
| "load_from calendar limit validate n a ((path, items) # files) =
     bindE (load_source calendar limit validate n path items a) (\<lambda>(a', source).
     bindE (load_from calendar limit validate (n + 1) a' files) (\<lambda>sources. Inr (source # sources)))"

definition load_sources :: "(ustr \<Rightarrow> (nat \<times> nat \<times> nat) option) \<Rightarrow> file_limit \<Rightarrow> bool
    \<Rightarrow> (ustr \<times> text_item list) list \<Rightarrow> loader_error + parsed_source list" where
  "load_sources calendar limit validate files = load_from calendar limit validate 1 new_allocator files"

text \<open>The names a source is given are new to the allocator, pairwise different, and taken afterwards.\<close>

lemma allocate_into_issued:
  "allocate_into source a pm xs =
   (fst (allocator.issue_all a (map (\<lambda>x. (x, source)) xs)),
    pm(xs [\<mapsto>] snd (allocator.issue_all a (map (\<lambda>x. (x, source)) xs))))"
  by (induction xs arbitrary: a pm) (auto simp: case_prod_beta Let_def)

lemma map_upds_source:
  "(m(xs [\<mapsto>] ys)) x = Some n \<Longrightarrow> length xs = length ys \<Longrightarrow>
   m x = Some n \<or> (\<exists>i < length xs. xs ! i = x \<and> ys ! i = n)"
proof (induction xs arbitrary: m ys)
  case (Cons z zs)
  then obtain w ws where ys: "ys = w # ws" by (cases ys) auto
  with Cons.prems have "((m(z \<mapsto> w))(zs [\<mapsto>] ws)) x = Some n" "length zs = length ws" by simp_all
  from Cons.IH [OF this] show ?case
  proof (elim disjE exE conjE)
    assume "(m(z \<mapsto> w)) x = Some n"
    then show ?thesis by (cases "x = z") (auto simp: ys intro: exI [of _ 0])
  next
    fix i assume "i < length zs" "zs ! i = x" "ws ! i = n"
    then show ?thesis by (auto simp: ys intro: exI [of _ "Suc i"])
  qed
qed simp

lemma allocate_into_spec:
  assumes "allocate_into source a Map.empty xs = (a', pm)"
  shows "dom pm = set xs" and "set (pa_used a') = set (pa_used a) \<union> snd ` set (zip xs (snd (allocator.issue_all a (map (\<lambda>x. (x, source)) xs))))"
    and "\<And>x n. pm x = Some n \<Longrightarrow> n \<in> set (pa_used a') - set (pa_used a)"
    and "\<And>x y n. pm x = Some n \<Longrightarrow> pm y = Some n \<Longrightarrow> x = y"
proof -
  let ?ns = "snd (allocator.issue_all a (map (\<lambda>x. (x, source)) xs))"
  have len: "length ?ns = length xs" by (simp add: allocator.issue_all_length)
  have a': "a' = fst (allocator.issue_all a (map (\<lambda>x. (x, source)) xs))" and pm: "pm = [xs [\<mapsto>] ?ns]"
    using assms by (simp_all add: allocate_into_issued)
  note taken = allocator.issue_all_taken [of a "map (\<lambda>x. (x, source)) xs"]
    and fresh = allocator.issue_all_fresh [of a "map (\<lambda>x. (x, source)) xs"]
  show "dom pm = set xs" using len by (simp add: pm)
  show "set (pa_used a') = set (pa_used a) \<union> snd ` set (zip xs ?ns)"
    using taken len by (simp add: a' set_map [symmetric] del: set_map)
  have idx: "\<exists>i < length xs. xs ! i = x \<and> ?ns ! i = n" if "pm x = Some n" for x n
    using map_upds_source [of Map.empty xs ?ns x n] that len by (simp add: pm)
  show "n \<in> set (pa_used a') - set (pa_used a)" if "pm x = Some n" for x n
  proof -
    have "n \<in> set ?ns" using idx [OF that] len by (metis nth_mem)
    then show ?thesis using taken fresh by (auto simp: a')
  qed
  show "x = y" if "pm x = Some n" "pm y = Some n" for x y n
    using idx [OF that(1)] idx [OF that(2)] fresh len by (metis nth_eq_iff_index_eq)
qed

text \<open>A name of the map of one source and a name of the map of a later source differ.\<close>

definition namespaces :: "pointer_allocator \<Rightarrow> (ustr \<rightharpoonup> ustr) list \<Rightarrow> bool" where
  "namespaces a pms \<longleftrightarrow>
     (\<forall>i < length pms. \<forall>x n. (pms ! i) x = Some n \<longrightarrow> n \<notin> set (pa_used a)
        \<and> (\<forall>j < length pms. \<forall>y. (pms ! j) y = Some n \<longrightarrow> i = j \<and> x = y))"

lemma at_line_Inr [result_simps]: "at_line m = Inr x \<longleftrightarrow> m = Inr x"
  by (cases m) (simp_all add: at_line_def)

lemma at_path_Inr [result_simps]:
  "(case m of Inl (LineError e) \<Rightarrow> Inl (PathError path e) | res \<Rightarrow> res) = Inr x \<longleftrightarrow> m = Inr x"
  by (auto split: sum.splits loader_error.splits)

lemma load_source_Inr:
  assumes "load_source calendar limit validate n path items a = Inr (a', s)"
  shows "\<exists>records xrefs. iter_gedcom_records limit path items = Inr records \<and> source_xrefs records = Inr xrefs
    \<and> allocate_into n a Map.empty xrefs = (a', ps_pointer_map s)"
  using assms unfolding load_source_def result_simps Let_def case_prod_beta
  by (auto simp: prod_eq_iff)

lemma namespaces_Cons:
  assumes pm: "\<And>x n. pm x = Some n \<Longrightarrow> n \<in> set (pa_used a') - set (pa_used a)"
    and inj: "\<And>x y n. pm x = Some n \<Longrightarrow> pm y = Some n \<Longrightarrow> x = y"
    and sub: "set (pa_used a) \<subseteq> set (pa_used a')" and rest: "namespaces a' pms"
  shows "namespaces a (pm # pms)"
  unfolding namespaces_def
proof (intro allI impI)
  fix i x n assume i: "i < length (pm # pms)" and x: "((pm # pms) ! i) x = Some n"
  show "n \<notin> set (pa_used a) \<and> (\<forall>j < length (pm # pms). \<forall>y. ((pm # pms) ! j) y = Some n \<longrightarrow> i = j \<and> x = y)"
  proof (cases i)
    case 0
    with x have "pm x = Some n" by simp
    moreover have "(pms ! k) y \<noteq> Some n" if "k < length pms" for k y
      using pm [OF calculation] rest that unfolding namespaces_def by blast
    ultimately show ?thesis using pm inj 0 by (auto simp: nth_Cons split: nat.split)
  next
    case (Suc k)
    with i x have k: "k < length pms" "(pms ! k) x = Some n" by simp_all
    with rest have "n \<notin> set (pa_used a')" and
      "\<And>j y. j < length pms \<Longrightarrow> (pms ! j) y = Some n \<Longrightarrow> k = j \<and> x = y"
      unfolding namespaces_def by blast+
    then show ?thesis using pm sub Suc by (auto simp: nth_Cons split: nat.split)
  qed
qed

lemma load_from_namespaces:
  assumes "load_from calendar limit validate n a files = Inr sources"
  shows "namespaces a (map ps_pointer_map sources)"
  using assms
proof (induction files arbitrary: n a sources)
  case Nil
  then show ?case by (simp add: namespaces_def)
next
  case (Cons f files)
  obtain path items where f: "f = (path, items)" by (cases f)
  from Cons.prems obtain a' s ss where s: "load_source calendar limit validate n path items a = Inr (a', s)"
    and ss: "load_from calendar limit validate (n + 1) a' files = Inr ss" "sources = s # ss"
    by (auto simp: f bindE_Inr_iff)
  from load_source_Inr [OF s] obtain xrefs where "allocate_into n a Map.empty xrefs = (a', ps_pointer_map s)" by blast
  note spec = allocate_into_spec [OF this]
  have "namespaces a (ps_pointer_map s # map ps_pointer_map ss)"
    by (rule namespaces_Cons [OF spec(3,4) _ Cons.IH [OF ss(1)]]) (use spec(2) in blast)+
  then show ?case by (simp add: ss)
qed

text \<open>C1: Over all loaded sources no two pointers are given the same name: a name stands for one original
  pointer of one source, so a dangling reference of one file can never meet a record of another.\<close>

theorem load_sources_namespaces:
  assumes "load_sources calendar limit validate files = Inr sources"
    and "i < length sources" and "j < length sources"
    and "ps_pointer_map (sources ! i) x = Some n" and "ps_pointer_map (sources ! j) y = Some n"
  shows "i = j \<and> x = y"
  using load_from_namespaces [OF assms(1) [unfolded load_sources_def]] assms(2-)
  unfolding namespaces_def by simp

definition plain_items :: "string list \<Rightarrow> text_item list" where
  "plain_items ls = map (\<lambda>l. \<lparr>ti_text = u l, ti_bytes = length l, ti_encoding = u ''utf-8''\<rparr>) ls"

lemma load_sources_namespaces_witness:
  "\<exists>sources. load_sources (\<lambda>_. None) (default_limit Gedcom) True
      [(u ''a'', plain_items [''0 HEAD'', ''0 @I1@ INDI'', ''1 FAMS @F9@'', ''0 TRLR'']),
       (u ''b'', plain_items [''0 HEAD'', ''0 @I1@ INDI'', ''1 FAMS @F9@'', ''0 TRLR''])] = Inr sources
    \<and> ps_pointer_map (sources ! 0) (u ''@I1@'') = Some (u ''@I1@'')
    \<and> (\<forall>y. ps_pointer_map (sources ! 1) y \<noteq> Some (u ''@I1@''))"
proof -
  let ?load = "load_sources (\<lambda>_. None) (default_limit Gedcom) True
      [(u ''a'', plain_items [''0 HEAD'', ''0 @I1@ INDI'', ''1 FAMS @F9@'', ''0 TRLR'']),
       (u ''b'', plain_items [''0 HEAD'', ''0 @I1@ INDI'', ''1 FAMS @F9@'', ''0 TRLR''])]"
  have "case ?load of Inl e \<Rightarrow> False | Inr sources \<Rightarrow> length sources = 2
      \<and> ps_pointer_map (sources ! 0) (u ''@I1@'') = Some (u ''@I1@'')"
    by code_simp
  then obtain sources where s: "?load = Inr sources" "length sources = 2"
    "ps_pointer_map (sources ! 0) (u ''@I1@'') = Some (u ''@I1@'')"
    by (auto split: sum.splits)
  have "ps_pointer_map (sources ! 1) y \<noteq> Some (u ''@I1@'')" for y
    using load_sources_namespaces [OF s(1), of 0 1 "u ''@I1@''" "u ''@I1@''" y] s(2,3) by auto
  with s show ?thesis by blast
qed

section \<open>The records of a file\<close>

definition line_level :: "ustr \<Rightarrow> nat option" where
  "line_level l = (case parse_gedcom_line 0 l of Inl e \<Rightarrow> None | Inr p \<Rightarrow> Some (gl_level p))"

definition content_lines :: "text_item list \<Rightarrow> ustr list" where
  "content_lines items = map item_line (filter (\<lambda>i. \<not> blank i) items)"

definition group_ok :: "file_limit \<Rightarrow> ustr list \<Rightarrow> bool" where
  "group_ok limit ls \<longleftrightarrow> ls \<noteq> [] \<and> (\<forall>l \<in> set (tl ls). line_level l \<noteq> Some 0)
     \<and> (\<forall>l \<in> set ls. \<exists>n. line_level l = Some n \<and> \<not> exceeds (fl_max_nesting limit) n)
     \<and> \<not> exceeds (fl_max_collection_items limit) (length ls)"

text \<open>The groups of lines of the yielded records and of the open one.\<close>

definition groups :: "reader_state \<Rightarrow> ustr list list" where
  "groups st = map gr_lines (rs_records st) @ (if rs_current st = [] then [] else [rs_current st])"

definition reader_inv :: "file_limit \<Rightarrow> text_item list \<Rightarrow> reader_state \<Rightarrow> bool" where
  "reader_inv limit done st \<longleftrightarrow>
     concat (groups st) = content_lines done \<and> (\<forall>g \<in> set (groups st). group_ok limit g)
     \<and> (\<forall>g \<in> set (tl (groups st)). line_level (hd g) = Some 0)
     \<and> map gr_sequence (rs_records st) = [0 ..< length (rs_records st)]
     \<and> rs_sequence st = length (rs_records st) \<and> rs_lines st = length (rs_current st)
     \<and> (rs_current st = [] \<longrightarrow> rs_records st = [])
     \<and> (\<forall>l \<in> set (rs_current st). \<forall>n. line_level l = Some n \<longrightarrow> n \<le> rs_nesting st)
     \<and> \<not> exceeds (fl_max_records limit) (length (groups st))"

lemma line_level_parse: "parse_gedcom_line n l = Inr p \<Longrightarrow> line_level l = Some (gl_level p)"
  using parse_line_number [of n l p 0] by (simp add: line_level_def)

lemma close_record_inv:
  assumes inv: "reader_inv limit done st"
  shows "groups (close_record path 0 st) = groups st" and "rs_current (close_record path 0 st) = []"
    and "map gr_sequence (rs_records (close_record path 0 st)) = [0 ..< length (rs_records (close_record path 0 st))]"
    and "rs_sequence (close_record path 0 st) = length (rs_records (close_record path 0 st))"
    and "rs_lines (close_record path 0 st) = 0"
  using inv by (auto simp: close_record_def reader_inv_def groups_def)

lemma add_line_Inr:
  assumes "add_line limit item level st = Inr st'"
  shows "st' = st\<lparr>rs_bytes := rs_bytes st + ti_bytes item, rs_lines := rs_lines st + 1,
            rs_nesting := max (rs_nesting st) level, rs_current := rs_current st @ [item_line item]\<rparr>
    \<and> \<not> exceeds (fl_max_records limit) (rs_sequence st + 1) \<and> \<not> exceeds (fl_max_nesting limit) (max (rs_nesting st) level)
    \<and> \<not> exceeds (fl_max_collection_items limit) (rs_lines st + 1)"
  using assms by (auto simp: add_line_def Let_def validate_record_Inr split: sum.splits)

lemma content_lines_append: "content_lines (is @ [i]) = content_lines is @ (if blank i then [] else [item_line i])"
  by (simp add: content_lines_def)

lemma reader_inv_open:
  assumes inv: "reader_inv limit done st" and add: "add_line limit item 0 (close_record path 0 st) = Inr st'"
    and item: "\<not> blank item" "line_level (item_line item) = Some 0"
  shows "reader_inv limit (done @ [item]) st'"
proof -
  let ?c = "close_record path 0 st"
  note c = close_record_inv [OF inv, of path] and a = add_line_Inr [OF add]
  have g: "groups st' = groups st @ [[item_line item]]" and cur: "rs_current st' = [item_line item]"
    using a c(1,2) by (auto simp: groups_def)
  have records: "groups st = map gr_lines (rs_records ?c)" using c(1,2) by (auto simp: groups_def)
  then have n: "length (groups st) = rs_sequence ?c" using c(4) by simp
  have "group_ok limit [item_line item]" using a item c(5) by (auto simp: group_ok_def exceeds_def split: option.splits)
  moreover have "tl (groups st') = (if groups st = [] then [] else tl (groups st) @ [[item_line item]])"
    by (simp add: g tl_append split: list.split)
  ultimately show ?thesis
    using inv a c(3-5) g cur item records n unfolding reader_inv_def content_lines_append
    by (auto split: if_splits)
qed

lemma reader_inv_extend:
  assumes inv: "reader_inv limit done st" and add: "add_line limit item level st = Inr st'" and level: "level \<noteq> 0"
    and item: "\<not> blank item" "line_level (item_line item) = Some level"
  shows "reader_inv limit (done @ [item]) st'"
proof -
  note a = add_line_Inr [OF add]
  let ?cur = "rs_current st @ [item_line item]"
  have g: "groups st' = map gr_lines (rs_records st) @ [?cur]" and cur: "rs_current st' = ?cur"
    using a by (auto simp: groups_def)
  have old: "rs_current st = [] \<longrightarrow> rs_records st = []" and n: "rs_sequence st = length (rs_records st)"
    and lines: "rs_lines st = length (rs_current st)"
    using inv by (auto simp: reader_inv_def)
  have G: "groups st = map gr_lines (rs_records st) @ (if rs_current st = [] then [] else [rs_current st])"
    by (simp add: groups_def)
  have open_ok: "rs_current st \<noteq> [] \<longrightarrow> group_ok limit (rs_current st)"
    and heads: "rs_records st \<noteq> [] \<longrightarrow> line_level (hd (rs_current st)) = Some 0"
    using inv old unfolding reader_inv_def G by (auto simp: tl_append split: list.splits)
  have "group_ok limit ?cur"
    using open_ok a item level lines by (cases "rs_current st") (auto simp: group_ok_def exceeds_def split: option.splits)
  moreover have "tl (groups st') = (if rs_records st = [] then [] else tl (map gr_lines (rs_records st)) @ [?cur])"
    by (simp add: g tl_append split: list.split)
  moreover have "\<forall>g \<in> set (tl (map gr_lines (rs_records st))). line_level (hd g) = Some 0"
    using inv unfolding reader_inv_def G by (cases "rs_records st") auto
  moreover have "line_level (hd ?cur) = Some 0" if "rs_records st \<noteq> []"
    using that heads old by (cases "rs_current st") auto
  ultimately show ?thesis
    using inv a g cur item n old unfolding reader_inv_def content_lines_append G
    by (auto split: if_splits)
qed

lemma reader_inv_update: "reader_inv limit done (st\<lparr>rs_encoding := e\<rparr>) = reader_inv limit done st"
    "reader_inv limit done (st\<lparr>rs_content := b\<rparr>) = reader_inv limit done st"
  by (simp_all add: reader_inv_def groups_def)

lemma reader_step_inv:
  assumes step: "reader_step limit path st (n, item) = Inr st'" and inv: "reader_inv limit done st"
    and content: "rs_content st \<longrightarrow> rs_current st \<noteq> []"
  shows "reader_inv limit (done @ [item]) st' \<and> (rs_content st' \<longrightarrow> rs_current st' \<noteq> [])"
proof (cases "blank item")
  case True
  with step have "st' = st\<lparr>rs_encoding := ti_encoding item\<rparr>" by (simp add: reader_step_def Let_def)
  moreover have "reader_inv limit (done @ [item]) st" using inv True by (simp add: reader_inv_def content_lines_append)
  ultimately show ?thesis using content by (simp add: reader_inv_update)
next
  case False
  let ?st = "st\<lparr>rs_encoding := ti_encoding item, rs_content := True\<rparr>"
  from step False obtain p where p: "parse_gedcom_line n (item_line item) = Inr p"
    and add: "add_line limit item (gl_level p) (close_record path (gl_level p) ?st) = Inr st'"
    by (auto simp: reader_step_def Let_def split: sum.splits)
  have inv': "reader_inv limit done ?st" using inv by (simp add: reader_inv_update)
  have cur: "rs_current st' \<noteq> []" using add_line_Inr [OF add] by simp
  note level = line_level_parse [OF p]
  show ?thesis
  proof (cases "gl_level p = 0")
    case True
    with add level reader_inv_open [OF inv' _ False] cur show ?thesis by simp
  next
    case deeper: False
    then have "close_record path (gl_level p) ?st = ?st" by (simp add: close_record_def)
    with add level reader_inv_extend [OF inv' _ deeper False] cur show ?thesis by simp
  qed
qed

lemma reader_fold_inv:
  "foldE (reader_step limit path) st (zip ns items) = Inr st' \<Longrightarrow> length ns = length items \<Longrightarrow>
   reader_inv limit done st \<Longrightarrow> (rs_content st \<longrightarrow> rs_current st \<noteq> []) \<Longrightarrow>
   reader_inv limit (done @ items) st' \<and> (rs_content st' \<longrightarrow> rs_current st' \<noteq> [])"
proof (induction items arbitrary: ns st "done")
  case (Cons item items)
  then obtain n ms where ns: "ns = n # ms" "length ms = length items" by (cases ns) auto
  with Cons.prems(1) obtain a where a: "reader_step limit path st (n, item) = Inr a"
    "foldE (reader_step limit path) a (zip ms items) = Inr st'" by (auto simp: bindE_Inr_iff)
  from reader_step_inv [OF a(1) Cons.prems(3,4)] Cons.IH [OF a(2) ns(2), of "done @ [item]"]
  show ?case by simp
qed simp

text \<open>C5: Reading a file keeps every line that is not blank, in order: the records are those lines cut
  before each line of level zero and nowhere else, numbered from 0; every line of them is a
  parseable line within the nesting limit, and the numbers of records and of lines in a record are
  within their limits.\<close>

theorem iter_gedcom_records_partition:
  assumes "iter_gedcom_records limit path items = Inr records"
  shows "concat (map gr_lines records) = content_lines items \<and> records \<noteq> []
    \<and> (\<forall>r \<in> set records. group_ok limit (gr_lines r))
    \<and> (\<forall>r \<in> set (tl records). line_level (hd (gr_lines r)) = Some 0)
    \<and> map gr_sequence records = [0 ..< length records] \<and> \<not> exceeds (fl_max_records limit) (length records)"
proof -
  from assms obtain st where st: "foldE (reader_step limit path) reader_start (zip [1 ..< length items + 1] items) = Inr st"
    and content: "rs_content st" and records: "records = rs_records (close_record path 0 st)"
    by (auto simp: iter_gedcom_records_def bindE_Inr_iff split: if_splits)
  have "reader_inv limit [] reader_start"
    by (simp add: reader_inv_def reader_start_def groups_def content_lines_def exceeds_def split: option.split)
  moreover have "length [1 ..< length items + 1] = length items"
    by (simp only: length_upt add_diff_cancel_right')
  moreover have "\<not> rs_content reader_start" by (simp add: reader_start_def)
  ultimately have "reader_inv limit ([] @ items) st" and "rs_current st \<noteq> []"
    using reader_fold_inv [OF st] content by blast+
  then have inv: "reader_inv limit items st" by simp
  note c = close_record_inv [OF inv, of path]
  have g: "groups st = map gr_lines records" and "groups st \<noteq> []"
    using c(1,2) \<open>rs_current st \<noteq> []\<close> by (auto simp: groups_def records)
  then have "tl (groups st) = map gr_lines (tl records)" by (simp add: map_tl)
  with inv c(3) g \<open>groups st \<noteq> []\<close> show ?thesis
    unfolding reader_inv_def records [symmetric] by auto
qed

lemma iter_gedcom_records_partition_witness:
  "\<exists>records. iter_gedcom_records (default_limit Gedcom) (u ''a'')
      (plain_items [''0 HEAD'', '' '', ''1 CHAR UTF-8'', ''0 TRLR'']) = Inr records
    \<and> concat (map gr_lines records) = map u [''0 HEAD'', ''1 CHAR UTF-8'', ''0 TRLR'']"
proof -
  let ?items = "plain_items [''0 HEAD'', '' '', ''1 CHAR UTF-8'', ''0 TRLR'']"
  have "case iter_gedcom_records (default_limit Gedcom) (u ''a'') ?items of Inl e \<Rightarrow> False | Inr r \<Rightarrow> True"
    by code_simp
  then obtain records where r: "iter_gedcom_records (default_limit Gedcom) (u ''a'') ?items = Inr records"
    by (auto split: sum.splits)
  have "content_lines ?items = map u [''0 HEAD'', ''1 CHAR UTF-8'', ''0 TRLR'']" by code_simp
  then show ?thesis using r conjunct1 [OF iter_gedcom_records_partition [OF r]] by (intro exI [of _ records]) (simp only:)
qed

text \<open>A declared pointer with a character outside the pointer pattern, which the line parser accepts,
  is given a new name in the map but is not rewritten: two loaded sources can then declare the
  same pointer although their maps differ.\<close>

theorem load_sources_unusual_pointer_collides:
  "\<exists>files sources. load_sources (\<lambda>_. None) (default_limit Gedcom) True files = Inr sources
     \<and> length sources = 2 \<and> ps_pointer_map (sources ! 1) (u ''@I.1@'') = Some (u ''@X2_1@'')
     \<and> map record_pointer (ps_records (sources ! 0)) = map record_pointer (ps_records (sources ! 1))
     \<and> Inr (u ''@I.1@'') \<in> set (map record_pointer (ps_records (sources ! 1)))"
proof -
  let ?f = "plain_items [''0 HEAD'', ''0 @I.1@ INDI'', ''0 TRLR'']"
  let ?load = "load_sources (\<lambda>_. None) (default_limit Gedcom) True [(u ''a'', ?f), (u ''b'', ?f)]"
  have "case ?load of Inl e \<Rightarrow> False | Inr sources \<Rightarrow> length sources = 2
     \<and> ps_pointer_map (sources ! 1) (u ''@I.1@'') = Some (u ''@X2_1@'')
     \<and> map record_pointer (ps_records (sources ! 0)) = map record_pointer (ps_records (sources ! 1))
     \<and> list_ex (\<lambda>x. x = Inr (u ''@I.1@'')) (map record_pointer (ps_records (sources ! 1)))"
    by code_simp
  then show ?thesis by (auto simp: list_ex_iff split: sum.splits)
qed

end
