(* ===== verification/Cancel_Token.thy ===== *)
theory Cancel_Token
  imports Py_Text
begin

text \<open>
  The cancellation token of \<open>core/cancellation.py\<close>: a request that is made once, and protected
  sections that defer it. Times are texts handed in from outside. The innermost protected
  section is the head of the list, where the Python list has it last.
\<close>

section \<open>The token\<close>

record cancellation_state =
  cs_requested_at :: "ustr option"
  cs_pending :: bool
  cs_deferred_by :: "ustr option"

record cancellation_token =
  ct_requested_at :: "ustr option"
  ct_deferred :: "ustr list"

datatype cancellation_error = Cancelled | SectionUnnamed | SectionNameTooLong | SectionUnbalanced

definition new_token :: cancellation_token where
  "new_token = \<lparr>ct_requested_at = None, ct_deferred = []\<rparr>"

definition token_state :: "cancellation_token \<Rightarrow> cancellation_state" where
  "token_state t = \<lparr>cs_requested_at = ct_requested_at t,
     cs_pending = (ct_requested_at t \<noteq> None \<and> ct_deferred t \<noteq> []),
     cs_deferred_by = (case ct_deferred t of [] \<Rightarrow> None | op # ops \<Rightarrow> Some op)\<rparr>"

definition token_requested :: "cancellation_token \<Rightarrow> bool" where
  "token_requested t \<longleftrightarrow> ct_requested_at t \<noteq> None"

text \<open>The new token and the state that is notified, which only a first request does.\<close>

definition token_request :: "ustr \<Rightarrow> cancellation_token \<Rightarrow> cancellation_token \<times> cancellation_state option" where
  "token_request now t =
     (if ct_requested_at t = None
      then let t' = t\<lparr>ct_requested_at := Some now\<rparr> in (t', Some (token_state t'))
      else (t, None))"

definition raise_if_cancelled :: "cancellation_token \<Rightarrow> cancellation_error + unit" where
  "raise_if_cancelled t =
     (let s = token_state t in
      if cs_requested_at s \<noteq> None \<and> \<not> cs_pending s then Inl Cancelled else Inr ())"

text \<open>Entering and leaving the context manager \<open>defer\<close>. Leaving notifies a requested state; the check
  that follows an undisturbed body is \<open>raise_if_cancelled\<close>.\<close>

definition defer_enter :: "ustr \<Rightarrow> cancellation_token \<Rightarrow> cancellation_error + cancellation_token" where
  "defer_enter operation t =
     (let normalized = py_strip operation in
      if normalized = [] then Inl SectionUnnamed
      else if length normalized > 200 then Inl SectionNameTooLong
      else if ct_requested_at t \<noteq> None \<and> ct_deferred t = [] then Inl Cancelled
      else Inr (t\<lparr>ct_deferred := normalized # ct_deferred t\<rparr>))"

definition defer_exit :: "cancellation_token \<Rightarrow> cancellation_error + cancellation_token \<times> cancellation_state option" where
  "defer_exit t =
     (case ct_deferred t of
        [] \<Rightarrow> Inl SectionUnbalanced
      | op # ops \<Rightarrow>
          (let t' = t\<lparr>ct_deferred := ops\<rparr> in
           Inr (t', if ct_requested_at t' = None then None else Some (token_state t'))))"

section \<open>Programs over a token\<close>

text \<open>What the thread of a job and the threads that cancel it do with a token. A protected body is a
  program of its own; requests of other threads stand where they fall.\<close>

datatype token_program = Request ustr | Check | Section ustr "token_program list"

text \<open>A check or a refused section stops the program with its error; the section is left on the way
  out, as the \<open>finally\<close> clause does.\<close>

fun run_token :: "token_program list \<Rightarrow> cancellation_token \<Rightarrow> cancellation_token \<times> cancellation_error option" where
  "run_token [] t = (t, None)"
| "run_token (Request now # ps) t = run_token ps (fst (token_request now t))"
| "run_token (Check # ps) t =
     (case raise_if_cancelled t of Inl e \<Rightarrow> (t, Some e) | Inr _ \<Rightarrow> run_token ps t)"
| "run_token (Section op body # ps) t =
     (case defer_enter op t of
        Inl e \<Rightarrow> (t, Some e)
      | Inr t1 \<Rightarrow>
          (let (t2, stopped) = run_token body t1 in
           case defer_exit t2 of
             Inl e \<Rightarrow> (t2, Some e)
           | Inr (t3, _) \<Rightarrow>
               (case stopped of
                  Some e \<Rightarrow> (t3, Some e)
                | None \<Rightarrow>
                    (case raise_if_cancelled t3 of Inl e \<Rightarrow> (t3, Some e) | Inr _ \<Rightarrow> run_token ps t3))))"

lemma token_request_keeps: "ct_deferred (fst (token_request now t)) = ct_deferred t"
    "ct_requested_at t \<noteq> None \<Longrightarrow> fst (token_request now t) = t"
    "ct_requested_at (fst (token_request now t)) \<noteq> None"
  by (auto simp: token_request_def Let_def)

lemma raise_if_cancelled_iff: "raise_if_cancelled t = Inl e \<longleftrightarrow>
    e = Cancelled \<and> ct_requested_at t \<noteq> None \<and> ct_deferred t = []"
  by (auto simp: raise_if_cancelled_def token_state_def Let_def)

lemma raise_if_cancelled_Inr: "raise_if_cancelled t = Inr x \<longleftrightarrow> \<not> (ct_requested_at t \<noteq> None \<and> ct_deferred t = [])"
  by (auto simp: raise_if_cancelled_def token_state_def Let_def)

text \<open>Every program leaves the sections balanced, whatever stops it, and never takes a request back.\<close>

lemma run_token_balanced:
  "ct_deferred (fst (run_token ps t)) = ct_deferred t
   \<and> (ct_requested_at t \<noteq> None \<longrightarrow> ct_requested_at (fst (run_token ps t)) = ct_requested_at t)"
proof (induction ps t rule: run_token.induct)
  case (2 now ps t)
  then show ?case by (auto simp: token_request_keeps)
next
  case (3 ps t)
  then show ?case by (auto split: sum.split)
next
  case (4 op body ps t)
  show ?case
  proof (cases "defer_enter op t")
    case (Inr t1)
    obtain t2 stopped where run: "run_token body t1 = (t2, stopped)" by (cases "run_token body t1")
    from Inr have t1: "t1 = t\<lparr>ct_deferred := py_strip op # ct_deferred t\<rparr>"
      by (auto simp: defer_enter_def Let_def split: if_splits)
    from "4.IH"(1) [OF Inr] run t1 have t2: "ct_deferred t2 = py_strip op # ct_deferred t"
      "ct_requested_at t \<noteq> None \<longrightarrow> ct_requested_at t2 = ct_requested_at t" by auto
    let ?t3 = "t2\<lparr>ct_deferred := ct_deferred t\<rparr>"
    have exit: "defer_exit t2 = Inr (?t3, if ct_requested_at t2 = None then None else Some (token_state ?t3))"
      using t2 by (simp add: defer_exit_def Let_def)
    show ?thesis
    proof (cases stopped)
      case None
      show ?thesis
      proof (cases "raise_if_cancelled ?t3")
        case (Inl e)
        then show ?thesis using None Inr run exit t2 by simp
      next
        case ok: (Inr x)
        have "ct_deferred (fst (run_token ps ?t3)) = ct_deferred ?t3
          \<and> (ct_requested_at ?t3 \<noteq> None \<longrightarrow> ct_requested_at (fst (run_token ps ?t3)) = ct_requested_at ?t3)"
          by (rule "4.IH"(2) [OF Inr run [symmetric] refl exit refl None ok])
        then show ?thesis using None Inr run exit t2 ok by simp
      qed
    qed (use Inr run exit t2 in simp)
  qed simp
qed simp

fun sections_named :: "token_program \<Rightarrow> bool" where
  "sections_named (Section op body) \<longleftrightarrow>
     py_strip op \<noteq> [] \<and> length (py_strip op) \<le> 200 \<and> list_all sections_named body"
| "sections_named _ \<longleftrightarrow> True"

text \<open>Inside a protected section nothing stops a program with well-named sections.\<close>

lemma run_token_protected:
  "list_all sections_named ps \<Longrightarrow> ct_deferred t \<noteq> [] \<Longrightarrow> snd (run_token ps t) = None"
proof (induction ps t rule: run_token.induct)
  case (2 now ps t)
  then show ?case by (simp add: token_request_keeps)
next
  case (3 ps t)
  then show ?case by (auto simp: raise_if_cancelled_def token_state_def Let_def)
next
  case (4 op body ps t)
  let ?t1 = "t\<lparr>ct_deferred := py_strip op # ct_deferred t\<rparr>"
  from "4.prems" have enter: "defer_enter op t = Inr ?t1" by (simp add: defer_enter_def Let_def)
  obtain t2 stopped where run: "run_token body ?t1 = (t2, stopped)" by (cases "run_token body ?t1")
  have none: "stopped = None" using "4.IH"(1) [OF enter] "4.prems" run by simp
  have t2: "ct_deferred t2 = py_strip op # ct_deferred t" using run_token_balanced [of body ?t1] run by simp
  let ?t3 = "t2\<lparr>ct_deferred := ct_deferred t\<rparr>"
  have exit: "defer_exit t2 = Inr (?t3, if ct_requested_at t2 = None then None else Some (token_state ?t3))"
    using t2 by (simp add: defer_exit_def Let_def)
  have ok: "raise_if_cancelled ?t3 = Inr ()" using "4.prems" by (simp add: raise_if_cancelled_Inr)
  have "snd (run_token ps ?t3) = None"
    by (rule "4.IH"(2) [OF enter run [symmetric] refl exit refl none ok]) (use "4.prems" in simp_all)
  then show ?case using enter run exit none ok by simp
qed simp

text \<open>C14: A protected section that is entered runs its whole body, whatever requests fall into it;
  a request that was made by its end stops the program right after the outermost section, and
  nothing of the rest of the program runs.\<close>

theorem protected_section_completes:
  assumes "list_all sections_named body" and "defer_enter op t = Inr t1"
  shows "snd (run_token body t1) = None
    \<and> (ct_deferred t = [] \<and> ct_requested_at (fst (run_token body t1)) \<noteq> None \<longrightarrow>
       run_token (Section op body # ps) t
         = ((fst (run_token body t1))\<lparr>ct_deferred := []\<rparr>, Some Cancelled))"
proof -
  have t1: "t1 = t\<lparr>ct_deferred := py_strip op # ct_deferred t\<rparr>"
    using assms(2) by (auto simp: defer_enter_def Let_def split: if_splits)
  then have none: "snd (run_token body t1) = None" using run_token_protected [OF assms(1)] by simp
  obtain t2 where run: "run_token body t1 = (t2, None)" using none by (cases "run_token body t1") simp
  have "ct_deferred t2 = py_strip op # ct_deferred t" using run_token_balanced [of body t1] run t1 by simp
  then show ?thesis
    using run assms(2) by (auto simp: defer_exit_def Let_def raise_if_cancelled_def token_state_def)
qed

lemma protected_section_completes_witness:
  "run_token [Section (u ''publish'') [Check, Request (u ''t1''), Check, Section (u ''rename'') [Check]], Request (u ''t2'')] new_token
   = (\<lparr>ct_requested_at = Some (u ''t1''), ct_deferred = []\<rparr>, Some Cancelled)"
proof -
  let ?body = "[Check, Request (u ''t1''), Check, Section (u ''rename'') [Check]]"
  let ?t1 = "\<lparr>ct_requested_at = None, ct_deferred = [u ''publish'']\<rparr>"
  have enter: "defer_enter (u ''publish'') new_token = Inr ?t1" by code_simp
  have named: "list_all sections_named ?body" by code_simp
  have run: "run_token ?body ?t1 = (\<lparr>ct_requested_at = Some (u ''t1''), ct_deferred = [u ''publish'']\<rparr>, None)"
    by code_simp
  show ?thesis
    using protected_section_completes [OF named enter, of "[Request (u ''t2'')]"] run
    by (simp add: new_token_def)
qed

end
