(* ===== verification/Job_Manager.thy ===== *)
theory Job_Manager
  imports Cancel_Token
begin

text \<open>
  The job manager of \<open>core/jobs.py\<close>. Every section the code runs under its lock is one
  operation here, and an execution is any interleaving of operations; a worker is the local state
  of one \<open>_execute\<close> call. The thread pool is taken at its documented word: submitted work
  runs once, unless its future is cancelled before it starts. A result is a value of the type
  \<open>'r\<close>, and \<open>None\<close> is Python's. Redaction and the keyed digest of resource
  names are arguments; a redaction that raises or returns no string is \<open>None\<close>.
\<close>

section \<open>Data\<close>

datatype job_state = JQueued | JRunning | JCompleted | JFailed | JCancelled

record progress_event =
  pe_operation :: ustr
  pe_timestamp :: ustr
  pe_completed :: "int option"
  pe_total :: "int option"

record 'r job_snapshot =
  js_job_id :: ustr
  js_name :: ustr
  js_state :: job_state
  js_submitted_at :: ustr
  js_started_at :: "ustr option"
  js_finished_at :: "ustr option"
  js_resource_keys :: "ustr list"
  js_result :: "'r option"
  js_outcome_summary :: "ustr option"
  js_next_action :: "ustr option"
  js_error_code :: "ustr option"
  js_error_message :: "ustr option"
  js_error_remediation :: "ustr option"
  js_progress :: "progress_event option"
  js_cancellation_requested_at :: "ustr option"
  js_cancellation_pending :: bool
  js_cancellation_deferred_by :: "ustr option"

record 'r job_record =
  jr_snapshot :: "'r job_snapshot"
  jr_token :: cancellation_token
  jr_resource_keys :: "ustr list"
  jr_resource_locks :: "nat list"
  jr_result_cleanup :: bool
  jr_future :: bool
  jr_cancellation_was_deferred :: bool
  jr_cancellation_accepted_at :: "ustr option"
  jr_result_discarded :: bool

text \<open>How far a worker is. Before its future runs it is only scheduled.\<close>

datatype failure = Ancestry ustr ustr "ustr option" | Other_Failure

datatype 'r phase =
    Unsubmitted | Scheduled | Acquiring | Ready | Working | Returned "'r option"
  | Completing "'r option" | Cancelling "'r option" | Failing failure | Finishing

record 'r worker =
  wk_keys :: "ustr list"
  wk_locks :: "nat list"
  wk_acquired :: nat
  wk_phase :: "'r phase"

text \<open>The manager, with what its callbacks were given: \<open>jm_cleaned\<close> lists the results handed to
  cleanup callbacks and \<open>jm_notified\<close> the snapshots handed to listeners. \<open>jm_reserving\<close>
  are the submissions between their two locked sections, \<open>jm_undelivered\<close> the token states
  notified and not yet taken in.\<close>

record 'r job_manager =
  jm_max_pending :: nat
  jm_capacity :: nat
  jm_records :: "(ustr \<times> 'r job_record) list"
  jm_workers :: "ustr \<rightharpoonup> 'r worker"
  jm_resource_locks :: "ustr \<rightharpoonup> nat \<times> nat"
  jm_next_lock :: nat
  jm_held :: "nat \<rightharpoonup> ustr"
  jm_next_id :: nat
  jm_closed :: bool
  jm_reserving :: "(ustr \<times> ustr list \<times> bool) list"
  jm_undelivered :: "(ustr \<times> cancellation_state) list"
  jm_cleaned :: "(ustr \<times> 'r) list"
  jm_notified :: "'r job_snapshot list"

datatype job_error =
    TextEmpty ustr
  | TextTooLong ustr
  | TooManyResourceKeys
  | ResourceKeyTooLarge
  | JobLimits
  | JobStartId
  | QueueFull nat
  | ManagerClosed
  | IdentifierExhausted
  | JobNotFound ustr
  | ProgressIncomplete
  | ProgressRange
  | TokenError cancellation_error
  | LockIdentityChanged
  | LockMissing ustr
  | NotEnabled

section \<open>Validation\<close>

definition validate_bounded_text :: "ustr \<Rightarrow> ustr \<Rightarrow> nat \<Rightarrow> job_error + ustr" where
  "validate_bounded_text value label maximum =
     (if py_strip value = [] then Inl (TextEmpty label)
      else if 0 \<in> set value \<or> length value > maximum then Inl (TextTooLong label)
      else Inr value)"

definition code_char :: "nat \<Rightarrow> bool" where
  "code_char c \<longleftrightarrow> is_alpha c \<or> is_digit c \<or> c \<in> {46, 95, 58, 45}"

definition valid_error_code :: "ustr \<Rightarrow> bool" where
  "valid_error_code value \<longleftrightarrow> 1 \<le> length value \<and> length value \<le> 96 \<and> list_all code_char value"

definition validate_submission :: "ustr \<Rightarrow> ustr list \<Rightarrow> job_error + ustr list" where
  "validate_submission name resource_keys =
     bindE (validate_bounded_text name (u ''Job name'') 256) (\<lambda>_.
     if length resource_keys > 32 then Inl TooManyResourceKeys
     else bindE (mapE (\<lambda>k. bindE (validate_bounded_text k (u ''Background job resource key'') 4096) (\<lambda>_.
            if utf8_len k > 4096 then Inl ResourceKeyTooLarge else Inr k)) resource_keys) (\<lambda>_.
       Inr (sort (remdups resource_keys))))"

definition max_job_id_number :: nat where
  "max_job_id_number = 999999999999"

definition new_job_manager :: "nat \<Rightarrow> nat \<Rightarrow> nat \<Rightarrow> job_error + 'r job_manager" where
  "new_job_manager max_workers max_pending start_id =
     (if \<not> (1 \<le> max_workers \<and> max_workers \<le> 32 \<and> max_workers \<le> max_pending \<and> max_pending \<le> 1024)
      then Inl JobLimits
      else if \<not> (1 \<le> start_id \<and> start_id \<le> max_job_id_number) then Inl JobStartId
      else Inr \<lparr>jm_max_pending = max_pending, jm_capacity = max_pending, jm_records = [], jm_workers = Map.empty,
             jm_resource_locks = Map.empty, jm_next_lock = 0, jm_held = Map.empty, jm_next_id = start_id,
             jm_closed = False, jm_reserving = [], jm_undelivered = [], jm_cleaned = [], jm_notified = []\<rparr>)"

definition validate_admission :: "'r job_manager \<Rightarrow> job_error + unit" where
  "validate_admission m =
     (if jm_closed m then Inl ManagerClosed
      else if jm_next_id m > max_job_id_number then Inl IdentifierExhausted else Inr ())"

section \<open>Resource locks\<close>

text \<open>A lock is a number; an absent key gets a new one.\<close>

definition reserve_resource_lock :: "'r job_manager \<times> nat list \<Rightarrow> ustr \<Rightarrow> 'r job_manager \<times> nat list" where
  "reserve_resource_lock = (\<lambda>(m, locks) key.
     case jm_resource_locks m key of
       None \<Rightarrow> (m\<lparr>jm_resource_locks := (jm_resource_locks m)(key \<mapsto> (jm_next_lock m, 1)),
                 jm_next_lock := jm_next_lock m + 1\<rparr>, locks @ [jm_next_lock m])
     | Some (lock, references) \<Rightarrow>
         (m\<lparr>jm_resource_locks := (jm_resource_locks m)(key \<mapsto> (lock, references + 1))\<rparr>, locks @ [lock]))"

definition reserve_resource_locks :: "'r job_manager \<Rightarrow> ustr list \<Rightarrow> 'r job_manager \<times> nat list" where
  "reserve_resource_locks m keys = foldl reserve_resource_lock (m, []) keys"

definition release_resource_lock :: "'r job_manager \<Rightarrow> ustr \<times> nat \<Rightarrow> job_error + 'r job_manager" where
  "release_resource_lock m = (\<lambda>(key, lock).
     case jm_resource_locks m key of
       None \<Rightarrow> Inl (LockMissing key)
     | Some (current, references) \<Rightarrow>
         if current \<noteq> lock then Inl LockIdentityChanged
         else if references = 1 then Inr (m\<lparr>jm_resource_locks := (jm_resource_locks m)(key := None)\<rparr>)
         else Inr (m\<lparr>jm_resource_locks := (jm_resource_locks m)(key \<mapsto> (lock, references - 1))\<rparr>))"

definition release_resource_locks :: "'r job_manager \<Rightarrow> ustr list \<Rightarrow> nat list \<Rightarrow> job_error + 'r job_manager" where
  "release_resource_locks m keys locks = foldE release_resource_lock m (zip keys locks)"

section \<open>Texts for the outside\<close>

definition redaction_fallback :: ustr where
  "redaction_fallback = u ''Sensitive background job detail was removed.''"

definition bounded_redacted :: "(ustr \<Rightarrow> ustr option) \<Rightarrow> ustr \<Rightarrow> nat \<Rightarrow> ustr" where
  "bounded_redacted redact value maximum =
     (case redact value of
        None \<Rightarrow> redaction_fallback
      | Some redacted \<Rightarrow>
          (let bounded = take maximum (map (\<lambda>c. if c = 0 then 65533 else c) redacted) in
           if py_strip bounded \<noteq> [] then bounded else redaction_fallback))"

definition cancellation_message :: "bool \<Rightarrow> ustr" where
  "cancellation_message was_deferred =
     (if was_deferred
      then u ''Cancellation was acknowledged after a protected operation reached a safe boundary.''
      else u ''The background job acknowledged cancellation at a safe boundary.'')"

text \<open>Python's \<open>x or y\<close> on an optional text.\<close>

definition text_or :: "ustr option \<Rightarrow> ustr \<Rightarrow> ustr" where
  "text_or x y = (case x of None \<Rightarrow> y | Some s \<Rightarrow> if s = [] then y else s)"

section \<open>Transitions of a record\<close>

text \<open>\<open>_transition\<close> with the changes of each of its four callers: the new record and the result its
  cleanup callback is given. A discarded result is never stored again.\<close>

definition store_snapshot :: "'r job_record \<Rightarrow> 'r job_snapshot \<Rightarrow> 'r job_record" where
  "store_snapshot r s = r\<lparr>jr_snapshot := (if jr_result_discarded r then s\<lparr>js_result := None\<rparr> else s)\<rparr>"

definition cancelled_snapshot :: "ustr \<Rightarrow> ustr \<Rightarrow> ustr option \<Rightarrow> 'r job_snapshot \<Rightarrow> 'r job_snapshot" where
  "cancelled_snapshot now message requested_at s =
     s\<lparr>js_state := JCancelled, js_finished_at := Some now, js_result := None, js_outcome_summary := None,
       js_next_action := None, js_error_code := Some (u ''JOB_CANCELLED''), js_error_message := Some message,
       js_error_remediation := None, js_cancellation_requested_at := requested_at,
       js_cancellation_pending := False, js_cancellation_deferred_by := None\<rparr>"

definition transition_running :: "ustr \<Rightarrow> 'r job_record \<Rightarrow> 'r job_record" where
  "transition_running now r =
     store_snapshot r ((jr_snapshot r)\<lparr>js_state := JRunning, js_started_at := Some now\<rparr>)"

definition transition_completed :: "ustr \<Rightarrow> 'r option \<Rightarrow> 'r job_record \<Rightarrow> 'r job_record \<times> 'r option" where
  "transition_completed now result r =
     (let s = jr_snapshot r;
          cleanup = (if jr_result_cleanup r then result else None) in
      if jr_cancellation_accepted_at r \<noteq> None
      then (store_snapshot r (cancelled_snapshot now (cancellation_message (jr_cancellation_was_deferred r))
              (jr_cancellation_accepted_at r) s), cleanup)
      else
        (store_snapshot r (s\<lparr>js_state := JCompleted, js_finished_at := Some now, js_result := result,
           js_outcome_summary := Some (text_or (js_outcome_summary s)
             (if result \<noteq> None then u ''The background job completed and retained its result.''
              else u ''The background job completed.'')),
           js_next_action := Some (text_or (js_next_action s)
             (if result \<noteq> None then u ''Inspect the retained job result.''
              else u ''No follow-up action is required.'')),
           js_error_code := None, js_error_message := None, js_error_remediation := None\<rparr>),
         if jr_result_discarded r then cleanup else None))"

definition transition_cancelled :: "ustr \<Rightarrow> 'r job_record \<Rightarrow> 'r job_record" where
  "transition_cancelled now r =
     store_snapshot r (cancelled_snapshot now (cancellation_message (jr_cancellation_was_deferred r))
       (ct_requested_at (jr_token r)) (jr_snapshot r))"

definition review_remediation :: ustr where
  "review_remediation = u ''Review the coded failure before retrying manually.''"

definition transition_failed :: "(ustr \<Rightarrow> ustr option) \<Rightarrow> ustr \<Rightarrow> failure \<Rightarrow> 'r job_record \<Rightarrow> 'r job_record" where
  "transition_failed redact now f r =
     (let (code, message, remediation) = (case f of
            Ancestry c msg rem \<Rightarrow>
              (if valid_error_code c then c else u ''JOB_FAILED'', bounded_redacted redact msg 2048,
               bounded_redacted redact (text_or rem review_remediation) 2048)
          | Other_Failure \<Rightarrow> (u ''JOB_FAILED'', u ''The background job failed.'', review_remediation)) in
      store_snapshot r ((jr_snapshot r)\<lparr>js_state := JFailed, js_finished_at := Some now,
        js_error_code := Some code, js_error_message := Some message, js_error_remediation := Some remediation,
        js_outcome_summary := None, js_next_action := None\<rparr>))"

definition job_active :: "'r job_snapshot \<Rightarrow> bool" where
  "job_active s \<longleftrightarrow> js_state s = JQueued \<or> js_state s = JRunning"

section \<open>Sections of the manager\<close>

definition notify :: "'r job_snapshot \<Rightarrow> 'r job_manager \<Rightarrow> 'r job_manager" where
  "notify s m = m\<lparr>jm_notified := jm_notified m @ [s]\<rparr>"

definition clean :: "ustr \<Rightarrow> 'r option \<Rightarrow> 'r job_manager \<Rightarrow> 'r job_manager" where
  "clean job_id result m = (case result of None \<Rightarrow> m | Some x \<Rightarrow> m\<lparr>jm_cleaned := jm_cleaned m @ [(job_id, x)]\<rparr>)"

definition put_record :: "ustr \<Rightarrow> 'r job_record \<Rightarrow> 'r job_manager \<Rightarrow> 'r job_manager" where
  "put_record job_id r m = m\<lparr>jm_records := AList.update job_id r (jm_records m)\<rparr>"

definition get_record :: "'r job_manager \<Rightarrow> ustr \<Rightarrow> job_error + 'r job_record" where
  "get_record m job_id = (case map_of (jm_records m) job_id of None \<Rightarrow> Inl (JobNotFound job_id) | Some r \<Rightarrow> Inr r)"

text \<open>\<open>_submit\<close>: the checks and the capacity, then the section that creates the record, then the
  hand-over to the pool, which may fail, and the assignment of the future.\<close>

definition begin_submit :: "ustr \<Rightarrow> ustr list \<Rightarrow> bool \<Rightarrow> 'r job_manager \<Rightarrow> job_error + 'r job_manager" where
  "begin_submit name resource_keys cleanup m =
     bindE (validate_submission name resource_keys) (\<lambda>keys.
     bindE (validate_admission m) (\<lambda>_.
     if jm_capacity m = 0 then Inl (QueueFull (jm_max_pending m))
     else Inr (m\<lparr>jm_capacity := jm_capacity m - 1, jm_reserving := jm_reserving m @ [(name, keys, cleanup)]\<rparr>)))"

definition job_id_of :: "nat \<Rightarrow> ustr" where
  "job_id_of n = u ''j'' @ padded 6 n"

definition new_record :: "(ustr \<Rightarrow> ustr) \<Rightarrow> ustr \<Rightarrow> ustr \<Rightarrow> ustr \<Rightarrow> ustr list \<Rightarrow> nat list \<Rightarrow> bool \<Rightarrow> 'r job_record" where
  "new_record digest now job_id name keys locks cleanup =
     \<lparr>jr_snapshot = \<lparr>js_job_id = job_id, js_name = name, js_state = JQueued, js_submitted_at = now,
        js_started_at = None, js_finished_at = None, js_resource_keys = map (\<lambda>k. u ''resource_'' @ digest k) keys,
        js_result = None, js_outcome_summary = None, js_next_action = None, js_error_code = None,
        js_error_message = None, js_error_remediation = None, js_progress = None,
        js_cancellation_requested_at = None, js_cancellation_pending = False, js_cancellation_deferred_by = None\<rparr>,
      jr_token = new_token, jr_resource_keys = keys, jr_resource_locks = locks, jr_result_cleanup = cleanup,
      jr_future = False, jr_cancellation_was_deferred = False, jr_cancellation_accepted_at = None,
      jr_result_discarded = False\<rparr>"

text \<open>A submission that is no longer admitted gives its capacity back and raises; the manager changes
  all the same, so the error is beside the new manager.\<close>

definition reserve_submit :: "(ustr \<Rightarrow> ustr) \<Rightarrow> nat \<Rightarrow> ustr \<Rightarrow> 'r job_manager
    \<Rightarrow> job_error + 'r job_manager \<times> job_error option" where
  "reserve_submit digest i now m =
     (if i \<ge> length (jm_reserving m) then Inl NotEnabled
      else
        let (name, keys, cleanup) = jm_reserving m ! i;
            m0 = m\<lparr>jm_reserving := take i (jm_reserving m) @ drop (Suc i) (jm_reserving m)\<rparr> in
        case validate_admission m0 of
          Inl e \<Rightarrow> Inr (m0\<lparr>jm_capacity := jm_capacity m0 + 1\<rparr>, Some e)
        | Inr _ \<Rightarrow>
            (let job_id = job_id_of (jm_next_id m0);
                 (m1, locks) = reserve_resource_locks (m0\<lparr>jm_next_id := jm_next_id m0 + 1\<rparr>) keys;
                 r = new_record digest now job_id name keys locks cleanup in
             Inr (notify (jr_snapshot r) (put_record job_id r m1)
                    \<lparr>jm_workers := (jm_workers m1)(job_id \<mapsto>
                       \<lparr>wk_keys = keys, wk_locks = locks, wk_acquired = 0, wk_phase = Unsubmitted\<rparr>)\<rparr>, None)))"

text \<open>The worker of a job in a given phase.\<close>

definition worker_in :: "('r phase \<Rightarrow> bool) \<Rightarrow> 'r job_manager \<Rightarrow> ustr \<Rightarrow> job_error + 'r worker" where
  "worker_in P m job_id = (case jm_workers m job_id of
     None \<Rightarrow> Inl NotEnabled | Some w \<Rightarrow> if P (wk_phase w) then Inr w else Inl NotEnabled)"

definition set_worker :: "ustr \<Rightarrow> 'r worker \<Rightarrow> 'r job_manager \<Rightarrow> 'r job_manager" where
  "set_worker job_id w m = m\<lparr>jm_workers := (jm_workers m)(job_id \<mapsto> w)\<rparr>"

definition set_phase :: "ustr \<Rightarrow> 'r worker \<Rightarrow> 'r phase \<Rightarrow> 'r job_manager \<Rightarrow> 'r job_manager" where
  "set_phase job_id w p m = set_worker job_id (w\<lparr>wk_phase := p\<rparr>) m"

definition remove_worker :: "ustr \<Rightarrow> 'r job_manager \<Rightarrow> 'r job_manager" where
  "remove_worker job_id m = m\<lparr>jm_workers := (jm_workers m)(job_id := None), jm_capacity := jm_capacity m + 1\<rparr>"

definition start_submit :: "ustr \<Rightarrow> 'r job_manager \<Rightarrow> job_error + 'r job_manager" where
  "start_submit job_id m = bindE (worker_in (\<lambda>p. p = Unsubmitted) m job_id) (\<lambda>w.
     Inr (set_phase job_id w Scheduled m))"

definition refuse_submit :: "ustr \<Rightarrow> 'r job_manager \<Rightarrow> job_error + 'r job_manager" where
  "refuse_submit job_id m = bindE (worker_in (\<lambda>p. p = Unsubmitted) m job_id) (\<lambda>w.
     bindE (release_resource_locks (m\<lparr>jm_records := AList.delete job_id (jm_records m)\<rparr>) (wk_keys w) (wk_locks w)) (\<lambda>m'.
       Inr (remove_worker job_id m')))"

definition set_future :: "ustr \<Rightarrow> 'r job_manager \<Rightarrow> job_error + 'r job_manager" where
  "set_future job_id m = bindE (get_record m job_id) (\<lambda>r.
     if (case jm_workers m job_id of Some w \<Rightarrow> wk_phase w = Unsubmitted | None \<Rightarrow> False) then Inl NotEnabled
     else Inr (put_record job_id (r\<lparr>jr_future := True\<rparr>) m))"

text \<open>\<open>_sync_cancellation\<close>, run by the listener of the token with a state notified earlier.\<close>

definition sync_record :: "(ustr \<Rightarrow> ustr option) \<Rightarrow> cancellation_state \<Rightarrow> 'r job_record \<Rightarrow> 'r job_record" where
  "sync_record redact state r =
     r\<lparr>jr_snapshot := (jr_snapshot r)\<lparr>js_cancellation_requested_at := cs_requested_at state,
         js_cancellation_pending := cs_pending state,
         js_cancellation_deferred_by :=
           (if cs_pending state
            then (case cs_deferred_by state of None \<Rightarrow> None
                  | Some op \<Rightarrow> if op = [] then None else Some (bounded_redacted redact op 512))
            else None)\<rparr>,
       jr_cancellation_was_deferred := (jr_cancellation_was_deferred r \<or> cs_pending state)\<rparr>"

definition sync_cancellation :: "(ustr \<Rightarrow> ustr option) \<Rightarrow> ustr \<Rightarrow> cancellation_state \<Rightarrow> 'r job_manager \<Rightarrow> 'r job_manager" where
  "sync_cancellation redact job_id state m =
     (case map_of (jm_records m) job_id of
        None \<Rightarrow> m
      | Some r \<Rightarrow>
          if \<not> job_active (jr_snapshot r) then m
          else
            let r' = sync_record redact state r in notify (jr_snapshot r') (put_record job_id r' m))"

definition deliver_cancellation :: "(ustr \<Rightarrow> ustr option) \<Rightarrow> nat \<Rightarrow> 'r job_manager \<Rightarrow> job_error + 'r job_manager" where
  "deliver_cancellation redact i m =
     (if i \<ge> length (jm_undelivered m) then Inl NotEnabled
      else let (job_id, state) = jm_undelivered m ! i in
        Inr (sync_cancellation redact job_id state
          (m\<lparr>jm_undelivered := take i (jm_undelivered m) @ drop (Suc i) (jm_undelivered m)\<rparr>)))"

definition push_cancellation :: "ustr \<Rightarrow> cancellation_state option \<Rightarrow> 'r job_manager \<Rightarrow> 'r job_manager" where
  "push_cancellation job_id state m =
     (case state of None \<Rightarrow> m | Some s \<Rightarrow> m\<lparr>jm_undelivered := jm_undelivered m @ [(job_id, s)]\<rparr>)"

section \<open>The worker\<close>

definition worker_start :: "ustr \<Rightarrow> 'r job_manager \<Rightarrow> job_error + 'r job_manager" where
  "worker_start job_id m = bindE (worker_in (\<lambda>p. p = Scheduled) m job_id) (\<lambda>w.
     Inr (set_phase job_id w Acquiring m))"

text \<open>\<open>lock.acquire(timeout=0.05)\<close> takes a free lock; on a timeout the worker checks its token and
  tries again.\<close>

definition worker_acquire :: "ustr \<Rightarrow> 'r job_manager \<Rightarrow> job_error + 'r job_manager" where
  "worker_acquire job_id m = bindE (worker_in (\<lambda>p. p = Acquiring) m job_id) (\<lambda>w.
     if wk_acquired w \<ge> length (wk_locks w) then Inl NotEnabled
     else
       let lock = wk_locks w ! wk_acquired w in
       if jm_held m lock \<noteq> None then Inl NotEnabled
       else Inr (set_worker job_id (w\<lparr>wk_acquired := wk_acquired w + 1\<rparr>)
                  (m\<lparr>jm_held := (jm_held m)(lock \<mapsto> job_id)\<rparr>)))"

definition worker_timeout :: "ustr \<Rightarrow> 'r job_manager \<Rightarrow> job_error + 'r job_manager" where
  "worker_timeout job_id m = bindE (worker_in (\<lambda>p. p = Acquiring) m job_id) (\<lambda>w.
     bindE (get_record m job_id) (\<lambda>r.
     if wk_acquired w \<ge> length (wk_locks w) then Inl NotEnabled
     else case raise_if_cancelled (jr_token r) of
       Inl e \<Rightarrow> Inr (set_phase job_id w (Cancelling None) m)
     | Inr _ \<Rightarrow> Inr m))"

text \<open>With all locks held, the token is checked once more before the job is running.\<close>

definition worker_admit :: "ustr \<Rightarrow> 'r job_manager \<Rightarrow> job_error + 'r job_manager" where
  "worker_admit job_id m = bindE (worker_in (\<lambda>p. p = Acquiring) m job_id) (\<lambda>w.
     bindE (get_record m job_id) (\<lambda>r.
     if wk_acquired w < length (wk_locks w) then Inl NotEnabled
     else Inr (set_phase job_id w
       (case raise_if_cancelled (jr_token r) of Inl e \<Rightarrow> Cancelling None | Inr _ \<Rightarrow> Ready) m)))"

definition worker_run :: "ustr \<Rightarrow> ustr \<Rightarrow> 'r job_manager \<Rightarrow> job_error + 'r job_manager" where
  "worker_run job_id now m = bindE (worker_in (\<lambda>p. p = Ready) m job_id) (\<lambda>w.
     bindE (get_record m job_id) (\<lambda>r.
       let r' = transition_running now r in
       Inr (notify (jr_snapshot r') (put_record job_id r' (set_phase job_id w Working m)))))"

text \<open>The function returns, raises the cancellation error, or raises another one.\<close>

definition function_returns :: "ustr \<Rightarrow> 'r option \<Rightarrow> 'r job_manager \<Rightarrow> job_error + 'r job_manager" where
  "function_returns job_id result m = bindE (worker_in (\<lambda>p. p = Working) m job_id) (\<lambda>w.
     Inr (set_phase job_id w (Returned result) m))"

definition function_cancelled :: "ustr \<Rightarrow> 'r job_manager \<Rightarrow> job_error + 'r job_manager" where
  "function_cancelled job_id m = bindE (worker_in (\<lambda>p. p = Working) m job_id) (\<lambda>w.
     Inr (set_phase job_id w (Cancelling None) m))"

definition function_fails :: "ustr \<Rightarrow> failure \<Rightarrow> 'r job_manager \<Rightarrow> job_error + 'r job_manager" where
  "function_fails job_id f m = bindE (worker_in (\<lambda>p. p = Working) m job_id) (\<lambda>w.
     bindE (get_record m job_id) (\<lambda>r.
       Inr (set_phase job_id w
         (if token_requested (jr_token r) \<and> (case f of Ancestry c msg rem \<Rightarrow> c = u ''PROVIDER_CANCELLED'' | Other_Failure \<Rightarrow> False)
          then Cancelling None else Failing f) m)))"

definition worker_check :: "ustr \<Rightarrow> 'r job_manager \<Rightarrow> job_error + 'r job_manager" where
  "worker_check job_id m = bindE (worker_in (\<lambda>p. case p of Returned r \<Rightarrow> True | _ \<Rightarrow> False) m job_id) (\<lambda>w.
     bindE (get_record m job_id) (\<lambda>r.
       let result = (case wk_phase w of Returned x \<Rightarrow> x | _ \<Rightarrow> None) in
       Inr (set_phase job_id w
         (case raise_if_cancelled (jr_token r) of Inl e \<Rightarrow> Cancelling result | Inr _ \<Rightarrow> Completing result) m)))"

text \<open>The last transition. A result that a cancelled job produced is cleaned first.\<close>

definition worker_finish :: "(ustr \<Rightarrow> ustr option) \<Rightarrow> ustr \<Rightarrow> ustr \<Rightarrow> 'r job_manager \<Rightarrow> job_error + 'r job_manager" where
  "worker_finish redact job_id now m = bindE (worker_in (\<lambda>_. True) m job_id) (\<lambda>w.
     bindE (get_record m job_id) (\<lambda>r.
       let done = (\<lambda>r' result. Inr (notify (jr_snapshot r') (clean job_id result
             (put_record job_id r' (set_phase job_id w Finishing m))))) in
       case wk_phase w of
         Completing result \<Rightarrow>
           (let (r', cleanup) = transition_completed now result r in done r' cleanup)
       | Cancelling result \<Rightarrow>
           done (transition_cancelled now r) (if jr_result_cleanup r then result else None)
       | Failing f \<Rightarrow> done (transition_failed redact now f r) None
       | _ \<Rightarrow> Inl NotEnabled))"

text \<open>The \<open>finally\<close> clause: the locks are released, then the references and the capacity.\<close>

definition worker_release :: "ustr \<Rightarrow> 'r job_manager \<Rightarrow> job_error + 'r job_manager" where
  "worker_release job_id m = bindE (worker_in (\<lambda>p. p = Finishing) m job_id) (\<lambda>w.
     let m1 = m\<lparr>jm_held := foldl (\<lambda>h lock. h(lock := None)) (jm_held m) (rev (take (wk_acquired w) (wk_locks w)))\<rparr> in
     bindE (release_resource_locks m1 (wk_keys w) (wk_locks w)) (\<lambda>m2. Inr (remove_worker job_id m2)))"

section \<open>The reporter\<close>

definition validate_progress :: "ustr \<Rightarrow> int option \<Rightarrow> int option \<Rightarrow> job_error + unit" where
  "validate_progress operation completed whole =
     bindE (validate_bounded_text operation (u ''Progress operation'') 512) (\<lambda>_.
     case (completed, whole) of
       (None, None) \<Rightarrow> Inr ()
     | (Some c, Some t) \<Rightarrow>
         if c < 0 \<or> t < 1 \<or> c > t \<or> t > 1000000000 then Inl ProgressRange else Inr ()
     | _ \<Rightarrow> Inl ProgressIncomplete)"

definition at_token :: "cancellation_error + 'a \<Rightarrow> job_error + 'a" where
  "at_token x = (case x of Inl e \<Rightarrow> Inl (TokenError e) | Inr y \<Rightarrow> Inr y)"

lemma at_token_Inr [result_simps]: "at_token x = Inr y \<longleftrightarrow> x = Inr y"
  by (cases x) (simp_all add: at_token_def)

definition reporter_update :: "(ustr \<Rightarrow> ustr option) \<Rightarrow> ustr \<Rightarrow> ustr \<Rightarrow> int option \<Rightarrow> int option \<Rightarrow> ustr
    \<Rightarrow> 'r job_manager \<Rightarrow> job_error + 'r job_manager" where
  "reporter_update redact job_id operation completed whole now m =
     bindE (worker_in (\<lambda>p. p = Working) m job_id) (\<lambda>w.
     bindE (validate_progress operation completed whole) (\<lambda>_.
     bindE (get_record m job_id) (\<lambda>r.
     bindE (at_token (raise_if_cancelled (jr_token r))) (\<lambda>_.
       if \<not> job_active (jr_snapshot r) then Inr m
       else
         let s = (jr_snapshot r)\<lparr>js_progress := Some \<lparr>pe_operation = bounded_redacted redact operation 512,
               pe_timestamp = now, pe_completed = completed, pe_total = whole\<rparr>\<rparr> in
         Inr (notify s (put_record job_id (r\<lparr>jr_snapshot := s\<rparr>) m))))))"

definition reporter_outcome :: "(ustr \<Rightarrow> ustr option) \<Rightarrow> ustr \<Rightarrow> ustr \<Rightarrow> ustr \<Rightarrow> 'r job_manager
    \<Rightarrow> job_error + 'r job_manager" where
  "reporter_outcome redact job_id summary next_action m =
     bindE (worker_in (\<lambda>p. p = Working) m job_id) (\<lambda>w.
     bindE (validate_bounded_text summary (u ''Job outcome summary'') 2048) (\<lambda>_.
     bindE (validate_bounded_text next_action (u ''Job next action'') 2048) (\<lambda>_.
     bindE (get_record m job_id) (\<lambda>r.
     bindE (at_token (raise_if_cancelled (jr_token r))) (\<lambda>_.
       if \<not> job_active (jr_snapshot r) then Inr m
       else
         let s = (jr_snapshot r)\<lparr>js_outcome_summary := Some (bounded_redacted redact summary 2048),
               js_next_action := Some (bounded_redacted redact next_action 2048)\<rparr> in
         Inr (notify s (put_record job_id (r\<lparr>jr_snapshot := s\<rparr>) m)))))))"

definition section_enter :: "ustr \<Rightarrow> ustr \<Rightarrow> 'r job_manager \<Rightarrow> job_error + 'r job_manager" where
  "section_enter job_id operation m =
     bindE (worker_in (\<lambda>p. p = Working) m job_id) (\<lambda>w.
     bindE (validate_bounded_text operation (u ''Protected operation'') 512) (\<lambda>_.
     bindE (get_record m job_id) (\<lambda>r.
     bindE (at_token (defer_enter operation (jr_token r))) (\<lambda>t.
       Inr (put_record job_id (r\<lparr>jr_token := t\<rparr>) m)))))"

definition section_exit :: "ustr \<Rightarrow> 'r job_manager \<Rightarrow> job_error + 'r job_manager" where
  "section_exit job_id m =
     bindE (worker_in (\<lambda>p. p = Working) m job_id) (\<lambda>w.
     bindE (get_record m job_id) (\<lambda>r.
     bindE (at_token (defer_exit (jr_token r))) (\<lambda>(t, state).
       Inr (push_cancellation job_id state (put_record job_id (r\<lparr>jr_token := t\<rparr>) m)))))"

section \<open>Cancellation, results and shutdown\<close>

text \<open>The locked section of \<open>cancel\<close>. The call returns the current snapshot of a job that is not
  active; a queued job whose future can be cancelled is finished here.\<close>

definition cancel_accept :: "ustr \<Rightarrow> ustr \<Rightarrow> 'r job_manager \<Rightarrow> job_error + 'r job_manager" where
  "cancel_accept job_id now m = bindE (get_record m job_id) (\<lambda>r.
     let s = jr_snapshot r in
     if \<not> job_active s then Inr m
     else
       let accepted = (case jr_cancellation_accepted_at r of None \<Rightarrow> now | Some t \<Rightarrow> t);
           r1 = r\<lparr>jr_cancellation_accepted_at := Some accepted\<rparr> in
       case jm_workers m job_id of
         Some w \<Rightarrow>
           if js_state s = JQueued \<and> jr_future r \<and> wk_phase w = Scheduled
           then
             let s' = cancelled_snapshot now (u ''The queued background job was cancelled.'') (Some accepted) s in
             bindE (release_resource_locks (put_record job_id (r1\<lparr>jr_snapshot := s'\<rparr>) m)
                      (jr_resource_keys r) (jr_resource_locks r)) (\<lambda>m'.
               Inr (notify s' (remove_worker job_id m')))
           else Inr (put_record job_id (r1\<lparr>jr_snapshot := s\<lparr>js_cancellation_requested_at := Some accepted\<rparr>\<rparr>) m)
       | None \<Rightarrow> Inr (put_record job_id (r1\<lparr>jr_snapshot := s\<lparr>js_cancellation_requested_at := Some accepted\<rparr>\<rparr>) m))"

text \<open>The request of the token that follows it.\<close>

definition cancel_request :: "ustr \<Rightarrow> ustr \<Rightarrow> 'r job_manager \<Rightarrow> job_error + 'r job_manager" where
  "cancel_request job_id now m = bindE (get_record m job_id) (\<lambda>r.
     if jr_cancellation_accepted_at r = None then Inl NotEnabled
     else let (t, state) = token_request now (jr_token r) in
       Inr (push_cancellation job_id state (put_record job_id (r\<lparr>jr_token := t\<rparr>) m)))"

definition discard_result :: "ustr \<Rightarrow> 'r job_manager \<Rightarrow> job_error + 'r job_manager" where
  "discard_result job_id m = bindE (get_record m job_id) (\<lambda>r.
     Inr (clean job_id (if jr_result_cleanup r then js_result (jr_snapshot r) else None)
       (put_record job_id (r\<lparr>jr_result_discarded := True, jr_snapshot := (jr_snapshot r)\<lparr>js_result := None\<rparr>\<rparr>) m)))"

text \<open>The locked section of \<open>shutdown\<close> and the cleanups after it; cancelling all jobs is a cancel
  of each.\<close>

definition shutdown_record :: "'r job_record \<Rightarrow> 'r job_record" where
  "shutdown_record r = (if \<not> jr_result_cleanup r then r
     else r\<lparr>jr_result_discarded := True, jr_snapshot := (jr_snapshot r)\<lparr>js_result := None\<rparr>\<rparr>)"

definition shutdown_cleanups :: "(ustr \<times> 'r job_record) list \<Rightarrow> (ustr \<times> 'r) list" where
  "shutdown_cleanups records = concat (map (\<lambda>(job_id, r).
     if jr_result_cleanup r then (case js_result (jr_snapshot r) of None \<Rightarrow> [] | Some x \<Rightarrow> [(job_id, x)]) else []) records)"

definition shutdown :: "'r job_manager \<Rightarrow> 'r job_manager" where
  "shutdown m = m\<lparr>jm_closed := True, jm_records := map (\<lambda>(job_id, r). (job_id, shutdown_record r)) (jm_records m),
     jm_cleaned := jm_cleaned m @ shutdown_cleanups (jm_records m)\<rparr>"

section \<open>Reading\<close>

definition get_job :: "'r job_manager \<Rightarrow> ustr \<Rightarrow> job_error + 'r job_snapshot" where
  "get_job m job_id = bindE (get_record m job_id) (\<lambda>r. Inr (jr_snapshot r))"

definition list_jobs :: "'r job_manager \<Rightarrow> job_state option \<Rightarrow> 'r job_snapshot list" where
  "list_jobs m state = (let snapshots = map (\<lambda>(i, r). jr_snapshot r) (jm_records m) in
     case state of None \<Rightarrow> snapshots | Some st \<Rightarrow> filter (\<lambda>s. js_state s = st) snapshots)"

definition active_jobs :: "'r job_manager \<Rightarrow> 'r job_snapshot list" where
  "active_jobs m = filter job_active (list_jobs m None)"

definition foreground_job :: "'r job_manager \<Rightarrow> 'r job_snapshot option" where
  "foreground_job m = (if active_jobs m = [] then None else Some (last (active_jobs m)))"

section \<open>Executions\<close>

datatype 'r job_action =
    BeginSubmit ustr "ustr list" bool | ReserveSubmit nat ustr | StartSubmit ustr | RefuseSubmit ustr
  | SetFuture ustr | DeliverCancellation nat
  | WorkerStart ustr | WorkerAcquire ustr | WorkerTimeout ustr | WorkerAdmit ustr | WorkerRun ustr ustr
  | FunctionReturns ustr "'r option" | FunctionCancelled ustr | FunctionFails ustr failure
  | WorkerCheck ustr | WorkerFinish ustr ustr | WorkerRelease ustr
  | ReporterUpdate ustr ustr "int option" "int option" ustr | ReporterOutcome ustr ustr ustr
  | SectionEnter ustr ustr | SectionExit ustr
  | CancelAccept ustr ustr | CancelRequest ustr ustr | DiscardResult ustr | Shutdown

fun job_apply :: "(ustr \<Rightarrow> ustr option) \<Rightarrow> (ustr \<Rightarrow> ustr) \<Rightarrow> 'r job_action \<Rightarrow> 'r job_manager
    \<Rightarrow> job_error + 'r job_manager" where
  "job_apply redact digest (BeginSubmit name keys cleanup) m = begin_submit name keys cleanup m"
| "job_apply redact digest (ReserveSubmit i now) m =
     bindE (reserve_submit digest i now m) (\<lambda>(m', refused). Inr m')"
| "job_apply redact digest (StartSubmit j) m = start_submit j m"
| "job_apply redact digest (RefuseSubmit j) m = refuse_submit j m"
| "job_apply redact digest (SetFuture j) m = set_future j m"
| "job_apply redact digest (DeliverCancellation i) m = deliver_cancellation redact i m"
| "job_apply redact digest (WorkerStart j) m = worker_start j m"
| "job_apply redact digest (WorkerAcquire j) m = worker_acquire j m"
| "job_apply redact digest (WorkerTimeout j) m = worker_timeout j m"
| "job_apply redact digest (WorkerAdmit j) m = worker_admit j m"
| "job_apply redact digest (WorkerRun j now) m = worker_run j now m"
| "job_apply redact digest (FunctionReturns j result) m = function_returns j result m"
| "job_apply redact digest (FunctionCancelled j) m = function_cancelled j m"
| "job_apply redact digest (FunctionFails j f) m = function_fails j f m"
| "job_apply redact digest (WorkerCheck j) m = worker_check j m"
| "job_apply redact digest (WorkerFinish j now) m = worker_finish redact j now m"
| "job_apply redact digest (WorkerRelease j) m = worker_release j m"
| "job_apply redact digest (ReporterUpdate j operation completed whole now) m =
     reporter_update redact j operation completed whole now m"
| "job_apply redact digest (ReporterOutcome j summary next_action) m = reporter_outcome redact j summary next_action m"
| "job_apply redact digest (SectionEnter j operation) m = section_enter j operation m"
| "job_apply redact digest (SectionExit j) m = section_exit j m"
| "job_apply redact digest (CancelAccept j now) m = cancel_accept j now m"
| "job_apply redact digest (CancelRequest j now) m = cancel_request j now m"
| "job_apply redact digest (DiscardResult j) m = discard_result j m"
| "job_apply redact digest Shutdown m = Inr (shutdown m)"

text \<open>One step of the manager, and the states an execution reaches from a new manager.\<close>

inductive job_step :: "(ustr \<Rightarrow> ustr option) \<Rightarrow> (ustr \<Rightarrow> ustr) \<Rightarrow> 'r job_manager \<Rightarrow> 'r job_manager \<Rightarrow> bool"
  for redact digest where
  action: "job_apply redact digest a m = Inr m' \<Longrightarrow> job_step redact digest m m'"

inductive job_reachable :: "(ustr \<Rightarrow> ustr option) \<Rightarrow> (ustr \<Rightarrow> ustr) \<Rightarrow> 'r job_manager \<Rightarrow> bool"
  for redact digest where
  init: "new_job_manager workers pending start = Inr m \<Longrightarrow> job_reachable redact digest m"
| step: "job_reachable redact digest m \<Longrightarrow> job_step redact digest m m' \<Longrightarrow> job_reachable redact digest m'"

inductive_cases job_stepE: "job_step redact digest m m'"

lemma job_run_reachable:
  "job_reachable redact digest m \<Longrightarrow> foldE (\<lambda>m a. job_apply redact digest a m) m as = Inr m' \<Longrightarrow>
   job_reachable redact digest m'"
proof (induction "as" arbitrary: m)
  case (Cons a as)
  then obtain m1 where "job_apply redact digest a m = Inr m1" "foldE (\<lambda>m a. job_apply redact digest a m) m1 as = Inr m'"
    by (auto simp: bindE_Inr_iff)
  with Cons show ?case by (blast intro: job_reachable.step job_step.action)
qed simp

end
