(* ===== verification/Job_Resources.thy ===== *)
theory Job_Resources
  imports Job_Manager
begin

text \<open>
  The resources of the job manager over all executions: the capacity is the number of
  submissions it still takes, the lock table counts the workers that use each key, the locks
  are held by the workers that acquired them, and two jobs that share a resource key never work
  at the same time. The keys of a job are sorted, so waiting workers cannot block each other
  in a circle.
\<close>

section \<open>The lock table\<close>

text \<open>A table agrees with the number of users of each key.\<close>

definition table_ok :: "(ustr \<rightharpoonup> nat \<times> nat) \<Rightarrow> nat \<Rightarrow> (ustr \<Rightarrow> nat) \<Rightarrow> bool" where
  "table_ok tbl next cnt \<longleftrightarrow> (\<forall>k. tbl k = None \<longleftrightarrow> cnt k = 0)
     \<and> (\<forall>k l n. tbl k = Some (l, n) \<longrightarrow> n = cnt k \<and> l < next)
     \<and> (\<forall>k k' l n n'. tbl k = Some (l, n) \<longrightarrow> tbl k' = Some (l, n') \<longrightarrow> k = k')"

definition lock_at :: "(ustr \<rightharpoonup> nat \<times> nat) \<Rightarrow> ustr \<Rightarrow> nat \<Rightarrow> bool" where
  "lock_at tbl k l \<longleftrightarrow> (\<exists>n. tbl k = Some (l, n))"

lemma lock_at_unique: "lock_at tbl k l \<Longrightarrow> lock_at tbl k l' \<Longrightarrow> l = l'"
  by (auto simp: lock_at_def)

lemma table_ok_inject: "table_ok tbl next cnt \<Longrightarrow> lock_at tbl k l \<Longrightarrow> lock_at tbl k' l \<Longrightarrow> k = k'"
  unfolding table_ok_def lock_at_def by blast

lemma table_ok_entry: "table_ok tbl next cnt \<Longrightarrow> tbl k = Some (l, n) \<Longrightarrow> n = cnt k \<and> l < next"
  unfolding table_ok_def by blast

text \<open>A manager that differs in its lock table at most.\<close>

definition same_but_locks :: "'r job_manager \<Rightarrow> 'r job_manager \<Rightarrow> bool" where
  "same_but_locks m m' \<longleftrightarrow> (\<exists>tbl next. m' = m\<lparr>jm_resource_locks := tbl, jm_next_lock := next\<rparr>)"

lemma same_but_locksI: "same_but_locks m (m\<lparr>jm_resource_locks := tbl, jm_next_lock := next\<rparr>)"
    "same_but_locks m (m\<lparr>jm_resource_locks := tbl\<rparr>)" "same_but_locks m m"
proof -
  have "m\<lparr>jm_resource_locks := tbl\<rparr> = m\<lparr>jm_resource_locks := tbl, jm_next_lock := jm_next_lock m\<rparr>"
    and "m = m\<lparr>jm_resource_locks := jm_resource_locks m, jm_next_lock := jm_next_lock m\<rparr>" by simp_all
  then show "same_but_locks m (m\<lparr>jm_resource_locks := tbl, jm_next_lock := next\<rparr>)"
    "same_but_locks m (m\<lparr>jm_resource_locks := tbl\<rparr>)" "same_but_locks m m"
    unfolding same_but_locks_def by blast+
qed

lemma same_but_locks_trans: "same_but_locks m m1 \<Longrightarrow> same_but_locks m1 m2 \<Longrightarrow> same_but_locks m m2"
proof -
  assume "same_but_locks m m1" and "same_but_locks m1 m2"
  then obtain tbl "next" where "m2 = m\<lparr>jm_resource_locks := tbl, jm_next_lock := next\<rparr>"
    unfolding same_but_locks_def by force
  then show ?thesis unfolding same_but_locks_def by blast
qed

definition keeps_locks :: "'r job_manager \<Rightarrow> 'r job_manager \<Rightarrow> bool" where
  "keeps_locks m m' \<longleftrightarrow> (\<forall>k l. lock_at (jm_resource_locks m) k l \<longrightarrow> lock_at (jm_resource_locks m') k l)"

lemma reserve_one:
  assumes ok: "table_ok (jm_resource_locks m) (jm_next_lock m) cnt"
  shows "\<exists>m' l. reserve_resource_lock (m, ls) key = (m', ls @ [l]) \<and> lock_at (jm_resource_locks m') key l
    \<and> table_ok (jm_resource_locks m') (jm_next_lock m') (cnt(key := cnt key + 1))
    \<and> keeps_locks m m' \<and> same_but_locks m m'"
proof (cases "jm_resource_locks m key")
  case None
  let ?m = "m\<lparr>jm_resource_locks := (jm_resource_locks m)(key \<mapsto> (jm_next_lock m, 1)), jm_next_lock := jm_next_lock m + 1\<rparr>"
  have "table_ok (jm_resource_locks ?m) (jm_next_lock ?m) (cnt(key := cnt key + 1))"
    using ok None unfolding table_ok_def by (auto simp: less_Suc_eq)
  then show ?thesis using None
    by (intro exI [of _ ?m] exI [of _ "jm_next_lock m"])
      (auto simp: reserve_resource_lock_def lock_at_def keeps_locks_def same_but_locksI)
next
  case (Some e)
  obtain l n where e: "e = (l, n)" by (cases e)
  let ?m = "m\<lparr>jm_resource_locks := (jm_resource_locks m)(key \<mapsto> (l, n + 1))\<rparr>"
  have "table_ok (jm_resource_locks ?m) (jm_next_lock ?m) (cnt(key := cnt key + 1))"
    using ok Some e unfolding table_ok_def by (auto split: if_splits)
  then show ?thesis using Some e
    by (intro exI [of _ ?m] exI [of _ l])
      (auto simp: reserve_resource_lock_def lock_at_def keeps_locks_def same_but_locksI)
qed

lemma reserve_all:
  assumes "table_ok (jm_resource_locks m) (jm_next_lock m) cnt" and "distinct keys"
  shows "\<exists>m' ls'. foldl reserve_resource_lock (m, ls) keys = (m', ls @ ls')
    \<and> list_all2 (lock_at (jm_resource_locks m')) keys ls'
    \<and> table_ok (jm_resource_locks m') (jm_next_lock m') (\<lambda>k. cnt k + (if k \<in> set keys then 1 else 0))
    \<and> keeps_locks m m' \<and> same_but_locks m m'"
  using assms
proof (induction keys arbitrary: m ls cnt)
  case Nil
  then show ?case by (auto simp: keeps_locks_def same_but_locksI)
next
  case (Cons key keys)
  from reserve_one [OF Cons.prems(1), of ls key] obtain m1 l where p: "reserve_resource_lock (m, ls) key = (m1, ls @ [l])"
    and at: "lock_at (jm_resource_locks m1) key l"
    and ok: "table_ok (jm_resource_locks m1) (jm_next_lock m1) (cnt(key := cnt key + 1))"
    and keep: "keeps_locks m m1" "same_but_locks m m1" by blast
  from Cons.prems(2) have d: "distinct keys" "key \<notin> set keys" by simp_all
  from Cons.IH [OF ok d(1), of "ls @ [l]"] obtain m' ls' where q: "foldl reserve_resource_lock (m1, ls @ [l]) keys = (m', (ls @ [l]) @ ls')"
    and all: "list_all2 (lock_at (jm_resource_locks m')) keys ls'"
    and ok': "table_ok (jm_resource_locks m') (jm_next_lock m') (\<lambda>k. (cnt(key := cnt key + 1)) k + (if k \<in> set keys then 1 else 0))"
    and keep': "keeps_locks m1 m'" "same_but_locks m1 m'" by blast
  have cnt: "(\<lambda>k. (cnt(key := cnt key + 1)) k + (if k \<in> set keys then 1 else 0))
      = (\<lambda>k. cnt k + (if k \<in> set (key # keys) then 1 else 0))" using d(2) by (auto simp: fun_eq_iff)
  have "foldl reserve_resource_lock (m, ls) (key # keys) = (m', ls @ l # ls')" using p q by simp
  moreover have "list_all2 (lock_at (jm_resource_locks m')) (key # keys) (l # ls')"
    using all at keep' by (auto simp: keeps_locks_def)
  moreover have "keeps_locks m m'" using keep(1) keep'(1) by (simp add: keeps_locks_def)
  moreover have "same_but_locks m m'" by (rule same_but_locks_trans [OF keep(2) keep'(2)])
  ultimately show ?case using ok' unfolding cnt by blast
qed

lemma release_one:
  assumes ok: "table_ok (jm_resource_locks m) next cnt" and at: "lock_at (jm_resource_locks m) key l"
  shows "\<exists>tbl. release_resource_lock m (key, l) = Inr (m\<lparr>jm_resource_locks := tbl\<rparr>)
    \<and> table_ok tbl next (cnt(key := cnt key - 1))
    \<and> (\<forall>k l. lock_at (jm_resource_locks m) k l \<longrightarrow> 0 < (cnt(key := cnt key - 1)) k \<longrightarrow> lock_at tbl k l)"
proof -
  from at ok have e: "jm_resource_locks m key = Some (l, cnt key)" by (auto simp: lock_at_def table_ok_def)
  show ?thesis
  proof (cases "cnt key = 1")
    case True
    have "table_ok ((jm_resource_locks m)(key := None)) next (cnt(key := cnt key - 1))"
      using ok True unfolding table_ok_def by (auto split: if_splits)
    with e True show ?thesis
      by (intro exI [of _ "(jm_resource_locks m)(key := None)"]) (auto simp: release_resource_lock_def lock_at_def)
  next
    case False
    have pos: "cnt key \<noteq> 0" using e ok unfolding table_ok_def by (metis option.distinct(1))
    have "table_ok ((jm_resource_locks m)(key \<mapsto> (l, cnt key - 1))) next (cnt(key := cnt key - 1))"
      unfolding table_ok_def
    proof (intro conjI allI impI)
      fix k show "((jm_resource_locks m)(key \<mapsto> (l, cnt key - 1))) k = None \<longleftrightarrow> (cnt(key := cnt key - 1)) k = 0"
        using ok pos False by (auto simp: table_ok_def)
    next
      fix k l' n assume "((jm_resource_locks m)(key \<mapsto> (l, cnt key - 1))) k = Some (l', n)"
      then show "n = (cnt(key := cnt key - 1)) k" "l' < next"
        using table_ok_entry [OF ok e] table_ok_entry [OF ok, of k l' n] by (auto split: if_splits)
    next
      fix k k' l' n n'
      assume "((jm_resource_locks m)(key \<mapsto> (l, cnt key - 1))) k = Some (l', n)"
        and "((jm_resource_locks m)(key \<mapsto> (l, cnt key - 1))) k' = Some (l', n')"
      then have "lock_at (jm_resource_locks m) k l'" "lock_at (jm_resource_locks m) k' l'"
        using e by (auto simp: lock_at_def split: if_splits)
      then show "k = k'" by (rule table_ok_inject [OF ok])
    qed
    with e False show ?thesis
      by (intro exI [of _ "(jm_resource_locks m)(key \<mapsto> (l, cnt key - 1))"]) (auto simp: release_resource_lock_def lock_at_def)
  qed
qed

lemma release_all:
  assumes "table_ok (jm_resource_locks m) (jm_next_lock m) cnt" and "list_all2 (lock_at (jm_resource_locks m)) keys ls"
    and "distinct keys"
  shows "\<exists>m'. release_resource_locks m keys ls = Inr m' \<and> same_but_locks m m'
    \<and> table_ok (jm_resource_locks m') (jm_next_lock m') (\<lambda>k. cnt k - (if k \<in> set keys then 1 else 0))
    \<and> (\<forall>k l. lock_at (jm_resource_locks m) k l \<longrightarrow> (if k \<in> set keys then 1 else 0) < cnt k \<longrightarrow> lock_at (jm_resource_locks m') k l)"
  using assms
proof (induction keys arbitrary: m ls cnt)
  case Nil
  have "0 < cnt k" if "lock_at (jm_resource_locks m) k l" for k l
    using that Nil(1) unfolding lock_at_def table_ok_def by (metis gr0I option.distinct(1))
  then show ?case using Nil by (auto simp: release_resource_locks_def same_but_locksI)
next
  case (Cons key keys)
  from Cons.prems(2) obtain l ls' where ls: "ls = l # ls'" "lock_at (jm_resource_locks m) key l"
    "list_all2 (lock_at (jm_resource_locks m)) keys ls'" by (cases ls) auto
  from release_one [OF Cons.prems(1) ls(2)] obtain tbl where r: "release_resource_lock m (key, l) = Inr (m\<lparr>jm_resource_locks := tbl\<rparr>)"
    and ok: "table_ok tbl (jm_next_lock m) (cnt(key := cnt key - 1))"
    and keep: "\<And>k l. lock_at (jm_resource_locks m) k l \<Longrightarrow> 0 < (cnt(key := cnt key - 1)) k \<Longrightarrow> lock_at tbl k l" by blast
  let ?m = "m\<lparr>jm_resource_locks := tbl\<rparr>"
  from Cons.prems(3) have d: "key \<notin> set keys" "distinct keys" by simp_all
  have pos: "0 < cnt k" if "lock_at (jm_resource_locks m) k l" for k l
    using that Cons.prems(1) unfolding lock_at_def table_ok_def by (metis gr0I option.distinct(1))
  have all: "list_all2 (lock_at (jm_resource_locks ?m)) keys ls'"
    using ls(3)
  proof (rule list.rel_mono_strong)
    fix k l assume "k \<in> set keys" "l \<in> set ls'" "lock_at (jm_resource_locks m) k l"
    then show "lock_at (jm_resource_locks ?m) k l" using d(1) pos [of k l] keep [of k l] by (cases "k = key") auto
  qed
  have ok': "table_ok (jm_resource_locks ?m) (jm_next_lock ?m) (cnt(key := cnt key - 1))" using ok by simp
  from Cons.IH [OF ok' all d(2)] obtain m' where
    m': "release_resource_locks ?m keys ls' = Inr m'" "same_but_locks ?m m'"
    "table_ok (jm_resource_locks m') (jm_next_lock m') (\<lambda>k. (cnt(key := cnt key - 1)) k - (if k \<in> set keys then 1 else 0))"
    "\<forall>k l. lock_at (jm_resource_locks ?m) k l \<longrightarrow> (if k \<in> set keys then 1 else 0) < (cnt(key := cnt key - 1)) k \<longrightarrow> lock_at (jm_resource_locks m') k l"
    by blast
  have cnt: "(\<lambda>k. (cnt(key := cnt key - 1)) k - (if k \<in> set keys then 1 else 0))
      = (\<lambda>k. cnt k - (if k \<in> set (key # keys) then 1 else 0))" using d(1) by (auto simp: fun_eq_iff)
  show ?case
  proof (intro exI [of _ m'] conjI allI impI)
    show "release_resource_locks m (key # keys) ls = Inr m'"
      using r m'(1) by (simp add: ls release_resource_locks_def)
    show "same_but_locks m m'" by (rule same_but_locks_trans [OF same_but_locksI(2) m'(2)])
    show "table_ok (jm_resource_locks m') (jm_next_lock m') (\<lambda>k. cnt k - (if k \<in> set (key # keys) then 1 else 0))"
      using m'(3) unfolding cnt .
    fix k l assume k: "lock_at (jm_resource_locks m) k l" "(if k \<in> set (key # keys) then 1 else 0) < cnt k"
    then have "0 < (cnt(key := cnt key - 1)) k" and
      "(if k \<in> set keys then 1 else 0) < (cnt(key := cnt key - 1)) k" using d(1) by (auto split: if_splits)
    then show "lock_at (jm_resource_locks m') k l" using m'(4) keep [OF k(1)] by simp
  qed
qed

section \<open>The invariant\<close>

definition users :: "'r job_manager \<Rightarrow> ustr \<Rightarrow> ustr set" where
  "users m k = {j. \<exists>w. jm_workers m j = Some w \<and> k \<in> set (wk_keys w)}"

definition strictly_sorted :: "ustr list \<Rightarrow> bool" where
  "strictly_sorted ks \<longleftrightarrow> sorted ks \<and> distinct ks"

text \<open>Before it starts a worker holds nothing; once it is ready it holds all its locks.\<close>

definition holding_ok :: "'r phase \<Rightarrow> nat \<Rightarrow> nat \<Rightarrow> bool" where
  "holding_ok p acquired all \<longleftrightarrow> acquired \<le> all \<and>
     (case p of Unsubmitted \<Rightarrow> acquired = 0 | Scheduled \<Rightarrow> acquired = 0
      | Acquiring \<Rightarrow> True | Cancelling r \<Rightarrow> True | Finishing \<Rightarrow> True | _ \<Rightarrow> acquired = all)"

definition worker_ok :: "(ustr \<rightharpoonup> nat \<times> nat) \<Rightarrow> 'r worker \<Rightarrow> bool" where
  "worker_ok tbl w \<longleftrightarrow> strictly_sorted (wk_keys w) \<and> list_all2 (lock_at tbl) (wk_keys w) (wk_locks w)
     \<and> holding_ok (wk_phase w) (wk_acquired w) (length (wk_locks w))"

definition resource_inv :: "'r job_manager \<Rightarrow> bool" where
  "resource_inv m \<longleftrightarrow> finite (dom (jm_workers m))
     \<and> jm_capacity m + length (jm_reserving m) + card (dom (jm_workers m)) = jm_max_pending m
     \<and> (\<forall>(name, keys, cleanup) \<in> set (jm_reserving m). strictly_sorted keys)
     \<and> table_ok (jm_resource_locks m) (jm_next_lock m) (\<lambda>k. card (users m k))
     \<and> (\<forall>j w. jm_workers m j = Some w \<longrightarrow> worker_ok (jm_resource_locks m) w)
     \<and> (\<forall>l j. jm_held m l = Some j \<longleftrightarrow> (\<exists>w. jm_workers m j = Some w \<and> l \<in> set (take (wk_acquired w) (wk_locks w))))"

text \<open>The fields it depends on.\<close>

definition same_resources :: "'r job_manager \<Rightarrow> 'r job_manager \<Rightarrow> bool" where
  "same_resources m m' \<longleftrightarrow> jm_workers m' = jm_workers m \<and> jm_capacity m' = jm_capacity m
     \<and> jm_reserving m' = jm_reserving m \<and> jm_max_pending m' = jm_max_pending m
     \<and> jm_resource_locks m' = jm_resource_locks m \<and> jm_next_lock m' = jm_next_lock m \<and> jm_held m' = jm_held m"

lemma resource_inv_same: "same_resources m m' \<Longrightarrow> resource_inv m' \<longleftrightarrow> resource_inv m"
  by (simp add: same_resources_def resource_inv_def users_def)

lemma same_resources_simps [simp]:
  "same_resources m m" "same_resources m (put_record j r m') \<longleftrightarrow> same_resources m m'"
  "same_resources m (notify s m') \<longleftrightarrow> same_resources m m'"
  "same_resources m (clean j x m') \<longleftrightarrow> same_resources m m'"
  "same_resources m (push_cancellation j st m') \<longleftrightarrow> same_resources m m'"
  "same_resources m (m'\<lparr>jm_undelivered := ud\<rparr>) \<longleftrightarrow> same_resources m m'"
  "same_resources m (m'\<lparr>jm_records := rs\<rparr>) \<longleftrightarrow> same_resources m m'"
  by (auto simp: same_resources_def put_record_def notify_def clean_def push_cancellation_def split: option.split)

lemma finite_users: "finite (dom (jm_workers m)) \<Longrightarrow> finite (users m k)"
  by (rule finite_subset [of _ "dom (jm_workers m)"]) (auto simp: users_def)

lemma resource_inv_set_worker:
  assumes inv: "resource_inv m" and w: "jm_workers m j = Some w" and keys: "wk_keys w' = wk_keys w" "wk_locks w' = wk_locks w"
    and acq: "wk_acquired w' = wk_acquired w" and ok: "holding_ok (wk_phase w') (wk_acquired w') (length (wk_locks w'))"
  shows "resource_inv (set_worker j w' m)"
proof -
  have dom: "dom (jm_workers (set_worker j w' m)) = dom (jm_workers m)" using w by (auto simp: set_worker_def)
  have users: "users (set_worker j w' m) k = users m k" for k
    using w keys by (auto simp: users_def set_worker_def)
  have held: "(\<exists>v. jm_workers (set_worker j w' m) i = Some v \<and> l \<in> set (take (wk_acquired v) (wk_locks v)))
      \<longleftrightarrow> (\<exists>v. jm_workers m i = Some v \<and> l \<in> set (take (wk_acquired v) (wk_locks v)))" for l i
    using w keys acq by (auto simp: set_worker_def)
  have "worker_ok (jm_resource_locks m) w'"
    using inv w keys ok unfolding resource_inv_def worker_ok_def by simp
  then have ws: "worker_ok (jm_resource_locks m) v" if "jm_workers (set_worker j w' m) i = Some v" for i v
    using that inv unfolding resource_inv_def set_worker_def by (auto split: if_splits)
  show ?thesis
    using inv ws unfolding resource_inv_def dom users held by (auto simp: set_worker_def)
qed

lemma resource_inv_acquire:
  assumes inv: "resource_inv m" and w: "jm_workers m j = Some w" "wk_phase w = Acquiring"
    and a: "wk_acquired w < length (wk_locks w)" and free: "jm_held m (wk_locks w ! wk_acquired w) = None"
  shows "resource_inv (set_worker j (w\<lparr>wk_acquired := wk_acquired w + 1\<rparr>)
           (m\<lparr>jm_held := (jm_held m)(wk_locks w ! wk_acquired w \<mapsto> j)\<rparr>))" (is "resource_inv ?m")
proof -
  let ?w = "w\<lparr>wk_acquired := wk_acquired w + 1\<rparr>" and ?l = "wk_locks w ! wk_acquired w"
  have dom: "dom (jm_workers ?m) = dom (jm_workers m)" using w by (auto simp: set_worker_def)
  have users: "users ?m k = users m k" for k using w by (auto simp: users_def set_worker_def)
  have take: "set (take (wk_acquired ?w) (wk_locks ?w)) = insert ?l (set (take (wk_acquired w) (wk_locks w)))"
    using a by (simp add: take_Suc_conv_app_nth)
  have "worker_ok (jm_resource_locks m) w" using inv w unfolding resource_inv_def by blast
  then have wok: "worker_ok (jm_resource_locks m) ?w" using w(2) a by (auto simp: worker_ok_def holding_ok_def)
  have held0: "jm_held m l = Some i \<longleftrightarrow> (\<exists>v. jm_workers m i = Some v \<and> l \<in> set (take (wk_acquired v) (wk_locks v)))" for l i
    using inv unfolding resource_inv_def by blast
  have held: "jm_held ?m l = Some i \<longleftrightarrow> (\<exists>v. jm_workers ?m i = Some v \<and> l \<in> set (take (wk_acquired v) (wk_locks v)))" for l i
  proof (cases "i = j")
    case True
    then have "(\<exists>v. jm_workers ?m i = Some v \<and> l \<in> set (take (wk_acquired v) (wk_locks v)))
        \<longleftrightarrow> l = ?l \<or> jm_held m l = Some j"
      using held0 [of l j] w(1) take by (simp add: set_worker_def)
    then show ?thesis using True by (simp add: set_worker_def)
  next
    case False
    then have "(\<exists>v. jm_workers ?m i = Some v \<and> l \<in> set (take (wk_acquired v) (wk_locks v))) \<longleftrightarrow> jm_held m l = Some i"
      using held0 [of l i] by (simp add: set_worker_def)
    then show ?thesis using False free by (auto simp: set_worker_def)
  qed
  have ws: "worker_ok (jm_resource_locks m) v" if "jm_workers ?m i = Some v" for i v
    using that inv wok unfolding resource_inv_def set_worker_def by (auto split: if_splits)
  show ?thesis using inv ws held unfolding resource_inv_def dom users by (simp add: set_worker_def)
qed

text \<open>A new worker, for the keys of a reserving submission.\<close>

lemma resource_inv_reserve:
  assumes inv: "resource_inv m" and i: "i < length (jm_reserving m)" "jm_reserving m ! i = (name, keys, cleanup)"
    and new: "jm_workers m j = None"
    and m0: "m0 = m\<lparr>jm_reserving := take i (jm_reserving m) @ drop (Suc i) (jm_reserving m), jm_next_id := n\<rparr>"
    and r: "reserve_resource_locks m0 keys = (m1, locks)"
  shows "resource_inv (m1\<lparr>jm_workers := (jm_workers m1)(j \<mapsto>
       \<lparr>wk_keys = keys, wk_locks = locks, wk_acquired = 0, wk_phase = Unsubmitted\<rparr>)\<rparr>)" (is "resource_inv ?m")
proof -
  have inv': "finite (dom (jm_workers m))" "jm_capacity m + length (jm_reserving m) + card (dom (jm_workers m)) = jm_max_pending m"
    "\<And>name keys cleanup. (name, keys, cleanup) \<in> set (jm_reserving m) \<Longrightarrow> strictly_sorted keys"
    "table_ok (jm_resource_locks m) (jm_next_lock m) (\<lambda>k. card (users m k))"
    "\<And>j w. jm_workers m j = Some w \<Longrightarrow> worker_ok (jm_resource_locks m) w"
    "\<And>l j. jm_held m l = Some j \<longleftrightarrow> (\<exists>w. jm_workers m j = Some w \<and> l \<in> set (take (wk_acquired w) (wk_locks w)))"
    using inv unfolding resource_inv_def by blast+
  have keys: "strictly_sorted keys" using inv'(3) nth_mem [OF i(1)] i(2) by metis
  have "table_ok (jm_resource_locks m0) (jm_next_lock m0) (\<lambda>k. card (users m k))" using inv'(4) by (simp add: m0)
  from reserve_all [OF this, of keys "[]"] keys r have
    locks: "list_all2 (lock_at (jm_resource_locks m1)) keys locks" and
    tbl: "table_ok (jm_resource_locks m1) (jm_next_lock m1) (\<lambda>k. card (users m k) + (if k \<in> set keys then 1 else 0))" and
    keep: "keeps_locks m0 m1" and same: "same_but_locks m0 m1"
    by (auto simp: reserve_resource_locks_def strictly_sorted_def)
  have fields: "jm_workers m1 = jm_workers m" "jm_capacity m1 = jm_capacity m" "jm_held m1 = jm_held m"
    "jm_max_pending m1 = jm_max_pending m" "jm_reserving m1 = take i (jm_reserving m) @ drop (Suc i) (jm_reserving m)"
    using same by (auto simp: same_but_locks_def m0)
  have "users ?m k = (if k \<in> set keys then insert j (users m k) else users m k)" for k
    using new by (auto simp: users_def fields)
  moreover have "j \<notin> users m k" for k using new by (simp add: users_def)
  ultimately have users: "card (users ?m k) = card (users m k) + (if k \<in> set keys then 1 else 0)" for k
    using finite_users [OF inv'(1), of k] by simp
  have "worker_ok (jm_resource_locks m1) w" if "jm_workers m i = Some w" for i w
    using inv'(5) [OF that] keep unfolding worker_ok_def keeps_locks_def m0
    by (auto elim: list.rel_mono_strong)
  moreover have "worker_ok (jm_resource_locks m1) \<lparr>wk_keys = keys, wk_locks = locks, wk_acquired = 0, wk_phase = Unsubmitted\<rparr>"
    using keys locks by (simp add: worker_ok_def holding_ok_def)
  ultimately have ws: "\<forall>i w. jm_workers ?m i = Some w \<longrightarrow> worker_ok (jm_resource_locks ?m) w"
    by (simp add: fields)
  have held: "\<forall>l i. jm_held ?m l = Some i \<longleftrightarrow> (\<exists>w. jm_workers ?m i = Some w \<and> l \<in> set (take (wk_acquired w) (wk_locks w)))"
    using inv'(6) new by (auto simp: fields)
  have cap: "jm_capacity ?m + length (jm_reserving ?m) + card (dom (jm_workers ?m)) = jm_max_pending ?m"
    using inv'(1,2) new i(1) by (simp add: fields card_insert_if domIff)
  have res: "\<forall>(name, keys, cleanup) \<in> set (jm_reserving ?m). strictly_sorted keys"
    using inv'(3) by (auto simp: fields dest: in_set_takeD in_set_dropD)
  show ?thesis unfolding resource_inv_def
    using cap res ws held tbl users inv'(1) by (simp add: fields)
qed

text \<open>A worker goes: its locks are free, its references are released, and releasing never raises.\<close>

definition free_locks :: "'r worker \<Rightarrow> (nat \<rightharpoonup> ustr) \<Rightarrow> nat \<rightharpoonup> ustr" where
  "free_locks w held = (\<lambda>l. if l \<in> set (take (wk_acquired w) (wk_locks w)) then None else held l)"

lemma resource_inv_release:
  assumes inv: "resource_inv m" and w: "jm_workers m j = Some w"
    and m1: "same_resources (m\<lparr>jm_held := free_locks w (jm_held m)\<rparr>) m1"
  shows "\<exists>m2. release_resource_locks m1 (wk_keys w) (wk_locks w) = Inr m2 \<and> resource_inv (remove_worker j m2)
    \<and> same_but_locks m1 m2"
proof -
  have inv': "finite (dom (jm_workers m))" "jm_capacity m + length (jm_reserving m) + card (dom (jm_workers m)) = jm_max_pending m"
    "table_ok (jm_resource_locks m) (jm_next_lock m) (\<lambda>k. card (users m k))"
    "\<And>j w. jm_workers m j = Some w \<Longrightarrow> worker_ok (jm_resource_locks m) w"
    "\<And>l j. jm_held m l = Some j \<longleftrightarrow> (\<exists>w. jm_workers m j = Some w \<and> l \<in> set (take (wk_acquired w) (wk_locks w)))"
    using inv unfolding resource_inv_def by blast+
  have f: "jm_workers m1 = jm_workers m" "jm_capacity m1 = jm_capacity m" "jm_reserving m1 = jm_reserving m"
    "jm_max_pending m1 = jm_max_pending m" "jm_resource_locks m1 = jm_resource_locks m" "jm_next_lock m1 = jm_next_lock m"
    "jm_held m1 = free_locks w (jm_held m)"
    using m1 by (simp_all add: same_resources_def)
  have wk: "list_all2 (lock_at (jm_resource_locks m)) (wk_keys w) (wk_locks w)" "distinct (wk_keys w)"
    using inv'(4) [OF w] by (auto simp: worker_ok_def strictly_sorted_def)
  have "table_ok (jm_resource_locks m1) (jm_next_lock m1) (\<lambda>k. card (users m k))"
    "list_all2 (lock_at (jm_resource_locks m1)) (wk_keys w) (wk_locks w)" using inv'(3) wk(1) by (simp_all add: f)
  from release_all [OF this wk(2)] obtain m2 where m2: "release_resource_locks m1 (wk_keys w) (wk_locks w) = Inr m2"
    "same_but_locks m1 m2"
    "table_ok (jm_resource_locks m2) (jm_next_lock m2) (\<lambda>k. card (users m k) - (if k \<in> set (wk_keys w) then 1 else 0))"
    "\<And>k l. lock_at (jm_resource_locks m1) k l \<Longrightarrow> (if k \<in> set (wk_keys w) then 1 else 0) < card (users m k) \<Longrightarrow> lock_at (jm_resource_locks m2) k l"
    by blast
  let ?m = "remove_worker j m2"
  have g: "jm_workers m2 = jm_workers m" "jm_capacity m2 = jm_capacity m" "jm_reserving m2 = jm_reserving m"
    "jm_max_pending m2 = jm_max_pending m" "jm_held m2 = free_locks w (jm_held m)"
    using m2(2) f by (auto simp: same_but_locks_def)
  have u: "users ?m k = users m k - {j}" for k
    by (auto simp: users_def remove_worker_def g)
  have uj: "j \<in> users m k \<longleftrightarrow> k \<in> set (wk_keys w)" for k using w by (simp add: users_def)
  have users: "card (users ?m k) = card (users m k) - (if k \<in> set (wk_keys w) then 1 else 0)" for k
    using finite_users [OF inv'(1), of k] uj by (simp add: u card_Diff_singleton_if)
  have pos: "0 < card (users ?m k)" if v: "jm_workers m i = Some v" "i \<noteq> j" "k \<in> set (wk_keys v)" for i v k
  proof -
    have "i \<in> users m k" using v(1,3) unfolding users_def by blast
    then have "i \<in> users ?m k" using v(2) u by blast
    moreover have "finite (users ?m k)" using finite_users [OF inv'(1), of k] by (simp add: u)
    ultimately show ?thesis by (auto simp: card_gt_0_iff)
  qed
  have ws: "worker_ok (jm_resource_locks ?m) v" if v: "jm_workers ?m i = Some v" for i v
  proof -
    from v have i: "i \<noteq> j" "jm_workers m i = Some v" by (auto simp: remove_worker_def g split: if_splits)
    note ok = inv'(4) [OF i(2)]
    have "list_all2 (lock_at (jm_resource_locks ?m)) (wk_keys v) (wk_locks v)"
    proof (rule list.rel_mono_strong)
      show "list_all2 (lock_at (jm_resource_locks m)) (wk_keys v) (wk_locks v)" using ok by (simp add: worker_ok_def)
      fix k l assume k: "k \<in> set (wk_keys v)" "lock_at (jm_resource_locks m) k l"
      have "(if k \<in> set (wk_keys w) then 1 else 0) < card (users m k)"
        using pos [OF i(2,1) k(1)] users [of k] by (auto split: if_splits)
      with m2(4) [of k l] k(2) f(5) show "lock_at (jm_resource_locks ?m) k l" by (simp add: remove_worker_def)
    qed
    with ok show ?thesis by (simp add: worker_ok_def)
  qed
  have held: "jm_held ?m l = Some i \<longleftrightarrow> (\<exists>v. jm_workers ?m i = Some v \<and> l \<in> set (take (wk_acquired v) (wk_locks v)))" for l i
  proof -
    have "jm_held m l = Some j \<longleftrightarrow> l \<in> set (take (wk_acquired w) (wk_locks w))" using inv'(5) [of l j] w by simp
    then show ?thesis using inv'(5) [of l i] by (auto simp: remove_worker_def g free_locks_def)
  qed
  have cap: "jm_capacity ?m + length (jm_reserving ?m) + card (dom (jm_workers ?m)) = jm_max_pending ?m"
  proof -
    have "0 < card (dom (jm_workers m))" using inv'(1) w card_gt_0_iff by blast
    moreover have "dom (jm_workers ?m) = dom (jm_workers m) - {j}" by (auto simp: remove_worker_def g)
    moreover have "j \<in> dom (jm_workers m)" using w by blast
    ultimately show ?thesis using inv'(1,2) by (simp add: remove_worker_def g)
  qed
  have res: "\<forall>(name, keys, cleanup) \<in> set (jm_reserving ?m). strictly_sorted keys"
    using inv unfolding resource_inv_def by (simp add: remove_worker_def g)
  have "table_ok (jm_resource_locks ?m) (jm_next_lock ?m) (\<lambda>k. card (users ?m k))"
    using m2(3) users by (simp add: remove_worker_def)
  then have "resource_inv ?m"
    unfolding resource_inv_def using cap res ws held inv'(1) by (simp add: remove_worker_def g)
  with m2(1,2) show ?thesis by blast
qed

end
