(* ===== verification/Job_States.thy ===== *)
theory Job_States
  imports Job_Resources
begin

text \<open>
  The life of a job over all executions: a record and its worker stay in step, a snapshot has the
  shape of its state, a finished job never changes its state again, an accepted cancellation
  never ends as a completion, and a discarded result never comes back.
\<close>

section \<open>Fields after the parts of an operation\<close>

lemma put_record_fields [simp]:
  "map_of (jm_records (put_record j r m)) i = (if i = j then Some r else map_of (jm_records m) i)"
  "jm_workers (put_record j r m) = jm_workers m" "jm_next_id (put_record j r m) = jm_next_id m"
  "jm_cleaned (put_record j r m) = jm_cleaned m"
  by (simp_all add: put_record_def update_conv')

lemma notify_fields [simp]:
  "jm_records (notify s m) = jm_records m" "jm_workers (notify s m) = jm_workers m"
  "jm_next_id (notify s m) = jm_next_id m" "jm_cleaned (notify s m) = jm_cleaned m"
  by (simp_all add: notify_def)

lemma clean_fields [simp]:
  "jm_records (clean j x m) = jm_records m" "jm_workers (clean j x m) = jm_workers m"
  "jm_next_id (clean j x m) = jm_next_id m"
  "jm_cleaned (clean j x m) = jm_cleaned m @ (case x of None \<Rightarrow> [] | Some y \<Rightarrow> [(j, y)])"
  by (simp_all add: clean_def split: option.split)

lemma push_cancellation_fields [simp]:
  "jm_records (push_cancellation j st m) = jm_records m" "jm_workers (push_cancellation j st m) = jm_workers m"
  "jm_next_id (push_cancellation j st m) = jm_next_id m" "jm_cleaned (push_cancellation j st m) = jm_cleaned m"
  by (simp_all add: push_cancellation_def split: option.split)

lemma set_phase_fields [simp]:
  "jm_records (set_phase j w p m) = jm_records m" "jm_next_id (set_phase j w p m) = jm_next_id m"
  "jm_workers (set_phase j w p m) i = (if i = j then Some (w\<lparr>wk_phase := p\<rparr>) else jm_workers m i)"
  "jm_cleaned (set_phase j w p m) = jm_cleaned m"
  by (simp_all add: set_phase_def set_worker_def)

lemma set_worker_fields [simp]:
  "jm_records (set_worker j w m) = jm_records m" "jm_next_id (set_worker j w m) = jm_next_id m"
  "jm_workers (set_worker j w m) i = (if i = j then Some w else jm_workers m i)"
  "jm_cleaned (set_worker j w m) = jm_cleaned m"
  by (simp_all add: set_worker_def)

lemma remove_worker_fields [simp]:
  "jm_records (remove_worker j m) = jm_records m" "jm_next_id (remove_worker j m) = jm_next_id m"
  "jm_workers (remove_worker j m) i = (if i = j then None else jm_workers m i)"
  "jm_cleaned (remove_worker j m) = jm_cleaned m"
  by (simp_all add: remove_worker_def)

lemma release_fields:
  assumes "release_resource_locks m keys locks = Inr m'"
  shows "jm_records m' = jm_records m" "jm_workers m' = jm_workers m" "jm_next_id m' = jm_next_id m"
    "jm_cleaned m' = jm_cleaned m"
proof -
  have "jm_records m' = jm_records m \<and> jm_workers m' = jm_workers m \<and> jm_next_id m' = jm_next_id m \<and> jm_cleaned m' = jm_cleaned m"
    using assms unfolding release_resource_locks_def
  proof (rule foldE_invariant [where P = "\<lambda>n. jm_records n = jm_records m \<and> jm_workers n = jm_workers m
      \<and> jm_next_id n = jm_next_id m \<and> jm_cleaned n = jm_cleaned m"])
    fix a x b
    assume "jm_records a = jm_records m \<and> jm_workers a = jm_workers m \<and> jm_next_id a = jm_next_id m \<and> jm_cleaned a = jm_cleaned m"
      and "release_resource_lock a x = Inr b"
    then show "jm_records b = jm_records m \<and> jm_workers b = jm_workers m \<and> jm_next_id b = jm_next_id m \<and> jm_cleaned b = jm_cleaned m"
      by (cases x) (auto simp: release_resource_lock_def split: option.splits if_splits)
  qed simp
  then show "jm_records m' = jm_records m" "jm_workers m' = jm_workers m" "jm_next_id m' = jm_next_id m"
    "jm_cleaned m' = jm_cleaned m" by simp_all
qed

lemma reserve_fields:
  assumes "reserve_resource_locks m keys = (m', ls)"
  shows "jm_records m' = jm_records m" "jm_workers m' = jm_workers m" "jm_next_id m' = jm_next_id m"
    "jm_cleaned m' = jm_cleaned m"
proof -
  have one: "jm_records (fst (reserve_resource_lock (n, l) k)) = jm_records n \<and> jm_workers (fst (reserve_resource_lock (n, l) k)) = jm_workers n
      \<and> jm_next_id (fst (reserve_resource_lock (n, l) k)) = jm_next_id n \<and> jm_cleaned (fst (reserve_resource_lock (n, l) k)) = jm_cleaned n"
    for n :: "'a job_manager" and l k
    by (auto simp: reserve_resource_lock_def split: option.split)
  have "jm_records (fst (foldl reserve_resource_lock (n, l) keys)) = jm_records n \<and> jm_workers (fst (foldl reserve_resource_lock (n, l) keys)) = jm_workers n
      \<and> jm_next_id (fst (foldl reserve_resource_lock (n, l) keys)) = jm_next_id n \<and> jm_cleaned (fst (foldl reserve_resource_lock (n, l) keys)) = jm_cleaned n"
    for n :: "'a job_manager" and l
  proof (induction keys arbitrary: n l)
    case (Cons k keys)
    obtain n1 l1 where "reserve_resource_lock (n, l) k = (n1, l1)" by (cases "reserve_resource_lock (n, l) k")
    with Cons [of n1 l1] one [of n l k] show ?case by simp
  qed simp
  from this [of m "[]"] assms show "jm_records m' = jm_records m" "jm_workers m' = jm_workers m"
    "jm_next_id m' = jm_next_id m" "jm_cleaned m' = jm_cleaned m"
    by (simp_all add: reserve_resource_locks_def)
qed

lemma worker_in_Inr [result_simps]: "worker_in P m j = Inr w \<longleftrightarrow> jm_workers m j = Some w \<and> P (wk_phase w)"
  by (auto simp: worker_in_def split: option.splits)

lemma get_record_Inr [result_simps]: "get_record m j = Inr r \<longleftrightarrow> map_of (jm_records m) j = Some r"
  by (auto simp: get_record_def split: option.splits)

section \<open>Records and workers in step\<close>

definition phase_ok :: "'r phase \<Rightarrow> job_state \<Rightarrow> bool" where
  "phase_ok p st \<longleftrightarrow> (case p of
     Unsubmitted \<Rightarrow> st = JQueued | Scheduled \<Rightarrow> st = JQueued | Acquiring \<Rightarrow> st = JQueued | Ready \<Rightarrow> st = JQueued
   | Working \<Rightarrow> st = JRunning | Returned x \<Rightarrow> st = JRunning | Completing x \<Rightarrow> st = JRunning | Failing f \<Rightarrow> st = JRunning
   | Cancelling x \<Rightarrow> st = JQueued \<or> st = JRunning
   | Finishing \<Rightarrow> st \<noteq> JQueued \<and> st \<noteq> JRunning)"

definition snapshot_ok :: "'r job_record \<Rightarrow> bool" where
  "snapshot_ok r \<longleftrightarrow> (let s = jr_snapshot r in
     (job_active s \<longleftrightarrow> js_finished_at s = None)
     \<and> (js_result s \<noteq> None \<longrightarrow> js_state s = JCompleted)
     \<and> (jr_result_discarded r \<longrightarrow> js_result s = None)
     \<and> (js_state s = JCompleted \<longrightarrow> jr_cancellation_accepted_at r = None)
     \<and> (js_state s = JRunning \<or> js_state s = JCompleted \<or> js_state s = JFailed \<longrightarrow> js_started_at s \<noteq> None)
     \<and> (js_error_code s \<noteq> None \<longleftrightarrow> js_state s = JFailed \<or> js_state s = JCancelled)
     \<and> (js_state s = JCompleted \<longrightarrow> js_outcome_summary s \<noteq> None \<and> js_next_action s \<noteq> None)
     \<and> (js_state s = JCancelled \<longrightarrow> \<not> js_cancellation_pending s \<and> js_error_code s = Some (u ''JOB_CANCELLED'')))"

definition job_at_ok :: "nat \<Rightarrow> ustr \<Rightarrow> 'r job_record option \<Rightarrow> 'r worker option \<Rightarrow> bool" where
  "job_at_ok next_id j ro wo \<longleftrightarrow> (case ro of
     None \<Rightarrow> wo = None
   | Some r \<Rightarrow> (\<exists>n < next_id. j = job_id_of n) \<and> js_job_id (jr_snapshot r) = j \<and> snapshot_ok r \<and>
       (case wo of None \<Rightarrow> \<not> job_active (jr_snapshot r)
        | Some w \<Rightarrow> jr_resource_keys r = wk_keys w \<and> jr_resource_locks r = wk_locks w
            \<and> phase_ok (wk_phase w) (js_state (jr_snapshot r))))"

definition jobs_inv :: "'r job_manager \<Rightarrow> bool" where
  "jobs_inv m \<longleftrightarrow> (\<forall>j. job_at_ok (jm_next_id m) j (map_of (jm_records m) j) (jm_workers m j))"

lemma jobs_inv_point:
  assumes "jobs_inv m" and "\<And>i. i \<noteq> j \<Longrightarrow> map_of (jm_records m') i = map_of (jm_records m) i"
    and "\<And>i. i \<noteq> j \<Longrightarrow> jm_workers m' i = jm_workers m i" and "jm_next_id m' = jm_next_id m"
    and "job_at_ok (jm_next_id m) j (map_of (jm_records m') j) (jm_workers m' j)"
  shows "jobs_inv m'"
  unfolding jobs_inv_def
proof
  fix i show "job_at_ok (jm_next_id m') i (map_of (jm_records m') i) (jm_workers m' i)"
    using assms by (cases "i = j") (auto simp: jobs_inv_def)
qed

lemma jobs_inv_at: "jobs_inv m \<Longrightarrow> job_at_ok (jm_next_id m) j (map_of (jm_records m) j) (jm_workers m j)"
  by (simp add: jobs_inv_def)

lemma job_id_of_inject [simp]: "job_id_of m = job_id_of n \<longleftrightarrow> m = n"
  by (simp add: job_id_of_def)

lemma jobs_inv_fresh: "jobs_inv m \<Longrightarrow> map_of (jm_records m) (job_id_of (jm_next_id m)) = None
    \<and> jm_workers m (job_id_of (jm_next_id m)) = None"
  using jobs_inv_at [of m "job_id_of (jm_next_id m)"]
  by (auto simp: job_at_ok_def split: option.splits)

lemmas job_shape = job_at_ok_def snapshot_ok_def phase_ok_def job_active_def store_snapshot_def Let_def

section \<open>Every operation keeps the invariant\<close>

lemma worker_phase_inv:
  assumes inv: "jobs_inv m" and w: "jm_workers m j = Some w"
    and m': "jm_records m' = jm_records m" "jm_next_id m' = jm_next_id m"
      "\<And>i. i \<noteq> j \<Longrightarrow> jm_workers m' i = jm_workers m i"
    and w': "jm_workers m' j = Some w'" "wk_keys w' = wk_keys w" "wk_locks w' = wk_locks w"
    and ok: "\<And>st. phase_ok (wk_phase w) st \<Longrightarrow> phase_ok (wk_phase w') st"
  shows "jobs_inv m'"
proof (rule jobs_inv_point [OF inv, of j])
  show "job_at_ok (jm_next_id m) j (map_of (jm_records m') j) (jm_workers m' j)"
    using jobs_inv_at [OF inv, of j] w m' w' ok by (auto simp: job_at_ok_def split: option.splits)
qed (use m' in auto)

lemma record_inv:
  assumes inv: "jobs_inv m" and r: "map_of (jm_records m) j = Some r"
    and m': "\<And>i. map_of (jm_records m') i = (if i = j then Some r' else map_of (jm_records m) i)"
      "jm_next_id m' = jm_next_id m" "jm_workers m' = jm_workers m"
    and ok: "js_job_id (jr_snapshot r') = js_job_id (jr_snapshot r)" "js_state (jr_snapshot r') = js_state (jr_snapshot r)"
      "jr_resource_keys r' = jr_resource_keys r" "jr_resource_locks r' = jr_resource_locks r"
      "snapshot_ok r \<Longrightarrow> snapshot_ok r'"
  shows "jobs_inv m'"
proof (rule jobs_inv_point [OF inv, of j])
  show "job_at_ok (jm_next_id m) j (map_of (jm_records m') j) (jm_workers m' j)"
    using jobs_inv_at [OF inv, of j] r m' ok by (auto simp: job_at_ok_def job_active_def split: option.splits)
qed (use m' in auto)

lemma jobs_inv_simple:
  assumes "jobs_inv m" and "jm_records m' = jm_records m" "jm_workers m' = jm_workers m" "jm_next_id m' = jm_next_id m"
  shows "jobs_inv m'"
  using assms by (simp add: jobs_inv_def)

lemma begin_submit_inv: "jobs_inv m \<Longrightarrow> begin_submit name keys cleanup m = Inr m' \<Longrightarrow> jobs_inv m'"
  by (erule jobs_inv_simple) (auto simp: begin_submit_def result_simps split: if_splits)

lemma reserve_submit_inv: 
  assumes inv: "jobs_inv m" and s: "reserve_submit digest i now m = Inr (m', e)"
  shows "jobs_inv m'"
proof -
  obtain name keys cleanup where i: "i < length (jm_reserving m)" "jm_reserving m ! i = (name, keys, cleanup)"
    using s by (cases "jm_reserving m ! i") (auto simp: reserve_submit_def split: if_splits)
  let ?m0 = "m\<lparr>jm_reserving := take i (jm_reserving m) @ drop (Suc i) (jm_reserving m)\<rparr>"
  show ?thesis
  proof (cases "validate_admission ?m0")
    case (Inl err)
    then show ?thesis using s i inv by (auto simp: reserve_submit_def intro!: jobs_inv_simple [OF inv])
  next
    case (Inr x)
    obtain m1 locks where r: "reserve_resource_locks (?m0\<lparr>jm_next_id := jm_next_id m + 1\<rparr>) keys = (m1, locks)"
      by (cases "reserve_resource_locks (?m0\<lparr>jm_next_id := jm_next_id m + 1\<rparr>) keys")
    note f = reserve_fields [OF r]
    let ?j = "job_id_of (jm_next_id m)"
    have at: "job_at_ok (jm_next_id m) k (map_of (jm_records m) k) (jm_workers m k)" for k by (rule jobs_inv_at [OF inv])
    have mono: "job_at_ok (Suc n) k ro wo" if "job_at_ok n k ro wo" for n k and ro :: "'a job_record option" and wo
      using that by (auto simp: job_at_ok_def split: option.splits intro: less_SucI)
    have "job_at_ok (jm_next_id m') k (map_of (jm_records m') k) (jm_workers m' k)" for k
    proof (cases "k = ?j")
      case True
      then show ?thesis using s i Inr r f
        by (auto simp: reserve_submit_def Let_def new_record_def job_shape notify_def)
    next
      case False
      then show ?thesis using s i Inr r f mono [OF at [of k]]
        by (auto simp: reserve_submit_def Let_def notify_def)
    qed
    then show ?thesis by (simp add: jobs_inv_def)
  qed
qed

lemma start_submit_inv: "jobs_inv m \<Longrightarrow> start_submit j m = Inr m' \<Longrightarrow> jobs_inv m'"
  by (auto simp: start_submit_def result_simps phase_ok_def intro!: worker_phase_inv [of m j])

lemma worker_start_inv: "jobs_inv m \<Longrightarrow> worker_start j m = Inr m' \<Longrightarrow> jobs_inv m'"
  by (auto simp: worker_start_def result_simps phase_ok_def intro!: worker_phase_inv [of m j])

lemma worker_acquire_inv: "jobs_inv m \<Longrightarrow> worker_acquire j m = Inr m' \<Longrightarrow> jobs_inv m'"
  by (auto simp: worker_acquire_def result_simps phase_ok_def Let_def split: if_splits intro!: worker_phase_inv [of m j])

lemma worker_timeout_inv: "jobs_inv m \<Longrightarrow> worker_timeout j m = Inr m' \<Longrightarrow> jobs_inv m'"
  by (auto simp: worker_timeout_def result_simps phase_ok_def split: if_splits sum.splits intro!: worker_phase_inv [of m j])

lemma worker_admit_inv: "jobs_inv m \<Longrightarrow> worker_admit j m = Inr m' \<Longrightarrow> jobs_inv m'"
  by (auto simp: worker_admit_def result_simps phase_ok_def split: if_splits sum.splits intro!: worker_phase_inv [of m j])

lemma function_returns_inv: "jobs_inv m \<Longrightarrow> function_returns j x m = Inr m' \<Longrightarrow> jobs_inv m'"
  by (auto simp: function_returns_def result_simps phase_ok_def intro!: worker_phase_inv [of m j])

lemma function_cancelled_inv: "jobs_inv m \<Longrightarrow> function_cancelled j m = Inr m' \<Longrightarrow> jobs_inv m'"
  by (auto simp: function_cancelled_def result_simps phase_ok_def intro!: worker_phase_inv [of m j])

lemma function_fails_inv: "jobs_inv m \<Longrightarrow> function_fails j f m = Inr m' \<Longrightarrow> jobs_inv m'"
  by (auto simp: function_fails_def result_simps phase_ok_def intro!: worker_phase_inv [of m j])

lemma worker_check_inv: "jobs_inv m \<Longrightarrow> worker_check j m = Inr m' \<Longrightarrow> jobs_inv m'"
  by (auto simp: worker_check_def result_simps phase_ok_def Let_def raise_if_cancelled_def split: phase.splits if_splits
      intro!: worker_phase_inv [of m j])

lemma set_future_inv: "jobs_inv m \<Longrightarrow> set_future j m = Inr m' \<Longrightarrow> jobs_inv m'"
  by (auto simp: set_future_def result_simps snapshot_ok_def split: if_splits intro!: record_inv [of m j])

lemma deliver_cancellation_inv:
  assumes inv: "jobs_inv m" and d: "deliver_cancellation redact i m = Inr m'"
  shows "jobs_inv m'"
proof -
  obtain j st where js: "jm_undelivered m ! i = (j, st)" by (cases "jm_undelivered m ! i")
  let ?m = "m\<lparr>jm_undelivered := take i (jm_undelivered m) @ drop (Suc i) (jm_undelivered m)\<rparr>"
  have m': "m' = sync_cancellation redact j st ?m"
    using d js by (auto simp: deliver_cancellation_def split: if_splits)
  have inv': "jobs_inv ?m" by (rule jobs_inv_simple [OF inv]) simp_all
  show ?thesis
  proof (cases "map_of (jm_records m) j")
    case None
    then show ?thesis using inv' by (simp add: m' sync_cancellation_def)
  next
    case (Some r)
    show ?thesis
    proof (cases "job_active (jr_snapshot r)")
      case False
      then show ?thesis using inv' Some by (simp add: m' sync_cancellation_def)
    next
      case True
      have "jobs_inv (sync_cancellation redact j st ?m)"
        by (rule record_inv [OF inv', where j = j and r = r and r' = "sync_record redact st r"])
          (use Some True in \<open>auto simp: sync_cancellation_def sync_record_def Let_def snapshot_ok_def job_active_def\<close>)
      then show ?thesis using m' by simp
    qed
  qed
qed

lemma worker_run_inv:
  assumes inv: "jobs_inv m" and d: "worker_run j now m = Inr m'"
  shows "jobs_inv m'"
proof -
  obtain w r where w: "jm_workers m j = Some w" "wk_phase w = Ready" and r: "map_of (jm_records m) j = Some r"
    and m': "m' = notify (jr_snapshot (transition_running now r)) (put_record j (transition_running now r) (set_phase j w Working m))"
    using d by (auto simp: worker_run_def result_simps Let_def)
  show ?thesis
  proof (rule jobs_inv_point [OF inv, of j])
    show "job_at_ok (jm_next_id m) j (map_of (jm_records m') j) (jm_workers m' j)"
      using jobs_inv_at [OF inv, of j] w r by (auto simp: m' job_shape transition_running_def)
  qed (simp_all add: m')
qed

lemma transition_finish_ok:
  assumes "job_at_ok n j (Some r) (Some w)"
  shows "wk_phase w = Completing x \<Longrightarrow> transition_completed now x r = (r', c) \<Longrightarrow> job_at_ok n j (Some r') (Some (w\<lparr>wk_phase := Finishing\<rparr>))"
    and "wk_phase w = Cancelling x \<Longrightarrow> job_at_ok n j (Some (transition_cancelled now r)) (Some (w\<lparr>wk_phase := Finishing\<rparr>))"
    and "wk_phase w = Failing f \<Longrightarrow> job_at_ok n j (Some (transition_failed redact now f r)) (Some (w\<lparr>wk_phase := Finishing\<rparr>))"
proof -
  show "job_at_ok n j (Some r') (Some (w\<lparr>wk_phase := Finishing\<rparr>))"
    if "wk_phase w = Completing x" "transition_completed now x r = (r', c)"
    using assms that by (cases "jr_cancellation_accepted_at r"; cases "jr_result_discarded r")
      (auto simp: job_shape transition_completed_def cancelled_snapshot_def split: if_splits)
  show "job_at_ok n j (Some (transition_cancelled now r)) (Some (w\<lparr>wk_phase := Finishing\<rparr>))" if "wk_phase w = Cancelling x"
    using assms that by (auto simp: job_shape transition_cancelled_def cancelled_snapshot_def split: if_splits)
  show "job_at_ok n j (Some (transition_failed redact now f r)) (Some (w\<lparr>wk_phase := Finishing\<rparr>))" if "wk_phase w = Failing f"
    using assms that by (auto simp: job_shape transition_failed_def split: if_splits failure.splits)
qed

lemma worker_finish_Inr:
  assumes "worker_finish redact j now m = Inr m'"
  shows "\<exists>w r r' x. jm_workers m j = Some w \<and> map_of (jm_records m) j = Some r
    \<and> m' = notify (jr_snapshot r') (clean j x (put_record j r' (set_phase j w Finishing m)))
    \<and> ((\<exists>res. wk_phase w = Completing res \<and> transition_completed now res r = (r', x))
       \<or> (\<exists>res. wk_phase w = Cancelling res \<and> r' = transition_cancelled now r \<and> x = (if jr_result_cleanup r then res else None))
       \<or> (\<exists>f. wk_phase w = Failing f \<and> r' = transition_failed redact now f r \<and> x = None))"
proof -
  obtain w r where w: "jm_workers m j = Some w" and r: "map_of (jm_records m) j = Some r"
    using assms by (auto simp: worker_finish_def result_simps)
  show ?thesis using assms w r
    by (cases "wk_phase w") (auto simp: worker_finish_def result_simps Let_def split: prod.splits)
qed

lemma worker_finish_inv:
  assumes inv: "jobs_inv m" and d: "worker_finish redact j now m = Inr m'"
  shows "jobs_inv m'"
proof -
  from worker_finish_Inr [OF d] obtain w r r' x where w: "jm_workers m j = Some w" and r: "map_of (jm_records m) j = Some r"
    and m': "m' = notify (jr_snapshot r') (clean j x (put_record j r' (set_phase j w Finishing m)))"
    and t: "(\<exists>res. wk_phase w = Completing res \<and> transition_completed now res r = (r', x))
       \<or> (\<exists>res. wk_phase w = Cancelling res \<and> r' = transition_cancelled now r \<and> x = (if jr_result_cleanup r then res else None))
       \<or> (\<exists>f. wk_phase w = Failing f \<and> r' = transition_failed redact now f r \<and> x = None)" by blast
  have at: "job_at_ok (jm_next_id m) j (Some r) (Some w)" using jobs_inv_at [OF inv, of j] w r by simp
  have "job_at_ok (jm_next_id m) j (Some r') (Some (w\<lparr>wk_phase := Finishing\<rparr>))"
    using t transition_finish_ok [OF at] by blast
  then show ?thesis by (intro jobs_inv_point [OF inv, of j]) (simp_all add: m')
qed

lemma refuse_submit_inv:
  assumes inv: "jobs_inv m" and d: "refuse_submit j m = Inr m'"
  shows "jobs_inv m'"
proof -
  obtain w m1 where w: "jm_workers m j = Some w"
    and r: "release_resource_locks (m\<lparr>jm_records := AList.delete j (jm_records m)\<rparr>) (wk_keys w) (wk_locks w) = Inr m1"
    and m': "m' = remove_worker j m1"
    using d by (auto simp: refuse_submit_def result_simps)
  show ?thesis
    by (rule jobs_inv_point [OF inv, of j])
      (simp_all add: m' release_fields [OF r] delete_conv' job_at_ok_def)
qed

lemma worker_release_inv:
  assumes inv: "jobs_inv m" and d: "worker_release j m = Inr m'"
  shows "jobs_inv m'"
proof -
  obtain w m1 h where w: "jm_workers m j = Some w" "wk_phase w = Finishing"
    and r: "release_resource_locks (m\<lparr>jm_held := h\<rparr>) (wk_keys w) (wk_locks w) = Inr m1"
    and m': "m' = remove_worker j m1"
    using d by (auto simp: worker_release_def result_simps Let_def)
  show ?thesis
  proof (rule jobs_inv_point [OF inv, of j])
    show "job_at_ok (jm_next_id m) j (map_of (jm_records m') j) (jm_workers m' j)"
      using jobs_inv_at [OF inv, of j] w
      by (auto simp: m' release_fields [OF r] job_at_ok_def phase_ok_def job_active_def split: option.splits)
  qed (simp_all add: m' release_fields [OF r])
qed

lemma reporter_update_inv: "jobs_inv m \<Longrightarrow> reporter_update redact j op c t now m = Inr m' \<Longrightarrow> jobs_inv m'"
  by (auto simp: reporter_update_def result_simps snapshot_ok_def job_active_def Let_def split: if_splits
      intro!: record_inv [of m j])

lemma reporter_outcome_inv: "jobs_inv m \<Longrightarrow> reporter_outcome redact j s n m = Inr m' \<Longrightarrow> jobs_inv m'"
  by (auto simp: reporter_outcome_def result_simps snapshot_ok_def job_active_def Let_def split: if_splits
      intro!: record_inv [of m j])

lemma section_enter_inv: "jobs_inv m \<Longrightarrow> section_enter j op m = Inr m' \<Longrightarrow> jobs_inv m'"
  by (auto simp: section_enter_def result_simps snapshot_ok_def Let_def intro!: record_inv [of m j])

lemma section_exit_inv: "jobs_inv m \<Longrightarrow> section_exit j m = Inr m' \<Longrightarrow> jobs_inv m'"
  by (auto simp: section_exit_def result_simps snapshot_ok_def Let_def intro!: record_inv [of m j])

lemma cancel_request_inv: "jobs_inv m \<Longrightarrow> cancel_request j now m = Inr m' \<Longrightarrow> jobs_inv m'"
  by (auto simp: cancel_request_def result_simps snapshot_ok_def Let_def case_prod_beta split: if_splits intro!: record_inv [of m j])

lemma discard_result_inv: "jobs_inv m \<Longrightarrow> discard_result j m = Inr m' \<Longrightarrow> jobs_inv m'"
  by (auto simp: discard_result_def result_simps snapshot_ok_def job_active_def Let_def intro!: record_inv [of m j])

text \<open>The locked section of a cancel either does nothing, or marks an active record, or finishes it.\<close>

definition accepted_time :: "ustr \<Rightarrow> 'r job_record \<Rightarrow> ustr" where
  "accepted_time now r = (case jr_cancellation_accepted_at r of None \<Rightarrow> now | Some t \<Rightarrow> t)"

definition marked_record :: "ustr \<Rightarrow> 'r job_record \<Rightarrow> 'r job_record" where
  "marked_record now r = r\<lparr>jr_cancellation_accepted_at := Some (accepted_time now r),
     jr_snapshot := (jr_snapshot r)\<lparr>js_cancellation_requested_at := Some (accepted_time now r)\<rparr>\<rparr>"

definition dropped_record :: "ustr \<Rightarrow> 'r job_record \<Rightarrow> 'r job_record" where
  "dropped_record now r = r\<lparr>jr_cancellation_accepted_at := Some (accepted_time now r),
     jr_snapshot := cancelled_snapshot now (u ''The queued background job was cancelled.'')
       (Some (accepted_time now r)) (jr_snapshot r)\<rparr>"

lemma cancel_accept_cases [consumes 1, case_names same mark drop]:
  assumes c: "cancel_accept j now m = Inr m'"
  obtains (same) r where "map_of (jm_records m) j = Some r" "\<not> job_active (jr_snapshot r)" "m' = m"
  | (mark) r where "map_of (jm_records m) j = Some r" "job_active (jr_snapshot r)" "m' = put_record j (marked_record now r) m"
  | (drop) r w m1 where "map_of (jm_records m) j = Some r" "jm_workers m j = Some w" "wk_phase w = Scheduled"
      "js_state (jr_snapshot r) = JQueued"
      "release_resource_locks (put_record j (dropped_record now r) m) (jr_resource_keys r) (jr_resource_locks r) = Inr m1"
      "m' = notify (jr_snapshot (dropped_record now r)) (remove_worker j m1)"
proof -
  from c obtain r where r: "map_of (jm_records m) j = Some r"
    by (cases "map_of (jm_records m) j") (simp_all add: cancel_accept_def get_record_def)
  have get: "get_record m j = Inr r" using r by (simp add: get_record_def)
  show thesis
  proof (cases "job_active (jr_snapshot r)")
    case False
    then have "m' = m" using c by (simp add: cancel_accept_def get Let_def)
    with r False show thesis by (rule same)
  next
    case active: True
    show thesis
    proof (cases "\<exists>w. jm_workers m j = Some w \<and> js_state (jr_snapshot r) = JQueued \<and> jr_future r \<and> wk_phase w = Scheduled")
      case False
      then have "m' = put_record j (marked_record now r) m"
        using c active by (simp add: cancel_accept_def get Let_def marked_record_def accepted_time_def split: option.splits if_splits)
      with r active show thesis by (rule mark)
    next
      case True
      then obtain w where w: "jm_workers m j = Some w" "js_state (jr_snapshot r) = JQueued" "jr_future r" "wk_phase w = Scheduled"
        by blast
      have "bindE (release_resource_locks (put_record j (dropped_record now r) m) (jr_resource_keys r) (jr_resource_locks r))
          (\<lambda>m1. Inr (notify (jr_snapshot (dropped_record now r)) (remove_worker j m1))) = Inr m'"
        using c active w by (simp add: cancel_accept_def get Let_def dropped_record_def accepted_time_def)
      then obtain m1 where "release_resource_locks (put_record j (dropped_record now r) m) (jr_resource_keys r) (jr_resource_locks r) = Inr m1"
        "m' = notify (jr_snapshot (dropped_record now r)) (remove_worker j m1)"
        by (auto simp: bindE_Inr_iff)
      with r w show thesis by (intro drop)
    qed
  qed
qed

lemma cancel_accept_inv:
  assumes inv: "jobs_inv m" and d: "cancel_accept j now m = Inr m'"
  shows "jobs_inv m'"
  using d
proof (cases rule: cancel_accept_cases)
  case (same r)
  then show ?thesis using inv by simp
next
  case (mark r)
  have "snapshot_ok r \<Longrightarrow> snapshot_ok (marked_record now r)"
    using mark(2) by (auto simp: marked_record_def snapshot_ok_def job_active_def Let_def)
  then show ?thesis
    by (intro record_inv [OF inv mark(1), where r' = "marked_record now r"]) (simp_all add: mark(3) marked_record_def)
next
  case (drop r w m1)
  have "job_at_ok (jm_next_id m) j (Some r) (Some w)" using jobs_inv_at [OF inv, of j] drop by simp
  then have "job_at_ok (jm_next_id m) j (Some (dropped_record now r)) None"
    by (simp add: job_shape dropped_record_def cancelled_snapshot_def)
  then show ?thesis
    by (intro jobs_inv_point [OF inv, of j]) (simp_all add: drop(6) release_fields [OF drop(5)])
qed

lemma shutdown_record_ok: "job_at_ok n j (Some r) wo \<Longrightarrow> job_at_ok n j (Some (shutdown_record r)) wo"
proof -
  have "js_state (jr_snapshot (shutdown_record r)) = js_state (jr_snapshot r)"
    "js_job_id (jr_snapshot (shutdown_record r)) = js_job_id (jr_snapshot r)"
    "jr_resource_keys (shutdown_record r) = jr_resource_keys r" "jr_resource_locks (shutdown_record r) = jr_resource_locks r"
    by (simp_all add: shutdown_record_def)
  moreover have "snapshot_ok r \<Longrightarrow> snapshot_ok (shutdown_record r)"
    by (simp add: snapshot_ok_def shutdown_record_def Let_def job_active_def)
  ultimately show "job_at_ok n j (Some r) wo \<Longrightarrow> job_at_ok n j (Some (shutdown_record r)) wo"
    by (cases wo) (simp_all add: job_at_ok_def job_active_def)
qed

lemma shutdown_fields [simp]:
  "map_of (jm_records (shutdown m)) j = map_option shutdown_record (map_of (jm_records m) j)"
  "jm_workers (shutdown m) = jm_workers m" "jm_next_id (shutdown m) = jm_next_id m"
  by (simp_all add: shutdown_def map_of_map)

lemma shutdown_inv:
  assumes inv: "jobs_inv m"
  shows "jobs_inv (shutdown m)"
  unfolding jobs_inv_def
proof
  fix j
  show "job_at_ok (jm_next_id (shutdown m)) j (map_of (jm_records (shutdown m)) j) (jm_workers (shutdown m) j)"
    using jobs_inv_at [OF inv, of j] by (cases "map_of (jm_records m) j") (simp_all add: shutdown_record_ok)
qed

lemmas jobs_inv_ops = begin_submit_inv start_submit_inv refuse_submit_inv set_future_inv deliver_cancellation_inv
  worker_start_inv worker_acquire_inv worker_timeout_inv worker_admit_inv worker_run_inv function_returns_inv
  function_cancelled_inv function_fails_inv worker_check_inv worker_finish_inv worker_release_inv reporter_update_inv
  reporter_outcome_inv section_enter_inv section_exit_inv cancel_accept_inv cancel_request_inv discard_result_inv
  reserve_submit_inv

lemma job_apply_jobs_inv: "job_apply redact digest a m = Inr m' \<Longrightarrow> jobs_inv m \<Longrightarrow> jobs_inv m'"
  by (cases a) (auto simp: bindE_Inr_iff shutdown_inv dest: jobs_inv_ops [rotated])

lemma reachable_jobs_inv: "job_reachable redact digest m \<Longrightarrow> jobs_inv m"
proof (induction rule: job_reachable.induct)
  case (init workers pending start m)
  then show ?case by (auto simp: new_job_manager_def jobs_inv_def job_at_ok_def split: if_splits)
next
  case (step m m')
  then show ?case by (auto elim: job_stepE intro: job_apply_jobs_inv)
qed

end
