(* ===== verification/Job_Safety.thy ===== *)
theory Job_Safety
  imports Job_States
begin

text \<open>
  What holds of every manager an execution reaches: the resource invariant, that releasing
  locks never raises, mutual exclusion of jobs that share a resource, the absence of a circular
  wait, and the fate of a job that is finished, cancelled or discarded.
\<close>

section \<open>Every step keeps the resource invariant\<close>

lemma resource_inv_phase:
  assumes "resource_inv m" and "jm_workers m j = Some w"
    and "holding_ok (wk_phase w) (wk_acquired w) (length (wk_locks w)) \<Longrightarrow> holding_ok p (wk_acquired w) (length (wk_locks w))"
  shows "resource_inv (set_phase j w p m)"
proof -
  have "worker_ok (jm_resource_locks m) w" using assms(1,2) unfolding resource_inv_def by blast
  then show ?thesis unfolding set_phase_def
    by (intro resource_inv_set_worker [OF assms(1,2)]) (simp_all add: assms(3) worker_ok_def)
qed

lemma same_resources_inv: "same_resources m m' \<Longrightarrow> resource_inv m \<Longrightarrow> resource_inv m'"
  by (simp add: resource_inv_same)

lemma same_resources_after [simp]:
  "resource_inv (notify s m) \<longleftrightarrow> resource_inv m" "resource_inv (clean j x m) \<longleftrightarrow> resource_inv m"
  "resource_inv (put_record j r m) \<longleftrightarrow> resource_inv m" "resource_inv (push_cancellation j st m) \<longleftrightarrow> resource_inv m"
  "resource_inv (m\<lparr>jm_records := rs\<rparr>) \<longleftrightarrow> resource_inv m" "resource_inv (m\<lparr>jm_undelivered := ud\<rparr>) \<longleftrightarrow> resource_inv m"
  by (rule resource_inv_same, simp)+

lemma foldl_free: "foldl (\<lambda>h l. h(l := None)) h ls = (\<lambda>l. if l \<in> set ls then None else h l)"
  by (induction ls arbitrary: h) (auto simp: fun_eq_iff)

lemma strictly_sorted_sort [simp]: "strictly_sorted (sort (remdups ks))"
  by (simp add: strictly_sorted_def)

lemma begin_submit_resource:
  assumes inv: "resource_inv m" and b: "begin_submit name keys cleanup m = Inr m'"
  shows "resource_inv m'"
proof -
  obtain ks where m': "m' = m\<lparr>jm_capacity := jm_capacity m - 1, jm_reserving := jm_reserving m @ [(name, ks, cleanup)]\<rparr>"
    and ks: "strictly_sorted ks" and pos: "jm_capacity m \<noteq> 0"
    using b by (auto simp: begin_submit_def validate_submission_def result_simps split: if_splits)
  have "users m' k = users m k" for k by (simp add: users_def m')
  with inv ks pos show ?thesis by (auto simp: resource_inv_def m')
qed

lemma reserve_submit_resource:
  assumes inv: "resource_inv m" and jobs: "jobs_inv m" and s: "reserve_submit digest i now m = Inr (m', e)"
  shows "resource_inv m'"
proof -
  obtain name keys cleanup where i: "i < length (jm_reserving m)" "jm_reserving m ! i = (name, keys, cleanup)"
    using s by (cases "jm_reserving m ! i") (auto simp: reserve_submit_def split: if_splits)
  let ?m0 = "m\<lparr>jm_reserving := take i (jm_reserving m) @ drop (Suc i) (jm_reserving m)\<rparr>"
  show ?thesis
  proof (cases "validate_admission ?m0")
    case (Inl err)
    then have m': "m' = ?m0\<lparr>jm_capacity := jm_capacity m + 1\<rparr>"
      using s i by (simp add: reserve_submit_def)
    have "users m' k = users m k" for k by (simp add: users_def m')
    moreover have "\<forall>(n, ks, c) \<in> set (jm_reserving m'). strictly_sorted ks"
      using inv by (auto simp: m' resource_inv_def dest: in_set_takeD in_set_dropD)
    ultimately show ?thesis using inv i(1) by (simp add: resource_inv_def m')
  next
    case (Inr x)
    let ?j = "job_id_of (jm_next_id m)" and ?m0' = "?m0\<lparr>jm_next_id := jm_next_id m + 1\<rparr>"
    obtain m1 locks where r: "reserve_resource_locks ?m0' keys = (m1, locks)"
      by (cases "reserve_resource_locks ?m0' keys")
    let ?w = "\<lparr>wk_keys = keys, wk_locks = locks, wk_acquired = 0, wk_phase = Unsubmitted\<rparr>"
    have "jm_workers m ?j = None" using jobs_inv_fresh [OF jobs] by simp
    from resource_inv_reserve [OF inv i this _ r, of "jm_next_id m + 1"]
    have "resource_inv (m1\<lparr>jm_workers := (jm_workers m1)(?j \<mapsto> ?w)\<rparr>)" by simp
    moreover have "same_resources (m1\<lparr>jm_workers := (jm_workers m1)(?j \<mapsto> ?w)\<rparr>) m'"
      using s i Inr r by (auto simp: reserve_submit_def Let_def notify_def put_record_def same_resources_def)
    ultimately show ?thesis by (rule same_resources_inv [rotated])
  qed
qed

lemma phase_step_resource:
  "start_submit j m = Inr m' \<Longrightarrow> resource_inv m \<Longrightarrow> resource_inv m'"
  "worker_start j m = Inr m' \<Longrightarrow> resource_inv m \<Longrightarrow> resource_inv m'"
  "worker_timeout j m = Inr m' \<Longrightarrow> resource_inv m \<Longrightarrow> resource_inv m'"
  "worker_admit j m = Inr m' \<Longrightarrow> resource_inv m \<Longrightarrow> resource_inv m'"
  "worker_run j now m = Inr m' \<Longrightarrow> resource_inv m \<Longrightarrow> resource_inv m'"
  "function_returns j x m = Inr m' \<Longrightarrow> resource_inv m \<Longrightarrow> resource_inv m'"
  "function_cancelled j m = Inr m' \<Longrightarrow> resource_inv m \<Longrightarrow> resource_inv m'"
  "function_fails j f m = Inr m' \<Longrightarrow> resource_inv m \<Longrightarrow> resource_inv m'"
  "worker_check j m = Inr m' \<Longrightarrow> resource_inv m \<Longrightarrow> resource_inv m'"
  by (auto simp: start_submit_def worker_start_def worker_timeout_def worker_admit_def worker_run_def
      function_returns_def function_cancelled_def function_fails_def worker_check_def result_simps Let_def
      holding_ok_def raise_if_cancelled_def split: if_splits phase.splits intro!: resource_inv_phase)

lemma worker_finish_resource:
  assumes inv: "resource_inv m" and d: "worker_finish redact j now m = Inr m'"
  shows "resource_inv m'"
proof -
  from worker_finish_Inr [OF d] obtain w r' x where w: "jm_workers m j = Some w"
    and m': "m' = notify (jr_snapshot r') (clean j x (put_record j r' (set_phase j w Finishing m)))" by blast
  have "resource_inv (set_phase j w Finishing m)"
    by (rule resource_inv_phase [OF inv w]) (simp add: holding_ok_def)
  then show ?thesis by (simp add: m')
qed

lemma worker_acquire_resource: "worker_acquire j m = Inr m' \<Longrightarrow> resource_inv m \<Longrightarrow> resource_inv m'"
  by (auto simp: worker_acquire_def result_simps Let_def split: if_splits dest: resource_inv_acquire)

text \<open>The three operations that release a worker's references succeed wherever they are enabled.\<close>

lemma worker_ok_at: "resource_inv m \<Longrightarrow> jm_workers m j = Some w \<Longrightarrow> worker_ok (jm_resource_locks m) w"
  unfolding resource_inv_def by blast

lemma not_acquired_free: "wk_acquired w = 0 \<Longrightarrow> free_locks w held = held"
  by (simp add: free_locks_def fun_eq_iff)

lemma worker_release_resource:
  assumes inv: "resource_inv m" and w: "jm_workers m j = Some w" "wk_phase w = Finishing"
  shows "\<exists>m2. worker_release j m = Inr m2 \<and> resource_inv m2"
proof -
  let ?m1 = "m\<lparr>jm_held := free_locks w (jm_held m)\<rparr>"
  have "foldl (\<lambda>h lock. h(lock := None)) (jm_held m) (rev (take (wk_acquired w) (wk_locks w))) = free_locks w (jm_held m)"
    by (simp add: foldl_free free_locks_def)
  moreover obtain m2 where "release_resource_locks ?m1 (wk_keys w) (wk_locks w) = Inr m2" "resource_inv (remove_worker j m2)"
    using resource_inv_release [OF inv w(1), of ?m1] by auto
  ultimately show ?thesis using w by (simp add: worker_release_def worker_in_def)
qed

lemma refuse_submit_resource:
  assumes inv: "resource_inv m" and w: "jm_workers m j = Some w" "wk_phase w = Unsubmitted"
  shows "\<exists>m2. refuse_submit j m = Inr m2 \<and> resource_inv m2"
proof -
  have "wk_acquired w = 0" using worker_ok_at [OF inv w(1)] w(2) by (simp add: worker_ok_def holding_ok_def)
  then have "same_resources (m\<lparr>jm_held := free_locks w (jm_held m)\<rparr>) (m\<lparr>jm_records := AList.delete j (jm_records m)\<rparr>)"
    by (simp add: not_acquired_free)
  from resource_inv_release [OF inv w(1) this] show ?thesis
    using w by (auto simp: refuse_submit_def worker_in_def)
qed

lemma cancel_accept_resource:
  assumes inv: "resource_inv m" and jobs: "jobs_inv m" and c: "cancel_accept j now m = Inr m'"
  shows "resource_inv m'"
  using c
proof (cases rule: cancel_accept_cases)
  case (drop r w m1)
  have keys: "jr_resource_keys r = wk_keys w" "jr_resource_locks r = wk_locks w"
    using jobs_inv_at [OF jobs, of j] drop(1,2) by (simp_all add: job_at_ok_def)
  have "wk_acquired w = 0" using worker_ok_at [OF inv drop(2)] drop(3) by (simp add: worker_ok_def holding_ok_def)
  then have "same_resources (m\<lparr>jm_held := free_locks w (jm_held m)\<rparr>) (put_record j (dropped_record now r) m)"
    by (simp add: not_acquired_free)
  from resource_inv_release [OF inv drop(2) this] have "resource_inv (remove_worker j m1)"
    using drop(5) by (simp add: keys)
  then show ?thesis by (simp add: drop(6))
qed (use inv in simp_all)

lemma record_step_resource:
  "set_future j m = Inr m' \<Longrightarrow> resource_inv m \<Longrightarrow> resource_inv m'"
  "deliver_cancellation redact i m = Inr m' \<Longrightarrow> resource_inv m \<Longrightarrow> resource_inv m'"
  "reporter_update redact j op c t now m = Inr m' \<Longrightarrow> resource_inv m \<Longrightarrow> resource_inv m'"
  "reporter_outcome redact j summary next_action m = Inr m' \<Longrightarrow> resource_inv m \<Longrightarrow> resource_inv m'"
  "section_enter j op m = Inr m' \<Longrightarrow> resource_inv m \<Longrightarrow> resource_inv m'"
  "section_exit j m = Inr m' \<Longrightarrow> resource_inv m \<Longrightarrow> resource_inv m'"
  "cancel_request j now m = Inr m' \<Longrightarrow> resource_inv m \<Longrightarrow> resource_inv m'"
  "discard_result j m = Inr m' \<Longrightarrow> resource_inv m \<Longrightarrow> resource_inv m'"
  by (auto simp: set_future_def deliver_cancellation_def sync_cancellation_def reporter_update_def
      reporter_outcome_def section_enter_def section_exit_def cancel_request_def discard_result_def
      result_simps Let_def case_prod_beta split: if_splits option.splits)

lemma shutdown_resource: "resource_inv m \<Longrightarrow> resource_inv (shutdown m)"
  by (erule same_resources_inv [rotated]) (simp add: same_resources_def shutdown_def)

lemma worker_release_step: "worker_release j m = Inr m' \<Longrightarrow> resource_inv m \<Longrightarrow> resource_inv m'"
  using worker_release_resource [of m j] by (auto simp: worker_release_def result_simps)

lemma refuse_submit_step: "refuse_submit j m = Inr m' \<Longrightarrow> resource_inv m \<Longrightarrow> resource_inv m'"
  using refuse_submit_resource [of m j] by (auto simp: refuse_submit_def result_simps)

lemmas resource_ops = begin_submit_resource [rotated] phase_step_resource worker_finish_resource [rotated]
  worker_acquire_resource record_step_resource worker_release_step refuse_submit_step
  reserve_submit_resource [rotated 2] cancel_accept_resource [rotated 2]

lemma job_apply_resource_inv:
  "job_apply redact digest a m = Inr m' \<Longrightarrow> jobs_inv m \<Longrightarrow> resource_inv m \<Longrightarrow> resource_inv m'"
  by (cases a) (auto simp: bindE_Inr_iff shutdown_resource dest: resource_ops)

lemma reachable_resource_inv: "job_reachable redact digest m \<Longrightarrow> resource_inv m"
proof (induction rule: job_reachable.induct)
  case (init workers pending start m)
  then show ?case by (auto simp: new_job_manager_def resource_inv_def users_def table_ok_def split: if_splits)
next
  case (step m m')
  then show ?case by (auto elim!: job_stepE intro: job_apply_resource_inv reachable_jobs_inv)
qed

section \<open>What a step does to a record\<close>

text \<open>A finished job keeps its outcome, an accepted cancellation stays accepted, a discarded result
  stays discarded; only a queued job that the pool refused leaves the table.\<close>

definition evolves :: "'r job_record \<Rightarrow> 'r job_record \<Rightarrow> bool" where
  "evolves r r' \<longleftrightarrow> jr_result_cleanup r' = jr_result_cleanup r
     \<and> (job_active (jr_snapshot r) \<or> js_state (jr_snapshot r') = js_state (jr_snapshot r)
         \<and> js_finished_at (jr_snapshot r') = js_finished_at (jr_snapshot r)
         \<and> js_error_code (jr_snapshot r') = js_error_code (jr_snapshot r)
         \<and> (js_result (jr_snapshot r') = js_result (jr_snapshot r) \<or> js_result (jr_snapshot r') = None))
     \<and> (jr_cancellation_accepted_at r = None \<or> jr_cancellation_accepted_at r' = jr_cancellation_accepted_at r)
     \<and> (jr_result_discarded r \<longrightarrow> jr_result_discarded r')"

lemma evolves_refl [simp]: "evolves r r"
  by (simp add: evolves_def)

lemma evolves_trans:
  assumes a: "evolves r r1" and b: "evolves r1 r2"
  shows "evolves r r2"
proof (cases "job_active (jr_snapshot r)")
  case True
  then show ?thesis using a b by (auto simp: evolves_def)
next
  case False
  then have "\<not> job_active (jr_snapshot r1)" using a by (simp add: evolves_def job_active_def)
  then show ?thesis using a b False by (auto simp: evolves_def)
qed

definition record_after :: "'r job_record \<Rightarrow> 'r job_record option \<Rightarrow> bool" where
  "record_after r ro \<longleftrightarrow> (case ro of None \<Rightarrow> job_active (jr_snapshot r) | Some r' \<Rightarrow> evolves r r')"

lemma record_after_same [simp]: "record_after r (Some r)" "record_after r (Some r') \<longleftrightarrow> evolves r r'"
  by (simp_all add: record_after_def)

lemma record_after_point:
  assumes "map_of (jm_records m) j = Some r"
    and "\<And>r0. map_of (jm_records m) i = Some r0 \<Longrightarrow> map_of (jm_records m') i = (if i = j then Some r' else map_of (jm_records m) i)"
    and "evolves r r'"
  shows "map_of (jm_records m) i = Some r0 \<Longrightarrow> record_after r0 (map_of (jm_records m') i)"
  using assms by (cases "i = j") auto

lemma active_phase:
  assumes "jobs_inv m" and "jm_workers m j = Some w" and "map_of (jm_records m) j = Some r"
  shows "phase_ok (wk_phase w) (js_state (jr_snapshot r))" and "snapshot_ok r" 
  using jobs_inv_at [OF assms(1), of j] assms(2,3) by (simp_all add: job_at_ok_def)

lemma worker_run_after:
  assumes inv: "jobs_inv m" and d: "worker_run j now m = Inr m'" and r0: "map_of (jm_records m) i = Some r0"
  shows "record_after r0 (map_of (jm_records m') i)"
proof -
  obtain w r where w: "jm_workers m j = Some w" "wk_phase w = Ready" and r: "map_of (jm_records m) j = Some r"
    and m': "m' = notify (jr_snapshot (transition_running now r)) (put_record j (transition_running now r) (set_phase j w Working m))"
    using d by (auto simp: worker_run_def result_simps Let_def)
  have "job_active (jr_snapshot r)" using active_phase [OF inv w(1) r] w(2) by (simp add: phase_ok_def job_active_def)
  then have "evolves r (transition_running now r)" by (simp add: evolves_def transition_running_def store_snapshot_def)
  then show ?thesis by (rule record_after_point [OF r _ _ r0, rotated]) (simp add: m')
qed

lemma worker_finish_after:
  assumes inv: "jobs_inv m" and d: "worker_finish redact j now m = Inr m'" and r0: "map_of (jm_records m) i = Some r0"
  shows "record_after r0 (map_of (jm_records m') i)"
proof -
  from worker_finish_Inr [OF d] obtain w r r' x where w: "jm_workers m j = Some w" and r: "map_of (jm_records m) j = Some r"
    and m': "m' = notify (jr_snapshot r') (clean j x (put_record j r' (set_phase j w Finishing m)))"
    and t: "(\<exists>res. wk_phase w = Completing res \<and> transition_completed now res r = (r', x))
       \<or> (\<exists>res. wk_phase w = Cancelling res \<and> r' = transition_cancelled now r \<and> x = (if jr_result_cleanup r then res else None))
       \<or> (\<exists>f. wk_phase w = Failing f \<and> r' = transition_failed redact now f r \<and> x = None)" by blast
  have "job_active (jr_snapshot r)" using active_phase [OF inv w r] t by (auto simp: phase_ok_def job_active_def)
  then have "evolves r r'" using t
    by (auto simp: evolves_def store_snapshot_def transition_completed_def transition_cancelled_def
        transition_failed_def Let_def case_prod_beta split: if_splits)
  then show ?thesis by (rule record_after_point [OF r _ _ r0, rotated]) (simp add: m')
qed

lemma cancel_accept_after:
  assumes inv: "jobs_inv m" and c: "cancel_accept j now m = Inr m'" and r0: "map_of (jm_records m) i = Some r0"
  shows "record_after r0 (map_of (jm_records m') i)"
  using c
proof (cases rule: cancel_accept_cases)
  case (mark r)
  have "evolves r (marked_record now r)" using mark(2)
    by (auto simp: evolves_def marked_record_def accepted_time_def split: option.split)
  then show ?thesis by (rule record_after_point [OF mark(1) _ _ r0, rotated]) (simp add: mark(3))
next
  case (drop r w m1)
  have "job_active (jr_snapshot r)" using drop(4) by (simp add: job_active_def)
  then have "evolves r (dropped_record now r)" by (auto simp: evolves_def dropped_record_def accepted_time_def split: option.split)
  then show ?thesis by (rule record_after_point [OF drop(1) _ _ r0, rotated]) (simp add: drop(6) release_fields [OF drop(5)])
qed (use r0 in simp)

lemma refuse_submit_after:
  assumes inv: "jobs_inv m" and d: "refuse_submit j m = Inr m'" and r0: "map_of (jm_records m) i = Some r0"
  shows "record_after r0 (map_of (jm_records m') i)"
proof -
  obtain w m1 where w: "jm_workers m j = Some w" "wk_phase w = Unsubmitted"
    and r: "release_resource_locks (m\<lparr>jm_records := AList.delete j (jm_records m)\<rparr>) (wk_keys w) (wk_locks w) = Inr m1"
    and m': "m' = remove_worker j m1"
    using d by (auto simp: refuse_submit_def result_simps)
  have "map_of (jm_records m') i = (if i = j then None else map_of (jm_records m) i)"
    by (simp add: m' release_fields [OF r] delete_conv')
  then show ?thesis using r0 active_phase(1) [OF inv w(1), of r0] w(2)
    by (auto simp: phase_ok_def record_after_def job_active_def)
qed

lemma reserve_submit_after:
  assumes inv: "jobs_inv m" and s: "reserve_submit digest k now m = Inr (m', e)" and r0: "map_of (jm_records m) i = Some r0"
  shows "map_of (jm_records m') i = Some r0"
proof -
  obtain name keys cleanup where i: "jm_reserving m ! k = (name, keys, cleanup)" by (cases "jm_reserving m ! k")
  let ?m0 = "m\<lparr>jm_reserving := take k (jm_reserving m) @ drop (Suc k) (jm_reserving m), jm_next_id := jm_next_id m + 1\<rparr>"
  obtain m1 locks where r: "reserve_resource_locks ?m0 keys = (m1, locks)" by (cases "reserve_resource_locks ?m0 keys")
  have new: "i \<noteq> job_id_of (jm_next_id m)" using jobs_inv_fresh [OF inv] r0 by auto
  show ?thesis using s r0 i r new reserve_fields [OF r]
    by (auto simp: reserve_submit_def Let_def notify_def split: if_splits sum.splits)
qed

lemma phase_steps_same:
  "begin_submit name keys cleanup m = Inr m' \<Longrightarrow> jm_records m' = jm_records m"
  "start_submit j m = Inr m' \<Longrightarrow> jm_records m' = jm_records m"
  "worker_start j m = Inr m' \<Longrightarrow> jm_records m' = jm_records m"
  "worker_acquire j m = Inr m' \<Longrightarrow> jm_records m' = jm_records m"
  "worker_timeout j m = Inr m' \<Longrightarrow> jm_records m' = jm_records m"
  "worker_admit j m = Inr m' \<Longrightarrow> jm_records m' = jm_records m"
  "function_returns j x m = Inr m' \<Longrightarrow> jm_records m' = jm_records m"
  "function_cancelled j m = Inr m' \<Longrightarrow> jm_records m' = jm_records m"
  "function_fails j f m = Inr m' \<Longrightarrow> jm_records m' = jm_records m"
  "worker_check j m = Inr m' \<Longrightarrow> jm_records m' = jm_records m"
  "worker_release j m = Inr m' \<Longrightarrow> jm_records m' = jm_records m"
  by (auto simp: begin_submit_def start_submit_def worker_start_def worker_acquire_def worker_timeout_def
      worker_admit_def function_returns_def function_cancelled_def function_fails_def worker_check_def
      worker_release_def raise_if_cancelled_def result_simps Let_def release_fields split: if_splits)

lemma record_steps_after:
  assumes r0: "map_of (jm_records m) i = Some r0"
  shows "set_future j m = Inr m' \<Longrightarrow> record_after r0 (map_of (jm_records m') i)"
    and "deliver_cancellation redact k m = Inr m' \<Longrightarrow> record_after r0 (map_of (jm_records m') i)"
    and "reporter_update redact j op c t now m = Inr m' \<Longrightarrow> record_after r0 (map_of (jm_records m') i)"
    and "reporter_outcome redact j summary next_action m = Inr m' \<Longrightarrow> record_after r0 (map_of (jm_records m') i)"
    and "section_enter j op m = Inr m' \<Longrightarrow> record_after r0 (map_of (jm_records m') i)"
    and "section_exit j m = Inr m' \<Longrightarrow> record_after r0 (map_of (jm_records m') i)"
    and "cancel_request j now m = Inr m' \<Longrightarrow> record_after r0 (map_of (jm_records m') i)"
    and "discard_result j m = Inr m' \<Longrightarrow> record_after r0 (map_of (jm_records m') i)"
  using r0 by (auto simp: set_future_def deliver_cancellation_def sync_cancellation_def sync_record_def
      reporter_update_def reporter_outcome_def section_enter_def section_exit_def cancel_request_def
      discard_result_def result_simps Let_def case_prod_beta evolves_def split: if_splits option.splits)

lemma shutdown_after: "evolves r (shutdown_record r)"
  by (auto simp: shutdown_record_def evolves_def)

lemma job_apply_after:
  "job_apply redact digest a m = Inr m' \<Longrightarrow> jobs_inv m \<Longrightarrow> map_of (jm_records m) i = Some r0 \<Longrightarrow>
   record_after r0 (map_of (jm_records m') i)"
  by (cases a)
    (auto simp: bindE_Inr_iff shutdown_after phase_steps_same
      dest: reserve_submit_after [rotated] worker_run_after [rotated] worker_finish_after [rotated]
        cancel_accept_after [rotated] refuse_submit_after [rotated] record_steps_after [rotated])

lemma update_ids [simp]: "fst ` set (AList.update k v al) = insert k (fst ` set al)"
  using dom_update [of k v al] by (simp add: dom_map_of_conv_image_fst)

lemma delete_ids [simp]: "fst ` set (AList.delete k al) = fst ` set al - {k}"
  by (metis delete_keys set_map set_removeAll)

text \<open>Identifiers are never given again, so a record that left the table does not come back, and
  only three operations hand a result to a cleanup.\<close>

definition job_ids :: "'r job_manager \<Rightarrow> ustr list" where
  "job_ids m = map fst (jm_records m)"

definition table_step :: "'r job_manager \<Rightarrow> 'r job_manager \<Rightarrow> bool" where
  "table_step m m' \<longleftrightarrow> jm_next_id m \<le> jm_next_id m' \<and> (distinct (job_ids m) \<longrightarrow> distinct (job_ids m'))
     \<and> set (job_ids m') \<subseteq> insert (job_id_of (jm_next_id m)) (set (job_ids m))"

lemma table_step_same: "jm_records m' = jm_records m \<Longrightarrow> jm_next_id m' = jm_next_id m \<Longrightarrow> table_step m m'"
  by (auto simp: table_step_def job_ids_def)

lemma table_step_put:
  "map_of (jm_records m) j = Some r \<Longrightarrow> jm_records m' = jm_records (put_record j r' m) \<Longrightarrow> jm_next_id m' = jm_next_id m
   \<Longrightarrow> table_step m m'"
  using map_of_SomeD [of "jm_records m" j r]
  by (auto simp: table_step_def job_ids_def put_record_def distinct_update update_keys image_iff)

lemma table_step_delete: "jm_records m' = AList.delete j (jm_records m) \<Longrightarrow> jm_next_id m' = jm_next_id m \<Longrightarrow> table_step m m'"
  unfolding table_step_def job_ids_def by (simp add: distinct_delete) blast

lemma table_step_new:
  "jm_records m' = AList.update (job_id_of (jm_next_id m)) r (jm_records m) \<Longrightarrow> jm_next_id m' = Suc (jm_next_id m)
   \<Longrightarrow> table_step m m'"
  unfolding table_step_def job_ids_def by (simp add: distinct_update)

lemma put_step:
  "set_future j m = Inr m' \<Longrightarrow> table_step m m' \<and> jm_cleaned m' = jm_cleaned m"
  "deliver_cancellation redact k m = Inr m' \<Longrightarrow> table_step m m' \<and> jm_cleaned m' = jm_cleaned m"
  "worker_run j now m = Inr m' \<Longrightarrow> table_step m m' \<and> jm_cleaned m' = jm_cleaned m"
  "reporter_update redact j op c t now m = Inr m' \<Longrightarrow> table_step m m' \<and> jm_cleaned m' = jm_cleaned m"
  "reporter_outcome redact j summary next_action m = Inr m' \<Longrightarrow> table_step m m' \<and> jm_cleaned m' = jm_cleaned m"
  "section_enter j op m = Inr m' \<Longrightarrow> table_step m m' \<and> jm_cleaned m' = jm_cleaned m"
  "section_exit j m = Inr m' \<Longrightarrow> table_step m m' \<and> jm_cleaned m' = jm_cleaned m"
  "cancel_request j now m = Inr m' \<Longrightarrow> table_step m m' \<and> jm_cleaned m' = jm_cleaned m"
  by (auto simp: set_future_def deliver_cancellation_def sync_cancellation_def worker_run_def reporter_update_def
      reporter_outcome_def section_enter_def section_exit_def cancel_request_def result_simps Let_def case_prod_beta
      split: if_splits option.splits intro: table_step_same table_step_put simp: put_record_def)

lemma phase_step_table:
  "begin_submit name keys cleanup m = Inr m' \<Longrightarrow> table_step m m' \<and> jm_cleaned m' = jm_cleaned m"
  "start_submit j m = Inr m' \<Longrightarrow> table_step m m' \<and> jm_cleaned m' = jm_cleaned m"
  "worker_start j m = Inr m' \<Longrightarrow> table_step m m' \<and> jm_cleaned m' = jm_cleaned m"
  "worker_acquire j m = Inr m' \<Longrightarrow> table_step m m' \<and> jm_cleaned m' = jm_cleaned m"
  "worker_timeout j m = Inr m' \<Longrightarrow> table_step m m' \<and> jm_cleaned m' = jm_cleaned m"
  "worker_admit j m = Inr m' \<Longrightarrow> table_step m m' \<and> jm_cleaned m' = jm_cleaned m"
  "function_returns j x m = Inr m' \<Longrightarrow> table_step m m' \<and> jm_cleaned m' = jm_cleaned m"
  "function_cancelled j m = Inr m' \<Longrightarrow> table_step m m' \<and> jm_cleaned m' = jm_cleaned m"
  "function_fails j f m = Inr m' \<Longrightarrow> table_step m m' \<and> jm_cleaned m' = jm_cleaned m"
  "worker_check j m = Inr m' \<Longrightarrow> table_step m m' \<and> jm_cleaned m' = jm_cleaned m"
  "worker_release j m = Inr m' \<Longrightarrow> table_step m m' \<and> jm_cleaned m' = jm_cleaned m"
  by (auto simp: begin_submit_def start_submit_def worker_start_def worker_acquire_def worker_timeout_def
      worker_admit_def function_returns_def function_cancelled_def function_fails_def worker_check_def
      worker_release_def raise_if_cancelled_def result_simps Let_def release_fields
      split: if_splits intro: table_step_same)

lemma reserve_submit_table:
  assumes s: "reserve_submit digest k now m = Inr (m', e)" and inv: "jobs_inv m"
  shows "table_step m m' \<and> jm_cleaned m' = jm_cleaned m"
proof -
  obtain name keys cleanup where i: "jm_reserving m ! k = (name, keys, cleanup)" by (cases "jm_reserving m ! k")
  let ?m0 = "m\<lparr>jm_reserving := take k (jm_reserving m) @ drop (Suc k) (jm_reserving m)\<rparr>"
  show ?thesis
  proof (cases "validate_admission ?m0")
    case (Inl err)
    then show ?thesis using s i
      by (auto simp: reserve_submit_def split: if_splits intro!: table_step_same)
  next
    case (Inr x)
    obtain m1 locks where r: "reserve_resource_locks (?m0\<lparr>jm_next_id := jm_next_id m + 1\<rparr>) keys = (m1, locks)"
      by (cases "reserve_resource_locks (?m0\<lparr>jm_next_id := jm_next_id m + 1\<rparr>) keys")
    have "map_of (jm_records m) (job_id_of (jm_next_id m)) = None" using jobs_inv_fresh [OF inv] by simp
    then have "job_id_of (jm_next_id m) \<notin> set (job_ids m)" by (simp add: job_ids_def map_of_eq_None_iff)
    then show ?thesis using s i r Inr reserve_fields [OF r]
      by (auto simp: reserve_submit_def Let_def notify_def put_record_def split: if_splits intro!: table_step_new)
  qed
qed

lemma refuse_submit_table: "refuse_submit j m = Inr m' \<Longrightarrow> table_step m m' \<and> jm_cleaned m' = jm_cleaned m"
  by (auto simp: refuse_submit_def result_simps release_fields intro!: table_step_delete)

lemma cancel_accept_table:
  assumes "cancel_accept j now m = Inr m'"
  shows "table_step m m' \<and> jm_cleaned m' = jm_cleaned m"
  using assms
proof (cases rule: cancel_accept_cases)
  case (drop r w m1)
  then show ?thesis by (auto simp: release_fields intro: table_step_put)
qed (auto intro: table_step_same table_step_put)

definition cleaned_ok :: "'r job_manager \<Rightarrow> bool" where
  "cleaned_ok m \<longleftrightarrow> distinct (job_ids m) \<and> distinct (map fst (jm_cleaned m))
     \<and> (\<forall>j \<in> fst ` set (jm_cleaned m). \<exists>r. map_of (jm_records m) j = Some r
          \<and> \<not> job_active (jr_snapshot r) \<and> js_result (jr_snapshot r) = None)"

lemma cleaned_ok_step:
  assumes "job_apply redact digest a m = Inr m'" and "jobs_inv m" and ok: "cleaned_ok m"
    and "table_step m m' \<and> jm_cleaned m' = jm_cleaned m"
  shows "cleaned_ok m'"
proof -
  have "\<exists>r'. map_of (jm_records m') j = Some r' \<and> \<not> job_active (jr_snapshot r') \<and> js_result (jr_snapshot r') = None"
    if j: "j \<in> fst ` set (jm_cleaned m)" for j
  proof -
    from ok j obtain r where r: "map_of (jm_records m) j = Some r" "\<not> job_active (jr_snapshot r)" "js_result (jr_snapshot r) = None"
      unfolding cleaned_ok_def by blast
    from job_apply_after [OF assms(1,2) r(1)] r(2,3) show ?thesis
      by (auto simp: record_after_def evolves_def job_active_def split: option.splits)
  qed
  with ok assms(4) show ?thesis by (simp add: cleaned_ok_def table_step_def)
qed

text \<open>A job that hands its result over has kept none, and was never in the list.\<close>

lemma cleaned_ok_record:
  assumes ok: "cleaned_ok m" and ids: "distinct (job_ids m')" and r: "map_of (jm_records m) j = Some r"
    and m': "\<And>i. map_of (jm_records m') i = (if i = j then Some r' else map_of (jm_records m) i)"
      "jm_cleaned m' = jm_cleaned m @ (case x of None \<Rightarrow> [] | Some y \<Rightarrow> [(j, y)])"
    and new: "x \<noteq> None \<Longrightarrow> job_active (jr_snapshot r) \<or> js_result (jr_snapshot r) \<noteq> None"
    and given: "x \<noteq> None \<Longrightarrow> \<not> job_active (jr_snapshot r') \<and> js_result (jr_snapshot r') = None"
    and kept: "evolves r r'"
  shows "cleaned_ok m'"
proof -
  have old: "\<exists>r. map_of (jm_records m') i = Some r \<and> \<not> job_active (jr_snapshot r) \<and> js_result (jr_snapshot r) = None"
    if "i \<in> fst ` set (jm_cleaned m)" for i
  proof -
    obtain r0 where "map_of (jm_records m) i = Some r0" "\<not> job_active (jr_snapshot r0)" "js_result (jr_snapshot r0) = None"
      using ok \<open>i \<in> fst ` set (jm_cleaned m)\<close> unfolding cleaned_ok_def by blast
    then show ?thesis using r kept m'(1) [of i]
      by (auto simp: evolves_def job_active_def split: if_splits)
  qed
  have dist: "distinct (map fst (jm_cleaned m))" using ok by (simp add: cleaned_ok_def)
  show ?thesis
  proof (cases x)
    case None
    with old dist ids m'(2) show ?thesis by (simp add: cleaned_ok_def)
  next
    case (Some y)
    have "j \<notin> fst ` set (jm_cleaned m)"
      using ok r new Some unfolding cleaned_ok_def by fastforce
    with old dist ids m' given Some show ?thesis by (simp add: cleaned_ok_def)
  qed
qed

lemma completed_gives_up: "transition_completed now res r = (r', x) \<Longrightarrow> x \<noteq> None \<Longrightarrow>
    \<not> job_active (jr_snapshot r') \<and> js_result (jr_snapshot r') = None"
  by (cases "jr_cancellation_accepted_at r"; cases "jr_result_discarded r")
    (auto simp: transition_completed_def store_snapshot_def cancelled_snapshot_def job_active_def Let_def)

lemma cancelled_gives_up: "\<not> job_active (jr_snapshot (transition_cancelled now r)) \<and> js_result (jr_snapshot (transition_cancelled now r)) = None"
  by (simp add: transition_cancelled_def store_snapshot_def cancelled_snapshot_def job_active_def)

lemma worker_finish_cleaned:
  assumes d: "worker_finish redact j now m = Inr m'" and inv: "jobs_inv m" and ok: "cleaned_ok m"
  shows "cleaned_ok m'"
proof -
  from worker_finish_Inr [OF d] obtain w r r' x where w: "jm_workers m j = Some w" and r: "map_of (jm_records m) j = Some r"
    and m': "m' = notify (jr_snapshot r') (clean j x (put_record j r' (set_phase j w Finishing m)))"
    and t: "(\<exists>res. wk_phase w = Completing res \<and> transition_completed now res r = (r', x))
       \<or> (\<exists>res. wk_phase w = Cancelling res \<and> r' = transition_cancelled now r \<and> x = (if jr_result_cleanup r then res else None))
       \<or> (\<exists>f. wk_phase w = Failing f \<and> r' = transition_failed redact now f r \<and> x = None)" by blast
  have act: "job_active (jr_snapshot r)" using active_phase [OF inv w r] t by (auto simp: phase_ok_def job_active_def)
  have after: "record_after r (map_of (jm_records m') j)" by (rule worker_finish_after [OF inv d r])
  show ?thesis
  proof (rule cleaned_ok_record [OF ok _ r])
    show "evolves r r'" using after by (simp add: m')
    show "distinct (job_ids m')" using ok table_step_put [OF r, of m' r']
      by (simp add: m' cleaned_ok_def table_step_def put_record_def)
    show "x \<noteq> None \<Longrightarrow> \<not> job_active (jr_snapshot r') \<and> js_result (jr_snapshot r') = None"
      using t completed_gives_up cancelled_gives_up by metis
  qed (use act in \<open>simp_all add: m'\<close>)
qed

lemma discard_result_cleaned:
  assumes d: "discard_result j m = Inr m'" and inv: "jobs_inv m" and ok: "cleaned_ok m"
  shows "cleaned_ok m'"
proof -
  obtain r where r: "map_of (jm_records m) j = Some r" using d by (auto simp: discard_result_def result_simps)
  let ?r = "r\<lparr>jr_result_discarded := True, jr_snapshot := (jr_snapshot r)\<lparr>js_result := None\<rparr>\<rparr>"
    and ?x = "if jr_result_cleanup r then js_result (jr_snapshot r) else None"
  have m': "m' = clean j ?x (put_record j ?r m)" using d r by (auto simp: discard_result_def result_simps)
  have "snapshot_ok r" using jobs_inv_at [OF inv, of j] r by (simp add: job_at_ok_def)
  then have fin: "js_result (jr_snapshot r) \<noteq> None \<Longrightarrow> \<not> job_active (jr_snapshot r)"
    by (auto simp: snapshot_ok_def Let_def job_active_def)
  show ?thesis
  proof (rule cleaned_ok_record [OF ok _ r, where r' = ?r and x = ?x])
    show "distinct (job_ids m')" using ok table_step_put [OF r, of m' ?r]
      by (simp add: m' cleaned_ok_def table_step_def put_record_def)
    show "?x \<noteq> None \<Longrightarrow> \<not> job_active (jr_snapshot ?r) \<and> js_result (jr_snapshot ?r) = None"
      using fin by (auto simp: job_active_def split: if_splits)
  qed (auto simp: m' evolves_def split: if_splits)
qed

lemma shutdown_cleanups_Cons [simp]: "shutdown_cleanups [] = []"
  "shutdown_cleanups ((i, r) # rs) = (if jr_result_cleanup r
     then (case js_result (jr_snapshot r) of None \<Rightarrow> [] | Some x \<Rightarrow> [(i, x)]) else []) @ shutdown_cleanups rs"
  by (simp_all add: shutdown_cleanups_def)

lemma shutdown_cleanups_ids: "distinct (map fst rs) \<Longrightarrow> distinct (map fst (shutdown_cleanups rs))
    \<and> fst ` set (shutdown_cleanups rs) \<subseteq> fst ` set rs"
proof (induction rs)
  case (Cons p rs)
  obtain i r where p: "p = (i, r)" by (cases p)
  have ids: "i \<notin> fst ` set rs" "distinct (map fst rs)" using Cons.prems by (simp_all add: p)
  from Cons.IH [OF ids(2)] ids(1) have "distinct (map fst (shutdown_cleanups rs))"
    "fst ` set (shutdown_cleanups rs) \<subseteq> fst ` set rs" "i \<notin> fst ` set (shutdown_cleanups rs)" by blast+
  then show ?case by (cases "js_result (jr_snapshot r)"; cases "jr_result_cleanup r") (auto simp: p)
qed simp

lemma shutdown_cleanups_of:
  "distinct (map fst rs) \<Longrightarrow> j \<in> fst ` set (shutdown_cleanups rs) \<Longrightarrow>
   \<exists>r. map_of rs j = Some r \<and> jr_result_cleanup r \<and> js_result (jr_snapshot r) \<noteq> None"
proof (induction rs)
  case (Cons p rs)
  obtain i r where p: "p = (i, r)" by (cases p)
  have "j \<noteq> i" if "j \<in> fst ` set (shutdown_cleanups rs)"
    using that Cons.prems(1) shutdown_cleanups_ids [of rs] by (auto simp: p)
  with Cons p show ?case
    by (cases "js_result (jr_snapshot r)"; cases "jr_result_cleanup r") auto
qed simp

lemma shutdown_cleaned:
  assumes inv: "jobs_inv m" and ok: "cleaned_ok m"
  shows "cleaned_ok (shutdown m)"
proof -
  have ids: "distinct (map fst (jm_records m))" using ok by (simp add: cleaned_ok_def job_ids_def)
  have "jm_records (shutdown m) = map (\<lambda>(i, r). (i, shutdown_record r)) (jm_records m)" by (simp add: shutdown_def)
  then have ids': "job_ids (shutdown m) = job_ids m" by (simp add: job_ids_def comp_def case_prod_beta)
  have cl: "jm_cleaned (shutdown m) = jm_cleaned m @ shutdown_cleanups (jm_records m)" by (simp add: shutdown_def)
  have finished: "\<exists>r. map_of (jm_records (shutdown m)) j = Some r \<and> \<not> job_active (jr_snapshot r) \<and> js_result (jr_snapshot r) = None"
    if j: "j \<in> fst ` set (jm_cleaned (shutdown m))" for j
  proof -
    from j consider "j \<in> fst ` set (jm_cleaned m)" | "j \<in> fst ` set (shutdown_cleanups (jm_records m))"
      by (auto simp: cl)
    then show ?thesis
    proof cases
      case 1
      then obtain r where "map_of (jm_records m) j = Some r" "\<not> job_active (jr_snapshot r)" "js_result (jr_snapshot r) = None"
        using ok unfolding cleaned_ok_def by blast
      then show ?thesis by (simp add: shutdown_record_def job_active_def)
    next
      case 2
      from shutdown_cleanups_of [OF ids 2] obtain r where r: "map_of (jm_records m) j = Some r"
        "jr_result_cleanup r" "js_result (jr_snapshot r) \<noteq> None" by blast
      then have "snapshot_ok r" using jobs_inv_at [OF inv, of j] by (simp add: job_at_ok_def)
      with r show ?thesis by (auto simp: shutdown_record_def snapshot_ok_def Let_def job_active_def)
    qed
  qed
  have "j \<notin> fst ` set (shutdown_cleanups (jm_records m))" if "j \<in> fst ` set (jm_cleaned m)" for j
    using that ok shutdown_cleanups_of [OF ids, of j] unfolding cleaned_ok_def by force
  then have "distinct (map fst (jm_cleaned (shutdown m)))"
    using ok shutdown_cleanups_ids [OF ids] by (auto simp: cl cleaned_ok_def)
  with finished ids ids' show ?thesis by (simp add: cleaned_ok_def job_ids_def)
qed

lemmas table_ops = put_step phase_step_table refuse_submit_table cancel_accept_table

lemma job_apply_cleaned:
  assumes a: "job_apply redact digest a m = Inr m'" and inv: "jobs_inv m" and ok: "cleaned_ok m"
  shows "cleaned_ok m'"
proof (cases "(\<exists>j now. a = WorkerFinish j now) \<or> (\<exists>j. a = DiscardResult j) \<or> a = Shutdown")
  case True
  then show ?thesis using a shutdown_cleaned [OF inv ok]
    by (auto intro: worker_finish_cleaned discard_result_cleaned inv ok)
next
  case False
  then have "table_step m m' \<and> jm_cleaned m' = jm_cleaned m"
    using a inv by (cases a) (auto simp: bindE_Inr_iff dest: table_ops reserve_submit_table)
  then show ?thesis by (rule cleaned_ok_step [OF a inv ok])
qed

lemma reachable_cleaned_ok: "job_reachable redact digest m \<Longrightarrow> cleaned_ok m"
proof (induction rule: job_reachable.induct)
  case (init workers pending start m)
  then show ?case by (auto simp: new_job_manager_def cleaned_ok_def job_ids_def split: if_splits)
next
  case (step m m')
  then show ?case by (auto elim!: job_stepE intro: job_apply_cleaned reachable_jobs_inv)
qed

section \<open>Runs\<close>

definition job_steps :: "(ustr \<Rightarrow> ustr option) \<Rightarrow> (ustr \<Rightarrow> ustr) \<Rightarrow> 'r job_manager \<Rightarrow> 'r job_manager \<Rightarrow> bool" where
  "job_steps redact digest = (job_step redact digest)\<^sup>*\<^sup>*"

lemma job_steps_reachable: "job_steps redact digest m m' \<Longrightarrow> job_reachable redact digest m \<Longrightarrow> job_reachable redact digest m'"
  unfolding job_steps_def by (induction rule: rtranclp_induct) (auto intro: job_reachable.step)

lemma job_steps_run: "foldE (\<lambda>m a. job_apply redact digest a m) m as = Inr m' \<Longrightarrow> job_steps redact digest m m'"
proof (induction "as" arbitrary: m)
  case (Cons a as)
  then obtain m1 where "job_apply redact digest a m = Inr m1" "job_steps redact digest m1 m'"
    by (auto simp: bindE_Inr_iff)
  then show ?case unfolding job_steps_def by (meson converse_rtranclp_into_rtranclp job_step.action)
qed (simp add: job_steps_def)

text \<open>Where the record of a used identifier may be after any run.\<close>

definition known_as :: "'r job_manager \<Rightarrow> ustr \<Rightarrow> 'r job_record \<Rightarrow> bool" where
  "known_as m j r \<longleftrightarrow> (\<exists>n < jm_next_id m. j = job_id_of n)
     \<and> (case map_of (jm_records m) j of None \<Rightarrow> job_active (jr_snapshot r) | Some r' \<Rightarrow> evolves r r')"

end
