(* ===== verification/Job_Claims.thy ===== *)
theory Job_Claims
  imports Job_Safety
begin

text \<open>
  What the job manager promises, for every interleaving of its sections.
\<close>

section \<open>Records over a run\<close>

lemma job_apply_table:
  assumes a: "job_apply redact digest a m = Inr m'" and inv: "jobs_inv m"
  shows "table_step m m'"
proof (cases "(\<exists>j now. a = WorkerFinish j now) \<or> (\<exists>j. a = DiscardResult j) \<or> a = Shutdown")
  case True
  then consider j now where "worker_finish redact j now m = Inr m'" | j where "discard_result j m = Inr m'" | "m' = shutdown m"
    using a by auto
  then show ?thesis
  proof cases
    case (1 j now)
    from worker_finish_Inr [OF 1] obtain w r r' x where r: "map_of (jm_records m) j = Some r"
      and m': "m' = notify (jr_snapshot r') (clean j x (put_record j r' (set_phase j w Finishing m)))" by blast
    show ?thesis by (rule table_step_put [OF r, of _ r']) (simp_all add: m' put_record_def)
  next
    case (2 j)
    then show ?thesis by (auto simp: discard_result_def result_simps intro: table_step_put)
  next
    case 3
    then have "job_ids m' = job_ids m" "jm_next_id m' = jm_next_id m"
      by (simp_all add: job_ids_def shutdown_def comp_def case_prod_beta)
    then show ?thesis by (auto simp: table_step_def)
  qed
next
  case False
  then have "table_step m m' \<and> jm_cleaned m' = jm_cleaned m"
    using a inv by (cases a) (auto simp: bindE_Inr_iff dest: table_ops reserve_submit_table)
  then show ?thesis ..
qed

lemma known_as_step:
  assumes inv: "jobs_inv m" and k: "known_as m j r" and a: "job_apply redact digest a m = Inr m'"
  shows "known_as m' j r"
proof -
  have step: "table_step m m'" by (rule job_apply_table [OF a inv])
  from k obtain n where n: "n < jm_next_id m" "j = job_id_of n" by (auto simp: known_as_def)
  with step have "\<exists>n < jm_next_id m'. j = job_id_of n" by (auto simp: table_step_def intro: less_le_trans)
  moreover have "case map_of (jm_records m') j of None \<Rightarrow> job_active (jr_snapshot r) | Some r' \<Rightarrow> evolves r r'"
  proof (cases "map_of (jm_records m) j")
    case None
    then have "j \<notin> set (job_ids m)" by (simp add: job_ids_def map_of_eq_None_iff)
    then have "j \<notin> set (job_ids m')" using step n by (auto simp: table_step_def)
    then have "map_of (jm_records m') j = None" by (simp add: job_ids_def map_of_eq_None_iff)
    then show ?thesis using k None by (simp add: known_as_def)
  next
    case (Some r1)
    have r1: "evolves r r1" using k Some by (simp add: known_as_def)
    note after = job_apply_after [OF a inv Some]
    show ?thesis
    proof (cases "map_of (jm_records m') j")
      case None
      then have "job_active (jr_snapshot r1)" using after by (simp add: record_after_def)
      then have "job_active (jr_snapshot r)" using r1 by (auto simp: evolves_def job_active_def)
      then show ?thesis using None by simp
    next
      case (Some r2)
      then show ?thesis using after evolves_trans [OF r1] by simp
    qed
  qed
  ultimately show ?thesis by (simp add: known_as_def)
qed

lemma known_as_steps:
  assumes s: "job_steps redact digest m m'" and reach: "job_reachable redact digest m"
    and r: "map_of (jm_records m) j = Some r"
  shows "known_as m' j r"
  using s unfolding job_steps_def
proof (induction rule: rtranclp_induct)
  case base
  show ?case using jobs_inv_at [OF reachable_jobs_inv [OF reach], of j] r by (auto simp: known_as_def job_at_ok_def)
next
  case (step m1 m2)
  have "job_reachable redact digest m1"
    by (rule job_steps_reachable [OF _ reach]) (simp add: job_steps_def step.hyps(1))
  with step show ?case by (auto elim!: job_stepE intro: known_as_step reachable_jobs_inv)
qed

section \<open>Executions\<close>

text \<open>Runs of a manager with one worker and room for two jobs, whose results are numbers.\<close>

definition run_jobs :: "nat job_action list \<Rightarrow> job_error + nat job_manager" where
  "run_jobs as = bindE (new_job_manager 1 2 1) (\<lambda>m. foldE (\<lambda>m a. job_apply Some id a m) m as)"

lemma run_jobs_reachable: "run_jobs as = Inr m \<Longrightarrow> job_reachable Some id m"
  unfolding run_jobs_def by (auto simp: bindE_Inr_iff intro: job_run_reachable job_reachable.init)

lemma run_jobs_steps: "run_jobs as = Inr m \<Longrightarrow> run_jobs (as @ bs) = Inr m' \<Longrightarrow> job_steps Some id m m'"
  unfolding run_jobs_def by (auto simp: bindE_Inr_iff foldE_append intro: job_steps_run)

definition first_job :: ustr where
  "first_job = job_id_of 1"

text \<open>A job on the resource \<open>a\<close> that works, and one that has returned 7.\<close>

definition to_working :: "nat job_action list" where
  "to_working = [BeginSubmit (u ''t'') [u ''a''] True, ReserveSubmit 0 (u ''0''), StartSubmit first_job,
     SetFuture first_job, WorkerStart first_job, WorkerAcquire first_job, WorkerAdmit first_job,
     WorkerRun first_job (u ''1'')]"

definition to_completed :: "nat job_action list" where
  "to_completed = to_working @ [FunctionReturns first_job (Some 7), WorkerCheck first_job, WorkerFinish first_job (u ''2'')]"

text \<open>The same job beside a second one, on the resources \<open>a\<close> and \<open>b\<close> or on \<open>b\<close> alone.\<close>

definition second_job :: ustr where
  "second_job = job_id_of 2"

definition with_second :: "ustr list \<Rightarrow> nat job_action list" where
  "with_second keys = to_working @ [BeginSubmit (u ''s'') keys True, ReserveSubmit 0 (u ''0''), StartSubmit second_job,
     WorkerStart second_job]"

definition snapshot_of :: "'r job_manager \<Rightarrow> ustr \<Rightarrow> (job_state \<times> 'r option) option" where
  "snapshot_of m j = map_option (\<lambda>r. (js_state (jr_snapshot r), js_result (jr_snapshot r))) (map_of (jm_records m) j)"

section \<open>The fate of a job\<close>

text \<open>C18: A finished job keeps its state, its finishing time and its error code whatever is done
  with the manager afterwards, and its result is kept or given up, never replaced.\<close>

theorem finished_job_is_final:
  assumes "job_reachable redact digest m" and "map_of (jm_records m) j = Some r" and "\<not> job_active (jr_snapshot r)"
    and "job_steps redact digest m m'"
  shows "\<exists>r'. map_of (jm_records m') j = Some r' \<and> js_state (jr_snapshot r') = js_state (jr_snapshot r)
    \<and> js_finished_at (jr_snapshot r') = js_finished_at (jr_snapshot r)
    \<and> js_error_code (jr_snapshot r') = js_error_code (jr_snapshot r)
    \<and> (js_result (jr_snapshot r') = js_result (jr_snapshot r) \<or> js_result (jr_snapshot r') = None)"
  using known_as_steps [OF assms(4,1,2)] assms(3)
  by (auto simp: known_as_def evolves_def split: option.splits)

theorem finished_job_is_final_witness:
  "\<exists>m m' r. job_reachable Some id m \<and> map_of (jm_records m) first_job = Some r
    \<and> js_result (jr_snapshot r) = Some (7::nat) \<and> job_steps Some id m m'
    \<and> (\<exists>r'. map_of (jm_records m') first_job = Some r' \<and> js_state (jr_snapshot r') = JCompleted
         \<and> js_result (jr_snapshot r') = None)"
proof -
  let ?more = "[CancelAccept first_job (u ''3''), DiscardResult first_job]"
  have "case run_jobs to_completed of Inl _ \<Rightarrow> False | Inr m \<Rightarrow> (case run_jobs (to_completed @ ?more) of Inl _ \<Rightarrow> False
      | Inr m' \<Rightarrow> snapshot_of m first_job = Some (JCompleted, Some 7) \<and> snapshot_of m' first_job = Some (JCompleted, None))"
    by code_simp
  then obtain m m' r where m: "run_jobs to_completed = Inr m" "run_jobs (to_completed @ ?more) = Inr m'"
    and r: "map_of (jm_records m) first_job = Some r" "js_state (jr_snapshot r) = JCompleted" "js_result (jr_snapshot r) = Some 7"
    and s: "snapshot_of m' first_job = Some (JCompleted, None)"
    by (auto simp: snapshot_of_def split: sum.splits)
  note reach = run_jobs_reachable [OF m(1)] and steps = run_jobs_steps [OF m]
  from finished_job_is_final [OF reach r(1) _ steps] r(2) s
  have "\<exists>r'. map_of (jm_records m') first_job = Some r' \<and> js_state (jr_snapshot r') = JCompleted \<and> js_result (jr_snapshot r') = None"
    by (auto simp: job_active_def snapshot_of_def)
  with reach r steps show ?thesis by blast
qed

text \<open>C16: Once a cancellation of a job has been accepted, the job never completes and never shows a
  result, whatever its function returns and in whatever order the threads run.\<close>

theorem accepted_cancellation_never_completes:
  assumes "job_reachable redact digest m" and "map_of (jm_records m) j = Some r"
    and "jr_cancellation_accepted_at r = Some t" and "job_steps redact digest m m'"
    and "map_of (jm_records m') j = Some r'"
  shows "js_state (jr_snapshot r') \<noteq> JCompleted \<and> js_result (jr_snapshot r') = None
    \<and> jr_cancellation_accepted_at r' = Some t"
proof -
  have t: "jr_cancellation_accepted_at r' = Some t"
    using known_as_steps [OF assms(4,1,2)] assms(3,5) by (simp add: known_as_def evolves_def)
  have "jobs_inv m'" using assms(1,4) job_steps_reachable reachable_jobs_inv by blast
  from jobs_inv_at [OF this, of j] have "snapshot_ok r'" using assms(5) by (simp add: job_at_ok_def)
  with t show ?thesis by (auto simp: snapshot_ok_def Let_def)
qed

theorem accepted_cancellation_never_completes_witness:
  "\<exists>m m' r r'. job_reachable Some id m \<and> map_of (jm_records m) first_job = Some r
    \<and> jr_cancellation_accepted_at r = Some (u ''3'') \<and> job_steps Some id m m'
    \<and> map_of (jm_records m') first_job = Some r' \<and> js_state (jr_snapshot r') \<noteq> JCompleted
    \<and> js_result (jr_snapshot r') = None \<and> jm_cleaned m' = [(first_job, 7::nat)]"
proof -
  let ?start = "to_working @ [FunctionReturns first_job (Some 7), WorkerCheck first_job, CancelAccept first_job (u ''3'')]"
    and ?more = "[WorkerFinish first_job (u ''4'')]"
  have "case run_jobs ?start of Inl _ \<Rightarrow> False | Inr m \<Rightarrow> (case run_jobs (?start @ ?more) of Inl _ \<Rightarrow> False
      | Inr m' \<Rightarrow> map_option jr_cancellation_accepted_at (map_of (jm_records m) first_job) = Some (Some (u ''3''))
          \<and> map_of (jm_records m') first_job \<noteq> None \<and> jm_cleaned m' = [(first_job, 7)])"
    by code_simp
  then obtain m m' r r' where m: "run_jobs ?start = Inr m" "run_jobs (?start @ ?more) = Inr m'"
    and r: "map_of (jm_records m) first_job = Some r" "jr_cancellation_accepted_at r = Some (u ''3'')"
    and r': "map_of (jm_records m') first_job = Some r'" "jm_cleaned m' = [(first_job, 7)]"
    by (auto split: sum.splits)
  note reach = run_jobs_reachable [OF m(1)] and steps = run_jobs_steps [OF m]
  from accepted_cancellation_never_completes [OF reach r steps r'(1)] reach r steps r' show ?thesis by blast
qed

text \<open>C19: What a snapshot shows fits its state: a result only after a completion, a finishing time
  exactly when the job is not active, an error code exactly when it failed or was cancelled, an
  outcome and a next action with every completion, a starting time with every job that ran.\<close>

theorem snapshot_fits_its_state:
  assumes "job_reachable redact digest m" and "map_of (jm_records m) j = Some r"
  shows "js_job_id (jr_snapshot r) = j \<and> snapshot_ok r"
  using jobs_inv_at [OF reachable_jobs_inv [OF assms(1)], of j] assms(2) by (simp add: job_at_ok_def)

theorem snapshot_fits_its_state_witness:
  "\<exists>m r. job_reachable Some id m \<and> map_of (jm_records m) first_job = Some r
    \<and> js_result (jr_snapshot r) = Some (7::nat) \<and> js_job_id (jr_snapshot r) = first_job \<and> snapshot_ok r"
proof -
  have "case run_jobs to_completed of Inl _ \<Rightarrow> False | Inr m \<Rightarrow> snapshot_of m first_job = Some (JCompleted, Some 7)"
    by code_simp
  then obtain m r where "run_jobs to_completed = Inr m" "map_of (jm_records m) first_job = Some r"
    "js_result (jr_snapshot r) = Some 7"
    by (auto simp: snapshot_of_def split: sum.splits)
  then show ?thesis using snapshot_fits_its_state run_jobs_reachable by blast
qed

text \<open>A job's result is given to its cleanup at most once, and a job whose result was given
  away is finished and shows no result.\<close>

theorem cleanup_at_most_once:
  assumes "job_reachable redact digest m"
  shows "distinct (map fst (jm_cleaned m))
    \<and> ((j, x) \<in> set (jm_cleaned m) \<longrightarrow> (\<exists>r. map_of (jm_records m) j = Some r
          \<and> \<not> job_active (jr_snapshot r) \<and> js_result (jr_snapshot r) = None))"
  using reachable_cleaned_ok [OF assms] unfolding cleaned_ok_def by force

theorem cleanup_at_most_once_witness:
  "\<exists>m. job_reachable Some id m \<and> jm_cleaned m = [(first_job, 7::nat)]
    \<and> (\<exists>r. map_of (jm_records m) first_job = Some r \<and> js_result (jr_snapshot r) = None)"
proof -
  let ?run = "to_completed @ [DiscardResult first_job, DiscardResult first_job, Shutdown]"
  have "case run_jobs ?run of Inl _ \<Rightarrow> False | Inr m \<Rightarrow> jm_cleaned m = [(first_job, 7)]" by code_simp
  then obtain m where m: "run_jobs ?run = Inr m" "jm_cleaned m = [(first_job, 7)]" by (auto split: sum.splits)
  from cleanup_at_most_once [OF run_jobs_reachable [OF m(1)], of first_job 7] m(2)
  have "\<exists>r. map_of (jm_records m) first_job = Some r \<and> js_result (jr_snapshot r) = None" by auto
  with m run_jobs_reachable [OF m(1)] show ?thesis by blast
qed

lemma completed_result:
  "transition_completed now (Some x) r = (r', y) \<Longrightarrow> jr_result_cleanup r \<Longrightarrow>
   js_result (jr_snapshot r') = Some x \<and> y = None \<or> js_result (jr_snapshot r') = None \<and> y = Some x"
  by (auto simp: transition_completed_def store_snapshot_def cancelled_snapshot_def Let_def split: if_splits)

lemma cancelled_result: "js_result (jr_snapshot (transition_cancelled now r)) = None"
  by (simp add: transition_cancelled_def store_snapshot_def cancelled_snapshot_def)

text \<open>No result is lost: a worker that ends with a result of a job with a cleanup leaves the
  result in the snapshot or gives it to the cleanup, and not both.\<close>

theorem result_kept_or_cleaned:
  assumes "worker_finish redact j now m = Inr m'" and "jm_workers m j = Some w"
    and "wk_phase w = Completing (Some x) \<or> wk_phase w = Cancelling (Some x)"
    and "map_of (jm_records m) j = Some r" and "jr_result_cleanup r"
  shows "\<exists>r'. map_of (jm_records m') j = Some r'
    \<and> (js_result (jr_snapshot r') = Some x \<and> jm_cleaned m' = jm_cleaned m
       \<or> js_result (jr_snapshot r') = None \<and> jm_cleaned m' = jm_cleaned m @ [(j, x)])"
proof -
  from worker_finish_Inr [OF assms(1)] assms(2,4) obtain r' y where
    m': "m' = notify (jr_snapshot r') (clean j y (put_record j r' (set_phase j w Finishing m)))"
    and t: "(\<exists>res. wk_phase w = Completing res \<and> transition_completed now res r = (r', y))
       \<or> (\<exists>res. wk_phase w = Cancelling res \<and> r' = transition_cancelled now r \<and> y = (if jr_result_cleanup r then res else None))
       \<or> (\<exists>f. wk_phase w = Failing f \<and> r' = transition_failed redact now f r \<and> y = None)" by auto
  have "js_result (jr_snapshot r') = Some x \<and> y = None \<or> js_result (jr_snapshot r') = None \<and> y = Some x"
    using assms(3)
  proof
    assume "wk_phase w = Completing (Some x)"
    with t have "transition_completed now (Some x) r = (r', y)" by simp
    then show ?thesis by (rule completed_result) (rule assms(5))
  next
    assume "wk_phase w = Cancelling (Some x)"
    with t assms(5) show ?thesis by (simp add: cancelled_result)
  qed
  then show ?thesis by (auto simp: m')
qed

theorem result_kept_or_cleaned_witness:
  "\<exists>m m' r'. worker_finish Some first_job (u ''2'') m = Inr m' \<and> map_of (jm_records m') first_job = Some r'
    \<and> js_result (jr_snapshot r') = Some (7::nat) \<and> jm_cleaned m' = []"
proof -
  let ?run = "to_working @ [FunctionReturns first_job (Some 7), WorkerCheck first_job]"
  have "case run_jobs ?run of Inl _ \<Rightarrow> False | Inr m \<Rightarrow> (case worker_finish Some first_job (u ''2'') m of Inl _ \<Rightarrow> False
     | Inr m' \<Rightarrow> (case (jm_workers m first_job, map_of (jm_records m) first_job) of
         (Some w, Some r) \<Rightarrow> wk_phase w = Completing (Some 7) \<and> jr_result_cleanup r \<and> jm_cleaned m' = [] \<and> jm_cleaned m = []
       | _ \<Rightarrow> False))" by code_simp
  then obtain m m' :: "nat job_manager" and w r where m: "worker_finish Some first_job (u ''2'') m = Inr m'" "jm_workers m first_job = Some w"
    "wk_phase w = Completing (Some 7) \<or> wk_phase w = Cancelling (Some 7)" "map_of (jm_records m) first_job = Some r"
    "jr_result_cleanup r" and c: "jm_cleaned m' = []" "jm_cleaned m = []"
    by (auto split: sum.splits option.splits)
  from result_kept_or_cleaned [OF m] c m(1) show ?thesis by auto
qed

end
