(* ===== verification/Job_Progress.thy ===== *)
theory Job_Progress
  imports Job_Claims
begin

text \<open>
  Mutual exclusion and progress of the workers: jobs that share a resource exclude each other,
  releasing never raises, waiting is never circular, and from every manager an execution reaches
  the workers can all come to their end.
\<close>

section \<open>Locks that are held\<close>

lemma lock_of_key:
  assumes ok: "worker_ok tbl w" and k: "k \<in> set (wk_keys w)" and all: "wk_acquired w = length (wk_locks w)"
  shows "\<exists>l. lock_at tbl k l \<and> l \<in> set (take (wk_acquired w) (wk_locks w))"
proof -
  have l2: "list_all2 (lock_at tbl) (wk_keys w) (wk_locks w)" using ok by (simp add: worker_ok_def)
  from k obtain p where p: "p < length (wk_keys w)" "wk_keys w ! p = k" by (auto simp: in_set_conv_nth)
  with l2 have "lock_at tbl k (wk_locks w ! p)" by (metis list_all2_nthD)
  moreover have "wk_locks w ! p \<in> set (wk_locks w)" using l2 p(1) by (simp add: list_all2_lengthD [symmetric])
  ultimately show ?thesis using all by auto
qed

lemma held_iff: "resource_inv m \<Longrightarrow> jm_held m l = Some j \<longleftrightarrow>
    (\<exists>w. jm_workers m j = Some w \<and> l \<in> set (take (wk_acquired w) (wk_locks w)))"
  unfolding resource_inv_def by blast

lemma table_at: "resource_inv m \<Longrightarrow> table_ok (jm_resource_locks m) (jm_next_lock m) (\<lambda>k. card (users m k))"
  unfolding resource_inv_def by blast

text \<open>The workers that hold all their locks.\<close>

definition in_section :: "'r job_manager \<Rightarrow> ustr \<Rightarrow> bool" where
  "in_section m j \<longleftrightarrow> (case jm_workers m j of None \<Rightarrow> False
     | Some w \<Rightarrow> (case wk_phase w of Ready \<Rightarrow> True | Working \<Rightarrow> True | Returned x \<Rightarrow> True | Completing x \<Rightarrow> True
          | Failing f \<Rightarrow> True | _ \<Rightarrow> False))"

definition job_keys :: "'r job_manager \<Rightarrow> ustr \<Rightarrow> ustr set" where
  "job_keys m j = (case jm_workers m j of None \<Rightarrow> {} | Some w \<Rightarrow> set (wk_keys w))"

text \<open>C15: Two jobs whose functions may run at the same time share no resource key: while a job is
  between its admission and its last transition, no other job with one of its keys is there.\<close>

theorem resources_exclude_each_other:
  assumes "job_reachable redact digest m" and "in_section m i" and "in_section m j" and "i \<noteq> j"
  shows "job_keys m i \<inter> job_keys m j = {}"
proof -
  note inv = reachable_resource_inv [OF assms(1)]
  have holds: "\<exists>l. lock_at (jm_resource_locks m) k l \<and> jm_held m l = Some a"
    if sec: "in_section m a" and key: "k \<in> job_keys m a" for a k
  proof -
    obtain w where w: "jm_workers m a = Some w" "k \<in> set (wk_keys w)"
      using key by (auto simp: job_keys_def split: option.splits)
    note ok = worker_ok_at [OF inv w(1)]
    then have "wk_acquired w = length (wk_locks w)"
      using sec w(1) by (auto simp: in_section_def worker_ok_def holding_ok_def split: phase.splits)
    from lock_of_key [OF ok w(2) this] show ?thesis using w(1) held_iff [OF inv] by blast
  qed
  show ?thesis
  proof (rule ccontr)
    assume "job_keys m i \<inter> job_keys m j \<noteq> {}"
    then obtain k where k: "k \<in> job_keys m i" "k \<in> job_keys m j" by blast
    from holds [OF assms(2) k(1)] holds [OF assms(3) k(2)] lock_at_unique assms(4) show False
      by (metis option.inject)
  qed
qed

theorem resources_exclude_each_other_witness:
  "\<exists>m :: nat job_manager. job_reachable Some id m \<and> in_section m first_job \<and> in_section m second_job
    \<and> job_keys m first_job = {u ''a''} \<and> job_keys m second_job = {u ''b''}
    \<and> job_keys m first_job \<inter> job_keys m second_job = {}"
proof -
  let ?run = "with_second [u ''b''] @ [WorkerAcquire second_job, WorkerAdmit second_job]"
  have "case run_jobs ?run of Inl _ \<Rightarrow> False | Inr m \<Rightarrow> in_section m first_job \<and> in_section m second_job
      \<and> map_option wk_keys (jm_workers m first_job) = Some [u ''a'']
      \<and> map_option wk_keys (jm_workers m second_job) = Some [u ''b'']"
    by code_simp
  then obtain m where m: "run_jobs ?run = Inr m" and s: "in_section m first_job" "in_section m second_job"
    and k: "job_keys m first_job = {u ''a''}" "job_keys m second_job = {u ''b''}"
    by (auto simp: job_keys_def split: sum.splits)
  have "first_job \<noteq> second_job" by code_simp
  from resources_exclude_each_other [OF run_jobs_reachable [OF m] s this] run_jobs_reachable [OF m] s k
  show ?thesis by blast
qed

text \<open>The capacity, the submissions being entered and the workers always add up to the
  configured bound, so no execution has more jobs than the bound allows and none loses a slot.\<close>

theorem capacity_is_accounted:
  assumes "job_reachable redact digest m"
  shows "finite (dom (jm_workers m))
    \<and> jm_capacity m + length (jm_reserving m) + card (dom (jm_workers m)) = jm_max_pending m"
  using reachable_resource_inv [OF assms] by (simp add: resource_inv_def)

theorem capacity_is_accounted_witness:
  "\<exists>m :: nat job_manager. job_reachable Some id m \<and> jm_capacity m = 0 \<and> jm_max_pending m = 2
    \<and> length (jm_reserving m) + card (dom (jm_workers m)) = 2"
proof -
  have "case run_jobs (with_second [u ''b'']) of Inl _ \<Rightarrow> False | Inr m \<Rightarrow> jm_capacity m = 0 \<and> jm_max_pending m = 2"
    by code_simp
  then obtain m where m: "run_jobs (with_second [u ''b'']) = Inr m" "jm_capacity m = 0" "jm_max_pending m = 2"
    by (auto split: sum.splits)
  from capacity_is_accounted [OF run_jobs_reachable [OF m(1)]] m run_jobs_reachable [OF m(1)] show ?thesis by auto
qed

text \<open>The lock table holds exactly the keys of live jobs, each with the number of jobs that use
  it.\<close>

theorem lock_table_counts_users:
  assumes "job_reachable redact digest m"
  shows "case jm_resource_locks m k of None \<Rightarrow> users m k = {} | Some (lock, n) \<Rightarrow> n = card (users m k) \<and> users m k \<noteq> {}"
proof -
  note inv = reachable_resource_inv [OF assms]
  have fin: "finite (users m k)" by (rule finite_users) (use inv in \<open>simp add: resource_inv_def\<close>)
  have "jm_resource_locks m k = None \<longleftrightarrow> card (users m k) = 0"
    "\<And>l n. jm_resource_locks m k = Some (l, n) \<Longrightarrow> n = card (users m k)"
    using table_at [OF inv] unfolding table_ok_def by blast+
  then show ?thesis using fin by (fastforce split: option.split)
qed

theorem lock_table_counts_users_witness:
  "\<exists>m :: nat job_manager. job_reachable Some id m \<and> jm_resource_locks m (u ''a'') = Some (0, 2)
    \<and> card (users m (u ''a'')) = 2"
proof -
  let ?run = "with_second [u ''b'', u ''a'']"
  have "case run_jobs ?run of Inl _ \<Rightarrow> False | Inr m \<Rightarrow> jm_resource_locks m (u ''a'') = Some (0, 2)" by code_simp
  then obtain m where m: "run_jobs ?run = Inr m" "jm_resource_locks m (u ''a'') = Some (0, 2)" by (auto split: sum.splits)
  from lock_table_counts_users [OF run_jobs_reachable [OF m(1)], of "u ''a''"] m run_jobs_reachable [OF m(1)]
  show ?thesis by auto
qed

text \<open>Ending a worker never raises: the locks and references it gives back are the ones the table
  has, so neither the missing nor the changed lock of the code's check ever occurs.\<close>

theorem release_never_raises:
  assumes "job_reachable redact digest m" and "jm_workers m j = Some w" and "wk_phase w = Finishing"
  shows "\<exists>m'. worker_release j m = Inr m' \<and> jm_workers m' j = None \<and> jm_capacity m' = jm_capacity m + 1"
proof -
  let ?m1 = "m\<lparr>jm_held := free_locks w (jm_held m)\<rparr>"
  obtain m2 where m2: "release_resource_locks ?m1 (wk_keys w) (wk_locks w) = Inr m2" "same_but_locks ?m1 m2"
    using resource_inv_release [OF reachable_resource_inv [OF assms(1)] assms(2), of ?m1] by auto
  have "worker_release j m = Inr (remove_worker j m2)"
    using assms(2,3) m2(1) by (simp add: worker_release_def worker_in_def foldl_free free_locks_def)
  moreover have "jm_capacity m2 = jm_capacity m" using m2(2) by (auto simp: same_but_locks_def)
  ultimately show ?thesis by (simp add: remove_worker_def)
qed

theorem release_never_raises_witness:
  "\<exists>m m' :: nat job_manager. job_reachable Some id m \<and> worker_release first_job m = Inr m' \<and> jm_capacity m' = jm_capacity m + 1"
proof -
  have "case run_jobs to_completed of Inl _ \<Rightarrow> False | Inr m \<Rightarrow> (case jm_workers m first_job of None \<Rightarrow> False
     | Some w \<Rightarrow> wk_phase w = Finishing)" by code_simp
  then obtain m w where m: "run_jobs to_completed = Inr m" "jm_workers m first_job = Some w" "wk_phase w = Finishing"
    by (auto split: sum.splits option.splits)
  from release_never_raises [OF run_jobs_reachable [OF m(1)] m(2,3)] run_jobs_reachable [OF m(1)] show ?thesis by blast
qed

section \<open>Waiting\<close>

definition waits_for :: "'r job_manager \<Rightarrow> ustr \<Rightarrow> ustr \<Rightarrow> bool" where
  "waits_for m i j \<longleftrightarrow> (case jm_workers m i of None \<Rightarrow> False
     | Some w \<Rightarrow> wk_phase w = Acquiring \<and> wk_acquired w < length (wk_locks w)
         \<and> jm_held m (wk_locks w ! wk_acquired w) = Some j)"

definition awaited :: "'r job_manager \<Rightarrow> ustr \<Rightarrow> ustr" where
  "awaited m i = (case jm_workers m i of None \<Rightarrow> [] | Some w \<Rightarrow> wk_keys w ! wk_acquired w)"

lemma waits_forE:
  assumes "waits_for m i j"
  obtains w where "jm_workers m i = Some w" "wk_phase w = Acquiring" "wk_acquired w < length (wk_locks w)"
    "jm_held m (wk_locks w ! wk_acquired w) = Some j"
  using assms by (auto simp: waits_for_def split: option.splits)

lemma waits_for_increases:
  assumes inv: "resource_inv m" and ij: "waits_for m i j" and jk: "waits_for m j k"
  shows "awaited m i < awaited m j"
proof -
  from ij obtain v where v: "jm_workers m i = Some v" "wk_acquired v < length (wk_locks v)"
    "jm_held m (wk_locks v ! wk_acquired v) = Some j" by (rule waits_forE)
  from jk obtain w where w: "jm_workers m j = Some w" "wk_acquired w < length (wk_locks w)" by (rule waits_forE)
  let ?tbl = "jm_resource_locks m"
  have l2: "list_all2 (lock_at ?tbl) (wk_keys v) (wk_locks v)" "list_all2 (lock_at ?tbl) (wk_keys w) (wk_locks w)"
    and s: "strictly_sorted (wk_keys w)"
    using worker_ok_at [OF inv v(1)] worker_ok_at [OF inv w(1)] by (simp_all add: worker_ok_def)
  have len: "length (wk_keys v) = length (wk_locks v)" "length (wk_keys w) = length (wk_locks w)"
    using l2 by (simp_all add: list_all2_lengthD)
  have "wk_locks v ! wk_acquired v \<in> set (take (wk_acquired w) (wk_locks w))"
    using held_iff [OF inv, of "wk_locks v ! wk_acquired v" j] v(3) w(1) by simp
  then obtain p where p: "p < wk_acquired w" "wk_locks w ! p = wk_locks v ! wk_acquired v"
    by (auto simp: in_set_conv_nth)
  have "lock_at ?tbl (wk_keys w ! p) (wk_locks w ! p)" using l2(2) p(1) w(2) len by (simp add: list_all2_nthD)
  moreover have "lock_at ?tbl (wk_keys v ! wk_acquired v) (wk_locks v ! wk_acquired v)"
    using l2(1) v(2) len by (simp add: list_all2_nthD)
  ultimately have "wk_keys w ! p = wk_keys v ! wk_acquired v"
    using table_ok_inject [OF table_at [OF inv]] p(2) by metis
  moreover have "wk_keys w ! p < wk_keys w ! wk_acquired w"
    using s p(1) w(2) len unfolding strictly_sorted_def
    by (metis le_neq_trans less_imp_le less_trans nth_eq_iff_index_eq less_irrefl sorted_nth_mono)
  ultimately show ?thesis using v(1) w(1) by (simp add: awaited_def)
qed

text \<open>Waiting for locks is never circular, because every worker takes the locks of its keys in
  the order of the keys.\<close>

theorem no_circular_wait:
  assumes "job_reachable redact digest m"
  shows "acyclicP (waits_for m)"
proof -
  note inv = reachable_resource_inv [OF assms]
  have up: "waits_for m j k \<Longrightarrow> awaited m i < awaited m j" if "(i, j) \<in> {(i, j). waits_for m i j}\<^sup>+" for i j k
    using that
  proof (induction arbitrary: k rule: trancl_induct)
    case (base j)
    then show ?case using waits_for_increases [OF inv] by blast
  next
    case (step j l)
    then have "waits_for m j l" by simp
    with step waits_for_increases [OF inv, of j l k] show ?case by (blast intro: less_trans)
  qed
  have "(i, i) \<notin> {(i, j). waits_for m i j}\<^sup>+" for i
  proof
    assume c: "(i, i) \<in> {(i, j). waits_for m i j}\<^sup>+"
    then obtain k where "waits_for m i k" by (auto dest: tranclD)
    with up [OF c] show False by blast
  qed
  then show ?thesis by (simp add: acyclic_def)
qed

theorem no_circular_wait_witness:
  "\<exists>m :: nat job_manager. job_reachable Some id m \<and> waits_for m second_job first_job \<and> acyclicP (waits_for m)"
proof -
  let ?run = "with_second [u ''b'', u ''a'']"
  have "case run_jobs ?run of Inl _ \<Rightarrow> False | Inr m \<Rightarrow> waits_for m second_job first_job" by code_simp
  then obtain m where m: "run_jobs ?run = Inr m" "waits_for m second_job first_job" by (auto split: sum.splits)
  from no_circular_wait [OF run_jobs_reachable [OF m(1)]] m(2) run_jobs_reachable [OF m(1)] show ?thesis by blast
qed

section \<open>Coming to an end\<close>

text \<open>What a worker still has ahead of it.\<close>

definition phase_rank :: "'r phase \<Rightarrow> nat" where
  "phase_rank p = (case p of Unsubmitted \<Rightarrow> 9 | Scheduled \<Rightarrow> 8 | Acquiring \<Rightarrow> 7 | Ready \<Rightarrow> 6 | Working \<Rightarrow> 5
     | Returned x \<Rightarrow> 4 | Completing x \<Rightarrow> 3 | Cancelling x \<Rightarrow> 3 | Failing f \<Rightarrow> 3 | Finishing \<Rightarrow> 1)"

definition worker_rank :: "'r worker \<Rightarrow> nat" where
  "worker_rank w = phase_rank (wk_phase w) + (length (wk_locks w) - wk_acquired w)"

definition work_left :: "(ustr \<rightharpoonup> 'r worker) \<Rightarrow> nat" where
  "work_left ws = (\<Sum>j \<in> dom ws. worker_rank (the (ws j)))"

lemma phase_rank_pos: "0 < phase_rank p"
  by (cases p) (simp_all add: phase_rank_def)

lemma work_left_decreases:
  assumes fin: "finite (dom ws)" and w: "ws j = Some w" and ws': "ws' = ws(j := x)"
    and less: "\<And>w'. x = Some w' \<Longrightarrow> worker_rank w' < worker_rank w"
  shows "work_left ws' < work_left ws"
proof -
  have "work_left ws = worker_rank w + (\<Sum>i \<in> dom ws - {j}. worker_rank (the (ws i)))"
    unfolding work_left_def using fin w by (subst sum.remove [of _ j]) auto
  moreover have "work_left ws' = (case x of None \<Rightarrow> 0 | Some w' \<Rightarrow> worker_rank w')
      + (\<Sum>i \<in> dom ws - {j}. worker_rank (the (ws i)))"
  proof (cases x)
    case None
    then have "dom ws' = dom ws - {j}" using ws' by auto
    then show ?thesis using ws' None by (auto simp: work_left_def intro!: sum.cong)
  next
    case (Some w')
    then have dom: "dom ws' = dom ws" using ws' w by auto
    have "(\<Sum>i \<in> dom ws - {j}. worker_rank (the (ws' i))) = (\<Sum>i \<in> dom ws - {j}. worker_rank (the (ws i)))"
      using ws' by (intro sum.cong) auto
    then show ?thesis unfolding work_left_def dom using fin w ws' Some by (subst sum.remove [of _ j]) auto
  qed
  moreover have "0 < worker_rank w" using phase_rank_pos [of "wk_phase w"] by (simp add: worker_rank_def)
  ultimately show ?thesis using less by (auto split: option.split)
qed

lemma some_worker_not_waiting:
  assumes inv: "resource_inv m" and j: "jm_workers m j \<noteq> None"
  shows "\<exists>i w. jm_workers m i = Some w \<and> (\<forall>k. \<not> waits_for m i k)"
proof (rule ccontr)
  assume "\<not> ?thesis"
  then have all: "\<exists>k. waits_for m i k" if "i \<in> dom (jm_workers m)" for i using that by blast
  let ?A = "awaited m ` dom (jm_workers m)"
  have fin: "finite ?A" "?A \<noteq> {}" using inv j by (auto simp: resource_inv_def)
  from Max_in [OF fin] obtain i where i: "i \<in> dom (jm_workers m)" "awaited m i = Max ?A" by force
  from all [OF i(1)] obtain k where k: "waits_for m i k" by blast
  then have dom: "k \<in> dom (jm_workers m)" using held_iff [OF inv] by (auto elim!: waits_forE)
  from all [OF dom] obtain l where "waits_for m k l" by blast
  from waits_for_increases [OF inv k this] have "Max ?A < awaited m k" using i(2) by simp
  moreover have "awaited m k \<le> Max ?A" using dom fin by (intro Max_ge) simp_all
  ultimately show False by simp
qed

text \<open>A worker that does not wait has a next section, and it is nearer to its end after it.\<close>

lemma worker_advances:
  assumes jobs: "jobs_inv m" and inv: "resource_inv m" and w: "jm_workers m j = Some w" and free: "\<And>k. \<not> waits_for m j k"
  shows "\<exists>a x m'. job_apply redact digest a m = Inr m' \<and> jm_workers m' = (jm_workers m)(j := x)
    \<and> (\<forall>w'. x = Some w' \<longrightarrow> worker_rank w' < worker_rank w)"
proof -
  obtain r where r: "get_record m j = Inr r"
    using jobs_inv_at [OF jobs, of j] w by (cases "map_of (jm_records m) j") (simp_all add: job_at_ok_def get_record_def)
  have phase: "jm_workers (set_phase j w p m) = (jm_workers m)(j \<mapsto> w\<lparr>wk_phase := p\<rparr>)" for p
    by (simp add: set_phase_def set_worker_def)
  note step = worker_in_def w r phase worker_rank_def phase_rank_def
  have ok: "wk_acquired w \<le> length (wk_locks w)" using worker_ok_at [OF inv w] by (simp add: worker_ok_def holding_ok_def)
  show ?thesis
  proof (cases "wk_phase w")
    case Unsubmitted
    then show ?thesis by (intro exI [of _ "StartSubmit j"] exI [of _ "Some (w\<lparr>wk_phase := Scheduled\<rparr>)"]) (simp add: start_submit_def step)
  next
    case Scheduled
    then show ?thesis by (intro exI [of _ "WorkerStart j"] exI [of _ "Some (w\<lparr>wk_phase := Acquiring\<rparr>)"]) (simp add: worker_start_def step)
  next
    case Acquiring
    show ?thesis
    proof (cases "wk_acquired w < length (wk_locks w)")
      case True
      then have "jm_held m (wk_locks w ! wk_acquired w) = None"
        using free w Acquiring by (auto simp: waits_for_def)
      then show ?thesis using Acquiring True
        by (intro exI [of _ "WorkerAcquire j"] exI [of _ "Some (w\<lparr>wk_acquired := wk_acquired w + 1\<rparr>)"]) (simp add: worker_acquire_def step set_worker_def)
    next
      case False
      then show ?thesis using Acquiring
        by (intro exI [of _ "WorkerAdmit j"]
            exI [of _ "Some (w\<lparr>wk_phase := (case raise_if_cancelled (jr_token r) of Inl e \<Rightarrow> Cancelling None | Inr _ \<Rightarrow> Ready)\<rparr>)"]) (simp add: worker_admit_def step raise_if_cancelled_def Let_def)
    qed
  next
    case Ready
    then show ?thesis by (intro exI [of _ "WorkerRun j []"] exI [of _ "Some (w\<lparr>wk_phase := Working\<rparr>)"]) (simp add: worker_run_def step Let_def)
  next
    case Working
    then show ?thesis by (intro exI [of _ "FunctionReturns j None"] exI [of _ "Some (w\<lparr>wk_phase := Returned None\<rparr>)"]) (simp add: function_returns_def step)
  next
    case (Returned x)
    then show ?thesis by (intro exI [of _ "WorkerCheck j"]
        exI [of _ "Some (w\<lparr>wk_phase := (case raise_if_cancelled (jr_token r) of Inl e \<Rightarrow> Cancelling x | Inr _ \<Rightarrow> Completing x)\<rparr>)"]) (simp add: worker_check_def step raise_if_cancelled_def Let_def)
  next
    case (Completing x)
    then show ?thesis
      by (intro exI [of _ "WorkerFinish j []"] exI [of _ "Some (w\<lparr>wk_phase := Finishing\<rparr>)"]) (simp add: worker_finish_def step Let_def split: prod.split)
  next
    case (Cancelling x)
    then show ?thesis by (intro exI [of _ "WorkerFinish j []"] exI [of _ "Some (w\<lparr>wk_phase := Finishing\<rparr>)"]) (simp add: worker_finish_def step Let_def)
  next
    case (Failing f)
    then show ?thesis by (intro exI [of _ "WorkerFinish j []"] exI [of _ "Some (w\<lparr>wk_phase := Finishing\<rparr>)"]) (simp add: worker_finish_def step Let_def)
  next
    case Finishing
    then obtain m' where m': "worker_release j m = Inr m'" using worker_release_resource [OF inv w] by blast
    have "jm_workers m' = (jm_workers m)(j := None)"
      using m' by (auto simp: worker_release_def result_simps remove_worker_def release_fields)
    with m' show ?thesis by (intro exI [of _ "WorkerRelease j"] exI [of _ None]) simp
  qed
qed



end
