(* ===== verification/Job_Contracts.thy ===== *)
theory Job_Contracts
  imports Job_Manager
begin

text \<open>
  The public values of \<open>application/jobs.py\<close>: progress, snapshots, events, replays and the
  shutdown assessment, each with the checks of its \<open>__post_init__\<close>, and their construction
  from the snapshots of the job manager. \<open>zoned\<close> says which texts
  \<open>datetime.fromisoformat\<close> accepts with a time zone; \<open>artifact\<close> picks the results that
  are artifact references.
\<close>

section \<open>Errors and field checks\<close>

datatype lifecycle_error = Value_Error ustr | Ancestry_Error ustr

definition job_schema_version :: int where
  "job_schema_version = 1"

definition max_sequence :: nat where
  "max_sequence = 9999999999"

definition max_job_events_per_job :: nat where
  "max_job_events_per_job = 256"

definition max_job_list_results :: nat where
  "max_job_list_results = 1000"

definition validate_schema_version :: "int \<Rightarrow> ustr \<Rightarrow> lifecycle_error + unit" where
  "validate_schema_version value label =
     guardE (value = job_schema_version) (Value_Error (u ''Unsupported '' @ label @ u '' schema version.''))"

definition validate_bounded_int :: "nat \<Rightarrow> ustr \<Rightarrow> nat \<Rightarrow> nat \<Rightarrow> lifecycle_error + unit" where
  "validate_bounded_int value label minimum maximum =
     guardE (minimum \<le> value \<and> value \<le> maximum) (Value_Error (label @ u '' is outside its bounded range.''))"

definition job_id_suffix :: "ustr \<Rightarrow> ustr" where
  "job_id_suffix job_id = (if take 1 job_id = u ''j'' then drop 1 job_id else [])"

definition valid_job_id :: "ustr \<Rightarrow> bool" where
  "valid_job_id job_id \<longleftrightarrow> (let suffix = job_id_suffix job_id in
     6 \<le> length suffix \<and> length suffix \<le> 12 \<and> list_all is_digit suffix)"

definition validate_job_id :: "ustr \<Rightarrow> lifecycle_error + unit" where
  "validate_job_id job_id =
     guardE (valid_job_id job_id) (Value_Error (u ''job_id must be a bounded opaque job identifier.''))"

definition require_job_id :: "ustr \<Rightarrow> lifecycle_error + unit" where
  "require_job_id job_id = (case validate_job_id job_id of
     Inl e \<Rightarrow> Inl (Ancestry_Error (u ''JOB_ID_INVALID'')) | Inr x \<Rightarrow> Inr x)"

definition validate_timestamp :: "(ustr \<Rightarrow> bool) \<Rightarrow> ustr option \<Rightarrow> ustr \<Rightarrow> lifecycle_error + unit" where
  "validate_timestamp zoned value label = (case value of
     None \<Rightarrow> Inr ()
   | Some s \<Rightarrow>
       if length s > 64 \<or> 0 \<in> set s then Inl (Value_Error (label @ u '' is not a bounded timestamp.''))
       else guardE (zoned s) (Value_Error (label @ u '' must be an ISO-8601 timestamp.'')))"

definition validate_text :: "ustr option \<Rightarrow> ustr \<Rightarrow> nat \<Rightarrow> lifecycle_error + unit" where
  "validate_text value label maximum = (case value of
     None \<Rightarrow> Inr ()
   | Some s \<Rightarrow> guardE (\<not> (length s > maximum \<or> 0 \<in> set s)) (Value_Error (label @ u '' exceeds its public boundary limit.'')))"

definition validate_code :: "ustr option \<Rightarrow> ustr \<Rightarrow> lifecycle_error + unit" where
  "validate_code value label = (case value of
     None \<Rightarrow> Inr ()
   | Some s \<Rightarrow> guardE (1 \<le> length s \<and> length s \<le> 96 \<and> list_all code_char s)
       (Value_Error (label @ u '' is not a bounded stable code.'')))"

definition bounded_text :: "ustr option \<Rightarrow> nat \<Rightarrow> ustr option" where
  "bounded_text value maximum = map_option (\<lambda>s. take maximum (map (\<lambda>c. if c = 0 then 65533 else c) s)) value"

section \<open>States and kinds\<close>

datatype lifecycle_state = LQueued | LRunning | LCancelling | LPendingSafePoint | LCompleted | LFailed | LCancelled

datatype job_event_kind = Snapshot_Event | Progress_Event | Cancellation_Event | Terminal_Event

fun terminal_state :: "lifecycle_state \<Rightarrow> bool" where
  "terminal_state LCompleted = True"
| "terminal_state LFailed = True"
| "terminal_state LCancelled = True"
| "terminal_state s = False"

fun active_state :: "lifecycle_state \<Rightarrow> bool" where
  "active_state LQueued = True"
| "active_state LRunning = True"
| "active_state LCancelling = True"
| "active_state LPendingSafePoint = True"
| "active_state s = False"

lemma active_not_terminal: "active_state s \<longleftrightarrow> \<not> terminal_state s"
  by (cases s) simp_all

section \<open>Progress\<close>

record public_progress =
  pp_schema_version :: int
  pp_operation :: ustr
  pp_timestamp :: ustr
  pp_completed :: "int option"
  pp_total :: "int option"

definition check_progress :: "(ustr \<Rightarrow> bool) \<Rightarrow> public_progress \<Rightarrow> lifecycle_error + unit" where
  "check_progress zoned p =
     bindE (validate_schema_version (pp_schema_version p) (u ''job progress'')) (\<lambda>_.
     bindE (validate_text (Some (pp_operation p)) (u ''progress operation'') 512) (\<lambda>_.
     bindE (guardE (py_strip (pp_operation p) \<noteq> []) (Value_Error (u ''progress operation must not be empty.''))) (\<lambda>_.
     bindE (validate_timestamp zoned (Some (pp_timestamp p)) (u ''progress timestamp'')) (\<lambda>_.
     case (pp_completed p, pp_total p) of
       (None, None) \<Rightarrow> Inr ()
     | (Some c, Some t) \<Rightarrow> guardE (0 \<le> c \<and> c \<le> t \<and> t \<le> 1000000000 \<and> 1 \<le> t)
         (Value_Error (u ''progress values are outside their bounded range.''))
     | _ \<Rightarrow> Inl (Value_Error (u ''progress requires both completed and total values.''))))))"

text \<open>A constructor runs the check of its value.\<close>

definition constructed :: "('a \<Rightarrow> lifecycle_error + unit) \<Rightarrow> 'a \<Rightarrow> lifecycle_error + 'a" where
  "constructed check x = bindE (check x) (\<lambda>_. Inr x)"

lemma constructed_Inr [result_simps]: "constructed check x = Inr y \<longleftrightarrow> y = x \<and> check x = Inr ()"
  by (auto simp: constructed_def result_simps)

definition progress_from_core :: "(ustr \<Rightarrow> bool) \<Rightarrow> progress_event \<Rightarrow> lifecycle_error + public_progress" where
  "progress_from_core zoned progress = constructed (check_progress zoned)
     \<lparr>pp_schema_version = job_schema_version,
      pp_operation = text_or (bounded_text (Some (pe_operation progress)) 512) (u ''Background work''),
      pp_timestamp = pe_timestamp progress, pp_completed = pe_completed progress, pp_total = pe_total progress\<rparr>"

section \<open>Snapshots\<close>

record 'a public_snapshot =
  ps_schema_version :: int
  ps_sequence :: nat
  ps_job_id :: ustr
  ps_name :: ustr
  ps_state :: lifecycle_state
  ps_submitted_at :: ustr
  ps_started_at :: "ustr option"
  ps_finished_at :: "ustr option"
  ps_resource_refs :: "ustr list"
  ps_artifact :: "'a option"
  ps_outcome_summary :: "ustr option"
  ps_next_action :: "ustr option"
  ps_error_code :: "ustr option"
  ps_error_message :: "ustr option"
  ps_error_remediation :: "ustr option"
  ps_progress :: "public_progress option"
  ps_cancellation_requested_at :: "ustr option"
  ps_cancellation_deferred_by :: "ustr option"

definition hex_char :: "nat \<Rightarrow> bool" where
  "hex_char c \<longleftrightarrow> is_digit c \<or> 97 \<le> c \<and> c \<le> 102"

definition valid_resource_ref :: "ustr \<Rightarrow> bool" where
  "valid_resource_ref ref \<longleftrightarrow> take 9 ref = u ''resource_'' \<and> length (drop 9 ref) = 64 \<and> list_all hex_char (drop 9 ref)"

definition check_snapshot :: "(ustr \<Rightarrow> bool) \<Rightarrow> 'a public_snapshot \<Rightarrow> lifecycle_error + unit" where
  "check_snapshot zoned s =
     bindE (validate_schema_version (ps_schema_version s) (u ''job snapshot'')) (\<lambda>_.
     bindE (validate_bounded_int (ps_sequence s) (u ''job event sequence'') 1 max_sequence) (\<lambda>_.
     bindE (validate_job_id (ps_job_id s)) (\<lambda>_.
     bindE (validate_text (Some (ps_name s)) (u ''job name'') 256) (\<lambda>_.
     bindE (guardE (py_strip (ps_name s) \<noteq> []) (Value_Error (u ''job name must not be empty.''))) (\<lambda>_.
     bindE (validate_timestamp zoned (Some (ps_submitted_at s)) (u ''submitted_at'')) (\<lambda>_.
     bindE (validate_timestamp zoned (ps_started_at s) (u ''started_at'')) (\<lambda>_.
     bindE (validate_timestamp zoned (ps_finished_at s) (u ''finished_at'')) (\<lambda>_.
     bindE (validate_timestamp zoned (ps_cancellation_requested_at s) (u ''cancellation_requested_at'')) (\<lambda>_.
     bindE (guardE (length (ps_resource_refs s) \<le> 32)
       (Value_Error (u ''job resource references exceed their bounded count.''))) (\<lambda>_.
     bindE (guardE (list_all valid_resource_ref (ps_resource_refs s))
       (Value_Error (u ''job resource references must be opaque digests.''))) (\<lambda>_.
     bindE (validate_text (ps_outcome_summary s) (u ''job outcome'') 2048) (\<lambda>_.
     bindE (validate_text (ps_next_action s) (u ''job next action'') 2048) (\<lambda>_.
     bindE (validate_code (ps_error_code s) (u ''job error code'')) (\<lambda>_.
     bindE (validate_text (ps_error_message s) (u ''job error message'') 2048) (\<lambda>_.
     bindE (validate_text (ps_error_remediation s) (u ''job error remediation'') 2048) (\<lambda>_.
     bindE (validate_text (ps_cancellation_deferred_by s) (u ''cancellation safe point'') 512) (\<lambda>_.
     bindE (guardE (\<not> (terminal_state (ps_state s) \<and> ps_finished_at s = None))
       (Value_Error (u ''terminal jobs require a finished timestamp.''))) (\<lambda>_.
     bindE (guardE (\<not> (active_state (ps_state s) \<and> ps_finished_at s \<noteq> None))
       (Value_Error (u ''active jobs cannot have a finished timestamp.''))) (\<lambda>_.
     guardE (\<not> (ps_artifact s \<noteq> None \<and> ps_state s \<noteq> LCompleted))
       (Value_Error (u ''only completed jobs may publish an artifact reference.'')))))))))))))))))))))"

definition public_state :: "'r job_snapshot \<Rightarrow> lifecycle_state" where
  "public_state s = (case js_state s of
     JQueued \<Rightarrow> LQueued
   | JRunning \<Rightarrow> if js_cancellation_pending s then LPendingSafePoint
       else if js_cancellation_requested_at s \<noteq> None then LCancelling else LRunning
   | JCompleted \<Rightarrow> LCompleted | JFailed \<Rightarrow> LFailed | JCancelled \<Rightarrow> LCancelled)"

definition snapshot_from_core :: "(ustr \<Rightarrow> bool) \<Rightarrow> ('r \<Rightarrow> 'a option) \<Rightarrow> 'r job_snapshot \<Rightarrow> nat
    \<Rightarrow> lifecycle_error + 'a public_snapshot" where
  "snapshot_from_core zoned artifact s sequence =
     bindE (case js_progress s of None \<Rightarrow> Inr None
            | Some p \<Rightarrow> bindE (progress_from_core zoned p) (\<lambda>p'. Inr (Some p'))) (\<lambda>progress.
     constructed (check_snapshot zoned)
     \<lparr>ps_schema_version = job_schema_version, ps_sequence = sequence, ps_job_id = js_job_id s,
      ps_name = text_or (bounded_text (Some (js_name s)) 256) (u ''Background job''),
      ps_state = public_state s, ps_submitted_at = js_submitted_at s, ps_started_at = js_started_at s,
      ps_finished_at = js_finished_at s, ps_resource_refs = take 32 (js_resource_keys s),
      ps_artifact = (case js_result s of None \<Rightarrow> None | Some x \<Rightarrow> artifact x),
      ps_outcome_summary = bounded_text (js_outcome_summary s) 2048,
      ps_next_action = bounded_text (js_next_action s) 2048,
      ps_error_code = js_error_code s, ps_error_message = bounded_text (js_error_message s) 2048,
      ps_error_remediation = bounded_text (js_error_remediation s) 2048, ps_progress = progress,
      ps_cancellation_requested_at = js_cancellation_requested_at s,
      ps_cancellation_deferred_by = bounded_text (js_cancellation_deferred_by s) 512\<rparr>)"

section \<open>Events, replays and the shutdown assessment\<close>

record 'a job_event =
  je_schema_version :: int
  je_sequence :: nat
  je_kind :: job_event_kind
  je_created_at :: ustr
  je_snapshot :: "'a public_snapshot"

definition check_event :: "(ustr \<Rightarrow> bool) \<Rightarrow> 'a job_event \<Rightarrow> lifecycle_error + unit" where
  "check_event zoned e =
     bindE (validate_schema_version (je_schema_version e) (u ''job event'')) (\<lambda>_.
     bindE (validate_bounded_int (je_sequence e) (u ''job event sequence'') 1 max_sequence) (\<lambda>_.
     bindE (guardE (je_sequence e = ps_sequence (je_snapshot e))
       (Value_Error (u ''job event and snapshot sequences must match.''))) (\<lambda>_.
     bindE (validate_timestamp zoned (Some (je_created_at e)) (u ''job event timestamp'')) (\<lambda>_.
     bindE (guardE (\<not> (je_kind e = Terminal_Event \<and> \<not> terminal_state (ps_state (je_snapshot e))))
       (Value_Error (u ''terminal events require a terminal job state.''))) (\<lambda>_.
     guardE (\<not> (terminal_state (ps_state (je_snapshot e)) \<and> je_kind e \<noteq> Terminal_Event))
       (Value_Error (u ''terminal job states require a terminal event.'')))))))"

record 'a job_replay =
  rp_schema_version :: int
  rp_job_id :: ustr
  rp_acknowledged_sequence :: nat
  rp_oldest_available_sequence :: nat
  rp_latest_sequence :: nat
  rp_events :: "'a job_event list"

definition check_replay :: "'a job_replay \<Rightarrow> lifecycle_error + unit" where
  "check_replay r =
     bindE (validate_schema_version (rp_schema_version r) (u ''job replay'')) (\<lambda>_.
     bindE (validate_job_id (rp_job_id r)) (\<lambda>_.
     bindE (validate_bounded_int (rp_acknowledged_sequence r) (u ''acknowledged sequence'') 0 max_sequence) (\<lambda>_.
     bindE (validate_bounded_int (rp_oldest_available_sequence r) (u ''oldest available sequence'') 1 max_sequence) (\<lambda>_.
     bindE (validate_bounded_int (rp_latest_sequence r) (u ''latest sequence'') 1 max_sequence) (\<lambda>_.
     bindE (guardE (rp_oldest_available_sequence r \<le> rp_latest_sequence r)
       (Value_Error (u ''job replay availability bounds are invalid.''))) (\<lambda>_.
     bindE (guardE (rp_oldest_available_sequence r - 1 \<le> rp_acknowledged_sequence r
         \<and> rp_acknowledged_sequence r \<le> rp_latest_sequence r)
       (Value_Error (u ''job replay acknowledgement is outside the retained event window.''))) (\<lambda>_.
     bindE (guardE (length (rp_events r) \<le> max_job_events_per_job)
       (Value_Error (u ''job replay exceeds the event count limit.''))) (\<lambda>_.
     bindE (guardE (map je_sequence (rp_events r)
           = [max (rp_acknowledged_sequence r + 1) (rp_oldest_available_sequence r) ..< rp_latest_sequence r + 1])
       (Value_Error (u ''job replay events must form one contiguous sequence.''))) (\<lambda>_.
     guardE (list_all (\<lambda>e. ps_job_id (je_snapshot e) = rp_job_id r) (rp_events r))
       (Value_Error (u ''job replay events must belong to the requested job.'')))))))))))"

record 'a shutdown_assessment =
  sa_schema_version :: int
  sa_safe_to_quit :: bool
  sa_active_jobs :: "'a public_snapshot list"

definition check_assessment :: "'a shutdown_assessment \<Rightarrow> lifecycle_error + unit" where
  "check_assessment a =
     bindE (validate_schema_version (sa_schema_version a) (u ''job shutdown'')) (\<lambda>_.
     bindE (guardE (length (sa_active_jobs a) \<le> max_job_list_results)
       (Value_Error (u ''shutdown assessment exceeds the active-job limit.''))) (\<lambda>_.
     bindE (guardE (list_all (\<lambda>s. active_state (ps_state s)) (sa_active_jobs a))
       (Value_Error (u ''shutdown active jobs must contain only active lifecycle states.''))) (\<lambda>_.
     guardE (sa_safe_to_quit a \<longleftrightarrow> sa_active_jobs a = [])
       (Value_Error (u ''shutdown safety must match the active-job set.'')))))"

section \<open>What a passed check says\<close>

lemma validate_text_Inr [result_simps]:
  "validate_text v label n = Inr x \<longleftrightarrow> (\<forall>s. v = Some s \<longrightarrow> length s \<le> n \<and> 0 \<notin> set s)"
  by (auto simp: validate_text_def result_simps split: option.split)

lemma validate_timestamp_Inr [result_simps]:
  "validate_timestamp zoned v label = Inr x \<longleftrightarrow> (\<forall>s. v = Some s \<longrightarrow> length s \<le> 64 \<and> 0 \<notin> set s \<and> zoned s)"
  by (auto simp: validate_timestamp_def result_simps split: option.split)

lemma validate_code_Inr [result_simps]:
  "validate_code v label = Inr x \<longleftrightarrow> (\<forall>s. v = Some s \<longrightarrow> valid_error_code s)"
  by (auto simp: validate_code_def valid_error_code_def result_simps split: option.split)

lemma bounded_text_fits: "bounded_text v n = Some s \<Longrightarrow> length s \<le> n \<and> 0 \<notin> set s"
  by (auto simp: bounded_text_def dest!: in_set_takeD split: if_splits)

end
