(* ===== verification/Job_Repository.thy ===== *)
theory Job_Repository
  imports Job_Contracts
begin

text \<open>
  The repository of job events: its interface as a locale, the in-memory reference repository
  of \<open>application/jobs.py\<close>, its invariant, and the interpretation of the interface on it.
\<close>

section \<open>The memory repository\<close>

record 'a repository =
  rp_max_events :: nat
  rp_snapshots :: "(ustr \<times> 'a public_snapshot) list"
  rp_stored :: "ustr \<Rightarrow> 'a job_event list"

definition new_repository :: "nat \<Rightarrow> lifecycle_error + 'a repository" where
  "new_repository max_events_per_job =
     (if \<not> (1 \<le> max_events_per_job \<and> max_events_per_job \<le> max_job_events_per_job)
      then Inl (Value_Error (u ''Retained job events must be between 1 and 256 per job.''))
      else Inr \<lparr>rp_max_events = max_events_per_job, rp_snapshots = [], rp_stored = (\<lambda>_. [])\<rparr>)"

definition event_kind :: "'a public_snapshot option \<Rightarrow> 'a public_snapshot \<Rightarrow> job_event_kind" where
  "event_kind current candidate =
     (if terminal_state (ps_state candidate) then Terminal_Event
      else case current of
        None \<Rightarrow> Snapshot_Event
      | Some c \<Rightarrow>
          if ps_state candidate = LCancelling \<or> ps_state candidate = LPendingSafePoint
             \<or> ps_cancellation_requested_at candidate \<noteq> ps_cancellation_requested_at c
             \<or> ps_cancellation_deferred_by candidate \<noteq> ps_cancellation_deferred_by c
          then Cancellation_Event
          else if ps_progress candidate \<noteq> ps_progress c then Progress_Event else Snapshot_Event)"

text \<open>A \<open>deque\<close> with a bound drops from the left.\<close>

definition deque_append :: "nat \<Rightarrow> 'b list \<Rightarrow> 'b \<Rightarrow> 'b list" where
  "deque_append bound xs x = (let ys = xs @ [x] in drop (length ys - bound) ys)"

definition stored_snapshot :: "'a repository \<Rightarrow> ustr \<Rightarrow> 'a public_snapshot option" where
  "stored_snapshot r job_id = map_of (rp_snapshots r) job_id"

definition next_sequence :: "'a repository \<Rightarrow> ustr \<Rightarrow> nat" where
  "next_sequence r job_id = (case stored_snapshot r job_id of None \<Rightarrow> 1 | Some c \<Rightarrow> ps_sequence c + 1)"

definition same_but_sequence :: "'a public_snapshot \<Rightarrow> 'a public_snapshot \<Rightarrow> bool" where
  "same_but_sequence s t \<longleftrightarrow> s\<lparr>ps_sequence := 1\<rparr> = t\<lparr>ps_sequence := 1\<rparr>"

definition record_candidate :: "(ustr \<Rightarrow> bool) \<Rightarrow> ustr \<Rightarrow> job_event_kind option \<Rightarrow> 'a public_snapshot \<Rightarrow> 'a repository
    \<Rightarrow> lifecycle_error + 'a repository \<times> 'a job_event option" where
  "record_candidate zoned now forced_kind candidate r =
     (let job_id = ps_job_id candidate; current = stored_snapshot r job_id in
      if (case current of None \<Rightarrow> False | Some c \<Rightarrow> terminal_state (ps_state c)) then Inr (r, None)
      else if (case current of None \<Rightarrow> False | Some c \<Rightarrow> same_but_sequence c candidate) then Inr (r, None)
      else
        bindE (constructed (check_snapshot zoned) (candidate\<lparr>ps_sequence := next_sequence r job_id\<rparr>)) (\<lambda>candidate'.
        bindE (constructed (check_event zoned)
          \<lparr>je_schema_version = job_schema_version, je_sequence = next_sequence r job_id,
           je_kind = (case forced_kind of Some k \<Rightarrow> k | None \<Rightarrow> event_kind current candidate'),
           je_created_at = now, je_snapshot = candidate'\<rparr>) (\<lambda>event.
          Inr (r\<lparr>rp_snapshots := AList.update job_id candidate' (rp_snapshots r),
                 rp_stored := (rp_stored r)(job_id := deque_append (rp_max_events r) (rp_stored r job_id) event)\<rparr>,
               Some event))))"

definition record_core :: "(ustr \<Rightarrow> bool) \<Rightarrow> ('r \<Rightarrow> 'a option) \<Rightarrow> ustr \<Rightarrow> 'r job_snapshot \<Rightarrow> 'a repository
    \<Rightarrow> lifecycle_error + 'a repository \<times> 'a job_event option" where
  "record_core zoned artifact now s r =
     bindE (snapshot_from_core zoned artifact s (next_sequence r (js_job_id s))) (\<lambda>candidate.
       record_candidate zoned now None candidate r)"

definition repository_get :: "'a repository \<Rightarrow> ustr \<Rightarrow> lifecycle_error + 'a public_snapshot" where
  "repository_get r job_id =
     bindE (require_job_id job_id) (\<lambda>_.
     case stored_snapshot r job_id of
       None \<Rightarrow> Inl (Ancestry_Error (u ''JOB_NOT_FOUND'')) | Some s \<Rightarrow> Inr s)"

definition job_number :: "ustr \<Rightarrow> nat" where
  "job_number job_id = dec_value (drop 1 job_id)"

definition repository_list :: "'a repository \<Rightarrow> nat \<Rightarrow> lifecycle_error + 'a public_snapshot list" where
  "repository_list r limit =
     (if \<not> (1 \<le> limit \<and> limit \<le> max_job_list_results) then Inl (Ancestry_Error (u ''JOB_LIST_LIMIT_INVALID''))
      else Inr (take limit (sort_key (\<lambda>s. - int (job_number (ps_job_id s))) (map snd (rp_snapshots r)))))"

definition repository_replay :: "'a repository \<Rightarrow> ustr \<Rightarrow> nat \<Rightarrow> lifecycle_error + 'a job_replay" where
  "repository_replay r job_id after =
     bindE (require_job_id job_id) (\<lambda>_.
     if after > max_sequence then Inl (Ancestry_Error (u ''JOB_EVENT_CURSOR_INVALID''))
     else case (stored_snapshot r job_id, rp_stored r job_id) of
       (Some s, e # es) \<Rightarrow>
         (let oldest = je_sequence e; latest = ps_sequence s in
          if after < oldest - 1 then Inl (Ancestry_Error (u ''JOB_EVENT_REPLAY_EXPIRED''))
          else if after > latest then Inl (Ancestry_Error (u ''JOB_EVENT_CURSOR_INVALID''))
          else constructed check_replay
            \<lparr>rp_schema_version = job_schema_version, rp_job_id = job_id, rp_acknowledged_sequence = after,
             rp_oldest_available_sequence = oldest, rp_latest_sequence = latest,
             rp_events = filter (\<lambda>e. je_sequence e > after) (e # es)\<rparr>)
     | _ \<Rightarrow> bindE (repository_get r job_id) (\<lambda>_. Inl (Value_Error (u ''unreachable''))))"

definition interrupted_snapshot :: "ustr \<Rightarrow> 'a public_snapshot \<Rightarrow> 'a public_snapshot" where
  "interrupted_snapshot now s =
     s\<lparr>ps_sequence := ps_sequence s + 1, ps_state := LFailed, ps_finished_at := Some now, ps_artifact := None,
       ps_outcome_summary := None, ps_next_action := None, ps_error_code := Some (u ''JOB_INTERRUPTED''),
       ps_error_message := Some (u ''The sidecar stopped before the background job completed.''),
       ps_error_remediation := Some (u ''Review the operation state before retrying manually.''),
       ps_cancellation_deferred_by := None\<rparr>"

definition reconcile_one :: "(ustr \<Rightarrow> bool) \<Rightarrow> ustr \<Rightarrow> 'a repository \<times> 'a job_event list \<Rightarrow> 'a public_snapshot
    \<Rightarrow> lifecycle_error + 'a repository \<times> 'a job_event list" where
  "reconcile_one zoned now = (\<lambda>(r, reconciled) s.
     bindE (constructed (check_snapshot zoned) (interrupted_snapshot now s)) (\<lambda>interrupted.
     bindE (record_candidate zoned now (Some Terminal_Event) interrupted r) (\<lambda>(r', event).
       Inr (r', reconciled @ (case event of None \<Rightarrow> [] | Some e \<Rightarrow> [e])))))"

definition reconcile_active :: "(ustr \<Rightarrow> bool) \<Rightarrow> ustr \<Rightarrow> 'a repository \<Rightarrow> lifecycle_error + 'a repository \<times> 'a job_event list" where
  "reconcile_active zoned now r =
     foldE (reconcile_one zoned now) (r, []) (filter (\<lambda>s. active_state (ps_state s)) (map snd (rp_snapshots r)))"

definition next_job_number :: "'a repository \<Rightarrow> nat" where
  "next_job_number r = foldl max 0 (map (\<lambda>(i, s). job_number i) (rp_snapshots r)) + 1"

text \<open>What may be done with a repository; a reconciliation is a run of single interruptions.\<close>

inductive repository_reachable :: "(ustr \<Rightarrow> bool) \<Rightarrow> ('r \<Rightarrow> 'a option) \<Rightarrow> 'a repository \<Rightarrow> bool"
  for zoned artifact where
  init: "new_repository n = Inr r \<Longrightarrow> repository_reachable zoned artifact r"
| core: "repository_reachable zoned artifact r \<Longrightarrow> record_core zoned artifact now s r = Inr (r', e) \<Longrightarrow>
    repository_reachable zoned artifact r'"
| interrupt: "repository_reachable zoned artifact r \<Longrightarrow> reconcile_one zoned now (r, es) p = Inr (r', es') \<Longrightarrow>
    repository_reachable zoned artifact r'"

section \<open>The invariant\<close>

text \<open>The events of a job are the last ones up to its snapshot, without a gap, and only the last may
  be terminal.\<close>

definition log_ok :: "(ustr \<Rightarrow> bool) \<Rightarrow> nat \<Rightarrow> ustr \<Rightarrow> 'a public_snapshot \<Rightarrow> 'a job_event list \<Rightarrow> bool" where
  "log_ok zoned bound j s es \<longleftrightarrow> es \<noteq> [] \<and> length es \<le> bound \<and> length es \<le> ps_sequence s
     \<and> map je_sequence es = [ps_sequence s + 1 - length es ..< ps_sequence s + 1]
     \<and> je_snapshot (last es) = s \<and> ps_job_id s = j \<and> check_snapshot zoned s = Inr ()
     \<and> list_all (\<lambda>e. ps_job_id (je_snapshot e) = j \<and> check_event zoned e = Inr ()) es
     \<and> list_all (\<lambda>e. \<not> terminal_state (ps_state (je_snapshot e))) (butlast es)"

definition job_log_ok :: "(ustr \<Rightarrow> bool) \<Rightarrow> nat \<Rightarrow> ustr \<Rightarrow> 'a public_snapshot option \<Rightarrow> 'a job_event list \<Rightarrow> bool" where
  "job_log_ok zoned bound j so es \<longleftrightarrow> (case so of None \<Rightarrow> es = [] | Some s \<Rightarrow> log_ok zoned bound j s es)"

lemma job_log_ok_simps [simp]: "job_log_ok zoned b j None es \<longleftrightarrow> es = []"
  "job_log_ok zoned b j (Some s) es \<longleftrightarrow> log_ok zoned b j s es"
  by (simp_all add: job_log_ok_def)

definition repository_inv :: "(ustr \<Rightarrow> bool) \<Rightarrow> 'a repository \<Rightarrow> bool" where
  "repository_inv zoned r \<longleftrightarrow> 1 \<le> rp_max_events r \<and> rp_max_events r \<le> max_job_events_per_job
     \<and> distinct (map fst (rp_snapshots r))
     \<and> (\<forall>j. job_log_ok zoned (rp_max_events r) j (stored_snapshot r j) (rp_stored r j))"

lemma repository_inv_at: "repository_inv zoned r \<Longrightarrow> job_log_ok zoned (rp_max_events r) j (stored_snapshot r j) (rp_stored r j)"
  by (simp add: repository_inv_def)

lemma repository_inv_log: "repository_inv zoned r \<Longrightarrow> stored_snapshot r j = Some s \<Longrightarrow> log_ok zoned (rp_max_events r) j s (rp_stored r j)"
  using repository_inv_at [of zoned r j] by simp

lemma repository_inv_none: "repository_inv zoned r \<Longrightarrow> stored_snapshot r j = None \<Longrightarrow> rp_stored r j = []"
  using repository_inv_at [of zoned r j] by simp

lemma record_candidate_cases [consumes 1, case_names skip new]:
  assumes "record_candidate zoned now k c r = Inr (r', eo)"
  obtains (skip) "r' = r" "eo = None"
  | (new) s e where "eo = Some e" "s = c\<lparr>ps_sequence := next_sequence r (ps_job_id c)\<rparr>"
      "je_snapshot e = s" "je_sequence e = next_sequence r (ps_job_id c)"
      "je_kind e = (case k of Some x \<Rightarrow> x | None \<Rightarrow> event_kind (stored_snapshot r (ps_job_id c)) s)"
      "check_snapshot zoned s = Inr ()" "check_event zoned e = Inr ()"
      "\<And>t. stored_snapshot r (ps_job_id c) = Some t \<Longrightarrow> \<not> terminal_state (ps_state t)"
      "r' = r\<lparr>rp_snapshots := AList.update (ps_job_id c) s (rp_snapshots r),
             rp_stored := (rp_stored r)(ps_job_id c := deque_append (rp_max_events r) (rp_stored r (ps_job_id c)) e)\<rparr>"
proof -
  let ?j = "ps_job_id c"
  consider "r' = r" "eo = None" | "\<And>t. stored_snapshot r ?j = Some t \<Longrightarrow> \<not> terminal_state (ps_state t)"
    "record_candidate zoned now k c r =
        bindE (constructed (check_snapshot zoned) (c\<lparr>ps_sequence := next_sequence r ?j\<rparr>)) (\<lambda>c'.
        bindE (constructed (check_event zoned)
          \<lparr>je_schema_version = job_schema_version, je_sequence = next_sequence r ?j,
           je_kind = (case k of Some k \<Rightarrow> k | None \<Rightarrow> event_kind (stored_snapshot r ?j) c'),
           je_created_at = now, je_snapshot = c'\<rparr>) (\<lambda>event.
          Inr (r\<lparr>rp_snapshots := AList.update ?j c' (rp_snapshots r),
                 rp_stored := (rp_stored r)(?j := deque_append (rp_max_events r) (rp_stored r ?j) event)\<rparr>,
               Some event)))"
  proof (cases "stored_snapshot r ?j")
    case None
    then show ?thesis by (intro that(2)) (simp_all add: record_candidate_def Let_def)
  next
    case (Some t)
    show ?thesis
    proof (cases "terminal_state (ps_state t) \<or> same_but_sequence t c")
      case True
      then have "record_candidate zoned now k c r = Inr (r, None)" using Some by (auto simp: record_candidate_def Let_def)
      then show ?thesis using assms by (intro that(1)) simp_all
    next
      case False
      then show ?thesis using Some by (intro that(2)) (simp_all add: record_candidate_def Let_def)
    qed
  qed
  then show thesis
  proof cases
    case 1
    then show thesis by (rule skip)
  next
    case 2
    let ?s = "c\<lparr>ps_sequence := next_sequence r ?j\<rparr>"
    let ?e = "\<lparr>je_schema_version = job_schema_version, je_sequence = next_sequence r ?j,
      je_kind = (case k of Some k \<Rightarrow> k | None \<Rightarrow> event_kind (stored_snapshot r ?j) ?s), je_created_at = now, je_snapshot = ?s\<rparr>"
    have "check_snapshot zoned ?s = Inr ()" "check_event zoned ?e = Inr ()" "eo = Some ?e"
      "r' = r\<lparr>rp_snapshots := AList.update ?j ?s (rp_snapshots r),
             rp_stored := (rp_stored r)(?j := deque_append (rp_max_events r) (rp_stored r ?j) ?e)\<rparr>"
      using assms unfolding 2(2) by (auto simp: result_simps)
    then show thesis using 2(1) by (intro new [of ?e ?s]) simp_all
  qed
qed

lemma stored_update [simp]:
  "stored_snapshot (r\<lparr>rp_snapshots := AList.update j s (rp_snapshots r), rp_stored := es\<rparr>) i = (if i = j then Some s else stored_snapshot r i)"
  by (simp add: stored_snapshot_def update_conv')

lemma deque_append_fits: "length xs \<le> b \<Longrightarrow> 1 \<le> b \<Longrightarrow>
    deque_append b xs x = (if length xs < b then xs else tl xs) @ [x]"
  by (cases xs) (auto simp: deque_append_def Let_def)

lemma log_ok_append:
  assumes ok: "log_ok zoned b j s es" and b: "1 \<le> b" and nt: "\<not> terminal_state (ps_state s)"
    and e: "je_snapshot e = t" "je_sequence e = ps_sequence t" "ps_sequence t = ps_sequence s + 1" "ps_job_id t = j"
    and c: "check_snapshot zoned t = Inr ()" "check_event zoned e = Inr ()"
  shows "log_ok zoned b j t (deque_append b es e)"
proof -
  let ?n = "ps_sequence s" and ?l = "length es"
  have es: "es \<noteq> []" "?l \<le> b" "?l \<le> ?n" "map je_sequence es = [?n + 1 - ?l ..< ?n + 1]" "je_snapshot (last es) = s"
    "list_all (\<lambda>e. ps_job_id (je_snapshot e) = j \<and> check_event zoned e = Inr ()) es"
    "list_all (\<lambda>e. \<not> terminal_state (ps_state (je_snapshot e))) (butlast es)"
    using ok by (simp_all add: log_ok_def)
  have nts: "list_all (\<lambda>e. \<not> terminal_state (ps_state (je_snapshot e))) es"
    using es(5,7) nt append_butlast_last_id [OF es(1)] list_all_append [of _ "butlast es" "[last es]"] by simp
  have all: "list_all (\<lambda>e. ps_job_id (je_snapshot e) = j \<and> check_event zoned e = Inr ()) (es @ [e])"
    using es(6) e c by simp
  show ?thesis
  proof (cases "?l < b")
    case True
    have "map je_sequence (es @ [e]) = [ps_sequence t + 1 - length (es @ [e]) ..< ps_sequence t + 1]"
      using es(3,4) e by simp
    then show ?thesis using True es e c all nts by (simp add: deque_append_fits log_ok_def)
  next
    case False
    obtain x xs where x: "es = x # xs" using es(1) by (cases es) auto
    have "map je_sequence xs = tl [?n + 1 - ?l ..< ?n + 1]" using es(4) x by (metis list.map_sel(2) list.sel(3) es(1))
    also have "\<dots> = [?n + 2 - ?l ..< ?n + 1]" using es(3) by (simp only: tl_upt) (simp add: Suc_diff_le)
    finally have seqs: "map je_sequence (xs @ [e]) = [ps_sequence t + 1 - length (xs @ [e]) ..< ps_sequence t + 1]"
      using es(3) e x by (simp add: Suc_diff_le)
    have deque: "deque_append b es e = xs @ [e]" using deque_append_fits [OF es(2) b, of e] False x by simp
    have parts: "list_all (\<lambda>e. ps_job_id (je_snapshot e) = j \<and> check_event zoned e = Inr ()) (xs @ [e])"
      "list_all (\<lambda>e. \<not> terminal_state (ps_state (je_snapshot e))) xs" "length (xs @ [e]) \<le> b"
      "length (xs @ [e]) \<le> ps_sequence t"
      using all nts es(2,3) e x by simp_all
    show ?thesis unfolding log_ok_def deque using seqs parts e c by (simp del: upt_Suc add: butlast_append)
  qed
qed

lemma log_ok_first:
  assumes "je_snapshot e = t" "je_sequence e = ps_sequence t" "ps_sequence t = 1" "ps_job_id t = j" "1 \<le> b"
    and "check_snapshot zoned t = Inr ()" "check_event zoned e = Inr ()"
  shows "log_ok zoned b j t (deque_append b [] e)"
  using assms by (simp add: deque_append_fits log_ok_def)

lemma record_candidate_inv:
  assumes inv: "repository_inv zoned r" and c: "record_candidate zoned now k c r = Inr (r', eo)"
  shows "repository_inv zoned r'"
  using c
proof (cases rule: record_candidate_cases)
  case skip
  then show ?thesis using inv by simp
next
  case (new s e)
  let ?j = "ps_job_id c"
  have b: "1 \<le> rp_max_events r" using inv by (simp add: repository_inv_def)
  have s: "ps_sequence s = next_sequence r ?j" "ps_job_id s = ?j" using new(2) by simp_all
  have "log_ok zoned (rp_max_events r) ?j s (deque_append (rp_max_events r) (rp_stored r ?j) e)"
  proof (cases "stored_snapshot r ?j")
    case None
    then show ?thesis using new s b repository_inv_none [OF inv None]
      by (simp add: log_ok_first next_sequence_def)
  next
    case (Some t)
    show ?thesis
      by (rule log_ok_append [OF repository_inv_log [OF inv Some] b])
        (use new s Some in \<open>simp_all add: next_sequence_def\<close>)
  qed
  then have "job_log_ok zoned (rp_max_events r') i (stored_snapshot r' i) (rp_stored r' i)" for i
    using new(9) repository_inv_at [OF inv, of i] by (cases "i = ?j") simp_all
  then show ?thesis using inv new(9) by (simp add: repository_inv_def distinct_update)
qed

lemma record_core_inv: "repository_inv zoned r \<Longrightarrow> record_core zoned artifact now s r = Inr (r', eo) \<Longrightarrow> repository_inv zoned r'"
  by (auto simp: record_core_def result_simps intro: record_candidate_inv)

lemma reconcile_one_inv: "repository_inv zoned r \<Longrightarrow> reconcile_one zoned now (r, es) p = Inr (r', es') \<Longrightarrow> repository_inv zoned r'"
  by (auto simp: reconcile_one_def result_simps intro: record_candidate_inv)

lemma reachable_repository_inv: "repository_reachable zoned artifact r \<Longrightarrow> repository_inv zoned r"
proof (induction rule: repository_reachable.induct)
  case (init n r)
  then show ?case by (auto simp: new_repository_def repository_inv_def stored_snapshot_def split: if_splits)
qed (auto intro: record_core_inv reconcile_one_inv)

section \<open>Replays\<close>

definition latest_sequence :: "'a repository \<Rightarrow> ustr \<Rightarrow> nat" where
  "latest_sequence r j = (case stored_snapshot r j of None \<Rightarrow> 0 | Some s \<Rightarrow> ps_sequence s)"

lemma filter_upt_greater: "filter (\<lambda>n. a < n) [l ..< Suc n] = [max (Suc a) l ..< Suc n]"
proof (induction n)
  case 0
  then show ?case by (cases l) (auto simp: max_def)
next
  case (Suc n)
  show ?case
  proof (cases "l \<le> Suc n")
    case True
    then have "filter (\<lambda>n. a < n) [l ..< Suc (Suc n)] = [max (Suc a) l ..< Suc n] @ (if a < Suc n then [Suc n] else [])"
      using Suc by simp
    also have "\<dots> = [max (Suc a) l ..< Suc (Suc n)]" using True by (auto simp: max_def)
    finally show ?thesis .
  next
    case False
    then show ?thesis by (simp add: max_def)
  qed
qed

lemma log_first: "log_ok zoned b j s (e # es) \<Longrightarrow> je_sequence e = ps_sequence s + 1 - length (e # es)
    \<and> 1 \<le> je_sequence e \<and> je_sequence e \<le> ps_sequence s"
proof -
  assume ok: "log_ok zoned b j s (e # es)"
  then have l: "length (e # es) \<le> ps_sequence s" and m: "map je_sequence (e # es) = [ps_sequence s + 1 - length (e # es) ..< ps_sequence s + 1]"
    by (simp_all only: log_ok_def)
  from arg_cong [OF m, of hd] l have "je_sequence e = ps_sequence s + 1 - length (e # es)" by (simp del: upt_Suc)
  with l show ?thesis by simp
qed

lemma replay_cases:
  assumes inv: "repository_inv zoned r"
  shows "repository_replay r j after =
    (if \<not> valid_job_id j then Inl (Ancestry_Error (u ''JOB_ID_INVALID''))
     else if after > max_sequence then Inl (Ancestry_Error (u ''JOB_EVENT_CURSOR_INVALID''))
     else case stored_snapshot r j of
       None \<Rightarrow> Inl (Ancestry_Error (u ''JOB_NOT_FOUND''))
     | Some s \<Rightarrow>
         if after + length (rp_stored r j) < ps_sequence s then Inl (Ancestry_Error (u ''JOB_EVENT_REPLAY_EXPIRED''))
         else if after > ps_sequence s then Inl (Ancestry_Error (u ''JOB_EVENT_CURSOR_INVALID''))
         else Inr \<lparr>rp_schema_version = job_schema_version, rp_job_id = j, rp_acknowledged_sequence = after,
             rp_oldest_available_sequence = ps_sequence s + 1 - length (rp_stored r j), rp_latest_sequence = ps_sequence s,
             rp_events = filter (\<lambda>e. je_sequence e > after) (rp_stored r j)\<rparr>)"
proof -
  have req: "require_job_id j = (if valid_job_id j then Inr () else Inl (Ancestry_Error (u ''JOB_ID_INVALID'')))"
    by (simp add: require_job_id_def validate_job_id_def)
  show ?thesis
  proof (cases "valid_job_id j \<and> \<not> after > max_sequence")
    case False
    then show ?thesis by (auto simp: repository_replay_def req)
  next
    case True
    show ?thesis
    proof (cases "stored_snapshot r j")
      case None
      then show ?thesis using True by (simp add: repository_replay_def req repository_get_def)
    next
      case (Some s)
      note ok = repository_inv_log [OF inv Some]
      then obtain e es where es: "rp_stored r j = e # es" by (cases "rp_stored r j") (simp_all add: log_ok_def)
      note first = log_first [OF ok [unfolded es]]
      have old: "after < je_sequence e - 1 \<longleftrightarrow> after + length (e # es) < ps_sequence s" using first by auto
      have seqs: "map je_sequence (filter (\<lambda>e. after < je_sequence e) (e # es)) = [max (after + 1) (je_sequence e) ..< ps_sequence s + 1]"
      proof -
        have "map je_sequence (filter (\<lambda>e. after < je_sequence e) (e # es)) = filter (\<lambda>n. after < n) (map je_sequence (e # es))"
          by (simp add: filter_map comp_def del: upt_Suc)
        also have "map je_sequence (e # es) = [je_sequence e ..< Suc (ps_sequence s)]"
          using ok es first by (simp add: log_ok_def del: upt_Suc)
        finally show ?thesis by (simp add: filter_upt_greater del: upt_Suc)
      qed
      have small: "ps_sequence s \<le> max_sequence"
        using ok by (auto simp: log_ok_def check_snapshot_def validate_bounded_int_def result_simps)
      have len: "length (filter (\<lambda>e. after < je_sequence e) (e # es)) \<le> max_job_events_per_job"
        using ok es inv length_filter_le [of "\<lambda>e. after < je_sequence e" "e # es"] by (simp add: log_ok_def repository_inv_def)
      have mine: "list_all (\<lambda>e. ps_job_id (je_snapshot e) = j) (filter (\<lambda>e. after < je_sequence e) (e # es))"
        using ok es by (auto simp: log_ok_def list_all_iff)
      have check: "check_replay \<lparr>rp_schema_version = job_schema_version, rp_job_id = j, rp_acknowledged_sequence = after,
             rp_oldest_available_sequence = je_sequence e, rp_latest_sequence = ps_sequence s,
             rp_events = filter (\<lambda>e. after < je_sequence e) (e # es)\<rparr> = Inr ()"
        if "\<not> after < je_sequence e - 1" "\<not> after > ps_sequence s"
        using that True first small len mine seqs
        by (simp add: check_replay_def validate_schema_version_def validate_job_id_def validate_bounded_int_def
            result_simps del: upt_Suc filter.simps)
      show ?thesis
        using True Some es old first check
        by (simp add: repository_replay_def req Let_def constructed_def del: filter.simps)
    qed
  qed
qed

lemma replay_checked: "repository_replay r j after = Inr rep \<Longrightarrow> check_replay rep = Inr ()"
  by (auto simp: repository_replay_def result_simps Let_def split: option.splits list.splits if_splits)

lemma replay_events:
  assumes inv: "repository_inv zoned r" and rep: "repository_replay r j after = Inr rep"
  shows "map je_sequence (rp_events rep) = [after + 1 ..< latest_sequence r j + 1] \<and> after \<le> latest_sequence r j
    \<and> list_all (\<lambda>e. ps_job_id (je_snapshot e) = j) (rp_events rep)
    \<and> (after < latest_sequence r j \<longrightarrow> stored_snapshot r j = Some (je_snapshot (last (rp_events rep))))
    \<and> check_replay rep = Inr () \<and> rp_acknowledged_sequence rep = after \<and> rp_job_id rep = j"
proof -
  obtain s where s: "stored_snapshot r j = Some s"
    using rep unfolding replay_cases [OF inv] by (cases "stored_snapshot r j") (auto split: if_splits)
  note ok = repository_inv_log [OF inv s]
  let ?es = "rp_stored r j"
  have bounds: "ps_sequence s \<le> after + length ?es" "after \<le> ps_sequence s"
    and rep': "rep = \<lparr>rp_schema_version = job_schema_version, rp_job_id = j, rp_acknowledged_sequence = after,
             rp_oldest_available_sequence = ps_sequence s + 1 - length ?es, rp_latest_sequence = ps_sequence s,
             rp_events = filter (\<lambda>e. je_sequence e > after) ?es\<rparr>"
    using rep s unfolding replay_cases [OF inv] by (auto split: if_splits)
  have seqs: "map je_sequence ?es = [ps_sequence s + 1 - length ?es ..< Suc (ps_sequence s)]"
    and len: "length ?es \<le> ps_sequence s" and last: "?es \<noteq> []" "je_snapshot (last ?es) = s"
    using ok by (simp_all add: log_ok_def del: upt_Suc)
  have "map je_sequence (rp_events rep) = filter (\<lambda>n. after < n) (map je_sequence ?es)"
    by (simp add: rep' filter_map comp_def)
  also have "\<dots> = [after + 1 ..< ps_sequence s + 1]"
  proof -
    have "max (Suc after) (ps_sequence s + 1 - length ?es) = Suc after" using bounds by simp
    then show ?thesis by (simp add: seqs filter_upt_greater del: upt_Suc)
  qed
  finally have m: "map je_sequence (rp_events rep) = [after + 1 ..< ps_sequence s + 1]" .
  have "ps_sequence s + 1 - length ?es \<le> ps_sequence s" using last(1) len by (cases ?es) auto
  then have "last (map je_sequence ?es) = ps_sequence s" by (simp add: seqs)
  then have ls: "je_sequence (last ?es) = ps_sequence s" using last(1) by (simp add: last_map)
  have "je_snapshot (last (rp_events rep)) = s" if "after < ps_sequence s"
  proof -
    have "?es = butlast ?es @ [last ?es]" using last(1) by simp
    then have "rp_events rep = filter (\<lambda>e. je_sequence e > after) (butlast ?es) @ [last ?es]"
      using that ls by (simp add: rep') (metis (no_types, lifting) filter.simps(1,2) filter_append)
    then show ?thesis using last(2) by simp
  qed
  moreover have "list_all (\<lambda>e. ps_job_id (je_snapshot e) = j) (rp_events rep)"
    using ok by (auto simp: rep' log_ok_def list_all_iff)
  ultimately show ?thesis using m bounds s replay_checked [OF rep] by (simp add: latest_sequence_def rep' del: upt_Suc)
qed

text \<open>Asking for the events after an acknowledged number gives exactly the events the subscriber
  has not seen, in order and without a gap, up to the current snapshot of the job.\<close>

theorem replay_returns_missing_events:
  assumes "repository_reachable zoned artifact r" and "repository_replay r j after = Inr rep"
  shows "map je_sequence (rp_events rep) = [after + 1 ..< latest_sequence r j + 1]
    \<and> list_all (\<lambda>e. ps_job_id (je_snapshot e) = j) (rp_events rep)
    \<and> (after < latest_sequence r j \<longrightarrow> stored_snapshot r j = Some (je_snapshot (last (rp_events rep))))"
  using replay_events [OF reachable_repository_inv [OF assms(1)] assms(2)] by blast

text \<open>A replay never breaks its own contract: from a repository an execution reaches, a call
  returns a replay or one of the four documented errors, and no check of the value it builds fails.\<close>

theorem replay_errors_are_documented:
  assumes "repository_reachable zoned artifact r" and "repository_replay r j after = Inl e"
  shows "e \<in> Ancestry_Error ` {u ''JOB_ID_INVALID'', u ''JOB_EVENT_CURSOR_INVALID'', u ''JOB_NOT_FOUND'',
    u ''JOB_EVENT_REPLAY_EXPIRED''}"
  using assms(2) unfolding replay_cases [OF reachable_repository_inv [OF assms(1)]]
  by (auto split: if_splits option.splits)

text \<open>The repository keeps for every job the last events up to its snapshot: at most the
  configured number, numbered without a gap, all of that job, all valid, and only the last one may
  be terminal.\<close>

theorem repository_keeps_contiguous_events:
  assumes "repository_reachable zoned artifact r" and "stored_snapshot r j = Some s"
  shows "log_ok zoned (rp_max_events r) j s (rp_stored r j) \<and> rp_max_events r \<le> 256"
  using reachable_repository_inv [OF assms(1)] repository_inv_log [OF _ assms(2)]
  by (auto simp: repository_inv_def max_job_events_per_job_def)

section \<open>The end of a job\<close>

text \<open>After its terminal event a job records nothing more: whatever snapshot of it arrives late,
  the repository stays as it is and no event is published.\<close>

theorem terminal_record_is_final:
  assumes "stored_snapshot r (js_job_id s) = Some t" and "terminal_state (ps_state t)"
    and "record_core zoned artifact now s r = Inr (r', e)"
  shows "r' = r \<and> e = None"
proof -
  obtain c where c: "snapshot_from_core zoned artifact s (next_sequence r (js_job_id s)) = Inr c"
    "record_candidate zoned now None c r = Inr (r', e)" using assms(3) by (auto simp: record_core_def result_simps)
  then have "ps_job_id c = js_job_id s" by (auto simp: snapshot_from_core_def result_simps)
  then show ?thesis using c(2) assms(1,2) by (simp add: record_candidate_def Let_def)
qed

definition interrupted_event :: "'a job_event \<Rightarrow> bool" where
  "interrupted_event e \<longleftrightarrow> je_kind e = Terminal_Event \<and> ps_state (je_snapshot e) = LFailed
     \<and> ps_error_code (je_snapshot e) = Some (u ''JOB_INTERRUPTED'')"

lemma reconcile_one_effect:
  assumes s: "stored_snapshot r (ps_job_id s) = Some s" and act: "active_state (ps_state s)"
    and one: "reconcile_one zoned now (r, es) s = Inr (r', es')"
  shows "\<exists>e t. es' = es @ [e] \<and> interrupted_event e \<and> ps_job_id (je_snapshot e) = ps_job_id s
    \<and> stored_snapshot r' (ps_job_id s) = Some t \<and> terminal_state (ps_state t)
    \<and> (\<forall>j. j \<noteq> ps_job_id s \<longrightarrow> stored_snapshot r' j = stored_snapshot r j)"
proof -
  let ?i = "interrupted_snapshot now s"
  obtain eo where c: "record_candidate zoned now (Some Terminal_Event) ?i r = Inr (r', eo)"
    and es': "es' = es @ (case eo of None \<Rightarrow> [] | Some e \<Rightarrow> [e])"
    using one by (auto simp: reconcile_one_def result_simps)
  have j: "ps_job_id ?i = ps_job_id s" by (simp add: interrupted_snapshot_def)
  have "\<not> terminal_state (ps_state s)" using act active_not_terminal by blast
  moreover have "ps_state (s\<lparr>ps_sequence := 1\<rparr>) \<noteq> ps_state (?i\<lparr>ps_sequence := 1\<rparr>)"
    using act by (auto simp: interrupted_snapshot_def)
  then have "\<not> same_but_sequence s ?i" unfolding same_but_sequence_def by metis
  ultimately have "eo \<noteq> None" using c s by (auto simp: record_candidate_def Let_def j result_simps)
  from c this show ?thesis
    by (cases rule: record_candidate_cases)
      (auto simp: es' j interrupted_snapshot_def interrupted_event_def)
qed

lemma reconcile_loop:
  assumes "foldE (reconcile_one zoned now) (r, es) ss = Inr (r', es')" and "distinct (map ps_job_id ss)"
    and "\<And>s. s \<in> set ss \<Longrightarrow> stored_snapshot r (ps_job_id s) = Some s \<and> active_state (ps_state s)"
  shows "\<exists>new. es' = es @ new \<and> list_all interrupted_event new
    \<and> map (\<lambda>e. ps_job_id (je_snapshot e)) new = map ps_job_id ss
    \<and> (\<forall>s \<in> set ss. \<exists>t. stored_snapshot r' (ps_job_id s) = Some t \<and> terminal_state (ps_state t))
    \<and> (\<forall>j. j \<notin> ps_job_id ` set ss \<longrightarrow> stored_snapshot r' j = stored_snapshot r j)"
  using assms
proof (induction ss arbitrary: r es)
  case (Cons s ss)
  from Cons.prems(1) obtain r1 es1 where one: "reconcile_one zoned now (r, es) s = Inr (r1, es1)"
    and rest: "foldE (reconcile_one zoned now) (r1, es1) ss = Inr (r', es')" by (auto simp: bindE_Inr_iff)
  have s: "stored_snapshot r (ps_job_id s) = Some s" "active_state (ps_state s)" using Cons.prems(3) [of s] by simp_all
  from reconcile_one_effect [OF s one] obtain e t where e: "es1 = es @ [e]" "interrupted_event e"
    "ps_job_id (je_snapshot e) = ps_job_id s" "stored_snapshot r1 (ps_job_id s) = Some t" "terminal_state (ps_state t)"
    and same: "\<And>j. j \<noteq> ps_job_id s \<Longrightarrow> stored_snapshot r1 j = stored_snapshot r j" by blast
  have d: "distinct (map ps_job_id ss)" "ps_job_id s \<notin> ps_job_id ` set ss" using Cons.prems(2) by simp_all
  have keep: "stored_snapshot r1 (ps_job_id v) = Some v \<and> active_state (ps_state v)" if "v \<in> set ss" for v
    using that Cons.prems(3) [of v] same [of "ps_job_id v"] d(2) by (metis image_eqI list.set_intros(2))
  from Cons.IH [OF rest d(1) keep] obtain new where new: "es' = es1 @ new" "list_all interrupted_event new"
    "map (\<lambda>e. ps_job_id (je_snapshot e)) new = map ps_job_id ss"
    "\<forall>s \<in> set ss. \<exists>t. stored_snapshot r' (ps_job_id s) = Some t \<and> terminal_state (ps_state t)"
    "\<And>j. j \<notin> ps_job_id ` set ss \<Longrightarrow> stored_snapshot r' j = stored_snapshot r1 j" by blast
  show ?case
    using e new d same by (intro exI [of _ "e # new"]) auto
qed simp

lemma stored_members:
  assumes inv: "repository_inv zoned r"
  shows "distinct (map ps_job_id (map snd (rp_snapshots r)))"
    and "s \<in> set (map snd (rp_snapshots r)) \<Longrightarrow> stored_snapshot r (ps_job_id s) = Some s"
    and "stored_snapshot r j = Some s \<Longrightarrow> s \<in> set (map snd (rp_snapshots r)) \<and> ps_job_id s = j"
proof -
  have dist: "distinct (map fst (rp_snapshots r))" using inv by (simp add: repository_inv_def)
  have id: "ps_job_id s = i" if "(i, s) \<in> set (rp_snapshots r)" for i s
  proof -
    have "stored_snapshot r i = Some s" using dist that by (simp add: stored_snapshot_def map_of_is_SomeI)
    from repository_inv_log [OF inv this] show ?thesis by (simp add: log_ok_def)
  qed
  then have ids: "map ps_job_id (map snd (rp_snapshots r)) = map fst (rp_snapshots r)" by auto
  show "distinct (map ps_job_id (map snd (rp_snapshots r)))" unfolding ids by (rule dist)
  show "stored_snapshot r (ps_job_id s) = Some s" if "s \<in> set (map snd (rp_snapshots r))"
  proof -
    from that obtain i where i: "(i, s) \<in> set (rp_snapshots r)" by auto
    then show ?thesis using id [OF i] dist by (simp add: stored_snapshot_def map_of_is_SomeI)
  qed
  show "s \<in> set (map snd (rp_snapshots r)) \<and> ps_job_id s = j" if "stored_snapshot r j = Some s"
    using map_of_SomeD [of "rp_snapshots r" j s] that id by (force simp: stored_snapshot_def)
qed

definition all_finished :: "'a repository \<Rightarrow> bool" where
  "all_finished r \<longleftrightarrow> (\<forall>j s. stored_snapshot r j = Some s \<longrightarrow> terminal_state (ps_state s))"

definition finished_kept :: "'a repository \<Rightarrow> 'a repository \<Rightarrow> bool" where
  "finished_kept r r' \<longleftrightarrow> (\<forall>j s. stored_snapshot r j = Some s \<longrightarrow> terminal_state (ps_state s) \<longrightarrow> stored_snapshot r' j = Some s)"

text \<open>Reconciling after a restart leaves no job active: every job that was active gets one
  terminal event that says it was interrupted, and the finished jobs keep their snapshots.\<close>

theorem reconcile_leaves_no_active:
  assumes "repository_reachable zoned artifact r" and "reconcile_active zoned now r = Inr (r', events)"
  shows "all_finished r' \<and> finished_kept r r' \<and> list_all interrupted_event events
    \<and> map (\<lambda>e. ps_job_id (je_snapshot e)) events
      = map ps_job_id (filter (\<lambda>s. active_state (ps_state s)) (map snd (rp_snapshots r)))"
proof -
  note inv = reachable_repository_inv [OF assms(1)]
  let ?ss = "filter (\<lambda>s. active_state (ps_state s)) (map snd (rp_snapshots r))"
  have loop: "foldE (reconcile_one zoned now) (r, []) ?ss = Inr (r', events)"
    using assms(2) by (simp add: reconcile_active_def)
  have d: "distinct (map ps_job_id ?ss)" using stored_members(1) [OF inv] by (rule distinct_map_filter)
  have m: "stored_snapshot r (ps_job_id s) = Some s \<and> active_state (ps_state s)" if "s \<in> set ?ss" for s
    using that stored_members(2) [OF inv, of s] by auto
  from reconcile_loop [OF loop d m] obtain new where new: "events = [] @ new" "list_all interrupted_event new"
    "map (\<lambda>e. ps_job_id (je_snapshot e)) new = map ps_job_id ?ss"
    "\<And>s. s \<in> set ?ss \<Longrightarrow> \<exists>t. stored_snapshot r' (ps_job_id s) = Some t \<and> terminal_state (ps_state t)"
    "\<And>j. j \<notin> ps_job_id ` set ?ss \<Longrightarrow> stored_snapshot r' j = stored_snapshot r j" by blast
  have kept: "stored_snapshot r' j = Some s" if "stored_snapshot r j = Some s" "terminal_state (ps_state s)" for j s
  proof -
    have "j \<notin> ps_job_id ` set ?ss"
    proof
      assume "j \<in> ps_job_id ` set ?ss"
      then obtain v where "v \<in> set ?ss" "j = ps_job_id v" by blast
      from m [OF this(1)] this(2) that show False using active_not_terminal by simp
    qed
    from new(5) [OF this] that(1) show ?thesis by simp
  qed
  have "terminal_state (ps_state s)" if s: "stored_snapshot r' j = Some s" for j s
  proof (cases "j \<in> ps_job_id ` set ?ss")
    case True
    then obtain v where "v \<in> set ?ss" "j = ps_job_id v" by blast
    from new(4) [OF this(1)] this(2) s show ?thesis by auto
  next
    case False
    then have r: "stored_snapshot r j = Some s" using new(5) [OF False] s by simp
    then have "s \<notin> set ?ss" using False stored_members(3) [OF inv] by blast
    moreover have "s \<in> set (map snd (rp_snapshots r))" using r stored_members(3) [OF inv] by blast
    ultimately show ?thesis using active_not_terminal [of "ps_state s"] by simp
  qed
  then have "all_finished r'" unfolding all_finished_def by blast
  moreover have "finished_kept r r'" using kept unfolding finished_kept_def by blast
  ultimately show ?thesis using new(1) new(2) new(3) by (simp del: map_map)
qed

lemma foldl_max_le: "(a::nat) \<le> foldl max a xs \<and> (x \<in> set xs \<longrightarrow> x \<le> foldl max a xs)"
proof (induction xs arbitrary: a)
  case (Cons y xs)
  show ?case using Cons [of "max a y"] by auto
qed simp

lemma next_job_number_larger:
  assumes "stored_snapshot r j = Some s"
  shows "job_number j < next_job_number r"
proof -
  have "(j, s) \<in> set (rp_snapshots r)" using assms by (simp add: stored_snapshot_def map_of_SomeD)
  then have "job_number j \<in> set (map (\<lambda>(i, s). job_number i) (rp_snapshots r))" by force
  with foldl_max_le [of 0 "map (\<lambda>(i, s). job_number i) (rp_snapshots r)" "job_number j"]
  show ?thesis by (simp add: next_job_number_def)
qed

lemma job_number_of [simp]: "job_number (job_id_of n) = n"
  by (simp add: job_number_def job_id_of_def u_def)

text \<open>The identifiers a restarted manager gives, from the repository's next number on, are not in
  the repository, so no history of an earlier process is ever continued by another job.\<close>

theorem restart_identifiers_are_new:
  assumes "next_job_number r \<le> n"
  shows "stored_snapshot r (job_id_of n) = None"
proof (cases "stored_snapshot r (job_id_of n)")
  case (Some s)
  from next_job_number_larger [OF this] assms show ?thesis by simp
qed

section \<open>A repository in use\<close>

text \<open>A repository that keeps two events of a job, with the results of jobs all private.\<close>

definition plain_time :: "ustr \<Rightarrow> bool" where
  "plain_time s \<longleftrightarrow> s \<noteq> []"

definition no_artifact :: "nat \<Rightarrow> unit option" where
  "no_artifact x = None"

definition queued_snapshot :: "nat job_snapshot" where
  "queued_snapshot = jr_snapshot (new_record id (u ''0'') (job_id_of 1) (u ''t'') [] [] False)"

definition running_snapshot :: "nat job_snapshot" where
  "running_snapshot = queued_snapshot\<lparr>js_state := JRunning, js_started_at := Some (u ''1'')\<rparr>"

definition completed_snapshot :: "nat job_snapshot" where
  "completed_snapshot = running_snapshot\<lparr>js_state := JCompleted, js_finished_at := Some (u ''2''), js_result := Some 7\<rparr>"

definition run_repository :: "nat \<Rightarrow> nat job_snapshot list \<Rightarrow> lifecycle_error + unit repository" where
  "run_repository n ss = bindE (new_repository n) (\<lambda>r. foldE (\<lambda>r s. bindE (record_core plain_time no_artifact (u ''9'') s r)
     (\<lambda>(r', e). Inr r')) r ss)"

lemma run_repository_reachable: "run_repository n ss = Inr r \<Longrightarrow> repository_reachable plain_time no_artifact r"
proof -
  have run: "foldE (\<lambda>r s. bindE (record_core plain_time no_artifact (u ''9'') s r)
     (\<lambda>(r', e). Inr r')) r ss = Inr r' \<Longrightarrow> repository_reachable plain_time no_artifact r \<Longrightarrow>
     repository_reachable plain_time no_artifact r'" for r r' :: "unit repository" and ss
    by (induction ss arbitrary: r) (auto simp: bindE_Inr_iff intro: repository_reachable.core)
  assume "run_repository n ss = Inr r"
  then obtain r0 where "new_repository n = Inr r0"
    "foldE (\<lambda>r s. bindE (record_core plain_time no_artifact (u ''9'') s r) (\<lambda>(r', e). Inr r')) r0 ss = Inr r"
    by (auto simp: run_repository_def bindE_Inr_iff)
  with run repository_reachable.init show "repository_reachable plain_time no_artifact r" by blast
qed

theorem replay_returns_missing_events_witness:
  "\<exists>r rep. repository_reachable plain_time no_artifact r \<and> repository_replay r (job_id_of 1) 1 = Inr rep
    \<and> map je_sequence (rp_events rep) = [2, 3]"
proof -
  have "case run_repository 2 [queued_snapshot, running_snapshot, completed_snapshot] of Inl _ \<Rightarrow> False | Inr r \<Rightarrow>
      latest_sequence r (job_id_of 1) = 3 \<and> (case repository_replay r (job_id_of 1) 1 of Inl _ \<Rightarrow> False | Inr rep \<Rightarrow> True)"
    by code_simp
  then obtain r rep where r: "run_repository 2 [queued_snapshot, running_snapshot, completed_snapshot] = Inr r"
    "latest_sequence r (job_id_of 1) = 3" "repository_replay r (job_id_of 1) 1 = Inr rep"
    by (auto split: sum.splits)
  note reach = run_repository_reachable [OF r(1)]
  from replay_returns_missing_events [OF reach r(3)] r(2) have "map je_sequence (rp_events rep) = [2, 3]"
    by (simp add: numeral_eq_Suc)
  with reach r(3) show ?thesis by (intro exI conjI)
qed

theorem replay_errors_are_documented_witness:
  "\<exists>r e. repository_reachable plain_time no_artifact r \<and> repository_replay r (job_id_of 1) 0 = Inl e
    \<and> e \<in> Ancestry_Error ` {u ''JOB_ID_INVALID'', u ''JOB_EVENT_CURSOR_INVALID'', u ''JOB_NOT_FOUND'', u ''JOB_EVENT_REPLAY_EXPIRED''}"
proof -
  have "case run_repository 2 [queued_snapshot, running_snapshot, completed_snapshot] of Inl _ \<Rightarrow> False | Inr r \<Rightarrow>
      (case repository_replay r (job_id_of 1) 0 of Inl _ \<Rightarrow> True | Inr rep \<Rightarrow> False)"
    by code_simp
  then obtain r e where r: "run_repository 2 [queued_snapshot, running_snapshot, completed_snapshot] = Inr r"
    "repository_replay r (job_id_of 1) 0 = Inl e"
    by (auto split: sum.splits)
  from replay_errors_are_documented [OF run_repository_reachable [OF r(1)] r(2)] run_repository_reachable [OF r(1)] r(2)
  show ?thesis by blast
qed

theorem repository_keeps_contiguous_events_witness:
  "\<exists>r s. repository_reachable plain_time no_artifact r \<and> stored_snapshot r (job_id_of 1) = Some s
    \<and> length (rp_stored r (job_id_of 1)) = 2 \<and> log_ok plain_time (rp_max_events r) (job_id_of 1) s (rp_stored r (job_id_of 1))"
proof -
  have "case run_repository 2 [queued_snapshot, running_snapshot, completed_snapshot] of Inl _ \<Rightarrow> False | Inr r \<Rightarrow>
      stored_snapshot r (job_id_of 1) \<noteq> None \<and> length (rp_stored r (job_id_of 1)) = 2"
    by code_simp
  then obtain r s where r: "run_repository 2 [queued_snapshot, running_snapshot, completed_snapshot] = Inr r"
    "stored_snapshot r (job_id_of 1) = Some s" "length (rp_stored r (job_id_of 1)) = 2"
    by (auto split: sum.splits)
  from repository_keeps_contiguous_events [OF run_repository_reachable [OF r(1)] r(2)] run_repository_reachable [OF r(1)] r
  show ?thesis by blast
qed

theorem terminal_record_is_final_witness:
  "\<exists>r r' e t. stored_snapshot r (job_id_of 1) = Some t \<and> ps_state t = LCompleted
    \<and> record_core plain_time no_artifact (u ''9'') running_snapshot r = Inr (r', e) \<and> r' = r \<and> e = None"
proof -
  have "case run_repository 2 [queued_snapshot, completed_snapshot] of Inl _ \<Rightarrow> False | Inr r \<Rightarrow>
      map_option ps_state (stored_snapshot r (js_job_id running_snapshot)) = Some LCompleted
      \<and> js_job_id running_snapshot = job_id_of 1
      \<and> (case record_core plain_time no_artifact (u ''9'') running_snapshot r of Inl _ \<Rightarrow> False | Inr _ \<Rightarrow> True)"
    by code_simp
  then obtain r r' e t where r: "stored_snapshot r (js_job_id running_snapshot) = Some t" "ps_state t = LCompleted"
    "record_core plain_time no_artifact (u ''9'') running_snapshot r = Inr (r', e)" "js_job_id running_snapshot = job_id_of 1"
    by (auto split: sum.splits)
  from terminal_record_is_final [OF r(1) _ r(3)] r show ?thesis by auto
qed

theorem reconcile_leaves_no_active_witness:
  "\<exists>r r' events. repository_reachable plain_time no_artifact r \<and> reconcile_active plain_time (u ''9'') r = Inr (r', events)
    \<and> \<not> all_finished r \<and> all_finished r' \<and> length events = 1"
proof -
  have "case run_repository 2 [queued_snapshot, running_snapshot] of Inl _ \<Rightarrow> False | Inr r \<Rightarrow>
      map_option ps_state (stored_snapshot r (job_id_of 1)) = Some LRunning
      \<and> (case reconcile_active plain_time (u ''9'') r of Inl _ \<Rightarrow> False | Inr (r', events) \<Rightarrow> length events = 1)"
    by code_simp
  then obtain r r' events where r: "run_repository 2 [queued_snapshot, running_snapshot] = Inr r"
    "map_option ps_state (stored_snapshot r (job_id_of 1)) = Some LRunning"
    "reconcile_active plain_time (u ''9'') r = Inr (r', events)" "length events = 1"
    by (auto split: sum.splits)
  note reach = run_repository_reachable [OF r(1)]
  have "\<not> all_finished r" using r(2) unfolding all_finished_def by fastforce
  with reconcile_leaves_no_active [OF reach r(3)] reach r(3,4) show ?thesis by blast
qed

theorem restart_identifiers_are_new_witness:
  "\<exists>r :: unit repository. stored_snapshot r (job_id_of 1) \<noteq> None \<and> next_job_number r = 2 \<and> stored_snapshot r (job_id_of 2) = None"
proof -
  have "case run_repository 2 [queued_snapshot] of Inl _ \<Rightarrow> False | Inr r \<Rightarrow>
      stored_snapshot r (job_id_of 1) \<noteq> None \<and> next_job_number r = 2"
    by code_simp
  then obtain r :: "unit repository" where "stored_snapshot r (job_id_of 1) \<noteq> None" "next_job_number r = 2"
    by (auto split: sum.splits)
  with restart_identifiers_are_new [of r 2] show ?thesis by auto
qed

end
