(* ===== verification/Job_Service.thy ===== *)
theory Job_Service
  imports Job_Repository
begin

text \<open>
  The lifecycle service of \<open>application/jobs.py\<close>: persistence of the snapshots the manager
  publishes, live subscriptions with a replay, cancellation and shutdown. The repository is a
  parameter with the interface \<open>event_log\<close>; the client lemmas are proved for every repository
  with that interface, and the memory repository is shown to have it.
\<close>

section \<open>The service\<close>

text \<open>A stream is the shared state of a subscription: its replay, its queue, its two flags.
  \<open>st_taken\<close> lists the events its reader was given.\<close>

record 'a stream =
  st_job_id :: ustr
  st_replay :: "'a job_replay"
  st_queue :: "'a job_event list"
  st_overflowed :: bool
  st_closed :: bool
  st_taken :: "'a job_event list"

record ('s, 'a) job_service =
  sv_repository :: 's
  sv_subscriber_limit :: nat
  sv_queue_size :: nat
  sv_streams :: "nat \<rightharpoonup> 'a stream"
  sv_subscribers :: "nat list"
  sv_next_id :: nat
  sv_closed :: bool

definition new_service :: "'s \<Rightarrow> nat \<Rightarrow> nat \<Rightarrow> lifecycle_error + ('s, 'a) job_service" where
  "new_service repository subscriber_limit subscriber_queue_size =
     (if \<not> (1 \<le> subscriber_limit \<and> subscriber_limit \<le> 32)
      then Inl (Value_Error (u ''Job subscribers must be between 1 and 32.''))
      else if \<not> (1 \<le> subscriber_queue_size \<and> subscriber_queue_size \<le> 64)
      then Inl (Value_Error (u ''Subscriber queues must retain between 1 and 64 events.''))
      else Inr \<lparr>sv_repository = repository, sv_subscriber_limit = subscriber_limit, sv_queue_size = subscriber_queue_size,
             sv_streams = Map.empty, sv_subscribers = [], sv_next_id = 1, sv_closed = False\<rparr>)"

text \<open>\<open>put_nowait\<close> on the queue of one subscriber; a full queue marks the stream and drops the
  subscriber.\<close>

definition offer :: "ustr \<Rightarrow> 'a job_event \<Rightarrow> ('s, 'a) job_service \<Rightarrow> nat \<Rightarrow> ('s, 'a) job_service" where
  "offer job_id event sv i = (case sv_streams sv i of
     None \<Rightarrow> sv
   | Some st \<Rightarrow>
       if st_job_id st \<noteq> job_id then sv
       else if length (st_queue st) < sv_queue_size sv
       then sv\<lparr>sv_streams := (sv_streams sv)(i \<mapsto> st\<lparr>st_queue := st_queue st @ [event]\<rparr>)\<rparr>
       else sv\<lparr>sv_streams := (sv_streams sv)(i \<mapsto> st\<lparr>st_overflowed := True\<rparr>),
              sv_subscribers := filter (\<lambda>k. k \<noteq> i) (sv_subscribers sv)\<rparr>)"

definition on_snapshot :: "('s \<Rightarrow> ustr \<Rightarrow> 'r job_snapshot \<Rightarrow> lifecycle_error + 's \<times> 'a job_event option) \<Rightarrow> ustr
    \<Rightarrow> 'r job_snapshot \<Rightarrow> ('s, 'a) job_service \<Rightarrow> lifecycle_error + ('s, 'a) job_service" where
  "on_snapshot store now s sv =
     (if sv_closed sv then Inr sv
      else bindE (store (sv_repository sv) now s) (\<lambda>(repository, event).
        let sv' = sv\<lparr>sv_repository := repository\<rparr> in
        case event of
          None \<Rightarrow> Inr sv'
        | Some e \<Rightarrow> Inr (foldl (offer (js_job_id s) e) sv' (sv_subscribers sv))))"

definition subscribe :: "('s \<Rightarrow> ustr \<Rightarrow> nat \<Rightarrow> lifecycle_error + 'a job_replay) \<Rightarrow> ustr \<Rightarrow> nat
    \<Rightarrow> ('s, 'a) job_service \<Rightarrow> lifecycle_error + ('s, 'a) job_service \<times> nat" where
  "subscribe replay job_id after sv =
     (if sv_closed sv then Inl (Ancestry_Error (u ''JOB_SERVICE_CLOSED''))
      else if length (sv_subscribers sv) \<ge> sv_subscriber_limit sv then Inl (Ancestry_Error (u ''JOB_SUBSCRIBER_LIMIT''))
      else bindE (replay (sv_repository sv) job_id after) (\<lambda>rep.
        let i = sv_next_id sv in
        Inr (sv\<lparr>sv_next_id := i + 1,
               sv_streams := (sv_streams sv)(i \<mapsto> \<lparr>st_job_id = job_id, st_replay = rep, st_queue = [],
                 st_overflowed = False, st_closed = False, st_taken = []\<rparr>),
               sv_subscribers := sv_subscribers sv @ [i]\<rparr>, i)))"

text \<open>\<open>JobSubscription.next\<close>: the flags are read, the queue is waited for, and the overflow is read
  again after the wait, when other threads may have run. An empty queue is the timeout.\<close>

definition next_enter :: "'a stream \<Rightarrow> lifecycle_error + unit" where
  "next_enter st =
     (if st_overflowed st then Inl (Ancestry_Error (u ''JOB_EVENT_REPLAY_EXPIRED''))
      else if st_closed st then Inl (Ancestry_Error (u ''JOB_SUBSCRIPTION_CLOSED'')) else Inr ())"

definition next_return :: "'a stream \<Rightarrow> 'a stream \<times> (lifecycle_error + 'a job_event)" where
  "next_return st = (case st_queue st of
     [] \<Rightarrow> (st, Inl (Ancestry_Error (u ''JOB_EVENT_WAIT_TIMEOUT'')))
   | e # es \<Rightarrow>
       if st_overflowed st then (st\<lparr>st_queue := es\<rparr>, Inl (Ancestry_Error (u ''JOB_EVENT_REPLAY_EXPIRED'')))
       else (st\<lparr>st_queue := es, st_taken := st_taken st @ [e]\<rparr>, Inr e))"

definition stream_next :: "nat \<Rightarrow> ('s, 'a) job_service \<Rightarrow> ('s, 'a) job_service" where
  "stream_next i sv = (case sv_streams sv i of None \<Rightarrow> sv
     | Some st \<Rightarrow> sv\<lparr>sv_streams := (sv_streams sv)(i \<mapsto> fst (next_return st))\<rparr>)"

definition close_subscription :: "nat \<Rightarrow> ('s, 'a) job_service \<Rightarrow> ('s, 'a) job_service" where
  "close_subscription i sv = (case sv_streams sv i of None \<Rightarrow> sv
     | Some st \<Rightarrow> sv\<lparr>sv_streams := (sv_streams sv)(i \<mapsto> st\<lparr>st_closed := True\<rparr>),
         sv_subscribers := filter (\<lambda>k. k \<noteq> i) (sv_subscribers sv)\<rparr>)"

definition service_startup :: "('s \<Rightarrow> ustr \<Rightarrow> lifecycle_error + 's \<times> 'a job_event list) \<Rightarrow> ustr \<Rightarrow> ('s, 'a) job_service
    \<Rightarrow> lifecycle_error + ('s, 'a) job_service \<times> 'a job_event list" where
  "service_startup reconcile now sv = bindE (reconcile (sv_repository sv) now) (\<lambda>(repository, events).
     Inr (sv\<lparr>sv_repository := repository\<rparr>, events))"

text \<open>\<open>cancel\<close>: \<open>cancelled\<close> is the manager's answer, whose unknown job is not an error here.\<close>

definition service_cancel :: "('s \<Rightarrow> ustr \<Rightarrow> lifecycle_error + 'a public_snapshot) \<Rightarrow> ustr \<Rightarrow> (job_error + 's)
    \<Rightarrow> ('s, 'a) job_service \<Rightarrow> (lifecycle_error + job_error) + ('s, 'a) job_service \<times> 'a public_snapshot" where
  "service_cancel get job_id cancelled sv =
     (case get (sv_repository sv) job_id of
        Inl e \<Rightarrow> Inl (Inl e)
      | Inr current \<Rightarrow>
          if terminal_state (ps_state current) then Inr (sv, current)
          else
            let repository = (case cancelled of Inr r \<Rightarrow> Inr r
                  | Inl (JobNotFound j) \<Rightarrow> Inr (sv_repository sv) | Inl e \<Rightarrow> Inl e) in
            (case repository of
               Inl e \<Rightarrow> Inl (Inr e)
             | Inr r \<Rightarrow> (case get r job_id of Inl e \<Rightarrow> Inl (Inl e) | Inr s \<Rightarrow> Inr (sv\<lparr>sv_repository := r\<rparr>, s))))"

text \<open>\<open>prepare_shutdown\<close> after its bounded wait, with the jobs the manager then has active. A
  timeout is a number of milliseconds, and \<open>None\<close> stands for one that is not finite.\<close>

definition prepare_shutdown :: "('s \<Rightarrow> ustr \<Rightarrow> lifecycle_error + 'a public_snapshot) \<Rightarrow> ustr \<Rightarrow> int option \<Rightarrow> 'r job_snapshot list
    \<Rightarrow> ('s, 'a) job_service \<Rightarrow> lifecycle_error + 'a shutdown_assessment" where
  "prepare_shutdown get action timeout active_core sv =
     (if action \<noteq> u ''wait'' \<and> action \<noteq> u ''cancel'' then Inl (Ancestry_Error (u ''JOB_SHUTDOWN_ACTION_INVALID''))
      else if (case timeout of None \<Rightarrow> True | Some t \<Rightarrow> \<not> (0 \<le> t \<and> t \<le> 30000)) then Inl (Ancestry_Error (u ''JOB_SHUTDOWN_TIMEOUT_INVALID''))
      else if active_core \<noteq> []
      then bindE (mapE (\<lambda>s. get (sv_repository sv) (js_job_id s)) active_core) (\<lambda>active.
             Inl (Ancestry_Error (u ''JOB_SHUTDOWN_TIMEOUT'')))
      else constructed check_assessment
        \<lparr>sa_schema_version = job_schema_version, sa_safe_to_quit = True, sa_active_jobs = []\<rparr>)"

definition service_close :: "('s, 'a) job_service \<Rightarrow> ('s, 'a) job_service" where
  "service_close sv =
     (if sv_closed sv then sv
      else sv\<lparr>sv_closed := True, sv_subscribers := [],
             sv_streams := (\<lambda>i. map_option (\<lambda>st. if i \<in> set (sv_subscribers sv) then st\<lparr>st_closed := True\<rparr> else st)
               (sv_streams sv i))\<rparr>)"

section \<open>Executions\<close>

text \<open>The service runs its startup before the first subscription. A manager action in between may
  bring any snapshot.\<close>

inductive service_step :: "('s \<Rightarrow> ustr \<Rightarrow> 'r job_snapshot \<Rightarrow> lifecycle_error + 's \<times> 'a job_event option)
    \<Rightarrow> ('s \<Rightarrow> ustr \<Rightarrow> nat \<Rightarrow> lifecycle_error + 'a job_replay)
    \<Rightarrow> ('s \<Rightarrow> ustr \<Rightarrow> lifecycle_error + 's \<times> 'a job_event list)
    \<Rightarrow> ('s, 'a) job_service \<Rightarrow> ('s, 'a) job_service \<Rightarrow> bool" for store replay reconcile where
  startup: "sv_subscribers sv = [] \<Longrightarrow> service_startup reconcile now sv = Inr (sv', es) \<Longrightarrow>
    service_step store replay reconcile sv sv'"
| snapshot: "on_snapshot store now s sv = Inr sv' \<Longrightarrow> service_step store replay reconcile sv sv'"
| subscribe: "subscribe replay job_id after sv = Inr (sv', i) \<Longrightarrow> service_step store replay reconcile sv sv'"
| "next": "service_step store replay reconcile sv (stream_next i sv)"
| close_subscription: "service_step store replay reconcile sv (close_subscription i sv)"
| close: "service_step store replay reconcile sv (service_close sv)"

inductive service_reachable :: "('s \<Rightarrow> ustr \<Rightarrow> 'r job_snapshot \<Rightarrow> lifecycle_error + 's \<times> 'a job_event option)
    \<Rightarrow> ('s \<Rightarrow> ustr \<Rightarrow> nat \<Rightarrow> lifecycle_error + 'a job_replay)
    \<Rightarrow> ('s \<Rightarrow> ustr \<Rightarrow> lifecycle_error + 's \<times> 'a job_event list)
    \<Rightarrow> 's \<Rightarrow> ('s, 'a) job_service \<Rightarrow> bool" for store replay reconcile s0 where
  init: "new_service s0 subscriber_limit queue_size = Inr sv \<Longrightarrow> service_reachable store replay reconcile s0 sv"
| step: "service_reachable store replay reconcile s0 sv \<Longrightarrow> service_step store replay reconcile sv sv' \<Longrightarrow>
    service_reachable store replay reconcile s0 sv'"

inductive_cases service_stepE: "service_step store replay reconcile sv sv'"

section \<open>The interface of the repository and what the service promises over it\<close>

text \<open>Numbers that follow \<open>a\<close> one by one.\<close>

definition contiguous_after :: "nat \<Rightarrow> nat list \<Rightarrow> bool" where
  "contiguous_after a ns \<longleftrightarrow> ns = [a + 1 ..< a + 1 + length ns]"

lemma contiguous_after_snoc [simp]: "contiguous_after a (ns @ [n]) \<longleftrightarrow> contiguous_after a ns \<and> n = a + 1 + length ns"
  by (auto simp: contiguous_after_def)

lemma contiguous_after_prefix: "contiguous_after a (ns @ ms) \<Longrightarrow> contiguous_after a ns"
proof (induction ms rule: rev_induct)
  case (snoc m ms)
  then show ?case by (metis append_assoc contiguous_after_snoc)
qed simp

lemma contiguous_after_middle: "contiguous_after a (xs @ ys @ n # zs) \<Longrightarrow> contiguous_after a (xs @ ys @ [n])"
  by (rule contiguous_after_prefix [of a _ zs]) simp

definition seen :: "'a stream \<Rightarrow> nat list" where
  "seen st = map je_sequence (rp_events (st_replay st) @ st_taken st)"

definition pending :: "'a stream \<Rightarrow> nat list" where
  "pending st = map je_sequence (st_queue st)"

definition acknowledged :: "'a stream \<Rightarrow> nat" where
  "acknowledged st = rp_acknowledged_sequence (st_replay st)"

text \<open>What a stream shows is in order; while it has not overflowed, so is what waits; while it is
  registered, nothing up to the latest event of its job is missing.\<close>

definition stream_ok :: "(ustr \<Rightarrow> nat) \<Rightarrow> nat \<Rightarrow> bool \<Rightarrow> 'a stream \<Rightarrow> bool" where
  "stream_ok latest bound registered st \<longleftrightarrow> contiguous_after (acknowledged st) (seen st)
     \<and> length (st_queue st) \<le> bound
     \<and> (st_overflowed st \<or> contiguous_after (acknowledged st) (seen st @ pending st))
     \<and> (registered \<longrightarrow> \<not> st_overflowed st \<and> \<not> st_closed st
          \<and> acknowledged st + length (seen st @ pending st) = latest (st_job_id st))"

definition offer_stream :: "ustr \<Rightarrow> 'a job_event \<Rightarrow> nat \<Rightarrow> 'a stream \<Rightarrow> 'a stream" where
  "offer_stream job_id e bound st =
     (if st_job_id st \<noteq> job_id then st
      else if length (st_queue st) < bound then st\<lparr>st_queue := st_queue st @ [e]\<rparr> else st\<lparr>st_overflowed := True\<rparr>)"

definition rejects :: "ustr \<Rightarrow> nat \<Rightarrow> 'a stream option \<Rightarrow> bool" where
  "rejects job_id bound so \<longleftrightarrow> (case so of None \<Rightarrow> False | Some st \<Rightarrow> st_job_id st = job_id \<and> \<not> length (st_queue st) < bound)"

lemma offer_fields:
  "sv_streams (offer j e sv i) k = (if k = i then map_option (offer_stream j e (sv_queue_size sv)) (sv_streams sv i) else sv_streams sv k)"
  "sv_subscribers (offer j e sv i) = (if rejects j (sv_queue_size sv) (sv_streams sv i)
     then filter (\<lambda>k. k \<noteq> i) (sv_subscribers sv) else sv_subscribers sv)"
  "sv_queue_size (offer j e sv i) = sv_queue_size sv" "sv_repository (offer j e sv i) = sv_repository sv"
  "sv_next_id (offer j e sv i) = sv_next_id sv" "sv_closed (offer j e sv i) = sv_closed sv"
  by (auto simp: offer_def offer_stream_def rejects_def split: option.split)

lemma offer_all:
  assumes "distinct ids"
  shows "sv_streams (foldl (offer j e) sv ids) k =
      (if k \<in> set ids then map_option (offer_stream j e (sv_queue_size sv)) (sv_streams sv k) else sv_streams sv k)
    \<and> sv_subscribers (foldl (offer j e) sv ids) =
      filter (\<lambda>k. \<not> (k \<in> set ids \<and> rejects j (sv_queue_size sv) (sv_streams sv k))) (sv_subscribers sv)
    \<and> sv_queue_size (foldl (offer j e) sv ids) = sv_queue_size sv \<and> sv_repository (foldl (offer j e) sv ids) = sv_repository sv
    \<and> sv_next_id (foldl (offer j e) sv ids) = sv_next_id sv \<and> sv_closed (foldl (offer j e) sv ids) = sv_closed sv"
  using assms
proof (induction ids arbitrary: sv k)
  case (Cons i ids)
  let ?sv = "offer j e sv i"
  have d: "i \<notin> set ids" "distinct ids" using Cons.prems by simp_all
  note IH = Cons.IH [OF d(2), of ?sv]
  have "sv_subscribers (foldl (offer j e) ?sv ids) =
      filter (\<lambda>k. \<not> (k \<in> set ids \<and> rejects j (sv_queue_size sv) (sv_streams ?sv k))) (sv_subscribers ?sv)"
    using IH by (simp add: offer_fields(3))
  also have "\<dots> = filter (\<lambda>k. \<not> (k \<in> set ids \<and> rejects j (sv_queue_size sv) (sv_streams sv k))) (sv_subscribers ?sv)"
    using d(1) by (intro filter_cong) (auto simp: offer_fields)
  also have "\<dots> = filter (\<lambda>k. \<not> (k \<in> set (i # ids) \<and> rejects j (sv_queue_size sv) (sv_streams sv k))) (sv_subscribers sv)"
    using d(1) by (auto simp: offer_fields intro!: filter_cong)
  finally show ?case using IH d(1) by (auto simp: offer_fields)
qed simp

locale event_log =
  fixes good :: "'s \<Rightarrow> bool"
    and store :: "'s \<Rightarrow> ustr \<Rightarrow> 'r job_snapshot \<Rightarrow> lifecycle_error + 's \<times> 'a job_event option"
    and replay :: "'s \<Rightarrow> ustr \<Rightarrow> nat \<Rightarrow> lifecycle_error + 'a job_replay"
    and reconcile :: "'s \<Rightarrow> ustr \<Rightarrow> lifecycle_error + 's \<times> 'a job_event list"
    and latest :: "'s \<Rightarrow> ustr \<Rightarrow> nat"
  assumes store_good: "good s \<Longrightarrow> store s now c = Inr (s', eo) \<Longrightarrow> good s'"
    and store_event: "good s \<Longrightarrow> store s now c = Inr (s', Some e) \<Longrightarrow>
      je_sequence e = latest s (js_job_id c) + 1 \<and> latest s' = (latest s)(js_job_id c := je_sequence e)"
    and store_nothing: "good s \<Longrightarrow> store s now c = Inr (s', None) \<Longrightarrow> latest s' = latest s"
    and reconcile_good: "good s \<Longrightarrow> reconcile s now = Inr (s', es) \<Longrightarrow> good s'"
    and replay_events: "good s \<Longrightarrow> replay s j a = Inr rep \<Longrightarrow>
      map je_sequence (rp_events rep) = [a + 1 ..< latest s j + 1] \<and> a \<le> latest s j \<and> rp_acknowledged_sequence rep = a"
begin

definition service_inv :: "('s, 'a) job_service \<Rightarrow> bool" where
  "service_inv sv \<longleftrightarrow> good (sv_repository sv) \<and> distinct (sv_subscribers sv)
     \<and> (\<forall>i \<in> set (sv_subscribers sv). sv_streams sv i \<noteq> None)
     \<and> (\<forall>i st. sv_streams sv i = Some st \<longrightarrow> i < sv_next_id sv
          \<and> stream_ok (latest (sv_repository sv)) (sv_queue_size sv) (i \<in> set (sv_subscribers sv)) st)"

lemma service_invD:
  assumes "service_inv sv" and "sv_streams sv i = Some st"
  shows "i < sv_next_id sv" and "stream_ok (latest (sv_repository sv)) (sv_queue_size sv) (i \<in> set (sv_subscribers sv)) st"
  using assms by (simp_all add: service_inv_def)

text \<open>An event of the job that follows the latest one, offered to a registered stream.\<close>

lemma stream_ok_offer:
  assumes ok: "stream_ok l b True st" and e: "je_sequence e = l j + 1" and l': "l' = l(j := je_sequence e)"
  shows "stream_ok l' b (\<not> rejects j b (Some st)) (offer_stream j e b st)"
  using ok e unfolding l'
  by (auto simp: stream_ok_def offer_stream_def rejects_def seen_def pending_def acknowledged_def
      append_assoc [symmetric] simp del: append_assoc)

lemma stream_ok_other: "stream_ok l b reg st \<Longrightarrow> stream_ok l' b False st"
  by (simp add: stream_ok_def)

lemma stream_ok_closed: "stream_ok l b reg st \<Longrightarrow> stream_ok l' b False (st\<lparr>st_closed := True\<rparr>)"
  by (simp add: stream_ok_def seen_def pending_def acknowledged_def)

lemma on_snapshot_inv:
  assumes inv: "service_inv sv" and s: "on_snapshot store now c sv = Inr sv'"
  shows "service_inv sv'"
proof (cases "sv_closed sv")
  case True
  then show ?thesis using s inv by (simp add: on_snapshot_def)
next
  case False
  then obtain r eo where r: "store (sv_repository sv) now c = Inr (r, eo)"
    and sv': "sv' = (case eo of None \<Rightarrow> sv\<lparr>sv_repository := r\<rparr>
        | Some e \<Rightarrow> foldl (offer (js_job_id c) e) (sv\<lparr>sv_repository := r\<rparr>) (sv_subscribers sv))"
    using s by (auto simp: on_snapshot_def result_simps Let_def split: option.splits)
  have good: "good (sv_repository sv)" using inv by (simp add: service_inv_def)
  have good': "good r" by (rule store_good [OF good r])
  show ?thesis
  proof (cases eo)
    case None
    have "latest r = latest (sv_repository sv)" by (rule store_nothing [OF good r [unfolded None]])
    then show ?thesis using inv good' by (simp add: sv' None service_inv_def)
  next
    case (Some e)
    let ?b = "sv_queue_size sv" and ?j = "js_job_id c" and ?ids = "sv_subscribers sv"
    note ev = store_event [OF good r [unfolded Some]]
    have dist: "distinct ?ids" using inv by (simp add: service_inv_def)
    note all = offer_all [OF dist, of ?j e "sv\<lparr>sv_repository := r\<rparr>"]
    have subs: "sv_subscribers sv' = filter (\<lambda>k. \<not> rejects ?j ?b (sv_streams sv k)) ?ids"
      using all by (auto simp: sv' Some intro!: filter_cong)
    have streams: "sv_streams sv' k = (if k \<in> set ?ids then map_option (offer_stream ?j e ?b) (sv_streams sv k) else sv_streams sv k)" for k
      using all [of k] by (simp add: sv' Some)
    have rest: "sv_repository sv' = r" "sv_queue_size sv' = ?b" "sv_next_id sv' = sv_next_id sv"
      using all by (simp_all add: sv' Some)
    have each: "k < sv_next_id sv \<and> stream_ok (latest r) ?b (k \<in> set (sv_subscribers sv')) st"
      if k: "sv_streams sv' k = Some st" for k st
    proof (cases "k \<in> set ?ids")
      case True
      then obtain st0 where st0: "sv_streams sv k = Some st0" "st = offer_stream ?j e ?b st0"
        using k by (auto simp: streams)
      have "stream_ok (latest (sv_repository sv)) ?b True st0" using service_invD(2) [OF inv st0(1)] True by simp
      from stream_ok_offer [OF this] ev have "stream_ok (latest r) ?b (\<not> rejects ?j ?b (Some st0)) st"
        unfolding st0(2) by blast
      then show ?thesis using True st0 service_invD(1) [OF inv st0(1)] by (simp add: subs)
    next
      case False
      then have "sv_streams sv k = Some st" using k by (simp add: streams)
      from service_invD [OF inv this] False show ?thesis by (auto simp: subs intro: stream_ok_other)
    qed
    have "sv_streams sv' k \<noteq> None" if "k \<in> set (sv_subscribers sv')" for k
      using that inv by (auto simp: subs streams service_inv_def)
    then show ?thesis using each good' dist by (simp add: service_inv_def rest subs)
  qed
qed

lemma subscribe_inv:
  assumes inv: "service_inv sv" and s: "subscribe replay j a sv = Inr (sv', i)"
  shows "service_inv sv'"
proof -
  obtain rep where rep: "replay (sv_repository sv) j a = Inr rep" and i: "i = sv_next_id sv"
    and sv': "sv' = sv\<lparr>sv_next_id := i + 1,
               sv_streams := (sv_streams sv)(i \<mapsto> \<lparr>st_job_id = j, st_replay = rep, st_queue = [],
                 st_overflowed = False, st_closed = False, st_taken = []\<rparr>),
               sv_subscribers := sv_subscribers sv @ [i]\<rparr>"
    using s by (auto simp: subscribe_def result_simps Let_def split: if_splits)
  have good: "good (sv_repository sv)" using inv by (simp add: service_inv_def)
  note ev = replay_events [OF good rep]
  have new: "sv_streams sv i = None" using service_invD(1) [OF inv, of i] i by (cases "sv_streams sv i") auto
  then have fresh: "i \<notin> set (sv_subscribers sv)" using inv by (auto simp: service_inv_def)
  have "stream_ok (latest (sv_repository sv)) (sv_queue_size sv) True
      \<lparr>st_job_id = j, st_replay = rep, st_queue = [], st_overflowed = False, st_closed = False, st_taken = []\<rparr>"
    using ev by (simp add: stream_ok_def seen_def pending_def acknowledged_def contiguous_after_def del: upt_Suc)
  then show ?thesis using inv fresh i
    by (auto simp: service_inv_def sv' less_Suc_eq)
qed

lemma stream_next_inv:
  assumes inv: "service_inv sv"
  shows "service_inv (stream_next i sv)"
proof (cases "sv_streams sv i")
  case (Some st)
  have ok: "stream_ok l b reg st \<Longrightarrow> stream_ok l b reg (fst (next_return st))" for l b reg
    by (cases "st_queue st") (auto simp: next_return_def stream_ok_def seen_def pending_def acknowledged_def
        dest: contiguous_after_middle)
  have "stream_ok (latest (sv_repository sv)) (sv_queue_size sv) (i \<in> set (sv_subscribers sv)) (fst (next_return st))"
    by (rule ok [OF service_invD(2) [OF inv Some]])
  then show ?thesis using inv Some by (auto simp: stream_next_def service_inv_def)
qed (simp add: stream_next_def inv)

lemma close_subscription_inv:
  assumes inv: "service_inv sv"
  shows "service_inv (close_subscription i sv)"
proof (cases "sv_streams sv i")
  case (Some st)
  then show ?thesis using inv stream_ok_closed [OF service_invD(2) [OF inv Some]]
    by (auto simp: close_subscription_def service_inv_def)
qed (simp add: close_subscription_def inv)

lemma service_close_inv:
  assumes inv: "service_inv sv"
  shows "service_inv (service_close sv)"
proof (cases "sv_closed sv")
  case False
  have "i < sv_next_id sv \<and> stream_ok (latest (sv_repository sv)) (sv_queue_size sv) False st"
    if "sv_streams (service_close sv) i = Some st" for i st
  proof -
    obtain st0 where st0: "sv_streams sv i = Some st0"
      "st = (if i \<in> set (sv_subscribers sv) then st0\<lparr>st_closed := True\<rparr> else st0)"
      using \<open>sv_streams (service_close sv) i = Some st\<close> False by (auto simp: service_close_def)
    show ?thesis using service_invD [OF inv st0(1)] st0(2) by (auto intro: stream_ok_closed stream_ok_other)
  qed
  then show ?thesis using inv False by (simp add: service_close_def service_inv_def)
qed (simp add: service_close_def inv)

lemma startup_inv:
  assumes inv: "service_inv sv" and none: "sv_subscribers sv = []" and s: "service_startup reconcile now sv = Inr (sv', es)"
  shows "service_inv sv'"
proof -
  obtain r where r: "reconcile (sv_repository sv) now = Inr (r, es)" and sv': "sv' = sv\<lparr>sv_repository := r\<rparr>"
    using s by (auto simp: service_startup_def result_simps)
  have "good r" using inv r by (auto simp: service_inv_def intro: reconcile_good)
  moreover have "stream_ok (latest r) (sv_queue_size sv) False st" if "sv_streams sv i = Some st" for i st
    by (rule stream_ok_other [OF service_invD(2) [OF inv that]])
  ultimately show ?thesis using inv none by (simp add: service_inv_def sv')
qed

lemma service_step_inv: "service_step store replay reconcile sv sv' \<Longrightarrow> service_inv sv \<Longrightarrow> service_inv sv'"
  by (erule service_stepE)
    (auto intro: startup_inv on_snapshot_inv subscribe_inv stream_next_inv close_subscription_inv service_close_inv)

lemma service_reachable_inv: "service_reachable store replay reconcile s0 sv \<Longrightarrow> good s0 \<Longrightarrow> service_inv sv"
proof (induction rule: service_reachable.induct)
  case (init limit bound sv)
  then show ?case by (auto simp: new_service_def service_inv_def split: if_splits)
qed (auto intro: service_step_inv)

lemma stream_in_order:
  assumes "service_reachable store replay reconcile s0 sv" and "good s0" and "sv_streams sv i = Some st"
  shows "contiguous_after (acknowledged st) (seen st)"
    and "i \<in> set (sv_subscribers sv) \<Longrightarrow> contiguous_after (acknowledged st) (seen st @ pending st)
      \<and> acknowledged st + length (seen st @ pending st) = latest (sv_repository sv) (st_job_id st)"
  using service_invD(2) [OF service_reachable_inv [OF assms(1,2)] assms(3)] unfolding stream_ok_def by auto

end

section \<open>The memory repository provides the interface\<close>

definition memory_store :: "(ustr \<Rightarrow> bool) \<Rightarrow> ('r \<Rightarrow> 'a option) \<Rightarrow> 'a repository \<Rightarrow> ustr \<Rightarrow> 'r job_snapshot
    \<Rightarrow> lifecycle_error + 'a repository \<times> 'a job_event option" where
  "memory_store zoned artifact r now s = record_core zoned artifact now s r"

definition memory_reconcile :: "(ustr \<Rightarrow> bool) \<Rightarrow> 'a repository \<Rightarrow> ustr \<Rightarrow> lifecycle_error + 'a repository \<times> 'a job_event list" where
  "memory_reconcile zoned r now = reconcile_active zoned now r"

lemma record_core_cases:
  assumes "record_core zoned artifact now s r = Inr (r', eo)"
  shows "eo = None \<and> r' = r \<or> (\<exists>e. eo = Some e \<and> je_sequence e = latest_sequence r (js_job_id s) + 1
    \<and> latest_sequence r' = (latest_sequence r)(js_job_id s := je_sequence e))"
proof -
  obtain c where c: "record_candidate zoned now None c r = Inr (r', eo)" "ps_job_id c = js_job_id s"
    using assms by (auto simp: record_core_def snapshot_from_core_def result_simps)
  have "next_sequence r (js_job_id s) = latest_sequence r (js_job_id s) + 1"
    by (simp add: next_sequence_def latest_sequence_def split: option.split)
  with c show ?thesis
    by (cases rule: record_candidate_cases) (auto simp: latest_sequence_def fun_eq_iff)
qed

lemma reconcile_active_inv:
  assumes inv: "repository_inv zoned r" and rec: "reconcile_active zoned now r = Inr (r', es)"
  shows "repository_inv zoned r'"
proof -
  have "foldE (reconcile_one zoned now) (r, es0) ss = Inr (r', es) \<Longrightarrow> repository_inv zoned r \<Longrightarrow> repository_inv zoned r'" for r es0 ss
    by (induction ss arbitrary: r es0) (auto simp: bindE_Inr_iff intro: reconcile_one_inv)
  then show ?thesis using rec inv unfolding reconcile_active_def by blast
qed

interpretation memory: event_log "repository_inv zoned" "memory_store zoned artifact" repository_replay
  "memory_reconcile zoned" latest_sequence for zoned artifact
proof
  fix s s' :: "'a repository" and now c eo
  assume good: "repository_inv zoned s"
  show "memory_store zoned artifact s now c = Inr (s', eo) \<Longrightarrow> repository_inv zoned s'"
    unfolding memory_store_def by (rule record_core_inv [OF good])
  show "memory_store zoned artifact s now c = Inr (s', Some e) \<Longrightarrow> je_sequence e = latest_sequence s (js_job_id c) + 1
      \<and> latest_sequence s' = (latest_sequence s)(js_job_id c := je_sequence e)" for e
    unfolding memory_store_def by (drule record_core_cases) auto
  show "memory_store zoned artifact s now c = Inr (s', None) \<Longrightarrow> latest_sequence s' = latest_sequence s"
    unfolding memory_store_def by (drule record_core_cases) auto
  show "memory_reconcile zoned s now = Inr (s', es) \<Longrightarrow> repository_inv zoned s'" for es
    unfolding memory_reconcile_def by (rule reconcile_active_inv [OF good])
  show "repository_replay s j a = Inr rep \<Longrightarrow> map je_sequence (rp_events rep) = [a + 1 ..< latest_sequence s j + 1]
      \<and> a \<le> latest_sequence s j \<and> rp_acknowledged_sequence rep = a" for j a rep
    by (drule Job_Repository.replay_events [OF good]) blast
qed

text \<open>C20: What a subscriber is given, replay first and live events after it, carries the numbers that
  follow the one it acknowledged, one by one: no event twice, none missing, none out of order. While
  its subscription is open, what it has and what waits in its queue reach the job's latest event.\<close>

theorem subscriber_sees_each_event_once:
  assumes "repository_reachable zoned artifact s0"
    and "service_reachable (memory_store zoned artifact) repository_replay (memory_reconcile zoned) s0 sv"
    and "sv_streams sv i = Some st"
  shows "contiguous_after (acknowledged st) (seen st)
    \<and> (i \<in> set (sv_subscribers sv) \<longrightarrow> contiguous_after (acknowledged st) (seen st @ pending st)
         \<and> acknowledged st + length (seen st @ pending st) = latest_sequence (sv_repository sv) (st_job_id st))"
  using memory.stream_in_order [OF assms(2) reachable_repository_inv [OF assms(1)] assms(3)] by blast

text \<open>A run: a queued job, a subscriber from the start, the job runs and completes.\<close>

definition subscriber_run :: "unit repository \<Rightarrow> lifecycle_error + (unit repository, unit) job_service" where
  "subscriber_run r = bindE (new_service r 1 1) (\<lambda>sv.
     bindE (subscribe repository_replay (job_id_of 1) 0 sv) (\<lambda>(sv, i).
     bindE (on_snapshot (memory_store plain_time no_artifact) (u ''9'') running_snapshot sv) (\<lambda>sv.
     bindE (Inr (stream_next i sv)) (\<lambda>sv.
     on_snapshot (memory_store plain_time no_artifact) (u ''9'') completed_snapshot sv))))"

lemma subscriber_run_reachable:
  assumes "subscriber_run r = Inr sv"
  shows "service_reachable (memory_store plain_time no_artifact) repository_replay (memory_reconcile plain_time) r sv"
proof -
  obtain s1 s2 i s3 where run: "new_service r 1 1 = Inr s1" "subscribe repository_replay (job_id_of 1) 0 s1 = Inr (s2, i)"
    "on_snapshot (memory_store plain_time no_artifact) (u ''9'') running_snapshot s2 = Inr s3"
    "on_snapshot (memory_store plain_time no_artifact) (u ''9'') completed_snapshot (stream_next i s3) = Inr sv"
    using assms by (auto simp: subscriber_run_def bindE_Inr_iff)
  note first = service_reachable.init [OF run(1)]
  note second = service_reachable.step [OF first service_step.subscribe [OF run(2)]]
  note third = service_reachable.step [OF second service_step.snapshot [OF run(3)]]
  note fourth = service_reachable.step [OF third service_step.next]
  show ?thesis by (rule service_reachable.step [OF fourth service_step.snapshot [OF run(4)]])
qed

theorem subscriber_sees_each_event_once_witness:
  "\<exists>r sv st. repository_reachable plain_time no_artifact r
    \<and> service_reachable (memory_store plain_time no_artifact) repository_replay (memory_reconcile plain_time) r sv
    \<and> sv_streams sv 1 = Some st \<and> length (seen st) = 2 \<and> acknowledged st = 0 \<and> seen st = [1, 2]"
proof -
  have "case run_repository 2 [queued_snapshot] of Inl _ \<Rightarrow> False | Inr r \<Rightarrow> (case subscriber_run r of Inl _ \<Rightarrow> False
      | Inr sv \<Rightarrow> (case sv_streams sv 1 of None \<Rightarrow> False | Some st \<Rightarrow> length (seen st) = 2 \<and> acknowledged st = 0))"
    by code_simp
  then obtain r sv st where r: "run_repository 2 [queued_snapshot] = Inr r" "subscriber_run r = Inr sv"
    and st: "sv_streams sv 1 = Some st" "length (seen st) = 2" "acknowledged st = 0"
    by (auto split: sum.splits option.splits)
  note reach = run_repository_reachable [OF r(1)] and service = subscriber_run_reachable [OF r(2)]
  from subscriber_sees_each_event_once [OF reach service st(1)] st(2,3) have "seen st = [1, 2]"
    by (simp add: contiguous_after_def upt_conv_Cons)
  with reach service st show ?thesis by blast
qed

end
