(* ===== verification/Gedcom_People.thy ===== *)
theory Gedcom_People
  imports Gedcom_Graph Gedcom_Dates
begin

text \<open>
  The people of \<open>gedcom/identity.py\<close>: the facts and names read from the blocks of a record,
  \<open>individual_from_record\<close>, and the relatives a person is given from the family records.
  What Python's Unicode tables and \<open>hashlib\<close> give is an argument (\<open>text_rules\<close>). A \<open>dict\<close> of
  lists is an association list in the order of its keys; \<open>dict.fromkeys\<close> keeps the first of equal
  values.
\<close>

section \<open>Text rules\<close>

record text_rules =
  tr_nfc :: "ustr \<Rightarrow> ustr"
  tr_casefold :: "ustr \<Rightarrow> ustr"
  tr_upper :: "ustr \<Rightarrow> ustr"
  tr_word :: "nat \<Rightarrow> bool"
  tr_calendar :: "ustr \<Rightarrow> (nat \<times> nat \<times> nat) option"
  tr_sha256 :: "ustr \<Rightarrow> ustr"

definition parse0 :: "ustr \<Rightarrow> gedcom_error + gedcom_line" where
  "parse0 line = parse_gedcom_line 0 line"

definition first_line :: "ustr list \<Rightarrow> gedcom_error + gedcom_line" where
  "first_line lines = (case lines of [] \<Rightarrow> Inl IndexOutOfRange | l # ls \<Rightarrow> parse0 l)"

definition unique_first :: "'a list \<Rightarrow> 'a list" where
  "unique_first xs = rev (remdups (rev xs))"

lemma set_unique_first [simp]: "set (unique_first xs) = set xs"
  by (simp add: unique_first_def)

lemma distinct_unique_first [simp]: "distinct (unique_first xs)"
  by (simp add: unique_first_def)

definition entries :: "('k \<times> 'b list) list \<Rightarrow> 'k \<Rightarrow> 'b list" where
  "entries d k = (case map_of d k of None \<Rightarrow> [] | Some xs \<Rightarrow> xs)"

definition append_entry :: "'k \<Rightarrow> 'b \<Rightarrow> ('k \<times> 'b list) list \<Rightarrow> ('k \<times> 'b list) list" where
  "append_entry k x d = AList.update k (entries d k @ [x]) d"

lemma entries_append_entry [simp]: "entries (append_entry k x d) k' = (if k' = k then entries d k @ [x] else entries d k')"
  by (simp add: entries_def append_entry_def update_conv')

section \<open>Countries\<close>

text \<open>\<open>re.findall(r"[\w]+", s)\<close>: the maximal runs of word characters.\<close>

function word_runs :: "(nat \<Rightarrow> bool) \<Rightarrow> ustr \<Rightarrow> ustr list" where
  "word_runs word s = (let t = dropWhile (\<lambda>c. \<not> word c) s in
     if t = [] then [] else takeWhile word t # word_runs word (dropWhile word t))"
  by pat_completeness auto
termination
proof (relation "measure (\<lambda>(w, s). length s)", simp, goal_cases)
  case (1 word s t)
  let ?t = "dropWhile (\<lambda>c. \<not> word c) s"
  have "word (hd ?t)" using 1 dropWhile_hd_not [of "\<lambda>c. \<not> word c" s] by simp
  then have "length (dropWhile word ?t) < length ?t"
    using 1 by (cases ?t) (auto intro: le_imp_less_Suc simp: length_dropWhile_le)
  also have "\<dots> \<le> length s" by (rule length_dropWhile_le)
  finally show ?case using 1 by simp
qed

declare word_runs.simps [simp del]

definition country_aliases :: "(ustr \<times> ustr) list" where
  "country_aliases =
     [(u ''america'', u ''united states''), (u ''england'', u ''united kingdom''),
      (u ''great britain'', u ''united kingdom''), (u ''scotland'', u ''united kingdom''),
      (u ''u k'', u ''united kingdom''), (u ''uk'', u ''united kingdom''),
      (u ''united states of america'', u ''united states''), (u ''us'', u ''united states''),
      (u ''u s'', u ''united states''), (u ''usa'', u ''united states''), (u ''u s a'', u ''united states''),
      (u ''wales'', u ''united kingdom'')]"

definition known_country_names :: "ustr list" where
  "known_country_names = map snd country_aliases @ map u
     [''argentina'', ''australia'', ''austria'', ''belgium'', ''brazil'', ''bulgaria'', ''canada'', ''chile'',
      ''china'', ''croatia'', ''cuba'', ''czech republic'', ''czechoslovakia'', ''denmark'', ''estonia'',
      ''finland'', ''france'', ''germany'', ''greece'', ''hungary'', ''iceland'', ''india'', ''ireland'',
      ''israel'', ''italy'', ''japan'', ''latvia'', ''lithuania'', ''luxembourg'', ''mexico'',
      ''netherlands'', ''new zealand'', ''norway'', ''poland'', ''portugal'', ''prussia'', ''romania'',
      ''russia'', ''serbia'', ''slovakia'', ''slovenia'', ''south africa'', ''soviet union'', ''spain'',
      ''sweden'', ''switzerland'', ''turkey'', ''ukraine'', ''yugoslavia'']"

definition normalise_country :: "text_rules \<Rightarrow> ustr \<Rightarrow> ustr" where
  "normalise_country tr value =
     (let normalised = join (u '' '') (word_runs (tr_word tr) (tr_casefold tr value)) in
      case map_of country_aliases normalised of None \<Rightarrow> normalised | Some c \<Rightarrow> c)"

definition country_from_place :: "text_rules \<Rightarrow> ustr \<Rightarrow> ustr" where
  "country_from_place tr place =
     (let components = filter (\<lambda>part. part \<noteq> []) (map py_strip (split_on 44 place));
          candidate = normalise_country tr (if components \<noteq> [] then last components else place) in
      if candidate \<in> set known_country_names then candidate else [])"

section \<open>Facts\<close>

record genealogical_fact =
  gf_tag :: ustr
  gf_value :: ustr
  gf_date :: ustr
  gf_place :: ustr
  gf_country :: ustr

definition effective_country :: "text_rules \<Rightarrow> genealogical_fact \<Rightarrow> ustr" where
  "effective_country tr f =
     (let explicit = normalise_country tr (gf_country f) in
      if explicit \<noteq> [] then explicit else country_from_place tr (gf_place f))"

text \<open>The parts of a value: its own text and those of the continuation lines below it.\<close>

fun continuation_parts :: "nat \<Rightarrow> ustr list \<Rightarrow> ustr list \<Rightarrow> gedcom_error + ustr list" where
  "continuation_parts level parts [] = Inr parts"
| "continuation_parts level parts (line # lines) = bindE (parse0 line) (\<lambda>p.
     if gl_level p \<le> level then Inr parts
     else continuation_parts level
       (if gl_tag p = u ''CONC'' then butlast parts @ [last parts @ gl_value p]
        else if gl_tag p = u ''CONT'' then parts @ [gl_value p] else parts) lines)"

record fact_parts =
  fp_date :: ustr
  fp_place :: ustr
  fp_country :: ustr
  fp_address :: "(ustr \<times> ustr) list"

definition read_part :: "text_rules \<Rightarrow> ustr \<Rightarrow> ustr \<Rightarrow> fact_parts \<Rightarrow> fact_parts" where
  "read_part tr tag value fp =
     (if tag = u ''DATE'' \<and> fp_date fp = [] then fp\<lparr>fp_date := normalise_gedcom_date (tr_calendar tr) value\<rparr>
      else if tag = u ''PLAC'' \<and> fp_place fp = [] then fp\<lparr>fp_place := value\<rparr>
      else if tag = u ''CTRY'' \<and> fp_country fp = [] then fp\<lparr>fp_country := value\<rparr>
      else if tag \<in> {u ''ADDR'', u ''CITY'', u ''STAE''} \<and> value \<noteq> [] \<and> map_of (fp_address fp) tag = None
      then fp\<lparr>fp_address := fp_address fp @ [(tag, value)]\<rparr>
      else fp)"

fun read_parts :: "text_rules \<Rightarrow> fact_parts \<Rightarrow> ustr list \<Rightarrow> gedcom_error + fact_parts" where
  "read_parts tr fp [] = Inr fp"
| "read_parts tr fp (line # lines) = bindE (parse0 line) (\<lambda>child.
     bindE (continuation_parts (gl_level child) [py_strip (gl_value child)] lines) (\<lambda>parts.
       read_parts tr (read_part tr (gl_tag child) (py_strip (join [10] parts)) fp) lines))"

definition address_place :: "fact_parts \<Rightarrow> ustr" where
  "address_place fp =
     (let part = (\<lambda>tag. case map_of (fp_address fp) tag of None \<Rightarrow> [] | Some v \<Rightarrow> v) in
      join (u '', '') (filter (\<lambda>v. v \<noteq> []) [part (u ''ADDR''), part (u ''CITY''), part (u ''STAE''), fp_country fp]))"

definition fact_from_block :: "text_rules \<Rightarrow> ustr list \<Rightarrow> gedcom_error + genealogical_fact" where
  "fact_from_block tr block = bindE (first_line block) (\<lambda>first.
     bindE (read_parts tr \<lparr>fp_date = [], fp_place = [], fp_country = [], fp_address = []\<rparr> (tl block)) (\<lambda>fp.
       let value = py_strip (gl_value first) in
       Inr \<lparr>gf_tag = gl_tag first, gf_value = (if upper_text value = u ''Y'' then [] else value), gf_date = fp_date fp,
            gf_place = (if fp_place fp = [] \<and> fp_address fp \<noteq> [] then address_place fp else fp_place fp),
            gf_country = fp_country fp\<rparr>))"

text \<open>\<open>max\<close> with a key: the first of the greatest.\<close>

definition completeness :: "genealogical_fact \<Rightarrow> bool \<times> nat \<times> bool \<times> nat \<times> bool" where
  "completeness f = (gf_date f \<noteq> [], length (gf_date f), gf_place f \<noteq> [], length (gf_place f), gf_country f \<noteq> [])"

fun most_complete_fact :: "genealogical_fact list \<Rightarrow> genealogical_fact option" where
  "most_complete_fact [] = None"
| "most_complete_fact (f # fs) =
     (case most_complete_fact fs of None \<Rightarrow> Some f
      | Some g \<Rightarrow> Some (if completeness f < completeness g then g else f))"

section \<open>Names\<close>

definition name_parts :: "ustr \<Rightarrow> ustr \<times> ustr" where
  "name_parts value0 =
     (let value = py_strip value0 in
      if 47 \<in> set value
      then (let rest = tl (dropWhile (\<lambda>c. c \<noteq> 47) value) in
        (py_strip (takeWhile (\<lambda>c. c \<noteq> 47) value), py_strip (takeWhile (\<lambda>c. c \<noteq> 47) rest)))
      else (let tokens = split_space value in
        (join (u '' '') (butlast tokens), if tokens \<noteq> [] then last tokens else [])))"

record personal_name =
  pn_value :: ustr
  pn_given :: ustr
  pn_surname :: ustr
  pn_prefix :: ustr
  pn_suffix :: ustr
  pn_nickname :: ustr
  pn_type :: ustr
  pn_primary :: bool

definition words_of :: "ustr list \<Rightarrow> ustr" where
  "words_of parts = join (u '' '') (filter (\<lambda>part. part \<noteq> []) parts)"

definition display_name :: "personal_name \<Rightarrow> ustr" where
  "display_name n =
     (if py_strip (pn_value n) \<noteq> [] then (case name_parts (pn_value n) of (given, surname) \<Rightarrow> words_of [given, surname])
      else words_of [pn_given n, pn_surname n])"

definition name_tags :: "ustr list" where
  "name_tags = map u [''GIVN'', ''SURN'', ''NICK'', ''NPFX'', ''NSFX'', ''TYPE'']"

definition personal_name_from_block :: "text_rules \<Rightarrow> ustr list \<Rightarrow> bool \<Rightarrow> gedcom_error + personal_name" where
  "personal_name_from_block tr block primary = bindE (first_line block) (\<lambda>first.
     if gl_tag first \<noteq> u ''NAME'' then Inl NameBlockExpected
     else bindE (mapE parse0 (tl block)) (\<lambda>ps.
       let values = (\<lambda>tag. filter (\<lambda>v. v \<noteq> []) (map (\<lambda>p. py_strip (gl_value p)) (filter (\<lambda>p. gl_tag p = tag) ps)));
           joined = (\<lambda>tag fallback. if values tag \<noteq> [] then join (u ''; '') (values tag) else fallback);
           parsed = name_parts (gl_value first) in
       Inr \<lparr>pn_value = py_strip (gl_value first), pn_given = joined (u ''GIVN'') (fst parsed),
            pn_surname = joined (u ''SURN'') (snd parsed), pn_prefix = joined (u ''NPFX'') [],
            pn_suffix = joined (u ''NSFX'') [], pn_nickname = joined (u ''NICK'') [],
            pn_type = tr_casefold tr (joined (u ''TYPE'') []), pn_primary = primary\<rparr>))"

section \<open>Individuals\<close>

record relative_identity =
  ri_pointer :: ustr
  ri_name :: ustr
  ri_birth_date :: ustr
  ri_death_date :: ustr
  ri_relationship :: ustr
  ri_alternate_names :: "ustr list"
  ri_birth_place :: ustr
  ri_death_place :: ustr

record individual =
  in_pointer :: ustr
  in_given_name :: ustr
  in_surname :: ustr
  in_birth_date :: ustr
  in_birth_place :: ustr
  in_death_date :: ustr
  in_death_place :: ustr
  in_gender :: ustr
  in_source_file :: ustr
  in_element :: "gedcom_record option"
  in_extra_fields :: "(ustr \<times> ustr list) list"
  in_raw_lines :: "ustr list"
  in_family_links :: "ustr list"
  in_family_references :: "(ustr \<times> ustr) list"
  in_alternate_names :: "ustr list"
  in_names :: "personal_name list"
  in_source_files :: "ustr list"
  in_facts :: "(ustr \<times> genealogical_fact list) list"
  in_marriages :: "genealogical_fact list"
  in_partners :: "relative_identity list"
  in_parents :: "relative_identity list"
  in_children :: "relative_identity list"

definition new_individual :: "ustr \<Rightarrow> individual" where
  "new_individual pointer = \<lparr>in_pointer = pointer, in_given_name = [], in_surname = [], in_birth_date = [],
     in_birth_place = [], in_death_date = [], in_death_place = [], in_gender = [], in_source_file = [],
     in_element = None, in_extra_fields = [], in_raw_lines = [], in_family_links = [], in_family_references = [],
     in_alternate_names = [], in_names = [], in_source_files = [], in_facts = [], in_marriages = [],
     in_partners = [], in_parents = [], in_children = []\<rparr>"

definition full_name :: "individual \<Rightarrow> ustr" where
  "full_name p = words_of (map py_strip [in_given_name p, in_surname p])"

definition event_countries :: "text_rules \<Rightarrow> genealogical_fact list \<Rightarrow> ustr \<Rightarrow> ustr list" where
  "event_countries tr facts place = unique_first
     (filter (\<lambda>c. c \<noteq> []) (map (effective_country tr) facts @ [country_from_place tr place]))"

definition birth_countries :: "text_rules \<Rightarrow> individual \<Rightarrow> ustr list" where
  "birth_countries tr p = event_countries tr (entries (in_facts p) (u ''BIRT'')) (in_birth_place p)"

definition death_countries :: "text_rules \<Rightarrow> individual \<Rightarrow> ustr list" where
  "death_countries tr p = event_countries tr (entries (in_facts p) (u ''DEAT'')) (in_death_place p)"

definition identity_fact_tags :: "ustr list" where
  "identity_fact_tags = map u
     [''ADOP'', ''BAPM'', ''BARM'', ''BASM'', ''BIRT'', ''BLES'', ''BURI'', ''CAST'', ''CENS'', ''CHR'', ''CHRA'',
      ''CONF'', ''CREM'', ''DEAT'', ''DSCR'', ''EDUC'', ''EMIG'', ''EVEN'', ''FCOM'', ''GRAD'', ''IMMI'', ''NATI'',
      ''NATU'', ''OCCU'', ''ORDN'', ''PROB'', ''PROP'', ''RELI'', ''RESI'', ''RETI'', ''TITL'']"

definition family_identity_fact_tags :: "ustr list" where
  "family_identity_fact_tags = map u
     [''ANUL'', ''DIV'', ''DIVF'', ''ENGA'', ''MARB'', ''MARC'', ''MARL'', ''MARR'', ''MARS'']"

definition add_name :: "personal_name \<Rightarrow> individual \<Rightarrow> individual" where
  "add_name n p =
     (let q = p\<lparr>in_names := in_names p @ [n]\<rparr> in
      if in_given_name p = [] \<and> in_surname p = [] then q\<lparr>in_given_name := pn_given n, in_surname := pn_surname n\<rparr>
      else if display_name n \<noteq> [] then q\<lparr>in_alternate_names := in_alternate_names p @ [display_name n]\<rparr>
      else q)"

definition add_fact :: "text_rules \<Rightarrow> ustr \<Rightarrow> ustr list \<Rightarrow> individual \<Rightarrow> gedcom_error + individual" where
  "add_fact tr tag block p = bindE (fact_from_block tr block) (\<lambda>f. Inr (p\<lparr>in_facts := append_entry tag f (in_facts p)\<rparr>))"

text \<open>One block of the record; the accumulator is the individual read so far.\<close>

definition add_block :: "text_rules \<Rightarrow> individual \<Rightarrow> ustr list \<Rightarrow> gedcom_error + individual" where
  "add_block tr p block = bindE (first_line block) (\<lambda>first.
     let value = py_strip (gl_value first) in
     if gl_tag first = u ''NAME''
     then bindE (personal_name_from_block tr block (in_names p = [])) (\<lambda>n. Inr (add_name n p))
     else if gl_tag first = u ''SEX'' then Inr (p\<lparr>in_gender := tr_upper tr value\<rparr>)
     else if gl_tag first \<in> {u ''FAMS'', u ''FAMC''}
     then Inr (if value = [] then p
       else p\<lparr>in_family_links := in_family_links p @ [value],
              in_family_references := in_family_references p @ [(gl_tag first, value)]\<rparr>)
     else if gl_tag first \<in> {u ''BIRT'', u ''DEAT''} then add_fact tr (gl_tag first) block p
     else (let q = p\<lparr>in_extra_fields := append_entry (gl_tag first) (join [10] block @ [10]) (in_extra_fields p)\<rparr> in
       if gl_tag first \<in> set identity_fact_tags then add_fact tr (gl_tag first) block q else Inr q))"

definition event_of :: "individual \<Rightarrow> ustr \<Rightarrow> ustr \<times> ustr" where
  "event_of p tag = (case most_complete_fact (entries (in_facts p) tag) of None \<Rightarrow> ([], []) | Some f \<Rightarrow> (gf_date f, gf_place f))"

definition individual_from_record :: "text_rules \<Rightarrow> gedcom_record \<Rightarrow> gedcom_error + individual" where
  "individual_from_record tr r =
     bindE (normalise_record_dates_with_metadata (tr_calendar tr) (gr_lines r)) (\<lambda>(lines, ext).
     bindE (top_level_blocks lines) (\<lambda>blocks.
     bindE (foldE (add_block tr) (new_individual []) blocks) (\<lambda>p.
     bindE (record_pointer r) (\<lambda>pointer.
       Inr (p\<lparr>in_pointer := pointer,
              in_birth_date := fst (event_of p (u ''BIRT'')), in_birth_place := snd (event_of p (u ''BIRT'')),
              in_death_date := fst (event_of p (u ''DEAT'')), in_death_place := snd (event_of p (u ''DEAT'')),
              in_source_file := gr_source_file r, in_element := Some r, in_raw_lines := lines,
              in_alternate_names := unique_first (in_alternate_names p), in_source_files := [gr_source_file r]\<rparr>)))))"

section \<open>Relatives\<close>

definition relative_of :: "ustr \<Rightarrow> individual \<Rightarrow> relative_identity" where
  "relative_of relationship p = \<lparr>ri_pointer = in_pointer p, ri_name = full_name p, ri_birth_date = in_birth_date p,
     ri_death_date = in_death_date p, ri_relationship = relationship, ri_alternate_names = in_alternate_names p,
     ri_birth_place = in_birth_place p, ri_death_place = in_death_place p\<rparr>"

text \<open>The pedigree a person's records give for a family.\<close>

fun pedigree_in :: "text_rules \<Rightarrow> ustr list \<Rightarrow> gedcom_error + ustr" where
  "pedigree_in tr [] = Inr []"
| "pedigree_in tr (line # lines) = bindE (parse0 line) (\<lambda>p.
     if gl_tag p = u ''PEDI'' then Inr (tr_casefold tr (py_strip (gl_value p))) else pedigree_in tr lines)"

definition add_pedigree :: "text_rules \<Rightarrow> ustr \<Rightarrow> (ustr \<times> ustr \<rightharpoonup> ustr) \<Rightarrow> ustr list \<Rightarrow> gedcom_error + (ustr \<times> ustr \<rightharpoonup> ustr)" where
  "add_pedigree tr pointer m block = bindE (first_line block) (\<lambda>first.
     if gl_tag first \<noteq> u ''FAMC'' \<or> py_strip (gl_value first) = [] then Inr m
     else bindE (pedigree_in tr (tl block)) (\<lambda>pedigree.
       Inr (if pedigree \<noteq> [] then m((pointer, py_strip (gl_value first)) \<mapsto> pedigree) else m)))"

definition person_pedigrees :: "text_rules \<Rightarrow> (ustr \<times> ustr \<rightharpoonup> ustr) \<Rightarrow> individual \<Rightarrow> gedcom_error + (ustr \<times> ustr \<rightharpoonup> ustr)" where
  "person_pedigrees tr m p = bindE (top_level_blocks (in_raw_lines p)) (\<lambda>blocks. foldE (add_pedigree tr (in_pointer p)) m blocks)"

text \<open>What a family record says of its members.\<close>

record family_parts =
  fa_partners :: "ustr list"
  fa_children :: "ustr list"
  fa_facts :: "genealogical_fact list"

definition read_family :: "text_rules \<Rightarrow> family_parts \<Rightarrow> ustr list \<Rightarrow> gedcom_error + family_parts" where
  "read_family tr fa block = bindE (first_line block) (\<lambda>first.
     let pointers = xref_findall (gl_value first) in
     if gl_tag first \<in> {u ''HUSB'', u ''WIFE''} then Inr (fa\<lparr>fa_partners := fa_partners fa @ pointers\<rparr>)
     else if gl_tag first = u ''CHIL'' then Inr (fa\<lparr>fa_children := fa_children fa @ pointers\<rparr>)
     else if gl_tag first \<in> set family_identity_fact_tags
     then bindE (fact_from_block tr block) (\<lambda>f. Inr (fa\<lparr>fa_facts := fa_facts fa @ [f]\<rparr>))
     else Inr fa)"

record kinship =
  kn_partners :: "ustr \<Rightarrow> relative_identity list"
  kn_parents :: "ustr \<Rightarrow> relative_identity list"
  kn_children :: "ustr \<Rightarrow> relative_identity list"
  kn_marriages :: "ustr \<Rightarrow> genealogical_fact list"

definition extended :: "(ustr \<Rightarrow> 'b list) \<Rightarrow> ustr \<Rightarrow> 'b list \<Rightarrow> ustr \<Rightarrow> 'b list" where
  "extended f k xs = f(k := f k @ xs)"

definition add_partner :: "(ustr \<Rightarrow> ustr) \<Rightarrow> individual list \<Rightarrow> individual list \<Rightarrow> genealogical_fact list
    \<Rightarrow> individual \<Rightarrow> kinship \<Rightarrow> kinship" where
  "add_partner pedigree partners children facts p k = (let x = in_pointer p in
     k\<lparr>kn_partners := extended (kn_partners k) x (map (relative_of []) (filter (\<lambda>q. in_pointer q \<noteq> x) partners)),
       kn_children := extended (kn_children k) x (map (\<lambda>c. relative_of (pedigree (in_pointer c)) c) children),
       kn_marriages := extended (kn_marriages k) x facts\<rparr>)"

definition add_child :: "(ustr \<Rightarrow> ustr) \<Rightarrow> individual list \<Rightarrow> individual \<Rightarrow> kinship \<Rightarrow> kinship" where
  "add_child pedigree partners c k =
     k\<lparr>kn_parents := extended (kn_parents k) (in_pointer c) (map (relative_of (pedigree (in_pointer c))) partners)\<rparr>"

definition add_family_kin :: "(ustr \<Rightarrow> ustr) \<Rightarrow> individual list \<Rightarrow> individual list \<Rightarrow> genealogical_fact list
    \<Rightarrow> kinship \<Rightarrow> kinship" where
  "add_family_kin pedigree partners children facts k =
     fold (add_child pedigree partners) children (fold (add_partner pedigree partners children facts) partners k)"

definition known_people :: "(ustr \<rightharpoonup> individual) \<Rightarrow> ustr list \<Rightarrow> individual list" where
  "known_people by_pointer pointers = List.map_filter by_pointer (unique_first pointers)"

definition add_kin :: "text_rules \<Rightarrow> (ustr \<rightharpoonup> individual) \<Rightarrow> (ustr \<times> ustr \<rightharpoonup> ustr) \<Rightarrow> kinship \<Rightarrow> gedcom_record \<Rightarrow> gedcom_error + kinship" where
  "add_kin tr by_pointer pedigrees k family = bindE (record_tag family) (\<lambda>tag.
     if tag \<noteq> u ''FAM'' then Inr k
     else bindE (top_level_blocks (gr_lines family)) (\<lambda>blocks.
       bindE (foldE (read_family tr) \<lparr>fa_partners = [], fa_children = [], fa_facts = []\<rparr> blocks) (\<lambda>fa.
       bindE (record_pointer family) (\<lambda>pointer.
         let partners = known_people by_pointer (fa_partners fa); children = known_people by_pointer (fa_children fa);
             pedigree = (\<lambda>c. case pedigrees (c, pointer) of None \<Rightarrow> [] | Some v \<Rightarrow> v) in
         Inr (add_family_kin pedigree partners children (fa_facts fa) k)))))"

definition by_pointer_of :: "individual list \<Rightarrow> ustr \<rightharpoonup> individual" where
  "by_pointer_of people = map_of (rev (map (\<lambda>p. (in_pointer p, p)) people))"

definition enrich_relationship_context :: "text_rules \<Rightarrow> individual list \<Rightarrow> gedcom_record list \<Rightarrow> gedcom_error + individual list" where
  "enrich_relationship_context tr people records =
     bindE (foldE (person_pedigrees tr) Map.empty people) (\<lambda>pedigrees.
     bindE (foldE (add_kin tr (by_pointer_of people) pedigrees)
         \<lparr>kn_partners = (\<lambda>_. []), kn_parents = (\<lambda>_. []), kn_children = (\<lambda>_. []), kn_marriages = (\<lambda>_. [])\<rparr> records) (\<lambda>k.
       Inr (map (\<lambda>p. p\<lparr>in_partners := unique_first (kn_partners k (in_pointer p)),
                      in_parents := unique_first (kn_parents k (in_pointer p)),
                      in_children := unique_first (kn_children k (in_pointer p)),
                      in_marriages := unique_first (kn_marriages k (in_pointer p))\<rparr>) people)))"

text \<open>The people a person is related to, with the relationship, as sets.\<close>

definition kin :: "relative_identity list \<Rightarrow> (ustr \<times> ustr) set" where
  "kin rs = (\<lambda>r. (ri_pointer r, ri_relationship r)) ` set rs"

lemma kin_append [simp]: "kin (xs @ ys) = kin xs \<union> kin ys"
  and kin_unique_first [simp]: "kin (unique_first xs) = kin xs"
  and kin_Nil [simp]: "kin [] = {}"
  by (auto simp: kin_def)

lemma kin_relatives: "kin (map (\<lambda>c. relative_of (f c) c) cs) = (\<lambda>c. (in_pointer c, f c)) ` set cs"
  by (auto simp: kin_def relative_of_def image_image)

lemma extended_apply: "extended f k xs k' = (if k' = k then f k @ xs else f k')"
  by (simp add: extended_def)

text \<open>What the partners and the children of one family gain, as sets.\<close>

lemma partners_gain:
  "kin (kn_partners (fold (add_partner pedigree partners children facts) ps k) x) = kin (kn_partners k x)
     \<union> (if x \<in> in_pointer ` set ps then (\<lambda>q. (in_pointer q, [])) ` {q \<in> set partners. in_pointer q \<noteq> x} else {})"
  "kin (kn_children (fold (add_partner pedigree partners children facts) ps k) x) = kin (kn_children k x)
     \<union> (if x \<in> in_pointer ` set ps then (\<lambda>c. (in_pointer c, pedigree (in_pointer c))) ` set children else {})"
  "kn_parents (fold (add_partner pedigree partners children facts) ps k) = kn_parents k"
  by (induction ps arbitrary: k)
    (auto simp: add_partner_def Let_def extended_apply kin_relatives kin_relatives [of "\<lambda>_. []"])

lemma parents_gain:
  "kin (kn_parents (fold (add_child pedigree partners) cs k) x) = kin (kn_parents k x)
     \<union> (if x \<in> in_pointer ` set cs then (\<lambda>p. (in_pointer p, pedigree x)) ` set partners else {})"
  "kn_partners (fold (add_child pedigree partners) cs k) = kn_partners k"
  "kn_children (fold (add_child pedigree partners) cs k) = kn_children k"
  by (induction cs arbitrary: k)
    (auto simp: add_child_def extended_apply kin_relatives kin_relatives [of "\<lambda>_. pedigree x"])

lemma family_kin:
  "(y, r) \<in> kin (kn_partners (add_family_kin pedigree ps cs facts k) x) \<longleftrightarrow> (y, r) \<in> kin (kn_partners k x)
     \<or> x \<in> in_pointer ` set ps \<and> y \<in> in_pointer ` set ps \<and> x \<noteq> y \<and> r = []"
  "(y, r) \<in> kin (kn_children (add_family_kin pedigree ps cs facts k) x) \<longleftrightarrow> (y, r) \<in> kin (kn_children k x)
     \<or> x \<in> in_pointer ` set ps \<and> y \<in> in_pointer ` set cs \<and> r = pedigree y"
  "(x, r) \<in> kin (kn_parents (add_family_kin pedigree ps cs facts k) y) \<longleftrightarrow> (x, r) \<in> kin (kn_parents k y)
     \<or> x \<in> in_pointer ` set ps \<and> y \<in> in_pointer ` set cs \<and> r = pedigree y"
  unfolding add_family_kin_def partners_gain parents_gain
  subgoal by (cases "x \<in> in_pointer ` set ps") force+
  subgoal by (cases "x \<in> in_pointer ` set ps") force+
  subgoal by (cases "y \<in> in_pointer ` set cs") force+
  done

definition mutual :: "kinship \<Rightarrow> bool" where
  "mutual k \<longleftrightarrow> (\<forall>x y r. ((y, r) \<in> kin (kn_partners k x) \<longrightarrow> (x, r) \<in> kin (kn_partners k y))
     \<and> ((y, r) \<in> kin (kn_children k x) \<longleftrightarrow> (x, r) \<in> kin (kn_parents k y)))"

definition within :: "ustr set \<Rightarrow> kinship \<Rightarrow> bool" where
  "within A k \<longleftrightarrow> (\<forall>x y r. (y, r) \<in> kin (kn_partners k x) \<union> kin (kn_children k x) \<union> kin (kn_parents k x) \<longrightarrow> y \<in> A)"

lemma add_kin_cases:
  assumes "add_kin tr by_pointer pedigrees k family = Inr k'"
  obtains "k' = k" | pedigree ps cs facts where
    "k' = add_family_kin pedigree (known_people by_pointer ps) (known_people by_pointer cs) facts k"
proof -
  have "k' = k \<or> (\<exists>pedigree ps cs facts.
      k' = add_family_kin pedigree (known_people by_pointer ps) (known_people by_pointer cs) facts k)"
    using assms unfolding add_kin_def by (auto simp: bindE_Inr_iff Let_def split: if_splits)
  then show ?thesis using that by blast
qed

lemma add_kin_mutual:
  assumes "mutual k" and "add_kin tr by_pointer pedigrees k family = Inr k'"
  shows "mutual k'"
  using assms(2)
proof (cases rule: add_kin_cases)
  case (2 pedigree ps cs facts)
  show ?thesis using assms(1) unfolding 2 mutual_def family_kin by blast
qed (use assms in simp)

lemma known_pointers:
  "in_pointer ` set (known_people (by_pointer_of people) ps) \<subseteq> in_pointer ` set people"
proof -
  have "in_pointer p \<in> in_pointer ` set people" if "by_pointer_of people x = Some p" for x p
    using that by (auto simp: by_pointer_of_def dest!: map_of_SomeD)
  then show ?thesis by (auto simp: known_people_def map_filter_def simp del: set_unique_first)
qed

lemma add_kin_within:
  assumes "within (in_pointer ` set people) k" and "add_kin tr (by_pointer_of people) pedigrees k family = Inr k'"
  shows "within (in_pointer ` set people) k'"
  using assms(2)
proof (cases rule: add_kin_cases)
  case (2 pedigree ps cs facts)
  show ?thesis using assms(1) known_pointers [of people ps] known_pointers [of people cs]
    unfolding 2 within_def Un_iff family_kin by blast
qed (use assms in simp)

text \<open>C22: The relatives people are given from the family records are mutual and never invented: who is a
  partner of a person has that person as a partner, a child of a person has that person as a parent
  in the same relationship and the other way round, and every relative is one of the people.\<close>

theorem relationships_are_mutual:
  assumes "enrich_relationship_context tr people records = Inr enriched" and "p \<in> set enriched" "q \<in> set enriched"
  shows "((in_pointer q, r) \<in> kin (in_partners p) \<longrightarrow> (in_pointer p, r) \<in> kin (in_partners q))
    \<and> ((in_pointer q, r) \<in> kin (in_children p) \<longleftrightarrow> (in_pointer p, r) \<in> kin (in_parents q))
    \<and> fst ` (kin (in_partners p) \<union> kin (in_children p) \<union> kin (in_parents p)) \<subseteq> in_pointer ` set enriched"
proof -
  let ?empty = "\<lparr>kn_partners = (\<lambda>_. []), kn_parents = (\<lambda>_. []), kn_children = (\<lambda>_. []), kn_marriages = (\<lambda>_. [])\<rparr>"
  from assms(1) obtain pedigrees k where k: "foldE (add_kin tr (by_pointer_of people) pedigrees) ?empty records = Inr k"
    and en: "enriched = map (\<lambda>p. p\<lparr>in_partners := unique_first (kn_partners k (in_pointer p)),
        in_parents := unique_first (kn_parents k (in_pointer p)), in_children := unique_first (kn_children k (in_pointer p)),
        in_marriages := unique_first (kn_marriages k (in_pointer p))\<rparr>) people"
    by (auto simp: enrich_relationship_context_def bindE_Inr_iff)
  have "mutual k" 
    by (rule foldE_invariant [OF k]) (simp add: mutual_def, erule add_kin_mutual)
  moreover have "within (in_pointer ` set people) k"
    by (rule foldE_invariant [OF k]) (simp add: within_def, erule add_kin_within)
  moreover have "in_pointer ` set enriched = in_pointer ` set people" by (auto simp: en image_image)
  moreover have "kin (in_partners x) = kin (kn_partners k (in_pointer x))" "kin (in_children x) = kin (kn_children k (in_pointer x))"
      "kin (in_parents x) = kin (kn_parents k (in_pointer x))" if "x \<in> set enriched" for x
    using that by (auto simp: en)
  ultimately show ?thesis using assms(2,3) unfolding mutual_def within_def by auto
qed

lemma relationships_are_mutual_witness:
  "\<exists>tr people records enriched. enrich_relationship_context tr people records = Inr enriched \<and> length enriched = 2
     \<and> (in_pointer (enriched ! 1), u ''birth'') \<in> kin (in_children (enriched ! 0))
     \<and> ((in_pointer (enriched ! 0), u ''birth'') \<in> kin (in_parents (enriched ! 1)))"
proof -
  let ?tr = "\<lparr>tr_nfc = id, tr_casefold = id, tr_upper = id, tr_word = is_alpha, tr_calendar = (\<lambda>_. None), tr_sha256 = id\<rparr>"
  let ?people = "[(new_individual (u ''@F@''))\<lparr>in_raw_lines := [u ''0 @F@ INDI'']\<rparr>,
    (new_individual (u ''@C@''))\<lparr>in_raw_lines := map u [''0 @C@ INDI'', ''1 FAMC @X@'', ''2 PEDI birth'']\<rparr>]"
  let ?records = "[\<lparr>gr_lines = map u [''0 @X@ FAM'', ''1 HUSB @F@'', ''1 CHIL @C@'', ''1 WIFE @U@''],
    gr_source_file = [], gr_sequence = 0, gr_encoding = []\<rparr>]"
  have "case enrich_relationship_context ?tr ?people ?records of Inl e \<Rightarrow> False
      | Inr en \<Rightarrow> length en = 2 \<and> map ri_pointer (in_children (en ! 0)) = [in_pointer (en ! 1)]
          \<and> map ri_relationship (in_children (en ! 0)) = [u ''birth'']"
    by code_simp
  then obtain en where en: "enrich_relationship_context ?tr ?people ?records = Inr en" "length en = 2"
      "map ri_pointer (in_children (en ! 0)) = [in_pointer (en ! 1)]" "map ri_relationship (in_children (en ! 0)) = [u ''birth'']"
    by (auto split: sum.splits)
  then have "(in_pointer (en ! 1), u ''birth'') \<in> kin (in_children (en ! 0))" by (auto simp: kin_def)
  moreover have "en ! 0 \<in> set en" "en ! 1 \<in> set en" using en(2) by auto
  ultimately show ?thesis using relationships_are_mutual [OF en(1), of "en ! 0" "en ! 1" "u ''birth''"] en(1,2) by blast
qed

section \<open>The facts of an individual\<close>

definition block_tag :: "ustr list \<Rightarrow> ustr" where
  "block_tag block = (case first_line block of Inl e \<Rightarrow> [] | Inr p \<Rightarrow> gl_tag p)"

lemma add_fact_facts:
  "add_fact tr t block p = Inr q \<Longrightarrow> \<exists>f. fact_from_block tr block = Inr f
     \<and> entries (in_facts q) tag = entries (in_facts p) tag @ (if t = tag then [f] else [])"
  by (auto simp: add_fact_def bindE_Inr_iff)

lemma add_name_facts [simp]: "in_facts (add_name n p) = in_facts p"
  by (simp add: add_name_def Let_def)

lemma other_tags_are_no_facts:
  "tag \<in> set identity_fact_tags \<Longrightarrow> tag \<noteq> u ''NAME'' \<and> tag \<noteq> u ''SEX'' \<and> tag \<noteq> u ''FAMS'' \<and> tag \<noteq> u ''FAMC''"
  "u ''BIRT'' \<in> set identity_fact_tags" "u ''DEAT'' \<in> set identity_fact_tags"
  by (auto simp: identity_fact_tags_def)

lemma add_block_facts:
  assumes "add_block tr p block = Inr q" and tag: "tag \<in> set identity_fact_tags"
  shows "if block_tag block = tag then (\<exists>f. fact_from_block tr block = Inr f \<and> entries (in_facts q) tag = entries (in_facts p) tag @ [f])
    else entries (in_facts q) tag = entries (in_facts p) tag"
proof -
  from assms(1) obtain first where first: "first_line block = Inr first" by (auto simp: add_block_def bindE_Inr_iff)
  then have t: "block_tag block = gl_tag first" by (simp add: block_tag_def)
  note tags = other_tags_are_no_facts(1) [OF tag] other_tags_are_no_facts(2,3)
  show ?thesis
  proof (cases "gl_tag first \<in> set identity_fact_tags")
    case True
    then have "gl_tag first \<notin> {u ''NAME'', u ''SEX'', u ''FAMS'', u ''FAMC''}" using other_tags_are_no_facts(1) by blast
    with assms(1) first True obtain p' where "add_fact tr (gl_tag first) block p' = Inr q" "in_facts p' = in_facts p"
      by (auto simp: add_block_def Let_def split: if_splits)
    with add_fact_facts [OF this(1), of tag] show ?thesis by (auto simp: t)
  next
    case False
    then have no: "gl_tag first \<noteq> tag" "gl_tag first \<noteq> u ''BIRT''" "gl_tag first \<noteq> u ''DEAT''" using tags tag by auto
    then have "in_facts q = in_facts p"
      using assms(1) first False by (auto simp: add_block_def Let_def bindE_Inr_iff split: if_splits)
    then show ?thesis using no by (simp add: t)
  qed
qed

lemma add_blocks_facts:
  "foldE (add_block tr) p blocks = Inr q \<Longrightarrow> tag \<in> set identity_fact_tags \<Longrightarrow>
     \<exists>fs. mapE (fact_from_block tr) (filter (\<lambda>b. block_tag b = tag) blocks) = Inr fs
       \<and> entries (in_facts q) tag = entries (in_facts p) tag @ fs"
proof (induction blocks arbitrary: p)
  case (Cons b bs)
  then obtain a where a: "add_block tr p b = Inr a" "foldE (add_block tr) a bs = Inr q" by (auto simp: bindE_Inr_iff)
  from Cons.IH [OF a(2) Cons.prems(2)] add_block_facts [OF a(1) Cons.prems(2)] show ?case
    by (cases "block_tag b = tag") auto
qed simp

lemma most_complete_fact_max:
  "most_complete_fact fs = Some f \<Longrightarrow> f \<in> set fs \<and> (\<forall>g \<in> set fs. completeness g \<le> completeness f)"
proof (induction fs arbitrary: f)
  case (Cons h fs)
  show ?case
  proof (cases "most_complete_fact fs")
    case None
    then have "fs = []" by (cases fs) (auto split: option.splits)
    then show ?thesis using Cons.prems by simp
  next
    case (Some g)
    with Cons.IH [of g] have g: "g \<in> set fs" "\<forall>k \<in> set fs. completeness k \<le> completeness g" by auto
    show ?thesis using Cons.prems Some g by (cases "completeness h < completeness g") (auto intro: order_trans simp: not_less)
  qed
qed simp

lemma most_complete_fact_None: "most_complete_fact fs = None \<longleftrightarrow> fs = []"
  by (cases fs) (auto split: option.splits)

text \<open>The facts of an individual are those of the blocks of its lines, one per block of an identity tag and
  in order; the birth shown is the date and place of one of the birth facts no other is more complete
  than, and nothing when there is none.\<close>

theorem individual_keeps_every_fact:
  assumes "individual_from_record tr r = Inr p"
  shows "\<exists>blocks. top_level_blocks (in_raw_lines p) = Inr blocks
    \<and> (\<forall>tag \<in> set identity_fact_tags. mapE (fact_from_block tr) (filter (\<lambda>b. block_tag b = tag) blocks) = Inr (entries (in_facts p) tag))
    \<and> (let births = entries (in_facts p) (u ''BIRT'') in
        if births = [] then in_birth_date p = [] \<and> in_birth_place p = []
        else \<exists>f \<in> set births. in_birth_date p = gf_date f \<and> in_birth_place p = gf_place f
           \<and> (\<forall>g \<in> set births. completeness g \<le> completeness f))"
proof -
  from assms obtain lines ext blocks q where
    blocks: "top_level_blocks lines = Inr blocks" "foldE (add_block tr) (new_individual []) blocks = Inr q"
    and p: "in_raw_lines p = lines" "in_facts p = in_facts q" "(in_birth_date p, in_birth_place p) = event_of q (u ''BIRT'')"
    by (auto simp: individual_from_record_def bindE_Inr_iff)
  have "mapE (fact_from_block tr) (filter (\<lambda>b. block_tag b = tag) blocks) = Inr (entries (in_facts p) tag)"
    if "tag \<in> set identity_fact_tags" for tag
    using add_blocks_facts [OF blocks(2) that] by (auto simp: p entries_def new_individual_def)
  moreover have "let births = entries (in_facts p) (u ''BIRT'') in
      if births = [] then in_birth_date p = [] \<and> in_birth_place p = []
      else \<exists>f \<in> set births. in_birth_date p = gf_date f \<and> in_birth_place p = gf_place f
         \<and> (\<forall>g \<in> set births. completeness g \<le> completeness f)"
  proof (cases "most_complete_fact (entries (in_facts q) (u ''BIRT''))")
    case None
    then show ?thesis using p(2,3) by (simp add: event_of_def most_complete_fact_None)
  next
    case (Some f)
    then have "f \<in> set (entries (in_facts p) (u ''BIRT''))" "\<forall>g \<in> set (entries (in_facts p) (u ''BIRT'')). completeness g \<le> completeness f"
      using most_complete_fact_max by (auto simp: p(2))
    moreover have "in_birth_date p = gf_date f" "in_birth_place p = gf_place f" using Some p(3) by (simp_all add: event_of_def)
    ultimately show ?thesis by (auto simp: Let_def)
  qed
  ultimately show ?thesis using blocks(1) p(1) by blast
qed

lemma individual_keeps_every_fact_witness:
  "\<exists>tr r p blocks. individual_from_record tr r = Inr p \<and> in_birth_date p = u ''03 FEB 1900'' \<and> in_birth_place p = u ''Oslo, Norway''
     \<and> length (entries (in_facts p) (u ''BIRT'')) = 2 \<and> top_level_blocks (in_raw_lines p) = Inr blocks
     \<and> mapE (fact_from_block tr) (filter (\<lambda>b. block_tag b = u ''BIRT'') blocks) = Inr (entries (in_facts p) (u ''BIRT''))"
proof -
  let ?tr = "\<lparr>tr_nfc = id, tr_casefold = id, tr_upper = id, tr_word = is_alpha, tr_calendar = (\<lambda>_. None), tr_sha256 = id\<rparr>"
  let ?r = "\<lparr>gr_lines = map u [''0 @I@ INDI'', ''1 BIRT'', ''2 DATE 1900'', ''1 BIRT'', ''2 DATE 1900-02-03'',
    ''2 PLAC Oslo'', ''3 CONC , Norway''], gr_source_file = [], gr_sequence = 0, gr_encoding = []\<rparr>"
  have "case individual_from_record ?tr ?r of Inl e \<Rightarrow> False | Inr p \<Rightarrow> in_birth_date p = u ''03 FEB 1900''
      \<and> in_birth_place p = u ''Oslo, Norway'' \<and> length (entries (in_facts p) (u ''BIRT'')) = 2"
    by code_simp
  then obtain p where p: "individual_from_record ?tr ?r = Inr p" "in_birth_date p = u ''03 FEB 1900''"
      "in_birth_place p = u ''Oslo, Norway''" "length (entries (in_facts p) (u ''BIRT'')) = 2"
    by (auto split: sum.splits)
  from individual_keeps_every_fact [OF p(1)] obtain blocks where blocks: "top_level_blocks (in_raw_lines p) = Inr blocks"
      "\<forall>tag \<in> set identity_fact_tags. mapE (fact_from_block ?tr) (filter (\<lambda>b. block_tag b = tag) blocks) = Inr (entries (in_facts p) tag)"
    by blast
  then have "mapE (fact_from_block ?tr) (filter (\<lambda>b. block_tag b = u ''BIRT'') blocks) = Inr (entries (in_facts p) (u ''BIRT''))"
    using other_tags_are_no_facts(2) by blast
  then show ?thesis using p blocks(1) by blast
qed

end
