(* ===== verification/Sync_Text.thy ===== *)
theory Sync_Text
  imports Gedcom_People
begin

text \<open>
  The text side of \<open>gedcom/sync_algorithms.py\<close>: comparison values, relative lines, the blocks of
  a structure, and the merging of citations and facts. The functions taken from the \<open>core\<close>
  module are the models of the GEDCOM theories.
\<close>

section \<open>Comparison values\<close>

definition controlled_tags :: "ustr list" where
  "controlled_tags = map u [''ADOP'', ''MEDI'', ''PEDI'', ''QUAY'', ''ROLE'', ''SEX'', ''STAT'', ''TYPE'']"

definition attachment_tags :: "ustr list" where
  "attachment_tags = map u [''NOTE'', ''OBJE'', ''SOUR'']"

definition source_admin_tags :: "ustr list" where
  "source_admin_tags = map u [''CHAN'', ''RIN'']"

definition normal_space :: "text_rules \<Rightarrow> ustr \<Rightarrow> ustr" where
  "normal_space tr value = join (u '' '') (split_space (py_strip (tr_nfc tr value)))"

text \<open>\<open>re.sub(r"(?<=\w)[.;](?=\s|$)", "", s)\<close>; the look-behind sees the original text.\<close>

fun drop_stops :: "(nat \<Rightarrow> bool) \<Rightarrow> bool \<Rightarrow> ustr \<Rightarrow> ustr" where
  "drop_stops word after_word [] = []"
| "drop_stops word after_word (c # cs) =
     (if after_word \<and> (c = 46 \<or> c = 59) \<and> (cs = [] \<or> is_space (hd cs))
      then drop_stops word (word c) cs else c # drop_stops word (word c) cs)"

definition normal_place :: "text_rules \<Rightarrow> ustr \<Rightarrow> ustr" where
  "normal_place tr value =
     (let components = map (\<lambda>part. tr_casefold tr (drop_stops (tr_word tr) False (normal_space tr part))) (split_on 44 value) in
      join (u '','') (if components = [] then components
        else butlast components @ [normalise_country tr (last components)]))"

definition normal_value :: "text_rules \<Rightarrow> ustr \<Rightarrow> ustr \<Rightarrow> ustr" where
  "normal_value tr tag value0 =
     (let value = normal_space tr value0 in
      if tag = u ''DATE'' then tr_upper tr (normalise_gedcom_date (tr_calendar tr) value)
      else if tag = u ''CTRY'' then normalise_country tr value
      else if tag = u ''PLAC'' then normal_place tr value
      else if tag \<in> set controlled_tags then tr_casefold tr value
      else if tag = u ''NAME'' then tr_casefold tr value
      else value)"

section \<open>Relative lines and blocks\<close>

text \<open>A continuation joins the line before it; without one it stays a line.\<close>

fun join_continuations :: "int \<Rightarrow> (int \<times> ustr \<times> ustr) list \<Rightarrow> gedcom_line list \<Rightarrow> (int \<times> ustr \<times> ustr) list" where
  "join_continuations root out [] = out"
| "join_continuations root out (p # ps) =
     (if (gl_tag p = u ''CONC'' \<or> gl_tag p = u ''CONT'') \<and> out \<noteq> []
      then (case last out of (level, tag, value) \<Rightarrow>
        join_continuations root (butlast out @ [(level, tag, value @ (if gl_tag p = u ''CONT'' then [10] else []) @ gl_value p)]) ps)
      else join_continuations root (out @ [(int (gl_level p) - root, gl_tag p, gl_value p)]) ps)"

definition relative_line :: "text_rules \<Rightarrow> int \<times> ustr \<times> ustr \<Rightarrow> ustr" where
  "relative_line tr = (\<lambda>(level, tag, value).
     rstrip_if is_space (dec_int level @ u '' '' @ tag @ u '' '' @ normal_value tr tag value))"

definition relative_lines :: "text_rules \<Rightarrow> ustr list \<Rightarrow> gedcom_error + ustr list" where
  "relative_lines tr lines =
     (if lines = [] then Inr []
      else bindE (mapE parse0 lines) (\<lambda>ps.
        Inr (map (relative_line tr) (join_continuations (int (gl_level (hd ps))) [] ps))))"

definition direct_blocks :: "ustr list \<Rightarrow> gedcom_error + ustr list list" where
  "direct_blocks lines =
     (if length lines < 2 then Inr []
      else bindE (parse0 (hd lines)) (\<lambda>p. split_blocks (gl_level p + 1) [] [] (tl lines)))"

fun sort_children :: "ustr list \<Rightarrow> ustr list list \<Rightarrow> ustr list list \<Rightarrow> gedcom_error + ustr list \<times> ustr list list" where
  "sort_children semantic attachments [] = Inr (semantic, attachments)"
| "sort_children semantic attachments (child # children) = bindE (first_line child) (\<lambda>p.
     if gl_tag p \<in> set attachment_tags then sort_children semantic (attachments @ [child]) children
     else sort_children (semantic @ child) attachments children)"

definition block_parts :: "ustr list \<Rightarrow> gedcom_error + ustr list \<times> ustr list list" where
  "block_parts block =
     (if block = [] then Inr ([], [])
      else bindE (direct_blocks block) (\<lambda>children. sort_children [hd block] [] children))"

definition lines_key :: "text_rules \<Rightarrow> ustr list \<Rightarrow> ustr" where
  "lines_key tr relative = tr_sha256 tr (join [10] relative)"

definition structure_key :: "text_rules \<Rightarrow> ustr list \<Rightarrow> gedcom_error + ustr" where
  "structure_key tr lines = bindE (relative_lines tr lines) (\<lambda>relative. Inr (lines_key tr relative))"

definition block_key :: "text_rules \<Rightarrow> ustr list \<Rightarrow> gedcom_error + ustr" where
  "block_key tr block = bindE (block_parts block) (\<lambda>(semantic, attachments). structure_key tr semantic)"

definition identity_child_tags :: "ustr list" where
  "identity_child_tags = map u [''ADDR'', ''DATE'', ''PLAC'', ''TYPE'']"

definition block_logical_identity :: "text_rules \<Rightarrow> ustr list \<Rightarrow> gedcom_error + ustr" where
  "block_logical_identity tr block =
     (if block = [] then Inr (tr_sha256 tr [])
      else bindE (first_line block) (\<lambda>root. bindE (direct_blocks block) (\<lambda>children.
        bindE (mapE (\<lambda>child. bindE (first_line child) (\<lambda>p.
          if gl_tag p \<in> set identity_child_tags then relative_lines tr child else Inr [])) children) (\<lambda>parts.
        Inr (lines_key tr ((u ''0 '' @ gl_tag root) # concat parts))))))"

section \<open>Citations\<close>

definition first_value :: "text_rules \<Rightarrow> ustr \<Rightarrow> gedcom_line list \<Rightarrow> ustr" where
  "first_value tr tag ps =
     (case filter (\<lambda>v. v \<noteq> []) (map (\<lambda>p. normal_value tr tag (gl_value p)) (filter (\<lambda>p. gl_tag p = tag) ps)) of
        [] \<Rightarrow> [] | v # vs \<Rightarrow> v)"

definition citation_identity :: "text_rules \<Rightarrow> ustr list \<Rightarrow> gedcom_error + ustr list" where
  "citation_identity tr lines = bindE (first_line lines) (\<lambda>first. bindE (mapE parse0 (tl lines)) (\<lambda>ps.
     Inr [normal_space tr (gl_value first), first_value tr (u ''PAGE'') ps, first_value tr (u ''EVEN'') ps,
          first_value tr (u ''ROLE'') ps]))"

definition value_tags :: "ustr list" where
  "value_tags = map u [''DATE'', ''PAGE'', ''EVEN'', ''ROLE'', ''QUAY'']"

definition singleton_values :: "text_rules \<Rightarrow> ustr list \<Rightarrow> gedcom_error + (ustr \<Rightarrow> ustr list)" where
  "singleton_values tr lines = bindE (mapE parse0 (tl lines)) (\<lambda>ps.
     Inr (\<lambda>tag. if tag \<in> set value_tags
       then map (\<lambda>p. normal_value tr tag (gl_value p)) (filter (\<lambda>p. gl_tag p = tag) ps) else []))"

definition values_conflict :: "(ustr \<Rightarrow> ustr list) \<Rightarrow> (ustr \<Rightarrow> ustr list) \<Rightarrow> bool" where
  "values_conflict l r \<longleftrightarrow> list_ex (\<lambda>tag. l tag \<noteq> [] \<and> r tag \<noteq> [] \<and> set (l tag) \<noteq> set (r tag)) value_tags"

text \<open>\<open>_merge_compatible_structure\<close>. \<open>None\<close> is the code's \<open>None\<close>: the two stay apart.\<close>

fun compatible_children :: "text_rules \<Rightarrow> ustr list \<Rightarrow> ustr list list \<Rightarrow> ustr list \<Rightarrow> ustr list list
    \<Rightarrow> gedcom_error + ustr list option" where
  "compatible_children tr result existing seen [] = Inr (Some result)"
| "compatible_children tr result existing seen (child # children) = bindE (structure_key tr child) (\<lambda>key.
     if key \<in> set seen then compatible_children tr result existing seen children
     else bindE (first_line child) (\<lambda>p. bindE (mapE first_line existing) (\<lambda>firsts.
       let same_tag = map fst (filter (\<lambda>(e, q). gl_tag q = gl_tag p) (zip existing firsts)) in
       if gl_tag p = u ''DATE'' \<and> same_tag \<noteq> []
       then bindE (mapE (structure_key tr) same_tag) (\<lambda>keys.
         if list_ex (\<lambda>k. k \<noteq> key) keys then Inr None else compatible_children tr result existing seen children)
       else compatible_children tr (result @ child) (existing @ [child]) (seen @ [key]) children)))"

definition merge_compatible_structure :: "text_rules \<Rightarrow> ustr list \<Rightarrow> ustr list \<Rightarrow> gedcom_error + ustr list option" where
  "merge_compatible_structure tr left right = bindE (first_line left) (\<lambda>l. bindE (first_line right) (\<lambda>r.
     if gl_tag l \<noteq> gl_tag r \<or> normal_value tr (gl_tag l) (gl_value l) \<noteq> normal_value tr (gl_tag r) (gl_value r)
     then Inr None
     else bindE (direct_blocks left) (\<lambda>existing. bindE (mapE (structure_key tr) existing) (\<lambda>seen.
       bindE (direct_blocks right) (\<lambda>children. compatible_children tr left existing seen children)))))"

definition singleton_tags :: "ustr list" where
  "singleton_tags = map u [''DATA'', ''DATE'', ''EVEN'', ''PAGE'', ''QUAY'', ''ROLE'']"

text \<open>The first block of the child's tag: \<open>None\<close> when the values clash, otherwise its position and
  what it becomes, when there is one.\<close>

fun find_slot :: "text_rules \<Rightarrow> ustr list \<Rightarrow> gedcom_line \<Rightarrow> nat \<Rightarrow> ustr list list
    \<Rightarrow> gedcom_error + (nat \<times> ustr list) option option" where
  "find_slot tr child c i [] = Inr (Some None)"
| "find_slot tr child c i (block # blocks) = bindE (first_line block) (\<lambda>p.
     if gl_tag p \<noteq> gl_tag c then find_slot tr child c (i + 1) blocks
     else if normal_value tr (gl_tag c) (gl_value p) \<noteq> normal_value tr (gl_tag c) (gl_value c) then Inr None
     else if gl_tag c = u ''DATA''
     then bindE (merge_compatible_structure tr block child) (\<lambda>m.
       Inr (case m of None \<Rightarrow> None | Some merged \<Rightarrow> Some (Some (i, merged))))
     else Inr (Some (Some (i, block))))"

definition merge_child :: "text_rules \<Rightarrow> ustr list \<times> ustr list \<Rightarrow> ustr list \<Rightarrow> gedcom_error + (ustr list \<times> ustr list) option" where
  "merge_child tr = (\<lambda>(result, seen) child. bindE (structure_key tr child) (\<lambda>key.
     if key \<in> set seen then Inr (Some (result, seen))
     else bindE (first_line child) (\<lambda>c.
       if gl_tag c \<in> set singleton_tags
       then bindE (direct_blocks result) (\<lambda>blocks. bindE (find_slot tr child c 0 blocks) (\<lambda>slot.
         case slot of
           None \<Rightarrow> Inr None
         | Some None \<Rightarrow> Inr (Some (result @ child, seen @ [key]))
         | Some (Some (i, merged)) \<Rightarrow> bindE (structure_key tr merged) (\<lambda>k.
             Inr (Some (hd result # concat (blocks[i := merged]), seen @ [k])))))
       else Inr (Some (result @ child, seen @ [key])))))"

fun merge_children :: "text_rules \<Rightarrow> ustr list \<times> ustr list \<Rightarrow> ustr list list \<Rightarrow> gedcom_error + ustr list option" where
  "merge_children tr st [] = Inr (Some (fst st))"
| "merge_children tr st (child # children) = bindE (merge_child tr st child) (\<lambda>r.
     case r of None \<Rightarrow> Inr None | Some st' \<Rightarrow> merge_children tr st' children)"

definition merge_citations :: "text_rules \<Rightarrow> ustr list \<Rightarrow> ustr list \<Rightarrow> gedcom_error + ustr list option" where
  "merge_citations tr left right =
     bindE (citation_identity tr left) (\<lambda>l. bindE (citation_identity tr right) (\<lambda>r.
     if l \<noteq> r then Inr None
     else bindE (singleton_values tr left) (\<lambda>lv. bindE (singleton_values tr right) (\<lambda>rv.
       if values_conflict lv rv then Inr None
       else bindE (direct_blocks left) (\<lambda>blocks. bindE (mapE (structure_key tr) blocks) (\<lambda>seen.
         bindE (direct_blocks right) (\<lambda>children. merge_children tr (left, seen) children)))))))"

end
