(* ===== verification/Sync_Records.thy ===== *)
theory Sync_Records
  imports Sync_Text Gedcom_Loader
begin

text \<open>
  Facts and records of \<open>gedcom/sync_algorithms.py\<close>: merging a fact with its attachments, the
  semantic keys of records, merging of families, identifiers and fingerprints of people, the
  keys that order new records, and the allocation of pointers.
\<close>

section \<open>The counters of an update\<close>

record sync_stats =
  ss_added_people :: "ustr list"
  ss_mapped_people :: "ustr list"
  ss_unchanged_people :: "ustr list"
  ss_unresolved_people :: "ustr list"
  ss_added_facts :: "ustr list"
  ss_consolidated_facts :: "ustr list"
  ss_citations_attached :: "ustr list"
  ss_citations_deduplicated :: "ustr list"
  ss_source_records_consolidated :: "ustr list"
  ss_conflicts :: "ustr list"
  ss_removed :: "ustr list"
  ss_disappeared_retained :: "ustr list"
  ss_record_aliases :: "(ustr \<times> ustr) list"

definition no_stats :: sync_stats where
  "no_stats = \<lparr>ss_added_people = [], ss_mapped_people = [], ss_unchanged_people = [], ss_unresolved_people = [],
     ss_added_facts = [], ss_consolidated_facts = [], ss_citations_attached = [], ss_citations_deduplicated = [],
     ss_source_records_consolidated = [], ss_conflicts = [], ss_removed = [], ss_disappeared_retained = [],
     ss_record_aliases = []\<rparr>"

section \<open>Merging two copies of a fact\<close>

text \<open>The attachments so far with the counters of exact keys and of citations; a \<open>Counter\<close> is a
  function to integers.\<close>

record fact_state =
  fs_attachments :: "ustr list list"
  fs_exact :: "ustr \<Rightarrow> int"
  fs_citations :: "ustr list \<Rightarrow> int"
  fs_observed :: "ustr list \<Rightarrow> int"
  fs_stats :: sync_stats

definition attached :: "ustr \<Rightarrow> fact_state \<Rightarrow> fact_state" where
  "attached key st = st\<lparr>fs_stats := (fs_stats st)\<lparr>ss_citations_attached :=
     ss_citations_attached (fs_stats st) @ [take 12 key]\<rparr>\<rparr>"

definition deduplicated :: "ustr \<Rightarrow> fact_state \<Rightarrow> fact_state" where
  "deduplicated key st = st\<lparr>fs_stats := (fs_stats st)\<lparr>ss_citations_deduplicated :=
     ss_citations_deduplicated (fs_stats st) @ [take 12 key]\<rparr>\<rparr>"

definition add_attachment :: "ustr list \<Rightarrow> ustr \<Rightarrow> ustr list option \<Rightarrow> fact_state \<Rightarrow> fact_state" where
  "add_attachment candidate key citation st =
     st\<lparr>fs_attachments := fs_attachments st @ [candidate],
        fs_exact := (fs_exact st)(key := fs_exact st key + 1),
        fs_citations := (case citation of None \<Rightarrow> fs_citations st
          | Some c \<Rightarrow> (fs_citations st)(c := fs_citations st c + 1))\<rparr>"

text \<open>The first citation the candidate can be merged with.\<close>

fun find_citation :: "text_rules \<Rightarrow> ustr list \<Rightarrow> nat \<Rightarrow> ustr list list \<Rightarrow> gedcom_error + (nat \<times> ustr list) option" where
  "find_citation tr candidate i [] = Inr None"
| "find_citation tr candidate i (existing # attachments) = bindE (first_line existing) (\<lambda>p.
     if gl_tag p \<noteq> u ''SOUR'' then find_citation tr candidate (i + 1) attachments
     else bindE (merge_citations tr existing candidate) (\<lambda>m.
       case m of None \<Rightarrow> find_citation tr candidate (i + 1) attachments | Some combined \<Rightarrow> Inr (Some (i, combined))))"

definition merge_at :: "text_rules \<Rightarrow> ustr \<Rightarrow> nat \<Rightarrow> ustr list \<Rightarrow> fact_state \<Rightarrow> gedcom_error + fact_state" where
  "merge_at tr key i combined st =
     bindE (structure_key tr (fs_attachments st ! i)) (\<lambda>old. bindE (structure_key tr combined) (\<lambda>new.
       let exact = (fs_exact st)(old := fs_exact st old - 1) in
       Inr (attached key (st\<lparr>fs_attachments := (fs_attachments st)[i := combined],
              fs_exact := exact(new := exact new + 1)\<rparr>))))"

definition merge_attachment :: "text_rules \<Rightarrow> fact_state \<Rightarrow> ustr list \<Rightarrow> gedcom_error + fact_state" where
  "merge_attachment tr st0 candidate =
     bindE (structure_key tr candidate) (\<lambda>key. bindE (first_line candidate) (\<lambda>p.
     if gl_tag p \<noteq> u ''SOUR''
     then Inr (if fs_exact st0 key \<noteq> 0 then st0 else add_attachment candidate key None st0)
     else bindE (citation_identity tr candidate) (\<lambda>c.
       let st = st0\<lparr>fs_observed := (fs_observed st0)(c := fs_observed st0 c + 1)\<rparr> in
       if fs_exact st key \<noteq> 0
       then Inr (if fs_observed st c > fs_citations st c
                 then attached key (add_attachment candidate key (Some c) st) else deduplicated key st)
       else bindE (if fs_observed st c \<le> fs_citations st c then find_citation tr candidate 0 (fs_attachments st) else Inr None)
         (\<lambda>m. case m of
            Some (i, combined) \<Rightarrow> merge_at tr key i combined st
          | None \<Rightarrow> Inr (add_attachment candidate key (Some c) (attached key st))))))"

definition count_in :: "'b list \<Rightarrow> 'b \<Rightarrow> int" where
  "count_in xs x = int (length (filter (\<lambda>y. y = x) xs))"

definition citations_of :: "text_rules \<Rightarrow> ustr list list \<Rightarrow> gedcom_error + ustr list list" where
  "citations_of tr attachments = bindE (mapE (\<lambda>a. bindE (first_line a) (\<lambda>p.
     if gl_tag p = u ''SOUR'' then bindE (citation_identity tr a) (\<lambda>c. Inr [c]) else Inr [])) attachments) (\<lambda>cs.
     Inr (concat cs))"

definition merge_same_fact :: "text_rules \<Rightarrow> ustr list \<Rightarrow> ustr list \<Rightarrow> sync_stats \<Rightarrow> gedcom_error + ustr list \<times> sync_stats" where
  "merge_same_fact tr left right stats =
     bindE (block_parts left) (\<lambda>(semantic, left_attachments). bindE (block_parts right) (\<lambda>(ignored, right_attachments).
     bindE (mapE (structure_key tr) left_attachments) (\<lambda>keys. bindE (citations_of tr left_attachments) (\<lambda>cs.
     bindE (foldE (merge_attachment tr) \<lparr>fs_attachments = left_attachments, fs_exact = count_in keys,
         fs_citations = count_in cs, fs_observed = (\<lambda>_. 0), fs_stats = stats\<rparr> right_attachments) (\<lambda>st.
       Inr (semantic @ concat (fs_attachments st), fs_stats st))))))"

section \<open>Keys of records\<close>

definition rewrite_lines :: "ustr list \<Rightarrow> (ustr \<rightharpoonup> ustr) \<Rightarrow> gedcom_error + ustr list" where
  "rewrite_lines lines pointer_map = mapE (\<lambda>l. rewrite_xrefs l pointer_map) lines"

definition replace_header_pointer :: "ustr list \<Rightarrow> ustr \<Rightarrow> gedcom_error + ustr list" where
  "replace_header_pointer lines pointer = bindE (first_line lines) (\<lambda>first.
     Inr ((u ''0 '' @ pointer @ u '' '' @ gl_tag first @ (if gl_value first \<noteq> [] then u '' '' @ gl_value first else [])) # tl lines))"

definition record_semantic_key :: "text_rules \<Rightarrow> gedcom_record \<Rightarrow> (ustr \<rightharpoonup> ustr) \<Rightarrow> gedcom_error + ustr" where
  "record_semantic_key tr r pointer_map = bindE (rewrite_lines (gr_lines r) pointer_map) (\<lambda>lines.
     bindE (first_line lines) (\<lambda>first. bindE (top_level_blocks lines) (\<lambda>blocks. bindE (record_tag r) (\<lambda>rtag.
     bindE (mapE (\<lambda>block. bindE (first_line block) (\<lambda>p.
       Inr (if rtag = u ''SOUR'' \<and> gl_tag p \<in> set source_admin_tags then [] else block))) blocks) (\<lambda>kept.
     structure_key tr ((u ''0 @RECORD@ '' @ gl_tag first) # concat kept))))))"

definition family_semantic_key :: "text_rules \<Rightarrow> gedcom_record \<Rightarrow> (ustr \<rightharpoonup> ustr) \<Rightarrow> gedcom_error + ustr" where
  "family_semantic_key tr r pointer_map = bindE (rewrite_lines (gr_lines r) pointer_map) (\<lambda>lines.
     bindE (top_level_blocks lines) (\<lambda>blocks. bindE (mapE (\<lambda>block. bindE (block_parts block) (\<lambda>(semantic, a). Inr semantic)) blocks) (\<lambda>cores.
     structure_key tr (u ''0 @RECORD@ FAM'' # concat cores))))"

text \<open>Blocks gathered under their keys, in the order the keys came.\<close>

definition accumulate :: "text_rules \<Rightarrow> ustr \<Rightarrow> ustr list \<Rightarrow> (ustr \<times> ustr list) list \<times> sync_stats
    \<Rightarrow> gedcom_error + (ustr \<times> ustr list) list \<times> sync_stats" where
  "accumulate tr key block = (\<lambda>(acc, stats). case map_of acc key of
       None \<Rightarrow> Inr (acc @ [(key, block)], stats)
     | Some old \<Rightarrow> bindE (merge_same_fact tr old block stats) (\<lambda>(merged, stats'). Inr (AList.update key merged acc, stats')))"

definition gather_block :: "text_rules \<Rightarrow> (ustr \<times> ustr list) list \<times> sync_stats \<Rightarrow> ustr list
    \<Rightarrow> gedcom_error + (ustr \<times> ustr list) list \<times> sync_stats" where
  "gather_block tr st block = bindE (block_key tr block) (\<lambda>key. accumulate tr key block st)"

text \<open>\<open>core.GedcomRecord(lines, r.source_file, r.sequence)\<close>\<close>

definition made_record :: "ustr list \<Rightarrow> gedcom_record \<Rightarrow> gedcom_record" where
  "made_record lines r = \<lparr>gr_lines = lines, gr_source_file = gr_source_file r, gr_sequence = gr_sequence r,
     gr_encoding = u ''utf-8''\<rparr>"

definition merge_family_records :: "text_rules \<Rightarrow> gedcom_record \<Rightarrow> gedcom_record \<Rightarrow> ustr \<Rightarrow> sync_stats
    \<Rightarrow> gedcom_error + gedcom_record \<times> sync_stats" where
  "merge_family_records tr left right pointer stats =
     bindE (top_level_blocks (gr_lines left)) (\<lambda>lb. bindE (top_level_blocks (gr_lines right)) (\<lambda>rb.
     bindE (foldE (gather_block tr) ([], stats) (lb @ rb)) (\<lambda>(acc, stats').
       Inr (made_record ((u ''0 '' @ pointer @ u '' FAM'') # concat (map snd acc)) left, stats'))))"

section \<open>People\<close>

definition identifier_tags :: "ustr list" where
  "identifier_tags = map u [''REFN'', ''_APID'', ''_FSFTID'', ''_MHID'', ''_UID'']"

definition identifier_values :: "text_rules \<Rightarrow> individual \<Rightarrow> gedcom_error + ustr list" where
  "identifier_values tr p = bindE (top_level_blocks (in_raw_lines p)) (\<lambda>blocks.
     bindE (mapE first_line blocks) (\<lambda>firsts.
       Inr (remdups (map (\<lambda>f. gl_tag f @ u '':'' @ normal_space tr (gl_value f))
         (filter (\<lambda>f. gl_tag f \<in> set identifier_tags \<and> py_strip (gl_value f) \<noteq> []) firsts)))))"

definition identity_fingerprint :: "text_rules \<Rightarrow> individual \<Rightarrow> ustr list" where
  "identity_fingerprint tr p =
     [tr_casefold tr (full_name p), tr_upper tr (in_birth_date p), tr_casefold tr (in_birth_place p),
      tr_upper tr (in_death_date p), tr_casefold tr (in_death_place p), tr_casefold tr (in_gender p)]"

definition person_allocation_key :: "text_rules \<Rightarrow> individual \<Rightarrow> ustr \<Rightarrow> gedcom_error + ustr list \<times> ustr list \<times> ustr \<times> ustr" where
  "person_allocation_key tr p original = bindE (replace_header_pointer (in_raw_lines p) (u ''@PERSON@'')) (\<lambda>normalized.
     bindE (identifier_values tr p) (\<lambda>ids. bindE (relative_lines tr normalized) (\<lambda>relative.
       Inr (identity_fingerprint tr p, sort ids, join [10] relative, original))))"

definition record_allocation_key :: "text_rules \<Rightarrow> gedcom_record \<Rightarrow> (ustr \<rightharpoonup> ustr) \<Rightarrow> gedcom_error + ustr \<times> ustr \<times> ustr" where
  "record_allocation_key tr r pointer_map = bindE (rewrite_lines (gr_lines r) pointer_map) (\<lambda>rewritten.
     bindE (record_pointer r) (\<lambda>pointer. bindE (record_tag r) (\<lambda>tag.
     bindE (if pointer \<noteq> [] then replace_header_pointer rewritten (u ''@RECORD@'') else Inr rewritten) (\<lambda>normalized.
     bindE (relative_lines tr normalized) (\<lambda>relative. Inr (tag, join [10] relative, pointer))))))"

section \<open>Allocation of pointers\<close>

definition record_prefixes :: "(ustr \<times> ustr) list" where
  "record_prefixes = [(u ''FAM'', u ''F''), (u ''INDI'', u ''I''), (u ''NOTE'', u ''N''), (u ''OBJE'', u ''O''),
     (u ''REPO'', u ''R''), (u ''SOUR'', u ''S'')]"

definition prefix_of :: "ustr \<Rightarrow> ustr" where
  "prefix_of tag = (case map_of record_prefixes tag of None \<Rightarrow> u ''X'' | Some p \<Rightarrow> p)"

definition master_pointer :: "ustr \<Rightarrow> int \<Rightarrow> ustr" where
  "master_pointer prefix counter = u ''@M_'' @ prefix @ dec_int counter @ u ''@''"

interpretation masters: numbered_names "master_pointer prefix" for prefix
  by unfold_locales (simp add: master_pointer_def)

function next_counter :: "ustr list \<Rightarrow> ustr \<Rightarrow> int \<Rightarrow> int" where
  "next_counter used prefix counter =
     (if master_pointer prefix counter \<in> set used then next_counter used prefix (counter + 1) else counter)"
  by pat_completeness auto
termination
  by (relation "measure (\<lambda>(used, prefix, counter). card (masters.taken_from prefix used counter))")
    (auto intro: masters.taken_decreases)

declare next_counter.simps [simp del]

text \<open>The pointers in use with the counters of the manifest.\<close>

record pointer_pool =
  pp_used :: "ustr list"
  pp_counters :: "(ustr \<times> int) list"

definition next_pointer :: "pointer_pool \<Rightarrow> ustr \<Rightarrow> pointer_pool \<times> ustr" where
  "next_pointer pool tag =
     (let prefix = prefix_of tag;
          counter = next_counter (pp_used pool) prefix (case map_of (pp_counters pool) prefix of None \<Rightarrow> 1 | Some n \<Rightarrow> n);
          pointer = master_pointer prefix counter in
      (\<lparr>pp_used = pp_used pool @ [pointer], pp_counters = AList.update prefix (counter + 1) (pp_counters pool)\<rparr>, pointer))"

lemma next_counter_unused: "master_pointer prefix (next_counter used prefix counter) \<notin> set used"
proof (induction used prefix counter rule: next_counter.induct)
  case (1 used prefix counter)
  then show ?case by (subst next_counter.simps) simp
qed

interpretation pool: fresh_supply next_pointer "\<lambda>pool. set (pp_used pool)"
proof
  fix p t
  show "snd (next_pointer p t) \<notin> set (pp_used p)"
    by (simp add: next_pointer_def Let_def next_counter_unused)
  show "set (pp_used (fst (next_pointer p t))) = insert (snd (next_pointer p t)) (set (pp_used p))"
    by (simp add: next_pointer_def Let_def)
qed

section \<open>The search for a pointer ends\<close>

lemma next_counter_least:
  "counter \<le> next_counter used prefix counter
   \<and> (\<forall>n. counter \<le> n \<and> n < next_counter used prefix counter \<longrightarrow> master_pointer prefix n \<in> set used)"
proof (induction used prefix counter rule: next_counter.induct)
  case (1 used prefix counter)
  show ?case
  proof (cases "master_pointer prefix counter \<in> set used")
    case True
    then have step: "next_counter used prefix counter = next_counter used prefix (counter + 1)" by (subst next_counter.simps) simp
    note IH = 1 [OF True]
    have "master_pointer prefix n \<in> set used" if "counter \<le> n" "n < next_counter used prefix counter" for n
      using IH that True unfolding step by (cases "n = counter") auto
    then show ?thesis using IH unfolding step by auto
  next
    case False
    then show ?thesis by (subst (1 2) next_counter.simps) auto
  qed
qed

lemma master_pointer_inj: "inj (master_pointer prefix)"
  by (rule injI) (rule masters.cand_inject)

text \<open>C29: The search for a free pointer ends. It takes at most as many steps as pointers are in use, and its result
  is the first number from the counter on whose pointer is free.\<close>

theorem pointer_search_ends:
  shows "next_counter used prefix counter \<le> counter + int (card (set used))
    \<and> master_pointer prefix (next_counter used prefix counter) \<notin> set used
    \<and> (\<forall>n. counter \<le> n \<and> n < next_counter used prefix counter \<longrightarrow> master_pointer prefix n \<in> set used)"
proof -
  let ?n = "next_counter used prefix counter"
  have "master_pointer prefix ` {counter..<?n} \<subseteq> set used" using next_counter_least [of counter used prefix] by auto
  then have "card (master_pointer prefix ` {counter..<?n}) \<le> card (set used)" by (rule card_mono [rotated]) simp
  moreover have "card (master_pointer prefix ` {counter..<?n}) = card {counter..<?n}"
    by (rule card_image) (rule inj_on_subset [OF master_pointer_inj subset_UNIV])
  ultimately have "nat (?n - counter) \<le> card (set used)" by simp
  then have "?n \<le> counter + int (card (set used))" by linarith
  then show ?thesis using next_counter_least [of counter used prefix] next_counter_unused [of prefix used counter] by blast
qed

lemma pointer_search_ends_witness:
  "next_counter [u ''@M_I1@'', u ''@M_I2@''] (u ''I'') 1 \<le> 3 \<and> master_pointer (u ''I'') 2 \<in> set [u ''@M_I1@'', u ''@M_I2@'']"
proof -
  have n: "next_counter [u ''@M_I1@'', u ''@M_I2@''] (u ''I'') 1 = 3" by code_simp
  show ?thesis using pointer_search_ends [of "[u ''@M_I1@'', u ''@M_I2@'']" "u ''I''" 1, unfolded n] n by auto
qed

end
