(* ===== verification/Sync_Match.thy ===== *)
theory Sync_Match
  imports Sync_Records
begin

text \<open>
  \<open>_match_people\<close> of \<open>gedcom/sync_algorithms.py\<close>: which person of the master a person of a
  snapshot is. The function takes its similarity score, blocking keys and optional resolver from
  the \<open>core\<close> module and its caller; they are the fields of \<open>core_rules\<close>. Scores are an ordered
  ring, so no rounding happens in a comparison; a set is a list without meaning of its order.
\<close>

section \<open>Assessments\<close>

record 's assessment =
  as_score :: 's
  as_weight :: 's
  as_compared :: "ustr list"
  as_conflicts :: "ustr list"

definition personal_anchors :: "ustr list" where
  "personal_anchors = map u [''birth date'', ''birth place'', ''birth country'', ''death date'', ''death place'',
     ''death country'', ''sex'', ''occupation'', ''residence'', ''other standard facts'']"

definition relative_anchors :: "ustr list" where
  "relative_anchors = map u [''partners'', ''parents'', ''children'']"

definition automatic_merge_safe :: "('s::linordered_idom) assessment \<Rightarrow> bool" where
  "automatic_merge_safe a \<longleftrightarrow>
     as_score a \<ge> 95 \<and> as_weight a \<ge> 50 \<and> length (as_compared a) \<ge> 3 \<and> as_conflicts a = []
     \<and> (list_ex (\<lambda>x. x \<in> set (as_compared a)) personal_anchors
        \<or> u ''family events'' \<in> set (as_compared a) \<and> length (filter (\<lambda>x. x \<in> set (as_compared a)) relative_anchors) \<ge> 2)"

text \<open>What a resolver says. The confidence is the value after \<open>float()\<close>: \<open>None\<close> for a value that is no
  scalar, does not convert or is not finite.\<close>

record 's verdict =
  vd_is_duplicate :: bool
  vd_confidence :: "'s option"
  vd_provider :: "ustr option"
  vd_model :: "ustr option"

definition verdict_confidence :: "('s::linordered_idom) option \<Rightarrow> 's" where
  "verdict_confidence value = (case value of None \<Rightarrow> 0 | Some c \<Rightarrow> if 0 \<le> c \<and> c \<le> 1 then c else 0)"

record 's core_rules =
  cr_assess :: "individual \<Rightarrow> individual \<Rightarrow> 's assessment"
  cr_blocking_keys :: "individual \<Rightarrow> ustr list list"
  cr_show :: "'s \<Rightarrow> ustr"
  cr_provider_id :: ustr
  cr_resolver :: "(individual \<Rightarrow> individual \<Rightarrow> 's verdict) option"

section \<open>State\<close>

text \<open>A source as this function reads it: the \<open>pointer_map\<close> as the list of its items.\<close>

record sync_source =
  so_path :: ustr
  so_records :: "gedcom_record list"
  so_pointer_items :: "(ustr \<times> ustr) list"

record snapshot_spec =
  sn_source_id :: ustr
  sn_vendor :: ustr
  sn_path :: ustr
  sn_exported_at :: ustr
  sn_date_basis :: ustr
  sn_sha256 :: ustr

definition snapshot_id :: "snapshot_spec \<Rightarrow> ustr" where
  "snapshot_id spec = sn_source_id spec @ u '':'' @ take 20 (sn_sha256 spec)"

record match_state =
  ms_pointer_map :: "ustr \<rightharpoonup> ustr"
  ms_bindings :: "(ustr \<times> ustr) list"
  ms_survivors :: "individual list"
  ms_by_pointer :: "ustr \<rightharpoonup> individual"
  ms_identifiers :: "ustr \<Rightarrow> ustr list"
  ms_fingerprints :: "ustr list \<Rightarrow> ustr list"
  ms_pool :: pointer_pool
  ms_stats :: sync_stats

definition index_person :: "text_rules \<Rightarrow> ustr \<Rightarrow> ustr list \<Rightarrow> individual \<Rightarrow> match_state \<Rightarrow> match_state" where
  "index_person tr pointer ids p st =
     st\<lparr>ms_identifiers := (\<lambda>i. if i \<in> set ids then ms_identifiers st i @ [pointer] else ms_identifiers st i),
        ms_fingerprints := (ms_fingerprints st)(identity_fingerprint tr p :=
          ms_fingerprints st (identity_fingerprint tr p) @ [pointer])\<rparr>"

section \<open>One incoming person\<close>

text \<open>The survivors that share a blocking key and reach the similarity threshold.\<close>

definition scored_survivors :: "('s::linordered_idom) core_rules \<Rightarrow> individual list \<Rightarrow> individual \<Rightarrow> (individual \<times> 's assessment) list" where
  "scored_survivors core survivors incoming =
     filter (\<lambda>(q, a). as_score a \<ge> 78)
       (map (\<lambda>q. (q, cr_assess core q incoming))
         (filter (\<lambda>q. list_ex (\<lambda>k. k \<in> set (cr_blocking_keys core q)) (cr_blocking_keys core incoming)) survivors))"

definition previous_candidate :: "('s::linordered_idom) core_rules \<Rightarrow> match_state \<Rightarrow> ustr option \<Rightarrow> individual \<Rightarrow> ustr list" where
  "previous_candidate core st previous incoming = (case previous of None \<Rightarrow> []
     | Some x \<Rightarrow> (case ms_by_pointer st x of None \<Rightarrow> []
        | Some q \<Rightarrow> (let a = cr_assess core q incoming in if as_conflicts a = [] \<and> as_score a \<ge> 78 then [x] else [])))"

definition safe_candidates :: "('s::linordered_idom) core_rules \<Rightarrow> text_rules \<Rightarrow> match_state \<Rightarrow> ustr option \<Rightarrow> ustr list
    \<Rightarrow> (individual \<times> 's assessment) list \<Rightarrow> individual \<Rightarrow> ustr list" where
  "safe_candidates core tr st previous ids scored incoming =
     filter (\<lambda>x. case ms_by_pointer st x of None \<Rightarrow> False | Some q \<Rightarrow> as_conflicts (cr_assess core q incoming) = [])
       (remdups (previous_candidate core st previous incoming @ concat (map (ms_identifiers st) ids)
         @ ms_fingerprints st (identity_fingerprint tr incoming)
         @ map (\<lambda>(q, a). in_pointer q) (filter (\<lambda>(q, a). automatic_merge_safe a) scored)))"

text \<open>\<open>max\<close> by score and pointer: the first of the greatest.\<close>

fun best_scored :: "(individual \<times> ('s::linordered_idom) assessment) \<Rightarrow> (individual \<times> 's assessment) list \<Rightarrow> individual \<times> 's assessment" where
  "best_scored b [] = b"
| "best_scored b (x # xs) =
     best_scored (if (as_score (snd b), in_pointer (fst b)) < (as_score (snd x), in_pointer (fst x)) then x else b) xs"

definition arrow :: "ustr \<Rightarrow> ustr \<Rightarrow> ustr \<Rightarrow> ustr" where
  "arrow source_id original target = source_id @ u '':'' @ original @ u '' -> '' @ target"

definition retained_note :: "('s::linordered_idom) core_rules \<Rightarrow> ustr \<Rightarrow> ustr \<Rightarrow> individual \<times> 's assessment \<Rightarrow> ustr" where
  "retained_note core source_id original = (\<lambda>(q, a). source_id @ u '':'' @ original @ u '' retained separately from ''
     @ in_pointer q @ u '' (score '' @ cr_show core (as_score a) @ u '')'')"

definition provider_note :: "('s::linordered_idom) core_rules \<Rightarrow> 's verdict \<Rightarrow> 's \<Rightarrow> ustr" where
  "provider_note core v score =
     u '' (LLM '' @ (case vd_provider v of None \<Rightarrow> cr_provider_id core | Some x \<Rightarrow> x) @ u ''/''
       @ (case vd_model v of None \<Rightarrow> u ''provider default'' | Some x \<Rightarrow> x) @ u '', score '' @ cr_show core score @ u '')''"

text \<open>A new pointer for a person kept apart, with the note of a doubtful one.\<close>

definition keep_apart :: "ustr \<Rightarrow> ustr \<Rightarrow> ustr list \<Rightarrow> pointer_pool \<times> sync_stats \<Rightarrow> (pointer_pool \<times> sync_stats) \<times> ustr" where
  "keep_apart source_id original notes = (\<lambda>(pool, stats). (let (pool', target) = next_pointer pool (u ''INDI'') in
     ((pool', stats\<lparr>ss_added_people := ss_added_people stats @ [arrow source_id original target],
                    ss_unresolved_people := ss_unresolved_people stats @ notes\<rparr>), target)))"

definition mapped_to :: "ustr \<Rightarrow> ustr \<Rightarrow> ustr \<Rightarrow> ustr \<Rightarrow> pointer_pool \<times> sync_stats \<Rightarrow> (pointer_pool \<times> sync_stats) \<times> ustr" where
  "mapped_to source_id original note target = (\<lambda>(pool, stats).
     ((pool, stats\<lparr>ss_mapped_people := ss_mapped_people stats @ [arrow source_id original target @ note]\<rparr>), target))"

definition ask_resolver :: "('s::linordered_idom) core_rules \<Rightarrow> match_state \<Rightarrow> individual \<Rightarrow> (individual \<Rightarrow> individual \<Rightarrow> 's verdict)
    \<Rightarrow> individual \<times> 's assessment \<Rightarrow> gedcom_error + 's verdict option" where
  "ask_resolver core st incoming resolver = (\<lambda>(best, a).
     if as_conflicts a \<noteq> [] then Inr None
     else (case ms_by_pointer st (in_pointer best) of None \<Rightarrow> Inl (KeyMissing (in_pointer best))
       | Some q \<Rightarrow> (let v = resolver q incoming in
           Inr (if vd_is_duplicate v \<and> 10 * verdict_confidence (vd_confidence v) \<ge> 9 then Some v else None))))"

text \<open>The end of the decision, for a person without a safe candidate: a resolver is asked about the best
  survivor, otherwise the person is kept apart.\<close>

definition resolve_target :: "('s::linordered_idom) core_rules \<Rightarrow> ustr \<Rightarrow> match_state \<Rightarrow> (individual \<times> 's assessment) list
    \<Rightarrow> individual \<Rightarrow> ustr \<Rightarrow> gedcom_error + (pointer_pool \<times> sync_stats) \<times> ustr" where
  "resolve_target core source_id st scored incoming original =
     (let now = (ms_pool st, ms_stats st) in
      case (cr_resolver core, scored) of
        (Some resolver, s # ss) \<Rightarrow>
          (let best = best_scored s ss in
           bindE (ask_resolver core st incoming resolver best) (\<lambda>r. Inr (case r of
             Some v \<Rightarrow> (case mapped_to source_id original (provider_note core v (as_score (snd best))) (in_pointer (fst best)) now of
               (now', target) \<Rightarrow> if target = [] then keep_apart source_id original [retained_note core source_id original best] now'
                 else (now', target))
           | None \<Rightarrow> keep_apart source_id original [retained_note core source_id original best] now)))
      | _ \<Rightarrow> Inr (keep_apart source_id original
          (case scored of [] \<Rightarrow> [] | s # ss \<Rightarrow> [retained_note core source_id original s]) now))"

definition score_target :: "('s::linordered_idom) core_rules \<Rightarrow> ustr \<Rightarrow> match_state \<Rightarrow> (individual \<times> 's assessment) list
    \<Rightarrow> individual \<Rightarrow> ustr \<Rightarrow> gedcom_error + (pointer_pool \<times> sync_stats) \<times> ustr" where
  "score_target core source_id st scored incoming original =
     (case filter (\<lambda>(q, a). as_score a \<ge> 95 \<and> automatic_merge_safe a) scored of
        [(q, a)] \<Rightarrow> Inr (mapped_to source_id original (u '' (score '' @ cr_show core (as_score a) @ u '')'') (in_pointer q)
            (ms_pool st, ms_stats st))
      | _ \<Rightarrow> resolve_target core source_id st scored incoming original)"

definition choose_target :: "('s::linordered_idom) core_rules \<Rightarrow> text_rules \<Rightarrow> ustr \<Rightarrow> match_state \<Rightarrow> ustr option \<Rightarrow> ustr list
    \<Rightarrow> individual \<Rightarrow> ustr \<Rightarrow> gedcom_error + (pointer_pool \<times> sync_stats) \<times> ustr" where
  "choose_target core tr source_id st previous ids incoming original =
     (let scored = scored_survivors core (ms_survivors st) incoming in
      case safe_candidates core tr st previous ids scored incoming of
        [] \<Rightarrow> score_target core source_id st scored incoming original
      | [target] \<Rightarrow> Inr (if previous = Some target
          then ((ms_pool st, (ms_stats st)\<lparr>ss_unchanged_people := ss_unchanged_people (ms_stats st)
                  @ [arrow source_id original target]\<rparr>), target)
          else mapped_to source_id original [] target (ms_pool st, ms_stats st))
      | x # y # zs \<Rightarrow> (let (pool', target) = next_pointer (ms_pool st) (u ''INDI'') in
          Inr ((pool', (ms_stats st)\<lparr>ss_unresolved_people := ss_unresolved_people (ms_stats st)
                 @ [source_id @ u '':'' @ original @ u '' matched multiple people; retained as '' @ target]\<rparr>), target)))"

definition add_survivor :: "text_rules \<Rightarrow> ustr \<Rightarrow> ustr list \<Rightarrow> individual \<Rightarrow> match_state \<Rightarrow> match_state" where
  "add_survivor tr target ids incoming st =
     (if ms_by_pointer st target \<noteq> None then st
      else (let replacement = incoming\<lparr>in_pointer := target\<rparr> in
        index_person tr target ids incoming
          (st\<lparr>ms_survivors := ms_survivors st @ [replacement], ms_by_pointer := (ms_by_pointer st)(target \<mapsto> replacement)\<rparr>)))"

definition match_person :: "('s::linordered_idom) core_rules \<Rightarrow> text_rules \<Rightarrow> ustr \<Rightarrow> (ustr \<rightharpoonup> ustr) \<Rightarrow> match_state
    \<Rightarrow> individual \<times> ustr \<Rightarrow> gedcom_error + match_state" where
  "match_person core tr source_id previous_bindings st = (\<lambda>(incoming, original).
     bindE (identifier_values tr incoming) (\<lambda>ids.
     bindE (choose_target core tr source_id st (previous_bindings original) ids incoming original) (\<lambda>((pool, stats), target).
       Inr (add_survivor tr target ids incoming
         (st\<lparr>ms_pointer_map := (ms_pointer_map st)(in_pointer incoming \<mapsto> target),
             ms_bindings := AList.update original target (ms_bindings st), ms_pool := pool, ms_stats := stats\<rparr>)))))"

section \<open>All snapshots\<close>

definition person_records :: "gedcom_record list \<Rightarrow> gedcom_error + gedcom_record list" where
  "person_records records = bindE (mapE (\<lambda>r. bindE (record_tag r) (\<lambda>tag. Inr (if tag = u ''INDI'' then [r] else []))) records)
     (\<lambda>rs. Inr (concat rs))"

definition source_people :: "text_rules \<Rightarrow> sync_source \<Rightarrow> gedcom_error + individual list" where
  "source_people tr source = bindE (person_records (so_records source)) (\<lambda>rs.
     bindE (mapE (individual_from_record tr) rs) (\<lambda>people. enrich_relationship_context tr people (so_records source)))"

definition declared_pointers :: "sync_source list \<Rightarrow> gedcom_error + ustr list" where
  "declared_pointers sources = bindE (mapE record_pointer (concat (map so_records sources))) (\<lambda>ps.
     Inr (remdups (filter (\<lambda>p. p \<noteq> []) ps)))"

text \<open>The people of a snapshot with their original pointers, ordered by their allocation keys.\<close>

definition original_pointer :: "sync_source \<Rightarrow> individual \<Rightarrow> ustr" where
  "original_pointer source p =
     (case map_of (rev (map (\<lambda>(original, global). (global, original)) (so_pointer_items source))) (in_pointer p) of
        None \<Rightarrow> in_pointer p | Some original \<Rightarrow> original)"

definition ordered_people :: "text_rules \<Rightarrow> sync_source \<Rightarrow> individual list \<Rightarrow> gedcom_error + (individual \<times> ustr) list" where
  "ordered_people tr source people =
     bindE (mapE (\<lambda>p. person_allocation_key tr p (original_pointer source p)) people) (\<lambda>keys.
       Inr (map snd (sort_key fst (zip keys (map (\<lambda>p. (p, original_pointer source p)) people)))))"

definition match_snapshot :: "('s::linordered_idom) core_rules \<Rightarrow> text_rules \<Rightarrow> (ustr \<Rightarrow> ustr \<rightharpoonup> ustr)
    \<Rightarrow> match_state \<times> (ustr \<times> (ustr \<times> ustr) list) list \<Rightarrow> snapshot_spec \<times> sync_source \<times> individual list
    \<Rightarrow> gedcom_error + match_state \<times> (ustr \<times> (ustr \<times> ustr) list) list" where
  "match_snapshot core tr bindings = (\<lambda>(st, acc) (spec, source, people).
     bindE (ordered_people tr source people) (\<lambda>ordered.
     bindE (foldE (match_person core tr (sn_source_id spec) (bindings (sn_source_id spec)))
       (st\<lparr>ms_bindings := []\<rparr>) ordered) (\<lambda>st'.
       Inr (st', AList.update (sn_source_id spec) (ms_bindings st') acc))))"

definition index_master :: "text_rules \<Rightarrow> match_state \<Rightarrow> individual \<Rightarrow> gedcom_error + match_state" where
  "index_master tr st p = bindE (identifier_values tr p) (\<lambda>ids. Inr (index_person tr (in_pointer p) ids p st))"

definition master_state :: "individual list \<Rightarrow> pointer_pool \<Rightarrow> sync_stats \<Rightarrow> match_state" where
  "master_state people pool stats = \<lparr>ms_pointer_map = map_of (map (\<lambda>p. (in_pointer p, in_pointer p)) people),
     ms_bindings = [], ms_survivors = people, ms_by_pointer = by_pointer_of people,
     ms_identifiers = (\<lambda>_. []), ms_fingerprints = (\<lambda>_. []), ms_pool = pool, ms_stats = stats\<rparr>"

definition match_people :: "('s::linordered_idom) core_rules \<Rightarrow> text_rules \<Rightarrow> sync_source list \<Rightarrow> snapshot_spec list
    \<Rightarrow> (ustr \<Rightarrow> ustr \<rightharpoonup> ustr) \<Rightarrow> (ustr \<times> int) list \<Rightarrow> sync_stats
    \<Rightarrow> gedcom_error + match_state \<times> (ustr \<times> (ustr \<times> ustr) list) list" where
  "match_people core tr sources specs bindings next_ids stats =
     bindE (mapE (source_people tr) sources) (\<lambda>people.
     bindE (declared_pointers sources) (\<lambda>used.
     if people = [] then Inl IndexOutOfRange
     else bindE (foldE (index_master tr) (master_state (hd people) \<lparr>pp_used = used, pp_counters = next_ids\<rparr> stats) (hd people)) (\<lambda>st.
       bindE (foldE (match_snapshot core tr bindings) (st, []) (zip specs (zip (tl sources) (tl people)))) (\<lambda>result.
         if length sources \<le> length specs then Inl IndexOutOfRange else Inr result))))"

section \<open>Matching is conservative\<close>

text \<open>Why a pointer stands for a survivor: it is the master person itself, or a person of a snapshot that
  is assessed without a conflict against it or was kept under a pointer no source declares.\<close>

definition explained :: "('s::linordered_idom) core_rules \<Rightarrow> individual list \<Rightarrow> ustr list \<Rightarrow> individual set \<Rightarrow> ustr \<Rightarrow> individual \<Rightarrow> bool" where
  "explained core masters declared incoming x q \<longleftrightarrow> q \<in> set masters \<and> x = in_pointer q
     \<or> (\<exists>p \<in> incoming. in_pointer p = x \<and> (as_conflicts (cr_assess core q p) = []
          \<or> q = p\<lparr>in_pointer := in_pointer q\<rparr> \<and> in_pointer q \<notin> set declared))"

definition pointers_kept :: "match_state \<Rightarrow> bool" where
  "pointers_kept st \<longleftrightarrow> (\<forall>x q. ms_by_pointer st x = Some q \<longrightarrow> q \<in> set (ms_survivors st) \<and> in_pointer q = x)
     \<and> (\<forall>q \<in> set (ms_survivors st). ms_by_pointer st (in_pointer q) \<noteq> None)
     \<and> (\<forall>x. ms_by_pointer st x \<noteq> None \<longrightarrow> x = [] \<or> x \<in> set (pp_used (ms_pool st)))"

definition match_inv :: "('s::linordered_idom) core_rules \<Rightarrow> individual list \<Rightarrow> ustr list \<Rightarrow> individual set \<Rightarrow> match_state \<Rightarrow> bool" where
  "match_inv core masters declared incoming st \<longleftrightarrow> pointers_kept st \<and> set declared \<subseteq> set (pp_used (ms_pool st))
     \<and> (\<exists>new. ms_survivors st = masters @ new)
     \<and> (\<forall>x t. ms_pointer_map st x = Some t \<longrightarrow>
          (\<exists>q \<in> set (ms_survivors st). in_pointer q = t \<and> explained core masters declared incoming x q))"

lemma best_scored_in: "best_scored b xs \<in> set (b # xs)"
  by (induction xs arbitrary: b) (auto split: if_splits)

lemma scored_in: "(q, a) \<in> set (scored_survivors core survivors incoming) \<Longrightarrow> q \<in> set survivors \<and> a = cr_assess core q incoming"
  by (auto simp: scored_survivors_def)

lemma safe_in: "x \<in> set (safe_candidates core tr st previous ids scored incoming) \<Longrightarrow>
    \<exists>q. ms_by_pointer st x = Some q \<and> as_conflicts (cr_assess core q incoming) = []"
  by (auto simp: safe_candidates_def split: option.splits)

text \<open>A target is a survivor the person does not conflict with, or a new pointer.\<close>

definition good_target :: "('s::linordered_idom) core_rules \<Rightarrow> match_state \<Rightarrow> individual \<Rightarrow> pointer_pool \<Rightarrow> ustr \<Rightarrow> bool" where
  "good_target core st incoming pool t \<longleftrightarrow>
     pool = ms_pool st \<and> (\<exists>q \<in> set (ms_survivors st). in_pointer q = t \<and> as_conflicts (cr_assess core q incoming) = [])
     \<or> (pool, t) = next_pointer (ms_pool st) (u ''INDI'')"

lemma keep_apart_good: "keep_apart source_id original notes (ms_pool st, stats) = ((pool, stats'), t) \<Longrightarrow> good_target core st incoming pool t"
  by (auto simp: keep_apart_def good_target_def split: prod.splits)

lemma mapped_to_good:
  "mapped_to source_id original note x (ms_pool st, stats) = ((pool, stats'), t) \<Longrightarrow> q \<in> set (ms_survivors st)
     \<Longrightarrow> in_pointer q = x \<Longrightarrow> as_conflicts (cr_assess core q incoming) = [] \<Longrightarrow> good_target core st incoming pool t"
  by (auto simp: mapped_to_def good_target_def)

lemma ask_resolver_good: "ask_resolver core st incoming resolver (q, a) = Inr (Some v) \<Longrightarrow> as_conflicts a = []"
  by (auto simp: ask_resolver_def split: if_splits)

lemma resolve_target_good:
  assumes "resolve_target core source_id st (scored_survivors core (ms_survivors st) incoming) incoming original = Inr ((pool, stats), t)"
  shows "good_target core st incoming pool t"
proof (cases "\<exists>resolver s ss. cr_resolver core = Some resolver \<and> scored_survivors core (ms_survivors st) incoming = s # ss")
  case True
  then obtain resolver s ss where r: "cr_resolver core = Some resolver" "scored_survivors core (ms_survivors st) incoming = s # ss" by blast
  obtain q a where b: "best_scored s ss = (q, a)" by force
  with best_scored_in [of s ss] r(2) have "(q, a) \<in> set (scored_survivors core (ms_survivors st) incoming)" by simp
  note q = scored_in [OF this]
  from assms r b obtain v where v: "ask_resolver core st incoming resolver (q, a) = Inr v"
    "(case v of Some v \<Rightarrow> (case mapped_to source_id original (provider_note core v (as_score a)) (in_pointer q) (ms_pool st, ms_stats st) of
             (now', target) \<Rightarrow> if target = [] then keep_apart source_id original [retained_note core source_id original (q, a)] now' else (now', target))
         | None \<Rightarrow> keep_apart source_id original [retained_note core source_id original (q, a)] (ms_pool st, ms_stats st)) = ((pool, stats), t)"
    unfolding resolve_target_def Let_def r b prod.case option.case list.case fst_conv snd_conv by (auto simp: bindE_Inr_iff)
  show ?thesis
  proof (cases v)
    case None
    with v(2) show ?thesis by (auto intro: keep_apart_good)
  next
    case (Some w)
    with v have "as_conflicts a = []" by (auto dest: ask_resolver_good)
    then show ?thesis using v(2) Some q
      by (auto simp: mapped_to_def split: if_splits intro: keep_apart_good mapped_to_good [unfolded mapped_to_def])
  qed
next
  case False
  then have "\<exists>notes. keep_apart source_id original notes (ms_pool st, ms_stats st) = ((pool, stats), t)"
    using assms unfolding resolve_target_def Let_def by (auto split: option.splits list.splits)
  then show ?thesis by (auto intro: keep_apart_good)
qed

lemma score_target_good:
  assumes "score_target core source_id st (scored_survivors core (ms_survivors st) incoming) incoming original = Inr ((pool, stats), t)"
  shows "good_target core st incoming pool t"
proof (cases "\<exists>q a. filter (\<lambda>(q, a). as_score a \<ge> 95 \<and> automatic_merge_safe a) (scored_survivors core (ms_survivors st) incoming) = [(q, a)]")
  case True
  then obtain q a where s: "filter (\<lambda>(q, a). as_score a \<ge> 95 \<and> automatic_merge_safe a)
      (scored_survivors core (ms_survivors st) incoming) = [(q, a)]" by blast
  then have "(q, a) \<in> set (filter (\<lambda>(q, a). as_score a \<ge> 95 \<and> automatic_merge_safe a) (scored_survivors core (ms_survivors st) incoming))"
    by simp
  then have q: "(q, a) \<in> set (scored_survivors core (ms_survivors st) incoming)" "automatic_merge_safe a" by auto
  with scored_in [OF q(1)] have "q \<in> set (ms_survivors st)" "as_conflicts (cr_assess core q incoming) = []"
    by (simp_all add: automatic_merge_safe_def)
  then show ?thesis using assms s unfolding score_target_def by (auto intro: mapped_to_good)
next
  case False
  then have "score_target core source_id st (scored_survivors core (ms_survivors st) incoming) incoming original
      = resolve_target core source_id st (scored_survivors core (ms_survivors st) incoming) incoming original"
    unfolding score_target_def by (auto split: list.splits)
  with assms have "resolve_target core source_id st (scored_survivors core (ms_survivors st) incoming) incoming original = Inr ((pool, stats), t)"
    by simp
  then show ?thesis by (rule resolve_target_good)
qed

lemma choose_target_good:
  assumes "choose_target core tr source_id st previous ids incoming original = Inr ((pool, stats), t)" and kept: "pointers_kept st"
  shows "good_target core st incoming pool t"
proof -
  let ?scored = "scored_survivors core (ms_survivors st) incoming"
  let ?safe = "safe_candidates core tr st previous ids ?scored incoming"
  note eq = assms(1) [unfolded choose_target_def Let_def]
  show ?thesis
  proof (cases ?safe rule: remdups_adj.cases)
    case 1
    with eq have "score_target core source_id st ?scored incoming original = Inr ((pool, stats), t)" by simp
    then show ?thesis by (rule score_target_good)
  next
    case (2 x)
    from safe_in [of x] 2 obtain q where q: "ms_by_pointer st x = Some q" "as_conflicts (cr_assess core q incoming) = []"
      by (metis list.set_intros(1))
    then have "q \<in> set (ms_survivors st)" "in_pointer q = x" using kept by (simp_all add: pointers_kept_def)
    then show ?thesis using eq 2 q by (auto simp: good_target_def mapped_to_def split: if_splits)
  next
    case (3 x y zs)
    then show ?thesis using eq by (auto simp: good_target_def split: prod.splits)
  qed
qed

lemma next_pointer_fresh:
  "next_pointer pool tag = (pool', t) \<Longrightarrow> t \<notin> set (pp_used pool) \<and> set (pp_used pool') = insert t (set (pp_used pool)) \<and> t \<noteq> []"
  using pool.issue_fresh [of pool tag] pool.issue_taken [of pool tag]
  by (auto simp: next_pointer_def Let_def master_pointer_def)

lemma explained_mono: "explained core masters declared A x q \<Longrightarrow> A \<subseteq> B \<Longrightarrow> explained core masters declared B x q"
  by (auto simp: explained_def)

lemma add_survivor_fields [simp]:
  "ms_pointer_map (add_survivor tr t ids p st) = ms_pointer_map st"
  "ms_pool (add_survivor tr t ids p st) = ms_pool st"
  "ms_by_pointer (add_survivor tr t ids p st) = (if ms_by_pointer st t = None then (ms_by_pointer st)(t \<mapsto> p\<lparr>in_pointer := t\<rparr>) else ms_by_pointer st)"
  "ms_survivors (add_survivor tr t ids p st) = ms_survivors st @ (if ms_by_pointer st t = None then [p\<lparr>in_pointer := t\<rparr>] else [])"
  by (simp_all add: add_survivor_def index_person_def Let_def)

lemma match_person_inv:
  assumes inv: "match_inv core masters declared incoming st" and step: "match_person core tr source_id bindings st (p, original) = Inr st'"
  shows "match_inv core masters declared (insert p incoming) st'
    \<and> dom (ms_pointer_map st') = insert (in_pointer p) (dom (ms_pointer_map st))"
proof -
  from step obtain ids pool stats t where c: "choose_target core tr source_id st (bindings original) ids p original = Inr ((pool, stats), t)"
    and st': "st' = add_survivor tr t ids p (st\<lparr>ms_pointer_map := (ms_pointer_map st)(in_pointer p \<mapsto> t),
             ms_bindings := AList.update original t (ms_bindings st), ms_pool := pool, ms_stats := stats\<rparr>)"
    by (auto simp: match_person_def bindE_Inr_iff)
  have kept: "pointers_kept st" and declared: "set declared \<subseteq> set (pp_used (ms_pool st))"
    and maps: "\<And>x t. ms_pointer_map st x = Some t \<Longrightarrow> \<exists>q \<in> set (ms_survivors st). in_pointer q = t \<and> explained core masters declared incoming x q"
    and surv: "\<exists>new. ms_survivors st = masters @ new"
    using inv by (simp_all add: match_inv_def)
  have old: "\<exists>q \<in> set (ms_survivors st'). in_pointer q = y \<and> explained core masters declared (insert p incoming) x q"
    if "ms_pointer_map st x = Some y" for x y
    using maps [OF that] explained_mono [OF _ subset_insertI] by (auto simp: st') blast
  have "pointers_kept st' \<and> set declared \<subseteq> set (pp_used (ms_pool st'))
      \<and> (\<exists>q \<in> set (ms_survivors st'). in_pointer q = t \<and> explained core masters declared (insert p incoming) (in_pointer p) q)"
    using choose_target_good [OF c kept] unfolding good_target_def
  proof (elim disjE conjE bexE)
    fix q assume q: "pool = ms_pool st" "q \<in> set (ms_survivors st)" "in_pointer q = t" "as_conflicts (cr_assess core q p) = []"
    then have "ms_by_pointer st t \<noteq> None" using kept by (auto simp: pointers_kept_def)
    then have "pointers_kept st'" using kept q(1) by (auto simp: pointers_kept_def st')
    moreover have "explained core masters declared (insert p incoming) (in_pointer p) q" using q(4) by (auto simp: explained_def)
    ultimately show ?thesis using declared q by (auto simp: st')
  next
    assume "(pool, t) = next_pointer (ms_pool st) (u ''INDI'')"
    with next_pointer_fresh [of "ms_pool st" "u ''INDI''" pool t]
    have n: "t \<notin> set (pp_used (ms_pool st))" "set (pp_used pool) = insert t (set (pp_used (ms_pool st)))" "t \<noteq> []" by simp_all
    then have none: "ms_by_pointer st t = None" using kept by (auto simp: pointers_kept_def)
    have "pointers_kept st'" using kept n none unfolding pointers_kept_def by (auto simp: st')
    moreover have "t \<notin> set declared" using n(1) declared by blast
    then have "explained core masters declared (insert p incoming) (in_pointer p) (p\<lparr>in_pointer := t\<rparr>)" by (auto simp: explained_def)
    ultimately show ?thesis using declared n none by (auto simp: st')
  qed
  moreover have "ms_pointer_map st' = (ms_pointer_map st)(in_pointer p \<mapsto> t)" by (simp add: st')
  moreover have "\<exists>new. ms_survivors st' = masters @ new" using surv by (auto simp: st')
  ultimately show ?thesis using old by (auto simp: match_inv_def)
qed

lemma match_persons_inv:
  "foldE (match_person core tr source_id bindings) st ps = Inr st' \<Longrightarrow> match_inv core masters declared incoming st \<Longrightarrow>
     match_inv core masters declared (incoming \<union> fst ` set ps) st' \<and> dom (ms_pointer_map st') = dom (ms_pointer_map st) \<union> in_pointer ` fst ` set ps"
proof (induction ps arbitrary: st incoming)
  case (Cons p ps)
  obtain q original where p: "p = (q, original)" by force
  from Cons.prems(1) obtain a where a: "match_person core tr source_id bindings st (q, original) = Inr a"
    "foldE (match_person core tr source_id bindings) a ps = Inr st'" by (auto simp: bindE_Inr_iff p)
  from match_person_inv [OF Cons.prems(2) a(1)] Cons.IH [OF a(2), of "insert q incoming"] show ?case
    by (simp add: p insert_commute)
qed simp

lemma keyed_order_set: "length keys = length xs \<Longrightarrow> set (map snd (sort_key fst (zip keys xs))) = set xs"
  by (simp only: set_map set_sort) (metis map_snd_zip set_map)

lemma ordered_people_set:
  assumes "ordered_people tr source people = Inr ps"
  shows "set ps = (\<lambda>p. (p, original_pointer source p)) ` set people"
proof -
  from assms obtain keys where keys: "mapE (\<lambda>p. person_allocation_key tr p (original_pointer source p)) people = Inr keys"
    "ps = map snd (sort_key fst (zip keys (map (\<lambda>p. (p, original_pointer source p)) people)))"
    by (auto simp: ordered_people_def bindE_Inr_iff)
  have "set ps = set (map (\<lambda>p. (p, original_pointer source p)) people)"
    unfolding keys(2) by (rule keyed_order_set) (simp add: mapE_length [OF keys(1)])
  then show ?thesis by simp
qed

lemma match_snapshots_inv:
  "foldE (match_snapshot core tr bindings) (st, acc) work = Inr (st', acc') \<Longrightarrow> match_inv core masters declared incoming st \<Longrightarrow>
     match_inv core masters declared (incoming \<union> (\<Union>(spec, source, people) \<in> set work. set people)) st'
     \<and> dom (ms_pointer_map st') = dom (ms_pointer_map st) \<union> (\<Union>(spec, source, people) \<in> set work. in_pointer ` set people)"
proof (induction work arbitrary: st acc incoming)
  case (Cons w work)
  obtain spec source people where w: "w = (spec, source, people)" by (cases w) auto
  from Cons.prems(1) obtain ordered a where a: "ordered_people tr source people = Inr ordered"
    "foldE (match_person core tr (sn_source_id spec) (bindings (sn_source_id spec))) (st\<lparr>ms_bindings := []\<rparr>) ordered = Inr a"
    "foldE (match_snapshot core tr bindings) (a, AList.update (sn_source_id spec) (ms_bindings a) acc) work = Inr (st', acc')"
    by (auto simp: bindE_Inr_iff w match_snapshot_def)
  have "match_inv core masters declared incoming (st\<lparr>ms_bindings := []\<rparr>)"
    using Cons.prems(2) by (simp add: match_inv_def pointers_kept_def)
  from match_persons_inv [OF a(2) this] Cons.IH [OF a(3), of "incoming \<union> fst ` set ordered"] ordered_people_set [OF a(1)]
  show ?case by (simp add: w Un_assoc image_image)
qed simp

lemma individual_pointer: "individual_from_record tr r = Inr p \<Longrightarrow> record_pointer r = Inr (in_pointer p)"
  by (auto simp: individual_from_record_def bindE_Inr_iff)

lemma enriched_pointers: "enrich_relationship_context tr people records = Inr enriched \<Longrightarrow> in_pointer ` set enriched = in_pointer ` set people"
  by (auto simp: enrich_relationship_context_def bindE_Inr_iff image_image)

lemma person_records_subset: "person_records records = Inr rs \<Longrightarrow> set rs \<subseteq> set records"
proof -
  have "mapE (\<lambda>r. bindE (record_tag r) (\<lambda>tag. Inr (if tag = u ''INDI'' then [r] else []))) records = Inr rss
      \<Longrightarrow> \<forall>ss \<in> set rss. set ss \<subseteq> set records" for rss
    by (induction records arbitrary: rss) (fastforce simp: bindE_Inr_iff split: if_splits)+
  then show "person_records records = Inr rs \<Longrightarrow> set rs \<subseteq> set records"
    unfolding person_records_def bindE_Inr_iff by fastforce
qed

lemma source_people_declared:
  assumes "source_people tr source = Inr people" and "declared_pointers sources = Inr declared" and "source \<in> set sources" and "p \<in> set people"
  shows "in_pointer p = [] \<or> in_pointer p \<in> set declared"
proof -
  from assms(1) obtain rs inds where rs: "person_records (so_records source) = Inr rs" "mapE (individual_from_record tr) rs = Inr inds"
    "enrich_relationship_context tr inds (so_records source) = Inr people"
    by (auto simp: source_people_def bindE_Inr_iff)
  from enriched_pointers [OF rs(3)] assms(4) have "in_pointer p \<in> in_pointer ` set inds" by blast
  then obtain q where q: "q \<in> set inds" "in_pointer q = in_pointer p" by auto
  then obtain i where i: "i < length inds" "inds ! i = q" by (auto simp: in_set_conv_nth)
  then have "i < length rs" using mapE_length [OF rs(2)] by simp
  with mapE_Inr_nth [OF rs(2)] i have r: "rs ! i \<in> set rs" "record_pointer (rs ! i) = Inr (in_pointer p)"
    using individual_pointer q(2) by fastforce+
  have "set rs \<subseteq> set (so_records source)" by (rule person_records_subset [OF rs(1)])
  then have "rs ! i \<in> set (concat (map so_records sources))" using r(1) assms(3) by auto
  moreover from assms(2) obtain ps where ps: "mapE record_pointer (concat (map so_records sources)) = Inr ps"
    "declared = remdups (filter (\<lambda>p. p \<noteq> []) ps)" by (auto simp: declared_pointers_def bindE_Inr_iff)
  ultimately have "in_pointer p \<in> set ps" using mapE_Inr_ex r(2) by fastforce
  then show ?thesis using ps(2) by auto
qed

lemma index_master_fields:
  "foldE (index_master tr) st ps = Inr st' \<Longrightarrow> ms_pointer_map st' = ms_pointer_map st \<and> ms_survivors st' = ms_survivors st
     \<and> ms_by_pointer st' = ms_by_pointer st \<and> ms_pool st' = ms_pool st"
  by (induction ps arbitrary: st) (auto simp: bindE_Inr_iff index_master_def index_person_def)

lemma by_pointer_of_Some: "by_pointer_of people x = Some q \<Longrightarrow> q \<in> set people \<and> in_pointer q = x"
  by (auto simp: by_pointer_of_def dest!: map_of_SomeD)

lemma by_pointer_of_dom: "q \<in> set people \<Longrightarrow> \<exists>r. by_pointer_of people (in_pointer q) = Some r"
  by (auto simp: by_pointer_of_def map_of_eq_None_iff image_image simp flip: not_None_eq)

text \<open>The state in which the snapshots are matched: the people of the master, each standing for itself.\<close>

lemma match_people_start:
  assumes "match_people core tr sources specs bindings next_ids stats = Inr (st, result)"
    and people: "mapE (source_people tr) sources = Inr (masters # incoming)" and "declared_pointers sources = Inr declared"
  obtains st0 where "foldE (match_snapshot core tr bindings) (st0, []) (zip specs (zip (tl sources) incoming)) = Inr (st, result)"
    "match_inv core masters declared {} st0" "ms_survivors st0 = masters"
    "ms_pointer_map st0 = map_of (map (\<lambda>p. (in_pointer p, in_pointer p)) masters)" "length (tl sources) = length incoming"
proof -
  let ?start = "master_state masters \<lparr>pp_used = declared, pp_counters = next_ids\<rparr> stats"
  from assms obtain st0 where st0: "foldE (index_master tr) ?start masters = Inr st0"
    and fold: "foldE (match_snapshot core tr bindings) (st0, []) (zip specs (zip (tl sources) incoming)) = Inr (st, result)"
    by (auto simp: match_people_def bindE_Inr_iff split: if_splits)
  note fields = index_master_fields [OF st0]
  have src: "sources \<noteq> []" "source_people tr (hd sources) = Inr masters" "length (tl sources) = length incoming"
    using people mapE_length [OF people] by (cases sources; auto simp: bindE_Inr_iff)+
  have "in_pointer q = [] \<or> in_pointer q \<in> set declared" if "q \<in> set masters" for q
    using source_people_declared [OF src(2) assms(3) _ that] src(1) by simp
  then have kept: "pointers_kept st0"
    unfolding pointers_kept_def using fields by (auto simp: master_state_def dest: by_pointer_of_Some by_pointer_of_dom)
  have "match_inv core masters declared {} st0"
    using kept fields by (auto simp: match_inv_def master_state_def explained_def dest!: map_of_SomeD)
  then show thesis by (rule that [OF fold]) (use fields src(3) in \<open>simp_all add: master_state_def\<close>)
qed

text \<open>C21: Matching is conservative. Every person of the master stays a survivor and every person of a
  snapshot is mapped; a pointer is mapped to a survivor that is the master person itself, or one that the
  snapshot's person is assessed against without any conflict, or the snapshot's person under a new
  pointer that no source declares.\<close>

theorem matching_is_conservative:
  assumes "match_people core tr sources specs bindings next_ids stats = Inr (st, result)"
    and people: "mapE (source_people tr) sources = Inr (masters # incoming)" and "declared_pointers sources = Inr declared"
  shows "(\<exists>new. ms_survivors st = masters @ new)
    \<and> (\<forall>p \<in> set masters \<union> (\<Union>ps \<in> set (take (length specs) incoming). set ps). ms_pointer_map st (in_pointer p) \<noteq> None)
    \<and> (\<forall>x t. ms_pointer_map st x = Some t \<longrightarrow> (\<exists>q \<in> set (ms_survivors st). in_pointer q = t
         \<and> explained core masters declared (\<Union>ps \<in> set incoming. set ps) x q))"
proof -
  from assms obtain st0 where fold: "foldE (match_snapshot core tr bindings) (st0, []) (zip specs (zip (tl sources) incoming)) = Inr (st, result)"
    and inv0: "match_inv core masters declared {} st0" and fields: "ms_pointer_map st0 = map_of (map (\<lambda>p. (in_pointer p, in_pointer p)) masters)"
    and len: "length (tl sources) = length incoming" by (rule match_people_start)
  note inv = match_snapshots_inv [OF fold inv0]
  let ?work = "set (zip specs (zip (tl sources) incoming))"
  have sub: "(\<Union>(spec, source, ps) \<in> ?work. set ps) \<subseteq> (\<Union>ps \<in> set incoming. set ps)"
    by (auto dest!: set_zip_rightD)
  have "\<exists>(spec, source, ps') \<in> ?work. ps' = ps" if "ps \<in> set (take (length specs) incoming)" for ps
  proof -
    from that obtain i where i: "i < length specs" "i < length incoming" "incoming ! i = ps" by (auto simp: in_set_conv_nth)
    then have "(specs ! i, tl sources ! i, ps) \<in> ?work" using len by (auto simp: in_set_zip)
    then show ?thesis by blast
  qed
  then have "\<forall>p \<in> set masters \<union> (\<Union>ps \<in> set (take (length specs) incoming). set ps). in_pointer p \<in> dom (ms_pointer_map st)"
    using inv fields by (fastforce simp: dom_map_of_conv_image_fst image_image)
  moreover have "\<exists>new. ms_survivors st = masters @ new" using inv by (simp add: match_inv_def)
  moreover have "\<exists>q \<in> set (ms_survivors st). in_pointer q = t \<and> explained core masters declared (\<Union>ps \<in> set incoming. set ps) x q"
    if "ms_pointer_map st x = Some t" for x t
  proof -
    from inv(1) have "\<forall>x t. ms_pointer_map st x = Some t \<longrightarrow> (\<exists>q \<in> set (ms_survivors st). in_pointer q = t
        \<and> explained core masters declared ({} \<union> (\<Union>(spec, source, ps) \<in> ?work. set ps)) x q)"
      unfolding match_inv_def by (elim conjE)
    with that obtain q where "q \<in> set (ms_survivors st)" "in_pointer q = t"
      "explained core masters declared (\<Union>(spec, source, ps) \<in> ?work. set ps) x q" by auto
    then show ?thesis using explained_mono [OF _ sub] by blast
  qed
  ultimately show ?thesis by (simp add: dom_def)
qed

text \<open>A small tree and one snapshot: the first person is the one of the master, the second is new.\<close>

definition plain_rules :: text_rules where
  "plain_rules = \<lparr>tr_nfc = id, tr_casefold = id, tr_upper = id, tr_word = is_alpha, tr_calendar = (\<lambda>_. None), tr_sha256 = id\<rparr>"

definition name_core :: "int core_rules" where
  "name_core = \<lparr>cr_assess = (\<lambda>p q. if full_name p = full_name q
       then \<lparr>as_score = 99, as_weight = 60, as_compared = [u ''sex'', u ''birth date'', u ''name''], as_conflicts = []\<rparr>
       else \<lparr>as_score = 0, as_weight = 0, as_compared = [], as_conflicts = [u ''name'']\<rparr>),
     cr_blocking_keys = (\<lambda>p. [[full_name p]]), cr_show = dec_int, cr_provider_id = u ''none'', cr_resolver = None\<rparr>"

definition text_record :: "string list \<Rightarrow> string \<Rightarrow> gedcom_record" where
  "text_record lines path = \<lparr>gr_lines = map u lines, gr_source_file = u path, gr_sequence = 0, gr_encoding = u ''utf-8''\<rparr>"

definition small_sources :: "sync_source list" where
  "small_sources =
     [\<lparr>so_path = u ''master'', so_records = [text_record [''0 @I1@ INDI'', ''1 NAME Ada /Berg/''] ''master''], so_pointer_items = []\<rparr>,
      \<lparr>so_path = u ''site'', so_records = [text_record [''0 @X1_2@ INDI'', ''1 NAME Bo /Dahl/''] ''site'',
         text_record [''0 @X2_2@ INDI'', ''1 NAME Ada /Berg/''] ''site''], so_pointer_items = [(u ''@I1@'', u ''@X1_2@'')]\<rparr>]"

definition small_spec :: snapshot_spec where
  "small_spec = \<lparr>sn_source_id = u ''geni'', sn_vendor = u ''geni'', sn_path = u ''site'', sn_exported_at = [],
     sn_date_basis = [], sn_sha256 = u ''0123''\<rparr>"

lemma matching_is_conservative_witness:
  "\<exists>st result q. match_people name_core plain_rules small_sources [small_spec] (\<lambda>_ _. None) [] no_stats = Inr (st, result)
     \<and> ms_pointer_map st (u ''@X2_2@'') = Some (u ''@I1@'') \<and> ms_pointer_map st (u ''@X1_2@'') = Some (u ''@M_I1@'')
     \<and> q \<in> set (ms_survivors st) \<and> in_pointer q = u ''@M_I1@''"
proof -
  have "case match_people name_core plain_rules small_sources [small_spec] (\<lambda>_ _. None) [] no_stats of Inl e \<Rightarrow> False
      | Inr (st, result) \<Rightarrow> ms_pointer_map st (u ''@X2_2@'') = Some (u ''@I1@'') \<and> ms_pointer_map st (u ''@X1_2@'') = Some (u ''@M_I1@'')"
    by code_simp
  then obtain st result where m: "match_people name_core plain_rules small_sources [small_spec] (\<lambda>_ _. None) [] no_stats = Inr (st, result)"
      "ms_pointer_map st (u ''@X2_2@'') = Some (u ''@I1@'')" "ms_pointer_map st (u ''@X1_2@'') = Some (u ''@M_I1@'')"
    by (auto split: sum.splits)
  have "case mapE (source_people plain_rules) small_sources of Inr (masters # incoming) \<Rightarrow> True | _ \<Rightarrow> False" by code_simp
  then obtain masters incoming where p: "mapE (source_people plain_rules) small_sources = Inr (masters # incoming)"
    by (auto split: sum.splits list.splits)
  have "case declared_pointers small_sources of Inr d \<Rightarrow> True | Inl e \<Rightarrow> False" by code_simp
  then obtain declared where d: "declared_pointers small_sources = Inr declared" by (auto split: sum.splits)
  from matching_is_conservative [OF m(1) p d] m(3) obtain q where "q \<in> set (ms_survivors st)" "in_pointer q = u ''@M_I1@''" by blast
  with m show ?thesis by blast
qed

end
