(* ===== verification/Sync_Reconcile.thy ===== *)
theory Sync_Reconcile
  imports Sync_Match
begin

text \<open>
  \<open>_reconcile_person_blocks\<close> of \<open>gedcom/sync_algorithms.py\<close>: one canonical record per person from
  the records of the master and of the snapshots, with the provenance of each block, the manual
  deletions and the removal of what the active snapshots no longer show. The manifest is the part of
  the JSON document these functions read and write.
\<close>

declare update_conv' [simp]

section \<open>The manifest\<close>

record block_entry =
  be_tag :: ustr
  be_kind :: "ustr option"
  be_protected :: "ustr list"
  be_observations :: "ustr list"
  be_logical :: "ustr option"
  be_first_seen :: "int option"
  be_last_seen :: "int option"

type_synonym registry = "(ustr \<times> block_entry) list"

record tombstone =
  tb_person :: ustr
  tb_block_hash :: ustr
  tb_logical :: "ustr option"

record removal =
  rm_generation :: int
  rm_person :: ustr
  rm_block_hash :: ustr
  rm_tag :: ustr
  rm_reason :: ustr

record sync_manifest =
  sm_tree_id :: ustr
  sm_generation :: int
  sm_active :: "(ustr \<times> ustr) list"
  sm_blocks :: "(ustr \<times> registry) list"
  sm_tombstones :: "tombstone list"
  sm_removed :: "removal list"

text \<open>The snapshots in force once the new ones replace those of their sources.\<close>

definition activate :: "snapshot_spec list \<Rightarrow> (ustr \<times> ustr) list \<Rightarrow> (ustr \<times> ustr) list" where
  "activate specs active = fold (\<lambda>spec. AList.update (sn_source_id spec) (snapshot_id spec)) specs active"

definition active_snapshot_ids :: "sync_manifest \<Rightarrow> snapshot_spec list \<Rightarrow> ustr list" where
  "active_snapshot_ids m specs = map snd (activate specs (sm_active m))"

section \<open>Manual deletions\<close>

definition recorded_identity :: "sync_manifest \<Rightarrow> tombstone \<Rightarrow> ustr option" where
  "recorded_identity m t = (case tb_logical t of Some l \<Rightarrow> Some l
     | None \<Rightarrow> (case map_of (sm_blocks m) (tb_person t) of None \<Rightarrow> None
        | Some registry \<Rightarrow> (case map_of registry (tb_block_hash t) of None \<Rightarrow> None | Some e \<Rightarrow> be_logical e)))"

definition tombstoned :: "sync_manifest \<Rightarrow> ustr \<Rightarrow> ustr \<Rightarrow> ustr \<Rightarrow> bool" where
  "tombstoned m target key logical \<longleftrightarrow> list_ex (\<lambda>t. tb_person t = target
     \<and> (tb_block_hash t = key \<or> recorded_identity m t = Some logical)) (sm_tombstones m)"

section \<open>The records of a person\<close>

definition spec_of_path :: "snapshot_spec list \<Rightarrow> ustr \<Rightarrow> snapshot_spec option" where
  "spec_of_path specs path = map_of (rev (map (\<lambda>spec. (sn_path spec, spec)) specs)) path"

type_synonym origins = "(ustr \<times> (snapshot_spec option \<times> gedcom_record) list) list"

definition add_origin_record :: "snapshot_spec list \<Rightarrow> (ustr \<rightharpoonup> ustr) \<Rightarrow> origins \<Rightarrow> gedcom_record \<Rightarrow> gedcom_error + origins" where
  "add_origin_record specs pointer_map grouped r = bindE (record_tag r) (\<lambda>tag.
     if tag \<noteq> u ''INDI'' then Inr grouped
     else bindE (record_pointer r) (\<lambda>pointer.
       let target = (case pointer_map pointer of None \<Rightarrow> pointer | Some t \<Rightarrow> t) in
       Inr (append_entry target (spec_of_path specs (gr_source_file r), r) grouped)))"

definition group_people :: "sync_source list \<Rightarrow> snapshot_spec list \<Rightarrow> (ustr \<rightharpoonup> ustr) \<Rightarrow> gedcom_error + origins" where
  "group_people sources specs pointer_map = foldE (add_origin_record specs pointer_map) [] (concat (map so_records sources))"

section \<open>Gathering the blocks\<close>

record person_merge =
  pm_blocks :: "(ustr \<times> ustr list) list"
  pm_master_keys :: "ustr list"
  pm_registry :: registry
  pm_stats :: sync_stats

definition block_note :: "ustr \<Rightarrow> ustr \<Rightarrow> ustr \<Rightarrow> ustr" where
  "block_note target tag key = target @ u '':'' @ tag @ u '':'' @ take 12 key"

text \<open>The entry of a block after one more record showed it, and whether the observation is new.\<close>

definition new_entry :: "int \<Rightarrow> ustr \<Rightarrow> block_entry" where
  "new_entry generation tag = \<lparr>be_tag = tag, be_kind = Some (u ''person-block''), be_protected = [], be_observations = [],
     be_logical = None, be_first_seen = Some generation, be_last_seen = None\<rparr>"

definition first_observation :: "snapshot_spec option \<Rightarrow> block_entry \<Rightarrow> bool" where
  "first_observation origin e = (case origin of None \<Rightarrow> False | Some spec \<Rightarrow> snapshot_id spec \<notin> set (be_observations e))"

definition observe_block :: "bool \<Rightarrow> int \<Rightarrow> snapshot_spec option \<Rightarrow> ustr \<Rightarrow> block_entry \<Rightarrow> block_entry" where
  "observe_block initialize generation origin logical e0 =
     (let e = e0\<lparr>be_logical := (case be_logical e0 of None \<Rightarrow> Some logical | Some l \<Rightarrow> Some l), be_last_seen := Some generation\<rparr> in
      case origin of
        None \<Rightarrow> (if initialize \<and> u ''baseline'' \<notin> set (be_protected e)
          then e\<lparr>be_protected := be_protected e @ [u ''baseline'']\<rparr> else e)
      | Some spec \<Rightarrow> (if snapshot_id spec \<notin> set (be_observations e)
          then e\<lparr>be_observations := be_observations e @ [snapshot_id spec]\<rparr> else e))"

definition block_stats :: "ustr \<Rightarrow> snapshot_spec option \<Rightarrow> ustr \<Rightarrow> ustr \<Rightarrow> bool \<Rightarrow> block_entry \<Rightarrow> sync_stats \<Rightarrow> sync_stats" where
  "block_stats target origin tag key known entry stats =
     (let stats' = (if known then stats\<lparr>ss_consolidated_facts := ss_consolidated_facts stats @ [block_note target tag key]\<rparr>
           else stats) in
      if first_observation origin entry
      then stats'\<lparr>ss_added_facts := ss_added_facts stats'
        @ [target @ u '':'' @ tag @ u '':'' @ sn_source_id (the origin) @ u '':'' @ take 12 key]\<rparr>
      else stats')"

definition merge_origin_block :: "text_rules \<Rightarrow> sync_manifest \<Rightarrow> bool \<Rightarrow> ustr \<Rightarrow> snapshot_spec option \<Rightarrow> ustr \<Rightarrow> ustr \<Rightarrow> ustr
    \<Rightarrow> ustr list \<Rightarrow> person_merge \<Rightarrow> gedcom_error + person_merge" where
  "merge_origin_block tr m initialize target origin tag key logical block st =
     bindE (accumulate tr key block (pm_blocks st, pm_stats st)) (\<lambda>(blocks, stats).
       let entry = (case map_of (pm_registry st) key of None \<Rightarrow> new_entry (sm_generation m + 1) tag | Some e \<Rightarrow> e) in
       Inr \<lparr>pm_blocks = blocks, pm_master_keys = (if origin = None then pm_master_keys st @ [key] else pm_master_keys st),
            pm_registry = AList.update key (observe_block initialize (sm_generation m + 1) origin logical entry) (pm_registry st),
            pm_stats = block_stats target origin tag key (map_of (pm_blocks st) key \<noteq> None) entry stats\<rparr>)"

text \<open>One block of one record of the person. \<open>origin\<close> is \<open>None\<close> for the master.\<close>

definition add_origin_block :: "text_rules \<Rightarrow> sync_manifest \<Rightarrow> bool \<Rightarrow> ustr \<Rightarrow> snapshot_spec option \<Rightarrow> person_merge \<Rightarrow> ustr list
    \<Rightarrow> gedcom_error + person_merge" where
  "add_origin_block tr m initialize target origin st block =
     bindE (block_key tr block) (\<lambda>key. bindE (block_logical_identity tr block) (\<lambda>logical. bindE (first_line block) (\<lambda>first.
     let tag = gl_tag first; stats = pm_stats st in
     if origin \<noteq> None \<and> tombstoned m target key logical
     then Inr (st\<lparr>pm_stats := stats\<lparr>ss_conflicts := ss_conflicts stats @ [block_note target tag key @ u '' was present in ''
            @ sn_source_id (the origin) @ u '' but retained as an intentional manual deletion'']\<rparr>\<rparr>)
     else merge_origin_block tr m initialize target origin tag key logical block st)))"

definition origin_blocks :: "(ustr \<rightharpoonup> ustr) \<Rightarrow> ustr \<Rightarrow> gedcom_record \<Rightarrow> gedcom_error + ustr list list" where
  "origin_blocks pointer_map target r = bindE (rewrite_lines (gr_lines r) pointer_map) (\<lambda>rewritten.
     bindE (replace_header_pointer rewritten target) top_level_blocks)"

definition add_origin :: "text_rules \<Rightarrow> sync_manifest \<Rightarrow> bool \<Rightarrow> (ustr \<rightharpoonup> ustr) \<Rightarrow> ustr \<Rightarrow> person_merge
    \<Rightarrow> snapshot_spec option \<times> gedcom_record \<Rightarrow> gedcom_error + person_merge" where
  "add_origin tr m initialize pointer_map target st = (\<lambda>(origin, r).
     bindE (origin_blocks pointer_map target r) (foldE (add_origin_block tr m initialize target origin) st))"

section \<open>Keeping and removing blocks\<close>

definition removable_tags :: "ustr list" where
  "removable_tags = map u [''ANUL'', ''DIV'', ''DIVF'', ''ENGA'', ''MARB'', ''MARC'', ''MARL'', ''MARR'', ''MARS'', ''RESI'']"

definition is_removable_fact :: "ustr \<Rightarrow> bool" where
  "is_removable_fact tag \<longleftrightarrow> tag \<in> set identity_fact_tags \<or> tag \<in> set removable_tags"

definition block_has_citation :: "ustr list \<Rightarrow> gedcom_error + bool" where
  "block_has_citation block = bindE (mapE parse0 (tl block)) (\<lambda>ps. Inr (list_ex (\<lambda>p. gl_tag p = u ''SOUR'') ps))"

record retained =
  rt_kept :: "(ustr \<times> ustr list) list"
  rt_removed :: "removal list"
  rt_stats :: sync_stats

definition absent :: "ustr list \<Rightarrow> ustr list \<Rightarrow> ustr \<Rightarrow> block_entry \<Rightarrow> bool" where
  "absent active master_keys key e \<longleftrightarrow> key \<in> set master_keys \<and> \<not> list_ex (\<lambda>s. s \<in> set active) (be_observations e)
     \<and> be_protected e = []"

definition retain_block :: "sync_manifest \<Rightarrow> ustr list \<Rightarrow> ustr \<Rightarrow> person_merge \<Rightarrow> retained \<Rightarrow> ustr \<times> ustr list \<Rightarrow> gedcom_error + retained" where
  "retain_block m active target st rt = (\<lambda>(key, block). case map_of (pm_registry st) key of
       None \<Rightarrow> Inl (KeyMissing key)
     | Some e \<Rightarrow>
        bindE (if absent active (pm_master_keys st) key e \<and> is_removable_fact (be_tag e)
          then bindE (block_has_citation block) (\<lambda>cited. Inr (\<not> cited)) else Inr False) (\<lambda>remove.
        let note = block_note target (be_tag e) key; stats = rt_stats rt in
        Inr (if remove
          then rt\<lparr>rt_removed := rt_removed rt @ [\<lparr>rm_generation = sm_generation m + 1, rm_person = target, rm_block_hash = key,
                   rm_tag = be_tag e, rm_reason = u ''sole-origin uncited fact omitted by active snapshots''\<rparr>],
                 rt_stats := stats\<lparr>ss_removed := ss_removed stats @ [note]\<rparr>\<rparr>
          else rt\<lparr>rt_kept := rt_kept rt @ [(key, block)],
                 rt_stats := (if absent active (pm_master_keys st) key e
                   then stats\<lparr>ss_disappeared_retained := ss_disappeared_retained stats
                     @ [note @ u '' retained because it is protected, cited, or non-removable'']\<rparr> else stats)\<rparr>)))"

section \<open>All people\<close>

record reconciliation =
  rc_people :: "individual list"
  rc_blocks :: "(ustr \<times> registry) list"
  rc_removed :: "removal list"
  rc_stats :: sync_stats

definition person_header :: "ustr \<Rightarrow> ustr" where
  "person_header target = u ''0 '' @ target @ u '' INDI''"

definition gather_person :: "text_rules \<Rightarrow> sync_manifest \<Rightarrow> bool \<Rightarrow> (ustr \<rightharpoonup> ustr) \<Rightarrow> ustr \<Rightarrow> registry option \<Rightarrow> sync_stats
    \<Rightarrow> (snapshot_spec option \<times> gedcom_record) list \<Rightarrow> gedcom_error + person_merge" where
  "gather_person tr m initialize pointer_map target registry stats origins =
     foldE (add_origin tr m initialize pointer_map target) \<lparr>pm_blocks = [], pm_master_keys = [],
       pm_registry = (case registry of None \<Rightarrow> [] | Some r \<Rightarrow> r), pm_stats = stats\<rparr> origins"

definition reconcile_person :: "text_rules \<Rightarrow> sync_manifest \<Rightarrow> bool \<Rightarrow> (ustr \<rightharpoonup> ustr) \<Rightarrow> ustr \<Rightarrow> ustr list \<Rightarrow> reconciliation
    \<Rightarrow> ustr \<times> (snapshot_spec option \<times> gedcom_record) list \<Rightarrow> gedcom_error + reconciliation" where
  "reconcile_person tr m initialize pointer_map path active rc = (\<lambda>(target, origins).
     bindE (gather_person tr m initialize pointer_map target (map_of (rc_blocks rc) target) (rc_stats rc) origins) (\<lambda>st.
     bindE (foldE (retain_block m active target st)
       \<lparr>rt_kept = [], rt_removed = rc_removed rc, rt_stats = pm_stats st\<rparr> (pm_blocks st)) (\<lambda>rt.
     bindE (individual_from_record tr \<lparr>gr_lines = person_header target # concat (map snd (rt_kept rt)),
         gr_source_file = path, gr_sequence = length (rc_people rc), gr_encoding = u ''utf-8''\<rparr>) (\<lambda>person.
       Inr \<lparr>rc_people = rc_people rc @ [person], rc_blocks = AList.update target (pm_registry st) (rc_blocks rc),
            rc_removed = rt_removed rt, rc_stats = rt_stats rt\<rparr>))))"

definition reconcile_person_blocks :: "text_rules \<Rightarrow> sync_source list \<Rightarrow> snapshot_spec list \<Rightarrow> (ustr \<rightharpoonup> ustr) \<Rightarrow> sync_manifest
    \<Rightarrow> sync_stats \<Rightarrow> bool \<Rightarrow> gedcom_error + reconciliation" where
  "reconcile_person_blocks tr sources specs pointer_map m stats initialize =
     bindE (group_people sources specs pointer_map) (\<lambda>grouped.
     let start = \<lparr>rc_people = [], rc_blocks = sm_blocks m, rc_removed = sm_removed m, rc_stats = stats\<rparr> in
     case sources of
       [] \<Rightarrow> Inr start
     | master # snapshots \<Rightarrow>
        foldE (reconcile_person tr m initialize pointer_map (so_path master) (active_snapshot_ids m specs)) start
          (sort_key fst grouped))"

section \<open>What gathering keeps\<close>

lemma accumulate_keys:
  "accumulate tr key block (acc, stats) = Inr (acc', stats') \<Longrightarrow> fst ` set acc' = insert key (fst ` set acc)"
proof (cases "map_of acc key")
  case (Some old)
  assume "accumulate tr key block (acc, stats) = Inr (acc', stats')"
  then obtain merged where "acc' = AList.update key merged acc" using Some by (auto simp: accumulate_def bindE_Inr_iff)
  then show ?thesis by (simp add: dom_update)
qed (auto simp: accumulate_def)

definition entry_grows :: "block_entry \<Rightarrow> block_entry \<Rightarrow> bool" where
  "entry_grows e e' \<longleftrightarrow> set (be_observations e) \<subseteq> set (be_observations e') \<and> set (be_protected e) \<subseteq> set (be_protected e')
     \<and> be_tag e' = be_tag e"

definition grows :: "person_merge \<Rightarrow> person_merge \<Rightarrow> bool" where
  "grows st st' \<longleftrightarrow> fst ` set (pm_blocks st) \<subseteq> fst ` set (pm_blocks st')
     \<and> (\<forall>k e. map_of (pm_registry st) k = Some e \<longrightarrow> (\<exists>e'. map_of (pm_registry st') k = Some e' \<and> entry_grows e e'))"

lemma entry_grows_trans: "entry_grows a b \<Longrightarrow> entry_grows b c \<Longrightarrow> entry_grows a c"
  by (auto simp: entry_grows_def)

lemma growsD: "grows st st' \<Longrightarrow> map_of (pm_registry st) k = Some e \<Longrightarrow> \<exists>e'. map_of (pm_registry st') k = Some e' \<and> entry_grows e e'"
  by (simp add: grows_def)

lemma grows_refl: "grows st st"
  by (auto simp: grows_def entry_grows_def)

lemma grows_trans: "grows a b \<Longrightarrow> grows b c \<Longrightarrow> grows a c"
  unfolding grows_def by (meson entry_grows_trans order_trans)

lemma observe_block_grows: "entry_grows e (observe_block initialize generation origin logical e)"
  by (auto simp: entry_grows_def observe_block_def Let_def split: option.splits)

text \<open>A block counts as shown once its key is gathered and its entry has the observation or the protection
  its origin gives.\<close>

definition shown :: "bool \<Rightarrow> snapshot_spec option \<Rightarrow> ustr \<Rightarrow> person_merge \<Rightarrow> bool" where
  "shown initialize origin key st \<longleftrightarrow> key \<in> fst ` set (pm_blocks st)
     \<and> (\<exists>e. map_of (pm_registry st) key = Some e
        \<and> (case origin of None \<Rightarrow> initialize \<longrightarrow> be_protected e \<noteq> [] | Some spec \<Rightarrow> snapshot_id spec \<in> set (be_observations e)))"

lemma shown_grows: "shown initialize origin key st \<Longrightarrow> grows st st' \<Longrightarrow> shown initialize origin key st'"
proof -
  assume s: "shown initialize origin key st" and g: "grows st st'"
  then obtain e where e: "map_of (pm_registry st) key = Some e"
    "case origin of None \<Rightarrow> initialize \<longrightarrow> be_protected e \<noteq> [] | Some spec \<Rightarrow> snapshot_id spec \<in> set (be_observations e)"
    by (auto simp: shown_def)
  with g obtain e' where e': "map_of (pm_registry st') key = Some e'" "entry_grows e e'" by (auto dest: growsD)
  then have "case origin of None \<Rightarrow> initialize \<longrightarrow> be_protected e' \<noteq> [] | Some spec \<Rightarrow> snapshot_id spec \<in> set (be_observations e')"
    using e(2) by (auto simp: entry_grows_def split: option.splits)
  then show ?thesis using s g e'(1) by (auto simp: shown_def grows_def)
qed

lemma observe_block_shows:
  "case origin of None \<Rightarrow> initialize \<longrightarrow> be_protected (observe_block initialize generation origin logical e) \<noteq> []
     | Some spec \<Rightarrow> snapshot_id spec \<in> set (be_observations (observe_block initialize generation origin logical e))"
  by (auto simp: observe_block_def Let_def split: option.splits)

lemma merge_origin_block_Inr:
  assumes "merge_origin_block tr m initialize target origin tag key logical block st = Inr st'"
  obtains entry where "fst ` set (pm_blocks st') = insert key (fst ` set (pm_blocks st))"
    "\<And>e. map_of (pm_registry st) key = Some e \<Longrightarrow> entry = e"
    "pm_registry st' = AList.update key (observe_block initialize (sm_generation m + 1) origin logical entry) (pm_registry st)"
proof -
  from assms obtain blocks stats where acc: "accumulate tr key block (pm_blocks st, pm_stats st) = Inr (blocks, stats)"
    and b: "pm_blocks st' = blocks"
    and r: "pm_registry st' = AList.update key (observe_block initialize (sm_generation m + 1) origin logical
          (case map_of (pm_registry st) key of None \<Rightarrow> new_entry (sm_generation m + 1) tag | Some e \<Rightarrow> e)) (pm_registry st)"
    by (auto simp: merge_origin_block_def bindE_Inr_iff Let_def)
  show thesis by (rule that [OF _ _ r]) (use b accumulate_keys [OF acc] in simp_all)
qed

lemma add_origin_block_cases:
  assumes "add_origin_block tr m initialize target origin st block = Inr st'"
    and "block_key tr block = Inr key" and "block_logical_identity tr block = Inr logical"
  obtains "origin \<noteq> None" "tombstoned m target key logical" "pm_blocks st' = pm_blocks st" "pm_registry st' = pm_registry st"
  | tag where "merge_origin_block tr m initialize target origin tag key logical block st = Inr st'"
proof (cases "origin \<noteq> None \<and> tombstoned m target key logical")
  case True
  then show ?thesis using assms that(1) by (auto simp: add_origin_block_def bindE_Inr_iff Let_def)
next
  case False
  then have "\<exists>tag. merge_origin_block tr m initialize target origin tag key logical block st = Inr st'"
    using assms by (auto simp: add_origin_block_def bindE_Inr_iff Let_def)
  then show ?thesis using that(2) by blast
qed

lemma add_origin_block_keys:
  "add_origin_block tr m initialize target origin st block = Inr st' \<Longrightarrow>
     \<exists>key logical. block_key tr block = Inr key \<and> block_logical_identity tr block = Inr logical"
  by (auto simp: add_origin_block_def bindE_Inr_iff)

lemma merge_origin_block_grows: "merge_origin_block tr m initialize target origin tag key logical block st = Inr st' \<Longrightarrow> grows st st'"
proof (erule merge_origin_block_Inr)
  fix entry assume "fst ` set (pm_blocks st') = insert key (fst ` set (pm_blocks st))" "\<And>e. map_of (pm_registry st) key = Some e \<Longrightarrow> entry = e"
    "pm_registry st' = AList.update key (observe_block initialize (sm_generation m + 1) origin logical entry) (pm_registry st)"
  then show "grows st st'" using observe_block_grows by (auto simp: grows_def entry_grows_def)
qed

lemma merge_origin_block_shows:
  "merge_origin_block tr m initialize target origin tag key logical block st = Inr st' \<Longrightarrow> shown initialize origin key st'"
  by (erule merge_origin_block_Inr) (simp add: shown_def observe_block_shows)

lemma add_origin_block_grows:
  assumes step: "add_origin_block tr m initialize target origin st block = Inr st'" shows "grows st st'"
proof -
  from add_origin_block_keys [OF step] obtain key logical where
    "block_key tr block = Inr key" "block_logical_identity tr block = Inr logical" by blast
  with step show ?thesis
    by (rule add_origin_block_cases) (simp_all add: grows_def entry_grows_def merge_origin_block_grows [unfolded grows_def entry_grows_def])
qed

lemma add_origin_block_shows:
  assumes step: "add_origin_block tr m initialize target origin st block = Inr st'" "block_key tr block = Inr key"
    "block_logical_identity tr block = Inr logical" and "origin = None \<or> \<not> tombstoned m target key logical"
  shows "shown initialize origin key st'"
  using step by (rule add_origin_block_cases) (use assms(4) merge_origin_block_shows in auto)

lemma add_origin_grows: "add_origin tr m initialize pointer_map target st (origin, r) = Inr st' \<Longrightarrow> grows st st'"
  unfolding add_origin_def prod.case bindE_Inr_iff
  by (elim exE conjE) (rule foldE_related [where R = grows, OF _ _ grows_refl grows_trans], assumption, erule add_origin_block_grows)

lemma add_origin_shows:
  assumes "add_origin tr m initialize pointer_map target st (origin, r) = Inr st'" and "origin_blocks pointer_map target r = Inr blocks"
    and "block \<in> set blocks" "block_key tr block = Inr key" "block_logical_identity tr block = Inr logical"
    "origin = None \<or> \<not> tombstoned m target key logical"
  shows "shown initialize origin key st'"
proof -
  from assms(1,2) have "foldE (add_origin_block tr m initialize target origin) st blocks = Inr st'" by (simp add: add_origin_def)
  then have "\<exists>a b. grows st a \<and> add_origin_block tr m initialize target origin a block = Inr b \<and> grows b st'"
    by (rule foldE_visits [where R = grows, OF _ assms(3) _ grows_refl grows_trans]) (erule add_origin_block_grows)
  then obtain a b where "add_origin_block tr m initialize target origin a block = Inr b" "grows b st'" by blast
  then show ?thesis using add_origin_block_shows [OF _ assms(4-6)] shown_grows by blast
qed

lemma gather_person_shows:
  assumes "gather_person tr m initialize pointer_map target registry stats origins = Inr st" and "(origin, r) \<in> set origins"
    "origin_blocks pointer_map target r = Inr blocks" "block \<in> set blocks" "block_key tr block = Inr key"
    "block_logical_identity tr block = Inr logical" "origin = None \<or> \<not> tombstoned m target key logical"
  shows "shown initialize origin key st"
proof -
  have step: "grows a b" if "add_origin tr m initialize pointer_map target a x = Inr b" for x a b
    using that by (cases x) (simp add: add_origin_grows)
  have "\<exists>a b. grows \<lparr>pm_blocks = [], pm_master_keys = [],
       pm_registry = (case registry of None \<Rightarrow> [] | Some r \<Rightarrow> r), pm_stats = stats\<rparr> a
      \<and> add_origin tr m initialize pointer_map target a (origin, r) = Inr b \<and> grows b st"
    by (rule foldE_visits [where R = grows, OF assms(1) [unfolded gather_person_def] assms(2) _ grows_refl grows_trans]) (erule step)
  then obtain a b where
    "add_origin tr m initialize pointer_map target a (origin, r) = Inr b" "grows b st" by blast
  then show ?thesis using add_origin_shows [OF _ assms(3-7)] shown_grows by blast
qed

section \<open>What keeping decides\<close>

definition may_remove :: "ustr list \<Rightarrow> ustr list \<Rightarrow> ustr \<Rightarrow> block_entry \<Rightarrow> ustr list \<Rightarrow> bool" where
  "may_remove active master_keys key e block \<longleftrightarrow>
     absent active master_keys key e \<and> is_removable_fact (be_tag e) \<and> block_has_citation block = Inr False"

definition retained_more :: "retained \<Rightarrow> retained \<Rightarrow> bool" where
  "retained_more a b \<longleftrightarrow> set (rt_kept a) \<subseteq> set (rt_kept b) \<and> set (rt_removed a) \<subseteq> set (rt_removed b)"

lemma retained_more_refl: "retained_more a a"
  and retained_more_trans: "retained_more a b \<Longrightarrow> retained_more b c \<Longrightarrow> retained_more a c"
  by (auto simp: retained_more_def)

lemma retain_block_Inr:
  assumes "retain_block m active target st rt (key, block) = Inr rt'"
  shows "retained_more rt rt' \<and> (\<exists>e. map_of (pm_registry st) key = Some e
    \<and> ((key, block) \<in> set (rt_kept rt')
       \<or> may_remove active (pm_master_keys st) key e block
         \<and> (\<exists>x \<in> set (rt_removed rt'). rm_person x = target \<and> rm_block_hash x = key \<and> rm_tag x = be_tag e)))"
proof -
  from assms obtain e remove where e: "map_of (pm_registry st) key = Some e"
    and remove: "(if absent active (pm_master_keys st) key e \<and> is_removable_fact (be_tag e)
          then bindE (block_has_citation block) (\<lambda>cited. Inr (\<not> cited)) else Inr False) = Inr remove"
    and rt': "rt' = (if remove
          then rt\<lparr>rt_removed := rt_removed rt @ [\<lparr>rm_generation = sm_generation m + 1, rm_person = target, rm_block_hash = key,
                   rm_tag = be_tag e, rm_reason = u ''sole-origin uncited fact omitted by active snapshots''\<rparr>],
                 rt_stats := (rt_stats rt)\<lparr>ss_removed := ss_removed (rt_stats rt) @ [block_note target (be_tag e) key]\<rparr>\<rparr>
          else rt\<lparr>rt_kept := rt_kept rt @ [(key, block)],
                 rt_stats := (if absent active (pm_master_keys st) key e
                   then (rt_stats rt)\<lparr>ss_disappeared_retained := ss_disappeared_retained (rt_stats rt)
                     @ [block_note target (be_tag e) key @ u '' retained because it is protected, cited, or non-removable'']\<rparr> else rt_stats rt)\<rparr>)"
    unfolding retain_block_def prod.case by (auto simp: bindE_Inr_iff Let_def simp del: if_split split: option.splits)
  have "remove \<Longrightarrow> may_remove active (pm_master_keys st) key e block"
    using remove by (auto simp: may_remove_def bindE_Inr_iff split: if_splits)
  then show ?thesis using e by (auto simp: rt' retained_more_def)
qed

lemma retain_blocks_decide:
  assumes "foldE (retain_block m active target st) rt blocks = Inr rt'" and "(key, block) \<in> set blocks"
  shows "\<exists>e. map_of (pm_registry st) key = Some e \<and> ((key, block) \<in> set (rt_kept rt')
       \<or> may_remove active (pm_master_keys st) key e block
         \<and> (\<exists>x \<in> set (rt_removed rt'). rm_person x = target \<and> rm_block_hash x = key \<and> rm_tag x = be_tag e))"
proof -
  have step: "retained_more a b" if "retain_block m active target st a x = Inr b" for x a b
    using that by (cases x) (simp add: retain_block_Inr)
  have "\<exists>a b. retained_more rt a \<and> retain_block m active target st a (key, block) = Inr b \<and> retained_more b rt'"
    by (rule foldE_visits [where R = retained_more, OF assms _ retained_more_refl retained_more_trans]) (erule step)
  then obtain a b where
    "retain_block m active target st a (key, block) = Inr b" "retained_more b rt'" by blast
  then show ?thesis using retain_block_Inr unfolding retained_more_def by fastforce
qed

lemma retain_blocks_more: "foldE (retain_block m active target st) rt blocks = Inr rt' \<Longrightarrow> retained_more rt rt'"
proof -
  have step: "retained_more a b" if "retain_block m active target st a x = Inr b" for x a b
    using that by (cases x) (simp add: retain_block_Inr)
  show "foldE (retain_block m active target st) rt blocks = Inr rt' \<Longrightarrow> retained_more rt rt'"
    by (rule foldE_related [where R = retained_more, OF _ _ retained_more_refl retained_more_trans], assumption, erule step)
qed

section \<open>Nothing is removed without a reason\<close>

lemma append_entry_distinct: "distinct (map fst d) \<Longrightarrow> distinct (map fst (append_entry k x d))"
  by (simp add: append_entry_def distinct_update)

lemma group_people_distinct: "group_people sources specs pointer_map = Inr grouped \<Longrightarrow> distinct (map fst grouped)"
  unfolding group_people_def
  by (erule foldE_invariant) (auto simp: add_origin_record_def bindE_Inr_iff Let_def split: if_splits intro: append_entry_distinct)

lemma reconcile_person_Inr:
  assumes "reconcile_person tr m initialize pointer_map path active rc (target, origins) = Inr rc'"
  obtains st rt person where "gather_person tr m initialize pointer_map target (map_of (rc_blocks rc) target) (rc_stats rc) origins = Inr st"
    "foldE (retain_block m active target st) \<lparr>rt_kept = [], rt_removed = rc_removed rc, rt_stats = pm_stats st\<rparr> (pm_blocks st) = Inr rt"
    "individual_from_record tr \<lparr>gr_lines = person_header target # concat (map snd (rt_kept rt)),
         gr_source_file = path, gr_sequence = length (rc_people rc), gr_encoding = u ''utf-8''\<rparr> = Inr person"
    "rc' = \<lparr>rc_people = rc_people rc @ [person], rc_blocks = AList.update target (pm_registry st) (rc_blocks rc),
            rc_removed = rt_removed rt, rc_stats = rt_stats rt\<rparr>"
  using assms by (auto simp: reconcile_person_def bindE_Inr_iff)

definition reconciled_more :: "reconciliation \<Rightarrow> reconciliation \<Rightarrow> bool" where
  "reconciled_more a b \<longleftrightarrow> set (rc_people a) \<subseteq> set (rc_people b) \<and> set (rc_removed a) \<subseteq> set (rc_removed b)"

lemma reconciled_more_refl: "reconciled_more a a"
  and reconciled_more_trans: "reconciled_more a b \<Longrightarrow> reconciled_more b c \<Longrightarrow> reconciled_more a c"
  by (auto simp: reconciled_more_def)

lemma reconcile_person_more: "reconcile_person tr m initialize pointer_map path active rc x = Inr rc' \<Longrightarrow> reconciled_more rc rc'"
proof (cases x)
  case (Pair target origins)
  assume "reconcile_person tr m initialize pointer_map path active rc x = Inr rc'"
  then show ?thesis unfolding Pair
    by (rule reconcile_person_Inr) (drule retain_blocks_more, auto simp: reconciled_more_def retained_more_def)
qed

lemma reconcile_others:
  "foldE (reconcile_person tr m initialize pointer_map path active) rc xs = Inr rc' \<Longrightarrow> target \<notin> fst ` set xs \<Longrightarrow>
     map_of (rc_blocks rc') target = map_of (rc_blocks rc) target"
proof (induction xs arbitrary: rc)
  case (Cons x xs)
  obtain t origins where x: "x = (t, origins)" by (cases x)
  from Cons.prems(1) obtain a where a: "reconcile_person tr m initialize pointer_map path active rc (t, origins) = Inr a"
    "foldE (reconcile_person tr m initialize pointer_map path active) a xs = Inr rc'"
    by (auto simp: bindE_Inr_iff x)
  from a(1) Cons.prems(2) have "map_of (rc_blocks a) target = map_of (rc_blocks rc) target" by (auto simp: x elim!: reconcile_person_Inr)
  then show ?case using Cons.IH [OF a(2)] Cons.prems(2) by simp
qed simp

lemma shown_not_absent:
  "shown initialize origin key st \<Longrightarrow> map_of (pm_registry st) key = Some e \<Longrightarrow>
     (case origin of None \<Rightarrow> initialize | Some spec \<Rightarrow> snapshot_id spec \<in> set active) \<Longrightarrow> \<not> absent active master_keys key e"
  by (auto simp: shown_def absent_def list_ex_iff split: option.splits)

text \<open>One person of the result: the blocks gathered from the records of the person, with what became of each.\<close>

lemma reconcile_at:
  assumes "reconcile_person_blocks tr sources specs pointer_map m stats initialize = Inr rc"
    and "group_people sources specs pointer_map = Inr grouped" and "(target, origins) \<in> set grouped"
  obtains stats' st rt person removed where
    "gather_person tr m initialize pointer_map target (map_of (sm_blocks m) target) stats' origins = Inr st"
    "foldE (retain_block m (active_snapshot_ids m specs) target st) \<lparr>rt_kept = [], rt_removed = removed, rt_stats = pm_stats st\<rparr> (pm_blocks st) = Inr rt"
    "person \<in> set (rc_people rc)" "map_option gr_lines (in_element person) = Some (person_header target # concat (map snd (rt_kept rt)))"
    "map_of (rc_blocks rc) target = Some (pm_registry st)" "set (rt_removed rt) \<subseteq> set (rc_removed rc)"
proof -
  let ?start = "\<lparr>rc_people = [], rc_blocks = sm_blocks m, rc_removed = sm_removed m, rc_stats = stats\<rparr>"
  have "sources \<noteq> []" using assms(2,3) by (auto simp: group_people_def)
  then obtain path where fold: "foldE (reconcile_person tr m initialize pointer_map path (active_snapshot_ids m specs)) ?start
      (sort_key fst grouped) = Inr rc"
    using assms(1,2) by (auto simp: reconcile_person_blocks_def Let_def split: list.splits)
  have "(target, origins) \<in> set (sort_key fst grouped)" using assms(3) by simp
  then obtain xs ys where order: "sort_key fst grouped = xs @ (target, origins) # ys" by (metis split_list)
  have "distinct (map fst (sort_key fst grouped))"
    using group_people_distinct [OF assms(2)] by (simp add: distinct_map)
  then have others: "target \<notin> fst ` set xs" "target \<notin> fst ` set ys" by (auto simp: order)
  from fold obtain a b where ab: "foldE (reconcile_person tr m initialize pointer_map path (active_snapshot_ids m specs)) ?start xs = Inr a"
    "reconcile_person tr m initialize pointer_map path (active_snapshot_ids m specs) a (target, origins) = Inr b"
    "foldE (reconcile_person tr m initialize pointer_map path (active_snapshot_ids m specs)) b ys = Inr rc"
    by (auto simp: order foldE_append bindE_Inr_iff)
  from reconcile_others [OF ab(1) others(1)] have before: "map_of (rc_blocks a) target = map_of (sm_blocks m) target" by simp
  have after: "reconciled_more b rc"
    by (rule foldE_related [where R = reconciled_more, OF ab(3) _ reconciled_more_refl reconciled_more_trans]) (erule reconcile_person_more)
  from ab(2) show thesis
  proof (rule reconcile_person_Inr)
    fix st rt person
    assume g: "gather_person tr m initialize pointer_map target (map_of (rc_blocks a) target) (rc_stats a) origins = Inr st"
      and k: "foldE (retain_block m (active_snapshot_ids m specs) target st) \<lparr>rt_kept = [], rt_removed = rc_removed a, rt_stats = pm_stats st\<rparr> (pm_blocks st) = Inr rt"
      and p: "individual_from_record tr \<lparr>gr_lines = person_header target # concat (map snd (rt_kept rt)),
         gr_source_file = path, gr_sequence = length (rc_people a), gr_encoding = u ''utf-8''\<rparr> = Inr person"
      and b: "b = \<lparr>rc_people = rc_people a @ [person], rc_blocks = AList.update target (pm_registry st) (rc_blocks a),
            rc_removed = rt_removed rt, rc_stats = rt_stats rt\<rparr>"
    have "map_option gr_lines (in_element person) = Some (person_header target # concat (map snd (rt_kept rt)))"
      using p by (auto simp: individual_from_record_def bindE_Inr_iff)
    moreover have "map_of (rc_blocks rc) target = Some (pm_registry st)" using reconcile_others [OF ab(3) others(2)] b by simp
    ultimately show thesis using g k after b by (intro that [of "rc_stats a" st "rc_removed a" rt person]) (simp_all add: before reconciled_more_def)
  qed
qed


section \<open>Deletions are final\<close>

definition source_of_key :: "text_rules \<Rightarrow> sync_manifest \<Rightarrow> (ustr \<rightharpoonup> ustr) \<Rightarrow> ustr \<Rightarrow> (snapshot_spec option \<times> gedcom_record) list \<Rightarrow> ustr \<Rightarrow> bool" where
  "source_of_key tr m pointer_map target origins key \<longleftrightarrow> (\<exists>origin r blocks block logical. (origin, r) \<in> set origins
     \<and> origin_blocks pointer_map target r = Inr blocks \<and> block \<in> set blocks \<and> block_key tr block = Inr key
     \<and> block_logical_identity tr block = Inr logical \<and> (origin = None \<or> \<not> tombstoned m target key logical))"

lemma gather_person_sources:
  assumes "gather_person tr m initialize pointer_map target registry stats origins = Inr st" and "key \<in> fst ` set (pm_blocks st)"
  shows "source_of_key tr m pointer_map target origins key"
proof -
  let ?P = "\<lambda>st. \<forall>key \<in> fst ` set (pm_blocks st). source_of_key tr m pointer_map target origins key"
  have "?P st"
  proof (rule foldE_invariant [where P = ?P, OF assms(1) [unfolded gather_person_def]])
    fix a x b assume a: "?P a" and x: "x \<in> set origins" and step: "add_origin tr m initialize pointer_map target a x = Inr b"
    obtain origin r where xr: "x = (origin, r)" by (cases x)
    from step obtain blocks where blocks: "origin_blocks pointer_map target r = Inr blocks"
      "foldE (add_origin_block tr m initialize target origin) a blocks = Inr b" by (auto simp: add_origin_def bindE_Inr_iff xr)
    show "?P b"
    proof (rule foldE_invariant [where P = ?P, OF blocks(2) a])
      fix c block d assume c: "?P c" and block: "block \<in> set blocks" and add: "add_origin_block tr m initialize target origin c block = Inr d"
      from add_origin_block_keys [OF add] obtain key logical where k: "block_key tr block = Inr key" "block_logical_identity tr block = Inr logical" by blast
      show "?P d"
      proof (cases "origin \<noteq> None \<and> tombstoned m target key logical")
        case True
        then show ?thesis using add k c by (auto simp: add_origin_block_def Let_def bindE_Inr_iff)
      next
        case False
        then have "source_of_key tr m pointer_map target origins key"
          unfolding source_of_key_def using x [unfolded xr] blocks(1) block k
          by (intro exI [of _ origin] exI [of _ r] exI [of _ blocks] exI [of _ block] exI [of _ logical]) simp
        with add k False obtain tag where "merge_origin_block tr m initialize target origin tag key logical block c = Inr d"
          by (auto elim: add_origin_block_cases)
        then have "fst ` set (pm_blocks d) = insert key (fst ` set (pm_blocks c))" by (rule merge_origin_block_Inr)
        then show ?thesis using c \<open>source_of_key tr m pointer_map target origins key\<close> by simp
      qed
    qed
  qed simp
  then show ?thesis using assms(2) by blast
qed

text \<open>C24: A manual deletion is final: a block whose key or logical identity the user deleted for a person
  comes back from no snapshot. Whatever is kept for a person is shown by a record of the master, or by
  a snapshot's block that was not deleted.\<close>

theorem deletion_is_final:
  assumes "reconcile_person_blocks tr sources specs pointer_map m stats initialize = Inr rc"
    and "group_people sources specs pointer_map = Inr grouped" and "(target, origins) \<in> set grouped"
  shows "\<exists>person \<in> set (rc_people rc). \<exists>kept.
      map_option gr_lines (in_element person) = Some (person_header target # concat (map snd kept))
      \<and> (\<forall>(key, block) \<in> set kept. source_of_key tr m pointer_map target origins key)"
proof (rule reconcile_at [OF assms])
  fix stats' st rt person removed
  assume g: "gather_person tr m initialize pointer_map target (map_of (sm_blocks m) target) stats' origins = Inr st"
    and k: "foldE (retain_block m (active_snapshot_ids m specs) target st) \<lparr>rt_kept = [], rt_removed = removed, rt_stats = pm_stats st\<rparr> (pm_blocks st) = Inr rt"
    and p: "person \<in> set (rc_people rc)" "map_option gr_lines (in_element person) = Some (person_header target # concat (map snd (rt_kept rt)))"
  have "set (rt_kept rt) \<subseteq> set (pm_blocks st)"
  proof (rule foldE_invariant [where P = "\<lambda>rt. set (rt_kept rt) \<subseteq> set (pm_blocks st)", OF k])
    fix a x b assume "set (rt_kept a) \<subseteq> set (pm_blocks st)" "x \<in> set (pm_blocks st)"
      "retain_block m (active_snapshot_ids m specs) target st a x = Inr b"
    then show "set (rt_kept b) \<subseteq> set (pm_blocks st)"
      by (cases x) (auto simp: retain_block_def bindE_Inr_iff Let_def split: option.splits if_splits)
  qed simp
  then have "\<forall>(key, block) \<in> set (rt_kept rt). source_of_key tr m pointer_map target origins key"
    using gather_person_sources [OF g] by force
  then show ?thesis using p by blast
qed

section \<open>A small reconciliation\<close>

text \<open>The master shows a birth and a residence, the snapshot the birth and an occupation that the user once deleted.\<close>

definition two_sources :: "sync_source list" where
  "two_sources =
     [\<lparr>so_path = u ''master'', so_records = [text_record [''0 @I1@ INDI'', ''1 BIRT'', ''2 DATE 1900'', ''1 RESI Oslo''] ''master''], so_pointer_items = []\<rparr>,
      \<lparr>so_path = u ''site'', so_records = [text_record [''0 @X@ INDI'', ''1 BIRT'', ''2 DATE 1900'', ''1 OCCU smith''] ''site''], so_pointer_items = []\<rparr>]"

definition two_manifest :: sync_manifest where
  "two_manifest = \<lparr>sm_tree_id = [], sm_generation = 1, sm_active = [], sm_blocks = [],
     sm_tombstones = [\<lparr>tb_person = u ''@I1@'', tb_block_hash = [], tb_logical = Some (u ''0 OCCU'')\<rparr>], sm_removed = []\<rparr>"

definition two_map :: "ustr \<rightharpoonup> ustr" where
  "two_map = map_of [(u ''@I1@'', u ''@I1@''), (u ''@X@'', u ''@I1@'')]"

definition two_origins :: "(snapshot_spec option \<times> gedcom_record) list" where
  "two_origins = [(None, text_record [''0 @I1@ INDI'', ''1 BIRT'', ''2 DATE 1900'', ''1 RESI Oslo''] ''master''),
     (Some small_spec, text_record [''0 @X@ INDI'', ''1 BIRT'', ''2 DATE 1900'', ''1 OCCU smith''] ''site'')]"

lemma two_grouped: "group_people two_sources [small_spec] two_map = Inr [(u ''@I1@'', two_origins)]"
  by code_simp

definition master_lines :: "reconciliation \<Rightarrow> ustr list list" where
  "master_lines rc = map (\<lambda>p. case in_element p of None \<Rightarrow> [] | Some r \<Rightarrow> gr_lines r) (rc_people rc)"

lemma two_reconciled:
  obtains rc where "reconcile_person_blocks plain_rules two_sources [small_spec] two_map two_manifest no_stats False = Inr rc"
    "master_lines rc = [map u [''0 @I1@ INDI'', ''1 BIRT'', ''2 DATE 1900'']]"
    "map rm_block_hash (rc_removed rc) = [u ''0 RESI Oslo'']"
proof -
  have "case reconcile_person_blocks plain_rules two_sources [small_spec] two_map two_manifest no_stats False of Inl e \<Rightarrow> False
      | Inr rc \<Rightarrow> master_lines rc = [map u [''0 @I1@ INDI'', ''1 BIRT'', ''2 DATE 1900'']]
          \<and> map rm_block_hash (rc_removed rc) = [u ''0 RESI Oslo'']"
    by code_simp
  then show thesis using that by (auto split: sum.splits)
qed

lemma two_blocks:
  "origin_blocks two_map (u ''@I1@'') (text_record [''0 @I1@ INDI'', ''1 BIRT'', ''2 DATE 1900'', ''1 RESI Oslo''] ''master'')
     = Inr [map u [''1 BIRT'', ''2 DATE 1900''], [u ''1 RESI Oslo'']]"
  "block_key plain_rules [u ''1 RESI Oslo''] = Inr (u ''0 RESI Oslo'')"
  "block_logical_identity plain_rules [u ''1 RESI Oslo''] = Inr (u ''0 RESI'')"
  by code_simp+


lemma deletion_is_final_witness:
  "\<exists>rc person kept. reconcile_person_blocks plain_rules two_sources [small_spec] two_map two_manifest no_stats False = Inr rc
     \<and> \<not> list_ex (\<lambda>lines. u ''1 OCCU smith'' \<in> set lines) (master_lines rc) \<and> person \<in> set (rc_people rc)
     \<and> map_option gr_lines (in_element person) = Some (person_header (u ''@I1@'') # concat (map snd kept))
     \<and> (\<forall>(key, block) \<in> set kept. source_of_key plain_rules two_manifest two_map (u ''@I1@'') two_origins key)"
proof (rule two_reconciled)
  fix rc assume rc: "reconcile_person_blocks plain_rules two_sources [small_spec] two_map two_manifest no_stats False = Inr rc"
    "master_lines rc = [map u [''0 @I1@ INDI'', ''1 BIRT'', ''2 DATE 1900'']]"
  have no: "\<not> list_ex (\<lambda>lines. u ''1 OCCU smith'' \<in> set lines) (master_lines rc)" unfolding rc(2) by simp
  have "(u ''@I1@'', two_origins) \<in> set [(u ''@I1@'', two_origins)]" by simp
  from deletion_is_final [OF rc(1) two_grouped this] rc(1) no show ?thesis by blast
qed

end
