(* ===== verification/Sync_Citations.thy ===== *)
theory Sync_Citations
  imports Sync_Records "HOL-Library.Sublist"
begin

text \<open>
  What the merging of citations keeps: the lines of the left citation stay, in order, and every line
  of the result comes from one of the two; and what it loses, the continuation of a value of the
  right citation.
\<close>

section \<open>Blocks of a structure\<close>

definition level_of :: "ustr \<Rightarrow> nat option" where
  "level_of line = (case parse0 line of Inl e \<Rightarrow> None | Inr p \<Rightarrow> Some (gl_level p))"

definition block_at :: "nat \<Rightarrow> ustr list \<Rightarrow> bool" where
  "block_at c b \<longleftrightarrow> b \<noteq> [] \<and> level_of (hd b) = Some c \<and> (\<forall>l \<in> set (tl b). level_of l \<noteq> None \<and> level_of l \<noteq> Some c)"

lemma level_of_parse: "level_of line = Some n \<longleftrightarrow> (\<exists>p. parse_gedcom_line 0 line = Inr p \<and> gl_level p = n)"
  by (auto simp: level_of_def parse0_def split: sum.splits)

lemma level_of_None: "level_of line = None \<longleftrightarrow> (\<exists>e. parse_gedcom_line 0 line = Inl e)"
  by (auto simp: level_of_def parse0_def split: sum.splits)

lemma split_blocks_deeper:
  "\<forall>l \<in> set ls. level_of l \<noteq> None \<and> level_of l \<noteq> Some c \<Longrightarrow> cur \<noteq> [] \<Longrightarrow>
     split_blocks c bs cur (ls @ rest) = split_blocks c bs (cur @ ls) rest"
proof (induction ls arbitrary: cur)
  case (Cons l ls)
  then obtain p where "parse_gedcom_line 0 l = Inr p" "gl_level p \<noteq> c" by (auto simp: level_of_parse)
  then show ?case using Cons by simp
qed simp

lemma split_blocks_concat:
  "\<forall>b \<in> set blks. block_at c b \<Longrightarrow> split_blocks c bs cur (concat blks) = Inr (bs @ (if cur = [] then [] else [cur]) @ blks)"
proof (induction blks arbitrary: bs cur)
  case (Cons b blks)
  then obtain l ls where b: "b = l # ls" "level_of l = Some c" "\<forall>x \<in> set ls. level_of x \<noteq> None \<and> level_of x \<noteq> Some c"
    by (cases b) (auto simp: block_at_def)
  then obtain p where "parse_gedcom_line 0 l = Inr p" "gl_level p = c" by (auto simp: level_of_parse)
  then show ?case using Cons split_blocks_deeper [OF b(3), of "[l]"] by (simp add: b(1))
qed simp

lemma split_blocks_result:
  "split_blocks c bs cur ls = Inr blks \<Longrightarrow> \<forall>b \<in> set bs. block_at c b \<Longrightarrow> cur = [] \<or> block_at c cur \<Longrightarrow>
     (\<forall>b \<in> set blks. block_at c b) \<and> set (concat blks) \<subseteq> set (concat bs) \<union> set cur \<union> set ls"
proof (induction c bs cur ls arbitrary: blks rule: split_blocks.induct)
  case (2 c bs cur l ls)
  then obtain p where p: "parse_gedcom_line 0 l = Inr p" by (auto simp: bindE_Inr_iff)
  show ?case
  proof (cases "gl_level p = c")
    case True
    let ?bs = "if cur = [] then bs else bs @ [cur]"
    have "block_at c [l]" using p True by (auto simp: block_at_def level_of_parse)
    moreover have "split_blocks c ?bs [l] ls = Inr blks" using 2(4) p True by simp
    moreover have "\<forall>b \<in> set ?bs. block_at c b" using 2(5,6) by auto
    ultimately have "(\<forall>b \<in> set blks. block_at c b) \<and> set (concat blks) \<subseteq> set (concat ?bs) \<union> set [l] \<union> set ls"
      using 2(1) [OF p True] by blast
    then show ?thesis by (cases "cur = []") auto
  next
    case False
    show ?thesis
    proof (cases "cur = []")
      case True
      then have "split_blocks c bs cur ls = Inr blks" using 2(4) p False by simp
      then have "(\<forall>b \<in> set blks. block_at c b) \<and> set (concat blks) \<subseteq> set (concat bs) \<union> set cur \<union> set ls"
        using 2(3) [OF p False _ _ 2(5)] True by blast
      then show ?thesis by auto
    next
      case cur: False
      have "block_at c (cur @ [l])" using p False cur 2(6) by (auto simp: block_at_def level_of_parse level_of_None)
      moreover have "split_blocks c bs (cur @ [l]) ls = Inr blks" using 2(4) p False cur by simp
      ultimately have "(\<forall>b \<in> set blks. block_at c b) \<and> set (concat blks) \<subseteq> set (concat bs) \<union> set (cur @ [l]) \<union> set ls"
        using 2(2) [OF p False cur _ 2(5)] by blast
      then show ?thesis by auto
    qed
  qed
qed auto

lemma direct_blocks_result:
  assumes "direct_blocks lines = Inr blks" and "level_of (hd lines) = Some n"
  shows "(\<forall>b \<in> set blks. block_at (n + 1) b) \<and> set (concat blks) \<subseteq> set (tl lines)"
  using assms split_blocks_result [of "n + 1" "[]" "[]" "tl lines" blks]
  by (auto simp: direct_blocks_def bindE_Inr_iff level_of_parse parse0_def split: if_splits)

text \<open>A structure is its first line followed by its blocks, with no line between.\<close>

definition structured :: "nat \<Rightarrow> ustr list \<Rightarrow> bool" where
  "structured n lines \<longleftrightarrow> (\<exists>root blks. lines = root # concat blks \<and> level_of root = Some n \<and> (\<forall>b \<in> set blks. block_at (n + 1) b))"

lemma direct_blocks_structured:
  assumes "level_of root = Some n" and "\<forall>b \<in> set blks. block_at (n + 1) b"
  shows "direct_blocks (root # concat blks) = Inr blks"
proof (cases "concat blks = []")
  case True
  then have "blks = []" using assms(2) by (cases blks) (auto simp: block_at_def)
  then show ?thesis by (simp add: direct_blocks_def)
next
  case False
  then have "\<not> length (root # concat blks) < 2" by (cases "concat blks") auto
  then show ?thesis using assms split_blocks_concat [OF assms(2), of "[]" "[]"]
    by (auto simp: direct_blocks_def level_of_parse parse0_def)
qed

section \<open>Merging\<close>

lemma compatible_children_appends:
  "compatible_children tr result existing seen children = Inr (Some merged) \<Longrightarrow>
     \<exists>extra. merged = result @ extra \<and> set extra \<subseteq> set (concat children)"
proof (induction tr result existing seen children rule: compatible_children.induct)
  case (2 tr result existing seen child children)
  from 2(4) obtain key where key: "structure_key tr child = Inr key" by (auto simp: bindE_Inr_iff)
  show ?case
  proof (cases "key \<in> set seen")
    case True
    then show ?thesis using 2(1) [OF key True] 2(4) key by auto
  next
    case False
    with 2(4) key obtain p firsts where p: "first_line child = Inr p" "mapE first_line existing = Inr firsts"
      by (auto simp: bindE_Inr_iff)
    let ?same = "map fst (filter (\<lambda>(e, q). gl_tag q = gl_tag p) (zip existing firsts))"
    show ?thesis
    proof (cases "gl_tag p = u ''DATE'' \<and> ?same \<noteq> []")
      case True
      with 2(4) key False p obtain keys where keys: "mapE (structure_key tr) ?same = Inr keys" "\<not> list_ex (\<lambda>k. k \<noteq> key) keys"
        "compatible_children tr result existing seen children = Inr (Some merged)"
        by (auto simp: bindE_Inr_iff Let_def split: if_splits)
      with 2(2) [OF key False p refl True keys(1)] show ?thesis by auto
    next
      case False': False
      from 2(4) have "compatible_children tr (result @ child) (existing @ [child]) (seen @ [key]) children = Inr (Some merged)"
        unfolding compatible_children.simps key p bindE.simps Let_def if_not_P [OF False] if_not_P [OF False'] .
      with 2(3) [OF key False p refl False'] obtain extra where "merged = (result @ child) @ extra" "set extra \<subseteq> set (concat children)" by blast
      then show ?thesis by (intro exI [of _ "child @ extra"]) auto
    qed
  qed
qed auto

lemma merge_compatible_appends:
  assumes "merge_compatible_structure tr left right = Inr (Some merged)" and "level_of (hd right) = Some n"
  shows "\<exists>extra. merged = left @ extra \<and> set extra \<subseteq> set (tl right)"
proof -
  from assms(1) obtain existing seen children where c: "direct_blocks right = Inr children"
    "compatible_children tr left existing seen children = Inr (Some merged)"
    by (auto simp: merge_compatible_structure_def bindE_Inr_iff split: if_splits)
  from compatible_children_appends [OF c(2)] direct_blocks_result [OF c(1) assms(2)] show ?thesis by blast
qed

lemma find_slot_Some:
  "find_slot tr child c i blocks = Inr (Some (Some (j, merged))) \<Longrightarrow> block_at n child \<Longrightarrow>
     \<exists>k. j = i + k \<and> k < length blocks \<and> (\<exists>extra. merged = blocks ! k @ extra \<and> set extra \<subseteq> set (tl child))"
proof (induction tr child c i blocks rule: find_slot.induct)
  case (2 tr child c i block blocks)
  from 2(2) obtain p where p: "first_line block = Inr p" by (auto simp: bindE_Inr_iff)
  show ?case
  proof (cases "gl_tag p = gl_tag c")
    case False
    then have "find_slot tr child c (i + 1) blocks = Inr (Some (Some (j, merged)))" using 2(2) p by simp
    from 2(1) [OF p False this 2(3)] obtain k where "j = i + 1 + k" "k < length blocks"
      "\<exists>extra. merged = blocks ! k @ extra \<and> set extra \<subseteq> set (tl child)" by blast
    then show ?thesis by (intro exI [of _ "Suc k"]) auto
  next
    case True
    have "level_of (hd child) = Some n" using 2(3) by (simp add: block_at_def)
    then have "j = i \<and> (\<exists>extra. merged = block @ extra \<and> set extra \<subseteq> set (tl child))"
      using 2(2) p True by (auto simp: bindE_Inr_iff split: if_splits option.splits dest: merge_compatible_appends)
    then show ?thesis by (intro exI [of _ 0]) simp
  qed
qed simp

text \<open>What a merge leaves of the structure it started from: all of its lines, and lines of the children.\<close>

definition extends :: "nat \<Rightarrow> ustr set \<Rightarrow> ustr list \<Rightarrow> ustr list \<Rightarrow> bool" where
  "extends n lines a b \<longleftrightarrow> structured n b \<and> hd b = hd a \<and> subseq a b \<and> set b \<subseteq> set a \<union> lines"

lemma extends_refl: "structured n a \<Longrightarrow> extends n lines a a"
  by (simp add: extends_def)

lemma extends_trans: "extends n lines a b \<Longrightarrow> extends n lines b c \<Longrightarrow> extends n lines a c"
  by (auto simp: extends_def intro: subseq_order.trans)

lemma subseq_concat_update:
  "i < length blks \<Longrightarrow> subseq (concat blks) (concat (blks[i := blks ! i @ extra]))"
proof (induction blks arbitrary: i)
  case (Cons b blks)
  then show ?case by (cases i) (auto intro: list_emb_append_mono)
qed simp

lemma block_at_append: "block_at c b \<Longrightarrow> \<forall>l \<in> set extra. level_of l \<noteq> None \<and> level_of l \<noteq> Some c \<Longrightarrow> block_at c (b @ extra)"
  by (cases b) (auto simp: block_at_def)

lemma merge_child_extends:
  assumes "merge_child tr (result, seen) child = Inr (Some (result', seen'))" and "structured n result" and child: "block_at (n + 1) child"
  shows "extends n (set child) result result'"
proof -
  from assms(2) obtain root blks where r: "result = root # concat blks" "level_of root = Some n" "\<forall>b \<in> set blks. block_at (n + 1) b"
    by (auto simp: structured_def)
  have blocks: "direct_blocks result = Inr blks" unfolding r(1) by (rule direct_blocks_structured [OF r(2,3)])
  consider (same) "result' = result" | (add) "result' = result @ child"
    | (slot) c i merged where "find_slot tr child c 0 blks = Inr (Some (Some (i, merged)))" "result' = hd result # concat (blks[i := merged])"
  proof -
    from assms(1) obtain key where key: "structure_key tr child = Inr key" by (auto simp: merge_child_def bindE_Inr_iff)
    show thesis
    proof (cases "key \<in> set seen")
      case True
      then show ?thesis using assms(1) key same by (simp add: merge_child_def)
    next
      case False
      with assms(1) key obtain c where c: "first_line child = Inr c" by (auto simp: merge_child_def bindE_Inr_iff)
      show ?thesis
      proof (cases "gl_tag c \<in> set singleton_tags")
        case True
        with assms(1) key False c blocks obtain r where r: "find_slot tr child c 0 blks = Inr r"
          "(case r of None \<Rightarrow> Inr None | Some None \<Rightarrow> Inr (Some (result @ child, seen @ [key]))
            | Some (Some (i, merged)) \<Rightarrow> bindE (structure_key tr merged) (\<lambda>k.
             Inr (Some (hd result # concat (blks[i := merged]), seen @ [k])))) = Inr (Some (result', seen'))"
          unfolding merge_child_def by (auto simp: bindE_Inr_iff)
        then show ?thesis using add slot by (auto simp: bindE_Inr_iff split: option.splits)
      next
        case False': False
        then show ?thesis using assms(1) key False c add by (simp add: merge_child_def)
      qed
    qed
  qed
  then show ?thesis
  proof cases
    case same
    then show ?thesis using assms(2) by (simp add: extends_refl)
  next
    case add
    have "structured n result'" unfolding add structured_def using r child
      by (intro exI [of _ root] exI [of _ "blks @ [child]"]) auto
    then show ?thesis by (auto simp: extends_def add r(1))
  next
    case slot
    from find_slot_Some [OF slot(1) child] obtain extra where m: "i < length blks" "merged = blks ! i @ extra" "set extra \<subseteq> set (tl child)" by auto
    have "block_at (n + 1) merged" unfolding m(2)
      by (rule block_at_append) (use m r(3) child in \<open>auto simp: block_at_def\<close>)
    then have "\<forall>b \<in> set (blks[i := merged]). block_at (n + 1) b"
      using r(3) set_update_subset_insert [of blks i merged] by auto
    then have "structured n result'" using r(2) by (auto simp: structured_def slot(2) r(1))
    moreover have "subseq result result'" unfolding slot(2) r(1) m(2) using subseq_concat_update [OF m(1)] by simp
    moreover have "set result' \<subseteq> set result \<union> set child"
    proof -
      have "set (concat (blks[i := merged])) \<subseteq> set (concat blks) \<union> set merged"
        using set_update_subset_insert [of blks i merged] by auto
      moreover have "set merged \<subseteq> set (concat blks) \<union> set child"
      proof -
        have "set (blks ! i) \<subseteq> set (concat blks)" using nth_mem [OF m(1)] by auto
        moreover have "set extra \<subseteq> set child" using m(3) by (cases child) auto
        ultimately show ?thesis unfolding m(2) by auto
      qed
      ultimately show ?thesis by (auto simp: slot(2) r(1))
    qed
    ultimately show ?thesis by (simp add: extends_def slot(2) r(1))
  qed
qed

lemma merge_children_extends:
  "merge_children tr (result, seen) children = Inr (Some result') \<Longrightarrow> structured n result \<Longrightarrow> \<forall>b \<in> set children. block_at (n + 1) b \<Longrightarrow>
     extends n (set (concat children)) result result'"
proof (induction children arbitrary: result seen)
  case (Cons child children)
  from Cons.prems(1) obtain a s where a: "merge_child tr (result, seen) child = Inr (Some (a, s))"
    "merge_children tr (a, s) children = Inr (Some result')"
    by (auto simp: bindE_Inr_iff split: option.splits)
  from merge_child_extends [OF a(1) Cons.prems(2)] Cons.prems(3) have 1: "extends n (set child) result a" by simp
  with Cons.IH [OF a(2)] Cons.prems(3) have 2: "extends n (set (concat children)) a result'" by (simp add: extends_def)
  show ?case using 1 2 by (auto simp: extends_def intro: subseq_order.trans)
qed (auto simp: extends_refl)

text \<open>C34: Merging two citations of one level keeps every line of the left one, in order and below the same
  first line, and adds only lines of the right one below its first.\<close>

theorem citation_merge_keeps_left:
  assumes "merge_citations tr left right = Inr (Some merged)" and "structured n left" and "level_of (hd right) = Some n"
  shows "hd merged = hd left \<and> subseq left merged \<and> set merged \<subseteq> set left \<union> set (tl right) \<and> structured n merged"
proof -
  from assms(1) obtain seen children where c: "direct_blocks right = Inr children" "merge_children tr (left, seen) children = Inr (Some merged)"
    by (auto simp: merge_citations_def bindE_Inr_iff split: if_splits)
  note children = direct_blocks_result [OF c(1) assms(3)]
  then have "extends n (set (concat children)) left merged" using merge_children_extends [OF c(2) assms(2)] by simp
  then show ?thesis using children unfolding extends_def by blast
qed

lemma citation_merge_keeps_left_witness:
  "let left = map u [''2 SOUR @S1@'', ''3 PAGE 7'']; right = map u [''2 SOUR @S1@'', ''3 PAGE 7'', ''3 NOTE seen''];
       rules = \<lparr>tr_nfc = id, tr_casefold = id, tr_upper = id, tr_word = is_alpha, tr_calendar = (\<lambda>_. None), tr_sha256 = id\<rparr> in
   \<exists>merged. merge_citations rules left right = Inr (Some merged) \<and> subseq left merged \<and> u ''3 NOTE seen'' \<in> set merged"
proof -
  let ?left = "map u [''2 SOUR @S1@'', ''3 PAGE 7'']"
  let ?right = "map u [''2 SOUR @S1@'', ''3 PAGE 7'', ''3 NOTE seen'']"
  let ?rules = "\<lparr>tr_nfc = id, tr_casefold = id, tr_upper = id, tr_word = is_alpha, tr_calendar = (\<lambda>_. None), tr_sha256 = id\<rparr>"
  have merged: "merge_citations ?rules ?left ?right = Inr (Some ?right)" by code_simp
  have levels: "level_of (hd ?right) = Some 2" "level_of (u ''2 SOUR @S1@'') = Some 2" "level_of (u ''3 PAGE 7'') = Some 3" by code_simp+
  then have "structured 2 ?left" unfolding structured_def
    by (intro exI [of _ "u ''2 SOUR @S1@''"] exI [of _ "[[u ''3 PAGE 7'']]"]) (simp add: block_at_def)
  from citation_merge_keeps_left [OF merged this levels(1)] merged show ?thesis unfolding Let_def by fastforce
qed

text \<open>Merging two citations can lose text: the pages of the two below read differently, the second one
  through a continuation line, and the merge is the first citation alone.\<close>

theorem citation_merge_drops_continuation:
  "\<exists>left right :: ustr list. \<exists>rules. merge_citations rules left right = Inr (Some left)
     \<and> relative_lines rules left = Inr (map u [''0 SOUR @S1@'', ''1 PAGE 12''])
     \<and> relative_lines rules right = Inr (map u [''0 SOUR @S1@'', ''1 PAGE 123''])"
proof -
  let ?left = "map u [''2 SOUR @S1@'', ''3 PAGE 12'']"
  let ?right = "map u [''2 SOUR @S1@'', ''3 PAGE 12'', ''4 CONC 3'']"
  let ?rules = "\<lparr>tr_nfc = id, tr_casefold = id, tr_upper = id, tr_word = is_alpha, tr_calendar = (\<lambda>_. None), tr_sha256 = id\<rparr>"
  have "merge_citations ?rules ?left ?right = Inr (Some ?left)"
    and "relative_lines ?rules ?left = Inr (map u [''0 SOUR @S1@'', ''1 PAGE 12''])"
    and "relative_lines ?rules ?right = Inr (map u [''0 SOUR @S1@'', ''1 PAGE 123''])" by code_simp+
  then show ?thesis by blast
qed

end
