(* ===== verification/Sync_Sources.thy ===== *)
theory Sync_Sources
  imports Sync_Match
begin

text \<open>
  \<open>_map_nonpeople\<close> of \<open>gedcom/sync_algorithms.py\<close>: the level-zero records other than people are
  consolidated by their semantic keys, and every pointer of theirs is mapped.
\<close>

section \<open>State\<close>

record nonpeople_state =
  np_map :: "ustr \<rightharpoonup> ustr"
  np_pool :: pointer_pool
  np_representatives :: "ustr \<times> ustr \<rightharpoonup> ustr"
  np_records :: "ustr \<rightharpoonup> gedcom_record"
  np_order :: "ustr list"
  np_stats :: sync_stats

definition ordered_tags :: "ustr list" where
  "ordered_tags = map u [''REPO'', ''NOTE'', ''OBJE'', ''SOUR'', ''FAM'']"

definition other_tags :: "ustr list" where
  "other_tags = map u [''HEAD'', ''TRLR'', ''INDI'', ''SUBM'']"

definition set_default :: "('k \<rightharpoonup> 'v) \<Rightarrow> 'k \<Rightarrow> 'v \<Rightarrow> ('k \<rightharpoonup> 'v)" where
  "set_default m k v = (if m k = None then m(k \<mapsto> v) else m)"

text \<open>The tagged records without the header, the trailer, the people and the submitters.\<close>

definition nonpeople :: "gedcom_record list \<Rightarrow> gedcom_error + (ustr \<times> gedcom_record) list" where
  "nonpeople records = bindE (mapE (\<lambda>r. bindE (record_tag r) (\<lambda>tag. Inr (tag, r))) records) (\<lambda>tagged.
     Inr (filter (\<lambda>(tag, r). tag \<notin> set other_tags) tagged))"

section \<open>One record\<close>

text \<open>The target of a record: the representative of its key, its own pointer in the master, a new one otherwise.\<close>

definition choose_representative :: "bool \<Rightarrow> ustr \<Rightarrow> ustr \<Rightarrow> ustr \<Rightarrow> nonpeople_state \<Rightarrow> ustr \<times> nonpeople_state" where
  "choose_representative is_master tag key pointer st =
     (case (case np_representatives st (tag, key) of Some t \<Rightarrow> if t = [] then None else Some t | None \<Rightarrow> None) of
        Some target \<Rightarrow> (target, if pointer = target then st
          else (let stats = np_stats st in st\<lparr>np_stats := stats\<lparr>ss_record_aliases := AList.update pointer target (ss_record_aliases stats),
             ss_source_records_consolidated := (if tag = u ''SOUR'' then ss_source_records_consolidated stats @ [pointer @ u '' -> '' @ target]
               else ss_source_records_consolidated stats)\<rparr>\<rparr>))
      | None \<Rightarrow>
          (let (pool, target) = (if is_master then (np_pool st, pointer) else next_pointer (np_pool st) tag) in
           (target, st\<lparr>np_pool := pool, np_representatives := (np_representatives st)((tag, key) \<mapsto> target),
                       np_order := np_order st @ [target]\<rparr>)))"

definition store_record :: "text_rules \<Rightarrow> ustr \<Rightarrow> ustr \<Rightarrow> gedcom_record \<Rightarrow> nonpeople_state \<Rightarrow> gedcom_error + nonpeople_state" where
  "store_record tr tag target synthetic st = (case np_records st target of
       None \<Rightarrow> Inr (st\<lparr>np_records := (np_records st)(target \<mapsto> synthetic)\<rparr>)
     | Some old \<Rightarrow> if tag = u ''FAM''
         then bindE (merge_family_records tr old synthetic target (np_stats st)) (\<lambda>(merged, stats).
           Inr (st\<lparr>np_records := (np_records st)(target \<mapsto> merged), np_stats := stats\<rparr>))
         else Inr st)"

definition map_record :: "text_rules \<Rightarrow> ustr \<Rightarrow> nonpeople_state \<Rightarrow> ustr \<times> gedcom_record \<Rightarrow> gedcom_error + nonpeople_state" where
  "map_record tr master_path st0 = (\<lambda>(tag, r). bindE (record_pointer r) (\<lambda>pointer.
     let is_master = (gr_source_file r = master_path);
         st = (if is_master then st0\<lparr>np_map := set_default (np_map st0) pointer pointer\<rparr> else st0) in
     bindE (if tag = u ''FAM'' then family_semantic_key tr r (np_map st) else record_semantic_key tr r (np_map st)) (\<lambda>key.
     let (target, st1) = choose_representative is_master tag key pointer st;
         st2 = st1\<lparr>np_map := (np_map st1)(pointer \<mapsto> target)\<rparr> in
     bindE (rewrite_lines (gr_lines r) (np_map st2)) (\<lambda>rewritten.
     bindE (replace_header_pointer rewritten target) (\<lambda>lines.
     store_record tr tag target (made_record lines r) st2)))))"

text \<open>A record of any other tag keeps its place under its own pointer, or under a number.\<close>

definition map_other_record :: "ustr \<Rightarrow> nonpeople_state \<Rightarrow> ustr \<times> gedcom_record \<Rightarrow> gedcom_error + nonpeople_state" where
  "map_other_record master_path st0 = (\<lambda>(tag, r). bindE (record_pointer r) (\<lambda>pointer.
     let st = (if pointer = [] then st0
           else if gr_source_file r = master_path then st0\<lparr>np_map := set_default (np_map st0) pointer pointer\<rparr>
           else (let (pool, fresh) = next_pointer (np_pool st0) tag in
             st0\<lparr>np_pool := pool, np_map := set_default (np_map st0) pointer fresh\<rparr>));
         key = (if pointer \<noteq> [] then pointer else u ''anonymous:'' @ dec_nat (length (np_order st))) in
     bindE (rewrite_lines (gr_lines r) (np_map st)) (\<lambda>rewritten.
     bindE (if pointer = [] then Inr rewritten else replace_header_pointer rewritten (the (np_map st pointer))) (\<lambda>lines.
       Inr (st\<lparr>np_records := (np_records st)(key \<mapsto> made_record lines r), np_order := np_order st @ [key]\<rparr>)))))"

section \<open>All records\<close>

definition ordered_work :: "(ustr \<times> gedcom_record) list \<Rightarrow> (ustr \<times> gedcom_record) list" where
  "ordered_work tagged = concat (map (\<lambda>tag. filter (\<lambda>(t, r). t = tag) tagged) ordered_tags)"

definition canonical_record :: "nonpeople_state \<Rightarrow> ustr \<Rightarrow> gedcom_error + gedcom_record" where
  "canonical_record st key = (case np_records st key of None \<Rightarrow> Inl (KeyMissing key)
     | Some r \<Rightarrow> bindE (rewrite_lines (gr_lines r) (np_map st)) (\<lambda>lines. Inr (made_record lines r)))"

definition all_nonpeople :: "text_rules \<Rightarrow> sync_source list \<Rightarrow> (ustr \<rightharpoonup> ustr) \<Rightarrow> gedcom_error + (ustr \<times> gedcom_record) list" where
  "all_nonpeople tr sources pointer_map = (case sources of
       [] \<Rightarrow> Inl IndexOutOfRange
     | master # snapshots \<Rightarrow>
        bindE (nonpeople (so_records master)) (\<lambda>master_records.
        bindE (nonpeople (concat (map so_records snapshots))) (\<lambda>incoming.
        bindE (mapE (\<lambda>(tag, r). record_allocation_key tr r pointer_map) incoming) (\<lambda>keys.
          Inr (master_records @ map snd (sort_key fst (zip keys incoming)))))))"

definition map_nonpeople :: "text_rules \<Rightarrow> sync_source list \<Rightarrow> (ustr \<rightharpoonup> ustr) \<Rightarrow> (ustr \<times> int) list \<Rightarrow> sync_stats
    \<Rightarrow> gedcom_error + nonpeople_state \<times> gedcom_record list" where
  "map_nonpeople tr sources pointer_map next_ids stats =
     bindE (declared_pointers sources) (\<lambda>used.
     bindE (all_nonpeople tr sources pointer_map) (\<lambda>tagged.
     let path = so_path (hd sources) in
     bindE (foldE (map_record tr path) \<lparr>np_map = pointer_map, np_pool = \<lparr>pp_used = used, pp_counters = next_ids\<rparr>,
         np_representatives = Map.empty, np_records = Map.empty, np_order = [], np_stats = stats\<rparr> (ordered_work tagged)) (\<lambda>st.
     bindE (foldE (map_other_record path) st (filter (\<lambda>(tag, r). tag \<notin> set ordered_tags) tagged)) (\<lambda>st'.
     bindE (mapE (canonical_record st') (np_order st')) (\<lambda>records. Inr (st', records))))))"

section \<open>No record is dropped\<close>

definition headed :: "ustr \<Rightarrow> gedcom_record \<Rightarrow> bool" where
  "headed pointer r \<longleftrightarrow> gr_lines r \<noteq> [] \<and> (\<exists>rest. hd (gr_lines r) = u ''0 '' @ pointer @ u '' '' @ rest)"

lemma headed_replaced: "replace_header_pointer ls pointer = Inr lines \<Longrightarrow> headed pointer (made_record lines r)"
  by (auto simp: replace_header_pointer_def bindE_Inr_iff headed_def made_record_def)

lemma headed_family: "merge_family_records tr left right pointer stats = Inr (merged, stats') \<Longrightarrow> headed pointer merged"
  unfolding merge_family_records_def bindE_Inr_iff
  by (auto simp: headed_def made_record_def u_def intro: exI [of _ "u ''FAM''"])

text \<open>A target is the pointer of a master record, or one no source declares; \<open>M\<close> are the pointers of the
  master's records, \<open>D\<close> the declared ones.\<close>

definition ok_target :: "ustr set \<Rightarrow> ustr list \<Rightarrow> ustr \<Rightarrow> bool" where
  "ok_target M D t \<longleftrightarrow> t = [] \<or> hd t = 64 \<and> (t \<in> M \<or> t \<notin> set D)"

definition consolidated :: "ustr set \<Rightarrow> ustr list \<Rightarrow> nonpeople_state \<Rightarrow> bool" where
  "consolidated M D st \<longleftrightarrow> set D \<subseteq> set (pp_used (np_pool st)) \<and> (\<forall>k r. np_records st k = Some r \<longrightarrow> headed k r)
     \<and> (\<forall>key t. np_representatives st key = Some t \<longrightarrow> ok_target M D t \<and> t \<in> set (np_order st) \<and> np_records st t \<noteq> None)"

definition keeps_records :: "nonpeople_state \<Rightarrow> nonpeople_state \<Rightarrow> bool" where
  "keeps_records st st' \<longleftrightarrow> set (np_order st) \<subseteq> set (np_order st') \<and> dom (np_records st) \<subseteq> dom (np_records st')"

lemma store_record_Inr:
  assumes "store_record tr tag target synthetic st = Inr st'" and "headed target synthetic" and "\<forall>k r. np_records st k = Some r \<longrightarrow> headed k r"
  shows "(\<forall>k r. np_records st' k = Some r \<longrightarrow> headed k r) \<and> dom (np_records st') = insert target (dom (np_records st))
    \<and> np_map st' = np_map st \<and> np_pool st' = np_pool st \<and> np_order st' = np_order st \<and> np_representatives st' = np_representatives st"
  using assms by (auto simp: store_record_def bindE_Inr_iff headed_family split: option.splits if_splits)

lemma next_pointer_shape: "next_pointer pool tag = (pool', t) \<Longrightarrow> t \<noteq> [] \<and> hd t = 64"
  by (auto simp: next_pointer_def Let_def master_pointer_def u_def)

lemma choose_representative_Inr:
  assumes "choose_representative is_master tag key pointer st = (target, st')"
    and "set D \<subseteq> set (pp_used (np_pool st))" and own: "is_master \<Longrightarrow> ok_target M D pointer"
    and reps: "\<forall>key t. np_representatives st key = Some t \<longrightarrow> ok_target M D t \<and> t \<in> set (np_order st) \<and> np_records st t \<noteq> None"
  shows "np_map st' = np_map st \<and> np_records st' = np_records st \<and> set (np_order st') = insert target (set (np_order st))
    \<and> set D \<subseteq> set (pp_used (np_pool st')) \<and> ok_target M D target \<and> (pointer \<noteq> [] \<longrightarrow> target \<noteq> [])
    \<and> (\<forall>key t. np_representatives st' key = Some t \<longrightarrow> ok_target M D t \<and> t \<in> set (np_order st') \<and> (t = target \<or> np_records st t \<noteq> None))"
proof (cases "case np_representatives st (tag, key) of Some t \<Rightarrow> if t = [] then None else Some t | None \<Rightarrow> None")
  case (Some t)
  then have "np_representatives st (tag, key) = Some t" "t \<noteq> []" by (auto split: option.splits if_splits)
  then show ?thesis using assms Some by (auto simp: choose_representative_def Let_def split: if_splits)
next
  case None
  then have step: "(let (pool, target) = (if is_master then (np_pool st, pointer) else next_pointer (np_pool st) tag) in
           (target, st\<lparr>np_pool := pool, np_representatives := (np_representatives st)((tag, key) \<mapsto> target),
                       np_order := np_order st @ [target]\<rparr>)) = (target, st')"
    using assms(1) by (simp add: choose_representative_def)
  have reps': "\<forall>k t. np_representatives st' k = Some t \<longrightarrow> ok_target M D t \<and> t \<in> set (np_order st') \<and> (t = target \<or> np_records st t \<noteq> None)"
    if "np_representatives st' = (np_representatives st)((tag, key) \<mapsto> target)" "ok_target M D target"
      "set (np_order st') = insert target (set (np_order st))"
  proof (intro allI impI)
    fix k t assume "np_representatives st' k = Some t"
    with that(1) have "t = target \<or> np_representatives st k = Some t" by (auto split: if_splits)
    then show "ok_target M D t \<and> t \<in> set (np_order st') \<and> (t = target \<or> np_records st t \<noteq> None)"
      using that(2,3) reps [rule_format, of k t] by auto
  qed
  show ?thesis
  proof (cases is_master)
    case True
    then have eq: "target = pointer" "st' = st\<lparr>np_representatives := (np_representatives st)((tag, key) \<mapsto> target), np_order := np_order st @ [target]\<rparr>"
      using step by (auto simp: Let_def)
    have "ok_target M D target" using own [OF True] eq(1) by simp
    moreover from reps' [OF _ this] have "\<forall>k t. np_representatives st' k = Some t \<longrightarrow>
        ok_target M D t \<and> t \<in> set (np_order st') \<and> (t = target \<or> np_records st t \<noteq> None)" by (simp add: eq(2))
    moreover have "np_map st' = np_map st" "np_records st' = np_records st" "set (np_order st') = insert target (set (np_order st))"
      "np_pool st' = np_pool st" by (simp_all add: eq(2))
    ultimately show ?thesis using assms(2) eq(1) by simp
  next
    case False
    obtain pool t where n: "next_pointer (np_pool st) tag = (pool, t)" by force
    note fresh = next_pointer_fresh [OF n] next_pointer_shape [OF n]
    have ok: "ok_target M D t" using fresh assms(2) by (auto simp: ok_target_def)
    have eq: "target = t" "st' = st\<lparr>np_pool := pool, np_representatives := (np_representatives st)((tag, key) \<mapsto> target), np_order := np_order st @ [target]\<rparr>"
      using step False n by (auto simp: Let_def)
    have "ok_target M D target" using ok eq(1) by simp
    moreover from reps' [OF _ this] have "\<forall>k t. np_representatives st' k = Some t \<longrightarrow>
        ok_target M D t \<and> t \<in> set (np_order st') \<and> (t = target \<or> np_records st t \<noteq> None)" by (simp add: eq(2))
    moreover have "np_map st' = np_map st" "np_records st' = np_records st" "set (np_order st') = insert target (set (np_order st))"
      "set D \<subseteq> set (pp_used (np_pool st'))" using fresh assms(2) by (auto simp: eq(2))
    ultimately show ?thesis using fresh eq(1) by simp
  qed
qed

lemma map_record_Inr:
  assumes step: "map_record tr path st0 (tag, r) = Inr st'" and pointer: "record_pointer r = Inr p" and inv: "consolidated M D st0"
    and own: "gr_source_file r = path \<Longrightarrow> ok_target M D p"
  obtains target where "consolidated M D st'" "keeps_records st0 st'" "np_map st' p = Some target" "\<forall>x. x \<noteq> p \<longrightarrow> np_map st' x = np_map st0 x"
    "ok_target M D target" "target \<in> set (np_order st')" "np_records st' target \<noteq> None" "p \<noteq> [] \<longrightarrow> target \<noteq> []"
proof -
  let ?m = "gr_source_file r = path"
  let ?st = "if ?m then st0\<lparr>np_map := set_default (np_map st0) p p\<rparr> else st0"
  from step pointer obtain key where key: "bindE (Inr key) (\<lambda>key.
     let (target, st1) = choose_representative ?m tag key p ?st;
         st2 = st1\<lparr>np_map := (np_map st1)(p \<mapsto> target)\<rparr> in
     bindE (rewrite_lines (gr_lines r) (np_map st2)) (\<lambda>rewritten.
     bindE (replace_header_pointer rewritten target) (\<lambda>lines.
     store_record tr tag target (made_record lines r) st2))) = Inr st'"
    unfolding map_record_def Let_def prod.case by (auto simp: bindE_Inr_iff simp del: if_split split: if_splits)
  obtain target st1 where c: "choose_representative ?m tag key p ?st = (target, st1)" by force
  with key obtain lines rewritten where l: "replace_header_pointer rewritten target = Inr lines"
    "store_record tr tag target (made_record lines r) (st1\<lparr>np_map := (np_map st1)(p \<mapsto> target)\<rparr>) = Inr st'"
    by (auto simp: Let_def bindE_Inr_iff)
  have same: "np_pool ?st = np_pool st0" "np_representatives ?st = np_representatives st0" "np_records ?st = np_records st0"
    "np_order ?st = np_order st0" "\<forall>x. x \<noteq> p \<longrightarrow> np_map ?st x = np_map st0 x" by (simp_all add: set_default_def)
  have "np_map st1 = np_map ?st \<and> np_records st1 = np_records ?st \<and> set (np_order st1) = insert target (set (np_order ?st))
    \<and> set D \<subseteq> set (pp_used (np_pool st1)) \<and> ok_target M D target \<and> (p \<noteq> [] \<longrightarrow> target \<noteq> [])
    \<and> (\<forall>key t. np_representatives st1 key = Some t \<longrightarrow> ok_target M D t \<and> t \<in> set (np_order st1) \<and> (t = target \<or> np_records ?st t \<noteq> None))"
    by (rule choose_representative_Inr [OF c]) (use inv own in \<open>auto simp: same consolidated_def\<close>)
  note chosen = this [unfolded same]
  have "\<forall>k r. np_records (st1\<lparr>np_map := (np_map st1)(p \<mapsto> target)\<rparr>) k = Some r \<longrightarrow> headed k r"
    using inv chosen by (simp add: consolidated_def)
  note stored = store_record_Inr [OF l(2) headed_replaced [OF l(1)] this]
  show thesis
  proof (rule that [of target])
    show "consolidated M D st'" using stored chosen inv unfolding consolidated_def by (auto simp: dom_def set_eq_iff)
    show "keeps_records st0 st'" using stored chosen by (auto simp: keeps_records_def)
    show "\<forall>x. x \<noteq> p \<longrightarrow> np_map st' x = np_map st0 x" using stored chosen same(5) by simp
  qed (use stored chosen in \<open>auto simp: dom_def set_eq_iff\<close>)
qed

lemma map_records_Inr:
  "foldE (map_record tr path) st work = Inr st' \<Longrightarrow> consolidated M D st \<Longrightarrow>
     (\<And>tag r p. (tag, r) \<in> set work \<Longrightarrow> gr_source_file r = path \<Longrightarrow> record_pointer r = Inr p \<Longrightarrow> ok_target M D p) \<Longrightarrow>
     consolidated M D st' \<and> keeps_records st st' \<and> (\<forall>x. (\<forall>(tag, r) \<in> set work. record_pointer r \<noteq> Inr x) \<longrightarrow> np_map st' x = np_map st x)"
proof (induction work arbitrary: st)
  case (Cons w work)
  obtain tag r where w: "w = (tag, r)" by (cases w)
  from Cons.prems(1) obtain a where a: "map_record tr path st (tag, r) = Inr a" "foldE (map_record tr path) a work = Inr st'"
    by (auto simp: bindE_Inr_iff w)
  then obtain p where p: "record_pointer r = Inr p" by (auto simp: map_record_def bindE_Inr_iff)
  have own: "gr_source_file r = path \<Longrightarrow> ok_target M D p" using Cons.prems(3) [of tag r p] p w by simp
  from a(1) p Cons.prems(2) own show ?case
  proof (rule map_record_Inr)
    fix target assume s: "consolidated M D a" "keeps_records st a" "\<forall>x. x \<noteq> p \<longrightarrow> np_map a x = np_map st x"
    have "consolidated M D st' \<and> keeps_records a st' \<and> (\<forall>x. (\<forall>(tag, r) \<in> set work. record_pointer r \<noteq> Inr x) \<longrightarrow> np_map st' x = np_map a x)"
      using Cons.IH [OF a(2) s(1)] Cons.prems(3) by (meson list.set_intros(2))
    moreover from this s(2) have "keeps_records st st'" unfolding keeps_records_def by blast
    ultimately show ?thesis using s(3) p by (auto simp: w)
  qed
qed (simp add: keeps_records_def)

lemma map_other_record_Inr:
  assumes "map_other_record path st (tag, r) = Inr st'" and "record_pointer r = Inr p" and "t \<noteq> p" and "hd t = 64" "t \<noteq> []"
  shows "np_records st' t = np_records st t \<and> set (np_order st) \<subseteq> set (np_order st')
    \<and> (\<forall>x v. np_map st x = Some v \<longrightarrow> np_map st' x = Some v)"
proof -
  have anon: "hd (u ''anonymous:'') \<noteq> 64" "u ''anonymous:'' \<noteq> []" by (simp_all add: u_def)
  then have "u ''anonymous:'' @ dec_nat (length (np_order st)) \<noteq> t" using assms(4) by (metis hd_append2)
  then show ?thesis using assms by (auto simp: map_other_record_def bindE_Inr_iff Let_def set_default_def split: prod.splits if_splits)
qed

lemma map_other_records_Inr:
  "foldE (map_other_record path) st work = Inr st' \<Longrightarrow> hd t = 64 \<Longrightarrow> t \<noteq> [] \<Longrightarrow> (\<And>tag r. (tag, r) \<in> set work \<Longrightarrow> record_pointer r \<noteq> Inr t) \<Longrightarrow>
     np_records st' t = np_records st t \<and> set (np_order st) \<subseteq> set (np_order st') \<and> (\<forall>x v. np_map st x = Some v \<longrightarrow> np_map st' x = Some v)"
proof (induction work arbitrary: st)
  case (Cons w work)
  obtain tag r where w: "w = (tag, r)" by (cases w)
  from Cons.prems(1) obtain a where a: "map_other_record path st (tag, r) = Inr a" "foldE (map_other_record path) a work = Inr st'"
    by (auto simp: bindE_Inr_iff w)
  then obtain p where p: "record_pointer r = Inr p" by (auto simp: map_other_record_def bindE_Inr_iff)
  have "t \<noteq> p" using Cons.prems(4) [of tag r] p w by auto
  note step = map_other_record_Inr [OF a(1) p this Cons.prems(2,3)]
  have "np_records st' t = np_records a t \<and> set (np_order a) \<subseteq> set (np_order st') \<and> (\<forall>x v. np_map a x = Some v \<longrightarrow> np_map st' x = Some v)"
    using Cons.IH [OF a(2) Cons.prems(2,3)] Cons.prems(4) by (meson list.set_intros(2))
  then show ?case using step by auto
qed simp

lemma nonpeople_in:
  assumes "nonpeople records = Inr tagged" and "(tag, r) \<in> set tagged"
  shows "r \<in> set records"
proof -
  from assms obtain all where all: "mapE (\<lambda>r. bindE (record_tag r) (\<lambda>tag. Inr (tag, r))) records = Inr all" "(tag, r) \<in> set all"
    by (auto simp: nonpeople_def bindE_Inr_iff)
  then obtain i where "i < length all" "all ! i = (tag, r)" by (auto simp: in_set_conv_nth)
  with mapE_Inr_nth [OF all(1), of i] mapE_length [OF all(1)] show ?thesis by (auto simp: bindE_Inr_iff)
qed

lemma all_nonpeople_in:
  assumes "all_nonpeople tr sources pm = Inr tagged" and "(tag, r) \<in> set tagged"
  shows "r \<in> set (concat (map so_records sources))"
proof -
  from assms(1) obtain master snapshots where s: "sources = master # snapshots" by (cases sources) (auto simp: all_nonpeople_def)
  with assms(1) obtain ms inc keys where m: "nonpeople (so_records master) = Inr ms" "nonpeople (concat (map so_records snapshots)) = Inr inc"
    "mapE (\<lambda>(tag, r). record_allocation_key tr r pm) inc = Inr keys" "tagged = ms @ map snd (sort_key fst (zip keys inc))"
    by (auto simp: all_nonpeople_def bindE_Inr_iff)
  have "set tagged = set ms \<union> set inc" unfolding m(4) using keyed_order_set [OF mapE_length [OF m(3)]] by simp
  then show ?thesis using assms(2) nonpeople_in [OF m(1)] nonpeople_in [OF m(2)] s by auto
qed

lemma record_pointer_shape: "record_pointer r = Inr p \<Longrightarrow> p = [] \<or> hd p = 64"
  by (auto simp: record_pointer_def record_header_def bindE_Inr_iff xref_shape_def parts_ok_def
      dest!: parse_gedcom_line_parts(1) split: list.splits)

lemma declared_in: "declared_pointers sources = Inr D \<Longrightarrow> r \<in> set (concat (map so_records sources)) \<Longrightarrow> record_pointer r = Inr p
    \<Longrightarrow> p = [] \<or> p \<in> set D"
  unfolding declared_pointers_def bindE_Inr_iff by (fastforce dest: mapE_Inr_ex)

text \<open>The pointers of the records the master keeps: those of its ordered tags.\<close>

definition master_pointers :: "sync_source list \<Rightarrow> (ustr \<times> gedcom_record) list \<Rightarrow> ustr set" where
  "master_pointers sources tagged = {p. \<exists>(tag, r) \<in> set tagged. tag \<in> set ordered_tags
     \<and> gr_source_file r = so_path (hd sources) \<and> record_pointer r = Inr p}"

lemma ordered_work_in: "(tag, r) \<in> set (ordered_work tagged) \<longleftrightarrow> (tag, r) \<in> set tagged \<and> tag \<in> set ordered_tags"
  by (auto simp: ordered_work_def)


text \<open>The snapshot's source record is the one of the master, its family is new.\<close>

definition record_sources :: "sync_source list" where
  "record_sources =
     [\<lparr>so_path = u ''master'', so_records = [text_record [''0 @S1@ SOUR'', ''1 TITL Census''] ''master''], so_pointer_items = []\<rparr>,
      \<lparr>so_path = u ''site'', so_records = [text_record [''0 @X1@ SOUR'', ''1 TITL Census'', ''1 RIN 7''] ''site'',
         text_record [''0 @X2@ FAM'', ''1 MARR'', ''2 SOUR @X1@''] ''site''], so_pointer_items = []\<rparr>]"

definition tagged_records :: "(ustr \<times> gedcom_record) list" where
  "tagged_records = [(u ''SOUR'', text_record [''0 @S1@ SOUR'', ''1 TITL Census''] ''master''),
     (u ''FAM'', text_record [''0 @X2@ FAM'', ''1 MARR'', ''2 SOUR @X1@''] ''site''),
     (u ''SOUR'', text_record [''0 @X1@ SOUR'', ''1 TITL Census'', ''1 RIN 7''] ''site'')]"

lemma record_pointers:
  "record_pointer (text_record [''0 @S1@ SOUR'', ''1 TITL Census''] ''master'') = Inr (u ''@S1@'')"
  "record_pointer (text_record [''0 @X1@ SOUR'', ''1 TITL Census'', ''1 RIN 7''] ''site'') = Inr (u ''@X1@'')"
  "record_pointer (text_record [''0 @X2@ FAM'', ''1 MARR'', ''2 SOUR @X1@''] ''site'') = Inr (u ''@X2@'')"
  "all_nonpeople plain_rules record_sources Map.empty = Inr tagged_records"
  "declared_pointers record_sources = Inr (map u [''@S1@'', ''@X1@'', ''@X2@''])"
  by code_simp+


end
