(* ===== verification/Sync_Manifest.thy ===== *)
theory Sync_Manifest
  imports Sync_Reconcile File_Ingress
begin

text \<open>
  \<open>gedcom/sync_manifest.py\<close>: the identity of snapshots, the arguments that name them, and the check a
  manifest must pass before any of it is used. A manifest is the JSON object it was read from, a list of
  fields (numbers are integers). Which texts \<open>datetime.fromisoformat\<close> accepts depends on the version of
  Python, so the argument \<open>clock\<close> gives the moment a text stands for, if any.
\<close>

section \<open>Errors\<close>

text \<open>The errors of a synchronization by code, with the fields their details depend on. \<open>Unexpected\<close> is an
  exception that is no \<open>SyncError\<close>, which \<open>_with_error_contract\<close> reports as \<open>SYNC_OUTPUT\<close>.\<close>

datatype configuration_problem =
    Bad_Source_Id
  | Unknown_Vendor
  | Incomplete_Descriptor
  | Bad_Export_Date
  | Incomplete_Export_Date
  | Unused_Export_Dates nat
  | Duplicate_Source ustr
  | Vendor_Changed
  | Content_Conflict
  | Initialize_With_Manifest
  | Manifest_Missing
  | Quality_Root_Missing

datatype sync_fault =
    Configuration configuration_problem
  | Parse_Failed loader_error
  | Manifest_Invalid ustr
  | Master_Mismatch ustr ustr
  | Artifact_Mismatch
  | Unsafe_Removal "(ustr \<times> nat) list"
  | Output_Failed
  | Unexpected gedcom_error
  | Ingress_Failed ingress_error

section \<open>Reading JSON\<close>

type_synonym jobject = "(ustr \<times> json) list"

datatype moment = Naive | Aware int

definition lookup :: "ustr \<Rightarrow> jobject \<Rightarrow> json" where
  "lookup key d = (case map_of d key of None \<Rightarrow> JNull | Some v \<Rightarrow> v)"

definition object_at :: "ustr \<Rightarrow> jobject \<Rightarrow> jobject" where
  "object_at key d = (case lookup key d of JObj xs \<Rightarrow> xs | _ \<Rightarrow> [])"

definition list_at :: "ustr \<Rightarrow> jobject \<Rightarrow> json list" where
  "list_at key d = (case lookup key d of JList xs \<Rightarrow> xs | _ \<Rightarrow> [])"

definition text_at :: "ustr \<Rightarrow> jobject \<Rightarrow> ustr" where
  "text_at key d = (case lookup key d of JStr s \<Rightarrow> s | _ \<Rightarrow> [])"

definition number_at :: "ustr \<Rightarrow> jobject \<Rightarrow> int" where
  "number_at key d = (case lookup key d of JNumber n \<Rightarrow> n | _ \<Rightarrow> 0)"

definition fields_of :: "json \<Rightarrow> jobject" where
  "fields_of v = (case v of JObj xs \<Rightarrow> xs | _ \<Rightarrow> [])"

definition is_text :: "json \<Rightarrow> bool" where
  "is_text v \<longleftrightarrow> (case v of JStr s \<Rightarrow> True | _ \<Rightarrow> False)"

definition is_object :: "json \<Rightarrow> bool" where
  "is_object v \<longleftrightarrow> (case v of JObj xs \<Rightarrow> True | _ \<Rightarrow> False)"

definition is_list :: "json \<Rightarrow> bool" where
  "is_list v \<longleftrightarrow> (case v of JList xs \<Rightarrow> True | _ \<Rightarrow> False)"

definition filled_text :: "json \<Rightarrow> bool" where
  "filled_text v \<longleftrightarrow> (case v of JStr s \<Rightarrow> s \<noteq> [] | _ \<Rightarrow> False)"

definition hex_char :: "nat \<Rightarrow> bool" where
  "hex_char c \<longleftrightarrow> is_digit c \<or> 97 \<le> c \<and> c \<le> 102"

definition sha_text :: "ustr \<Rightarrow> bool" where
  "sha_text s \<longleftrightarrow> length s = 64 \<and> list_all hex_char s"

definition is_sha :: "json \<Rightarrow> bool" where
  "is_sha v \<longleftrightarrow> (case v of JStr s \<Rightarrow> sha_text s | _ \<Rightarrow> False)"

text \<open>An integer from a bound on; \<open>isinstance(True, int)\<close> is excluded by the code.\<close>

definition is_from :: "int \<Rightarrow> json \<Rightarrow> bool" where
  "is_from low v \<longleftrightarrow> (case v of JNumber n \<Rightarrow> low \<le> n | _ \<Rightarrow> False)"

definition none_or :: "(json \<Rightarrow> bool) \<Rightarrow> json \<Rightarrow> bool" where
  "none_or ok v \<longleftrightarrow> v = JNull \<or> ok v"

lemmas json_tests = is_text_def is_object_def is_list_def filled_text_def is_sha_def is_from_def none_or_def

section \<open>Snapshot identity\<close>

definition source_id_char :: "nat \<Rightarrow> bool" where
  "source_id_char c \<longleftrightarrow> is_lower c \<or> is_digit c \<or> c = 95 \<or> c = 45"

definition source_id_ok :: "ustr \<Rightarrow> bool" where
  "source_id_ok s \<longleftrightarrow> s \<noteq> [] \<and> is_lower (hd s) \<and> list_all source_id_char (tl s) \<and> 1 \<le> length (tl s) \<and> length (tl s) \<le> 63"

definition supported_vendors :: "ustr list" where
  "supported_vendors = map u [''ancestry'', ''geni'', ''myheritage'', ''other'']"

definition validate_snapshot_identity :: "ustr \<Rightarrow> ustr \<Rightarrow> sync_fault + unit" where
  "validate_snapshot_identity source_id vendor =
     bindE (guardE (source_id_ok source_id) (Configuration Bad_Source_Id)) (\<lambda>_.
     guardE (vendor \<in> set supported_vendors) (Configuration Unknown_Vendor))"

text \<open>\<open>str.partition\<close>: what precedes the first separator, whether there is one, and what follows it.\<close>

definition partition_at :: "nat \<Rightarrow> ustr \<Rightarrow> ustr \<times> bool \<times> ustr" where
  "partition_at c s = (takeWhile (\<lambda>d. d \<noteq> c) s, c \<in> set s, drop 1 (dropWhile (\<lambda>d. d \<noteq> c) s))"

definition parse_snapshot_argument :: "ustr \<Rightarrow> sync_fault + ustr \<times> ustr \<times> ustr" where
  "parse_snapshot_argument value =
     (let (descriptor, separated, raw_path) = partition_at 61 value;
          (source_id, vendor_separated, vendor) = partition_at 58 descriptor in
      if \<not> separated \<or> \<not> vendor_separated \<or> raw_path = [] then Inl (Configuration Incomplete_Descriptor)
      else bindE (validate_snapshot_identity source_id vendor) (\<lambda>_. Inr (source_id, vendor, raw_path)))"

definition validate_exported_at :: "(ustr \<Rightarrow> moment option) \<Rightarrow> ustr \<Rightarrow> sync_fault + unit" where
  "validate_exported_at clock timestamp = guardE (clock timestamp \<noteq> None) (Configuration Bad_Export_Date)"

record snapshot_input =
  si_source_id :: ustr
  si_vendor :: ustr
  si_path :: ustr
  si_exported_at :: "ustr option"

definition add_export_date :: "(ustr \<Rightarrow> moment option) \<Rightarrow> (ustr \<times> ustr) list \<Rightarrow> ustr \<Rightarrow> sync_fault + (ustr \<times> ustr) list" where
  "add_export_date clock dates value =
     (let (source_id, separated, timestamp) = partition_at 61 value in
      if \<not> separated \<or> timestamp = [] then Inl (Configuration Incomplete_Export_Date)
      else bindE (validate_exported_at clock timestamp) (\<lambda>_. Inr (AList.update source_id timestamp dates)))"

definition snapshot_inputs_from_arguments :: "(ustr \<Rightarrow> moment option) \<Rightarrow> ustr list \<Rightarrow> ustr list \<Rightarrow> sync_fault + snapshot_input list" where
  "snapshot_inputs_from_arguments clock snapshots exported_at_values =
     bindE (foldE (add_export_date clock) [] exported_at_values) (\<lambda>dates.
     bindE (mapE parse_snapshot_argument snapshots) (\<lambda>parsed.
     let inputs = map (\<lambda>(source_id, vendor, path). \<lparr>si_source_id = source_id, si_vendor = vendor, si_path = path,
           si_exported_at = map_of dates source_id\<rparr>) parsed;
         unknown = filter (\<lambda>k. k \<notin> set (map si_source_id inputs)) (map fst dates) in
     if unknown \<noteq> [] then Inl (Configuration (Unused_Export_Dates (length unknown))) else Inr inputs))"

section \<open>Snapshot descriptions\<close>

text \<open>What the ingress policy gives for a path: the normalised path, the time of the last change, the first
  record (nothing when the file cannot be read), and the digest of the content. \<open>sf_mtime_text\<close> is the UTC text
  of a time in nanoseconds.\<close>

record snapshot_files =
  sf_normalize :: "ustr \<Rightarrow> ingress_error + ustr"
  sf_inspect :: "ustr \<Rightarrow> ingress_error + int"
  sf_first_record :: "ustr \<Rightarrow> gedcom_record option"
  sf_fingerprint :: "ustr \<Rightarrow> ingress_error + ustr"
  sf_mtime_text :: "int \<Rightarrow> ustr"

definition ingressE :: "ingress_error + 'a \<Rightarrow> sync_fault + 'a" where
  "ingressE m = (case m of Inl e \<Rightarrow> Inl (Ingress_Failed e) | Inr x \<Rightarrow> Inr x)"

definition coreE :: "gedcom_error + 'a \<Rightarrow> sync_fault + 'a" where
  "coreE m = (case m of Inl e \<Rightarrow> Inl (Unexpected e) | Inr x \<Rightarrow> Inr x)"

fun first_date :: "text_rules \<Rightarrow> ustr list list \<Rightarrow> gedcom_error + ustr option" where
  "first_date tr [] = Inr None"
| "first_date tr (block # blocks) = bindE (first_line block) (\<lambda>line.
     if gl_tag line = u ''DATE'' \<and> py_strip (gl_value line) \<noteq> []
     then Inr (Some (normalise_gedcom_date (tr_calendar tr) (py_strip (gl_value line)))) else first_date tr blocks)"

definition header_export_date :: "text_rules \<Rightarrow> snapshot_files \<Rightarrow> ustr \<Rightarrow> gedcom_error + ustr option" where
  "header_export_date tr files path = (case sf_first_record files path of None \<Rightarrow> Inr None
     | Some first \<Rightarrow> bindE (record_tag first) (\<lambda>tag. if tag \<noteq> u ''HEAD'' then Inr None
         else bindE (top_level_blocks (gr_lines first)) (first_date tr)))"

definition export_time :: "text_rules \<Rightarrow> (ustr \<Rightarrow> moment option) \<Rightarrow> snapshot_files \<Rightarrow> ustr \<Rightarrow> int \<Rightarrow> ustr option
    \<Rightarrow> sync_fault + ustr \<times> ustr" where
  "export_time tr clock files path modified_ns given = (case given of
       Some text \<Rightarrow> bindE (validate_exported_at clock text) (\<lambda>_. Inr (text, u ''operator''))
     | None \<Rightarrow> bindE (coreE (header_export_date tr files path)) (\<lambda>header.
         Inr (case header of
             Some date \<Rightarrow> if date \<noteq> [] then (date, u ''HEAD.DATE'') else (sf_mtime_text files modified_ns, u ''file-mtime'')
           | None \<Rightarrow> (sf_mtime_text files modified_ns, u ''file-mtime''))))"

definition add_snapshot_spec :: "text_rules \<Rightarrow> (ustr \<Rightarrow> moment option) \<Rightarrow> snapshot_files \<Rightarrow> snapshot_spec list \<Rightarrow> snapshot_input
    \<Rightarrow> sync_fault + snapshot_spec list" where
  "add_snapshot_spec tr clock files specs item =
     bindE (validate_snapshot_identity (si_source_id item) (si_vendor item)) (\<lambda>_.
     bindE (ingressE (sf_normalize files (si_path item))) (\<lambda>path.
     bindE (guardE (si_source_id item \<notin> set (map sn_source_id specs)) (Configuration (Duplicate_Source (si_source_id item)))) (\<lambda>_.
     bindE (ingressE (sf_inspect files path)) (\<lambda>modified_ns.
     bindE (export_time tr clock files path modified_ns (si_exported_at item)) (\<lambda>(exported_at, basis).
     bindE (ingressE (sf_fingerprint files path)) (\<lambda>sha.
       Inr (specs @ [\<lparr>sn_source_id = si_source_id item, sn_vendor = si_vendor item, sn_path = path,
         sn_exported_at = exported_at, sn_date_basis = basis, sn_sha256 = sha\<rparr>])))))))"

definition snapshot_specs :: "text_rules \<Rightarrow> (ustr \<Rightarrow> moment option) \<Rightarrow> snapshot_files \<Rightarrow> snapshot_input list
    \<Rightarrow> sync_fault + snapshot_spec list" where
  "snapshot_specs tr clock files inputs = bindE (foldE (add_snapshot_spec tr clock files) [] inputs) (\<lambda>specs.
     Inr (sort_key (\<lambda>s. (sn_source_id s, sn_vendor s, sn_sha256 s)) specs))"

section \<open>A new manifest\<close>

definition id_prefixes :: "ustr list" where
  "id_prefixes = map snd record_prefixes @ [u ''X'']"

definition new_manifest :: "ustr \<Rightarrow> ustr \<Rightarrow> ustr \<Rightarrow> ustr \<Rightarrow> ustr \<Rightarrow> ustr \<Rightarrow> jobject" where
  "new_manifest master release_root master_sha tree_id created_at updated_at =
     [(u ''schema_version'', JNumber 1), (u ''tree_id'', JStr tree_id), (u ''generation'', JNumber 0),
      (u ''created_at'', JStr created_at), (u ''updated_at'', JStr updated_at),
      (u ''master'', JObj [(u ''path'', JStr master), (u ''sha256'', JStr master_sha)]),
      (u ''parent_release'', JNull), (u ''release_root'', JStr release_root), (u ''active_snapshots'', JObj []),
      (u ''snapshots'', JObj []), (u ''person_bindings'', JObj []), (u ''record_aliases'', JObj []), (u ''blocks'', JObj []),
      (u ''removed'', JList []), (u ''manual_tombstones'', JList []),
      (u ''next_ids'', JObj (map (\<lambda>p. (p, JNumber 1)) id_prefixes)), (u ''releases'', JList [])]"

section \<open>The check of a manifest\<close>

definition require :: "bool \<Rightarrow> string \<Rightarrow> sync_fault + unit" where
  "require ok field = guardE ok (Manifest_Invalid (u field))"

lemma require_Inr_iff [result_simps]: "require ok field = Inr x \<longleftrightarrow> ok"
  by (simp add: require_def guardE_Inr_iff)

definition required_fields :: "ustr list" where
  "required_fields = map u [''schema_version'', ''tree_id'', ''generation'', ''master'', ''active_snapshots'', ''snapshots'',
     ''person_bindings'', ''record_aliases'', ''blocks'', ''removed'', ''manual_tombstones'', ''next_ids'', ''releases'']"

definition mapping_fields :: "ustr list" where
  "mapping_fields = map u [''active_snapshots'', ''snapshots'', ''person_bindings'', ''record_aliases'', ''blocks'', ''next_ids'']"

definition list_fields :: "ustr list" where
  "list_fields = map u [''removed'', ''manual_tombstones'', ''releases'']"

text \<open>A file with its path and digest, as the master and the parent's master are recorded.\<close>

definition is_file_identity :: "json \<Rightarrow> bool" where
  "is_file_identity v \<longleftrightarrow> is_object v \<and> filled_text (lookup (u ''path'') (fields_of v)) \<and> is_sha (lookup (u ''sha256'') (fields_of v))"

definition check_shape :: "jobject \<Rightarrow> sync_fault + unit" where
  "check_shape d =
     bindE (require (list_all (\<lambda>k. map_of d k \<noteq> None) required_fields) ''required fields'') (\<lambda>_.
     bindE (require (lookup (u ''schema_version'') d = JNumber 1) ''schema_version'') (\<lambda>_.
     bindE (require (filled_text (lookup (u ''tree_id'') d)) ''tree_id'') (\<lambda>_.
     bindE (require (is_from 0 (lookup (u ''generation'') d)) ''generation'') (\<lambda>_.
     bindE (require (is_file_identity (lookup (u ''master'') d)) ''master'') (\<lambda>_.
     bindE (require (list_all (\<lambda>k. is_object (lookup k d)) mapping_fields) ''mapping'') (\<lambda>_.
     require (list_all (\<lambda>k. is_list (lookup k d)) list_fields) ''list''))))))"

text \<open>Snapshots: each is complete, named by its source and content, observed at a moment with a time zone, and
  every source keeps one vendor. The state is the vendor of each source so far.\<close>

definition snapshot_texts :: "ustr list" where
  "snapshot_texts = map u [''snapshot_id'', ''source_id'', ''vendor'', ''path'', ''sha256'', ''exported_at'', ''date_basis'', ''observed_at'']"

definition date_bases :: "ustr list" where
  "date_bases = map u [''operator'', ''HEAD.DATE'', ''file-mtime'']"

definition is_aware :: "moment option \<Rightarrow> bool" where
  "is_aware m \<longleftrightarrow> (case m of Some (Aware t) \<Rightarrow> True | _ \<Rightarrow> False)"

definition snapshot_valid :: "(ustr \<Rightarrow> moment option) \<Rightarrow> ustr \<Rightarrow> jobject \<Rightarrow> bool" where
  "snapshot_valid clock sid s \<longleftrightarrow>
     list_all (\<lambda>k. filled_text (lookup k s)) snapshot_texts \<and> text_at (u ''snapshot_id'') s = sid
     \<and> sha_text (text_at (u ''sha256'') s)
     \<and> source_id_ok (text_at (u ''source_id'') s) \<and> text_at (u ''vendor'') s \<in> set supported_vendors
     \<and> sid = text_at (u ''source_id'') s @ u '':'' @ take 20 (text_at (u ''sha256'') s)
     \<and> text_at (u ''date_basis'') s \<in> set date_bases
     \<and> is_aware (clock (text_at (u ''observed_at'') s))"

definition check_snapshot :: "(ustr \<Rightarrow> moment option) \<Rightarrow> (ustr \<times> ustr) list \<Rightarrow> ustr \<times> json \<Rightarrow> sync_fault + (ustr \<times> ustr) list" where
  "check_snapshot clock vendors = (\<lambda>(sid, v).
     let s = fields_of v; source = text_at (u ''source_id'') s; vendor = text_at (u ''vendor'') s in
     bindE (require (snapshot_valid clock sid s) ''snapshots'') (\<lambda>_.
     case map_of vendors source of
       None \<Rightarrow> Inr (vendors @ [(source, vendor)])
     | Some established \<Rightarrow> bindE (require (established = vendor) ''snapshots'') (\<lambda>_. Inr vendors)))"

definition check_snapshots :: "(ustr \<Rightarrow> moment option) \<Rightarrow> jobject \<Rightarrow> sync_fault + (ustr \<times> ustr) list" where
  "check_snapshots clock d =
     bindE (require (list_all (\<lambda>(k, v). is_text v) (object_at (u ''active_snapshots'') d)) ''active_snapshots'') (\<lambda>_.
     bindE (require (list_all (\<lambda>(k, v). is_object v) (object_at (u ''snapshots'') d)) ''snapshots'') (\<lambda>_.
     foldE (check_snapshot clock) [] (object_at (u ''snapshots'') d)))"

text \<open>Each source has one active snapshot, of its own.\<close>

definition active_valid :: "jobject \<Rightarrow> ustr \<times> json \<Rightarrow> bool" where
  "active_valid snapshots = (\<lambda>(source, v). source_id_ok source \<and> (case v of
       JStr sid \<Rightarrow> (case map_of snapshots sid of None \<Rightarrow> False
          | Some s \<Rightarrow> text_at (u ''source_id'') (fields_of s) = source)
     | _ \<Rightarrow> False))"

definition check_active :: "jobject \<Rightarrow> (ustr \<times> ustr) list \<Rightarrow> sync_fault + unit" where
  "check_active d vendors =
     bindE (require (list_all (active_valid (object_at (u ''snapshots'') d)) (object_at (u ''active_snapshots'') d)) ''active_snapshots'') (\<lambda>_.
     require (set (map fst (object_at (u ''active_snapshots'') d)) = set (map fst vendors)) ''active_snapshots'')"

definition binding_valid :: "(ustr \<times> ustr) list \<Rightarrow> ustr \<times> json \<Rightarrow> bool" where
  "binding_valid vendors = (\<lambda>(source, v). source_id_ok source \<and> source \<in> set (map fst vendors)
     \<and> is_object v \<and> list_all (\<lambda>(k, t). is_text t) (fields_of v))"

definition check_bindings :: "jobject \<Rightarrow> (ustr \<times> ustr) list \<Rightarrow> sync_fault + unit" where
  "check_bindings d vendors =
     bindE (require (list_all (binding_valid vendors) (object_at (u ''person_bindings'') d)) ''person_bindings'') (\<lambda>_.
     require (list_all (\<lambda>(k, v). is_text v) (object_at (u ''record_aliases'') d)) ''record_aliases'')"

text \<open>The provenance of a block.\<close>

definition entry_valid :: "jobject \<Rightarrow> ustr \<times> json \<Rightarrow> bool" where
  "entry_valid snapshots = (\<lambda>(key, v). sha_text key \<and> is_object v
     \<and> (let e = fields_of v in filled_text (lookup (u ''tag'') e)
        \<and> is_list (lookup (u ''observations'') e)
        \<and> list_all (\<lambda>s. is_text s \<and> (case s of JStr sid \<Rightarrow> map_of snapshots sid \<noteq> None | _ \<Rightarrow> False)) (list_at (u ''observations'') e)
        \<and> is_list (lookup (u ''protected'') e) \<and> list_all is_text (list_at (u ''protected'') e)
        \<and> none_or is_sha (lookup (u ''logical_identity'') e)
        \<and> none_or (is_from 0) (lookup (u ''first_seen_generation'') e)
        \<and> none_or (is_from 0) (lookup (u ''last_seen_generation'') e)))"

definition person_blocks_valid :: "jobject \<Rightarrow> ustr \<times> json \<Rightarrow> bool" where
  "person_blocks_valid snapshots = (\<lambda>(pointer, v). pointer \<noteq> [] \<and> is_object v \<and> list_all (entry_valid snapshots) (fields_of v))"

definition check_blocks :: "jobject \<Rightarrow> sync_fault + unit" where
  "check_blocks d = require (list_all (person_blocks_valid (object_at (u ''snapshots'') d)) (object_at (u ''blocks'') d)) ''blocks''"

definition tombstone_valid :: "json \<Rightarrow> bool" where
  "tombstone_valid v \<longleftrightarrow> (let t = fields_of v in is_text (lookup (u ''person'') t) \<and> is_text (lookup (u ''block_hash'') t)
     \<and> is_text (lookup (u ''reason'') t) \<and> is_from 0 (lookup (u ''generation'') t) \<and> none_or is_sha (lookup (u ''logical_identity'') t))"

definition check_tombstones :: "jobject \<Rightarrow> sync_fault + unit" where
  "check_tombstones d =
     bindE (require (list_all (\<lambda>k. list_all is_object (list_at k d)) list_fields) ''list entry'') (\<lambda>_.
     require (list_all tombstone_valid (list_at (u ''manual_tombstones'') d)) ''manual_tombstones'')"

text \<open>Releases: one for each generation, in order, at moments that do not decrease, the last for the present master.\<close>

definition release_valid :: "json \<Rightarrow> bool" where
  "release_valid v \<longleftrightarrow> (let r = fields_of v in is_from 1 (lookup (u ''generation'') r)
     \<and> filled_text (lookup (u ''path'') r) \<and> is_sha (lookup (u ''master_sha256'') r))"

definition manifest_timestamp :: "(ustr \<Rightarrow> moment option) \<Rightarrow> json \<Rightarrow> string \<Rightarrow> sync_fault + int" where
  "manifest_timestamp clock v field = (case v of
       JStr s \<Rightarrow> (if s = [] then Inl (Manifest_Invalid (u field))
         else case clock s of Some (Aware t) \<Rightarrow> Inr t | _ \<Rightarrow> Inl (Manifest_Invalid (u field)))
     | _ \<Rightarrow> Inl (Manifest_Invalid (u field)))"

definition release_time :: "(ustr \<Rightarrow> moment option) \<Rightarrow> json \<Rightarrow> sync_fault + int" where
  "release_time clock v = bindE (require (release_valid v) ''releases'') (\<lambda>_.
     manifest_timestamp clock (lookup (u ''created_at'') (fields_of v)) ''releases'')"

definition check_releases :: "(ustr \<Rightarrow> moment option) \<Rightarrow> jobject \<Rightarrow> sync_fault + unit" where
  "check_releases clock d = (let releases = list_at (u ''releases'') d in
     bindE (mapE (release_time clock) releases) (\<lambda>times.
     bindE (require (int (length releases) = number_at (u ''generation'') d
       \<and> map (\<lambda>r. number_at (u ''generation'') (fields_of r)) releases = map int [1..<Suc (length releases)]) ''releases'') (\<lambda>_.
     bindE (require (sorted times) ''releases'') (\<lambda>_.
     require (releases = [] \<or> text_at (u ''master_sha256'') (fields_of (last releases))
       = text_at (u ''sha256'') (object_at (u ''master'') d)) ''releases''))))"

text \<open>The parent generation, whose master is that of the release before the last.\<close>

definition parent_files_valid :: "int \<Rightarrow> jobject \<Rightarrow> bool" where
  "parent_files_valid generation parent =
     (let path = lookup (u ''manifest_path'') parent; sha = lookup (u ''manifest_sha256'') parent in
      if generation = 1 then path = JNull \<and> sha = JNull else filled_text path \<and> is_sha sha)"

definition parent_valid :: "int \<Rightarrow> json list \<Rightarrow> json \<Rightarrow> bool" where
  "parent_valid generation releases v \<longleftrightarrow>
     (if generation = 0 then v = JNull
      else is_object v \<and> lookup (u ''generation'') (fields_of v) = JNumber (generation - 1)
        \<and> is_file_identity (lookup (u ''master'') (fields_of v))
        \<and> (generation > 1 \<longrightarrow> text_at (u ''sha256'') (object_at (u ''master'') (fields_of v))
             = text_at (u ''master_sha256'') (fields_of (releases ! (length releases - 2))))
        \<and> parent_files_valid generation (fields_of v))"

definition check_parent :: "jobject \<Rightarrow> sync_fault + unit" where
  "check_parent d = require (parent_valid (number_at (u ''generation'') d) (list_at (u ''releases'') d)
     (lookup (u ''parent_release'') d)) ''parent_release''"

definition check_time_field :: "(ustr \<Rightarrow> moment option) \<Rightarrow> jobject \<Rightarrow> string \<Rightarrow> sync_fault + unit" where
  "check_time_field clock d field = (case map_of d (u field) of None \<Rightarrow> Inr ()
     | Some v \<Rightarrow> bindE (manifest_timestamp clock v field) (\<lambda>_. Inr ()))"

definition artifact_names :: "ustr list" where
  "artifact_names = map u [''master.ged'', ''quality.md'', ''rollback.json'', ''update.md'']"

definition artifacts_valid :: "json \<Rightarrow> bool" where
  "artifacts_valid v \<longleftrightarrow> is_object v \<and> set (map fst (fields_of v)) = set artifact_names \<and> list_all (\<lambda>(k, c). is_sha c) (fields_of v)"

definition check_rest :: "(ustr \<Rightarrow> moment option) \<Rightarrow> jobject \<Rightarrow> sync_fault + unit" where
  "check_rest clock d =
     bindE (check_time_field clock d ''created_at'') (\<lambda>_. bindE (check_time_field clock d ''updated_at'') (\<lambda>_.
     bindE (require (none_or artifacts_valid (lookup (u ''artifact_checksums'') d)) ''artifact_checksums'') (\<lambda>_.
     require (list_all (\<lambda>(k, n). is_from 1 n) (object_at (u ''next_ids'') d)) ''next_ids'')))"

definition validate_manifest :: "(ustr \<Rightarrow> moment option) \<Rightarrow> jobject \<Rightarrow> sync_fault + unit" where
  "validate_manifest clock d =
     bindE (check_shape d) (\<lambda>_. bindE (check_snapshots clock d) (\<lambda>vendors.
     bindE (check_active d vendors) (\<lambda>_. bindE (check_bindings d vendors) (\<lambda>_.
     bindE (check_blocks d) (\<lambda>_. bindE (check_tombstones d) (\<lambda>_.
     bindE (check_releases clock d) (\<lambda>_. bindE (check_parent d) (\<lambda>_. check_rest clock d))))))))"

section \<open>Loading a manifest\<close>

text \<open>\<open>artifact\<close> gives the digest of a file beside the manifest, if it is one; \<open>read_json\<close> is the parsed
  manifest file.\<close>

definition verify_manifest_artifacts :: "(ustr \<rightharpoonup> ustr) \<Rightarrow> jobject \<Rightarrow> sync_fault + unit" where
  "verify_manifest_artifacts artifact d =
     guardE (list_all (\<lambda>(name, expected). map_option JStr (artifact name) = Some expected) (object_at (u ''artifact_checksums'') d))
       Artifact_Mismatch"

definition load_manifest :: "(ustr \<Rightarrow> moment option) \<Rightarrow> (ustr \<rightharpoonup> ustr) \<Rightarrow> ingress_error + jobject \<Rightarrow> ustr \<Rightarrow> sync_fault + jobject" where
  "load_manifest clock artifact read_json master_sha =
     bindE (ingressE read_json) (\<lambda>d. bindE (validate_manifest clock d) (\<lambda>_.
     bindE (verify_manifest_artifacts artifact d) (\<lambda>_.
     let expected = text_at (u ''sha256'') (object_at (u ''master'') d) in
     if expected \<noteq> master_sha then Inl (Master_Mismatch expected master_sha) else Inr d)))"

definition source_vendors :: "jobject \<Rightarrow> ustr \<rightharpoonup> ustr" where
  "source_vendors snapshots = map_of (rev (map (\<lambda>(k, v). (text_at (u ''source_id'') (fields_of v), text_at (u ''vendor'') (fields_of v))) snapshots))"

definition continuous_spec :: "jobject \<Rightarrow> snapshot_spec \<Rightarrow> sync_fault + unit" where
  "continuous_spec snapshots spec =
     bindE (case source_vendors snapshots (sn_source_id spec) of None \<Rightarrow> Inr ()
        | Some vendor \<Rightarrow> guardE (vendor = sn_vendor spec) (Configuration Vendor_Changed)) (\<lambda>_.
     case map_of snapshots (snapshot_id spec) of None \<Rightarrow> Inr ()
        | Some s \<Rightarrow> guardE (text_at (u ''sha256'') (fields_of s) = sn_sha256 spec) (Configuration Content_Conflict))"

definition validate_snapshot_continuity :: "jobject \<Rightarrow> snapshot_spec list \<Rightarrow> sync_fault + unit" where
  "validate_snapshot_continuity d specs = foldE (\<lambda>_. continuous_spec (object_at (u ''snapshots'') d)) () specs"

end
