(* ===== verification/Sync_Encoding.thy ===== *)
theory Sync_Encoding
  imports Sync_Manifest
begin

text \<open>
  The manifest between its JSON object and the values the synchronizer computes with: what
  \<open>_match_people\<close> and \<open>_reconcile_person_blocks\<close> read of it, what they write back, the history of
  snapshots (\<open>_seed_snapshot_history\<close>) and the record of a release (\<open>_perform_update\<close>,
  \<open>_perform_rebase\<close> of \<open>gedcom/sync_operations.py\<close>). Fields of an entry the program never writes are not kept.
\<close>

section \<open>Reading\<close>

definition text_value :: "json \<Rightarrow> ustr" where
  "text_value v = (case v of JStr s \<Rightarrow> s | _ \<Rightarrow> [])"

definition text_option :: "json \<Rightarrow> ustr option" where
  "text_option v = (case v of JStr s \<Rightarrow> Some s | _ \<Rightarrow> None)"

definition number_option :: "json \<Rightarrow> int option" where
  "number_option v = (case v of JNumber n \<Rightarrow> Some n | _ \<Rightarrow> None)"

definition entry_of :: "json \<Rightarrow> block_entry" where
  "entry_of v = (let e = fields_of v in
     \<lparr>be_tag = text_at (u ''tag'') e, be_kind = text_option (lookup (u ''kind'') e),
      be_protected = map text_value (list_at (u ''protected'') e), be_observations = map text_value (list_at (u ''observations'') e),
      be_logical = text_option (lookup (u ''logical_identity'') e),
      be_first_seen = number_option (lookup (u ''first_seen_generation'') e),
      be_last_seen = number_option (lookup (u ''last_seen_generation'') e)\<rparr>)"

definition registry_of :: "json \<Rightarrow> registry" where
  "registry_of v = map (\<lambda>(k, e). (k, entry_of e)) (fields_of v)"

definition tombstone_of :: "json \<Rightarrow> tombstone" where
  "tombstone_of v = \<lparr>tb_person = text_at (u ''person'') (fields_of v), tb_block_hash = text_at (u ''block_hash'') (fields_of v),
     tb_logical = text_option (lookup (u ''logical_identity'') (fields_of v))\<rparr>"

definition removal_of :: "json \<Rightarrow> removal" where
  "removal_of v = (let r = fields_of v in \<lparr>rm_generation = number_at (u ''generation'') r, rm_person = text_at (u ''person'') r,
     rm_block_hash = text_at (u ''block_hash'') r, rm_tag = text_at (u ''tag'') r, rm_reason = text_at (u ''reason'') r\<rparr>)"

definition manifest_of :: "jobject \<Rightarrow> sync_manifest" where
  "manifest_of d = \<lparr>sm_tree_id = text_at (u ''tree_id'') d, sm_generation = number_at (u ''generation'') d,
     sm_active = map (\<lambda>(k, v). (k, text_value v)) (object_at (u ''active_snapshots'') d),
     sm_blocks = map (\<lambda>(k, v). (k, registry_of v)) (object_at (u ''blocks'') d),
     sm_tombstones = map tombstone_of (list_at (u ''manual_tombstones'') d),
     sm_removed = map removal_of (list_at (u ''removed'') d)\<rparr>"

definition bindings_of :: "jobject \<Rightarrow> ustr \<Rightarrow> ustr \<rightharpoonup> ustr" where
  "bindings_of d source = map_of (map (\<lambda>(k, v). (k, text_value v)) (object_at source (object_at (u ''person_bindings'') d)))"

definition next_ids_of :: "jobject \<Rightarrow> (ustr \<times> int) list" where
  "next_ids_of d = map (\<lambda>(k, v). (k, case v of JNumber n \<Rightarrow> n | _ \<Rightarrow> 1)) (object_at (u ''next_ids'') d)"

section \<open>Writing\<close>

definition optional_field :: "string \<Rightarrow> ('a \<Rightarrow> json) \<Rightarrow> 'a option \<Rightarrow> jobject" where
  "optional_field key f v = (case v of None \<Rightarrow> [] | Some x \<Rightarrow> [(u key, f x)])"

definition entry_json :: "block_entry \<Rightarrow> json" where
  "entry_json e = JObj ([(u ''tag'', JStr (be_tag e))] @ optional_field ''kind'' JStr (be_kind e)
     @ [(u ''protected'', JList (map JStr (be_protected e))), (u ''observations'', JList (map JStr (be_observations e)))]
     @ optional_field ''first_seen_generation'' JNumber (be_first_seen e)
     @ optional_field ''logical_identity'' JStr (be_logical e) @ optional_field ''last_seen_generation'' JNumber (be_last_seen e))"

definition registry_json :: "registry \<Rightarrow> json" where
  "registry_json r = JObj (map (\<lambda>(k, e). (k, entry_json e)) r)"

definition removal_json :: "removal \<Rightarrow> json" where
  "removal_json r = JObj [(u ''generation'', JNumber (rm_generation r)), (u ''person'', JStr (rm_person r)),
     (u ''block_hash'', JStr (rm_block_hash r)), (u ''tag'', JStr (rm_tag r)), (u ''reason'', JStr (rm_reason r))]"

definition put :: "string \<Rightarrow> json \<Rightarrow> jobject \<Rightarrow> jobject" where
  "put key v d = AList.update (u key) v d"

text \<open>\<open>dict.update\<close>.\<close>

definition update_all :: "(ustr \<times> 'v) list \<Rightarrow> (ustr \<times> 'v) list \<Rightarrow> (ustr \<times> 'v) list" where
  "update_all news d = fold (\<lambda>(k, v). AList.update k v) news d"

section \<open>Snapshot history\<close>

definition snapshot_json :: "(snapshot_spec \<Rightarrow> ustr) \<Rightarrow> snapshot_spec \<Rightarrow> json" where
  "snapshot_json observed spec = JObj [(u ''snapshot_id'', JStr (snapshot_id spec)), (u ''source_id'', JStr (sn_source_id spec)),
     (u ''vendor'', JStr (sn_vendor spec)), (u ''path'', JStr (sn_path spec)), (u ''sha256'', JStr (sn_sha256 spec)),
     (u ''exported_at'', JStr (sn_exported_at spec)), (u ''date_basis'', JStr (sn_date_basis spec)),
     (u ''observed_at'', JStr (observed spec))]"

definition seed_snapshot :: "(snapshot_spec \<Rightarrow> ustr) \<Rightarrow> snapshot_spec \<Rightarrow> jobject \<times> jobject \<Rightarrow> jobject \<times> jobject" where
  "seed_snapshot observed spec = (\<lambda>(snapshots, active).
     (if map_of snapshots (snapshot_id spec) = None then snapshots @ [(snapshot_id spec, snapshot_json observed spec)] else snapshots,
      AList.update (sn_source_id spec) (JStr (snapshot_id spec)) active))"

definition seed_snapshot_history :: "(snapshot_spec \<Rightarrow> ustr) \<Rightarrow> snapshot_spec list \<Rightarrow> jobject \<Rightarrow> jobject" where
  "seed_snapshot_history observed specs d =
     (let (snapshots, active) = fold (seed_snapshot observed) specs (object_at (u ''snapshots'') d, object_at (u ''active_snapshots'') d) in
      put ''active_snapshots'' (JObj active) (put ''snapshots'' (JObj snapshots) d))"

section \<open>A release\<close>

text \<open>\<open>updated_at\<close> is the time of the release, \<open>kind\<close> what a rebase adds to its entry; the manifest the release
  continues is named by path and digest, if there was one.\<close>

record release_info =
  ri_directory :: ustr
  ri_master_sha :: ustr
  ri_updated_at :: ustr
  ri_manifest_path :: "ustr option"
  ri_manifest_sha :: "ustr option"
  ri_kind :: "ustr option"

definition optional_text :: "ustr option \<Rightarrow> json" where
  "optional_text v = (case v of None \<Rightarrow> JNull | Some s \<Rightarrow> JStr s)"

definition in_directory :: "ustr \<Rightarrow> string \<Rightarrow> ustr" where
  "in_directory directory name = directory @ u ''/'' @ u name"

definition parent_release :: "release_info \<Rightarrow> int \<Rightarrow> json \<Rightarrow> json" where
  "parent_release r generation master = JObj [(u ''generation'', JNumber generation), (u ''master'', master),
     (u ''manifest_path'', optional_text (ri_manifest_path r)), (u ''manifest_sha256'', optional_text (ri_manifest_sha r))]"

definition release_entry :: "release_info \<Rightarrow> int \<Rightarrow> json" where
  "release_entry r generation = JObj ([(u ''generation'', JNumber generation), (u ''path'', JStr (ri_directory r)),
     (u ''master_sha256'', JStr (ri_master_sha r)), (u ''created_at'', JStr (ri_updated_at r))]
     @ optional_field ''kind'' JStr (ri_kind r))"

text \<open>The manifest of generation \<open>g\<close> with the release that continues it, as both operations record it.\<close>

definition record_release :: "release_info \<Rightarrow> int \<Rightarrow> jobject \<Rightarrow> jobject" where
  "record_release r g d =
     put ''releases'' (JList (list_at (u ''releases'') d @ [release_entry r (g + 1)]))
     (put ''master'' (JObj [(u ''path'', JStr (in_directory (ri_directory r) ''master.ged'')), (u ''sha256'', JStr (ri_master_sha r))])
     (put ''parent_release'' (parent_release r g (lookup (u ''master'') d))
     (put ''updated_at'' (JStr (ri_updated_at r)) (put ''generation'' (JNumber (g + 1)) d))))"

text \<open>The checksums of the four artifacts, given with their texts.\<close>

definition record_checksums :: "(ustr \<Rightarrow> ustr) \<Rightarrow> (string \<times> ustr) list \<Rightarrow> jobject \<Rightarrow> jobject" where
  "record_checksums sha256 artifacts d = put ''artifact_checksums'' (JObj (map (\<lambda>(name, text). (u name, JStr (sha256 text))) artifacts)) d"

definition release_name :: "int \<Rightarrow> ustr \<Rightarrow> ustr" where
  "release_name generation timestamp = u ''g'' @ padded 4 (nat generation) @ u ''-'' @ timestamp"

end
