(* ===== verification/Gedcom_Rendering.thy ===== *)
theory Gedcom_Rendering
  imports Gedcom_People Gedcom_Serializer Gedcom_Validator Gedcom_Loader "HOL-Library.Sublist"
begin

text \<open>
  \<open>render_gedcom\<close> of \<open>gedcom/serialization.py\<close>, with \<open>_record_to_gedcom_lines\<close> of \<open>gedcom/identity.py\<close>
  for people without source lines: one document out of people and source documents, with a header, a
  submitter, the records that are exported and the check of the result. The branch for the trees of the
  \<open>python-gedcom\<close> parser is not modelled, and staging the text as a file is not.
\<close>

section \<open>People without source lines\<close>

text \<open>The characters at which \<open>str.splitlines\<close> ends a line; a carriage return takes a line feed with it.\<close>

definition line_break :: "nat \<Rightarrow> bool" where
  "line_break c \<longleftrightarrow> c \<in> {10, 11, 12, 13, 28, 29, 30, 133, 8232, 8233}"

function split_lines :: "ustr \<Rightarrow> ustr list" where
  "split_lines s = (if s = [] then []
     else takeWhile (\<lambda>c. \<not> line_break c) s # (case dropWhile (\<lambda>c. \<not> line_break c) s of
         [] \<Rightarrow> []
       | c # cs \<Rightarrow> split_lines (if c = 13 \<and> cs \<noteq> [] \<and> hd cs = 10 then tl cs else cs)))"
  by pat_completeness auto
termination
proof (relation "measure length")
  fix s c cs assume s: "s \<noteq> []" and r: "dropWhile (\<lambda>c. \<not> line_break c) s = c # cs"
  have "length (dropWhile (\<lambda>c. \<not> line_break c) s) \<le> length s" by (rule length_dropWhile_le)
  with r show "(if c = 13 \<and> cs \<noteq> [] \<and> hd cs = 10 then tl cs else cs, s) \<in> measure length" by auto
qed simp

declare split_lines.simps [simp del]

definition name_text :: "ustr \<Rightarrow> ustr \<Rightarrow> ustr" where
  "name_text given surname = (if surname \<noteq> [] then py_strip (given @ u '' /'' @ surname @ u ''/'') else given)"

definition text_line :: "string \<Rightarrow> ustr \<Rightarrow> ustr" where
  "text_line tag value = u tag @ value @ [10]"

definition personal_name_text :: "personal_name \<Rightarrow> ustr" where
  "personal_name_text n =
     text_line ''1 NAME '' (if pn_value n \<noteq> [] then pn_value n else name_text (pn_given n) (pn_surname n))
     @ concat (map (\<lambda>(tag, value). if value = [] then [] else text_line tag value)
         [(''2 TYPE '', pn_type n), (''2 NPFX '', pn_prefix n), (''2 GIVN '', pn_given n), (''2 NICK '', pn_nickname n),
          (''2 SURN '', pn_surname n), (''2 NSFX '', pn_suffix n)])"

definition names_text :: "individual \<Rightarrow> ustr" where
  "names_text p = (if in_names p \<noteq> [] then concat (map personal_name_text (in_names p))
     else (let name = name_text (in_given_name p) (in_surname p) in
       (if name \<noteq> [] then text_line ''1 NAME '' name else [])
       @ concat (map (text_line ''1 NAME '') (filter (\<lambda>a. a \<noteq> [] \<and> a \<noteq> full_name p) (in_alternate_names p)))))"

definition fact_text :: "genealogical_fact \<Rightarrow> ustr" where
  "fact_text f = u ''1 '' @ gf_tag f @ (if gf_value f \<noteq> [] then 32 # gf_value f else []) @ [10]
     @ (if gf_date f \<noteq> [] then text_line ''2 DATE '' (gf_date f) else [])
     @ (if gf_place f \<noteq> [] then text_line ''2 PLAC '' (gf_place f)
          @ (if gf_country f \<noteq> [] then text_line ''3 CTRY '' (gf_country f) else [])
        else if gf_country f \<noteq> [] then text_line ''2 PLAC '' (gf_country f) else [])"

definition vital_text :: "individual \<Rightarrow> string \<Rightarrow> ustr \<Rightarrow> ustr \<Rightarrow> ustr" where
  "vital_text p tag date place = (case entries (in_facts p) (u tag) of
       [] \<Rightarrow> if date \<noteq> [] \<or> place \<noteq> []
         then fact_text \<lparr>gf_tag = u tag, gf_value = [], gf_date = date, gf_place = place, gf_country = []\<rparr> else []
     | facts \<Rightarrow> concat (map fact_text facts))"

definition other_facts_text :: "individual \<Rightarrow> ustr" where
  "other_facts_text p = concat (map (\<lambda>(tag, facts).
       if tag \<in> {u ''BIRT'', u ''DEAT''} \<or> map_of (in_extra_fields p) tag \<noteq> None then [] else concat (map fact_text facts))
     (sort_key fst (in_facts p)))"

definition family_text :: "individual \<Rightarrow> ustr" where
  "family_text p = concat (map (\<lambda>(tag, pointer). if tag \<in> {u ''FAMS'', u ''FAMC''} \<and> pointer \<noteq> []
     then u ''1 '' @ tag @ 32 # pointer @ [10] else []) (in_family_references p))"

definition extra_text :: "individual \<Rightarrow> ustr" where
  "extra_text p = concat (map (\<lambda>(tag, values). concat (map (\<lambda>v. if v \<noteq> [] \<and> last v = 10 then v else v @ [10]) values)) (in_extra_fields p))"

definition record_to_gedcom_lines :: "individual \<Rightarrow> ustr" where
  "record_to_gedcom_lines p =
     u ''0 '' @ in_pointer p @ u '' INDI'' @ [10] @ names_text p
     @ (if in_gender p \<noteq> [] then text_line ''1 SEX '' (in_gender p) else [])
     @ vital_text p ''BIRT'' (in_birth_date p) (in_birth_place p)
     @ vital_text p ''DEAT'' (in_death_date p) (in_death_place p)
     @ other_facts_text p @ family_text p @ extra_text p"

section \<open>The header\<close>

definition single_value_tags :: "ustr list" where
  "single_value_tags = map u [''SOUR'', ''DEST'', ''DATE'', ''SUBM'', ''FILE'', ''COPR'', ''LANG'', ''PLAC'']"

text \<open>The blocks kept so far with the tags of theirs; a block is kept once, a single-valued tag once.\<close>

definition add_header_block :: "ustr list list \<times> ustr list \<Rightarrow> ustr list \<Rightarrow> gedcom_error + ustr list list \<times> ustr list" where
  "add_header_block = (\<lambda>(blocks, tags) block. bindE (first_line block) (\<lambda>first. let tag = gl_tag first in
     Inr (if tag \<in> {u ''GEDC'', u ''CHAR''} then (blocks, tags)
       else if block \<notin> set blocks \<and> \<not> (tag \<in> set single_value_tags \<and> tag \<in> set tags) then (blocks @ [block], tags @ [tag])
       else (blocks, tags))))"

definition add_header :: "ustr list list \<times> ustr list \<Rightarrow> gedcom_record \<Rightarrow> gedcom_error + ustr list list \<times> ustr list" where
  "add_header st header = bindE (top_level_blocks (gr_lines header)) (foldE add_header_block st)"

definition normalise_header_lines :: "gedcom_record list \<Rightarrow> ustr \<Rightarrow> gedcom_error + ustr list" where
  "normalise_header_lines headers version =
     (if headers = [] then Inr [u ''0 HEAD'', u ''1 SOUR GedcomMergeTool'', u ''1 SUBM @U1@'', u ''1 GEDC'', u ''2 VERS '' @ version, u ''1 CHAR UTF-8'']
      else bindE (foldE add_header ([], []) headers) (\<lambda>(blocks, tags).
        let blocks' = (if u ''SUBM'' \<in> set tags then blocks else blocks @ [[u ''1 SUBM @U1@'']]) in
        Inr (u ''0 HEAD'' # concat blocks' @ [u ''1 GEDC'', u ''2 VERS '' @ version, u ''1 CHAR UTF-8''])))"

section \<open>The submitter\<close>

definition block_submitter :: "ustr list \<Rightarrow> gedcom_error + ustr list" where
  "block_submitter block = bindE (first_line block) (\<lambda>first.
     Inr (if gl_tag first = u ''SUBM'' then [py_strip (gl_value first)] else []))"

fun replace_submitter :: "ustr \<Rightarrow> ustr list \<Rightarrow> gedcom_error + ustr list" where
  "replace_submitter candidate [] = Inr []"
| "replace_submitter candidate (line # lines) = bindE (parse0 line) (\<lambda>p.
     if gl_level p = 1 \<and> gl_tag p = u ''SUBM'' then Inr ((u ''1 SUBM '' @ candidate) # lines)
     else bindE (replace_submitter candidate lines) (\<lambda>rest. Inr (line # rest)))"

text \<open>\<open>@U1_1@\<close>, \<open>@U1_2@\<close> and so on, until one is free.\<close>

definition free_submitter :: "ustr list \<Rightarrow> ustr" where
  "free_submitter used = suffixed_pointer (u ''U'') 1 (probe_suffix used (u ''U'') 1 1)"

definition pointers_of_records :: "gedcom_record list \<Rightarrow> gedcom_error + ustr list" where
  "pointers_of_records records = bindE (mapE record_pointer records) (\<lambda>ps. Inr (filter (\<lambda>p. p \<noteq> []) ps))"

definition records_with_tags :: "gedcom_record list \<Rightarrow> gedcom_error + (ustr \<times> gedcom_record) list" where
  "records_with_tags records = mapE (\<lambda>r. bindE (record_tag r) (\<lambda>tag. Inr (tag, r))) records"

text \<open>The lines of a new submitter record, if one is needed, and the header that names it.\<close>

definition ensure_submitter_record :: "ustr list \<Rightarrow> gedcom_record list \<Rightarrow> gedcom_error + ustr list \<times> ustr list" where
  "ensure_submitter_record header_lines source_records =
     bindE (top_level_blocks header_lines) (\<lambda>blocks. bindE (mapE block_submitter blocks) (\<lambda>values.
     bindE (pointers_of_records source_records) (\<lambda>source_pointers. bindE (records_with_tags source_records) (\<lambda>tagged.
     bindE (mapE record_pointer (map snd (filter (\<lambda>(tag, r). tag = u ''SUBM'') tagged))) (\<lambda>submitters.
     let requested = (case concat values of [] \<Rightarrow> u ''@U1@'' | v # _ \<Rightarrow> v) in
     if requested \<in> set submitters then Inr ([], header_lines)
     else let candidate = (if requested \<in> set source_pointers then free_submitter source_pointers else requested) in
       bindE (if requested \<in> set source_pointers then replace_submitter candidate header_lines else Inr header_lines) (\<lambda>lines.
       Inr ([u ''0 '' @ candidate @ u '' SUBM'', u ''1 NAME Gedcom Merge Tool''], lines)))))))"

section \<open>The document\<close>

text \<open>The lines of a person: its own, else those of the last record given for its pointer, else a rendering.\<close>

definition survivor_lines :: "individual list \<Rightarrow> ustr \<rightharpoonup> ustr list" where
  "survivor_lines people = map_of (rev (map (\<lambda>p. (in_pointer p, in_raw_lines p)) (filter (\<lambda>p. in_raw_lines p \<noteq> []) people)))"

definition person_source_lines :: "individual list \<Rightarrow> individual \<Rightarrow> ustr list" where
  "person_source_lines people p = (if in_raw_lines p \<noteq> [] then in_raw_lines p
     else case survivor_lines people (in_pointer p) of Some ls \<Rightarrow> ls
        | None \<Rightarrow> split_lines (rstrip_if (\<lambda>c. c = 10) (record_to_gedcom_lines p)))"

definition included :: "ustr list option \<Rightarrow> ustr \<Rightarrow> bool" where
  "included selection pointer = (case selection of None \<Rightarrow> True | Some ps \<Rightarrow> pointer \<in> set ps)"

definition rewritten :: "(ustr \<rightharpoonup> ustr) \<Rightarrow> ustr list \<Rightarrow> gedcom_error + ustr list" where
  "rewritten pointer_map lines = mapE (\<lambda>line. rewrite_xrefs line pointer_map) lines"

definition people_lines :: "(ustr \<rightharpoonup> ustr) \<Rightarrow> ustr list option \<Rightarrow> individual list \<Rightarrow> gedcom_error + ustr list list" where
  "people_lines pointer_map individuals people =
     mapE (\<lambda>p. rewritten pointer_map (person_source_lines people p)) (filter (\<lambda>p. included individuals (in_pointer p)) people)"

definition tag_is :: "string \<Rightarrow> ustr \<times> gedcom_record \<Rightarrow> bool" where
  "tag_is tag = (\<lambda>(t, r). t = u tag)"

definition ordered_records :: "(ustr \<times> gedcom_record) list \<Rightarrow> (ustr \<times> gedcom_record) list" where
  "ordered_records tagged = (let others = filter (\<lambda>x. \<not> tag_is ''HEAD'' x \<and> \<not> tag_is ''TRLR'' x \<and> \<not> tag_is ''INDI'' x) tagged in
     filter (tag_is ''SUBM'') others @ filter (tag_is ''FAM'') others
     @ filter (\<lambda>x. \<not> tag_is ''SUBM'' x \<and> \<not> tag_is ''FAM'' x) others)"

text \<open>A family outside the selection is left out.\<close>

definition family_skipped :: "ustr list option \<Rightarrow> ustr \<times> gedcom_record \<Rightarrow> gedcom_error + bool" where
  "family_skipped families x = (if tag_is ''FAM'' x \<and> families \<noteq> None
     then bindE (record_pointer (snd x)) (\<lambda>pointer. Inr (\<not> included families pointer)) else Inr False)"

definition family_dependencies :: "(ustr \<rightharpoonup> ustr) \<Rightarrow> ustr list option \<Rightarrow> (ustr \<times> gedcom_record) list \<Rightarrow> gedcom_error + ustr list" where
  "family_dependencies pointer_map families records =
     bindE (mapE (\<lambda>x. bindE (family_skipped families x) (\<lambda>skip.
         if skip then Inr [] else rewritten pointer_map (gr_lines (snd x)))) (filter (tag_is ''FAM'') records)) (\<lambda>ls. Inr (concat ls))"

text \<open>The pointers of the auxiliary records a selection keeps; nothing restricts them without a selection.\<close>

definition retained_auxiliary :: "(ustr \<rightharpoonup> ustr) \<Rightarrow> ustr list option \<Rightarrow> bool \<Rightarrow> ustr list \<Rightarrow> ustr list \<Rightarrow> gedcom_record list
    \<Rightarrow> (ustr \<times> gedcom_record) list \<Rightarrow> gedcom_error + ustr list" where
  "retained_auxiliary pointer_map families rooted header_lines person_lines source_records records =
     (if rooted then bindE (family_dependencies pointer_map families records) (\<lambda>dependencies.
        rooted_auxiliary_pointer_closure (header_lines @ person_lines @ dependencies) source_records pointer_map)
      else Inr [])"

text \<open>The lines of a record in the output, with no lines when it is left out.\<close>

definition exported_lines :: "(ustr \<rightharpoonup> ustr) \<Rightarrow> ustr list option \<Rightarrow> bool \<Rightarrow> ustr list \<Rightarrow> ustr \<times> gedcom_record \<Rightarrow> gedcom_error + ustr list" where
  "exported_lines pointer_map families rooted retained x =
     bindE (family_skipped families x) (\<lambda>skip. if skip then Inr []
     else bindE (rewritten pointer_map (gr_lines (snd x))) (\<lambda>lines.
       if rooted \<and> \<not> tag_is ''FAM'' x
       then bindE (first_line lines) (\<lambda>first.
         Inr (if fst x \<notin> set rooted_auxiliary_record_tags \<or> gl_xref first \<notin> set retained then [] else lines))
       else Inr lines))"

definition tagged_lines :: "(ustr \<times> gedcom_record) list \<Rightarrow> ustr list list \<Rightarrow> (ustr \<times> gedcom_record \<Rightarrow> bool) \<Rightarrow> ustr list" where
  "tagged_lines records lines keep = concat (map snd (filter (\<lambda>(x, ls). keep x) (zip records lines)))"

definition document_lines :: "individual list \<Rightarrow> gedcom_record list \<Rightarrow> (ustr \<rightharpoonup> ustr) \<Rightarrow> ustr list option \<Rightarrow> ustr list option
    \<Rightarrow> ustr \<Rightarrow> gedcom_error + ustr list" where
  "document_lines people source_records pointer_map individuals families version =
     bindE (records_with_tags source_records) (\<lambda>tagged.
     bindE (normalise_header_lines (map snd (filter (tag_is ''HEAD'') tagged)) version) (\<lambda>raw_header.
     bindE (rewritten pointer_map raw_header) (\<lambda>header0.
     bindE (ensure_submitter_record header0 source_records) (\<lambda>(submitter, header_lines).
     bindE (people_lines pointer_map individuals people) (\<lambda>persons.
     let records = ordered_records tagged; rooted = (individuals \<noteq> None \<or> families \<noteq> None) in
     bindE (retained_auxiliary pointer_map families rooted header_lines (concat persons) source_records records) (\<lambda>retained.
     bindE (mapE (exported_lines pointer_map families rooted retained) records) (\<lambda>exported.
       Inr (header_lines @ submitter @ tagged_lines records exported (tag_is ''SUBM'') @ concat persons
         @ tagged_lines records exported (tag_is ''FAM'')
         @ tagged_lines records exported (\<lambda>x. \<not> tag_is ''SUBM'' x \<and> \<not> tag_is ''FAM'' x)))))))))"

text \<open>Without source documents the people are rendered behind a default header.\<close>

definition plain_lines :: "individual list \<Rightarrow> ustr list option \<Rightarrow> ustr \<Rightarrow> gedcom_error + ustr list" where
  "plain_lines people individuals version =
     bindE (normalise_header_lines [] version) (\<lambda>header0. bindE (ensure_submitter_record header0 []) (\<lambda>(submitter, header_lines).
       Inr (header_lines @ submitter @ concat (map (\<lambda>p. split_lines (rstrip_if (\<lambda>c. c = 10) (record_to_gedcom_lines p)))
         (filter (\<lambda>p. included individuals (in_pointer p)) people)))))"

definition render_gedcom :: "individual list \<Rightarrow> gedcom_record list list \<Rightarrow> (ustr \<rightharpoonup> ustr) \<Rightarrow> ustr list option \<Rightarrow> ustr list option
    \<Rightarrow> ustr \<Rightarrow> gedcom_error + ustr" where
  "render_gedcom people documents pointer_map individuals families version =
     (if version \<notin> set supported_gedcom_versions then Inl (UnsupportedVersion version)
      else bindE (if documents \<noteq> [] then document_lines people (concat documents) pointer_map individuals families version
          else plain_lines people individuals version) (\<lambda>lines.
        bindE (wrap_long_gedcom_lines (lines @ [u ''0 TRLR''])) (\<lambda>wrapped.
        bindE (if version = u ''5.5.5'' then validate_gedcom_555 wrapped else Inr ()) (\<lambda>_.
          Inr (join [10] wrapped @ [10])))))"

section \<open>What a rendering keeps\<close>

lemma sublist_concat: "x \<in> set xss \<Longrightarrow> sublist x (concat xss)"
  by (metis concat.simps(2) concat_append in_set_conv_decomp sublist_appendI)

lemma sublist_tagged_lines:
  assumes "mapE f records = Inr lines" and "x \<in> set records" and "f x = Inr ls" and "keep x"
  shows "sublist ls (tagged_lines records lines keep)"
proof -
  from assms(2) obtain i where i: "i < length records" "x = records ! i" by (auto simp: in_set_conv_nth)
  with assms have "lines ! i = ls" "length lines = length records" by (auto dest: mapE_Inr_nth mapE_length)
  with i have "(x, ls) \<in> set (zip records lines)" by (force simp: set_zip)
  with assms(4) have "(x, ls) \<in> set (filter (\<lambda>(x, ls). keep x) (zip records lines))" by auto
  then have "ls \<in> set (map snd (filter (\<lambda>(x, ls). keep x) (zip records lines)))" by force
  then show ?thesis unfolding tagged_lines_def by (rule sublist_concat)
qed

lemma sublist_appendL: "sublist ls b \<Longrightarrow> sublist ls (a @ b)"
  and sublist_appendR: "sublist ls a \<Longrightarrow> sublist ls (a @ b)"
  by (auto simp: sublist_append)

lemma records_with_tagsD: "records_with_tags records = Inr tagged \<Longrightarrow> r \<in> set records \<Longrightarrow> record_tag r = Inr tag \<Longrightarrow> (tag, r) \<in> set tagged"
  unfolding records_with_tags_def by (drule (1) mapE_Inr_ex) simp

lemma in_ordered_records: "x \<in> set (ordered_records tagged) \<longleftrightarrow>
    x \<in> set tagged \<and> \<not> tag_is ''HEAD'' x \<and> \<not> tag_is ''TRLR'' x \<and> \<not> tag_is ''INDI'' x"
  by (auto simp: ordered_records_def Let_def)

lemma document_lines_parts:
  assumes "document_lines people source_records pointer_map individuals families version = Inr lines"
  obtains tagged header persons retained exported where "records_with_tags source_records = Inr tagged"
    "people_lines pointer_map individuals people = Inr persons"
    "mapE (exported_lines pointer_map families (individuals \<noteq> None \<or> families \<noteq> None) retained) (ordered_records tagged) = Inr exported"
    "lines = header @ tagged_lines (ordered_records tagged) exported (tag_is ''SUBM'') @ concat persons
         @ tagged_lines (ordered_records tagged) exported (tag_is ''FAM'')
         @ tagged_lines (ordered_records tagged) exported (\<lambda>x. \<not> tag_is ''SUBM'' x \<and> \<not> tag_is ''FAM'' x)"
proof -
  note eq = assms [unfolded document_lines_def Let_def bindE_Inr_iff case_prod_beta]
  from eq obtain tagged submitter persons retained exported where
    "records_with_tags source_records = Inr tagged" "people_lines pointer_map individuals people = Inr persons"
    "mapE (exported_lines pointer_map families (individuals \<noteq> None \<or> families \<noteq> None) retained) (ordered_records tagged) = Inr exported"
    "lines = (snd submitter @ fst submitter) @ tagged_lines (ordered_records tagged) exported (tag_is ''SUBM'') @ concat persons
         @ tagged_lines (ordered_records tagged) exported (tag_is ''FAM'')
         @ tagged_lines (ordered_records tagged) exported (\<lambda>x. \<not> tag_is ''SUBM'' x \<and> \<not> tag_is ''FAM'' x)"
    by auto
  then show thesis by (rule that)
qed

lemma people_are_rendered:
  assumes "document_lines people source_records pointer_map individuals families version = Inr lines"
    and "p \<in> set people" and "included individuals (in_pointer p)"
  shows "\<exists>ls. rewritten pointer_map (person_source_lines people p) = Inr ls \<and> sublist ls lines"
  using assms(1)
proof (rule document_lines_parts)
  fix tagged header persons retained exported
  assume people: "people_lines pointer_map individuals people = Inr persons"
    and lines: "lines = header @ tagged_lines (ordered_records tagged) exported (tag_is ''SUBM'') @ concat persons
         @ tagged_lines (ordered_records tagged) exported (tag_is ''FAM'')
         @ tagged_lines (ordered_records tagged) exported (\<lambda>x. \<not> tag_is ''SUBM'' x \<and> \<not> tag_is ''FAM'' x)"
  from people assms(2,3) obtain ls where "ls \<in> set persons" "rewritten pointer_map (person_source_lines people p) = Inr ls"
    unfolding people_lines_def by (auto dest!: mapE_Inr_ex [where x = p])
  then have "sublist ls (concat persons)" by (intro sublist_concat)
  then have "sublist ls lines" unfolding lines by (blast intro: sublist_appendL sublist_appendR)
  then show ?thesis using \<open>rewritten pointer_map (person_source_lines people p) = Inr ls\<close> by blast
qed

lemma records_are_rendered:
  assumes "document_lines people source_records pointer_map individuals families version = Inr lines"
    and "r \<in> set source_records" and tag: "record_tag r = Inr tag" "tag \<notin> {u ''HEAD'', u ''TRLR'', u ''INDI''}"
    and kept: "if tag = u ''FAM'' then families = None \<or> (\<exists>pointer. record_pointer r = Inr pointer \<and> included families pointer)
      else individuals = None \<and> families = None"
  shows "\<exists>ls. rewritten pointer_map (gr_lines r) = Inr ls \<and> sublist ls lines"
  using assms(1)
proof (rule document_lines_parts)
  fix tagged header persons retained exported
  assume t: "records_with_tags source_records = Inr tagged"
    and e: "mapE (exported_lines pointer_map families (individuals \<noteq> None \<or> families \<noteq> None) retained) (ordered_records tagged) = Inr exported"
    and lines: "lines = header @ tagged_lines (ordered_records tagged) exported (tag_is ''SUBM'') @ concat persons
         @ tagged_lines (ordered_records tagged) exported (tag_is ''FAM'')
         @ tagged_lines (ordered_records tagged) exported (\<lambda>x. \<not> tag_is ''SUBM'' x \<and> \<not> tag_is ''FAM'' x)"
  have x: "(tag, r) \<in> set (ordered_records tagged)"
    using records_with_tagsD [OF t assms(2) tag(1)] tag(2) by (auto simp: in_ordered_records tag_is_def)
  with e obtain ls where ls: "exported_lines pointer_map families (individuals \<noteq> None \<or> families \<noteq> None) retained (tag, r) = Inr ls"
    by (auto dest: mapE_Inr_ex)
  then have r: "rewritten pointer_map (gr_lines r) = Inr ls"
    using kept by (auto simp: exported_lines_def family_skipped_def tag_is_def result_simps included_def split: if_splits)
  have "sublist ls (tagged_lines (ordered_records tagged) exported keep)" if "keep (tag, r)" for keep
    by (rule sublist_tagged_lines [where keep = keep, OF e x ls]) (rule that)
  note in_part = this
  have "sublist ls lines"
  proof -
    consider "tag_is ''SUBM'' (tag, r)" | "tag_is ''FAM'' (tag, r)" | "\<not> tag_is ''SUBM'' (tag, r) \<and> \<not> tag_is ''FAM'' (tag, r)" by blast
    then show ?thesis
    proof cases
      case 1
      show ?thesis unfolding lines by (rule sublist_appendL, rule sublist_appendR, rule in_part, fact 1)
    next
      case 2
      show ?thesis unfolding lines
        by (rule sublist_appendL, rule sublist_appendL, rule sublist_appendL, rule sublist_appendR, rule in_part, fact 2)
    next
      case 3
      show ?thesis unfolding lines
        by (rule sublist_appendL, rule sublist_appendL, rule sublist_appendL, rule sublist_appendL, rule in_part, fact 3)
    qed
  qed
  with r show ?thesis by blast
qed

section \<open>The submitter the header names\<close>

definition header_submitter :: "ustr list \<Rightarrow> gedcom_error + ustr option" where
  "header_submitter lines = bindE (top_level_blocks lines) (\<lambda>blocks. bindE (mapE block_submitter blocks) (\<lambda>values.
     Inr (case concat values of [] \<Rightarrow> None | v # _ \<Rightarrow> Some v)))"

text \<open>The values of the level-one \<open>SUBM\<close> lines, which are those of the blocks.\<close>

definition line_submitters :: "gedcom_line list \<Rightarrow> ustr list" where
  "line_submitters ps = map (\<lambda>p. py_strip (gl_value p)) (filter (\<lambda>p. gl_level p = 1 \<and> gl_tag p = u ''SUBM'') ps)"

lemma mapE_append: "mapE f (xs @ ys) = bindE (mapE f xs) (\<lambda>a. bindE (mapE f ys) (\<lambda>b. Inr (a @ b)))"
proof (induction xs)
  case Nil
  then show ?case by (cases "mapE f ys") auto
next
  case (Cons x xs)
  then show ?case by (cases "f x"; cases "mapE f xs"; cases "mapE f ys") auto
qed

lemma block_submitter_open:
  "current \<noteq> [] \<Longrightarrow> block_submitter (current @ rest) = block_submitter current"
  by (cases current) (simp_all add: block_submitter_def first_line_def)

lemma block_submitter_line: "parse0 line = Inr p \<Longrightarrow> gl_level p = 1 \<Longrightarrow> block_submitter [line] = Inr (line_submitters [p])"
  by (simp add: block_submitter_def first_line_def line_submitters_def)

definition open_blocks :: "ustr list list \<Rightarrow> ustr list \<Rightarrow> ustr list list" where
  "open_blocks blocks current = (if current = [] then blocks else blocks @ [current])"

lemma split_blocks_submitters:
  "split_blocks 1 blocks current lines = Inr bs \<Longrightarrow> mapE block_submitter (open_blocks blocks current) = Inr vs \<Longrightarrow>
     \<exists>ps vs'. mapE parse0 lines = Inr ps \<and> mapE block_submitter bs = Inr vs' \<and> concat vs' = concat vs @ line_submitters ps"
proof (induction "1::nat" blocks current lines arbitrary: vs rule: split_blocks.induct)
  case (1 blocks current)
  then show ?case by (auto simp: open_blocks_def line_submitters_def)
next
  case (2 blocks current line lines)
  from "2.prems"(1) obtain p where p: "parse_gedcom_line 0 line = Inr p" by (auto simp: bindE_Inr_iff)
  consider "gl_level p = 1" | "gl_level p \<noteq> 1" "current \<noteq> []" | "gl_level p \<noteq> 1" "current = []" by blast
  then show ?case
  proof cases
    case 1
    from "2.prems"(2) 1 p have "mapE block_submitter (open_blocks (open_blocks blocks current) [line]) = Inr (vs @ [line_submitters [p]])"
      by (simp add: open_blocks_def mapE_append block_submitter_line parse0_def)
    from "2.hyps"(1) [OF p 1 _ this [unfolded open_blocks_def [of blocks current]]] "2.prems"(1) 1 p obtain ps vs' where
      "mapE parse0 lines = Inr ps" "mapE block_submitter bs = Inr vs'" "concat vs' = concat vs @ line_submitters [p] @ line_submitters ps"
      by (auto simp: open_blocks_def)
    then show ?thesis using p by (auto simp: parse0_def line_submitters_def)
  next
    case 2
    from "2.prems"(2) 2 have "mapE block_submitter (open_blocks blocks (current @ [line])) = Inr vs"
      by (simp add: open_blocks_def mapE_append block_submitter_open)
    from "2.hyps"(2) [OF p 2 _ this] "2.prems"(1) 2 p show ?thesis by (auto simp: parse0_def line_submitters_def)
  next
    case 3
    from "2.hyps"(3) [OF p 3(1) _ _ "2.prems"(2)] "2.prems"(1) 3 p show ?thesis by (auto simp: parse0_def line_submitters_def)
  qed
qed

lemma mapE_Inr_source: "mapE f xs = Inr ys \<Longrightarrow> y \<in> set ys \<Longrightarrow> \<exists>x \<in> set xs. f x = Inr y"
  by (induction xs arbitrary: ys) (auto simp: bindE_Inr_iff)

lemma header_submitter_lines:
  assumes "header_submitter (l # ls) = Inr (Some v)"
  shows "\<exists>ps rest. mapE parse0 ls = Inr ps \<and> line_submitters ps = v # rest"
proof -
  from assms obtain bs vs where b: "split_blocks 1 [] [] ls = Inr bs" "mapE block_submitter bs = Inr vs"
    and "(case concat vs of [] \<Rightarrow> None | v # _ \<Rightarrow> Some v) = Some v"
    by (auto simp only: header_submitter_def top_level_blocks_def bindE_Inr_iff drop_Suc_Cons drop0 One_nat_def sum.inject)
  then obtain rest where "concat vs = v # rest" by (cases "concat vs") simp_all
  note b = b this
  from split_blocks_submitters [OF b(1), of "[]"] b(2) obtain ps where
    "mapE parse0 ls = Inr ps" "concat vs = line_submitters ps" by (auto simp: open_blocks_def)
  with b(3) show ?thesis by auto
qed

lemma split_blocks_total: "mapE parse0 lines = Inr ps \<Longrightarrow> \<exists>bs. split_blocks child blocks current lines = Inr bs"
proof (induction lines arbitrary: ps blocks current)
  case (Cons line lines)
  then obtain p qs where "parse0 line = Inr p" "mapE parse0 lines = Inr qs" by (auto simp: bindE_Inr_iff)
  then show ?case using Cons.IH by (simp add: parse0_def [of line])
qed simp

lemma header_submitterI:
  assumes "mapE parse0 ls = Inr ps" and "line_submitters ps = v # rest"
  shows "header_submitter (l # ls) = Inr (Some v)"
proof -
  from split_blocks_total [OF assms(1)] obtain bs where b: "split_blocks 1 [] [] ls = Inr bs" by blast
  from split_blocks_submitters [OF b, of "[]"] assms obtain vs where "mapE block_submitter bs = Inr vs" "concat vs = v # rest"
    by (auto simp: open_blocks_def)
  with b show ?thesis by (simp add: header_submitter_def top_level_blocks_def)
qed

lemma candidate_line:
  assumes "c = 64 # name @ [64]" and "10 \<notin> set name"
  shows "\<exists>p. parse0 (u ''1 SUBM '' @ c) = Inr p \<and> gl_level p = 1 \<and> gl_tag p = u ''SUBM'' \<and> py_strip (gl_value p) = c"
proof -
  have "parts_ok 1 [] (u ''SUBM'') c" using assms by (auto simp: parts_ok_def tag_shape_def value_shape_def u_def tag_char_def is_lower_def is_upper_def is_alpha_def is_digit_def)
  from parse_render_line [OF this, of 0] have
    "parse0 (u ''1 SUBM '' @ c) = Inr \<lparr>gl_level = 1, gl_xref = [], gl_tag = u ''SUBM'', gl_value = c, gl_raw = u ''1 SUBM '' @ c\<rparr>"
    using assms by (simp add: parse0_def render_line_def u_def dec_nat.simps [of "Suc 0"])
  moreover have "py_strip c = c" using assms by (simp add: py_strip_def lstrip_if_def rstrip_if_def)
  ultimately show ?thesis by simp
qed

lemma replace_submitter_first:
  assumes c: "\<exists>p. parse0 (u ''1 SUBM '' @ c) = Inr p \<and> gl_level p = 1 \<and> gl_tag p = u ''SUBM'' \<and> py_strip (gl_value p) = c"
  shows "replace_submitter c lines = Inr lines' \<Longrightarrow> mapE parse0 lines = Inr ps \<Longrightarrow> line_submitters ps \<noteq> [] \<Longrightarrow>
    \<exists>ps' rest. mapE parse0 lines' = Inr ps' \<and> line_submitters ps' = c # rest"
proof (induction lines arbitrary: lines' ps)
  case (Cons line lines)
  then obtain p qs where p: "parse0 line = Inr p" "mapE parse0 lines = Inr qs" "ps = p # qs" by (auto simp: bindE_Inr_iff)
  show ?case
  proof (cases "gl_level p = 1 \<and> gl_tag p = u ''SUBM''")
    case True
    then have "lines' = (u ''1 SUBM '' @ c) # lines" using Cons.prems(1) p by simp
    with c p show ?thesis by (auto simp: line_submitters_def)
  next
    case False
    then obtain ls where ls: "replace_submitter c lines = Inr ls" "lines' = line # ls"
      using Cons.prems(1) p by (auto simp: bindE_Inr_iff)
    have "line_submitters qs \<noteq> []" using Cons.prems(3) p False by (auto simp: line_submitters_def)
    from Cons.IH [OF ls(1) p(2) this] ls(2) p(1) False show ?thesis by (auto simp: line_submitters_def)
  qed
qed (simp add: line_submitters_def)

lemma ensure_submitter_record_cases:
  assumes "ensure_submitter_record header records = Inr (submitter, header')" and "header_submitter header = Inr (Some v)"
  obtains (declared) tagged submitters where "submitter = []" "header' = header" "records_with_tags records = Inr tagged"
      "mapE record_pointer (map snd (filter (\<lambda>(tag, r). tag = u ''SUBM'') tagged)) = Inr submitters" "v \<in> set submitters"
  | (fresh) pointers where "pointers_of_records records = Inr pointers" "v \<notin> set pointers" "header' = header"
      "submitter = [u ''0 '' @ v @ u '' SUBM'', u ''1 NAME Gedcom Merge Tool'']"
  | (renamed) pointers where "pointers_of_records records = Inr pointers" "replace_submitter (free_submitter pointers) header = Inr header'"
      "submitter = [u ''0 '' @ free_submitter pointers @ u '' SUBM'', u ''1 NAME Gedcom Merge Tool'']"
proof -
  from assms(1) obtain blocks vals pointers tagged submitters where
    eq: "top_level_blocks header = Inr blocks" "mapE block_submitter blocks = Inr vals" "pointers_of_records records = Inr pointers"
      "records_with_tags records = Inr tagged"
      "mapE record_pointer (map snd (filter (\<lambda>(tag, r). tag = u ''SUBM'') tagged)) = Inr submitters"
    and res: "(let requested = (case concat vals of [] \<Rightarrow> u ''@U1@'' | v # _ \<Rightarrow> v) in
     if requested \<in> set submitters then Inr ([], header)
     else let candidate = (if requested \<in> set pointers then free_submitter pointers else requested) in
       bindE (if requested \<in> set pointers then replace_submitter candidate header else Inr header) (\<lambda>lines.
       Inr ([u ''0 '' @ candidate @ u '' SUBM'', u ''1 NAME Gedcom Merge Tool''], lines))) = Inr (submitter, header')"
    unfolding ensure_submitter_record_def bindE_Inr_iff by blast
  from assms(2) eq(1,2) have requested: "(case concat vals of [] \<Rightarrow> u ''@U1@'' | v # _ \<Rightarrow> v) = v"
    by (cases "concat vals") (simp_all add: header_submitter_def)
  from res [unfolded requested Let_def] have "if v \<in> set submitters then submitter = [] \<and> header' = header
     else if v \<in> set pointers then replace_submitter (free_submitter pointers) header = Inr header'
        \<and> submitter = [u ''0 '' @ free_submitter pointers @ u '' SUBM'', u ''1 NAME Gedcom Merge Tool'']
     else header' = header \<and> submitter = [u ''0 '' @ v @ u '' SUBM'', u ''1 NAME Gedcom Merge Tool'']"
    by (auto simp: bindE_Inr_iff)
  then show thesis using declared fresh renamed eq by (auto split: if_splits)
qed

lemma free_submitter_new: "free_submitter used \<notin> set used"
  using probe_suffix_spec unfolding free_submitter_def by blast

lemma suffix_digits: "1 \<le> i \<Longrightarrow> 10 \<notin> set (dec_int i)"
  using dec_nat_digits [of "nat i"] by (auto simp: dec_int_def is_digit_def)

lemma free_submitter_line:
  "\<exists>p. parse0 (u ''1 SUBM '' @ free_submitter used) = Inr p \<and> gl_level p = 1 \<and> gl_tag p = u ''SUBM''
     \<and> py_strip (gl_value p) = free_submitter used"
proof (rule candidate_line)
  let ?i = "probe_suffix used (u ''U'') 1 1"
  show "free_submitter used = 64 # (u ''U'' @ dec_nat 1 @ [95] @ dec_int ?i) @ [64]"
    by (simp add: free_submitter_def suffixed_pointer_def)
  have "1 \<le> ?i" using probe_suffix_spec by blast
  then show "10 \<notin> set (u ''U'' @ dec_nat 1 @ [95] @ dec_int ?i)"
    using dec_nat_digits [of 1] by (auto simp: suffix_digits u_def is_digit_def)
qed

section \<open>Properties\<close>

text \<open>C27: A rendered document loses nothing that is exported. Its text is the wrapped lines of a document
  that, for version 5.5.5, the validator accepts. In the document every person of the selection has all its
  source lines, in one piece and in order, with the pointers rewritten; so has every family of the
  selection, and, when nothing is selected, every record but header, trailer and people.\<close>

theorem rendering_loses_nothing:
  assumes "render_gedcom people documents pointer_map individuals families version = Inr text" and "documents \<noteq> []"
  shows "\<exists>lines wrapped. wrap_long_gedcom_lines (lines @ [u ''0 TRLR'']) = Inr wrapped \<and> text = join [10] wrapped @ [10]
    \<and> (version = u ''5.5.5'' \<longrightarrow> validate_gedcom_555 wrapped = Inr ())
    \<and> (\<forall>p \<in> set people. included individuals (in_pointer p) \<longrightarrow>
         (\<exists>ls. rewritten pointer_map (person_source_lines people p) = Inr ls \<and> sublist ls lines))
    \<and> (\<forall>r \<in> set (concat documents). \<forall>tag pointer. record_tag r = Inr tag \<and> record_pointer r = Inr pointer
         \<and> tag \<notin> {u ''HEAD'', u ''TRLR'', u ''INDI''}
         \<and> (if tag = u ''FAM'' then included families pointer else individuals = None \<and> families = None)
         \<longrightarrow> (\<exists>ls. rewritten pointer_map (gr_lines r) = Inr ls \<and> sublist ls lines))"
proof -
  from assms obtain lines wrapped where
    lines: "document_lines people (concat documents) pointer_map individuals families version = Inr lines"
    and w: "wrap_long_gedcom_lines (lines @ [u ''0 TRLR'']) = Inr wrapped" "text = join [10] wrapped @ [10]"
      "version = u ''5.5.5'' \<longrightarrow> validate_gedcom_555 wrapped = Inr ()"
    by (auto simp: render_gedcom_def bindE_Inr_iff split: if_splits)
  have "\<exists>ls. rewritten pointer_map (gr_lines r) = Inr ls \<and> sublist ls lines"
    if "r \<in> set (concat documents)" "record_tag r = Inr tag" "record_pointer r = Inr pointer" "tag \<notin> {u ''HEAD'', u ''TRLR'', u ''INDI''}"
      "if tag = u ''FAM'' then included families pointer else individuals = None \<and> families = None" for r tag pointer
    using that by (intro records_are_rendered [OF lines]) (auto split: if_splits)
  with w people_are_rendered [OF lines] show ?thesis by blast
qed


section \<open>A small document\<close>

text \<open>A header whose submitter pointer belongs to a note, a family and a person.\<close>

definition doc_record :: "string list \<Rightarrow> gedcom_record" where
  "doc_record ls = \<lparr>gr_lines = map u ls, gr_source_file = u ''tree'', gr_sequence = 0, gr_encoding = u ''utf-8''\<rparr>"

definition small_document :: "gedcom_record list" where
  "small_document = map doc_record [[''0 HEAD'', ''1 SOUR Site'', ''1 SUBM @U1@''], [''0 @U1@ NOTE kept''],
     [''0 @F1@ FAM'', ''1 HUSB @I2@''], [''0 TRLR'']]"

definition small_person :: individual where
  "small_person = (new_individual (u ''@I1@''))\<lparr>in_raw_lines := map u [''0 @I1@ INDI'', ''1 NAME Ada /Berg/'']\<rparr>"

definition small_text :: ustr where
  "small_text = join [10] (map u [''0 HEAD'', ''1 SOUR Site'', ''1 SUBM @U1_1@'', ''1 GEDC'', ''2 VERS 5.5.5'', ''1 CHAR UTF-8'',
     ''0 @U1_1@ SUBM'', ''1 NAME Gedcom Merge Tool'', ''0 @I1@ INDI'', ''1 NAME Ada /Berg/'', ''0 @F1@ FAM'', ''1 HUSB @I1@'',
     ''0 @U1@ NOTE kept'', ''0 TRLR'']) @ [10]"

lemma small_rendering:
  "render_gedcom [small_person] [small_document] (map_of [(u ''@I2@'', u ''@I1@'')]) None None (u ''5.5.5'') = Inr small_text"
  by code_simp

lemma rendering_loses_nothing_witness:
  "\<exists>lines wrapped ls. wrap_long_gedcom_lines (lines @ [u ''0 TRLR'']) = Inr wrapped \<and> small_text = join [10] wrapped @ [10]
     \<and> validate_gedcom_555 wrapped = Inr ()
     \<and> rewritten (map_of [(u ''@I2@'', u ''@I1@'')]) (map u [''0 @F1@ FAM'', ''1 HUSB @I2@'']) = Inr ls \<and> sublist ls lines"
proof -
  let ?family = "doc_record [''0 @F1@ FAM'', ''1 HUSB @I2@'']"
  have r: "?family \<in> set (concat [small_document])" "record_tag ?family = Inr (u ''FAM'')" "record_pointer ?family = Inr (u ''@F1@'')"
    "u ''FAM'' \<notin> {u ''HEAD'', u ''TRLR'', u ''INDI''}" "included None (u ''@F1@'')"
    by (simp add: small_document_def, code_simp+)
  have "[small_document] \<noteq> []" by simp
  from rendering_loses_nothing [OF small_rendering this] show ?thesis
    apply (elim exE conjE)
    apply (drule bspec [OF _ r(1)])
    apply (drule spec [where x = "u ''FAM''"], drule spec [where x = "u ''@F1@''"])
    apply (simp add: r(2,3,5) r(4) [simplified])
    apply (auto simp: doc_record_def)
    done
qed


end
