(* ===== verification/Kernel_Contracts.thy ===== *)
theory Kernel_Contracts
  imports File_Ingress "HOL-Library.AList"
begin

text \<open>
  The immutable values of \<open>gedcom/sync_kernel.py\<close>: their checks at construction, the canonical JSON
  they are encoded in and the identities derived from it. The digest and the class of alphanumeric
  characters are arguments (\<open>hash_rules\<close>).
\<close>

section \<open>Faults and limits\<close>

datatype kernel_fault = ValueFault ustr | StageFault ustr | CancelFault | OtherFault

record hash_rules =
  hr_sha256 :: "ustr \<Rightarrow> ustr"
  hr_alnum :: "nat \<Rightarrow> bool"

definition max_items :: nat where "max_items = 10000"

definition max_count :: int where "max_count = 1000000000"

definition max_events :: nat where "max_events = 256"

definition max_decision_options :: nat where "max_decision_options = 32"

definition max_sync_json_bytes :: nat where "max_sync_json_bytes = 8 * 1024 * 1024"

datatype sync_operation = Update_Operation | Rebase_Operation

datatype sync_stage = Snapshot_Stage | Comparison_Stage | Planning_Stage | Decision_Stage | Application_Stage
  | Commit_Stage | Recovery_Stage

datatype sync_outcome = Committed | No_Change | Dry_Run | Cancelled_Run | Failed_Run

datatype change_kind = Create_Change | Update_Change | Delete_Change | Tombstone_Change | Conflict_Change | Rebase_Change

datatype event_phase = Started_Phase | Completed_Phase | Failed_Phase

fun operation_value :: "sync_operation \<Rightarrow> ustr" where
  "operation_value Update_Operation = u ''update''"
| "operation_value Rebase_Operation = u ''rebase''"

fun kind_value :: "change_kind \<Rightarrow> ustr" where
  "kind_value Create_Change = u ''create''"
| "kind_value Update_Change = u ''update''"
| "kind_value Delete_Change = u ''delete''"
| "kind_value Tombstone_Change = u ''tombstone''"
| "kind_value Conflict_Change = u ''conflict''"
| "kind_value Rebase_Change = u ''rebase''"

section \<open>Checks of strings and counts\<close>

definition demand :: "bool \<Rightarrow> ustr \<Rightarrow> kernel_fault + unit" where
  "demand b message = guardE b (ValueFault message)"

lemma demand_Inr [simp]: "demand b message = Inr x \<longleftrightarrow> b"
  by (simp add: demand_def guardE_Inr_iff)

definition every :: "('a \<Rightarrow> kernel_fault + unit) \<Rightarrow> 'a list \<Rightarrow> kernel_fault + unit" where
  "every check xs = foldE (\<lambda>_. check) () xs"

definition ref_char :: "nat \<Rightarrow> bool" where
  "ref_char c \<longleftrightarrow> is_alpha c \<or> is_digit c \<or> c \<in> set (u ''_.:@+-'')"

definition valid_ref :: "ustr \<Rightarrow> bool" where
  "valid_ref s \<longleftrightarrow> length s \<le> 192 \<and> s \<noteq> [] \<and> (is_alpha (hd s) \<or> is_digit (hd s)) \<and> list_all ref_char s"

definition validate_ref :: "ustr \<Rightarrow> ustr \<Rightarrow> kernel_fault + unit" where
  "validate_ref label s = demand (valid_ref s) (label @ u '' must be a bounded opaque reference.'')"

definition double_dot :: "ustr \<Rightarrow> bool" where
  "double_dot s \<longleftrightarrow> list_ex (\<lambda>i. take 2 (drop i s) = u ''..'') [0..<length s]"

definition validate_decision_id :: "hash_rules \<Rightarrow> ustr \<Rightarrow> ustr \<Rightarrow> kernel_fault + unit" where
  "validate_decision_id hr label s =
     bindE (demand (1 \<le> length s \<and> length s \<le> 128) (label @ u '' length is outside its bounded range.'')) (\<lambda>_.
     bindE (demand (list_all (\<lambda>c. hr_alnum hr c \<or> c \<in> set (u ''._:-'')) s) (label @ u '' contains unsupported characters.'')) (\<lambda>_.
     demand (\<not> double_dot s) (label @ u '' must not contain paths or control characters.'')))"

definition valid_code :: "ustr \<Rightarrow> bool" where
  "valid_code s \<longleftrightarrow> length s \<le> 96 \<and> s \<noteq> [] \<and> is_upper (hd s) \<and> list_all (\<lambda>c. is_upper c \<or> is_digit c \<or> c = 95) s"

definition check_code :: "ustr \<Rightarrow> ustr \<Rightarrow> kernel_fault + unit" where
  "check_code label s = demand (valid_code s) (label @ u '' must be a bounded uppercase code.'')"

definition valid_sha256 :: "ustr \<Rightarrow> bool" where
  "valid_sha256 s \<longleftrightarrow> length s = 64 \<and> list_all (\<lambda>c. is_digit c \<or> 97 \<le> c \<and> c \<le> 102) s"

definition validate_sha256 :: "ustr \<Rightarrow> ustr \<Rightarrow> kernel_fault + unit" where
  "validate_sha256 label s = demand (valid_sha256 s) (label @ u '' must be a lowercase SHA-256 digest.'')"

definition validate_count :: "ustr \<Rightarrow> int \<Rightarrow> kernel_fault + unit" where
  "validate_count label n = demand (0 \<le> n \<and> n \<le> max_count) (label @ u '' is outside its bounded range.'')"

definition check_some :: "('a \<Rightarrow> kernel_fault + unit) \<Rightarrow> 'a option \<Rightarrow> kernel_fault + unit" where
  "check_some check v = (case v of None \<Rightarrow> Inr () | Some x \<Rightarrow> check x)"

section \<open>Timestamps\<close>

text \<open>In a template a \<open>d\<close> stands for a digit and any other character for itself.\<close>

definition fits_template :: "ustr \<Rightarrow> ustr \<Rightarrow> bool" where
  "fits_template template s \<longleftrightarrow> list_all2 (\<lambda>t c. if t = 100 then is_digit c else c = t) template s"

definition fraction_end :: "ustr \<Rightarrow> ustr option" where
  "fraction_end s = (if s \<noteq> [] \<and> hd s = 46
     then (let digits = takeWhile is_digit (tl s) in
           if 1 \<le> length digits \<and> length digits \<le> 9 then Some (dropWhile is_digit (tl s)) else None)
     else Some s)"

definition zone_offset :: "ustr \<Rightarrow> bool" where
  "zone_offset s \<longleftrightarrow> fits_template (u ''+dd:dd'') s \<or> fits_template (u ''-dd:dd'') s"

definition rfc3339_shape :: "ustr \<Rightarrow> bool" where
  "rfc3339_shape s \<longleftrightarrow> fits_template (u ''dddd-dd-ddTdd:dd:dd'') (take 19 s)
     \<and> (case fraction_end (drop 19 s) of None \<Rightarrow> False | Some zone \<Rightarrow> zone = u ''Z'' \<or> zone_offset zone)"

definition text_int :: "nat \<Rightarrow> nat \<Rightarrow> ustr \<Rightarrow> nat" where
  "text_int from to s = dec_value (drop from (take to s))"

definition month_days :: "nat \<Rightarrow> nat \<Rightarrow> nat" where
  "month_days y m = (if m = 2 then (if y mod 4 = 0 \<and> (y mod 100 \<noteq> 0 \<or> y mod 400 = 0) then 29 else 28)
     else if m \<in> {4, 6, 9, 11} then 30 else 31)"

definition calendar_day :: "nat \<Rightarrow> nat \<Rightarrow> nat \<Rightarrow> bool" where
  "calendar_day y m d \<longleftrightarrow> 1 \<le> y \<and> 1 \<le> m \<and> m \<le> 12 \<and> 1 \<le> d \<and> d \<le> month_days y m"

definition valid_rfc3339 :: "ustr \<Rightarrow> bool" where
  "valid_rfc3339 s \<longleftrightarrow> rfc3339_shape s
     \<and> text_int 11 13 s \<le> 23 \<and> text_int 14 16 s \<le> 59 \<and> text_int 17 19 s \<le> 59
     \<and> (last s = 90 \<or> text_int (length s - 5) (length s - 3) s \<le> 23 \<and> text_int (length s - 2) (length s) s \<le> 59)
     \<and> calendar_day (text_int 0 4 s) (text_int 5 7 s) (text_int 8 10 s)"

definition validate_rfc3339 :: "ustr \<Rightarrow> ustr \<Rightarrow> kernel_fault + unit" where
  "validate_rfc3339 label s = demand (valid_rfc3339 s) (label @ u '' must be a bounded RFC 3339 timestamp.'')"

section \<open>Canonical JSON\<close>

definition hex_digit :: "nat \<Rightarrow> nat" where
  "hex_digit n = (if n < 10 then 48 + n else 87 + n)"

definition json_char :: "nat \<Rightarrow> ustr" where
  "json_char c = (if c = 34 then [92, 34] else if c = 92 then [92, 92] else if c = 10 then [92, 110]
     else if c = 13 then [92, 114] else if c = 9 then [92, 116] else if c = 12 then [92, 102] else if c = 8 then [92, 98]
     else if c < 32 then [92, 117, 48, 48, hex_digit (c div 16), hex_digit (c mod 16)] else [c])"

definition json_string :: "ustr \<Rightarrow> ustr" where
  "json_string s = 34 # concat (map json_char s) @ [34]"

fun canonical_json :: "json \<Rightarrow> ustr" where
  "canonical_json JNull = u ''null''"
| "canonical_json (JBool b) = (if b then u ''true'' else u ''false'')"
| "canonical_json (JNumber n) = dec_int n"
| "canonical_json (JStr s) = json_string s"
| "canonical_json (JList xs) = 91 # join [44] (map canonical_json xs) @ [93]"
| "canonical_json (JObj kvs) = 123 # join [44] (map (\<lambda>(k, text). json_string k @ 58 # text)
     (sort_key fst (map (\<lambda>(k, v). (k, canonical_json v)) kvs))) @ [125]"

definition digest :: "hash_rules \<Rightarrow> json \<Rightarrow> ustr" where
  "digest hr v = hr_sha256 hr (canonical_json v)"

definition validate_serialized_size :: "json \<Rightarrow> kernel_fault + ustr" where
  "validate_serialized_size v = (let text = canonical_json v in
     if utf8_len text > max_sync_json_bytes then Inl (ValueFault (u ''Serialized sync contract exceeds its bounded size.''))
     else Inr text)"

definition json_opt :: "('a \<Rightarrow> json) \<Rightarrow> 'a option \<Rightarrow> json" where
  "json_opt f v = (case v of None \<Rightarrow> JNull | Some x \<Rightarrow> f x)"

definition json_refs :: "ustr list \<Rightarrow> json" where
  "json_refs refs = JList (map JStr refs)"

definition check_refs :: "ustr \<Rightarrow> ustr \<Rightarrow> ustr list \<Rightarrow> kernel_fault + unit" where
  "check_refs many one refs =
     bindE (demand (length refs \<le> max_items) (many @ u '' exceeds its bounded size.'')) (\<lambda>_.
     bindE (demand (refs = sort (remdups refs)) (many @ u '' must be unique and deterministically ordered.'')) (\<lambda>_.
     every (validate_ref one) refs))"

section \<open>Documents, snapshots and requests\<close>

record sync_document =
  sd_ref :: ustr
  sd_sha256 :: ustr
  sd_count :: int
  sd_provenance :: "ustr list"

definition check_document :: "sync_document \<Rightarrow> kernel_fault + unit" where
  "check_document d =
     bindE (validate_ref (u ''document_ref'') (sd_ref d)) (\<lambda>_.
     bindE (validate_sha256 (u ''sha256'') (sd_sha256 d)) (\<lambda>_.
     bindE (validate_count (u ''record_count'') (sd_count d)) (\<lambda>_.
     check_refs (u ''provenance_refs'') (u ''provenance_ref'') (sd_provenance d))))"

definition json_document :: "sync_document \<Rightarrow> json" where
  "json_document d = JObj [(u ''document_ref'', JStr (sd_ref d)), (u ''sha256'', JStr (sd_sha256 d)),
     (u ''record_count'', JNumber (sd_count d)), (u ''provenance_refs'', json_refs (sd_provenance d))]"

record source_snapshot =
  sk_source_id :: ustr
  sk_vendor_code :: ustr
  sk_exported_at :: ustr
  sk_document :: sync_document

definition check_source :: "source_snapshot \<Rightarrow> kernel_fault + unit" where
  "check_source s =
     bindE (validate_ref (u ''source_id'') (sk_source_id s)) (\<lambda>_.
     bindE (check_code (u ''vendor_code'') (sk_vendor_code s)) (\<lambda>_.
     validate_rfc3339 (u ''exported_at'') (sk_exported_at s)))"

definition json_source :: "source_snapshot \<Rightarrow> json" where
  "json_source s = JObj [(u ''source_id'', JStr (sk_source_id s)), (u ''vendor_code'', JStr (sk_vendor_code s)),
     (u ''exported_at'', JStr (sk_exported_at s)), (u ''document'', json_document (sk_document s))]"

record sync_options =
  op_operation :: sync_operation
  op_initialize :: bool
  op_dry_run :: bool
  op_accept_deletions :: bool
  op_version :: ustr

definition check_options :: "sync_options \<Rightarrow> kernel_fault + unit" where
  "check_options p =
     bindE (demand (\<not> (op_operation p = Update_Operation \<and> op_accept_deletions p))
       (u ''Manual deletion acceptance is valid only for rebase.'')) (\<lambda>_.
     bindE (demand (\<not> (op_operation p = Rebase_Operation \<and> op_initialize p))
       (u ''Manifest initialization is valid only for update.'')) (\<lambda>_.
     demand (op_version p \<in> {u ''5.5.1'', u ''5.5.5''}) (u ''Unsupported GEDCOM version.'')))"

definition json_options :: "sync_options \<Rightarrow> json" where
  "json_options p = JObj [(u ''operation'', JStr (operation_value (op_operation p))),
     (u ''initialize_manifest'', JBool (op_initialize p)), (u ''dry_run'', JBool (op_dry_run p)),
     (u ''accept_manual_deletions'', JBool (op_accept_deletions p)), (u ''gedcom_version'', JStr (op_version p))]"

record selection =
  ds_decision :: ustr
  ds_option :: ustr
  ds_plan :: "ustr option"

definition check_selection :: "hash_rules \<Rightarrow> selection \<Rightarrow> kernel_fault + unit" where
  "check_selection hr d =
     bindE (validate_decision_id hr (u ''decision_id'') (ds_decision d)) (\<lambda>_.
     bindE (check_code (u ''option_id'') (ds_option d)) (\<lambda>_.
     check_some (validate_ref (u ''plan_id'')) (ds_plan d)))"

definition json_selection :: "selection \<Rightarrow> json" where
  "json_selection d = JObj [(u ''decision_id'', JStr (ds_decision d)), (u ''option_id'', JStr (ds_option d)),
     (u ''plan_id'', json_opt JStr (ds_plan d))]"

record sync_request =
  rq_operation_id :: ustr
  rq_master :: sync_document
  rq_manifest :: "sync_document option"
  rq_snapshots :: "source_snapshot list"
  rq_options :: sync_options
  rq_replayed :: "selection list"

definition json_request :: "sync_request \<Rightarrow> json" where
  "json_request r = JObj [(u ''operation_id'', JStr (rq_operation_id r)), (u ''master'', json_document (rq_master r)),
     (u ''manifest'', json_opt json_document (rq_manifest r)), (u ''snapshots'', JList (map json_source (rq_snapshots r))),
     (u ''options'', json_options (rq_options r)), (u ''replayed_decisions'', JList (map json_selection (rq_replayed r)))]"

definition ordered_ids :: "ustr list \<Rightarrow> bool" where
  "ordered_ids ids \<longleftrightarrow> ids = sort ids \<and> distinct ids"

definition check_request :: "hash_rules \<Rightarrow> sync_request \<Rightarrow> kernel_fault + unit" where
  "check_request hr r =
     bindE (validate_ref (u ''operation_id'') (rq_operation_id r)) (\<lambda>_.
     bindE (if op_operation (rq_options r) = Update_Operation
       then demand ((rq_manifest r = None) = op_initialize (rq_options r))
         (u ''Update manifest presence must be the inverse of initialization.'')
       else demand (rq_manifest r \<noteq> None) (u ''Rebase requires an existing manifest.'')) (\<lambda>_.
     bindE (demand (length (rq_snapshots r) \<le> max_items \<and> length (rq_replayed r) \<le> max_items)
       (u ''Sync request exceeds its bounded size.'')) (\<lambda>_.
     bindE (demand (ordered_ids (map sk_source_id (rq_snapshots r)))
       (u ''snapshots must have unique source IDs in deterministic order.'')) (\<lambda>_.
     bindE (demand (ordered_ids (map ds_decision (rq_replayed r)))
       (u ''replayed_decisions must have unique IDs in deterministic order.'')) (\<lambda>_.
     bindE (validate_serialized_size (json_request r)) (\<lambda>_. Inr ()))))))"

record snapshot_state =
  st_ref :: ustr
  st_master :: sync_document
  st_manifest :: "sync_document option"
  st_snapshots :: "source_snapshot list"
  st_fingerprint :: ustr

definition fingerprint_for :: "hash_rules \<Rightarrow> sync_document \<Rightarrow> sync_document option \<Rightarrow> source_snapshot list \<Rightarrow> ustr" where
  "fingerprint_for hr master manifest snapshots = digest hr (JObj [(u ''master'', json_document master),
     (u ''manifest'', json_opt json_document manifest), (u ''snapshots'', JList (map json_source snapshots))])"

definition state_fingerprint :: "hash_rules \<Rightarrow> snapshot_state \<Rightarrow> ustr" where
  "state_fingerprint hr s = fingerprint_for hr (st_master s) (st_manifest s) (st_snapshots s)"

definition check_state :: "hash_rules \<Rightarrow> snapshot_state \<Rightarrow> kernel_fault + unit" where
  "check_state hr s =
     bindE (validate_ref (u ''state_ref'') (st_ref s)) (\<lambda>_.
     bindE (validate_sha256 (u ''input_fingerprint'') (st_fingerprint s)) (\<lambda>_.
     bindE (demand (length (st_snapshots s) \<le> max_items) (u ''Snapshot state exceeds its bounded size.'')) (\<lambda>_.
     bindE (demand (ordered_ids (map sk_source_id (st_snapshots s)))
       (u ''snapshots must have unique source IDs in deterministic order.'')) (\<lambda>_.
     demand (st_fingerprint s = state_fingerprint hr s) (u ''input_fingerprint does not match the captured inputs.'')))))"

definition create_state :: "hash_rules \<Rightarrow> ustr \<Rightarrow> sync_document \<Rightarrow> sync_document option \<Rightarrow> source_snapshot list
    \<Rightarrow> kernel_fault + snapshot_state" where
  "create_state hr ref master manifest snapshots =
     (let s = \<lparr>st_ref = ref, st_master = master, st_manifest = manifest, st_snapshots = snapshots,
                st_fingerprint = fingerprint_for hr master manifest snapshots\<rparr> in
      bindE (check_state hr s) (\<lambda>_. Inr s))"

section \<open>Plans\<close>

record sync_delta =
  dl_subject :: ustr
  dl_kind :: change_kind
  dl_before :: "ustr option"
  dl_after :: "ustr option"
  dl_provenance :: "ustr list"

definition check_delta :: "sync_delta \<Rightarrow> kernel_fault + unit" where
  "check_delta d =
     bindE (validate_ref (u ''subject_ref'') (dl_subject d)) (\<lambda>_.
     bindE (check_some (validate_sha256 (u ''before_sha256'')) (dl_before d)) (\<lambda>_.
     bindE (check_some (validate_sha256 (u ''after_sha256'')) (dl_after d)) (\<lambda>_.
     bindE (demand (\<not> (dl_before d = None \<and> dl_after d = None)) (u ''A delta must identify at least one side.'')) (\<lambda>_.
     check_refs (u ''provenance_refs'') (u ''provenance_ref'') (dl_provenance d)))))"

definition json_delta :: "sync_delta \<Rightarrow> json" where
  "json_delta d = JObj [(u ''subject_ref'', JStr (dl_subject d)), (u ''kind'', JStr (kind_value (dl_kind d))),
     (u ''before_sha256'', json_opt JStr (dl_before d)), (u ''after_sha256'', json_opt JStr (dl_after d)),
     (u ''provenance_refs'', json_refs (dl_provenance d))]"

definition text_or_empty :: "ustr option \<Rightarrow> ustr" where
  "text_or_empty v = (case v of None \<Rightarrow> [] | Some s \<Rightarrow> s)"

definition delta_sort_key :: "sync_delta \<Rightarrow> ustr \<times> ustr \<times> ustr \<times> ustr \<times> ustr list" where
  "delta_sort_key d = (kind_value (dl_kind d), dl_subject d, text_or_empty (dl_before d), text_or_empty (dl_after d), dl_provenance d)"

definition action_id :: "hash_rules \<Rightarrow> ustr \<Rightarrow> nat \<Rightarrow> sync_delta \<Rightarrow> ustr" where
  "action_id hr operation_id sequence d = u ''action:'' @ digest hr (JObj [(u ''operation_id'', JStr operation_id),
     (u ''sequence'', JNumber (int sequence)), (u ''delta'', json_delta d)])"

record decision_request =
  dr_id :: ustr
  dr_code :: ustr
  dr_subjects :: "ustr list"
  dr_options :: "ustr list"
  dr_destructive :: "ustr list"

definition check_decision :: "hash_rules \<Rightarrow> decision_request \<Rightarrow> kernel_fault + unit" where
  "check_decision hr d =
     bindE (validate_decision_id hr (u ''decision_id'') (dr_id d)) (\<lambda>_.
     bindE (check_code (u ''decision_code'') (dr_code d)) (\<lambda>_.
     bindE (demand (dr_options d \<noteq> []) (u ''A decision must declare at least one option.'')) (\<lambda>_.
     bindE (demand (length (dr_subjects d) \<le> max_items) (u ''Decision request exceeds its bounded size.'')) (\<lambda>_.
     bindE (demand (length (dr_options d) \<le> max_decision_options) (u ''Decision request exceeds the supported option limit.'')) (\<lambda>_.
     bindE (demand (dr_subjects d = sort (remdups (dr_subjects d))) (u ''subject_refs must be unique and deterministically ordered.'')) (\<lambda>_.
     bindE (demand (dr_options d = sort (remdups (dr_options d))) (u ''option_ids must be unique and deterministically ordered.'')) (\<lambda>_.
     bindE (demand (dr_destructive d = sort (remdups (dr_destructive d)))
       (u ''destructive_option_ids must be unique and deterministically ordered.'')) (\<lambda>_.
     bindE (demand (set (dr_destructive d) \<subseteq> set (dr_options d)) (u ''destructive_option_ids must be declared decision options.'')) (\<lambda>_.
     bindE (every (validate_ref (u ''subject_ref'')) (dr_subjects d)) (\<lambda>_.
     bindE (every (check_code (u ''option_id'')) (dr_options d)) (\<lambda>_.
     every (check_code (u ''destructive_option_id'')) (dr_destructive d))))))))))))"

definition json_decision :: "decision_request \<Rightarrow> json" where
  "json_decision d = JObj [(u ''decision_id'', JStr (dr_id d)), (u ''decision_code'', JStr (dr_code d)),
     (u ''subject_refs'', json_refs (dr_subjects d)), (u ''option_ids'', json_refs (dr_options d)),
     (u ''destructive_option_ids'', json_refs (dr_destructive d))]"

end
