(* ===== verification/Sync_Update.thy ===== *)
theory Sync_Update
  imports Sync_Encoding Sync_Sources Gedcom_Rendering Kernel_Contracts
begin

text \<open>
  \<open>_perform_update\<close> of \<open>gedcom/sync_operations.py\<close>: the checks of a command, the matching of people, the
  consolidation of the other records, the reconciliation of blocks, the new manifest, the report of an update
  and the release that is published. What the run reads and the outcome of publishing are the fields of
  \<open>run_world\<close>. The checkpoints of cancellation, which only raise, and the guard around the resolver are not
  modelled; the quality report is a field, since the rules of \<open>gedcom/quality.py\<close> are not modelled.
\<close>

section \<open>The report\<close>

definition render_list :: "string \<Rightarrow> ustr list \<Rightarrow> ustr list" where
  "render_list title vals = [u ''## '' @ u title, []] @ (if vals = [] then [u ''None.'', []]
     else map (\<lambda>v. u ''- `'' @ v @ u ''`'') (sort (remdups vals)) @ [[]])"

definition report_lists :: "sync_stats \<Rightarrow> (string \<times> ustr list) list" where
  "report_lists stats =
     [(''Added people'', ss_added_people stats), (''Mapped people'', ss_mapped_people stats), (''Unchanged people'', ss_unchanged_people stats),
      (''Added facts and structures'', ss_added_facts stats), (''Consolidated duplicate facts'', ss_consolidated_facts stats),
      (''Citations attached'', ss_citations_attached stats),
      (''Cross-origin citation repetitions consolidated'', ss_citations_deduplicated stats),
      (''Source records consolidated'', ss_source_records_consolidated stats), (''Conflicts retained'', ss_conflicts stats),
      (''Data actually removed'', ss_removed stats), (''Disappeared but retained'', ss_disappeared_retained stats),
      (''Unresolved person mappings'', ss_unresolved_people stats)]"

definition quoted :: "ustr \<Rightarrow> ustr" where
  "quoted s = u ''`'' @ s @ u ''`''"

definition snapshot_line :: "snapshot_spec \<Rightarrow> ustr" where
  "snapshot_line spec = u ''- '' @ quoted (sn_source_id spec) @ u '' ('' @ sn_vendor spec @ u ''): '' @ quoted (sn_sha256 spec)
     @ u ''; exported '' @ sn_exported_at spec @ u '' ('' @ sn_date_basis spec @ u '')''"

definition report_lines :: "jobject \<Rightarrow> snapshot_spec list \<Rightarrow> sync_stats \<Rightarrow> ustr \<Rightarrow> ustr \<Rightarrow> bool \<Rightarrow> ustr list" where
  "report_lines d specs stats master_sha provider dry_run =
     [u ''# GEDCOM Incremental Update Report'', [], u ''- Tree ID: '' @ quoted (text_at (u ''tree_id'') d),
      u ''- Generation: '' @ dec_int (number_at (u ''generation'') d),
      u ''- Mode: '' @ (if dry_run then u ''dry run; no files written'' else u ''atomic release''),
      u ''- Master SHA-256: '' @ quoted master_sha,
      u ''- LLM provider: '' @ quoted provider @ (if provider = u ''none'' then u '' (offline deterministic)'' else u '' (explicit opt-in)''),
      [], u ''## Snapshot inputs'', []]
     @ map snapshot_line specs @ [[]] @ concat (map (\<lambda>(title, vals). render_list title vals) (report_lists stats))
     @ [u ''## Interpretation'', [],
        u ''Website snapshot provenance is stored in manifest.json. It is not represented as synthetic GEDCOM evidence citations. Existing source records and distinct citations remain attached to the canonical fact.'', []]"

definition render_update_report :: "jobject \<Rightarrow> snapshot_spec list \<Rightarrow> sync_stats \<Rightarrow> ustr \<Rightarrow> ustr \<Rightarrow> bool \<Rightarrow> ustr" where
  "render_update_report d specs stats master_sha provider dry_run =
     rstrip_if is_space (join [10] (report_lines d specs stats master_sha provider dry_run)) @ [10]"

section \<open>Accounting\<close>

record sync_accounting =
  sa_created :: nat
  sa_updated :: nat
  sa_unchanged :: nat
  sa_conflicts :: nat
  sa_warnings :: nat
  sa_information :: nat
  sa_quality_warnings :: nat
  sa_errors :: nat
  sa_resolved :: nat

definition no_accounting :: sync_accounting where
  "no_accounting = \<lparr>sa_created = 0, sa_updated = 0, sa_unchanged = 0, sa_conflicts = 0, sa_warnings = 0, sa_information = 0,
     sa_quality_warnings = 0, sa_errors = 0, sa_resolved = 0\<rparr>"

text \<open>The severities are those of the findings of the quality report, casefolded; none without a report.\<close>

definition sync_accounting :: "sync_stats \<Rightarrow> ustr list \<Rightarrow> sync_accounting" where
  "sync_accounting stats severities =
     (let number = (\<lambda>s. length (filter (\<lambda>x. x = u s) severities)) in
      \<lparr>sa_created = length (ss_added_people stats) + length (ss_added_facts stats) + length (ss_citations_attached stats),
       sa_updated = length (ss_mapped_people stats) + length (ss_consolidated_facts stats)
         + length (ss_citations_deduplicated stats) + length (ss_source_records_consolidated stats),
       sa_unchanged = length (ss_unchanged_people stats), sa_conflicts = length (ss_conflicts stats),
       sa_warnings = length (ss_unresolved_people stats) + length (ss_removed stats) + length (ss_disappeared_retained stats),
       sa_information = number ''low'', sa_quality_warnings = number ''medium'', sa_errors = number ''critical'' + number ''high'',
       sa_resolved = length (ss_record_aliases stats)\<rparr>)"

section \<open>Canonical bytes\<close>

text \<open>\<open>json.dumps(value, indent=2, sort_keys=True, ensure_ascii=False)\<close> with a final line feed.\<close>

definition indented :: "nat \<Rightarrow> ustr list \<Rightarrow> ustr" where
  "indented n items = 10 # join [44, 10] (map (\<lambda>i. replicate (n + 2) 32 @ i) items) @ 10 # replicate n 32"

fun pretty_json :: "nat \<Rightarrow> json \<Rightarrow> ustr" where
  "pretty_json n JNull = u ''null''"
| "pretty_json n (JBool b) = (if b then u ''true'' else u ''false'')"
| "pretty_json n (JNumber i) = dec_int i"
| "pretty_json n (JStr s) = json_string s"
| "pretty_json n (JList xs) = (if xs = [] then u ''[]'' else 91 # indented n (map (pretty_json (n + 2)) xs) @ [93])"
| "pretty_json n (JObj kvs) = (if kvs = [] then u ''{}'' else 123 # indented n (map (\<lambda>(k, text). json_string k @ u '': '' @ text)
     (sort_key fst (map (\<lambda>(k, v). (k, pretty_json (n + 2) v)) kvs))) @ [125])"

definition json_bytes :: "json \<Rightarrow> ustr" where
  "json_bytes v = pretty_json 0 v @ [10]"

section \<open>The command and what it reads\<close>

record update_command =
  uc_master :: ustr
  uc_release_root :: ustr
  uc_provider :: ustr
  uc_snapshots :: "snapshot_input list"
  uc_manifest :: "ustr option"
  uc_initialize :: bool
  uc_quality_root :: "ustr option"
  uc_no_quality_report :: bool
  uc_dry_run :: bool
  uc_gedcom_version :: ustr

text \<open>A release is a directory with the texts of its files.\<close>

record release_bundle =
  rb_directory :: ustr
  rb_artifacts :: "(string \<times> ustr) list"
  rb_manifest :: jobject

record 's run_world =
  rw_core :: "'s core_rules"
  rw_text :: text_rules
  rw_clock :: "ustr \<Rightarrow> moment option"
  rw_files :: snapshot_files
  rw_load :: "ustr list \<Rightarrow> loader_error + sync_source list"
  rw_records :: "ustr \<Rightarrow> gedcom_error + gedcom_record list"
  rw_manifest :: "ustr \<Rightarrow> ingress_error + jobject"
  rw_artifact :: "ustr \<Rightarrow> ustr \<rightharpoonup> ustr"
  rw_verify :: "ingress_error + unit"
  rw_quality :: "individual list \<Rightarrow> gedcom_record list \<Rightarrow> ustr \<Rightarrow> sync_fault + ustr \<times> ustr list"
  rw_tree_id :: ustr
  rw_created_at :: ustr
  rw_updated_at :: ustr
  rw_stamp :: ustr
  rw_observed_at :: "snapshot_spec \<Rightarrow> ustr"
  rw_publish :: "release_bundle \<Rightarrow> sync_fault + unit"

record execution_result =
  er_output :: ustr
  er_committed :: bool
  er_release :: "release_bundle option"
  er_accounting :: sync_accounting

definition loadE :: "loader_error + 'a \<Rightarrow> sync_fault + 'a" where
  "loadE m = (case m of Inl (IngressError e) \<Rightarrow> Inl (Ingress_Failed e) | Inl e \<Rightarrow> Inl (Parse_Failed e) | Inr x \<Rightarrow> Inr x)"

section \<open>Checking the command\<close>

definition check_update_command :: "update_command \<Rightarrow> sync_fault + unit" where
  "check_update_command c =
     bindE (guardE (\<not> (uc_initialize c \<and> uc_manifest c \<noteq> None)) (Configuration Initialize_With_Manifest)) (\<lambda>_.
     bindE (guardE (uc_initialize c \<or> uc_manifest c \<noteq> None) (Configuration Manifest_Missing)) (\<lambda>_.
     guardE (uc_no_quality_report c \<or> uc_quality_root c \<notin> {None, Some []}) (Configuration Quality_Root_Missing)))"

text \<open>The manifest the update continues, with its digest when it is a file.\<close>

definition opening_manifest :: "'s run_world \<Rightarrow> update_command \<Rightarrow> ustr \<Rightarrow> sync_fault + jobject \<times> ustr option" where
  "opening_manifest w c master_sha =
     bindE (case uc_manifest c of None \<Rightarrow> Inr None
       | Some path \<Rightarrow> bindE (ingressE (sf_fingerprint (rw_files w) path)) (\<lambda>sha. Inr (Some sha))) (\<lambda>manifest_sha.
     bindE (case uc_manifest c of
         None \<Rightarrow> Inr (new_manifest (uc_master c) (uc_release_root c) master_sha (rw_tree_id w) (rw_created_at w) (rw_updated_at w))
       | Some path \<Rightarrow> load_manifest (rw_clock w) (rw_artifact w path) (rw_manifest w path) master_sha) (\<lambda>d.
       Inr (d, manifest_sha)))"

definition already_active :: "jobject \<Rightarrow> snapshot_spec \<Rightarrow> bool" where
  "already_active d spec \<longleftrightarrow> lookup (sn_source_id spec) (object_at (u ''active_snapshots'') d) = JStr (snapshot_id spec)"

section \<open>Drafting a generation\<close>

record update_draft =
  ud_people :: "individual list"
  ud_records :: "gedcom_record list"
  ud_pointer_map :: "ustr \<rightharpoonup> ustr"
  ud_stats :: sync_stats
  ud_manifest :: jobject

text \<open>The manifest of the next generation: the counters and removals the stages left, the provenance of the
  blocks, the bindings and aliases of this update, and its snapshots.\<close>

definition next_manifest :: "ustr \<Rightarrow> (snapshot_spec \<Rightarrow> ustr) \<Rightarrow> snapshot_spec list \<Rightarrow> (ustr \<times> int) list \<Rightarrow> (ustr \<times> (ustr \<times> ustr) list) list
    \<Rightarrow> reconciliation \<Rightarrow> jobject \<Rightarrow> jobject" where
  "next_manifest updated_at observed specs counters bindings rc d =
     (let old_removed = list_at (u ''removed'') d;
          d1 = put ''next_ids'' (JObj (map (\<lambda>(k, n). (k, JNumber n)) counters)) d;
          d2 = put ''removed'' (JList (old_removed @ map removal_json (drop (length old_removed) (rc_removed rc)))) d1;
          d3 = put ''updated_at'' (JStr updated_at) (put ''generation'' (JNumber (number_at (u ''generation'') d + 1)) d2);
          d4 = put ''blocks'' (JObj (map (\<lambda>(p, r). (p, registry_json r)) (rc_blocks rc))) d3;
          d5 = put ''person_bindings'' (JObj (update_all
                 (map (\<lambda>(s, b). (s, JObj (map (\<lambda>(k, t). (k, JStr t)) b))) bindings) (object_at (u ''person_bindings'') d))) d4;
          d6 = put ''record_aliases'' (JObj (update_all
                 (map (\<lambda>(k, t). (k, JStr t)) (ss_record_aliases (rc_stats rc))) (object_at (u ''record_aliases'') d))) d5 in
      seed_snapshot_history observed specs d6)"

definition family_records :: "gedcom_record list \<Rightarrow> gedcom_error + gedcom_record list" where
  "family_records records = bindE (records_with_tags records) (\<lambda>tagged. Inr (map snd (filter (tag_is ''FAM'') tagged)))"

definition header_record :: "ustr \<Rightarrow> gedcom_record list \<Rightarrow> gedcom_error + gedcom_record" where
  "header_record master records = bindE (records_with_tags records) (\<lambda>tagged.
     Inr (case filter (tag_is ''HEAD'') tagged of x # _ \<Rightarrow> snd x
       | [] \<Rightarrow> \<lparr>gr_lines = [u ''0 HEAD''], gr_source_file = master, gr_sequence = 0, gr_encoding = u ''utf-8''\<rparr>))"

definition draft_update :: "('s::linordered_idom) run_world \<Rightarrow> update_command \<Rightarrow> jobject \<Rightarrow> snapshot_spec list \<Rightarrow> sync_source list
    \<Rightarrow> gedcom_error + update_draft" where
  "draft_update w c d specs sources =
     bindE (match_people (rw_core w) (rw_text w) sources specs (bindings_of d) (next_ids_of d) no_stats) (\<lambda>(ms, bindings).
     bindE (map_nonpeople (rw_text w) sources (ms_pointer_map ms) (pp_counters (ms_pool ms)) (ms_stats ms)) (\<lambda>(np, records).
     bindE (reconcile_person_blocks (rw_text w) sources specs (np_map np) (manifest_of d) (np_stats np) (uc_initialize c)) (\<lambda>rc.
     bindE (mapE (\<lambda>r. bindE (rewrite_lines (gr_lines r) (np_map np)) (\<lambda>ls. Inr (made_record ls r))) records) (\<lambda>nonpeople.
     bindE (family_records nonpeople) (\<lambda>families.
     bindE (enrich_relationship_context (rw_text w) (rc_people rc) families) (\<lambda>people.
     bindE (header_record (uc_master c) (so_records (hd sources))) (\<lambda>head.
       Inr \<lparr>ud_people = people, ud_records = head # nonpeople, ud_pointer_map = np_map np, ud_stats = rc_stats rc,
         ud_manifest = next_manifest (rw_updated_at w) (rw_observed_at w) specs (pp_counters (np_pool np)) bindings rc d\<rparr>)))))))"

section \<open>Publishing\<close>

definition quality_text :: "'s run_world \<Rightarrow> update_command \<Rightarrow> update_draft \<Rightarrow> sync_fault + ustr \<times> ustr list" where
  "quality_text w c dr = (case (uc_no_quality_report c, uc_quality_root c) of
       (False, Some root) \<Rightarrow> rw_quality w (ud_people dr) (ud_records dr) root
     | _ \<Rightarrow> Inr (u ''# Quality Report Disabled'' @ [10, 10] @ u ''No quality analysis was requested.'' @ [10], []))"

definition rollback_json :: "ustr \<Rightarrow> int \<Rightarrow> ustr \<Rightarrow> json \<Rightarrow> json" where
  "rollback_json directory generation master_sha previous = JObj [(u ''schema_version'', JNumber 1),
     (u ''current_generation'', JNumber generation), (u ''current_master'', JStr (in_directory directory ''master.ged'')),
     (u ''current_master_sha256'', JStr master_sha), (u ''previous'', previous),
     (u ''instructions'', JStr (u ''To roll back, select the previous release's matching master.ged and manifest.json for the next update. Do not overwrite releases.''))]"

definition sha_of :: "'s run_world \<Rightarrow> ustr \<Rightarrow> ustr" where
  "sha_of w text = tr_sha256 (rw_text w) text"

text \<open>The bundle of the next generation; \<open>d\<close> is the manifest the update continues.\<close>

definition update_bundle :: "'s run_world \<Rightarrow> update_command \<Rightarrow> jobject \<Rightarrow> ustr option \<Rightarrow> snapshot_spec list \<Rightarrow> update_draft
    \<Rightarrow> sync_fault + release_bundle \<times> ustr list" where
  "update_bundle w c d manifest_sha specs dr =
     (let g = number_at (u ''generation'') d; directory = uc_release_root c @ u ''/'' @ release_name (g + 1) (rw_stamp w) in
      bindE (coreE (render_gedcom (ud_people dr) [ud_records dr] (ud_pointer_map dr) None None (uc_gedcom_version c))) (\<lambda>master.
      let info = \<lparr>ri_directory = directory, ri_master_sha = sha_of w master, ri_updated_at = rw_updated_at w,
            ri_manifest_path = uc_manifest c, ri_manifest_sha = manifest_sha, ri_kind = None\<rparr>;
          d' = record_release info g (ud_manifest dr);
          report = render_update_report d' specs (ud_stats dr) (sha_of w master) (uc_provider c) False in
      bindE (quality_text w c dr) (\<lambda>(quality, severities).
      let rollback = json_bytes (rollback_json directory (g + 1) (sha_of w master) (lookup (u ''parent_release'') d'));
          artifacts = [(''master.ged'', master), (''quality.md'', quality), (''rollback.json'', rollback), (''update.md'', report)] in
      Inr (\<lparr>rb_directory = directory, rb_artifacts = artifacts, rb_manifest = record_checksums (sha_of w) artifacts d'\<rparr>, severities))))"

definition no_update_text :: ustr where
  "no_update_text = u ''No update was needed: every supplied snapshot is already active with the same SHA-256 checksum. No release files were changed.'' @ [10]"

definition complete_text :: "ustr \<Rightarrow> ustr" where
  "complete_text directory = join [10] [u ''Incremental update complete: '' @ directory, u ''Master GEDCOM: '' @ in_directory directory ''master.ged'',
     u ''Manifest: '' @ in_directory directory ''manifest.json'', u ''Update report: '' @ in_directory directory ''update.md''] @ [10]"

text \<open>The rest of an update once its manifest and snapshots are known.\<close>

definition run_update :: "('s::linordered_idom) run_world \<Rightarrow> update_command \<Rightarrow> jobject \<Rightarrow> ustr option \<Rightarrow> snapshot_spec list \<Rightarrow> sync_source list
    \<Rightarrow> sync_fault + execution_result" where
  "run_update w c d manifest_sha specs sources =
     bindE (coreE (draft_update w c d specs sources)) (\<lambda>dr.
     if uc_dry_run c
     then bindE (ingressE (rw_verify w)) (\<lambda>_.
       Inr \<lparr>er_output = render_update_report (ud_manifest dr) specs (ud_stats dr) (u ''not-written-dry-run'') (uc_provider c) True,
            er_committed = False, er_release = None, er_accounting = sync_accounting (ud_stats dr) []\<rparr>)
     else bindE (update_bundle w c d manifest_sha specs dr) (\<lambda>(bundle, severities).
       bindE (ingressE (rw_verify w)) (\<lambda>_. bindE (rw_publish w bundle) (\<lambda>_.
       Inr \<lparr>er_output = complete_text (rb_directory bundle), er_committed = True, er_release = Some bundle,
            er_accounting = sync_accounting (ud_stats dr) severities\<rparr>))))"

definition perform_update :: "('s::linordered_idom) run_world \<Rightarrow> update_command \<Rightarrow> sync_fault + execution_result" where
  "perform_update w c =
     bindE (ingressE (sf_fingerprint (rw_files w) (uc_master c))) (\<lambda>master_sha.
     bindE (check_update_command c) (\<lambda>_.
     bindE (snapshot_specs (rw_text w) (rw_clock w) (rw_files w) (uc_snapshots c)) (\<lambda>specs.
     bindE (opening_manifest w c master_sha) (\<lambda>(d, manifest_sha).
     bindE (validate_snapshot_continuity d specs) (\<lambda>_.
     bindE (loadE (rw_load w (uc_master c # map sn_path specs))) (\<lambda>sources.
     if list_all (already_active d) specs
     then bindE (ingressE (rw_verify w)) (\<lambda>_.
       Inr \<lparr>er_output = no_update_text, er_committed = False, er_release = None, er_accounting = no_accounting\<rparr>)
     else run_update w c d manifest_sha specs sources))))))"

end
