(* ===== verification/Sync_Rebase.thy ===== *)
theory Sync_Rebase
  imports Sync_Update
begin

text \<open>
  \<open>_perform_rebase\<close> of \<open>gedcom/sync_operations.py\<close>, which adopts edits made to the master by hand: every
  added block is protected, and every deletion, which needs a confirmation, leaves a tombstone. Also the
  exit codes of the errors.
  A Python set of hashes is a list without meaning of its order.
\<close>

section \<open>The blocks of a master\<close>

text \<open>For each person with a block, the blocks by key with their tag and logical identity.\<close>

type_synonym block_index = "(ustr \<times> (ustr \<times> ustr \<times> ustr) list) list"

definition add_master_block :: "text_rules \<Rightarrow> ustr \<Rightarrow> block_index \<Rightarrow> ustr list \<Rightarrow> gedcom_error + block_index" where
  "add_master_block tr pointer index block =
     bindE (block_key tr block) (\<lambda>key. bindE (first_line block) (\<lambda>first. bindE (block_logical_identity tr block) (\<lambda>logical.
     let blocks = (case map_of index pointer of None \<Rightarrow> [] | Some bs \<Rightarrow> bs) in
     Inr (AList.update pointer (AList.update key (gl_tag first, logical) blocks) index))))"

definition add_master_record :: "text_rules \<Rightarrow> block_index \<Rightarrow> gedcom_record \<Rightarrow> gedcom_error + block_index" where
  "add_master_record tr index r = bindE (record_tag r) (\<lambda>tag. if tag \<noteq> u ''INDI'' then Inr index
     else bindE (top_level_blocks (gr_lines r)) (\<lambda>blocks. bindE (record_pointer r) (\<lambda>pointer.
       foldE (add_master_block tr pointer) index blocks)))"

definition master_block_index :: "text_rules \<Rightarrow> gedcom_record list \<Rightarrow> gedcom_error + block_index" where
  "master_block_index tr records = foldE (add_master_record tr) [] records"

definition blocks_at :: "block_index \<Rightarrow> ustr \<Rightarrow> (ustr \<times> ustr \<times> ustr) list" where
  "blocks_at index pointer = (case map_of index pointer of None \<Rightarrow> [] | Some bs \<Rightarrow> bs)"

text \<open>The blocks of the first index the second does not have, for the people with any.\<close>

definition blocks_beyond :: "block_index \<Rightarrow> block_index \<Rightarrow> block_index" where
  "blocks_beyond a b = filter (\<lambda>(p, bs). bs \<noteq> [])
     (map (\<lambda>(p, bs). (p, filter (\<lambda>(k, x). k \<notin> fst ` set (blocks_at b p)) bs)) a)"

definition number_of_blocks :: "block_index \<Rightarrow> nat" where
  "number_of_blocks index = sum_list (map (\<lambda>(p, bs). length bs) index)"

definition rebase_accounting :: "block_index \<Rightarrow> block_index \<Rightarrow> sync_accounting" where
  "rebase_accounting additions deletions =
     no_accounting\<lparr>sa_created := number_of_blocks additions, sa_updated := number_of_blocks deletions\<rparr>"

section \<open>The manifest of a rebase\<close>

definition revived :: "block_index \<Rightarrow> json \<Rightarrow> bool" where
  "revived additions t \<longleftrightarrow> (let d = fields_of t in
     text_at (u ''block_hash'') d \<in> fst ` set (blocks_at additions (text_at (u ''person'') d)))"

definition manual_entry :: "ustr \<Rightarrow> ustr \<Rightarrow> jobject" where
  "manual_entry tag logical = [(u ''tag'', JStr tag), (u ''kind'', JStr (u ''person-block'')), (u ''observations'', JList []),
     (u ''protected'', JList []), (u ''logical_identity'', JStr logical)]"

definition protect_entry :: "ustr \<Rightarrow> jobject \<Rightarrow> jobject" where
  "protect_entry logical e =
     (let e' = (if map_of e (u ''logical_identity'') = None then e @ [(u ''logical_identity'', JStr logical)] else e) in
      if JStr (u ''manual'') \<in> set (list_at (u ''protected'') e') then e'
      else put ''protected'' (JList (list_at (u ''protected'') e' @ [JStr (u ''manual'')])) e')"

definition protect_block :: "jobject \<Rightarrow> ustr \<times> ustr \<times> ustr \<Rightarrow> jobject" where
  "protect_block registry = (\<lambda>(key, tag, logical).
     let e = (case map_of registry key of None \<Rightarrow> manual_entry tag logical | Some v \<Rightarrow> fields_of v) in
     AList.update key (JObj (protect_entry logical e)) registry)"

definition protect_person :: "jobject \<Rightarrow> ustr \<times> (ustr \<times> ustr \<times> ustr) list \<Rightarrow> jobject" where
  "protect_person blocks = (\<lambda>(pointer, bs). AList.update pointer (JObj (foldl protect_block (object_at pointer blocks) bs)) blocks)"

definition tombstone_json :: "int \<Rightarrow> ustr \<Rightarrow> ustr \<Rightarrow> ustr \<Rightarrow> ustr \<Rightarrow> json" where
  "tombstone_json generation pointer key logical reason = JObj [(u ''generation'', JNumber generation), (u ''person'', JStr pointer),
     (u ''block_hash'', JStr key), (u ''logical_identity'', JStr logical), (u ''reason'', JStr reason)]"

definition new_tombstones :: "int \<Rightarrow> ustr \<Rightarrow> block_index \<Rightarrow> json list" where
  "new_tombstones generation reason deletions =
     concat (map (\<lambda>(p, bs). map (\<lambda>(key, tag, logical). tombstone_json generation p key logical reason) bs) deletions)"

definition rebased_manifest :: "ustr \<Rightarrow> block_index \<Rightarrow> block_index \<Rightarrow> jobject \<Rightarrow> jobject" where
  "rebased_manifest reason additions deletions d =
     (let kept = filter (\<lambda>t. \<not> revived additions t) (list_at (u ''manual_tombstones'') d);
          blocks = foldl protect_person (object_at (u ''blocks'') d) additions in
      put ''manual_tombstones'' (JList (kept @ new_tombstones (number_at (u ''generation'') d + 1) reason deletions))
        (put ''blocks'' (JObj blocks) d))"

section \<open>The command\<close>

record rebase_command =
  bc_master :: ustr
  bc_manifest :: ustr
  bc_release_root :: ustr
  bc_reason :: ustr
  bc_accept_deletions :: bool
  bc_dry_run :: bool

definition rebase_summary :: "ustr \<Rightarrow> block_index \<Rightarrow> block_index \<Rightarrow> ustr" where
  "rebase_summary reason additions deletions = join [10]
     [u ''# GEDCOM Manual Rebase Report'', [], u ''- Reason: '' @ reason,
      u ''- Added or changed blocks protected as manual: '' @ dec_nat (number_of_blocks additions),
      u ''- Confirmed manual deletions: '' @ dec_nat (number_of_blocks deletions),
      u ''- No website snapshots were processed.'', []]"

text \<open>The manifest with the previous master it names; \<open>rw_manifest\<close> and \<open>sf_fingerprint\<close> read the files.\<close>

definition opening_rebase :: "'s run_world \<Rightarrow> rebase_command \<Rightarrow> sync_fault + jobject \<times> ustr \<times> ustr" where
  "opening_rebase w c =
     bindE (ingressE (sf_fingerprint (rw_files w) (bc_manifest c))) (\<lambda>manifest_sha.
     bindE (ingressE (rw_manifest w (bc_manifest c))) (\<lambda>d.
     bindE (validate_manifest (rw_clock w) d) (\<lambda>_.
     bindE (verify_manifest_artifacts (rw_artifact w (bc_manifest c)) d) (\<lambda>_.
     bindE (ingressE (sf_normalize (rw_files w) (text_at (u ''path'') (object_at (u ''master'') d)))) (\<lambda>previous.
     bindE (ingressE (sf_fingerprint (rw_files w) previous)) (\<lambda>previous_sha.
     let expected = text_at (u ''sha256'') (object_at (u ''master'') d) in
     if previous_sha \<noteq> expected then Inl (Master_Mismatch expected previous_sha) else Inr (d, manifest_sha, previous)))))))"

definition rebase_bundle :: "'s run_world \<Rightarrow> rebase_command \<Rightarrow> ustr \<Rightarrow> ustr \<Rightarrow> ustr \<Rightarrow> block_index \<Rightarrow> block_index \<Rightarrow> jobject \<Rightarrow> release_bundle" where
  "rebase_bundle w c master_text master_sha manifest_sha additions deletions d =
     (let g = number_at (u ''generation'') d; directory = bc_release_root c @ u ''/'' @ release_name (g + 1) (rw_stamp w);
          info = \<lparr>ri_directory = directory, ri_master_sha = master_sha, ri_updated_at = rw_updated_at w,
            ri_manifest_path = Some (bc_manifest c), ri_manifest_sha = Some manifest_sha, ri_kind = Some (u ''manual-rebase'')\<rparr>;
          d' = record_release info g (rebased_manifest (bc_reason c) additions deletions d);
          rollback = json_bytes (JObj [(u ''schema_version'', JNumber 1), (u ''current_generation'', JNumber (g + 1)),
            (u ''previous'', lookup (u ''parent_release'') d'),
            (u ''instructions'', JStr (u ''Select the previous matching master and manifest to roll back.''))]);
          artifacts = [(''master.ged'', master_text),
            (''quality.md'', u ''# Quality Report'' @ [10, 10] @ u ''Run the next update or basic quality command.'' @ [10]),
            (''rollback.json'', rollback), (''update.md'', rebase_summary (bc_reason c) additions deletions)] in
      \<lparr>rb_directory = directory, rb_artifacts = artifacts, rb_manifest = record_checksums (sha_of w) artifacts d'\<rparr>)"

definition removed_counts :: "block_index \<Rightarrow> (ustr \<times> nat) list" where
  "removed_counts deletions = map (\<lambda>(p, bs). (p, length bs)) (sort_key fst deletions)"

text \<open>The rest of a rebase, with the indexes of the previous and of the edited master. The staged copy of
  the master has the text \<open>master_text\<close> that was read.\<close>

definition run_rebase :: "'s run_world \<Rightarrow> rebase_command \<Rightarrow> ustr \<Rightarrow> jobject \<Rightarrow> ustr \<Rightarrow> block_index \<Rightarrow> block_index
    \<Rightarrow> sync_fault + execution_result" where
  "run_rebase w c master_text d manifest_sha previous current =
     (let additions = blocks_beyond current previous; deletions = blocks_beyond previous current;
          accounting = rebase_accounting additions deletions;
          bundle = rebase_bundle w c master_text (sha_of w master_text) manifest_sha additions deletions d in
      if deletions \<noteq> [] \<and> \<not> bc_accept_deletions c then Inl (Unsafe_Removal (removed_counts deletions))
      else if bc_dry_run c
      then bindE (ingressE (rw_verify w)) (\<lambda>_. Inr \<lparr>er_output = rebase_summary (bc_reason c) additions deletions,
        er_committed = False, er_release = None, er_accounting = accounting\<rparr>)
      else bindE (ingressE (rw_verify w)) (\<lambda>_. bindE (rw_publish w bundle) (\<lambda>_.
        Inr \<lparr>er_output = u ''Manual rebase complete: '' @ rb_directory bundle @ [10],
             er_committed = True, er_release = Some bundle, er_accounting = accounting\<rparr>)))"

definition perform_rebase :: "'s run_world \<Rightarrow> rebase_command \<Rightarrow> ustr \<Rightarrow> sync_fault + execution_result" where
  "perform_rebase w c master_text =
     bindE (ingressE (sf_fingerprint (rw_files w) (bc_master c))) (\<lambda>_.
     bindE (opening_rebase w c) (\<lambda>(d, manifest_sha, previous_path).
     bindE (loadE (rw_load w [previous_path, bc_master c])) (\<lambda>_.
     bindE (coreE (bindE (rw_records w previous_path) (master_block_index (rw_text w)))) (\<lambda>previous.
     bindE (coreE (bindE (rw_records w (bc_master c)) (master_block_index (rw_text w)))) (\<lambda>current.
     run_rebase w c master_text d manifest_sha previous current)))))"

section \<open>Exit codes\<close>

definition sync_code :: "sync_fault \<Rightarrow> ustr" where
  "sync_code f = (case f of Configuration p \<Rightarrow> u ''SYNC_CONFIGURATION'' | Parse_Failed e \<Rightarrow> u ''SYNC_PARSE''
     | Manifest_Invalid field \<Rightarrow> u ''MANIFEST_INVALID'' | Master_Mismatch e a \<Rightarrow> u ''MANIFEST_MASTER_MISMATCH''
     | Artifact_Mismatch \<Rightarrow> u ''MANIFEST_MASTER_MISMATCH'' | Unsafe_Removal ps \<Rightarrow> u ''SYNC_UNSAFE_REMOVAL''
     | Output_Failed \<Rightarrow> u ''SYNC_OUTPUT'' | Unexpected e \<Rightarrow> u ''SYNC_OUTPUT'' | Ingress_Failed e \<Rightarrow> [])"

definition exit_codes :: "(ustr \<times> int) list" where
  "exit_codes = [(u ''SYNC_CONFIGURATION'', 2), (u ''SYNC_PARSE'', 3), (u ''MANIFEST_INVALID'', 4), (u ''MANIFEST_MASTER_MISMATCH'', 4),
     (u ''SYNC_AMBIGUOUS'', 5), (u ''SYNC_UNSAFE_REMOVAL'', 6), (u ''SYNC_OUTPUT'', 7), (u ''SYNC_PUBLICATION_INCOMPLETE'', 7)]"

definition sync_exit_code :: "ustr \<Rightarrow> int" where
  "sync_exit_code code = (case map_of exit_codes code of None \<Rightarrow> 1 | Some n \<Rightarrow> n)"

end
