(* ===== verification/Sync_Generations.thy ===== *)
theory Sync_Generations
  imports Sync_Rebase
begin

text \<open>
  Manifests across generations: what an update or a rebase publishes passes the check that the next run
  makes before it uses a manifest. The check is a chain of groups, and each group is shown to survive the
  fields the operations write.
\<close>

section \<open>Fields\<close>

lemma map_of_put [simp]: "map_of (put key v d) = (map_of d)(u key \<mapsto> v)"
  by (simp add: put_def update_conv')

lemma lookup_put [simp]: "lookup k (put key v d) = (if k = u key then v else lookup k d)"
  by (simp add: lookup_def)

lemma parts_at_put [simp]:
  "object_at k (put key v d) = (if k = u key then fields_of v else object_at k d)"
  "list_at k (put key v d) = (if k = u key then (case v of JList xs \<Rightarrow> xs | _ \<Rightarrow> []) else list_at k d)"
  "text_at k (put key v d) = (if k = u key then text_value v else text_at k d)"
  "number_at k (put key v d) = (if k = u key then (case v of JNumber n \<Rightarrow> n | _ \<Rightarrow> 0) else number_at k d)"
  by (simp_all add: object_at_def list_at_def text_at_def number_at_def fields_of_def text_value_def)

lemma fields_of_JObj [simp]: "fields_of (JObj d) = d"
  by (simp add: fields_of_def)

lemma lookup_Cons [simp]: "lookup k ((k', v) # d) = (if k = k' then v else lookup k d)"
  by (simp add: lookup_def)

lemma lookup_Nil [simp]: "lookup k [] = JNull"
  by (simp add: lookup_def)

lemma lookup_append: "lookup k (a @ b) = (if map_of a k = None then lookup k b else lookup k a)"
  by (auto simp: lookup_def map_add_def split: option.splits)

lemma lookup_optional_field [simp]:
  "lookup k (optional_field key f v @ d) = (if k = u key then (case v of None \<Rightarrow> lookup k d | Some x \<Rightarrow> f x) else lookup k d)"
  "lookup k (optional_field key f v) = (if k = u key then (case v of None \<Rightarrow> JNull | Some x \<Rightarrow> f x) else JNull)"
  by (auto simp: optional_field_def split: option.splits)

lemma parts_of_fields:
  "object_at k d = fields_of (lookup k d)" "text_at k d = text_value (lookup k d)"
  by (simp_all add: object_at_def fields_of_def text_at_def text_value_def)

lemma json_values [simp]: "is_text (JStr s)" "is_object (JObj d)" "is_list (JList xs)" "filled_text (JStr s) \<longleftrightarrow> s \<noteq> []"
    "is_sha (JStr s) \<longleftrightarrow> sha_text s" "is_from n (JNumber m) \<longleftrightarrow> n \<le> m" "none_or ok JNull" "text_value (JStr s) = s"
    "is_object JNull = False" "is_list JNull = False" "filled_text JNull = False" "is_sha JNull = False" "is_from n JNull = False" "is_text JNull = False"
  by (simp_all add: json_tests text_value_def)

lemma none_or_some [simp]: "v \<noteq> JNull \<Longrightarrow> none_or ok v \<longleftrightarrow> ok v"
  by (simp add: none_or_def)

section \<open>The groups of the check\<close>

lemma validate_manifest_iff:
  "validate_manifest clock d = Inr () \<longleftrightarrow> check_shape d = Inr ()
     \<and> (\<exists>vendors. check_snapshots clock d = Inr vendors \<and> check_active d vendors = Inr () \<and> check_bindings d vendors = Inr ())
     \<and> check_blocks d = Inr () \<and> check_tombstones d = Inr () \<and> check_releases clock d = Inr () \<and> check_parent d = Inr ()
     \<and> check_rest clock d = Inr ()"
  by (auto simp: validate_manifest_def result_simps)

section \<open>Snapshots and their vendors\<close>

definition source_of :: "json \<Rightarrow> ustr" where
  "source_of v = text_at (u ''source_id'') (fields_of v)"

definition vendor_of :: "json \<Rightarrow> ustr" where
  "vendor_of v = text_at (u ''vendor'') (fields_of v)"

lemma check_snapshot_Inr: "check_snapshot clock vendors (sid, v) = Inr vendors' \<longleftrightarrow>
    snapshot_valid clock sid (fields_of v)
    \<and> (case map_of vendors (source_of v) of None \<Rightarrow> vendors' = vendors @ [(source_of v, vendor_of v)]
        | Some x \<Rightarrow> x = vendor_of v \<and> vendors' = vendors)"
  by (auto simp: check_snapshot_def Let_def result_simps source_of_def vendor_of_def split: option.splits)

lemma check_snapshot_vendors:
  assumes "check_snapshot clock vendors (sid, v) = Inr vendors'"
  shows "map_of vendors' = (map_of vendors)(source_of v \<mapsto> vendor_of v) \<and> fst ` set vendors' = insert (source_of v) (fst ` set vendors)"
proof (cases "map_of vendors (source_of v)")
  case None
  then have "source_of v \<notin> dom (map_of vendors)" by blast
  then show ?thesis using assms None by (auto simp: check_snapshot_Inr map_add_upd_left fun_eq_iff map_add_def split: option.splits)
next
  case (Some x)
  then have "source_of v \<in> fst ` set vendors" by (force dest: map_of_SomeD)
  then show ?thesis using assms Some by (auto simp: check_snapshot_Inr fun_upd_idem)
qed

lemma check_snapshots_vendors:
  "foldE (check_snapshot clock) vendors snapshots = Inr vendors' \<Longrightarrow>
     fst ` set vendors' = fst ` set vendors \<union> (\<lambda>(k, v). source_of v) ` set snapshots
     \<and> (\<forall>(sid, v) \<in> set snapshots. snapshot_valid clock sid (fields_of v) \<and> map_of vendors' (source_of v) = Some (vendor_of v))
     \<and> (\<forall>s x. map_of vendors s = Some x \<longrightarrow> map_of vendors' s = Some x)"
proof (induction snapshots arbitrary: vendors)
  case (Cons entry snapshots)
  obtain sid v where e: "entry = (sid, v)" by (cases entry)
  from Cons.prems obtain vs where vs: "check_snapshot clock vendors (sid, v) = Inr vs" "foldE (check_snapshot clock) vs snapshots = Inr vendors'"
    by (auto simp: bindE_Inr_iff e)
  note IH = Cons.IH [OF vs(2)] and step = check_snapshot_vendors [OF vs(1)]
  have kept: "map_of vs s = Some x" if "map_of vendors s = Some x" for s x
    using that vs(1) step by (auto simp: check_snapshot_Inr split: option.splits if_splits)
  show ?case using IH step kept vs(1) by (auto simp: e check_snapshot_Inr)
qed simp

section \<open>Seeding keeps the history valid\<close>

definition spec_ok :: "(ustr \<Rightarrow> moment option) \<Rightarrow> (snapshot_spec \<Rightarrow> ustr) \<Rightarrow> snapshot_spec \<Rightarrow> bool" where
  "spec_ok clock observed spec \<longleftrightarrow> source_id_ok (sn_source_id spec) \<and> sn_vendor spec \<in> set supported_vendors
     \<and> sn_path spec \<noteq> [] \<and> sn_exported_at spec \<noteq> [] \<and> sn_date_basis spec \<in> set date_bases \<and> sha_text (sn_sha256 spec)
     \<and> observed spec \<noteq> [] \<and> is_aware (clock (observed spec))"

lemma sha_text_not_Nil [simp]: "\<not> sha_text []"
  by (simp add: sha_text_def)

lemma source_id_ok_not_Nil [simp]: "\<not> source_id_ok []"
  by (simp add: source_id_ok_def)

lemma snapshot_json_fields [simp]:
  "source_of (snapshot_json observed spec) = sn_source_id spec" "vendor_of (snapshot_json observed spec) = sn_vendor spec"
  by (simp_all add: source_of_def vendor_of_def snapshot_json_def parts_of_fields)

lemma snapshot_json_valid: "spec_ok clock observed spec \<Longrightarrow> snapshot_valid clock (snapshot_id spec) (fields_of (snapshot_json observed spec))"
  by (auto simp: snapshot_valid_def spec_ok_def snapshot_json_def snapshot_texts_def parts_of_fields snapshot_id_def supported_vendors_def date_bases_def)

text \<open>A source identifier has no colon, so the identifier of a snapshot gives its source.\<close>

lemma source_id_no_colon: "source_id_ok s \<Longrightarrow> \<forall>c \<in> set s. c \<noteq> 58"
  by (cases s) (auto simp: source_id_ok_def list_all_iff source_id_char_def is_lower_def is_digit_def)

lemma snapshot_id_source:
  assumes "source_id_ok s" "source_id_ok s'" "s @ u '':'' @ x = s' @ u '':'' @ y"
  shows "s = s'"
proof -
  have "takeWhile (\<lambda>c. c \<noteq> 58) (t @ u '':'' @ z) = t" if "source_id_ok t" for t z
    using source_id_no_colon [OF that] by (subst takeWhile_append2) (auto simp: u_def)
  from this [OF assms(1), of x] this [OF assms(2), of y] assms(3) show ?thesis by simp
qed

lemma snapshot_valid_source:
  assumes "snapshot_valid clock (snapshot_id spec) (fields_of v)" and "source_id_ok (sn_source_id spec)"
  shows "source_of v = sn_source_id spec"
proof -
  from assms(1) have v: "source_id_ok (source_of v)" "snapshot_id spec = source_of v @ u '':'' @ take 20 (text_at (u ''sha256'') (fields_of v))"
    by (auto simp: snapshot_valid_def source_of_def)
  show ?thesis by (rule snapshot_id_source [OF v(1) assms(2) v(2) [unfolded snapshot_id_def, symmetric]])
qed

lemma list_all_update: "list_all P d \<Longrightarrow> P (k, v) \<Longrightarrow> list_all P (AList.update k v d)"
  by (induction d) auto

lemma active_valid_mono:
  "active_valid snapshots x \<Longrightarrow> (\<And>k v. map_of snapshots k = Some v \<Longrightarrow> map_of snapshots' k = Some v) \<Longrightarrow> active_valid snapshots' x"
  by (cases x) (auto simp: active_valid_def split: json.splits option.splits)

lemma map_of_snoc: "map_of (d @ [(k, v)]) = (if map_of d k = None then (map_of d)(k \<mapsto> v) else map_of d)"
  by (auto simp: map_add_def fun_eq_iff split: option.splits)

text \<open>The history of snapshots and the active ones, as the check wants them.\<close>

definition history_ok :: "(ustr \<Rightarrow> moment option) \<Rightarrow> (ustr \<times> ustr) list \<Rightarrow> jobject \<times> jobject \<Rightarrow> bool" where
  "history_ok clock vendors h \<longleftrightarrow> (case h of (snapshots, active) \<Rightarrow>
     foldE (check_snapshot clock) [] snapshots = Inr vendors \<and> list_all (active_valid snapshots) active
     \<and> fst ` set active = fst ` set vendors)"

lemma seed_snapshot_ok:
  assumes ok: "history_ok clock vendors (snapshots, active)" and spec: "spec_ok clock observed spec"
    and vendor: "map_of vendors (sn_source_id spec) \<in> {None, Some (sn_vendor spec)}"
    and h: "seed_snapshot observed spec (snapshots, active) = (snapshots', active')"
  shows "\<exists>vendors'. history_ok clock vendors' (snapshots', active') \<and> map_of vendors' = (map_of vendors)(sn_source_id spec \<mapsto> sn_vendor spec)
    \<and> map_of snapshots' (snapshot_id spec) \<noteq> None \<and> (\<forall>k v. map_of snapshots k = Some v \<longrightarrow> map_of snapshots' k = Some v)"
proof -
  from ok have fold: "foldE (check_snapshot clock) [] snapshots = Inr vendors" and active: "list_all (active_valid snapshots) active"
    and keys: "fst ` set active = fst ` set vendors" by (simp_all add: history_ok_def)
  from h have a': "active' = AList.update (sn_source_id spec) (JStr (snapshot_id spec)) active" by (auto simp: seed_snapshot_def)
  have keys': "fst ` set active' = insert (sn_source_id spec) (fst ` set active)"
    using dom_update [of "sn_source_id spec" "JStr (snapshot_id spec)" active] by (simp add: a')
  have src: "source_id_ok (sn_source_id spec)" using spec by (simp add: spec_ok_def)
  have active': "list_all (active_valid snapshots') active'"
    if "\<And>k v. map_of snapshots k = Some v \<Longrightarrow> map_of snapshots' k = Some v" "map_of snapshots' (snapshot_id spec) = Some v"
      "source_of v = sn_source_id spec" for v
    unfolding a'
  proof (rule list_all_update)
    show "list_all (active_valid snapshots') active"
      using active active_valid_mono [OF _ that(1)] unfolding list_all_iff by blast
    show "active_valid snapshots' (sn_source_id spec, JStr (snapshot_id spec))" using that src by (simp add: active_valid_def source_of_def)
  qed
  show ?thesis
  proof (cases "map_of snapshots (snapshot_id spec)")
    case (Some v)
    then have same: "snapshots' = snapshots" using h by (auto simp: seed_snapshot_def)
    from check_snapshots_vendors [OF fold] map_of_SomeD [OF Some]
    have v: "snapshot_valid clock (snapshot_id spec) (fields_of v)" "map_of vendors (source_of v) = Some (vendor_of v)" by auto
    from snapshot_valid_source [OF v(1) src] have source: "source_of v = sn_source_id spec" .
    have "map_of vendors (sn_source_id spec) = Some (sn_vendor spec)" using v(2) vendor source by auto
    then have "map_of vendors = (map_of vendors)(sn_source_id spec \<mapsto> sn_vendor spec)" "sn_source_id spec \<in> fst ` set vendors"
      by (simp_all add: fun_upd_idem) (force dest: map_of_SomeD)
    moreover from this(2) have "history_ok clock vendors (snapshots', active')"
      using fold active' [of v] Some source keys keys' by (auto simp: history_ok_def same)
    ultimately show ?thesis using Some by (auto simp: same)
  next
    case None
    then have new: "snapshots' = snapshots @ [(snapshot_id spec, snapshot_json observed spec)]" using h by (auto simp: seed_snapshot_def)
    have more: "map_of snapshots' k = Some v" if "map_of snapshots k = Some v" for k v using that by (simp add: new map_add_def)
    have at: "map_of snapshots' (snapshot_id spec) = Some (snapshot_json observed spec)" using None by (simp add: new map_add_def)
    from vendor snapshot_json_valid [OF spec] obtain vendors' where
      step: "check_snapshot clock vendors (snapshot_id spec, snapshot_json observed spec) = Inr vendors'"
      by (cases "map_of vendors (sn_source_id spec)") (auto simp: check_snapshot_Inr)
    with fold have "foldE (check_snapshot clock) [] snapshots' = Inr vendors'" by (simp add: new foldE_append)
    moreover from check_snapshot_vendors [OF step] have "map_of vendors' = (map_of vendors)(sn_source_id spec \<mapsto> sn_vendor spec)"
      "fst ` set vendors' = insert (sn_source_id spec) (fst ` set vendors)" by simp_all
    ultimately show ?thesis using active' [OF more at] at more keys keys' by (auto simp: history_ok_def)
  qed
qed

lemma seed_history_ok:
  assumes "history_ok clock vendors h" and "list_all (spec_ok clock observed) specs" and "distinct (map sn_source_id specs)"
    and "\<forall>spec \<in> set specs. map_of vendors (sn_source_id spec) \<in> {None, Some (sn_vendor spec)}"
  shows "\<exists>vendors'. history_ok clock vendors' (fold (seed_snapshot observed) specs h)
    \<and> (\<forall>spec \<in> set specs. map_of vendors' (sn_source_id spec) \<noteq> None \<and> map_of (fst (fold (seed_snapshot observed) specs h)) (snapshot_id spec) \<noteq> None)
    \<and> (\<forall>s x. map_of vendors s = Some x \<longrightarrow> map_of vendors' s = Some x)
    \<and> (\<forall>k v. map_of (fst h) k = Some v \<longrightarrow> map_of (fst (fold (seed_snapshot observed) specs h)) k = Some v)"
  using assms
proof (induction specs arbitrary: vendors h)
  case (Cons spec specs)
  obtain snapshots active where h: "h = (snapshots, active)" by (cases h)
  obtain snapshots' active' where h': "seed_snapshot observed spec (snapshots, active) = (snapshots', active')" by fastforce
  have "spec_ok clock observed spec" "map_of vendors (sn_source_id spec) \<in> {None, Some (sn_vendor spec)}" using Cons.prems(2,4) by simp_all
  from seed_snapshot_ok [OF Cons.prems(1) [unfolded h] this h'] obtain vs where
    vs: "history_ok clock vs (snapshots', active')" "map_of vs = (map_of vendors)(sn_source_id spec \<mapsto> sn_vendor spec)"
      "map_of snapshots' (snapshot_id spec) \<noteq> None" "\<forall>k v. map_of snapshots k = Some v \<longrightarrow> map_of snapshots' k = Some v" by blast
  have rest: "\<forall>s \<in> set specs. map_of vs (sn_source_id s) \<in> {None, Some (sn_vendor s)}"
    using Cons.prems(3,4) vs(2) by (auto simp: image_iff)
  have "list_all (spec_ok clock observed) specs" "distinct (map sn_source_id specs)" using Cons.prems(2,3) by simp_all
  from Cons.IH [OF vs(1) this rest] obtain vs' where
    vs': "history_ok clock vs' (fold (seed_snapshot observed) specs (snapshots', active'))"
      "\<forall>s \<in> set specs. map_of vs' (sn_source_id s) \<noteq> None \<and> map_of (fst (fold (seed_snapshot observed) specs (snapshots', active'))) (snapshot_id s) \<noteq> None"
      "\<forall>s x. map_of vs s = Some x \<longrightarrow> map_of vs' s = Some x"
      "\<forall>k v. map_of snapshots' k = Some v \<longrightarrow> map_of (fst (fold (seed_snapshot observed) specs (snapshots', active'))) k = Some v" by auto
  have "map_of vs' s = Some x" if "map_of vendors s = Some x" for s x
    using that vs'(3) vs(2) Cons.prems(4) by (cases "s = sn_source_id spec") auto
  moreover have "map_of vs' (sn_source_id spec) \<noteq> None" using vs'(3) vs(2) by (metis fun_upd_same option.distinct(1))
  moreover have "map_of (fst (fold (seed_snapshot observed) specs (snapshots', active'))) (snapshot_id spec) \<noteq> None" using vs(3) vs'(4) by auto
  moreover have "map_of (fst (fold (seed_snapshot observed) specs (snapshots', active'))) k = Some v" if "map_of snapshots k = Some v" for k v
    using that vs(4) vs'(4) by blast
  ultimately show ?case using vs'(1,2) by (intro exI [of _ vs']) (simp add: h h')
qed auto

section \<open>Provenance of blocks\<close>

definition entry_ok :: "jobject \<Rightarrow> block_entry \<Rightarrow> bool" where
  "entry_ok snapshots e \<longleftrightarrow> be_tag e \<noteq> [] \<and> (\<forall>s \<in> set (be_observations e). map_of snapshots s \<noteq> None)
     \<and> pred_option sha_text (be_logical e) \<and> pred_option (\<lambda>n. 0 \<le> n) (be_first_seen e) \<and> pred_option (\<lambda>n. 0 \<le> n) (be_last_seen e)"

definition registry_ok :: "jobject \<Rightarrow> registry \<Rightarrow> bool" where
  "registry_ok snapshots r \<longleftrightarrow> list_all (\<lambda>(k, e). sha_text k \<and> entry_ok snapshots e) r"

definition blocks_ok :: "jobject \<Rightarrow> (ustr \<times> registry) list \<Rightarrow> bool" where
  "blocks_ok snapshots bs \<longleftrightarrow> list_all (\<lambda>(p, r). p \<noteq> [] \<and> registry_ok snapshots r) bs"

lemma entry_json_fields [simp]:
  "lookup (u ''tag'') (fields_of (entry_json e)) = JStr (be_tag e)"
  "lookup (u ''observations'') (fields_of (entry_json e)) = JList (map JStr (be_observations e))"
  "lookup (u ''protected'') (fields_of (entry_json e)) = JList (map JStr (be_protected e))"
  "lookup (u ''logical_identity'') (fields_of (entry_json e)) = (case be_logical e of None \<Rightarrow> JNull | Some l \<Rightarrow> JStr l)"
  "lookup (u ''first_seen_generation'') (fields_of (entry_json e)) = (case be_first_seen e of None \<Rightarrow> JNull | Some n \<Rightarrow> JNumber n)"
  "lookup (u ''last_seen_generation'') (fields_of (entry_json e)) = (case be_last_seen e of None \<Rightarrow> JNull | Some n \<Rightarrow> JNumber n)"
  "is_object (entry_json e)"
  by (simp_all add: entry_json_def split: option.split)

lemma none_or_option:
  "none_or is_sha (case x of None \<Rightarrow> JNull | Some l \<Rightarrow> JStr l) \<longleftrightarrow> pred_option sha_text x"
  "none_or (is_from 0) (case n of None \<Rightarrow> JNull | Some m \<Rightarrow> JNumber m) \<longleftrightarrow> pred_option (\<lambda>m. 0 \<le> m) n"
  by (cases x; simp) (cases n; simp)

lemma option_of_json:
  "none_or is_sha v \<Longrightarrow> pred_option sha_text (text_option v)"
  "none_or (is_from 0) v \<Longrightarrow> pred_option (\<lambda>m. 0 \<le> m) (number_option v)"
  "filled_text v \<Longrightarrow> text_value v \<noteq> []"
  by (cases v; simp add: none_or_def is_sha_def is_from_def filled_text_def text_option_def number_option_def text_value_def)+

lemma entry_json_valid: "sha_text k \<Longrightarrow> entry_ok snapshots e \<Longrightarrow> entry_valid snapshots (k, entry_json e)"
  unfolding entry_valid_def entry_ok_def Let_def prod.case list_at_def entry_json_fields none_or_option json.case
  by (simp add: list_all_iff)

lemma entry_of_ok: "entry_valid snapshots (k, v) \<Longrightarrow> sha_text k \<and> entry_ok snapshots (entry_of v)"
  unfolding entry_valid_def entry_ok_def Let_def prod.case entry_of_def block_entry.select_convs text_at_def
  by (auto simp: option_of_json list_all_iff filled_text_def text_value_def is_text_def split: json.splits)

lemma registry_json_valid: "registry_ok snapshots r \<Longrightarrow> list_all (entry_valid snapshots) (map (\<lambda>(k, e). (k, entry_json e)) r)"
  unfolding registry_ok_def by (induction r) (auto intro: entry_json_valid)

lemma blocks_json_valid:
  "blocks_ok snapshots bs \<Longrightarrow> list_all (person_blocks_valid snapshots) (map (\<lambda>(p, r). (p, registry_json r)) bs)"
  unfolding blocks_ok_def by (induction bs) (auto simp: person_blocks_valid_def registry_json_def dest: registry_json_valid)

lemma blocks_of_ok:
  "list_all (person_blocks_valid snapshots) d \<Longrightarrow> blocks_ok snapshots (map (\<lambda>(p, v). (p, registry_of v)) d)"
  by (fastforce simp: blocks_ok_def registry_ok_def list_all_iff person_blocks_valid_def registry_of_def dest!: entry_of_ok)

lemma entry_valid_mono:
  "entry_valid snapshots x \<Longrightarrow> (\<And>k v. map_of snapshots k = Some v \<Longrightarrow> map_of snapshots' k = Some v) \<Longrightarrow> entry_valid snapshots' x"
  by (cases x) (fastforce simp: entry_valid_def Let_def list_all_iff split: json.splits)

lemma person_blocks_valid_mono:
  assumes "person_blocks_valid snapshots x" and "\<And>k v. map_of snapshots k = Some v \<Longrightarrow> map_of snapshots' k = Some v"
  shows "person_blocks_valid snapshots' x"
  using assms(1) entry_valid_mono [OF _ assms(2)] by (cases x) (auto simp: person_blocks_valid_def list_all_iff)

section \<open>Reconciling keeps the provenance valid\<close>

lemma key_is_sha:
  assumes "\<forall>s. sha_text (tr_sha256 tr s)"
  shows "block_key tr block = Inr key \<Longrightarrow> sha_text key" and "block_logical_identity tr block = Inr logical \<Longrightarrow> sha_text logical"
  using assms by (auto simp: block_key_def structure_key_def lines_key_def block_logical_identity_def bindE_Inr_iff split: if_splits)

lemma first_line_tag: "first_line block = Inr line \<Longrightarrow> gl_tag line \<noteq> []"
  by (auto simp: first_line_def parse0_def parts_ok_def tag_shape_def dest!: parse_gedcom_line_parts(1) split: list.splits)

lemma registry_ok_update:
  "registry_ok snapshots r \<Longrightarrow> sha_text k \<Longrightarrow> entry_ok snapshots e \<Longrightarrow> registry_ok snapshots (AList.update k e r)"
  unfolding registry_ok_def by (rule list_all_update) simp_all

lemma registry_ok_at: "registry_ok snapshots r \<Longrightarrow> map_of r k = Some e \<Longrightarrow> entry_ok snapshots e"
  by (drule map_of_SomeD) (auto simp: registry_ok_def list_all_iff)

lemma observe_block_ok:
  assumes "entry_ok snapshots e" and "sha_text logical" and "0 \<le> generation"
    and "\<forall>spec. origin = Some spec \<longrightarrow> map_of snapshots (snapshot_id spec) \<noteq> None"
  shows "entry_ok snapshots (observe_block initialize generation origin logical e)"
  using assms by (cases "be_logical e") (auto simp: observe_block_def entry_ok_def Let_def split: option.splits)

lemma add_origin_block_ok:
  assumes step: "add_origin_block tr m initialize target origin st block = Inr st'" and r: "registry_ok snapshots (pm_registry st)"
    and sha: "\<forall>s. sha_text (tr_sha256 tr s)" and g: "0 \<le> sm_generation m"
    and spec: "\<forall>spec. origin = Some spec \<longrightarrow> map_of snapshots (snapshot_id spec) \<noteq> None"
  shows "registry_ok snapshots (pm_registry st')"
proof -
  from step obtain key logical first where k: "block_key tr block = Inr key" "block_logical_identity tr block = Inr logical"
    "first_line block = Inr first" by (auto simp: add_origin_block_def bindE_Inr_iff)
  note key = key_is_sha(1) [OF sha k(1)] key_is_sha(2) [OF sha k(2)]
  have new: "entry_ok snapshots (new_entry (sm_generation m + 1) (gl_tag first))"
    using first_line_tag [OF k(3)] g by (simp add: entry_ok_def new_entry_def)
  have "entry_ok snapshots (case map_of (pm_registry st) key of None \<Rightarrow> new_entry (sm_generation m + 1) (gl_tag first) | Some e \<Rightarrow> e)"
    using new registry_ok_at [OF r] by (auto split: option.split)
  from observe_block_ok [OF this key(2) _ spec, of "sm_generation m + 1" initialize] g
  have e: "entry_ok snapshots (observe_block initialize (sm_generation m + 1) origin logical
      (case map_of (pm_registry st) key of None \<Rightarrow> new_entry (sm_generation m + 1) (gl_tag first) | Some e \<Rightarrow> e))" by simp
  show ?thesis
  proof (cases "origin \<noteq> None \<and> tombstoned m target key logical")
    case True
    then show ?thesis using step k r by (auto simp: add_origin_block_def Let_def)
  next
    case False
    with step k have "pm_registry st' = AList.update key (observe_block initialize (sm_generation m + 1) origin logical
      (case map_of (pm_registry st) key of None \<Rightarrow> new_entry (sm_generation m + 1) (gl_tag first) | Some e \<Rightarrow> e)) (pm_registry st)"
      by (auto simp: add_origin_block_def merge_origin_block_def bindE_Inr_iff Let_def)
    then show ?thesis using registry_ok_update [OF r key(1) e] by simp
  qed
qed

definition origins_known :: "jobject \<Rightarrow> (snapshot_spec option \<times> gedcom_record) list \<Rightarrow> bool" where
  "origins_known snapshots origins \<longleftrightarrow> (\<forall>(origin, r) \<in> set origins. \<forall>spec. origin = Some spec \<longrightarrow> map_of snapshots (snapshot_id spec) \<noteq> None)"

lemma gather_person_ok:
  assumes "gather_person tr m initialize pointer_map target registry stats origins = Inr st"
    and "\<forall>r. registry = Some r \<longrightarrow> registry_ok snapshots r" and "origins_known snapshots origins"
    and sha: "\<forall>s. sha_text (tr_sha256 tr s)" and g: "0 \<le> sm_generation m"
  shows "registry_ok snapshots (pm_registry st)"
proof (rule foldE_invariant [where P = "\<lambda>st. registry_ok snapshots (pm_registry st)", OF assms(1) [unfolded gather_person_def]])
  show "registry_ok snapshots (pm_registry \<lparr>pm_blocks = [], pm_master_keys = [],
       pm_registry = (case registry of None \<Rightarrow> [] | Some r \<Rightarrow> r), pm_stats = stats\<rparr>)"
    using assms(2) by (auto simp: registry_ok_def split: option.split)
  fix a x b assume a: "registry_ok snapshots (pm_registry a)" and x: "x \<in> set origins"
    and step: "add_origin tr m initialize pointer_map target a x = Inr b"
  obtain origin r where xr: "x = (origin, r)" by (cases x)
  from step obtain blocks where blocks: "foldE (add_origin_block tr m initialize target origin) a blocks = Inr b"
    by (auto simp: add_origin_def bindE_Inr_iff xr)
  have "\<forall>spec. origin = Some spec \<longrightarrow> map_of snapshots (snapshot_id spec) \<noteq> None" using assms(3) x by (auto simp: origins_known_def xr)
  then show "registry_ok snapshots (pm_registry b)"
    by (intro foldE_invariant [where P = "\<lambda>st. registry_ok snapshots (pm_registry st)", OF blocks a])
      (rule add_origin_block_ok [OF _ _ sha g])
qed

lemma append_entry_all: "list_all P d \<Longrightarrow> P (k, entries d k @ [x]) \<Longrightarrow> list_all P (append_entry k x d)"
  unfolding append_entry_def by (rule list_all_update) simp_all

lemma blocks_ok_at: "blocks_ok snapshots bs \<Longrightarrow> map_of bs p = Some r \<Longrightarrow> registry_ok snapshots r"
  by (drule map_of_SomeD) (auto simp: blocks_ok_def list_all_iff)

lemma group_people_known:
  assumes "group_people sources specs pointer_map = Inr grouped"
    and "\<forall>spec \<in> set specs. map_of snapshots (snapshot_id spec) \<noteq> None"
  shows "list_all (\<lambda>(t, origins). origins_known snapshots origins) grouped"
proof (rule foldE_invariant [where P = "list_all (\<lambda>(t, origins). origins_known snapshots origins)", OF assms(1) [unfolded group_people_def]])
  fix a r b assume a: "list_all (\<lambda>(t, origins). origins_known snapshots origins) a" and step: "add_origin_record specs pointer_map a r = Inr b"
  have known: "origins_known snapshots (entries a k)" for k
  proof (cases "map_of a k")
    case (Some origins)
    from map_of_SomeD [OF this] a show ?thesis using Some by (auto simp: entries_def list_all_iff)
  qed (simp add: entries_def origins_known_def)
  have spec: "\<forall>spec. spec_of_path specs (gr_source_file r) = Some spec \<longrightarrow> map_of snapshots (snapshot_id spec) \<noteq> None"
    using assms(2) by (auto simp: spec_of_path_def dest!: map_of_SomeD)
  have "origins_known snapshots (entries a k @ [(spec_of_path specs (gr_source_file r), r)])" for k
    using known [of k] spec by (auto simp: origins_known_def)
  then show "list_all (\<lambda>(t, origins). origins_known snapshots origins) b"
    using step a by (auto simp: add_origin_record_def bindE_Inr_iff Let_def split: if_splits intro!: append_entry_all)
qed simp

lemma reconcile_blocks_ok:
  assumes "reconcile_person_blocks tr sources specs pointer_map m stats initialize = Inr rc" and "blocks_ok snapshots (sm_blocks m)"
    and specs: "\<forall>spec \<in> set specs. map_of snapshots (snapshot_id spec) \<noteq> None"
    and sha: "\<forall>s. sha_text (tr_sha256 tr s)" and g: "0 \<le> sm_generation m"
    and named: "\<forall>grouped. group_people sources specs pointer_map = Inr grouped \<longrightarrow> [] \<notin> fst ` set grouped"
  shows "blocks_ok snapshots (rc_blocks rc)"
proof -
  from assms(1) obtain grouped where grouped: "group_people sources specs pointer_map = Inr grouped"
    by (auto simp: reconcile_person_blocks_def bindE_Inr_iff)
  show ?thesis
  proof (cases sources)
    case Nil
    then show ?thesis using assms(1,2) grouped by (auto simp: reconcile_person_blocks_def)
  next
    case (Cons master snaps)
    then have fold: "foldE (reconcile_person tr m initialize pointer_map (so_path master) (active_snapshot_ids m specs))
        \<lparr>rc_people = [], rc_blocks = sm_blocks m, rc_removed = sm_removed m, rc_stats = stats\<rparr> (sort_key fst grouped) = Inr rc"
      using assms(1) grouped by (simp add: reconcile_person_blocks_def)
    show ?thesis
    proof (rule foldE_invariant [where P = "\<lambda>rc. blocks_ok snapshots (rc_blocks rc)", OF fold])
      fix a x b assume a: "blocks_ok snapshots (rc_blocks a)" and x: "x \<in> set (sort_key fst grouped)"
        and step: "reconcile_person tr m initialize pointer_map (so_path master) (active_snapshot_ids m specs) a x = Inr b"
      obtain target origins where xt: "x = (target, origins)" by (cases x)
      have known: "origins_known snapshots origins" using group_people_known [OF grouped specs] x by (auto simp: list_all_iff xt)
      have t: "target \<noteq> []" using named grouped x by (auto simp: xt image_iff)
      from step show "blocks_ok snapshots (rc_blocks b)" unfolding xt
      proof (rule reconcile_person_Inr)
        fix st rt person assume gather: "gather_person tr m initialize pointer_map target (map_of (rc_blocks a) target) (rc_stats a) origins = Inr st"
          and b: "b = \<lparr>rc_people = rc_people a @ [person], rc_blocks = AList.update target (pm_registry st) (rc_blocks a),
            rc_removed = rt_removed rt, rc_stats = rt_stats rt\<rparr>"
        have "registry_ok snapshots (pm_registry st)"
          using gather_person_ok [OF gather _ known sha g] blocks_ok_at [OF a] by blast
        then show ?thesis using a t by (auto simp: b blocks_ok_def intro!: list_all_update)
      qed
    qed (use assms(2) in simp)
  qed
qed

section \<open>Counters and bindings\<close>

definition counters_ok :: "(ustr \<times> int) list \<Rightarrow> bool" where
  "counters_ok cs \<longleftrightarrow> list_all (\<lambda>(k, n). 1 \<le> n) cs"

lemma next_counter_ge: "counter \<le> next_counter used letter counter"
proof (induction used letter counter rule: next_counter.induct)
  case (1 used letter counter)
  then show ?case by (subst next_counter.simps) auto
qed

lemma next_pointer_counters:
  assumes "counters_ok (pp_counters pool)" and "next_pointer pool tag = (pool', t)"
  shows "counters_ok (pp_counters pool')"
proof -
  let ?start = "case map_of (pp_counters pool) (prefix_of tag) of None \<Rightarrow> 1 | Some n \<Rightarrow> n"
  have "1 \<le> ?start" using assms(1) by (auto simp: counters_ok_def list_all_iff dest!: map_of_SomeD split: option.split)
  with next_counter_ge [of ?start "pp_used pool" "prefix_of tag"] have "1 \<le> next_counter (pp_used pool) (prefix_of tag) ?start + 1" by linarith
  then show ?thesis using assms unfolding counters_ok_def by (auto simp: next_pointer_def Let_def intro!: list_all_update)
qed

text \<open>The pool a choice leaves: the old one, or the one after one new pointer.\<close>

definition pool_step :: "pointer_pool \<Rightarrow> pointer_pool \<Rightarrow> bool" where
  "pool_step pool pool' \<longleftrightarrow> pool' = pool \<or> (\<exists>t. next_pointer pool (u ''INDI'') = (pool', t))"

lemma keep_apart_pool: "keep_apart source_id original notes (pool, stats) = ((pool', stats'), t) \<Longrightarrow> pool_step pool pool'"
  by (auto simp: keep_apart_def pool_step_def split: prod.splits)

lemma mapped_to_pool: "mapped_to source_id original note x (pool, stats) = ((pool', stats'), t) \<Longrightarrow> pool' = pool"
  by (simp add: mapped_to_def)

lemma resolve_target_pool:
  assumes "resolve_target core source_id st scored incoming original = Inr ((pool, stats), t)"
  shows "pool_step (ms_pool st) pool"
proof (cases "cr_resolver core")
  case None
  then show ?thesis using assms by (auto simp: resolve_target_def Let_def dest: keep_apart_pool split: list.splits)
next
  case (Some resolver)
  show ?thesis
  proof (cases scored)
    case Nil
    then show ?thesis using assms Some by (auto simp: resolve_target_def Let_def dest: keep_apart_pool)
  next
    case (Cons s ss)
    let ?best = "best_scored s ss"
    from assms Some Cons obtain r where ask: "ask_resolver core st incoming resolver ?best = Inr r"
      by (auto simp: resolve_target_def Let_def bindE_Inr_iff)
    show ?thesis
    proof (cases r)
      case None
      then show ?thesis using assms Some Cons ask by (auto simp: resolve_target_def Let_def dest!: keep_apart_pool)
    next
      case (Some v)
      then show ?thesis using assms \<open>cr_resolver core = Some resolver\<close> Cons ask
        by (cases "in_pointer (fst ?best) = []")
          (auto simp: resolve_target_def Let_def mapped_to_def pool_step_def [of "ms_pool st" "ms_pool st"] dest!: keep_apart_pool)
    qed
  qed
qed

lemma choose_target_pool:
  assumes "choose_target core tr source_id st previous ids incoming original = Inr ((pool, stats), t)"
  shows "pool_step (ms_pool st) pool"
proof -
  let ?scored = "scored_survivors core (ms_survivors st) incoming"
  note eq = assms [unfolded choose_target_def Let_def]
  have score: "pool_step (ms_pool st) pool" if "score_target core source_id st ?scored incoming original = Inr ((pool, stats), t)"
    using that by (auto simp: score_target_def mapped_to_def pool_step_def split: list.splits dest!: resolve_target_pool)
  show ?thesis
  proof (cases "safe_candidates core tr st previous ids ?scored incoming" rule: remdups_adj.cases)
    case 1
    with eq score show ?thesis by simp
  next
    case (2 x)
    with eq show ?thesis by (auto simp: mapped_to_def pool_step_def split: if_splits)
  next
    case (3 x y zs)
    with eq show ?thesis by (auto simp: pool_step_def split: prod.splits)
  qed
qed

lemma match_person_counters:
  "match_person core tr source_id bindings st x = Inr st' \<Longrightarrow> counters_ok (pp_counters (ms_pool st)) \<Longrightarrow> counters_ok (pp_counters (ms_pool st'))"
  by (cases x) (auto simp: match_person_def bindE_Inr_iff add_survivor_def index_person_def Let_def pool_step_def
      dest!: choose_target_pool dest: next_pointer_counters)

lemma match_snapshot_counters:
  assumes "match_snapshot core tr bindings (st, acc) (spec, source, people) = Inr (st', acc')" and "counters_ok (pp_counters (ms_pool st))"
  shows "counters_ok (pp_counters (ms_pool st')) \<and> fst ` set acc' = insert (sn_source_id spec) (fst ` set acc)"
proof -
  from assms(1) obtain ordered a where a: "foldE (match_person core tr (sn_source_id spec) (bindings (sn_source_id spec))) (st\<lparr>ms_bindings := []\<rparr>) ordered = Inr a"
    "st' = a" "acc' = AList.update (sn_source_id spec) (ms_bindings a) acc"
    by (auto simp: match_snapshot_def bindE_Inr_iff)
  have "counters_ok (pp_counters (ms_pool a))"
    by (rule foldE_invariant [where P = "\<lambda>st. counters_ok (pp_counters (ms_pool st))", OF a(1)])
      (use assms(2) in \<open>auto intro: match_person_counters\<close>)
  then show ?thesis using dom_update [of "sn_source_id spec" "ms_bindings a" acc] by (simp add: a)
qed

lemma index_master_pool: "index_master tr st p = Inr st' \<Longrightarrow> ms_pool st' = ms_pool st"
  by (auto simp: index_master_def bindE_Inr_iff index_person_def Let_def)

lemma match_people_counters:
  assumes "match_people core tr sources specs bindings next_ids stats = Inr (st, result)" and "counters_ok next_ids"
  shows "counters_ok (pp_counters (ms_pool st)) \<and> fst ` set result \<subseteq> sn_source_id ` set specs"
proof -
  from assms(1) obtain people used st0 where
    start: "foldE (index_master tr) (master_state (hd people) \<lparr>pp_used = used, pp_counters = next_ids\<rparr> stats) (hd people) = Inr st0"
    and fold: "foldE (match_snapshot core tr bindings) (st0, []) (zip specs (zip (tl sources) (tl people))) = Inr (st, result)"
    by (auto simp: match_people_def bindE_Inr_iff split: if_splits)
  have "ms_pool st0 = \<lparr>pp_used = used, pp_counters = next_ids\<rparr>"
    by (rule foldE_invariant [where P = "\<lambda>st. ms_pool st = \<lparr>pp_used = used, pp_counters = next_ids\<rparr>", OF start])
      (simp_all add: master_state_def index_master_pool)
  then have c0: "counters_ok (pp_counters (ms_pool st0))" using assms(2) by simp
  let ?P = "\<lambda>(st, acc). counters_ok (pp_counters (ms_pool st)) \<and> fst ` set acc \<subseteq> sn_source_id ` set specs"
  have "?P (st, result)"
  proof (rule foldE_invariant [where P = ?P, OF fold])
    fix a x b assume a: "?P a" and x: "x \<in> set (zip specs (zip (tl sources) (tl people)))" and step: "match_snapshot core tr bindings a x = Inr b"
    obtain sa acc where sa: "a = (sa, acc)" by (cases a)
    obtain sb acc' where sb: "b = (sb, acc')" by (cases b)
    obtain spec source ps where xs: "x = (spec, source, ps)" by (cases x)
    have "spec \<in> set specs" using x by (auto simp: xs dest: set_zip_leftD)
    then show "?P b" using match_snapshot_counters [OF step [unfolded sa sb xs]] a by (auto simp: sa sb)
  qed (simp add: c0)
  then show ?thesis by simp
qed

lemma choose_representative_counters:
  "choose_representative is_master tag key pointer st = (target, st') \<Longrightarrow> counters_ok (pp_counters (np_pool st)) \<Longrightarrow> counters_ok (pp_counters (np_pool st'))"
  by (auto simp: choose_representative_def Let_def dest: next_pointer_counters split: option.splits if_splits prod.splits)

lemma store_record_pool: "store_record tr tag target synthetic st = Inr st' \<Longrightarrow> np_pool st' = np_pool st"
  by (auto simp: store_record_def bindE_Inr_iff split: option.splits if_splits)

lemma map_record_parts:
  assumes "map_record tr path st (tag, r) = Inr st'"
  obtains p key target st1 lines where
    "choose_representative (gr_source_file r = path) tag key p
      (if gr_source_file r = path then st\<lparr>np_map := set_default (np_map st) p p\<rparr> else st) = (target, st1)"
    "store_record tr tag target (made_record lines r) (st1\<lparr>np_map := (np_map st1)(p \<mapsto> target)\<rparr>) = Inr st'"
proof -
  let ?st = "\<lambda>p. if gr_source_file r = path then st\<lparr>np_map := set_default (np_map st) p p\<rparr> else st"
  from assms obtain p key lines where
    s: "(case choose_representative (gr_source_file r = path) tag key p (?st p) of (target, st1) \<Rightarrow>
      store_record tr tag target (made_record lines r) (st1\<lparr>np_map := (np_map st1)(p \<mapsto> target)\<rparr>)) = Inr st'"
    unfolding map_record_def Let_def prod.case by (auto simp: bindE_Inr_iff case_prod_unfold simp del: if_split)
  obtain target st1 where c: "choose_representative (gr_source_file r = path) tag key p (?st p) = (target, st1)" by force
  with s have "store_record tr tag target (made_record lines r) (st1\<lparr>np_map := (np_map st1)(p \<mapsto> target)\<rparr>) = Inr st'" by simp
  with c show thesis by (rule that)
qed

lemma map_record_counters:
  assumes "map_record tr path st (tag, r) = Inr st'" and "counters_ok (pp_counters (np_pool st))"
  shows "counters_ok (pp_counters (np_pool st'))"
  using assms(1)
proof (rule map_record_parts)
  fix p key target st1 lines
  assume c: "choose_representative (gr_source_file r = path) tag key p
      (if gr_source_file r = path then st\<lparr>np_map := set_default (np_map st) p p\<rparr> else st) = (target, st1)"
    and s: "store_record tr tag target (made_record lines r) (st1\<lparr>np_map := (np_map st1)(p \<mapsto> target)\<rparr>) = Inr st'"
  from choose_representative_counters [OF c] assms(2) have "counters_ok (pp_counters (np_pool st1))" by (simp split: if_splits)
  then show ?thesis using store_record_pool [OF s] by simp
qed

lemma map_other_record_counters:
  "map_other_record path st (tag, r) = Inr st' \<Longrightarrow> counters_ok (pp_counters (np_pool st)) \<Longrightarrow> counters_ok (pp_counters (np_pool st'))"
  by (auto simp: map_other_record_def bindE_Inr_iff Let_def dest: next_pointer_counters split: if_splits prod.splits)

lemma map_nonpeople_counters:
  assumes "map_nonpeople tr sources pointer_map next_ids stats = Inr (st, records)" and "counters_ok next_ids"
  shows "counters_ok (pp_counters (np_pool st))"
proof -
  let ?P = "\<lambda>st. counters_ok (pp_counters (np_pool st))"
  from assms(1) obtain used tagged a where
    1: "foldE (map_record tr (so_path (hd sources))) \<lparr>np_map = pointer_map, np_pool = \<lparr>pp_used = used, pp_counters = next_ids\<rparr>,
         np_representatives = Map.empty, np_records = Map.empty, np_order = [], np_stats = stats\<rparr> (ordered_work tagged) = Inr a"
    and 2: "foldE (map_other_record (so_path (hd sources))) a (filter (\<lambda>(tag, r). tag \<notin> set ordered_tags) tagged) = Inr st"
    by (auto simp: map_nonpeople_def bindE_Inr_iff Let_def)
  have "?P a" by (rule foldE_invariant [where P = ?P, OF 1]) (use assms(2) in \<open>auto intro: map_record_counters\<close>)
  then show ?thesis by (rule foldE_invariant [where P = ?P, OF 2]) (auto intro: map_other_record_counters)
qed

section \<open>A release on top of valid content\<close>

text \<open>What the check asks of a manifest apart from its releases and their parent.\<close>

definition content_ok :: "(ustr \<Rightarrow> moment option) \<Rightarrow> jobject \<Rightarrow> bool" where
  "content_ok clock d \<longleftrightarrow> check_shape d = Inr ()
     \<and> (\<exists>vendors. check_snapshots clock d = Inr vendors \<and> check_active d vendors = Inr () \<and> check_bindings d vendors = Inr ())
     \<and> check_blocks d = Inr () \<and> check_tombstones d = Inr () \<and> check_rest clock d = Inr ()"

definition release_ok :: "(ustr \<Rightarrow> moment option) \<Rightarrow> jobject \<Rightarrow> release_info \<Rightarrow> bool" where
  "release_ok clock d info \<longleftrightarrow> sha_text (ri_master_sha info) \<and> ri_directory info \<noteq> []
     \<and> (\<exists>t. manifest_timestamp clock (JStr (ri_updated_at info)) '''' = Inr t
          \<and> (\<forall>r \<in> set (list_at (u ''releases'') d). \<forall>s. release_time clock r = Inr s \<longrightarrow> s \<le> t))
     \<and> (if number_at (u ''generation'') d = 0 then ri_manifest_path info = None \<and> ri_manifest_sha info = None
        else pred_option (\<lambda>p. p \<noteq> []) (ri_manifest_path info) \<and> ri_manifest_path info \<noteq> None
          \<and> pred_option sha_text (ri_manifest_sha info) \<and> ri_manifest_sha info \<noteq> None)"

lemma release_entry_fields [simp]:
  "lookup (u ''generation'') (fields_of (release_entry info g)) = JNumber g"
  "lookup (u ''path'') (fields_of (release_entry info g)) = JStr (ri_directory info)"
  "lookup (u ''master_sha256'') (fields_of (release_entry info g)) = JStr (ri_master_sha info)"
  "lookup (u ''created_at'') (fields_of (release_entry info g)) = JStr (ri_updated_at info)"
  "is_object (release_entry info g)"
  by (simp_all add: release_entry_def)

lemma manifest_timestamp_Inr: "manifest_timestamp clock (JStr s) field = Inr t \<longleftrightarrow> s \<noteq> [] \<and> clock s = Some (Aware t)"
  by (auto simp: manifest_timestamp_def split: option.splits moment.splits)

lemma release_entry_time:
  "sha_text (ri_master_sha info) \<Longrightarrow> ri_directory info \<noteq> [] \<Longrightarrow> 0 \<le> g \<Longrightarrow> manifest_timestamp clock (JStr (ri_updated_at info)) '''' = Inr t
    \<Longrightarrow> release_time clock (release_entry info (g + 1)) = Inr t"
  by (auto simp: release_time_def release_valid_def Let_def bindE_Inr_iff result_simps manifest_timestamp_Inr)

lemma is_object_fields: "lookup k (fields_of v) \<noteq> JNull \<Longrightarrow> is_object v"
  by (cases v) (simp_all add: fields_of_def)

lemma check_releases_iff: "check_releases clock d = Inr () \<longleftrightarrow> (\<exists>ts. mapE (release_time clock) (list_at (u ''releases'') d) = Inr ts \<and> sorted ts)
     \<and> int (length (list_at (u ''releases'') d)) = number_at (u ''generation'') d
     \<and> map (\<lambda>r. number_at (u ''generation'') (fields_of r)) (list_at (u ''releases'') d) = map int [1..<Suc (length (list_at (u ''releases'') d))]
     \<and> (list_at (u ''releases'') d = [] \<or> text_at (u ''master_sha256'') (fields_of (last (list_at (u ''releases'') d)))
       = text_at (u ''sha256'') (object_at (u ''master'') d))"
  unfolding check_releases_def Let_def by (simp only: bindE_Inr_iff result_simps) blast

lemma times_sorted_snoc:
  assumes "mapE (release_time clock) rs = Inr ts" "sorted ts" "release_time clock r = Inr t"
    and "\<forall>r \<in> set rs. \<forall>s. release_time clock r = Inr s \<longrightarrow> s \<le> t"
  shows "mapE (release_time clock) (rs @ [r]) = Inr (ts @ [t]) \<and> sorted (ts @ [t])"
proof
  show "mapE (release_time clock) (rs @ [r]) = Inr (ts @ [t])" using assms(1,3) by (simp add: mapE_append)
  have "s \<le> t" if "s \<in> set ts" for s using mapE_Inr_source [OF assms(1) that] assms(4) by blast
  then show "sorted (ts @ [t])" using assms(2) by (simp add: sorted_append)
qed

lemma published_fields:
  defines "f r g sha arts d \<equiv> record_checksums sha arts (record_release r g d)"
  shows "lookup (u ''generation'') (f r g sha arts d) = JNumber (g + 1)"
    and "lookup (u ''releases'') (f r g sha arts d) = JList (list_at (u ''releases'') d @ [release_entry r (g + 1)])"
    and "lookup (u ''master'') (f r g sha arts d) = JObj [(u ''path'', JStr (in_directory (ri_directory r) ''master.ged'')), (u ''sha256'', JStr (ri_master_sha r))]"
    and "lookup (u ''parent_release'') (f r g sha arts d) = parent_release r g (lookup (u ''master'') d)"
    and "lookup (u ''updated_at'') (f r g sha arts d) = JStr (ri_updated_at r)"
    and "lookup (u ''artifact_checksums'') (f r g sha arts d) = JObj (map (\<lambda>(name, text). (u name, JStr (sha text))) arts)"
    and "k \<notin> {u ''generation'', u ''releases'', u ''master'', u ''parent_release'', u ''updated_at'', u ''artifact_checksums''} \<Longrightarrow>
      lookup k (f r g sha arts d) = lookup k d"
    and "map_of (f r g sha arts d) k = None \<longleftrightarrow> map_of d k = None
      \<and> k \<notin> {u ''generation'', u ''releases'', u ''master'', u ''parent_release'', u ''updated_at'', u ''artifact_checksums''}"
  by (auto simp: f_def record_checksums_def record_release_def)

lemma lookups_at:
  "object_at k d = fields_of (lookup k d)" "text_at k d = text_value (lookup k d)"
  "list_at k d = (case lookup k d of JList xs \<Rightarrow> xs | _ \<Rightarrow> [])" "number_at k d = (case lookup k d of JNumber n \<Rightarrow> n | _ \<Rightarrow> 0)"
  by (simp_all add: object_at_def fields_of_def text_at_def text_value_def list_at_def number_at_def)

text \<open>The groups of the check only read their fields.\<close>

lemma groups_cong:
  assumes "lookup (u ''snapshots'') d' = lookup (u ''snapshots'') d"
  shows "lookup (u ''active_snapshots'') d' = lookup (u ''active_snapshots'') d \<Longrightarrow> check_snapshots clock d' = check_snapshots clock d"
    and "lookup (u ''active_snapshots'') d' = lookup (u ''active_snapshots'') d \<Longrightarrow> check_active d' vendors = check_active d vendors"
    and "lookup (u ''person_bindings'') d' = lookup (u ''person_bindings'') d \<Longrightarrow> lookup (u ''record_aliases'') d' = lookup (u ''record_aliases'') d
      \<Longrightarrow> check_bindings d' vendors = check_bindings d vendors"
    and "lookup (u ''blocks'') d' = lookup (u ''blocks'') d \<Longrightarrow> check_blocks d' = check_blocks d"
  using assms by (simp_all add: check_snapshots_def check_active_def check_bindings_def check_blocks_def lookups_at)

lemma is_file_identity_json [simp]:
  "is_file_identity (JObj [(u ''path'', JStr p), (u ''sha256'', JStr s)]) \<longleftrightarrow> p \<noteq> [] \<and> sha_text s"
  by (simp add: is_file_identity_def)

lemma in_directory_not_Nil [simp]: "in_directory dir name \<noteq> []"
  by (simp add: in_directory_def u_def)

lemma check_shape_iff: "check_shape d = Inr () \<longleftrightarrow> list_all (\<lambda>k. map_of d k \<noteq> None) required_fields \<and> lookup (u ''schema_version'') d = JNumber 1
    \<and> filled_text (lookup (u ''tree_id'') d) \<and> is_from 0 (lookup (u ''generation'') d) \<and> is_file_identity (lookup (u ''master'') d)
    \<and> list_all (\<lambda>k. is_object (lookup k d)) mapping_fields \<and> list_all (\<lambda>k. is_list (lookup k d)) list_fields"
  by (simp add: check_shape_def bindE_Inr_iff result_simps)

lemma check_tombstones_iff: "check_tombstones d = Inr () \<longleftrightarrow> list_all (\<lambda>k. list_all is_object (list_at k d)) list_fields
    \<and> list_all tombstone_valid (list_at (u ''manual_tombstones'') d)"
  by (simp add: check_tombstones_def bindE_Inr_iff result_simps)

definition time_ok :: "(ustr \<Rightarrow> moment option) \<Rightarrow> jobject \<Rightarrow> string \<Rightarrow> bool" where
  "time_ok clock d field \<longleftrightarrow> check_time_field clock d field = Inr ()"

lemma check_rest_iff: "check_rest clock d = Inr () \<longleftrightarrow> time_ok clock d ''created_at'' \<and> time_ok clock d ''updated_at''
    \<and> none_or artifacts_valid (lookup (u ''artifact_checksums'') d) \<and> list_all (\<lambda>(k, n). is_from 1 n) (object_at (u ''next_ids'') d)"
  by (simp add: check_rest_def bindE_Inr_iff result_simps time_ok_def)

lemma time_ok_cong: "map_of d' (u field) = map_of d (u field) \<Longrightarrow> time_ok clock d' field = time_ok clock d field"
  by (simp add: time_ok_def check_time_field_def)

lemma time_ok_put [simp]: "time_ok clock (put key v d) field = (if u field = u key then (\<exists>t. manifest_timestamp clock v field = Inr t) else time_ok clock d field)"
  by (auto simp: time_ok_def check_time_field_def bindE_Inr_iff)

definition published :: "(ustr \<Rightarrow> ustr) \<Rightarrow> (string \<times> ustr) list \<Rightarrow> release_info \<Rightarrow> int \<Rightarrow> jobject \<Rightarrow> jobject" where
  "published sha artifacts info g d = record_checksums sha artifacts (record_release info g d)"

lemmas published_lookup = published_fields [folded published_def]

lemma published_content:
  assumes "content_ok clock d" and info: "sha_text (ri_master_sha info)" "manifest_timestamp clock (JStr (ri_updated_at info)) '''' = Inr t"
    and g: "0 \<le> g" and sha: "\<forall>s. sha_text (sha s)" and names: "set (map (\<lambda>(n, t). u n) artifacts) = set artifact_names"
  shows "content_ok clock (published sha artifacts info g d)"
proof -
  let ?f = "published sha artifacts info g d"
  have same: "lookup k ?f = lookup k d" if "k \<in> {u ''snapshots'', u ''active_snapshots'', u ''person_bindings'', u ''record_aliases'', u ''blocks'',
      u ''schema_version'', u ''tree_id'', u ''next_ids'', u ''removed'', u ''manual_tombstones''}" for k
    using that by (auto simp: published_lookup)
  from assms(1) have ok: "check_shape d = Inr ()" "check_blocks d = Inr ()" "check_tombstones d = Inr ()" "check_rest clock d = Inr ()"
    by (simp_all add: content_ok_def)
  have shape: "check_shape ?f = Inr ()"
    using ok(1) info(1) g unfolding check_shape_iff
    by (auto simp: published_lookup required_fields_def mapping_fields_def list_fields_def same)
  have tombs: "check_tombstones ?f = Inr ()"
    using ok(3) unfolding check_tombstones_iff by (simp add: list_fields_def lookups_at same published_lookup)
  have times: "time_ok clock ?f ''created_at'' = time_ok clock d ''created_at''" "time_ok clock ?f ''updated_at''"
    using info(2) by (auto simp: published_def record_checksums_def record_release_def manifest_timestamp_Inr)
  have arts: "artifacts_valid (lookup (u ''artifact_checksums'') ?f)"
    using sha names by (auto simp: published_lookup artifacts_valid_def list_all_iff image_image case_prod_unfold)
  then have rest: "check_rest clock ?f = Inr ()"
    using ok(4) times unfolding check_rest_iff by (simp add: none_or_def lookups_at same)
  from assms(1) shape tombs rest show ?thesis
    unfolding content_ok_def by (simp add: groups_cong [of ?f d] same)
qed

lemma published_releases:
  assumes "check_releases clock d0 = Inr ()" and same: "lookup (u ''releases'') d = lookup (u ''releases'') d0"
    and info: "release_ok clock d0 info" and g: "g = number_at (u ''generation'') d0" "0 \<le> g"
  shows "check_releases clock (published sha artifacts info g d) = Inr ()"
proof -
  let ?f = "published sha artifacts info g d" and ?rs = "list_at (u ''releases'') d0"
  from assms(1) obtain ts where ts: "mapE (release_time clock) ?rs = Inr ts" "sorted ts" "int (length ?rs) = g"
    "map (\<lambda>r. number_at (u ''generation'') (fields_of r)) ?rs = map int [1..<Suc (length ?rs)]"
    by (auto simp: check_releases_iff g)
  from info obtain t where t: "manifest_timestamp clock (JStr (ri_updated_at info)) '''' = Inr t" "sha_text (ri_master_sha info)" "ri_directory info \<noteq> []"
    "\<forall>r \<in> set ?rs. \<forall>s. release_time clock r = Inr s \<longrightarrow> s \<le> t" by (auto simp: release_ok_def)
  have "release_time clock (release_entry info (g + 1)) = Inr t" by (rule release_entry_time [OF t(2,3) g(2) t(1)])
  note snoc = times_sorted_snoc [OF ts(1,2) this t(4)]
  have rs: "list_at (u ''releases'') ?f = ?rs @ [release_entry info (g + 1)]"
    by (simp add: lookups_at published_lookup same)
  have "map int [1..<Suc (Suc (length ?rs))] = map int [1..<Suc (length ?rs)] @ [g + 1]" using ts(3) by simp
  then have "map (\<lambda>r. number_at (u ''generation'') (fields_of r)) (?rs @ [release_entry info (g + 1)]) = map int [1..<Suc (Suc (length ?rs))]"
    using ts(4) by (simp add: lookups_at)
  then show ?thesis unfolding check_releases_iff rs using snoc ts(3) by (auto simp: lookups_at published_lookup)
qed

lemma published_parent:
  assumes "check_releases clock d0 = Inr ()" and same: "lookup (u ''releases'') d = lookup (u ''releases'') d0"
    "lookup (u ''master'') d = lookup (u ''master'') d0"
    and info: "release_ok clock d0 info" and g: "g = number_at (u ''generation'') d0" "0 \<le> g" and master: "is_file_identity (lookup (u ''master'') d0)"
  shows "check_parent (published sha artifacts info g d) = Inr ()"
proof -
  let ?f = "published sha artifacts info g d" and ?rs = "list_at (u ''releases'') d0"
  have rs: "list_at (u ''releases'') ?f = ?rs @ [release_entry info (g + 1)]"
    by (simp add: lookups_at published_lookup same)
  have len: "int (length ?rs) = g" using assms(1) by (simp add: check_releases_iff g)
  have prev: "text_at (u ''master_sha256'') (fields_of ((?rs @ [release_entry info (g + 1)]) ! (length (?rs @ [release_entry info (g + 1)]) - 2)))
      = text_at (u ''sha256'') (object_at (u ''master'') d0)" if "0 < g"
  proof -
    have "?rs \<noteq> []" using len that by auto
    then have "(?rs @ [release_entry info (g + 1)]) ! (length (?rs @ [release_entry info (g + 1)]) - 2) = last ?rs"
      by (simp add: nth_append last_conv_nth)
    then show ?thesis using assms(1) \<open>?rs \<noteq> []\<close> by (simp add: check_releases_iff)
  qed
  have "parent_files_valid (g + 1) (fields_of (parent_release info g (lookup (u ''master'') d0)))"
    using info g by (auto simp: release_ok_def parent_files_valid_def parent_release_def optional_text_def split: if_splits)
  then have "parent_valid (g + 1) (list_at (u ''releases'') ?f) (lookup (u ''parent_release'') ?f)"
    using prev g(2) master by (auto simp: parent_valid_def published_lookup rs parent_release_def same lookups_at)
  then show ?thesis by (simp add: check_parent_def result_simps lookups_at published_lookup)
qed

lemma published_valid:
  assumes "validate_manifest clock d0 = Inr ()" and "content_ok clock d"
    and "lookup (u ''releases'') d = lookup (u ''releases'') d0" "lookup (u ''master'') d = lookup (u ''master'') d0"
    and info: "release_ok clock d0 info" and g: "g = number_at (u ''generation'') d0" and sha: "\<forall>s. sha_text (sha s)"
    and names: "set (map (\<lambda>(n, t). u n) artifacts) = set artifact_names"
  shows "validate_manifest clock (published sha artifacts info g d) = Inr ()"
proof -
  from assms(1) have ok: "check_shape d0 = Inr ()" "check_releases clock d0 = Inr ()" by (auto simp: validate_manifest_iff)
  then have g0: "0 \<le> g" by (auto simp: check_shape_iff g lookups_at is_from_def split: json.splits)
  from info obtain t where t: "sha_text (ri_master_sha info)" "manifest_timestamp clock (JStr (ri_updated_at info)) '''' = Inr t"
    by (auto simp: release_ok_def)
  have master: "is_file_identity (lookup (u ''master'') d0)" using ok(1) by (simp add: check_shape_iff)
  show ?thesis
    unfolding validate_manifest_iff
    using published_content [OF assms(2) t g0 sha names, unfolded content_ok_def] published_releases [OF ok(2) assms(3) info g g0]
      published_parent [OF ok(2) assms(3,4) info g g0 master] by blast
qed

section \<open>A rebase keeps the content valid\<close>

definition block_ok :: "ustr \<times> ustr \<times> ustr \<Rightarrow> bool" where
  "block_ok x \<longleftrightarrow> (case x of (key, tag, logical) \<Rightarrow> sha_text key \<and> tag \<noteq> [] \<and> sha_text logical)"

definition index_ok :: "block_index \<Rightarrow> bool" where
  "index_ok index \<longleftrightarrow> list_all (\<lambda>(p, bs). p \<noteq> [] \<and> list_all block_ok bs) index"

definition people_named :: "gedcom_record list \<Rightarrow> bool" where
  "people_named records \<longleftrightarrow> (\<forall>r \<in> set records. record_tag r = Inr (u ''INDI'') \<longrightarrow> record_pointer r \<noteq> Inr [])"

lemma index_ok_at: "index_ok index \<Longrightarrow> list_all block_ok (case map_of index p of None \<Rightarrow> [] | Some bs \<Rightarrow> bs)"
  by (cases "map_of index p") (force simp: index_ok_def list_all_iff dest: map_of_SomeD)+

lemma add_master_block_ok:
  assumes "add_master_block tr p index block = Inr index'" and "index_ok index" and sha: "\<forall>s. sha_text (tr_sha256 tr s)" and "p \<noteq> []"
  shows "index_ok index'"
proof -
  from assms(1) obtain key first logical where k: "block_key tr block = Inr key" "first_line block = Inr first" "block_logical_identity tr block = Inr logical"
    and index': "index' = AList.update p (AList.update key (gl_tag first, logical) (case map_of index p of None \<Rightarrow> [] | Some bs \<Rightarrow> bs)) index"
    by (auto simp: add_master_block_def bindE_Inr_iff Let_def)
  have "block_ok (key, gl_tag first, logical)"
    using key_is_sha(1) [OF sha k(1)] key_is_sha(2) [OF sha k(3)] first_line_tag [OF k(2)] by (simp add: block_ok_def)
  moreover have "list_all block_ok (case map_of index p of None \<Rightarrow> [] | Some bs \<Rightarrow> bs)"
    by (rule index_ok_at [OF assms(2)])
  ultimately show ?thesis using assms(2,4) unfolding index' index_ok_def by (intro list_all_update) (simp_all add: list_all_update)
qed

lemma master_block_index_ok:
  assumes "master_block_index tr records = Inr index" and sha: "\<forall>s. sha_text (tr_sha256 tr s)" and "people_named records"
  shows "index_ok index"
proof (rule foldE_invariant [where P = index_ok, OF assms(1) [unfolded master_block_index_def]])
  fix a r b assume a: "index_ok a" and r: "r \<in> set records" and step: "add_master_record tr a r = Inr b"
  show "index_ok b"
  proof (cases "record_tag r = Inr (u ''INDI'')")
    case True
    with step obtain blocks pointer where p: "record_pointer r = Inr pointer" and fold: "foldE (add_master_block tr pointer) a blocks = Inr b"
      by (auto simp: add_master_record_def bindE_Inr_iff)
    have "pointer \<noteq> []" using assms(3) r True p by (auto simp: people_named_def)
    then show ?thesis by (intro foldE_invariant [where P = index_ok, OF fold a]) (rule add_master_block_ok [OF _ _ sha])
  qed (use step a in \<open>auto simp: add_master_record_def bindE_Inr_iff\<close>)
qed (simp add: index_ok_def)

lemma blocks_beyond_ok: "index_ok a \<Longrightarrow> index_ok (blocks_beyond a b)"
  by (auto simp: index_ok_def blocks_beyond_def list_all_iff)

lemma lookup_new: "map_of e k' = None \<Longrightarrow> lookup k (e @ [(k', v)]) = (if k = k' then v else lookup k e)"
  by (auto simp: lookup_def map_add_def split: option.splits)

lemma protect_entry_fields:
  "k \<notin> {u ''protected'', u ''logical_identity''} \<Longrightarrow> lookup k (protect_entry logical e) = lookup k e"
  "lookup (u ''logical_identity'') (protect_entry logical e) \<in> {lookup (u ''logical_identity'') e, JStr logical}"
  "list_at (u ''protected'') (protect_entry logical e) = (if JStr (u ''manual'') \<in> set (list_at (u ''protected'') e)
     then list_at (u ''protected'') e else list_at (u ''protected'') e @ [JStr (u ''manual'')])"
  "is_list (lookup (u ''protected'') e) \<Longrightarrow> is_list (lookup (u ''protected'') (protect_entry logical e))"
  by (auto simp: protect_entry_def Let_def lookup_new lookups_at)

lemma protect_entry_valid:
  assumes "entry_valid snapshots (k, JObj e)" and "sha_text logical"
  shows "entry_valid snapshots (k, JObj (protect_entry logical e))"
  using assms protect_entry_fields(2) [of logical e] protect_entry_fields(4) [of e logical]
  by (auto simp: entry_valid_def Let_def protect_entry_fields(1,3) lookups_at(3) [of "u ''observations''"])

lemma manual_entry_valid: "block_ok (k, tag, logical) \<Longrightarrow> entry_valid snapshots (k, JObj (manual_entry tag logical))"
  by (simp add: entry_valid_def manual_entry_def block_ok_def list_at_def)

lemma protect_block_valid:
  assumes "list_all (entry_valid snapshots) registry" and "block_ok x"
  shows "list_all (entry_valid snapshots) (protect_block registry x)"
proof -
  obtain k tag logical where x: "x = (k, tag, logical)" by (cases x)
  have "entry_valid snapshots (k, JObj (case map_of registry k of None \<Rightarrow> manual_entry tag logical | Some v \<Rightarrow> fields_of v))"
  proof (cases "map_of registry k")
    case (Some v)
    from map_of_SomeD [OF Some] assms(1) have "entry_valid snapshots (k, v)" by (simp add: list_all_iff)
    then show ?thesis using Some by (cases v) (auto simp: entry_valid_def)
  qed (use assms(2) x manual_entry_valid in simp)
  moreover have "sha_text logical" using assms(2) by (simp add: x block_ok_def)
  ultimately show ?thesis using assms(1) by (auto simp: protect_block_def x Let_def intro!: list_all_update protect_entry_valid)
qed

lemma foldl_list_all: "list_all P acc \<Longrightarrow> (\<And>acc x. x \<in> set xs \<Longrightarrow> list_all P acc \<Longrightarrow> list_all P (f acc x)) \<Longrightarrow> list_all P (foldl f acc xs)"
  by (induction xs arbitrary: acc) simp_all

lemma protect_person_valid:
  assumes "list_all (person_blocks_valid snapshots) blocks" and "p \<noteq> []" "list_all block_ok bs"
  shows "list_all (person_blocks_valid snapshots) (protect_person blocks (p, bs))"
proof -
  have "list_all (entry_valid snapshots) (object_at p blocks)"
    using assms(1) by (auto simp: lookups_at lookup_def list_all_iff person_blocks_valid_def fields_of_def dest!: map_of_SomeD split: option.splits json.splits)
  then have "list_all (entry_valid snapshots) (foldl protect_block (object_at p blocks) bs)"
    by (rule foldl_list_all) (use assms(3) in \<open>simp add: list_all_iff [of block_ok] protect_block_valid\<close>)
  then show ?thesis using assms(1,2) by (auto simp: protect_person_def person_blocks_valid_def intro!: list_all_update)
qed

lemma tombstone_json_valid: "0 \<le> g \<Longrightarrow> sha_text logical \<Longrightarrow> tombstone_valid (tombstone_json g p key logical reason) \<and> is_object (tombstone_json g p key logical reason)"
  by (simp add: tombstone_valid_def tombstone_json_def)

lemma index_okD: "index_ok index \<Longrightarrow> (p, bs) \<in> set index \<Longrightarrow> p \<noteq> [] \<and> (\<forall>(k, tag, l) \<in> set bs. sha_text k \<and> sha_text l)"
  by (auto simp: index_ok_def list_all_iff block_ok_def)

lemma new_tombstones_valid:
  "0 \<le> g \<Longrightarrow> index_ok deletions \<Longrightarrow> list_all (\<lambda>t. tombstone_valid t \<and> is_object t) (new_tombstones g reason deletions)"
  by (auto simp: new_tombstones_def list_all_iff tombstone_json_valid dest!: index_okD)

lemma shape_facts:
  assumes "check_shape d = Inr ()"
  shows "0 \<le> number_at (u ''generation'') d" and "k \<in> set mapping_fields \<Longrightarrow> lookup k d = JObj (object_at k d)"
    and "k \<in> set list_fields \<Longrightarrow> lookup k d = JList (list_at k d)"
proof -
  from assms have s: "is_from 0 (lookup (u ''generation'') d)" "\<And>k. k \<in> set mapping_fields \<Longrightarrow> is_object (lookup k d)"
    "\<And>k. k \<in> set list_fields \<Longrightarrow> is_list (lookup k d)" by (simp_all add: check_shape_iff list_all_iff)
  show "0 \<le> number_at (u ''generation'') d" using s(1) by (simp add: lookups_at is_from_def split: json.splits)
  show "lookup k d = JObj (object_at k d)" if "k \<in> set mapping_fields"
    using s(2) [OF that] by (simp add: lookups_at is_object_def fields_of_def split: json.splits)
  show "lookup k d = JList (list_at k d)" if "k \<in> set list_fields"
    using s(3) [OF that] by (simp add: lookups_at is_list_def split: json.splits)
qed

lemma valid_content: "validate_manifest clock d = Inr () \<Longrightarrow> content_ok clock d"
  by (auto simp: validate_manifest_iff content_ok_def)

lemma rebased_lookup:
  "k \<notin> {u ''blocks'', u ''manual_tombstones''} \<Longrightarrow> lookup k (rebased_manifest reason additions deletions d) = lookup k d"
  by (simp add: rebased_manifest_def Let_def)

lemma rebased_content:
  assumes "content_ok clock d" and "index_ok additions" "index_ok deletions"
  shows "content_ok clock (rebased_manifest reason additions deletions d)"
proof -
  let ?r = "rebased_manifest reason additions deletions d"
  from assms(1) have ok: "check_shape d = Inr ()" "check_blocks d = Inr ()" "check_tombstones d = Inr ()" "check_rest clock d = Inr ()"
    by (simp_all add: content_ok_def)
  have "list_all (person_blocks_valid (object_at (u ''snapshots'') d)) (object_at (u ''blocks'') d)"
    using ok(2) by (simp add: check_blocks_def result_simps)
  then have "list_all (person_blocks_valid (object_at (u ''snapshots'') d)) (foldl protect_person (object_at (u ''blocks'') d) additions)"
  proof (rule foldl_list_all)
    fix acc x assume x: "x \<in> set additions" and acc: "list_all (person_blocks_valid (object_at (u ''snapshots'') d)) acc"
    obtain p bs where xp: "x = (p, bs)" by (cases x)
    with assms(2) x have "p \<noteq> []" "list_all block_ok bs" by (auto simp: index_ok_def list_all_iff [of _ additions])
    then show "list_all (person_blocks_valid (object_at (u ''snapshots'') d)) (protect_person acc x)"
      unfolding xp by (rule protect_person_valid [OF acc])
  qed
  then have blocks: "check_blocks ?r = Inr ()" by (simp add: check_blocks_def result_simps rebased_manifest_def Let_def)
  have shape: "check_shape ?r = Inr ()"
    using ok(1) unfolding check_shape_iff by (auto simp: rebased_manifest_def Let_def required_fields_def mapping_fields_def list_fields_def)
  have "list_all (\<lambda>t. tombstone_valid t \<and> is_object t) (list_at (u ''manual_tombstones'') d)"
    using ok(3) by (simp add: check_tombstones_iff list_fields_def list_all_iff)
  then have "list_all (\<lambda>t. tombstone_valid t \<and> is_object t) (list_at (u ''manual_tombstones'') ?r)"
    using new_tombstones_valid [OF _ assms(3), of "number_at (u ''generation'') d + 1" reason] shape_facts(1) [OF ok(1)]
    by (auto simp: rebased_manifest_def Let_def list_all_iff)
  then have tombs: "check_tombstones ?r = Inr ()"
    using ok(3) unfolding check_tombstones_iff by (simp add: list_fields_def list_all_iff rebased_manifest_def Let_def)
  have rest: "check_rest clock ?r = Inr ()"
    using ok(4) unfolding check_rest_iff by (simp add: rebased_manifest_def Let_def)
  have "object_at (u ''snapshots'') ?r = object_at (u ''snapshots'') d" by (simp add: lookups_at rebased_lookup)
  from assms(1) shape blocks tombs rest show ?thesis
    unfolding content_ok_def by (simp add: groups_cong [of ?r d] rebased_lookup)
qed

section \<open>An update keeps the content valid\<close>

lemma update_all_list: "list_all P d \<Longrightarrow> list_all P news \<Longrightarrow> list_all P (update_all news d)"
  unfolding update_all_def by (induction news arbitrary: d) (auto intro: list_all_update)

definition drafted :: "ustr \<Rightarrow> (ustr \<times> int) list \<Rightarrow> (ustr \<times> (ustr \<times> ustr) list) list \<Rightarrow> reconciliation \<Rightarrow> jobject \<Rightarrow> jobject" where
  "drafted updated_at counters bindings rc d =
     (let old_removed = list_at (u ''removed'') d in
      put ''record_aliases'' (JObj (update_all (map (\<lambda>(k, t). (k, JStr t)) (ss_record_aliases (rc_stats rc))) (object_at (u ''record_aliases'') d)))
      (put ''person_bindings'' (JObj (update_all (map (\<lambda>(s, b). (s, JObj (map (\<lambda>(k, t). (k, JStr t)) b))) bindings) (object_at (u ''person_bindings'') d)))
      (put ''blocks'' (JObj (map (\<lambda>(p, r). (p, registry_json r)) (rc_blocks rc)))
      (put ''updated_at'' (JStr updated_at) (put ''generation'' (JNumber (number_at (u ''generation'') d + 1))
      (put ''removed'' (JList (old_removed @ map removal_json (drop (length old_removed) (rc_removed rc))))
      (put ''next_ids'' (JObj (map (\<lambda>(k, n). (k, JNumber n)) counters)) d)))))))"

lemma next_manifest_drafted:
  "next_manifest updated_at observed specs counters bindings rc d = seed_snapshot_history observed specs (drafted updated_at counters bindings rc d)"
  by (simp add: next_manifest_def drafted_def Let_def)

lemma history_iff:
  "check_snapshots clock d = Inr vendors \<and> check_active d vendors = Inr () \<longleftrightarrow>
     history_ok clock vendors (object_at (u ''snapshots'') d, object_at (u ''active_snapshots'') d)"
proof -
  have texts: "list_all (\<lambda>(k, v). is_text v) active" if "list_all (active_valid snapshots) active" for snapshots active
    using that by (fastforce simp: list_all_iff active_valid_def is_text_def split: json.splits)
  have filled: "snapshot_valid clock sid (fields_of v) \<Longrightarrow> is_object v" for sid v
    by (rule is_object_fields [of "u ''path''"]) (auto simp: snapshot_valid_def snapshot_texts_def filled_text_def)
  have objects: "list_all (\<lambda>(k, v). is_object v) (object_at (u ''snapshots'') d)" if "foldE (check_snapshot clock) [] (object_at (u ''snapshots'') d) = Inr vendors"
    using check_snapshots_vendors [OF that] filled by (auto simp: list_all_iff)
  show ?thesis using texts objects
    by (auto simp: check_snapshots_def check_active_def history_ok_def bindE_Inr_iff result_simps)
qed

lemma seeded_lookup:
  assumes "fold (seed_snapshot observed) specs (object_at (u ''snapshots'') d, object_at (u ''active_snapshots'') d) = (snapshots, active)"
  shows "seed_snapshot_history observed specs d = put ''active_snapshots'' (JObj active) (put ''snapshots'' (JObj snapshots) d)"
  using assms by (simp add: seed_snapshot_history_def)

lemma continuous_vendor:
  assumes "foldE (check_snapshot clock) [] snapshots = Inr vendors" and "continuous_spec snapshots spec = Inr ()"
  shows "map_of vendors (sn_source_id spec) \<in> {None, Some (sn_vendor spec)}"
proof (cases "map_of vendors (sn_source_id spec)")
  case (Some x)
  let ?pairs = "rev (map (\<lambda>(k, v). (source_of v, vendor_of v)) snapshots)"
  have all: "fst ` set vendors = (\<lambda>(k, v). source_of v) ` set snapshots"
    "\<forall>(sid, v) \<in> set snapshots. map_of vendors (source_of v) = Some (vendor_of v)"
    using check_snapshots_vendors [OF assms(1)] by auto
  have "sn_source_id spec \<in> fst ` set vendors" using Some by (force dest: map_of_SomeD)
  then have "sn_source_id spec \<in> fst ` set ?pairs" unfolding all(1) by (auto simp: image_image case_prod_unfold)
  then obtain y where y: "map_of ?pairs (sn_source_id spec) = Some y" by (cases "map_of ?pairs (sn_source_id spec)") (auto simp: map_of_eq_None_iff)
  from map_of_SomeD [OF this] have "map_of vendors (sn_source_id spec) = Some y" using all(2) by auto
  moreover have "y = sn_vendor spec"
    using assms(2) y by (auto simp: continuous_spec_def source_vendors_def source_of_def vendor_of_def bindE_Inr_iff result_simps)
  ultimately show ?thesis by simp
qed simp

lemma continuity_specs:
  "validate_snapshot_continuity d specs = Inr () \<Longrightarrow> spec \<in> set specs \<Longrightarrow> continuous_spec (object_at (u ''snapshots'') d) spec = Inr ()"
  unfolding validate_snapshot_continuity_def by (induction specs) (auto simp: bindE_Inr_iff)

lemma binding_valid_more: "binding_valid vendors x \<Longrightarrow> fst ` set vendors \<subseteq> fst ` set vendors' \<Longrightarrow> binding_valid vendors' x"
  by (cases x) (auto simp: binding_valid_def)

lemma domain_more: "(\<And>s x. map_of vendors s = Some x \<Longrightarrow> map_of vendors' s = Some x) \<Longrightarrow> fst ` set vendors \<subseteq> fst ` set vendors'"
  by (metis (no_types, lifting) map_of_eq_None_iff option.exhaust subsetI)

definition seeded :: "(snapshot_spec \<Rightarrow> ustr) \<Rightarrow> snapshot_spec list \<Rightarrow> jobject \<Rightarrow> jobject \<times> jobject" where
  "seeded observed specs d = fold (seed_snapshot observed) specs (object_at (u ''snapshots'') d, object_at (u ''active_snapshots'') d)"

lemma seeded_ok:
  assumes "history_ok clock vendors (object_at (u ''snapshots'') d, object_at (u ''active_snapshots'') d)"
    and specs: "list_all (spec_ok clock observed) specs" "distinct (map sn_source_id specs)" "validate_snapshot_continuity d specs = Inr ()"
  obtains vendors' where "history_ok clock vendors' (seeded observed specs d)" "sn_source_id ` set specs \<subseteq> fst ` set vendors'"
    "\<forall>spec \<in> set specs. map_of (fst (seeded observed specs d)) (snapshot_id spec) \<noteq> None"
    "fst ` set vendors \<subseteq> fst ` set vendors'"
    "\<And>k v. map_of (object_at (u ''snapshots'') d) k = Some v \<Longrightarrow> map_of (fst (seeded observed specs d)) k = Some v"
proof -
  have "foldE (check_snapshot clock) [] (object_at (u ''snapshots'') d) = Inr vendors" using assms(1) by (simp add: history_ok_def)
  then have "\<forall>spec \<in> set specs. map_of vendors (sn_source_id spec) \<in> {None, Some (sn_vendor spec)}"
    using continuous_vendor continuity_specs [OF specs(3)] by blast
  from seed_history_ok [OF assms(1) specs(1,2) this] obtain vendors' where
    v: "history_ok clock vendors' (seeded observed specs d)"
      "\<forall>spec \<in> set specs. map_of vendors' (sn_source_id spec) \<noteq> None \<and> map_of (fst (seeded observed specs d)) (snapshot_id spec) \<noteq> None"
      "\<forall>s x. map_of vendors s = Some x \<longrightarrow> map_of vendors' s = Some x"
      "\<forall>k v. map_of (object_at (u ''snapshots'') d) k = Some v \<longrightarrow> map_of (fst (seeded observed specs d)) k = Some v"
    unfolding seeded_def fst_conv by blast
  show thesis
    by (rule that [OF v(1) _ _ domain_more]) (use v(2-4) in \<open>auto simp: map_of_eq_None_iff\<close>)
qed

lemma next_lookup:
  defines "f updated_at observed specs counters bindings rc d \<equiv> next_manifest updated_at observed specs counters bindings rc d"
  shows "lookup (u ''snapshots'') (f updated_at observed specs counters bindings rc d) = JObj (fst (seeded observed specs d))"
    and "lookup (u ''active_snapshots'') (f updated_at observed specs counters bindings rc d) = JObj (snd (seeded observed specs d))"
    and "k \<notin> {u ''snapshots'', u ''active_snapshots''} \<Longrightarrow>
      lookup k (f updated_at observed specs counters bindings rc d) = lookup k (drafted updated_at counters bindings rc d)"
    and "map_of (f updated_at observed specs counters bindings rc d) k = None \<longleftrightarrow>
      map_of (drafted updated_at counters bindings rc d) k = None \<and> k \<notin> {u ''snapshots'', u ''active_snapshots''}"
    and "time_ok clock (f updated_at observed specs counters bindings rc d) field \<longleftrightarrow>
      (if field \<in> {''created_at'', ''updated_at''} then time_ok clock (drafted updated_at counters bindings rc d) field
       else time_ok clock (f updated_at observed specs counters bindings rc d) field)"
  unfolding f_def next_manifest_drafted
  by (auto simp: seed_snapshot_history_def seeded_def drafted_def Let_def case_prod_unfold)

lemma is_from_counters: "counters_ok counters \<Longrightarrow> list_all (\<lambda>(k, n). is_from 1 n) (map (\<lambda>(k, n). (k, JNumber n)) counters)"
  by (auto simp: counters_ok_def list_all_iff)

lemma removal_json_object [simp]: "is_object (removal_json r)"
  by (simp add: removal_json_def)

lemma drafted_lookup:
  defines "f updated_at counters bindings rc d \<equiv> drafted updated_at counters bindings rc d"
  shows "lookup (u ''removed'') (f updated_at counters bindings rc d)
      = JList (list_at (u ''removed'') d @ map removal_json (drop (length (list_at (u ''removed'') d)) (rc_removed rc)))"
    and "lookup (u ''next_ids'') (f updated_at counters bindings rc d) = JObj (map (\<lambda>(k, n). (k, JNumber n)) counters)"
    and "lookup (u ''blocks'') (f updated_at counters bindings rc d) = JObj (map (\<lambda>(p, r). (p, registry_json r)) (rc_blocks rc))"
    and "lookup (u ''generation'') (f updated_at counters bindings rc d) = JNumber (number_at (u ''generation'') d + 1)"
    and "lookup (u ''person_bindings'') (f updated_at counters bindings rc d) = JObj (update_all
      (map (\<lambda>(s, b). (s, JObj (map (\<lambda>(k, t). (k, JStr t)) b))) bindings) (object_at (u ''person_bindings'') d))"
    and "lookup (u ''record_aliases'') (f updated_at counters bindings rc d) = JObj (update_all
      (map (\<lambda>(k, t). (k, JStr t)) (ss_record_aliases (rc_stats rc))) (object_at (u ''record_aliases'') d))"
    and "k \<notin> {u ''removed'', u ''next_ids'', u ''blocks'', u ''generation'', u ''person_bindings'', u ''record_aliases'', u ''updated_at''} \<Longrightarrow>
      lookup k (f updated_at counters bindings rc d) = lookup k d"
    and "map_of d k \<noteq> None \<Longrightarrow> map_of (f updated_at counters bindings rc d) k \<noteq> None"
    and "time_ok clock (f updated_at counters bindings rc d) ''created_at'' = time_ok clock d ''created_at''"
    and "time_ok clock (f updated_at counters bindings rc d) ''updated_at'' \<longleftrightarrow> (\<exists>t. manifest_timestamp clock (JStr updated_at) ''updated_at'' = Inr t)"
  by (auto simp: f_def drafted_def Let_def)

lemma next_bindings:
  assumes "check_bindings d vendors = Inr ()" and "fst ` set vendors \<subseteq> fst ` set vendors'"
    and "fst ` set bindings \<subseteq> fst ` set vendors'" "\<forall>s \<in> fst ` set bindings. source_id_ok s"
  shows "check_bindings (next_manifest updated_at observed specs counters bindings rc d) vendors' = Inr ()"
proof -
  from assms(1) have b: "list_all (binding_valid vendors) (object_at (u ''person_bindings'') d)"
    "list_all (\<lambda>(k, v). is_text v) (object_at (u ''record_aliases'') d)" by (simp_all add: check_bindings_def bindE_Inr_iff result_simps)
  from b(1) have old: "list_all (binding_valid vendors') (object_at (u ''person_bindings'') d)"
    using binding_valid_more [OF _ assms(2)] by (simp add: list_all_iff)
  have new: "list_all (binding_valid vendors') (map (\<lambda>(s, b). (s, JObj (map (\<lambda>(k, t). (k, JStr t)) b))) bindings)"
    using assms(3,4) by (force simp: list_all_iff binding_valid_def)
  have "list_all (\<lambda>(k, v). is_text v) (map (\<lambda>(k, t). (k, JStr t)) (ss_record_aliases (rc_stats rc)))"
    by (auto simp: list_all_iff)
  from update_all_list [OF old new] update_all_list [OF b(2) this] show ?thesis
    by (simp add: check_bindings_def bindE_Inr_iff result_simps lookups_at next_lookup drafted_lookup)
qed

lemma next_content:
  assumes valid: "content_ok clock d"
    and specs: "list_all (spec_ok clock observed) specs" "distinct (map sn_source_id specs)" "validate_snapshot_continuity d specs = Inr ()"
    and counters: "counters_ok counters" and bindings: "fst ` set bindings \<subseteq> sn_source_id ` set specs"
    and blocks: "blocks_ok (fst (seeded observed specs d)) (rc_blocks rc)"
    and time: "manifest_timestamp clock (JStr updated_at) '''' = Inr t"
  shows "content_ok clock (next_manifest updated_at observed specs counters bindings rc d)"
proof -
  let ?n = "next_manifest updated_at observed specs counters bindings rc d"
  from valid obtain vendors where ok: "check_shape d = Inr ()" "check_tombstones d = Inr ()" "check_rest clock d = Inr ()"
    and v: "check_snapshots clock d = Inr vendors" "check_active d vendors = Inr ()" "check_bindings d vendors = Inr ()"
    by (auto simp: content_ok_def)
  from v(1,2) have "history_ok clock vendors (object_at (u ''snapshots'') d, object_at (u ''active_snapshots'') d)"
    by (simp add: history_iff [symmetric])
  from this specs obtain vendors' where v': "history_ok clock vendors' (seeded observed specs d)"
    "sn_source_id ` set specs \<subseteq> fst ` set vendors'" "fst ` set vendors \<subseteq> fst ` set vendors'" by (rule seeded_ok)
  have history: "check_snapshots clock ?n = Inr vendors' \<and> check_active ?n vendors' = Inr ()"
    using v'(1) by (simp add: history_iff lookups_at next_lookup)
  have "fst ` set bindings \<subseteq> fst ` set vendors'" "\<forall>s \<in> fst ` set bindings. source_id_ok s"
    using bindings v'(2) specs(1) by (auto simp: list_all_iff spec_ok_def)
  note bound = next_bindings [OF v(3) v'(3) this, of updated_at observed specs counters rc]
  have "check_blocks ?n = Inr ()"
    using blocks_json_valid [OF blocks] by (simp add: check_blocks_def result_simps lookups_at next_lookup drafted_lookup)
  moreover have "list_all (\<lambda>k. map_of ?n k \<noteq> None) required_fields"
    using ok(1) next_lookup(4) [of updated_at observed specs counters bindings rc d] drafted_lookup(8) [of d _ updated_at counters bindings rc]
    unfolding check_shape_iff list_all_iff by blast
  then have "check_shape ?n = Inr ()"
    using ok(1) shape_facts(1) [OF ok(1)] unfolding check_shape_iff
    by (simp add: mapping_fields_def list_fields_def next_lookup drafted_lookup)
  moreover have "check_tombstones ?n = Inr ()"
    using ok(2) unfolding check_tombstones_iff list_fields_def
    by (auto simp: lookups_at next_lookup drafted_lookup list_all_iff)
  moreover have "check_rest clock ?n = Inr ()"
    using ok(3) time is_from_counters [OF counters] unfolding check_rest_iff
    by (simp add: next_lookup drafted_lookup lookups_at manifest_timestamp_Inr)
  ultimately show ?thesis using history bound by (auto simp: content_ok_def)
qed

section \<open>Every person has a pointer\<close>

definition named_map :: "(ustr \<rightharpoonup> ustr) \<Rightarrow> bool" where
  "named_map m \<longleftrightarrow> (\<forall>x t. x \<noteq> [] \<longrightarrow> m x = Some t \<longrightarrow> t \<noteq> [])"

definition named_state :: "match_state \<Rightarrow> bool" where
  "named_state st \<longleftrightarrow> (\<forall>q \<in> set (ms_survivors st). in_pointer q \<noteq> []) \<and> named_map (ms_pointer_map st)"

lemma match_person_named:
  assumes step: "match_person core tr source_id bindings st (p, original) = Inr st'" and kept: "pointers_kept st" and st: "named_state st"
  shows "named_state st'"
proof -
  from step obtain ids pool stats t where c: "choose_target core tr source_id st (bindings original) ids p original = Inr ((pool, stats), t)"
    and st': "st' = add_survivor tr t ids p (st\<lparr>ms_pointer_map := (ms_pointer_map st)(in_pointer p \<mapsto> t),
             ms_bindings := AList.update original t (ms_bindings st), ms_pool := pool, ms_stats := stats\<rparr>)"
    by (auto simp: match_person_def bindE_Inr_iff)
  have "t \<noteq> []" using choose_target_good [OF c kept] st next_pointer_fresh [of "ms_pool st" "u ''INDI''" pool t]
    by (auto simp: good_target_def named_state_def)
  then show ?thesis using st by (auto simp: st' named_state_def named_map_def)
qed

definition safe_state :: "('s::linordered_idom) core_rules \<Rightarrow> individual list \<Rightarrow> ustr list \<Rightarrow> match_state \<Rightarrow> bool" where
  "safe_state core masters declared st \<longleftrightarrow> (\<exists>incoming. match_inv core masters declared incoming st) \<and> named_state st"

lemma match_person_safe:
  assumes "match_person core tr source_id bindings st x = Inr st'" and "safe_state core masters declared st"
  shows "safe_state core masters declared st'"
proof -
  obtain p original where x: "x = (p, original)" by (cases x)
  from assms(2) obtain incoming where inv: "match_inv core masters declared incoming st" and "named_state st" by (auto simp: safe_state_def)
  then show ?thesis
    using match_person_inv [OF inv assms(1) [unfolded x]] match_person_named [OF assms(1) [unfolded x]]
    by (auto simp: safe_state_def match_inv_def [of _ _ _ incoming])
qed

lemma match_snapshot_safe:
  assumes "match_snapshot core tr bindings (st, acc) x = Inr (st', acc')" and "safe_state core masters declared st"
  shows "safe_state core masters declared st'"
proof -
  obtain spec source people where x: "x = (spec, source, people)" by (cases x) auto
  from assms(1) obtain ordered where
    fold: "foldE (match_person core tr (sn_source_id spec) (bindings (sn_source_id spec))) (st\<lparr>ms_bindings := []\<rparr>) ordered = Inr st'"
    by (auto simp: match_snapshot_def x bindE_Inr_iff)
  have "safe_state core masters declared (st\<lparr>ms_bindings := []\<rparr>)"
    using assms(2) by (simp add: safe_state_def match_inv_def pointers_kept_def named_state_def)
  then show ?thesis by (rule foldE_invariant [where P = "safe_state core masters declared", OF fold]) (auto intro: match_person_safe)
qed

lemma master_people_named:
  assumes "source_people tr source = Inr people" and "people_named (so_records source)" and "p \<in> set people"
  shows "in_pointer p \<noteq> []"
proof -
  from assms(1) obtain rs inds where rs: "person_records (so_records source) = Inr rs" "mapE (individual_from_record tr) rs = Inr inds"
    "enrich_relationship_context tr inds (so_records source) = Inr people"
    by (auto simp: source_people_def bindE_Inr_iff)
  from enriched_pointers [OF rs(3)] assms(3) have "in_pointer p \<in> in_pointer ` set inds" by blast
  then obtain q where q: "q \<in> set inds" "in_pointer q = in_pointer p" by auto
  from mapE_Inr_source [OF rs(2) q(1)] obtain r where r: "r \<in> set rs" "individual_from_record tr r = Inr q" by auto
  from rs(1) obtain rss where rss: "mapE (\<lambda>r. bindE (record_tag r) (\<lambda>tag. Inr (if tag = u ''INDI'' then [r] else []))) (so_records source) = Inr rss"
    "rs = concat rss" by (auto simp: person_records_def bindE_Inr_iff)
  from r(1) rss(2) obtain rs' where "rs' \<in> set rss" "r \<in> set rs'" by auto
  with mapE_Inr_source [OF rss(1) this(1)] have "r \<in> set (so_records source)" "record_tag r = Inr (u ''INDI'')"
    by (auto simp: bindE_Inr_iff split: if_splits)
  then show ?thesis using assms(2) individual_pointer [OF r(2)] q(2) by (auto simp: people_named_def)
qed

lemma match_people_named:
  assumes m: "match_people core tr sources specs bindings next_ids stats = Inr (st, result)" and "people_named (so_records (hd sources))"
  shows "named_map (ms_pointer_map st)"
proof -
  from m obtain people declared where p: "mapE (source_people tr) sources = Inr people" "people \<noteq> []" "declared_pointers sources = Inr declared"
    by (auto simp: match_people_def bindE_Inr_iff split: if_splits)
  then obtain masters incoming where people: "mapE (source_people tr) sources = Inr (masters # incoming)" by (cases people) auto
  from m people p(3) obtain st0 where fold: "foldE (match_snapshot core tr bindings) (st0, []) (zip specs (zip (tl sources) incoming)) = Inr (st, result)"
    and st0: "match_inv core masters declared {} st0" "ms_survivors st0 = masters"
      "ms_pointer_map st0 = map_of (map (\<lambda>p. (in_pointer p, in_pointer p)) masters)" by (rule match_people_start)
  from people have "source_people tr (hd sources) = Inr masters" by (cases sources) (auto simp: bindE_Inr_iff)
  from master_people_named [OF this assms(2)] have "\<forall>p \<in> set masters. in_pointer p \<noteq> []" by blast
  then have "safe_state core masters declared st0"
    using st0 by (auto simp: safe_state_def named_state_def named_map_def dest!: map_of_SomeD)
  then have "safe_state core masters declared (fst (st, result))"
    by (intro foldE_invariant [where P = "\<lambda>(st, acc). safe_state core masters declared st", OF fold, unfolded case_prod_unfold])
      (auto intro: match_snapshot_safe)
  then show ?thesis by (simp add: safe_state_def named_state_def)
qed

text \<open>Nor does the map of the other records name anything by an empty pointer.\<close>

lemma choose_representative_named:
  "choose_representative is_master tag key pointer st = (target, st') \<Longrightarrow> np_map st' = np_map st \<and> (pointer \<noteq> [] \<longrightarrow> target \<noteq> [])"
  by (auto simp: choose_representative_def Let_def dest: next_pointer_shape split: option.splits if_splits prod.splits)

lemma store_record_map: "store_record tr tag target synthetic st = Inr st' \<Longrightarrow> np_map st' = np_map st"
  by (auto simp: store_record_def bindE_Inr_iff split: option.splits if_splits)

lemma map_record_named:
  assumes "map_record tr path st (tag, r) = Inr st'" and "named_map (np_map st)"
  shows "named_map (np_map st')"
  using assms(1)
proof (rule map_record_parts)
  fix p key target st1 lines
  assume c: "choose_representative (gr_source_file r = path) tag key p
      (if gr_source_file r = path then st\<lparr>np_map := set_default (np_map st) p p\<rparr> else st) = (target, st1)"
    and s: "store_record tr tag target (made_record lines r) (st1\<lparr>np_map := (np_map st1)(p \<mapsto> target)\<rparr>) = Inr st'"
  show ?thesis using choose_representative_named [OF c] store_record_map [OF s] assms(2)
    by (auto simp: named_map_def set_default_def split: if_splits)
qed

lemma named_map_default: "named_map m \<Longrightarrow> v \<noteq> [] \<Longrightarrow> named_map (set_default m k v)"
  by (auto simp: named_map_def set_default_def)

lemma map_other_record_named:
  "map_other_record path st (tag, r) = Inr st' \<Longrightarrow> named_map (np_map st) \<Longrightarrow> named_map (np_map st')"
  by (auto simp: map_other_record_def bindE_Inr_iff Let_def dest!: next_pointer_shape intro!: named_map_default split: if_splits prod.splits)

lemma map_nonpeople_named:
  assumes "map_nonpeople tr sources pointer_map next_ids stats = Inr (st, records)" and "named_map pointer_map"
  shows "named_map (np_map st)"
proof -
  let ?P = "\<lambda>st. named_map (np_map st)"
  from assms(1) obtain used tagged a where
    1: "foldE (map_record tr (so_path (hd sources))) \<lparr>np_map = pointer_map, np_pool = \<lparr>pp_used = used, pp_counters = next_ids\<rparr>,
         np_representatives = Map.empty, np_records = Map.empty, np_order = [], np_stats = stats\<rparr> (ordered_work tagged) = Inr a"
    and 2: "foldE (map_other_record (so_path (hd sources))) a (filter (\<lambda>(tag, r). tag \<notin> set ordered_tags) tagged) = Inr st"
    by (auto simp: map_nonpeople_def bindE_Inr_iff Let_def)
  have "?P a" by (rule foldE_invariant [where P = ?P, OF 1]) (use assms(2) in \<open>auto intro: map_record_named\<close>)
  then show ?thesis by (rule foldE_invariant [where P = ?P, OF 2]) (auto intro: map_other_record_named)
qed

lemma group_people_named:
  assumes "group_people sources specs pointer_map = Inr grouped" and "\<forall>s \<in> set sources. people_named (so_records s)" and "named_map pointer_map"
  shows "[] \<notin> fst ` set grouped"
proof (rule foldE_invariant [where P = "\<lambda>g. [] \<notin> fst ` set g", OF assms(1) [unfolded group_people_def]])
  fix a r b assume a: "[] \<notin> fst ` set a" and r: "r \<in> set (concat (map so_records sources))" and step: "add_origin_record specs pointer_map a r = Inr b"
  have keys: "fst ` set (append_entry t x a) = insert t (fst ` set a)" for t x
    using dom_update [of t "entries a t @ [x]" a] by (simp add: append_entry_def)
  show "[] \<notin> fst ` set b"
  proof (cases "record_tag r = Inr (u ''INDI'')")
    case True
    with step obtain p where p: "record_pointer r = Inr p"
      "b = append_entry (case pointer_map p of None \<Rightarrow> p | Some t \<Rightarrow> t) (spec_of_path specs (gr_source_file r), r) a"
      by (auto simp: add_origin_record_def bindE_Inr_iff Let_def)
    have "p \<noteq> []" using assms(2) r True p(1) by (auto simp: people_named_def)
    then show ?thesis using a assms(3) by (auto simp: p(2) keys named_map_def split: option.split)
  qed (use step a in \<open>auto simp: add_origin_record_def bindE_Inr_iff\<close>)
qed simp

section \<open>What an update publishes\<close>

text \<open>The digests are lower-case hexadecimal, a file has a path, and the texts of the clock are moments with a time zone.\<close>

definition world_ok :: "'s run_world \<Rightarrow> bool" where
  "world_ok w \<longleftrightarrow> (\<forall>s. sha_text (sha_of w s)) \<and> (\<forall>p x. sf_fingerprint (rw_files w) p = Inr x \<longrightarrow> sha_text x)
     \<and> (\<forall>p x. sf_normalize (rw_files w) p = Inr x \<longrightarrow> x \<noteq> []) \<and> (\<forall>t. sf_mtime_text (rw_files w) t \<noteq> [])
     \<and> rw_clock w [] = None \<and> (\<forall>spec. is_aware (rw_clock w (rw_observed_at w spec)))
     \<and> is_aware (rw_clock w (rw_created_at w)) \<and> is_aware (rw_clock w (rw_updated_at w)) \<and> rw_tree_id w \<noteq> []"

text \<open>A manifest on disk is that of a release, none of which is later than now.\<close>

definition manifests_ok :: "'s run_world \<Rightarrow> bool" where
  "manifests_ok w \<longleftrightarrow> (\<forall>p d. rw_manifest w p = Inr d \<longrightarrow> 0 < number_at (u ''generation'') d
     \<and> (\<forall>t. rw_clock w (rw_updated_at w) = Some (Aware t) \<longrightarrow>
          (\<forall>r \<in> set (list_at (u ''releases'') d). \<forall>s. release_time (rw_clock w) r = Inr s \<longrightarrow> s \<le> t)))"

lemma awareD: "is_aware m \<Longrightarrow> \<exists>t. m = Some (Aware t)"
  by (auto simp: is_aware_def split: option.splits moment.splits)

lemma add_snapshot_spec_ok:
  assumes "add_snapshot_spec (rw_text w) (rw_clock w) (rw_files w) specs item = Inr specs'" and w: "world_ok w"
    and "list_all (spec_ok (rw_clock w) (rw_observed_at w)) specs" "distinct (map sn_source_id specs)"
  shows "list_all (spec_ok (rw_clock w) (rw_observed_at w)) specs' \<and> distinct (map sn_source_id specs')"
proof -
  from assms(1) obtain path modified exported basis sha where
    s: "source_id_ok (si_source_id item)" "si_vendor item \<in> set supported_vendors" "si_source_id item \<notin> set (map sn_source_id specs)"
    and path: "sf_normalize (rw_files w) (si_path item) = Inr path" and sha: "sf_fingerprint (rw_files w) path = Inr sha"
    and time: "export_time (rw_text w) (rw_clock w) (rw_files w) path modified (si_exported_at item) = Inr (exported, basis)"
    and specs': "specs' = specs @ [\<lparr>sn_source_id = si_source_id item, sn_vendor = si_vendor item, sn_path = path,
         sn_exported_at = exported, sn_date_basis = basis, sn_sha256 = sha\<rparr>]"
    by (auto simp: add_snapshot_spec_def validate_snapshot_identity_def bindE_Inr_iff result_simps ingressE_def split: sum.splits)
  have "exported \<noteq> [] \<and> basis \<in> set date_bases"
    using time w by (auto simp: export_time_def validate_exported_at_def world_ok_def date_bases_def bindE_Inr_iff result_simps split: option.splits if_splits)
  moreover have "rw_observed_at w spec \<noteq> []" for spec using w by (metis world_ok_def is_aware_def option.simps(4))
  ultimately show ?thesis using assms(3,4) s path sha w by (auto simp: specs' spec_ok_def world_ok_def)
qed

lemma snapshot_specs_ok:
  assumes "snapshot_specs (rw_text w) (rw_clock w) (rw_files w) inputs = Inr specs" and w: "world_ok w"
  shows "list_all (spec_ok (rw_clock w) (rw_observed_at w)) specs \<and> distinct (map sn_source_id specs)"
proof -
  let ?P = "\<lambda>specs. list_all (spec_ok (rw_clock w) (rw_observed_at w)) specs \<and> distinct (map sn_source_id specs)"
  from assms(1) obtain found where f: "foldE (add_snapshot_spec (rw_text w) (rw_clock w) (rw_files w)) [] inputs = Inr found"
    "specs = sort_key (\<lambda>s. (sn_source_id s, sn_vendor s, sn_sha256 s)) found" by (auto simp: snapshot_specs_def bindE_Inr_iff)
  have p: "?P found" by (rule foldE_invariant [where P = ?P, OF f(1)]) (use add_snapshot_spec_ok [OF _ w] in auto)
  then have "distinct (map sn_source_id specs)" by (simp add: f(2) distinct_map)
  then show ?thesis using p by (auto simp: f(2) list_all_iff)
qed

lemma new_manifest_valid:
  assumes "world_ok w" and "sha_text master_sha" and "master \<noteq> []"
  shows "validate_manifest (rw_clock w) (new_manifest master root master_sha (rw_tree_id w) (rw_created_at w) (rw_updated_at w)) = Inr ()"
proof -
  let ?d = "new_manifest master root master_sha (rw_tree_id w) (rw_created_at w) (rw_updated_at w)"
  have at: "rw_created_at w \<noteq> []" "rw_updated_at w \<noteq> []" using assms(1) by (metis world_ok_def is_aware_def option.simps(4))+
  have shape: "check_shape ?d = Inr ()"
    using assms unfolding check_shape_iff required_fields_def mapping_fields_def list_fields_def new_manifest_def
    by (simp add: world_ok_def)
  have rest: "check_rest (rw_clock w) ?d = Inr ()"
    using assms(1) at awareD unfolding check_rest_iff time_ok_def check_time_field_def new_manifest_def
    by (auto simp: world_ok_def bindE_Inr_iff manifest_timestamp_Inr lookups_at list_all_iff)
  have "check_snapshots (rw_clock w) ?d = Inr [] \<and> check_active ?d [] = Inr () \<and> check_bindings ?d [] = Inr ()"
    "check_blocks ?d = Inr ()" "check_tombstones ?d = Inr ()" "check_releases (rw_clock w) ?d = Inr ()" "check_parent ?d = Inr ()"
    by (simp_all add: check_snapshots_def check_active_def check_bindings_def check_blocks_def check_tombstones_def check_releases_iff
        check_parent_def parent_valid_def list_fields_def lookups_at new_manifest_def bindE_Inr_iff result_simps)
  then show ?thesis using shape rest unfolding validate_manifest_iff by blast
qed

text \<open>What a draft needs: the matched people, the consolidated records and the reconciled blocks.\<close>

lemma draft_content:
  assumes draft: "draft_update w c d specs sources = Inr dr" and w: "world_ok w" and d: "content_ok (rw_clock w) d"
    and specs: "list_all (spec_ok (rw_clock w) (rw_observed_at w)) specs" "distinct (map sn_source_id specs)" "validate_snapshot_continuity d specs = Inr ()"
    and named: "\<forall>s \<in> set sources. people_named (so_records s)"
  obtains counters bindings rc where
    "ud_manifest dr = next_manifest (rw_updated_at w) (rw_observed_at w) specs counters bindings rc d"
    "content_ok (rw_clock w) (ud_manifest dr)"
proof -
  from draft obtain ms bindings np records rc where
    m: "match_people (rw_core w) (rw_text w) sources specs (bindings_of d) (next_ids_of d) no_stats = Inr (ms, bindings)"
    and n: "map_nonpeople (rw_text w) sources (ms_pointer_map ms) (pp_counters (ms_pool ms)) (ms_stats ms) = Inr (np, records)"
    and r: "reconcile_person_blocks (rw_text w) sources specs (np_map np) (manifest_of d) (np_stats np) (uc_initialize c) = Inr rc"
    and dr: "ud_manifest dr = next_manifest (rw_updated_at w) (rw_observed_at w) specs (pp_counters (np_pool np)) bindings rc d"
    by (auto simp: draft_update_def bindE_Inr_iff)
  from d obtain vendors where ok: "check_shape d = Inr ()" "check_blocks d = Inr ()" "check_rest (rw_clock w) d = Inr ()"
    and v: "check_snapshots (rw_clock w) d = Inr vendors" "check_active d vendors = Inr ()" by (auto simp: content_ok_def)
  have ids: "counters_ok (next_ids_of d)"
    using ok(3) by (auto simp: check_rest_iff next_ids_of_def counters_ok_def list_all_iff is_from_def split: json.splits)
  note c1 = match_people_counters [OF m ids]
  have counters: "counters_ok (pp_counters (np_pool np))" using map_nonpeople_counters [OF n] c1 by blast
  have sources: "sources \<noteq> []" using m by (auto simp: match_people_def bindE_Inr_iff split: if_splits)
  have "named_map (np_map np)"
    using map_nonpeople_named [OF n match_people_named [OF m]] named sources by (simp add: hd_in_set)
  then have targets: "\<forall>grouped. group_people sources specs (np_map np) = Inr grouped \<longrightarrow> [] \<notin> fst ` set grouped"
    using group_people_named named by blast
  have history: "history_ok (rw_clock w) vendors (object_at (u ''snapshots'') d, object_at (u ''active_snapshots'') d)"
    using v by (simp add: history_iff [symmetric])
  let ?snaps = "fst (seeded (rw_observed_at w) specs d)"
  from history specs have known: "\<forall>spec \<in> set specs. map_of ?snaps (snapshot_id spec) \<noteq> None"
    and more: "\<And>k v. map_of (object_at (u ''snapshots'') d) k = Some v \<Longrightarrow> map_of ?snaps k = Some v" by (blast elim: seeded_ok)+
  have "list_all (person_blocks_valid ?snaps) (object_at (u ''blocks'') d)"
    using ok(2) person_blocks_valid_mono [OF _ more] by (auto simp: check_blocks_def result_simps list_all_iff)
  then have "blocks_ok ?snaps (sm_blocks (manifest_of d))" using blocks_of_ok by (simp add: manifest_of_def)
  from reconcile_blocks_ok [OF r this known _ _ targets] w shape_facts(1) [OF ok(1)] have "blocks_ok ?snaps (rc_blocks rc)"
    by (simp add: world_ok_def sha_of_def manifest_of_def)
  moreover obtain t where "rw_clock w (rw_updated_at w) = Some (Aware t)" "rw_updated_at w \<noteq> []"
    using w awareD by (metis world_ok_def is_aware_def option.simps(4))
  then have "manifest_timestamp (rw_clock w) (JStr (rw_updated_at w)) '''' = Inr t" by (simp add: manifest_timestamp_Inr)
  ultimately have "content_ok (rw_clock w) (ud_manifest dr)"
    unfolding dr using next_content [OF d specs counters] c1 by blast
  with dr show thesis by (rule that)
qed

end
