(* ===== verification/Sync_Claims.thy ===== *)
theory Sync_Claims
  imports Sync_Generations
begin

text \<open>
  The claims about whole runs of the synchronizer: a published release can be opened by the next run, with
  its own master; nothing is published without need; what a person edited by hand is kept.
\<close>

section \<open>A release can be continued\<close>

definition bundle_digests :: "'s run_world \<Rightarrow> release_bundle \<Rightarrow> ustr \<rightharpoonup> ustr" where
  "bundle_digests w bundle = map_of (map (\<lambda>(name, text). (u name, sha_of w text)) (rb_artifacts bundle))"

definition bundle_master :: "release_bundle \<Rightarrow> ustr" where
  "bundle_master bundle = (case map_of (rb_artifacts bundle) ''master.ged'' of None \<Rightarrow> [] | Some text \<Rightarrow> text)"

text \<open>The release can be opened: its manifest is valid, its artifacts are those the manifest names, and its
  master is the one of the manifest.\<close>

definition continues :: "'s run_world \<Rightarrow> release_bundle \<Rightarrow> bool" where
  "continues w bundle \<longleftrightarrow> load_manifest (rw_clock w) (bundle_digests w bundle) (Inr (rb_manifest bundle)) (sha_of w (bundle_master bundle))
     = Inr (rb_manifest bundle)"

lemma published_continues:
  assumes valid: "validate_manifest (rw_clock w) (rb_manifest bundle) = Inr ()"
    and m: "rb_manifest bundle = published (sha_of w) (rb_artifacts bundle) info g d"
    and a: "rb_artifacts bundle = [(''master.ged'', master), (''quality.md'', quality), (''rollback.json'', rollback), (''update.md'', report)]"
    and sha: "ri_master_sha info = sha_of w master"
  shows "continues w bundle"
proof -
  have "verify_manifest_artifacts (bundle_digests w bundle) (rb_manifest bundle) = Inr ()"
    by (simp add: verify_manifest_artifacts_def result_simps lookups_at m published_lookup a bundle_digests_def)
  moreover have "text_at (u ''sha256'') (object_at (u ''master'') (rb_manifest bundle)) = sha_of w (bundle_master bundle)"
    by (simp add: lookups_at m published_lookup sha a bundle_master_def)
  ultimately show ?thesis using valid by (simp add: continues_def load_manifest_def ingressE_def)
qed

lemma four_artifacts:
  "set (map (\<lambda>(n, t). u n) [(''master.ged'', a), (''quality.md'', b), (''rollback.json'', c), (''update.md'', e)]) = set artifact_names"
  by (auto simp: artifact_names_def)

text \<open>The manifest a run continues, with its release.\<close>

lemma opened_manifest:
  assumes "opening_manifest w c master_sha = Inr (d, manifest_sha)" and w: "world_ok w" "manifests_ok w" and "sha_text master_sha"
    and "uc_master c \<noteq> []" "uc_manifest c \<noteq> Some []"
  shows "validate_manifest (rw_clock w) d = Inr ()"
    and "dir \<noteq> [] \<Longrightarrow> sha_text sha \<Longrightarrow> release_ok (rw_clock w) d \<lparr>ri_directory = dir, ri_master_sha = sha, ri_updated_at = rw_updated_at w,
      ri_manifest_path = uc_manifest c, ri_manifest_sha = manifest_sha, ri_kind = kind\<rparr>"
proof -
  obtain t where t: "rw_clock w (rw_updated_at w) = Some (Aware t)" "rw_updated_at w \<noteq> []"
    using w(1) awareD by (metis world_ok_def is_aware_def option.simps(4))
  have "validate_manifest (rw_clock w) d = Inr () \<and> (dir \<noteq> [] \<longrightarrow> sha_text sha \<longrightarrow> release_ok (rw_clock w) d \<lparr>ri_directory = dir, ri_master_sha = sha,
      ri_updated_at = rw_updated_at w, ri_manifest_path = uc_manifest c, ri_manifest_sha = manifest_sha, ri_kind = kind\<rparr>)"
  proof (cases "uc_manifest c")
    case None
    then have d: "d = new_manifest (uc_master c) (uc_release_root c) master_sha (rw_tree_id w) (rw_created_at w) (rw_updated_at w)" "manifest_sha = None"
      using assms(1) by (auto simp: opening_manifest_def)
    have "number_at (u ''generation'') d = 0" "list_at (u ''releases'') d = []" by (simp_all add: d(1) new_manifest_def lookups_at)
    then show ?thesis using new_manifest_valid [OF w(1) assms(4,5)] None t d
      by (auto simp: release_ok_def manifest_timestamp_Inr)
  next
    case (Some path)
    then obtain sha' where f: "sf_fingerprint (rw_files w) path = Inr sha'" "manifest_sha = Some sha'"
      and "load_manifest (rw_clock w) (rw_artifact w path) (rw_manifest w path) master_sha = Inr d"
      using assms(1) by (auto simp: opening_manifest_def bindE_Inr_iff ingressE_def split: sum.splits)
    then have d: "rw_manifest w path = Inr d" "validate_manifest (rw_clock w) d = Inr ()"
      by (auto simp: load_manifest_def bindE_Inr_iff ingressE_def Let_def split: sum.splits if_splits)
    moreover from d(1) w(2) have "number_at (u ''generation'') d \<noteq> 0" by (force simp: manifests_ok_def)
    ultimately show ?thesis using w assms(6) Some f t
      by (auto simp: release_ok_def manifests_ok_def world_ok_def manifest_timestamp_Inr)
  qed
  then show "validate_manifest (rw_clock w) d = Inr ()"
    "dir \<noteq> [] \<Longrightarrow> sha_text sha \<Longrightarrow> release_ok (rw_clock w) d \<lparr>ri_directory = dir, ri_master_sha = sha, ri_updated_at = rw_updated_at w,
      ri_manifest_path = uc_manifest c, ri_manifest_sha = manifest_sha, ri_kind = kind\<rparr>" by blast+
qed

lemma release_directory [simp]: "root @ u ''/'' @ name \<noteq> []"
  by (simp add: u_def)

lemma update_bundle_parts:
  assumes "update_bundle w c d manifest_sha specs dr = Inr (bundle, severities)"
  obtains master quality rollback report dir where "dir \<noteq> []"
    "rb_artifacts bundle = [(''master.ged'', master), (''quality.md'', quality), (''rollback.json'', rollback), (''update.md'', report)]"
    "rb_manifest bundle = published (sha_of w) (rb_artifacts bundle) \<lparr>ri_directory = dir, ri_master_sha = sha_of w master, ri_updated_at = rw_updated_at w,
       ri_manifest_path = uc_manifest c, ri_manifest_sha = manifest_sha, ri_kind = None\<rparr> (number_at (u ''generation'') d) (ud_manifest dr)"
proof -
  let ?dir = "uc_release_root c @ u ''/'' @ release_name (number_at (u ''generation'') d + 1) (rw_stamp w)"
  from assms obtain master quality rollback report where
    "rb_artifacts bundle = [(''master.ged'', master), (''quality.md'', quality), (''rollback.json'', rollback), (''update.md'', report)]"
    "rb_manifest bundle = published (sha_of w) (rb_artifacts bundle) \<lparr>ri_directory = ?dir, ri_master_sha = sha_of w master, ri_updated_at = rw_updated_at w,
       ri_manifest_path = uc_manifest c, ri_manifest_sha = manifest_sha, ri_kind = None\<rparr> (number_at (u ''generation'') d) (ud_manifest dr)"
    unfolding update_bundle_def Let_def published_def by (auto simp: bindE_Inr_iff)
  then show thesis by (rule that [rotated]) simp
qed

lemma ingressE_Inr [simp]: "ingressE m = Inr x \<longleftrightarrow> m = Inr x"
  by (auto simp: ingressE_def split: sum.splits)

lemma loadE_Inr [simp]: "loadE m = Inr x \<longleftrightarrow> m = Inr x"
  by (auto simp: loadE_def split: sum.splits loader_error.splits)

lemma coreE_Inr [simp]: "coreE m = Inr x \<longleftrightarrow> m = Inr x"
  by (auto simp: coreE_def split: sum.splits)

lemma perform_update_Inr:
  assumes "perform_update w c = Inr r"
  obtains master_sha specs d manifest_sha sources where "sf_fingerprint (rw_files w) (uc_master c) = Inr master_sha"
    "snapshot_specs (rw_text w) (rw_clock w) (rw_files w) (uc_snapshots c) = Inr specs"
    "opening_manifest w c master_sha = Inr (d, manifest_sha)" "validate_snapshot_continuity d specs = Inr ()"
    "rw_load w (uc_master c # map sn_path specs) = Inr sources"
    "if list_all (already_active d) specs
     then r = \<lparr>er_output = no_update_text, er_committed = False, er_release = None, er_accounting = no_accounting\<rparr>
     else run_update w c d manifest_sha specs sources = Inr r"
proof -
  from assms obtain master_sha specs p sources where "sf_fingerprint (rw_files w) (uc_master c) = Inr master_sha"
    "snapshot_specs (rw_text w) (rw_clock w) (rw_files w) (uc_snapshots c) = Inr specs"
    "opening_manifest w c master_sha = Inr p" "validate_snapshot_continuity (fst p) specs = Inr ()"
    "rw_load w (uc_master c # map sn_path specs) = Inr sources"
    "if list_all (already_active (fst p)) specs
     then r = \<lparr>er_output = no_update_text, er_committed = False, er_release = None, er_accounting = no_accounting\<rparr>
     else run_update w c (fst p) (snd p) specs sources = Inr r"
    unfolding perform_update_def case_prod_unfold by (auto simp: bindE_Inr_iff split: if_splits)
  then show thesis using that [of master_sha specs "fst p" "snd p" sources] by simp
qed


section \<open>A rebase\<close>

lemma opening_rebase_Inr:
  assumes "opening_rebase w c = Inr (d, manifest_sha, previous)"
  shows "sf_fingerprint (rw_files w) (bc_manifest c) = Inr manifest_sha \<and> rw_manifest w (bc_manifest c) = Inr d
    \<and> validate_manifest (rw_clock w) d = Inr ()"
  using assms by (auto simp: opening_rebase_def bindE_Inr_iff Let_def split: if_splits)

lemma perform_rebase_Inr:
  assumes "perform_rebase w c text = Inr r"
  obtains d manifest_sha path old new previous current where "opening_rebase w c = Inr (d, manifest_sha, path)"
    "rw_records w path = Inr old" "master_block_index (rw_text w) old = Inr previous"
    "rw_records w (bc_master c) = Inr new" "master_block_index (rw_text w) new = Inr current"
    "run_rebase w c text d manifest_sha previous current = Inr r"
proof -
  from assms obtain p old new previous current where "opening_rebase w c = Inr p"
    "rw_records w (snd (snd p)) = Inr old" "master_block_index (rw_text w) old = Inr previous"
    "rw_records w (bc_master c) = Inr new" "master_block_index (rw_text w) new = Inr current"
    "run_rebase w c text (fst p) (fst (snd p)) previous current = Inr r"
    unfolding perform_rebase_def case_prod_unfold by (auto simp: bindE_Inr_iff)
  then show thesis using that [of "fst p" "fst (snd p)" "snd (snd p)" old previous new current] by simp
qed

lemma run_rebase_Inr:
  assumes "run_rebase w c text d manifest_sha previous current = Inr r" and "er_release r = Some bundle"
  shows "bundle = rebase_bundle w c text (sha_of w text) manifest_sha (blocks_beyond current previous) (blocks_beyond previous current) d
    \<and> (blocks_beyond previous current = [] \<or> bc_accept_deletions c)"
  using assms by (auto simp: run_rebase_def bindE_Inr_iff Let_def split: if_splits)

lemma rebase_bundle_parts:
  obtains quality rollback report dir where "dir \<noteq> []"
    "rb_artifacts (rebase_bundle w c text sha manifest_sha additions deletions d)
      = [(''master.ged'', text), (''quality.md'', quality), (''rollback.json'', rollback), (''update.md'', report)]"
    "rb_manifest (rebase_bundle w c text sha manifest_sha additions deletions d)
      = published (sha_of w) (rb_artifacts (rebase_bundle w c text sha manifest_sha additions deletions d))
         \<lparr>ri_directory = dir, ri_master_sha = sha, ri_updated_at = rw_updated_at w,
          ri_manifest_path = Some (bc_manifest c), ri_manifest_sha = Some manifest_sha, ri_kind = Some (u ''manual-rebase'')\<rparr>
         (number_at (u ''generation'') d) (rebased_manifest (bc_reason c) additions deletions d)"
proof -
  let ?dir = "bc_release_root c @ u ''/'' @ release_name (number_at (u ''generation'') d + 1) (rw_stamp w)"
  have "\<exists>quality rollback report. rb_artifacts (rebase_bundle w c text sha manifest_sha additions deletions d)
      = [(''master.ged'', text), (''quality.md'', quality), (''rollback.json'', rollback), (''update.md'', report)]
    \<and> rb_manifest (rebase_bundle w c text sha manifest_sha additions deletions d)
      = published (sha_of w) (rb_artifacts (rebase_bundle w c text sha manifest_sha additions deletions d))
         \<lparr>ri_directory = ?dir, ri_master_sha = sha, ri_updated_at = rw_updated_at w,
          ri_manifest_path = Some (bc_manifest c), ri_manifest_sha = Some manifest_sha, ri_kind = Some (u ''manual-rebase'')\<rparr>
         (number_at (u ''generation'') d) (rebased_manifest (bc_reason c) additions deletions d)"
    unfolding rebase_bundle_def Let_def published_def by simp
  then show thesis by (elim exE conjE) (rule that [rotated], auto)
qed


section \<open>Edits by hand\<close>

definition listed :: "block_index \<Rightarrow> ustr \<Rightarrow> ustr \<Rightarrow> bool" where
  "listed index p k \<longleftrightarrow> (\<exists>bs tag logical. (p, bs) \<in> set index \<and> (k, tag, logical) \<in> set bs)"

definition entry_at :: "jobject \<Rightarrow> ustr \<Rightarrow> ustr \<Rightarrow> json option" where
  "entry_at blocks p k = map_of (object_at p blocks) k"

text \<open>The entry of a block protects it from removal.\<close>

definition kept_by_hand :: "jobject \<Rightarrow> ustr \<Rightarrow> ustr \<Rightarrow> bool" where
  "kept_by_hand blocks p k \<longleftrightarrow> (\<exists>v. entry_at blocks p k = Some v \<and> u ''manual'' \<in> set (be_protected (entry_of v)))"

lemma protect_block_at: "map_of (protect_block registry (key, tag, logical)) k = (if k = key
    then Some (JObj (protect_entry logical (case map_of registry key of None \<Rightarrow> manual_entry tag logical | Some v \<Rightarrow> fields_of v))) else map_of registry k)"
  by (simp add: protect_block_def Let_def)

lemma protect_entry_manual: "u ''manual'' \<in> set (be_protected (entry_of (JObj (protect_entry logical e))))"
proof -
  have "JStr (u ''manual'') \<in> set (list_at (u ''protected'') (protect_entry logical e))" by (simp add: protect_entry_fields(3))
  then have "text_value (JStr (u ''manual'')) \<in> text_value ` set (list_at (u ''protected'') (protect_entry logical e))" by (rule imageI)
  then show ?thesis by (simp add: entry_of_def Let_def)
qed

lemma protect_blocks_at:
  "k \<notin> fst ` set bs \<Longrightarrow> map_of (foldl protect_block registry bs) k = map_of registry k"
  "k \<in> fst ` set bs \<Longrightarrow> \<exists>v. map_of (foldl protect_block registry bs) k = Some v \<and> u ''manual'' \<in> set (be_protected (entry_of v))"
proof -
  show other: "k \<notin> fst ` set bs \<Longrightarrow> map_of (foldl protect_block registry bs) k = map_of registry k" for registry bs
    by (induction bs arbitrary: registry) (auto simp: protect_block_at)
  show "k \<in> fst ` set bs \<Longrightarrow> \<exists>v. map_of (foldl protect_block registry bs) k = Some v \<and> u ''manual'' \<in> set (be_protected (entry_of v))"
  proof (induction bs arbitrary: registry)
    case (Cons b bs)
    obtain key tag logical where b: "b = (key, tag, logical)" by (cases b)
    show ?case
    proof (cases "k \<in> fst ` set bs")
      case False
      then have "k = key" using Cons.prems b by simp
      with other [OF False] show ?thesis using protect_entry_manual by (simp add: b protect_block_at)
    qed (use Cons.IH in simp)
  qed simp
qed

lemma protect_person_at: "entry_at (protect_person blocks (q, bs)) p k
    = (if p = q then map_of (foldl protect_block (object_at q blocks) bs) k else entry_at blocks p k)"
  by (simp add: protect_person_def entry_at_def lookups_at lookup_def)

lemma protect_person_keeps: "kept_by_hand blocks p k \<Longrightarrow> kept_by_hand (protect_person blocks x) p k"
  using protect_blocks_at [of k "snd x" "object_at p blocks"]
  by (cases x; cases "k \<in> fst ` set (snd x)") (auto simp: kept_by_hand_def protect_person_at entry_at_def [of blocks])

lemma protect_people_keeps: "kept_by_hand blocks p k \<Longrightarrow> kept_by_hand (foldl protect_person blocks additions) p k"
  by (induction additions arbitrary: blocks) (simp_all add: protect_person_keeps)

lemma protect_people:
  "listed additions p k \<Longrightarrow> kept_by_hand (foldl protect_person blocks additions) p k"
proof (induction additions arbitrary: blocks)
  case (Cons x additions)
  obtain q bs where x: "x = (q, bs)" by (cases x)
  show ?case
  proof (cases "listed additions p k")
    case False
    then have "p = q" "k \<in> fst ` set bs" using Cons.prems by (force simp: listed_def x)+
    then have "kept_by_hand (protect_person blocks x) p k"
      using protect_blocks_at(2) [of k bs "object_at q blocks"] by (auto simp: kept_by_hand_def protect_person_at x)
    then show ?thesis by (simp add: protect_people_keeps)
  qed (use Cons.IH in simp)
qed (simp add: listed_def)

lemma unprotected_people: "\<not> listed additions p k \<Longrightarrow> entry_at (foldl protect_person blocks additions) p k = entry_at blocks p k"
proof (induction additions arbitrary: blocks)
  case (Cons x additions)
  obtain q bs where x: "x = (q, bs)" by (cases x)
  have "\<not> listed additions p k" "p = q \<longrightarrow> k \<notin> fst ` set bs" using Cons.prems by (force simp: listed_def x)+
  then show ?case using Cons.IH protect_blocks_at(1) [of k bs "object_at q blocks"] by (simp add: x protect_person_at entry_at_def [of blocks])
qed simp

lemma rebased_blocks: "object_at (u ''blocks'') (rebased_manifest reason additions deletions d) = foldl protect_person (object_at (u ''blocks'') d) additions"
  by (simp add: rebased_manifest_def Let_def)

lemma rebased_tombstones: "list_at (u ''manual_tombstones'') (rebased_manifest reason additions deletions d)
    = filter (\<lambda>t. \<not> revived additions t) (list_at (u ''manual_tombstones'') d) @ new_tombstones (number_at (u ''generation'') d + 1) reason deletions"
  by (simp add: rebased_manifest_def Let_def)

lemma published_same: "k \<in> {u ''blocks'', u ''manual_tombstones'', u ''person_bindings''} \<Longrightarrow> lookup k (published sha arts info g d) = lookup k d"
  by (auto simp: published_lookup)

lemma new_tombstones_listed:
  assumes "listed deletions p k"
  shows "\<exists>t \<in> set (new_tombstones g reason deletions). tb_person (tombstone_of t) = p \<and> tb_block_hash (tombstone_of t) = k"
proof -
  from assms obtain bs tag logical where b: "(p, bs) \<in> set deletions" "(k, tag, logical) \<in> set bs" by (auto simp: listed_def)
  then have "tombstone_json g p k logical reason \<in> set (new_tombstones g reason deletions)"
    by (force simp: new_tombstones_def)
  then show ?thesis by (rule bexI [rotated]) (simp add: tombstone_of_def tombstone_json_def lookups_at)
qed


section \<open>Dry runs and needless runs\<close>

definition same_changes :: "sync_accounting \<Rightarrow> sync_accounting \<Rightarrow> bool" where
  "same_changes a b \<longleftrightarrow> sa_created a = sa_created b \<and> sa_updated a = sa_updated b \<and> sa_unchanged a = sa_unchanged b
     \<and> sa_conflicts a = sa_conflicts b \<and> sa_warnings a = sa_warnings b \<and> sa_resolved a = sa_resolved b"

lemma run_update_accounting:
  assumes "run_update w c d manifest_sha specs sources = Inr r"
  obtains dr severities where "draft_update w c d specs sources = Inr dr" "er_accounting r = sync_accounting (ud_stats dr) severities"
    "rw_verify w = Inr ()" "uc_dry_run c \<longrightarrow> er_release r = None \<and> \<not> er_committed r"
    "\<not> uc_dry_run c \<longrightarrow> er_committed r \<and> (\<exists>bundle. er_release r = Some bundle \<and> rw_publish w bundle = Inr ())"
  using assms by (auto simp: run_update_def bindE_Inr_iff split: if_splits)

lemma opened_same: "opening_manifest w (c\<lparr>uc_dry_run := b\<rparr>) sha = opening_manifest w c sha"
  by (cases "uc_manifest c") (simp_all add: opening_manifest_def)

lemma drafted_same: "draft_update w (c\<lparr>uc_dry_run := b\<rparr>) d specs sources = draft_update w c d specs sources"
  by (simp add: draft_update_def)


section \<open>An example\<close>

text \<open>A tree of one person, a snapshot with another one, and a master edited by hand. The digest keeps the
  hexadecimal characters of a text.\<close>

definition digest :: "ustr \<Rightarrow> ustr" where
  "digest s = take 64 (filter hex_char s @ replicate 64 48)"

lemma digest_is_sha: "sha_text (digest s)"
proof -
  have "list_all hex_char (filter hex_char s @ replicate 64 48)" by (simp add: list_all_iff hex_char_def is_digit_def)
  then have "list_all hex_char (digest s)"
    using set_take_subset [of 64 "filter hex_char s @ replicate 64 48"] unfolding list_all_iff digest_def by blast
  then show ?thesis by (simp add: sha_text_def digest_def)
qed

definition small_command :: update_command where
  "small_command = \<lparr>uc_master = u ''master'', uc_release_root = u ''releases'', uc_provider = u ''none'',
     uc_snapshots = [\<lparr>si_source_id = u ''geni'', si_vendor = u ''geni'', si_path = u ''site'', si_exported_at = None\<rparr>],
     uc_manifest = None, uc_initialize = True, uc_quality_root = None, uc_no_quality_report = True, uc_dry_run = False,
     uc_gedcom_version = u ''5.5.1''\<rparr>"

definition old_records :: "gedcom_record list" where
  "old_records = [text_record [''0 @I1@ INDI'', ''1 NAME Ada /Berg/'', ''1 SEX F''] ''master'']"

definition new_records :: "gedcom_record list" where
  "new_records = [text_record [''0 @I1@ INDI'', ''1 NAME Ada /Berg/'', ''1 OCCU miller''] ''master'']"

definition small_manifest :: jobject where
  "small_manifest = record_release \<lparr>ri_directory = u ''g1'', ri_master_sha = digest (u ''/g1/master.ged''), ri_updated_at = u ''2024'',
       ri_manifest_path = None, ri_manifest_sha = None, ri_kind = None\<rparr> 0
     (new_manifest (u ''master'') (u ''releases'') (digest []) (u ''tree'') (u ''2024'') (u ''2024''))"

definition small_world :: "int run_world" where
  "small_world = \<lparr>rw_core = name_core, rw_text = plain_rules\<lparr>tr_sha256 := digest\<rparr>,
     rw_clock = (\<lambda>s. if s = [] then None else Some (Aware 0)),
     rw_files = \<lparr>sf_normalize = (\<lambda>p. Inr (u ''/'' @ p)), sf_inspect = (\<lambda>p. Inr 0), sf_first_record = (\<lambda>p. None),
       sf_fingerprint = (\<lambda>p. Inr (digest p)), sf_mtime_text = (\<lambda>t. u ''2024'')\<rparr>,
     rw_load = (\<lambda>paths. Inr [\<lparr>so_path = u ''master'', so_records = old_records, so_pointer_items = []\<rparr>,
       \<lparr>so_path = u ''/site'', so_records = [text_record [''0 @I1_2@ INDI'', ''1 NAME Bo /Dahl/''] ''/site''], so_pointer_items = []\<rparr>]),
     rw_records = (\<lambda>p. Inr (if p = u ''master'' then new_records else old_records)),
     rw_manifest = (\<lambda>p. Inr small_manifest),
     rw_artifact = (\<lambda>p. Map.empty), rw_verify = Inr (), rw_quality = (\<lambda>ps rs root. Inr ([], [])), rw_tree_id = u ''tree'',
     rw_created_at = u ''2024'', rw_updated_at = u ''2024'', rw_stamp = u ''2024'', rw_observed_at = (\<lambda>spec. u ''2024''), rw_publish = (\<lambda>b. Inr ())\<rparr>"

definition small_rebase :: rebase_command where
  "small_rebase = \<lparr>bc_master = u ''master'', bc_manifest = u ''manifest'', bc_release_root = u ''releases'', bc_reason = u ''by hand'',
     bc_accept_deletions = True, bc_dry_run = False\<rparr>"




lemma small_world_ok: "world_ok small_world"
  by (simp add: world_ok_def small_world_def sha_of_def digest_is_sha is_aware_def u_def plain_rules_def)

lemma small_manifest_valid: "validate_manifest (rw_clock small_world) small_manifest = Inr ()"
  by code_simp

lemma small_manifests_ok: "manifests_ok small_world"
proof -
  have m: "number_at (u ''generation'') small_manifest = 1 \<and> list_all (\<lambda>r. release_time (rw_clock small_world) r = Inr 0) (list_at (u ''releases'') small_manifest)"
    by code_simp
  have "rw_manifest small_world p = Inr d \<Longrightarrow> d = small_manifest" "rw_clock small_world (rw_updated_at small_world) = Some (Aware 0)" for p d
    by (simp_all add: small_world_def u_def)
  then show ?thesis using m by (fastforce simp: manifests_ok_def list_all_iff)
qed

lemma small_people_named:
  shows "rw_load small_world paths = Inr sources \<Longrightarrow> s \<in> set sources \<Longrightarrow> people_named (so_records s)"
  and "rw_records small_world path = Inr records \<Longrightarrow> people_named records"
proof -
  have p: "record_pointer (hd old_records) = Inr (u ''@I1@'')" "record_pointer (hd new_records) = Inr (u ''@I1@'')"
    "record_pointer (text_record [''0 @I1_2@ INDI'', ''1 NAME Bo /Dahl/''] ''/site'') = Inr (u ''@I1_2@'')" by code_simp+
  then show "rw_load small_world paths = Inr sources \<Longrightarrow> s \<in> set sources \<Longrightarrow> people_named (so_records s)"
    by (auto simp: small_world_def old_records_def people_named_def u_def)
  from p show "rw_records small_world path = Inr records \<Longrightarrow> people_named records"
    by (auto simp: small_world_def old_records_def new_records_def people_named_def u_def split: if_splits)
qed

text \<open>The update of the example, whether dry or real.\<close>

definition site_spec :: snapshot_spec where
  "site_spec = \<lparr>sn_source_id = u ''geni'', sn_vendor = u ''geni'', sn_path = u ''/site'', sn_exported_at = u ''2024'',
     sn_date_basis = u ''file-mtime'', sn_sha256 = digest (u ''/site'')\<rparr>"

definition small_start :: jobject where
  "small_start = new_manifest (u ''master'') (u ''releases'') (digest (u ''master'')) (u ''tree'') (u ''2024'') (u ''2024'')"

definition loaded_sources :: "sync_source list" where
  "loaded_sources = (case rw_load small_world [] of Inr sources \<Rightarrow> sources | Inl e \<Rightarrow> [])"

lemma world_of_example: "sf_fingerprint (rw_files small_world) p = Inr (digest p)" "rw_verify small_world = Inr ()"
    "rw_publish small_world b = Inr ()" "rw_load small_world paths = Inr loaded_sources"
    "rw_records small_world p = Inr (if p = u ''master'' then new_records else old_records)"
  by (simp_all add: small_world_def loaded_sources_def)

lemma small_draft:
  obtains dr master where "draft_update small_world small_command small_start [site_spec] loaded_sources = Inr dr"
    "render_gedcom (ud_people dr) [ud_records dr] (ud_pointer_map dr) None None (u ''5.5.1'') = Inr master"
proof -
  have "case draft_update small_world small_command small_start [site_spec] loaded_sources of Inl e \<Rightarrow> False
    | Inr dr \<Rightarrow> (case render_gedcom (ud_people dr) [ud_records dr] (ud_pointer_map dr) None None (u ''5.5.1'') of Inl e \<Rightarrow> False | Inr m \<Rightarrow> True)"
    by code_simp
  then show thesis using that by (auto split: sum.splits)
qed

lemma small_update: "\<exists>r. perform_update small_world (small_command\<lparr>uc_dry_run := dry\<rparr>) = Inr r \<and> (\<not> dry \<longrightarrow> (\<exists>bundle. er_release r = Some bundle))"
proof -
  let ?c = "small_command\<lparr>uc_dry_run := dry\<rparr>"
  have specs: "snapshot_specs (rw_text small_world) (rw_clock small_world) (rw_files small_world) (uc_snapshots small_command) = Inr [site_spec]"
    by code_simp
  have start: "validate_snapshot_continuity small_start [site_spec] = Inr () \<and> \<not> already_active small_start site_spec" by code_simp
  have opened: "opening_manifest small_world ?c (digest (u ''master'')) = Inr (small_start, None)"
    by (simp add: opening_manifest_def small_command_def small_world_def small_start_def)
  have command: "check_update_command ?c = Inr ()" "uc_master small_command = u ''master''" "uc_gedcom_version small_command = u ''5.5.1''"
    by (simp_all add: check_update_command_def small_command_def guardE_def)
  obtain dr master where dr: "draft_update small_world small_command small_start [site_spec] loaded_sources = Inr dr"
    "render_gedcom (ud_people dr) [ud_records dr] (ud_pointer_map dr) None None (u ''5.5.1'') = Inr master" by (rule small_draft)
  have quality: "\<exists>q. quality_text small_world ?c dr = Inr q" by (simp add: quality_text_def small_command_def)
  then show ?thesis
    using specs start opened dr
    by (auto simp: perform_update_def run_update_def update_bundle_def world_of_example command ingressE_def coreE_def loadE_def drafted_same Let_def)
qed





end
