(* ===== verification/Kernel_Plan.thy ===== *)
theory Kernel_Plan
  imports Kernel_Contracts "HOL-Library.Multiset"
begin

text \<open>
  The content-addressed plan of \<open>gedcom/sync_kernel.py\<close>, its loss report, and the values of the later
  stages: staged applications, publications, recovery, events and the result with its contract.
\<close>

section \<open>Plan entries and losses\<close>

record plan_entry =
  pe_action_id :: ustr
  pe_sequence :: nat
  pe_delta :: sync_delta

definition check_entry :: "plan_entry \<Rightarrow> kernel_fault + unit" where
  "check_entry e =
     bindE (validate_ref (u ''action_id'') (pe_action_id e)) (\<lambda>_.
     bindE (validate_count (u ''sequence'') (int (pe_sequence e))) (\<lambda>_.
     bindE (validate_ref (u ''subject_ref'') (dl_subject (pe_delta e))) (\<lambda>_.
     bindE (check_some (validate_sha256 (u ''before_sha256'')) (dl_before (pe_delta e))) (\<lambda>_.
     bindE (check_some (validate_sha256 (u ''after_sha256'')) (dl_after (pe_delta e))) (\<lambda>_.
     bindE (demand (\<not> (dl_before (pe_delta e) = None \<and> dl_after (pe_delta e) = None))
       (u ''A plan entry must identify at least one side.'')) (\<lambda>_.
     bindE (demand (dl_provenance (pe_delta e) = sort (remdups (dl_provenance (pe_delta e))))
       (u ''provenance_refs must be unique and deterministically ordered.'')) (\<lambda>_.
     bindE (demand (length (dl_provenance (pe_delta e)) \<le> max_items) (u ''provenance_refs exceeds its bounded size.'')) (\<lambda>_.
     every (validate_ref (u ''provenance_ref'')) (dl_provenance (pe_delta e))))))))))"

definition json_entry :: "plan_entry \<Rightarrow> json" where
  "json_entry e = JObj [(u ''action_id'', JStr (pe_action_id e)), (u ''sequence'', JNumber (int (pe_sequence e))),
     (u ''subject_ref'', JStr (dl_subject (pe_delta e))), (u ''kind'', JStr (kind_value (dl_kind (pe_delta e)))),
     (u ''before_sha256'', json_opt JStr (dl_before (pe_delta e))), (u ''after_sha256'', json_opt JStr (dl_after (pe_delta e))),
     (u ''provenance_refs'', json_refs (dl_provenance (pe_delta e)))]"

definition planned_entry :: "hash_rules \<Rightarrow> ustr \<Rightarrow> nat \<times> sync_delta \<Rightarrow> kernel_fault + plan_entry" where
  "planned_entry hr operation_id = (\<lambda>(sequence, d).
     let e = \<lparr>pe_action_id = action_id hr operation_id sequence d, pe_sequence = sequence, pe_delta = d\<rparr> in
     bindE (check_entry e) (\<lambda>_. Inr e))"

record loss_entry =
  ls_code :: ustr
  ls_count :: int
  ls_subjects :: "ustr list"

definition check_loss :: "loss_entry \<Rightarrow> kernel_fault + unit" where
  "check_loss l =
     bindE (check_code (u ''loss_code'') (ls_code l)) (\<lambda>_.
     bindE (validate_count (u ''item_count'') (ls_count l)) (\<lambda>_.
     bindE (demand (ls_count l \<noteq> 0) (u ''A loss entry must report at least one item.'')) (\<lambda>_.
     check_refs (u ''subject_refs'') (u ''subject_ref'') (ls_subjects l))))"

definition json_loss :: "loss_entry \<Rightarrow> json" where
  "json_loss l = JObj [(u ''loss_code'', JStr (ls_code l)), (u ''item_count'', JNumber (ls_count l)),
     (u ''subject_refs'', json_refs (ls_subjects l))]"

definition loss_key :: "loss_entry \<Rightarrow> ustr \<times> ustr list" where
  "loss_key l = (ls_code l, ls_subjects l)"

definition check_losses :: "loss_entry list \<Rightarrow> kernel_fault + unit" where
  "check_losses ls =
     bindE (demand (length ls \<le> max_items) (u ''Loss report exceeds its bounded size.'')) (\<lambda>_.
     demand (map loss_key ls = sort (map loss_key ls) \<and> distinct (map loss_key ls))
       (u ''Loss entries must be aggregated and deterministically ordered.''))"

definition add_loss :: "loss_entry \<Rightarrow> ((ustr \<times> ustr list) \<times> int) list \<Rightarrow> ((ustr \<times> ustr list) \<times> int) list" where
  "add_loss l totals = AList.update (loss_key l)
     ((case map_of totals (loss_key l) of None \<Rightarrow> 0 | Some n \<Rightarrow> n) + ls_count l) totals"

definition total_loss :: "(ustr \<times> ustr list) \<times> int \<Rightarrow> kernel_fault + loss_entry" where
  "total_loss = (\<lambda>((code, subjects), n). let l = \<lparr>ls_code = code, ls_count = n, ls_subjects = subjects\<rparr> in
     bindE (check_loss l) (\<lambda>_. Inr l))"

definition create_losses :: "loss_entry list \<Rightarrow> kernel_fault + loss_entry list" where
  "create_losses ls =
     bindE (demand (length ls \<le> max_items) (u ''Loss report exceeds its bounded size.'')) (\<lambda>_.
     bindE (mapE total_loss (sort (fold add_loss ls []))) (\<lambda>entries.
     bindE (check_losses entries) (\<lambda>_. Inr entries)))"

section \<open>The plan\<close>

record planning_output =
  po_deltas :: "sync_delta list"
  po_decisions :: "decision_request list"
  po_losses :: "loss_entry list"

definition json_output :: "planning_output \<Rightarrow> json" where
  "json_output p = JObj [(u ''deltas'', JList (map json_delta (po_deltas p))),
     (u ''decisions'', JList (map json_decision (po_decisions p))), (u ''losses'', JList (map json_loss (po_losses p)))]"

definition check_output :: "planning_output \<Rightarrow> kernel_fault + unit" where
  "check_output p =
     bindE (demand (length (po_deltas p) \<le> max_items \<and> length (po_decisions p) \<le> max_items \<and> length (po_losses p) \<le> max_items)
       (u ''Planning output exceeds its bounded size.'')) (\<lambda>_.
     bindE (validate_serialized_size (json_output p)) (\<lambda>_. Inr ()))"

record sync_plan =
  pl_id :: ustr
  pl_operation_id :: ustr
  pl_options :: sync_options
  pl_fingerprint :: ustr
  pl_entries :: "plan_entry list"
  pl_decisions :: "decision_request list"
  pl_losses :: "loss_entry list"

definition plan_content :: "sync_plan \<Rightarrow> (ustr \<times> json) list" where
  "plan_content p = [(u ''operation_id'', JStr (pl_operation_id p)), (u ''options'', json_options (pl_options p)),
     (u ''input_fingerprint'', JStr (pl_fingerprint p)), (u ''entries'', JList (map json_entry (pl_entries p))),
     (u ''decisions'', JList (map json_decision (pl_decisions p))),
     (u ''loss_report'', JObj [(u ''entries'', JList (map json_loss (pl_losses p)))])]"

definition expected_plan_id :: "hash_rules \<Rightarrow> sync_plan \<Rightarrow> ustr" where
  "expected_plan_id hr p = u ''plan:'' @ digest hr (JObj (plan_content p))"

definition check_action :: "hash_rules \<Rightarrow> ustr \<Rightarrow> plan_entry \<Rightarrow> kernel_fault + unit" where
  "check_action hr operation_id e =
     bindE (check_delta (pe_delta e)) (\<lambda>_.
     demand (pe_action_id e = action_id hr operation_id (pe_sequence e) (pe_delta e))
       (u ''action_id does not match the deterministic plan action content.''))"

definition check_plan :: "hash_rules \<Rightarrow> sync_plan \<Rightarrow> kernel_fault + unit" where
  "check_plan hr p =
     bindE (validate_ref (u ''plan_id'') (pl_id p)) (\<lambda>_.
     bindE (validate_ref (u ''operation_id'') (pl_operation_id p)) (\<lambda>_.
     bindE (validate_sha256 (u ''input_fingerprint'') (pl_fingerprint p)) (\<lambda>_.
     bindE (demand (length (pl_entries p) \<le> max_items \<and> length (pl_decisions p) \<le> max_items)
       (u ''Sync plan exceeds its bounded size.'')) (\<lambda>_.
     bindE (demand (map pe_sequence (pl_entries p) = [0..<length (pl_entries p)])
       (u ''Plan entries must have contiguous deterministic sequence values.'')) (\<lambda>_.
     bindE (every (check_action hr (pl_operation_id p)) (pl_entries p)) (\<lambda>_.
     bindE (demand (pl_decisions p = sort_key dr_id (pl_decisions p)) (u ''Plan decisions must be deterministically ordered.'')) (\<lambda>_.
     bindE (demand (distinct (map dr_id (pl_decisions p))) (u ''Plan decision IDs must be unique.'')) (\<lambda>_.
     bindE (demand (pl_id p = expected_plan_id hr p) (u ''plan_id does not match the deterministic plan content.'')) (\<lambda>_.
     bindE (validate_serialized_size (JObj ((u ''plan_id'', JStr (pl_id p)) # plan_content p))) (\<lambda>_. Inr ()))))))))))"

definition create_plan :: "hash_rules \<Rightarrow> ustr \<Rightarrow> sync_options \<Rightarrow> ustr \<Rightarrow> planning_output \<Rightarrow> kernel_fault + sync_plan" where
  "create_plan hr operation_id options fingerprint output =
     bindE (mapE (planned_entry hr operation_id) (enumerate 0 (sort_key delta_sort_key (po_deltas output)))) (\<lambda>entries.
     let decisions = sort_key dr_id (po_decisions output) in
     bindE (create_losses (po_losses output)) (\<lambda>losses.
     let provisional = \<lparr>pl_id = u ''plan:pending'', pl_operation_id = operation_id, pl_options = options,
           pl_fingerprint = fingerprint, pl_entries = entries, pl_decisions = decisions, pl_losses = losses\<rparr>;
         p = provisional\<lparr>pl_id := expected_plan_id hr provisional\<rparr> in
     bindE (check_plan hr p) (\<lambda>_. Inr p)))"

section \<open>The values of the later stages\<close>

record staged_application =
  sa_ref :: ustr
  sa_plan_id :: ustr
  sa_artifacts :: "ustr list"

definition check_artifacts :: "ustr \<Rightarrow> ustr \<Rightarrow> ustr \<Rightarrow> ustr list \<Rightarrow> kernel_fault + unit" where
  "check_artifacts label ref plan_id artifacts =
     bindE (validate_ref label ref) (\<lambda>_.
     bindE (validate_ref (u ''plan_id'') plan_id) (\<lambda>_.
     check_refs (u ''artifact_refs'') (u ''artifact_ref'') artifacts))"

definition check_staged :: "staged_application \<Rightarrow> kernel_fault + unit" where
  "check_staged s = check_artifacts (u ''staging_ref'') (sa_ref s) (sa_plan_id s) (sa_artifacts s)"

record sync_publication =
  pb_ref :: ustr
  pb_plan_id :: ustr
  pb_artifacts :: "ustr list"

definition check_publication :: "sync_publication \<Rightarrow> kernel_fault + unit" where
  "check_publication p = check_artifacts (u ''revision_ref'') (pb_ref p) (pb_plan_id p) (pb_artifacts p)"

record recovery_context =
  rx_operation_id :: ustr
  rx_stage :: sync_stage
  rx_code :: ustr
  rx_state_ref :: "ustr option"
  rx_plan_id :: "ustr option"
  rx_staging_ref :: "ustr option"

definition check_context :: "recovery_context \<Rightarrow> kernel_fault + unit" where
  "check_context c =
     bindE (validate_ref (u ''operation_id'') (rx_operation_id c)) (\<lambda>_.
     bindE (check_code (u ''error_code'') (rx_code c)) (\<lambda>_.
     bindE (check_some (validate_ref (u ''state_ref'')) (rx_state_ref c)) (\<lambda>_.
     bindE (check_some (validate_ref (u ''plan_id'')) (rx_plan_id c)) (\<lambda>_.
     check_some (validate_ref (u ''staging_ref'')) (rx_staging_ref c)))))"

record recovery_metadata =
  rm_ref :: ustr
  rm_prior_preserved :: bool
  rm_staged_removed :: bool
  rm_code :: ustr

definition check_recovery :: "recovery_metadata \<Rightarrow> kernel_fault + unit" where
  "check_recovery m = bindE (validate_ref (u ''recovery_ref'') (rm_ref m)) (\<lambda>_. check_code (u ''recovery_code'') (rm_code m))"

record sync_event =
  ev_operation_id :: ustr
  ev_sequence :: nat
  ev_stage :: sync_stage
  ev_phase :: event_phase
  ev_count :: int
  ev_code :: ustr

definition check_sync_event :: "sync_event \<Rightarrow> kernel_fault + unit" where
  "check_sync_event e =
     bindE (validate_ref (u ''operation_id'') (ev_operation_id e)) (\<lambda>_.
     bindE (demand (ev_sequence e < max_events) (u ''Event sequence is outside its bounded range.'')) (\<lambda>_.
     bindE (validate_count (u ''item_count'') (ev_count e)) (\<lambda>_.
     check_code (u ''code'') (ev_code e))))"

record kernel_result =
  kr_operation_id :: ustr
  kr_outcome :: sync_outcome
  kr_plan :: "sync_plan option"
  kr_decisions :: "selection list"
  kr_publication :: "sync_publication option"
  kr_recovery :: "recovery_metadata option"
  kr_error_code :: "ustr option"
  kr_failed_stage :: "sync_stage option"
  kr_events :: "sync_event list"

text \<open>The contract of a result, in the three groups of its checks.\<close>

definition check_chosen :: "sync_plan \<Rightarrow> selection \<Rightarrow> kernel_fault + unit" where
  "check_chosen p s = (case map_of (rev (map (\<lambda>d. (dr_id d, dr_options d)) (pl_decisions p))) (ds_decision s) of
       None \<Rightarrow> Inl (ValueFault (u ''Result contains an undeclared decision.''))
     | Some options \<Rightarrow>
        bindE (demand (ds_option s \<in> set options) (u ''Result contains an invalid decision option.'')) (\<lambda>_.
        demand (ds_plan s = Some (pl_id p)) (u ''Result decision does not match the result plan.'')))"

definition check_result_decisions :: "kernel_result \<Rightarrow> kernel_fault + unit" where
  "check_result_decisions r =
     bindE (validate_ref (u ''operation_id'') (kr_operation_id r)) (\<lambda>_.
     bindE (demand (case kr_plan r of None \<Rightarrow> True | Some p \<Rightarrow> pl_operation_id p = kr_operation_id r)
       (u ''Result plan does not belong to this operation.'')) (\<lambda>_.
     bindE (demand (length (kr_decisions r) \<le> max_items) (u ''Result decisions exceed their bounded size.'')) (\<lambda>_.
     bindE (demand (kr_decisions r = sort_key ds_decision (kr_decisions r)) (u ''Result decisions must be deterministically ordered.'')) (\<lambda>_.
     bindE (demand (distinct (map ds_decision (kr_decisions r))) (u ''Result decision IDs must be unique.'')) (\<lambda>_.
     case kr_plan r of None \<Rightarrow> Inr () | Some p \<Rightarrow> every (check_chosen p) (kr_decisions r))))))"

definition check_result_events :: "kernel_result \<Rightarrow> kernel_fault + unit" where
  "check_result_events r =
     bindE (demand (length (kr_events r) \<le> max_events) (u ''Result events exceed their bounded size.'')) (\<lambda>_.
     bindE (demand (map ev_sequence (kr_events r) = [0..<length (kr_events r)])
       (u ''Result events must have contiguous sequence values.'')) (\<lambda>_.
     bindE (demand (list_all (\<lambda>e. ev_operation_id e = kr_operation_id r) (kr_events r))
       (u ''Result event does not belong to this operation.'')) (\<lambda>_.
     check_some (check_code (u ''error_code'')) (kr_error_code r))))"

definition no_failure :: "kernel_result \<Rightarrow> bool" where
  "no_failure r \<longleftrightarrow> kr_recovery r = None \<and> kr_error_code r = None \<and> kr_failed_stage r = None"

definition check_result_publication :: "kernel_result \<Rightarrow> kernel_fault + unit" where
  "check_result_publication r = (if kr_outcome r = Committed
     then (case (kr_plan r, kr_publication r) of
         (Some p, Some pub) \<Rightarrow>
           bindE (demand (map ds_decision (kr_decisions r) = map dr_id (pl_decisions p))
             (u ''Committed results require every declared decision selection.'')) (\<lambda>_.
           bindE (demand (pb_plan_id pub = pl_id p) (u ''Committed publication does not match the result plan.'')) (\<lambda>_.
           demand (no_failure r) (u ''Committed results cannot contain failure metadata.'')))
       | _ \<Rightarrow> Inl (ValueFault (u ''Committed results require a plan and publication.'')))
     else demand (kr_publication r = None) (u ''Only committed results may contain a publication.''))"

definition check_result_failure :: "kernel_result \<Rightarrow> kernel_fault + unit" where
  "check_result_failure r =
     bindE (if kr_outcome r \<in> {Cancelled_Run, Failed_Run}
       then demand (kr_error_code r \<noteq> None \<and> kr_failed_stage r \<noteq> None) (u ''Failed results require coded stage metadata.'')
       else demand (no_failure r) (u ''Successful non-publication results cannot contain failure metadata.'')) (\<lambda>_.
     bindE (demand (\<not> (kr_outcome r \<in> {Dry_Run, No_Change} \<and> (kr_plan r = None \<or> kr_decisions r \<noteq> [])))
       (u ''Non-publication success requires an undecided plan.'')) (\<lambda>_.
     demand (\<not> (kr_outcome r = No_Change \<and> (case kr_plan r of None \<Rightarrow> False | Some p \<Rightarrow> pl_entries p \<noteq> [] \<or> pl_decisions p \<noteq> [])))
       (u ''No-change results require an empty plan.'')))"

definition check_result :: "kernel_result \<Rightarrow> kernel_fault + unit" where
  "check_result r =
     bindE (check_result_decisions r) (\<lambda>_. bindE (check_result_events r) (\<lambda>_.
     bindE (check_result_publication r) (\<lambda>_. check_result_failure r)))"

section \<open>A plan does not depend on the order of its inputs\<close>

lemma kind_value_inject [simp]: "kind_value a = kind_value b \<longleftrightarrow> a = b"
  by (cases a; cases b) (simp_all add: u_def)

lemma sha256_not_empty: "check_some (validate_sha256 label) v = Inr () \<Longrightarrow> v \<noteq> Some []"
  by (auto simp: check_some_def validate_sha256_def valid_sha256_def split: option.splits)

lemma delta_sort_key_inj: "inj_on delta_sort_key {d. check_delta d = Inr ()}"
proof (rule inj_onI)
  fix a b assume c: "a \<in> {d. check_delta d = Inr ()}" "b \<in> {d. check_delta d = Inr ()}" and k: "delta_sort_key a = delta_sort_key b"
  have inj: "text_or_empty v = text_or_empty w \<Longrightarrow> v \<noteq> Some [] \<Longrightarrow> w \<noteq> Some [] \<Longrightarrow> v = w" for v w
    by (auto simp: text_or_empty_def split: option.splits)
  from c have "dl_before a \<noteq> Some []" "dl_after a \<noteq> Some []" "dl_before b \<noteq> Some []" "dl_after b \<noteq> Some []"
    by (auto simp: check_delta_def bindE_Inr_iff dest: sha256_not_empty)
  moreover from k have "dl_kind a = dl_kind b" "dl_subject a = dl_subject b" "dl_provenance a = dl_provenance b"
    "text_or_empty (dl_before a) = text_or_empty (dl_before b)" "text_or_empty (dl_after a) = text_or_empty (dl_after b)"
    by (simp_all add: delta_sort_key_def)
  ultimately have "dl_before a = dl_before b" "dl_after a = dl_after b" by (simp_all add: inj)
  with \<open>dl_kind a = dl_kind b\<close> \<open>dl_subject a = dl_subject b\<close> \<open>dl_provenance a = dl_provenance b\<close>
  show "a = b" by simp
qed

lemma sort_key_mset_eq: "mset xs = mset ys \<Longrightarrow> inj_on f (set xs) \<Longrightarrow> sort_key f xs = sort_key f ys"
  by (rule sort_key_inj_key_eq) simp_all

definition key_total :: "loss_entry list \<Rightarrow> ustr \<times> ustr list \<Rightarrow> int" where
  "key_total ls k = sum_list (map ls_count (filter (\<lambda>l. loss_key l = k) ls))"

lemma add_loss_keys: "distinct (map fst t) \<Longrightarrow> distinct (map fst (add_loss l t))"
  by (simp add: add_loss_def distinct_update)

lemma add_loss_lookup: "map_of (add_loss l t) k =
    (if k = loss_key l then Some ((case map_of t k of None \<Rightarrow> 0 | Some n \<Rightarrow> n) + ls_count l) else map_of t k)"
  by (simp add: add_loss_def update_conv')

lemma loss_totals:
  "distinct (map fst t) \<Longrightarrow> distinct (map fst (fold add_loss ls t)) \<and> map_of (fold add_loss ls t) k =
    (if k \<in> loss_key ` set ls then Some ((case map_of t k of None \<Rightarrow> 0 | Some n \<Rightarrow> n) + key_total ls k) else map_of t k)"
proof (induction ls arbitrary: t)
  case Nil
  then show ?case by simp
next
  case (Cons l ls)
  have "key_total ls k = 0" if "k \<notin> loss_key ` set ls"
  proof -
    from that have "filter (\<lambda>l. loss_key l = k) ls = []" by (auto simp: filter_empty_conv)
    then show ?thesis by (simp add: key_total_def)
  qed
  moreover have "key_total (l # ls) k = (if loss_key l = k then ls_count l else 0) + key_total ls k"
    by (simp add: key_total_def)
  ultimately show ?case using Cons.IH [OF add_loss_keys [OF Cons.prems], of l]
    by (auto simp: add_loss_lookup)
qed

lemma create_losses_order:
  assumes "mset ls = mset ls'"
  shows "create_losses ls = create_losses ls'"
proof -
  let ?t = "fold add_loss ls []" and ?t' = "fold add_loss ls' []"
  have "set ls = set ls'" "length ls = length ls'" using assms by (metis mset_eq_setD, metis mset_eq_length)
  moreover have "key_total ls k = key_total ls' k" for k
  proof -
    have "mset (map ls_count (filter (\<lambda>l. loss_key l = k) ls)) = mset (map ls_count (filter (\<lambda>l. loss_key l = k) ls'))"
      using assms by simp
    then show ?thesis unfolding key_total_def by (metis sum_mset_sum_list)
  qed
  ultimately have same: "map_of ?t = map_of ?t'" by (intro ext) (simp add: loss_totals)
  have d: "distinct (map fst ?t)" "distinct (map fst ?t')" by (simp_all add: loss_totals)
  have "set ?t = set ?t'"
  proof (intro set_eqI)
    fix x :: "(ustr \<times> ustr list) \<times> int"
    show "x \<in> set ?t \<longleftrightarrow> x \<in> set ?t'"
      using map_of_eq_Some_iff [OF d(1), of "fst x" "snd x"] map_of_eq_Some_iff [OF d(2), of "fst x" "snd x"] same by simp
  qed
  moreover have "distinct ?t" "distinct ?t'" using d by (simp_all add: distinct_map)
  ultimately have "mset ?t = mset ?t'" by (simp add: set_eq_iff_mset_eq_distinct)
  then have "sort ?t = sort ?t'" by (intro sort_key_mset_eq) simp_all
  then show ?thesis using \<open>length ls = length ls'\<close> by (simp add: create_losses_def)
qed

lemma create_plan_distinct: "create_plan hr operation_id options fingerprint output = Inr p \<Longrightarrow> distinct (map dr_id (po_decisions output))"
proof -
  assume "create_plan hr operation_id options fingerprint output = Inr p"
  then have "distinct (map dr_id (sort_key dr_id (po_decisions output)))"
    by (auto simp: create_plan_def check_plan_def bindE_Inr_iff Let_def)
  then show ?thesis by (metis distinct_map mset_eq_imp_distinct_iff mset_map mset_sort)
qed

lemma create_plan_order:
  assumes "mset (po_deltas a) = mset (po_deltas b)" and "mset (po_decisions a) = mset (po_decisions b)"
    and "mset (po_losses a) = mset (po_losses b)" and "\<forall>d \<in> set (po_deltas a). check_delta d = Inr ()"
    and "distinct (map dr_id (po_decisions a))"
  shows "create_plan hr operation_id options fingerprint a = create_plan hr operation_id options fingerprint b"
proof -
  have "sort_key delta_sort_key (po_deltas a) = sort_key delta_sort_key (po_deltas b)"
    by (rule sort_key_mset_eq [OF assms(1)]) (use delta_sort_key_inj assms(4) in \<open>auto elim: inj_on_subset\<close>)
  moreover have "sort_key dr_id (po_decisions a) = sort_key dr_id (po_decisions b)"
    by (rule sort_key_mset_eq [OF assms(2)]) (use assms(5) in \<open>simp add: distinct_map\<close>)
  ultimately show ?thesis using create_losses_order [OF assms(3)] by (simp add: create_plan_def)
qed

text \<open>C40: A plan does not depend on the order in which a planning adapter lists its deltas, decisions and losses:
  the same deltas, decisions and losses give the same plan, identity included, or no plan.\<close>

theorem plan_is_order_free:
  assumes "mset (po_deltas a) = mset (po_deltas b)" and "mset (po_decisions a) = mset (po_decisions b)"
    and "mset (po_losses a) = mset (po_losses b)" and "\<forall>d \<in> set (po_deltas a). check_delta d = Inr ()"
  shows "create_plan hr operation_id options fingerprint a = Inr p \<longleftrightarrow> create_plan hr operation_id options fingerprint b = Inr p"
proof (cases "distinct (map dr_id (po_decisions a))")
  case True
  then show ?thesis using create_plan_order [OF assms] by simp
next
  case False
  moreover have "distinct (map dr_id (po_decisions a)) = distinct (map dr_id (po_decisions b))"
    using assms(2) by (metis mset_eq_imp_distinct_iff mset_map)
  ultimately show ?thesis using create_plan_distinct by blast
qed

text \<open>Two deltas in both orders.\<close>

definition demo_rules :: hash_rules where
  "demo_rules = \<lparr>hr_sha256 = (\<lambda>_. replicate 64 97), hr_alnum = (\<lambda>c. is_alpha c \<or> is_digit c)\<rparr>"

definition demo_delta :: sync_delta where
  "demo_delta = \<lparr>dl_subject = u ''person-1'', dl_kind = Create_Change, dl_before = None, dl_after = Some (replicate 64 99),
     dl_provenance = [u ''source-1'']\<rparr>"

definition demo_output :: "sync_delta list \<Rightarrow> planning_output" where
  "demo_output ds = \<lparr>po_deltas = ds, po_decisions = [], po_losses = []\<rparr>"

definition demo_options :: sync_options where
  "demo_options = \<lparr>op_operation = Update_Operation, op_initialize = True, op_dry_run = False, op_accept_deletions = False,
     op_version = u ''5.5.5''\<rparr>"

lemma plan_is_order_free_witness:
  "\<exists>p. create_plan demo_rules (u ''op-1'') demo_options (replicate 64 97) (demo_output [demo_delta, demo_delta\<lparr>dl_subject := u ''a''\<rparr>]) = Inr p
     \<and> create_plan demo_rules (u ''op-1'') demo_options (replicate 64 97) (demo_output [demo_delta\<lparr>dl_subject := u ''a''\<rparr>, demo_delta]) = Inr p"
proof -
  let ?a = "demo_output [demo_delta, demo_delta\<lparr>dl_subject := u ''a''\<rparr>]"
  let ?b = "demo_output [demo_delta\<lparr>dl_subject := u ''a''\<rparr>, demo_delta]"
  have "check_delta demo_delta = Inr ()" "check_delta (demo_delta\<lparr>dl_subject := u ''a''\<rparr>) = Inr ()" by code_simp+
  then have checked: "\<forall>d \<in> set (po_deltas ?a). check_delta d = Inr ()" by (simp add: demo_output_def)
  have same: "mset (po_deltas ?a) = mset (po_deltas ?b)" "mset (po_decisions ?a) = mset (po_decisions ?b)"
    "mset (po_losses ?a) = mset (po_losses ?b)" by (simp_all add: demo_output_def)
  have "case create_plan demo_rules (u ''op-1'') demo_options (replicate 64 97) ?a of Inl _ \<Rightarrow> False | Inr p \<Rightarrow> True" by code_simp
  then obtain p where "create_plan demo_rules (u ''op-1'') demo_options (replicate 64 97) ?a = Inr p" by (auto split: sum.splits)
  with plan_is_order_free [OF same checked] show ?thesis by blast
qed

end
