(* ===== verification/Kernel_Run.thy ===== *)
theory Kernel_Run
  imports Kernel_Plan
begin

text \<open>
  \<open>SyncKernel\<close> of \<open>gedcom/sync_kernel.py\<close>: the coordinator that drives the stage adapters. The adapters
  are arguments. What an adapter answers may depend on every call made before, so its state is the
  history of the calls; the history also says which calls raised.
\<close>

section \<open>Adapters and their calls\<close>

datatype adapter_call = Capture_Call | Compare_Call | Plan_Call | Decide_Call decision_request
  | Stage_Call sync_plan "selection list" | Prepare_Call staged_application
  | Commit_Call staged_application sync_publication | Recover_Call recovery_context | Emit_Call sync_event | Check_Call

type_synonym history = "(adapter_call \<times> kernel_fault option) list"

record adapters =
  ad_capture :: "history \<Rightarrow> sync_request \<Rightarrow> kernel_fault + snapshot_state"
  ad_compare :: "history \<Rightarrow> snapshot_state \<Rightarrow> sync_options \<Rightarrow> kernel_fault + sync_delta list"
  ad_plan :: "history \<Rightarrow> snapshot_state \<Rightarrow> sync_delta list \<Rightarrow> sync_options \<Rightarrow> kernel_fault + planning_output"
  ad_decide :: "history \<Rightarrow> decision_request \<Rightarrow> kernel_fault + selection"
  ad_stage :: "history \<Rightarrow> snapshot_state \<Rightarrow> sync_plan \<Rightarrow> selection list \<Rightarrow> kernel_fault + staged_application"
  ad_prepare :: "history \<Rightarrow> staged_application \<Rightarrow> kernel_fault + sync_publication"
  ad_commit :: "history \<Rightarrow> staged_application \<Rightarrow> sync_publication \<Rightarrow> kernel_fault + unit"
  ad_recover :: "history \<Rightarrow> recovery_context \<Rightarrow> kernel_fault + recovery_metadata"
  ad_check :: "history \<Rightarrow> kernel_fault + unit"
  ad_emit :: "history \<Rightarrow> sync_event \<Rightarrow> kernel_fault + unit"

text \<open>The local variables of one execution, with the history of the adapters.\<close>

record kernel_run =
  kn_history :: history
  kn_recorded :: "sync_event list"
  kn_snapshot :: "snapshot_state option"
  kn_plan :: "sync_plan option"
  kn_staged :: "staged_application option"
  kn_selected :: "selection list"
  kn_attempted :: bool
  kn_stage :: sync_stage

definition start_run :: kernel_run where
  "start_run = \<lparr>kn_history = [], kn_recorded = [], kn_snapshot = None, kn_plan = None, kn_staged = None,
     kn_selected = [], kn_attempted = False, kn_stage = Snapshot_Stage\<rparr>"

section \<open>Steps\<close>

type_synonym 'a step = "kernel_run \<Rightarrow> (kernel_fault + 'a) \<times> kernel_run"

definition returnK :: "'a \<Rightarrow> 'a step" where
  "returnK x = (\<lambda>s. (Inr x, s))"

definition raiseK :: "kernel_fault \<Rightarrow> 'a step" where
  "raiseK e = (\<lambda>s. (Inl e, s))"

definition bindK :: "'a step \<Rightarrow> ('a \<Rightarrow> 'b step) \<Rightarrow> 'b step" where
  "bindK m f = (\<lambda>s. case m s of (Inl e, s') \<Rightarrow> (Inl e, s') | (Inr x, s') \<Rightarrow> f x s')"

definition handleK :: "'a step \<Rightarrow> (kernel_fault \<Rightarrow> 'a step) \<Rightarrow> 'a step" where
  "handleK m h = (\<lambda>s. case m s of (Inl e, s') \<Rightarrow> h e s' | (Inr x, s') \<Rightarrow> (Inr x, s'))"

definition getK :: "(kernel_run \<Rightarrow> 'a) \<Rightarrow> 'a step" where
  "getK f = (\<lambda>s. (Inr (f s), s))"

definition modifyK :: "(kernel_run \<Rightarrow> kernel_run) \<Rightarrow> unit step" where
  "modifyK f = (\<lambda>s. (Inr (), f s))"

definition liftK :: "kernel_fault + 'a \<Rightarrow> 'a step" where
  "liftK r = (\<lambda>s. (r, s))"

definition requireK :: "bool \<Rightarrow> ustr \<Rightarrow> unit step" where
  "requireK b code = (if b then returnK () else raiseK (StageFault code))"

definition callK :: "adapter_call \<Rightarrow> (history \<Rightarrow> kernel_fault + 'a) \<Rightarrow> 'a step" where
  "callK c f = (\<lambda>s. let r = f (kn_history s) in
     (r, s\<lparr>kn_history := kn_history s @ [(c, case r of Inl e \<Rightarrow> Some e | Inr _ \<Rightarrow> None)]\<rparr>))"

definition enterK :: "sync_stage \<Rightarrow> unit step" where
  "enterK stage = modifyK (\<lambda>s. s\<lparr>kn_stage := stage\<rparr>)"

definition checkpointK :: "adapters \<Rightarrow> unit step" where
  "checkpointK ad = callK Check_Call (ad_check ad)"

section \<open>Events\<close>

definition event_at :: "sync_request \<Rightarrow> nat \<Rightarrow> sync_stage \<Rightarrow> event_phase \<Rightarrow> ustr \<Rightarrow> nat \<Rightarrow> sync_event" where
  "event_at req sequence stage phase code items = \<lparr>ev_operation_id = rq_operation_id req, ev_sequence = sequence,
     ev_stage = stage, ev_phase = phase, ev_count = int items, ev_code = code\<rparr>"

definition recordK :: "sync_event \<Rightarrow> unit step" where
  "recordK e = modifyK (\<lambda>s. s\<lparr>kn_recorded := kn_recorded s @ [e]\<rparr>)"

definition emit_failed :: "bool \<Rightarrow> kernel_fault \<Rightarrow> unit step" where
  "emit_failed tolerate e = (if tolerate then returnK ()
     else case e of StageFault c \<Rightarrow> raiseK e | CancelFault \<Rightarrow> raiseK e | _ \<Rightarrow> raiseK (StageFault (u ''SYNC_EVENT_FAILED'')))"

definition emitK :: "adapters \<Rightarrow> sync_request \<Rightarrow> sync_stage \<Rightarrow> event_phase \<Rightarrow> ustr \<Rightarrow> nat \<Rightarrow> bool \<Rightarrow> unit step" where
  "emitK ad req stage phase code items tolerate =
     bindK (getK (\<lambda>s. length (kn_recorded s))) (\<lambda>n.
     if n \<ge> max_events then raiseK (StageFault (u ''SYNC_EVENT_LIMIT''))
     else
       let e = event_at req n stage phase code items in
       bindK (liftK (check_sync_event e)) (\<lambda>_. bindK (recordK e) (\<lambda>_.
       handleK (callK (Emit_Call e) (\<lambda>h. ad_emit ad h e)) (emit_failed tolerate))))"

section \<open>The stages\<close>

definition snapshot_stage :: "hash_rules \<Rightarrow> adapters \<Rightarrow> sync_request \<Rightarrow> snapshot_state step" where
  "snapshot_stage hr ad req =
     bindK (emitK ad req Snapshot_Stage Started_Phase (u ''SYNC_SNAPSHOT_STARTED'') 0 False) (\<lambda>_.
     bindK (checkpointK ad) (\<lambda>_.
     bindK (callK Capture_Call (\<lambda>h. ad_capture ad h req)) (\<lambda>st.
     bindK (modifyK (\<lambda>s. s\<lparr>kn_snapshot := Some st\<rparr>)) (\<lambda>_.
     bindK (requireK (st_master st = rq_master req \<and> st_manifest st = rq_manifest req \<and> st_snapshots st = rq_snapshots req)
       (u ''SYNC_SNAPSHOT_INPUT_MISMATCH'')) (\<lambda>_.
     bindK (requireK (st_fingerprint st = state_fingerprint hr st) (u ''SYNC_SNAPSHOT_FINGERPRINT_MISMATCH'')) (\<lambda>_.
     bindK (checkpointK ad) (\<lambda>_.
     bindK (emitK ad req Snapshot_Stage Completed_Phase (u ''SYNC_SNAPSHOT_COMPLETED'') 0 False) (\<lambda>_.
     returnK st))))))))"

definition comparison_stage :: "adapters \<Rightarrow> sync_request \<Rightarrow> snapshot_state \<Rightarrow> sync_delta list step" where
  "comparison_stage ad req st =
     bindK (enterK Comparison_Stage) (\<lambda>_.
     bindK (emitK ad req Comparison_Stage Started_Phase (u ''SYNC_COMPARISON_STARTED'') 0 False) (\<lambda>_.
     bindK (checkpointK ad) (\<lambda>_.
     bindK (callK Compare_Call (\<lambda>h. ad_compare ad h st (rq_options req))) (\<lambda>deltas.
     bindK (checkpointK ad) (\<lambda>_.
     bindK (emitK ad req Comparison_Stage Completed_Phase (u ''SYNC_COMPARISON_COMPLETED'') (length deltas) False) (\<lambda>_.
     returnK deltas))))))"

definition planning_stage :: "hash_rules \<Rightarrow> adapters \<Rightarrow> sync_request \<Rightarrow> snapshot_state \<Rightarrow> sync_delta list \<Rightarrow> sync_plan step" where
  "planning_stage hr ad req st deltas =
     bindK (enterK Planning_Stage) (\<lambda>_.
     bindK (emitK ad req Planning_Stage Started_Phase (u ''SYNC_PLANNING_STARTED'') 0 False) (\<lambda>_.
     bindK (checkpointK ad) (\<lambda>_.
     bindK (callK Plan_Call (\<lambda>h. ad_plan ad h st deltas (rq_options req))) (\<lambda>output.
     bindK (requireK (sort_key delta_sort_key (po_deltas output) = sort_key delta_sort_key deltas) (u ''SYNC_PLAN_DELTA_MISMATCH'')) (\<lambda>_.
     bindK (liftK (create_plan hr (rq_operation_id req) (rq_options req) (st_fingerprint st) output)) (\<lambda>plan.
     bindK (modifyK (\<lambda>s. s\<lparr>kn_plan := Some plan\<rparr>)) (\<lambda>_.
     bindK (checkpointK ad) (\<lambda>_.
     bindK (emitK ad req Planning_Stage Completed_Phase (u ''SYNC_PLANNING_COMPLETED'') (length (pl_entries plan)) False) (\<lambda>_.
     returnK plan)))))))))"

definition replayed_selection :: "sync_request \<Rightarrow> ustr \<Rightarrow> selection option" where
  "replayed_selection req decision = map_of (rev (map (\<lambda>s. (ds_decision s, s)) (rq_replayed req))) decision"

definition chosen_selection :: "sync_plan \<Rightarrow> selection \<Rightarrow> selection" where
  "chosen_selection plan s = s\<lparr>ds_plan := Some (pl_id plan)\<rparr>"

definition resolve_decision :: "hash_rules \<Rightarrow> adapters \<Rightarrow> sync_request \<Rightarrow> sync_plan \<Rightarrow> decision_request \<Rightarrow> unit step" where
  "resolve_decision hr ad req plan d =
     bindK (checkpointK ad) (\<lambda>_.
     bindK (case replayed_selection req (dr_id d) of Some s \<Rightarrow> returnK s
       | None \<Rightarrow> callK (Decide_Call d) (\<lambda>h. ad_decide ad h d)) (\<lambda>s.
     bindK (requireK (ds_decision s = dr_id d) (u ''SYNC_DECISION_ID_MISMATCH'')) (\<lambda>_.
     bindK (requireK (ds_option s \<in> set (dr_options d)) (u ''SYNC_DECISION_OPTION_INVALID'')) (\<lambda>_.
     bindK (requireK (ds_plan s = None \<or> ds_plan s = Some (pl_id plan)) (u ''SYNC_DECISION_PLAN_MISMATCH'')) (\<lambda>_.
     bindK (requireK (replayed_selection req (dr_id d) = None \<or> ds_plan s \<noteq> None) (u ''SYNC_DECISION_PLAN_MISMATCH'')) (\<lambda>_.
     bindK (liftK (check_selection hr (chosen_selection plan s))) (\<lambda>_.
     bindK (modifyK (\<lambda>k. k\<lparr>kn_selected := kn_selected k @ [chosen_selection plan s]\<rparr>)) (\<lambda>_.
     checkpointK ad))))))))"

fun resolve_each :: "(decision_request \<Rightarrow> unit step) \<Rightarrow> decision_request list \<Rightarrow> unit step" where
  "resolve_each f [] = returnK ()"
| "resolve_each f (d # ds) = bindK (f d) (\<lambda>_. resolve_each f ds)"

definition resolve_decisions :: "hash_rules \<Rightarrow> adapters \<Rightarrow> sync_request \<Rightarrow> sync_plan \<Rightarrow> unit step" where
  "resolve_decisions hr ad req plan =
     bindK (requireK (list_all (\<lambda>s. ds_decision s \<in> dr_id ` set (pl_decisions plan)) (rq_replayed req)) (u ''SYNC_DECISION_UNKNOWN'')) (\<lambda>_.
     resolve_each (resolve_decision hr ad req plan) (pl_decisions plan))"

definition decision_stage :: "hash_rules \<Rightarrow> adapters \<Rightarrow> sync_request \<Rightarrow> sync_plan \<Rightarrow> unit step" where
  "decision_stage hr ad req plan =
     bindK (enterK Decision_Stage) (\<lambda>_.
     bindK (emitK ad req Decision_Stage Started_Phase (u ''SYNC_DECISION_STARTED'') 0 False) (\<lambda>_.
     bindK (resolve_decisions hr ad req plan) (\<lambda>_.
     bindK (getK (\<lambda>s. length (kn_selected s))) (\<lambda>n.
     emitK ad req Decision_Stage Completed_Phase (u ''SYNC_DECISION_COMPLETED'') n False))))"

definition application_stage :: "adapters \<Rightarrow> sync_request \<Rightarrow> snapshot_state \<Rightarrow> sync_plan \<Rightarrow> staged_application step" where
  "application_stage ad req st plan =
     bindK (enterK Application_Stage) (\<lambda>_.
     bindK (emitK ad req Application_Stage Started_Phase (u ''SYNC_APPLICATION_STARTED'') 0 False) (\<lambda>_.
     bindK (checkpointK ad) (\<lambda>_.
     bindK (modifyK (\<lambda>s. s\<lparr>kn_attempted := True\<rparr>)) (\<lambda>_.
     bindK (getK kn_selected) (\<lambda>selected.
     bindK (callK (Stage_Call plan selected) (\<lambda>h. ad_stage ad h st plan selected)) (\<lambda>staged.
     bindK (modifyK (\<lambda>s. s\<lparr>kn_staged := Some staged\<rparr>)) (\<lambda>_.
     bindK (requireK (sa_plan_id staged = pl_id plan) (u ''SYNC_STAGED_PLAN_MISMATCH'')) (\<lambda>_.
     bindK (checkpointK ad) (\<lambda>_.
     bindK (emitK ad req Application_Stage Completed_Phase (u ''SYNC_APPLICATION_COMPLETED'') (length (sa_artifacts staged)) False) (\<lambda>_.
     returnK staged))))))))))"

definition commit_stage :: "adapters \<Rightarrow> sync_request \<Rightarrow> sync_plan \<Rightarrow> staged_application \<Rightarrow> sync_publication step" where
  "commit_stage ad req plan staged =
     bindK (enterK Commit_Stage) (\<lambda>_.
     bindK (emitK ad req Commit_Stage Started_Phase (u ''SYNC_COMMIT_STARTED'') 0 False) (\<lambda>_.
     bindK (checkpointK ad) (\<lambda>_.
     bindK (callK (Prepare_Call staged) (\<lambda>h. ad_prepare ad h staged)) (\<lambda>pub.
     bindK (requireK (pb_plan_id pub = pl_id plan) (u ''SYNC_PUBLICATION_PLAN_MISMATCH'')) (\<lambda>_.
     bindK (requireK (pb_artifacts pub = sa_artifacts staged) (u ''SYNC_PUBLICATION_ARTIFACT_MISMATCH'')) (\<lambda>_.
     bindK (checkpointK ad) (\<lambda>_.
     bindK (callK (Commit_Call staged pub) (\<lambda>h. ad_commit ad h staged pub)) (\<lambda>_.
     bindK (emitK ad req Commit_Stage Completed_Phase (u ''SYNC_COMMIT_COMPLETED'') (length (pb_artifacts pub)) True) (\<lambda>_.
     returnK pub)))))))))"

section \<open>The execution\<close>

definition success_result :: "sync_request \<Rightarrow> sync_outcome \<Rightarrow> sync_plan \<Rightarrow> selection list \<Rightarrow> sync_publication option
    \<Rightarrow> sync_event list \<Rightarrow> kernel_result" where
  "success_result req outcome plan selected pub events = \<lparr>kr_operation_id = rq_operation_id req, kr_outcome = outcome,
     kr_plan = Some plan, kr_decisions = selected, kr_publication = pub, kr_recovery = None, kr_error_code = None,
     kr_failed_stage = None, kr_events = events\<rparr>"

definition resultK :: "kernel_result \<Rightarrow> kernel_result step" where
  "resultK r = bindK (liftK (check_result r)) (\<lambda>_. returnK r)"

definition publishK :: "hash_rules \<Rightarrow> adapters \<Rightarrow> sync_request \<Rightarrow> snapshot_state \<Rightarrow> sync_plan \<Rightarrow> kernel_result step" where
  "publishK hr ad req st plan =
     bindK (decision_stage hr ad req plan) (\<lambda>_.
     bindK (application_stage ad req st plan) (\<lambda>staged.
     bindK (commit_stage ad req plan staged) (\<lambda>pub.
     bindK (getK (\<lambda>s. (kn_selected s, kn_recorded s))) (\<lambda>(selected, events).
     resultK (success_result req Committed plan selected (Some pub) events)))))"

definition concludeK :: "hash_rules \<Rightarrow> adapters \<Rightarrow> sync_request \<Rightarrow> snapshot_state \<Rightarrow> sync_plan \<Rightarrow> kernel_result step" where
  "concludeK hr ad req st plan =
     bindK (getK kn_recorded) (\<lambda>events.
     if op_dry_run (rq_options req) then resultK (success_result req Dry_Run plan [] None events)
     else if pl_entries plan = [] \<and> pl_decisions plan = [] then resultK (success_result req No_Change plan [] None events)
     else publishK hr ad req st plan)"

definition runK :: "hash_rules \<Rightarrow> adapters \<Rightarrow> sync_request \<Rightarrow> kernel_result step" where
  "runK hr ad req =
     bindK (snapshot_stage hr ad req) (\<lambda>st. bindK (comparison_stage ad req st) (\<lambda>deltas.
     bindK (planning_stage hr ad req st deltas) (concludeK hr ad req st)))"

definition fault_code :: "kernel_fault \<Rightarrow> ustr" where
  "fault_code e = (case e of StageFault c \<Rightarrow> c | CancelFault \<Rightarrow> u ''SYNC_CANCELLED'' | _ \<Rightarrow> u ''SYNC_STAGE_FAILED'')"

definition quietly :: "unit step \<Rightarrow> unit step" where
  "quietly m = handleK m (\<lambda>_. returnK ())"

definition recovery_event :: "adapters \<Rightarrow> sync_request \<Rightarrow> event_phase \<Rightarrow> ustr \<Rightarrow> unit step" where
  "recovery_event ad req phase code =
     bindK (getK (\<lambda>s. length (kn_recorded s))) (\<lambda>n.
     if n < max_events then
       (let e = event_at req n Recovery_Stage phase code 0 in
        bindK (liftK (check_sync_event e)) (\<lambda>_. bindK (recordK e) (\<lambda>_.
        quietly (callK (Emit_Call e) (\<lambda>h. ad_emit ad h e)))))
     else returnK ())"

definition recovery_context_of :: "sync_request \<Rightarrow> ustr \<Rightarrow> kernel_run \<Rightarrow> recovery_context" where
  "recovery_context_of req code s = \<lparr>rx_operation_id = rq_operation_id req, rx_stage = kn_stage s, rx_code = code,
     rx_state_ref = map_option st_ref (kn_snapshot s), rx_plan_id = map_option pl_id (kn_plan s),
     rx_staging_ref = map_option sa_ref (kn_staged s)\<rparr>"

definition recover_call :: "adapters \<Rightarrow> recovery_context \<Rightarrow> recovery_metadata option step" where
  "recover_call ad context = handleK (bindK (liftK (check_context context)) (\<lambda>_.
       bindK (callK (Recover_Call context) (\<lambda>h. ad_recover ad h context)) (\<lambda>m. returnK (Some m)))) (\<lambda>_. returnK None)"

definition recovery_reported :: "adapters \<Rightarrow> sync_request \<Rightarrow> recovery_metadata option \<Rightarrow> recovery_metadata option step" where
  "recovery_reported ad req recovery = (case recovery of None \<Rightarrow> returnK None
     | Some m \<Rightarrow> bindK (recovery_event ad req Completed_Phase (rm_code m)) (\<lambda>_. returnK (Some m)))"

definition recoverK :: "adapters \<Rightarrow> sync_request \<Rightarrow> ustr \<Rightarrow> recovery_metadata option step" where
  "recoverK ad req code =
     bindK (recovery_event ad req Started_Phase (u ''SYNC_RECOVERY_STARTED'')) (\<lambda>_.
     bindK (getK (recovery_context_of req code)) (\<lambda>context.
     bindK (recover_call ad context) (recovery_reported ad req)))"

definition recovered_code :: "bool \<Rightarrow> recovery_metadata option \<Rightarrow> ustr \<Rightarrow> ustr" where
  "recovered_code attempted recovery code = (case recovery of None \<Rightarrow> u ''SYNC_RECOVERY_FAILED''
     | Some m \<Rightarrow> if \<not> rm_prior_preserved m \<or> attempted \<and> \<not> rm_staged_removed m then u ''SYNC_RECOVERY_INCOMPLETE'' else code)"

definition failed_result :: "sync_request \<Rightarrow> kernel_fault \<Rightarrow> sync_stage \<Rightarrow> recovery_metadata option \<Rightarrow> kernel_run \<Rightarrow> kernel_result" where
  "failed_result req e stage recovery s = \<lparr>kr_operation_id = rq_operation_id req,
     kr_outcome = (if e = CancelFault then Cancelled_Run else Failed_Run), kr_plan = kn_plan s, kr_decisions = kn_selected s,
     kr_publication = None, kr_recovery = recovery,
     kr_error_code = Some (recovered_code (kn_attempted s) recovery (fault_code e)), kr_failed_stage = Some stage,
     kr_events = kn_recorded s\<rparr>"

definition failK :: "adapters \<Rightarrow> sync_request \<Rightarrow> kernel_fault \<Rightarrow> kernel_result step" where
  "failK ad req e =
     bindK (getK kn_stage) (\<lambda>stage.
     bindK (quietly (emitK ad req stage Failed_Phase (fault_code e) 0 False)) (\<lambda>_.
     bindK (recoverK ad req (fault_code e)) (\<lambda>recovery.
     bindK (getK (failed_result req e stage recovery)) resultK)))"

definition execute :: "hash_rules \<Rightarrow> adapters \<Rightarrow> sync_request \<Rightarrow> (kernel_fault + kernel_result) \<times> history" where
  "execute hr ad req = (case handleK (runK hr ad req) (failK ad req) start_run of (r, s) \<Rightarrow> (r, kn_history s))"

end
