(* ===== verification/Kernel_Claims.thy ===== *)
theory Kernel_Claims
  imports Kernel_Run
begin

text \<open>
  What an execution of the kernel guarantees whatever its adapters answer: a weakest precondition for
  steps, an invariant of the stages, and the properties of every finished execution.
\<close>

section \<open>Weakest preconditions\<close>

named_theorems kernel_wp

definition wpK :: "'a step \<Rightarrow> ('a \<Rightarrow> kernel_run \<Rightarrow> bool) \<Rightarrow> (kernel_fault \<Rightarrow> kernel_run \<Rightarrow> bool) \<Rightarrow> kernel_run \<Rightarrow> bool" where
  "wpK m Q E s = (case m s of (Inl e, s') \<Rightarrow> E e s' | (Inr x, s') \<Rightarrow> Q x s')"

lemma wp_return [kernel_wp]: "wpK (returnK x) Q E s = Q x s"
  by (simp add: wpK_def returnK_def)

lemma wp_raise [kernel_wp]: "wpK (raiseK e) Q E s = E e s"
  by (simp add: wpK_def raiseK_def)

lemma wp_bind [kernel_wp]: "wpK (bindK m f) Q E s = wpK m (\<lambda>x. wpK (f x) Q E) E s"
  by (auto simp: wpK_def bindK_def split: prod.splits sum.splits)

lemma wp_handle [kernel_wp]: "wpK (handleK m h) Q E s = wpK m Q (\<lambda>e. wpK (h e) Q E) s"
  by (auto simp: wpK_def handleK_def split: prod.splits sum.splits)

lemma wp_get [kernel_wp]: "wpK (getK f) Q E s = Q (f s) s"
  by (simp add: wpK_def getK_def)

lemma wp_modify [kernel_wp]: "wpK (modifyK f) Q E s = Q () (f s)"
  by (simp add: wpK_def modifyK_def)

lemma wp_lift [kernel_wp]: "wpK (liftK r) Q E s = (case r of Inl e \<Rightarrow> E e s | Inr x \<Rightarrow> Q x s)"
  by (simp add: wpK_def liftK_def split: sum.split)

lemma wp_require [kernel_wp]: "wpK (requireK b code) Q E s = (if b then Q () s else E (StageFault code) s)"
  by (simp add: requireK_def wp_return wp_raise)

lemma wp_enter [kernel_wp]: "wpK (enterK stage) Q E s = Q () (s\<lparr>kn_stage := stage\<rparr>)"
  by (simp add: enterK_def wp_modify)

lemma wp_record [kernel_wp]: "wpK (recordK e) Q E s = Q () (s\<lparr>kn_recorded := kn_recorded s @ [e]\<rparr>)"
  by (simp add: recordK_def wp_modify)

lemma wp_call [kernel_wp]: "wpK (callK c f) Q E s = (case f (kn_history s) of
    Inl e \<Rightarrow> E e (s\<lparr>kn_history := kn_history s @ [(c, Some e)]\<rparr>)
  | Inr x \<Rightarrow> Q x (s\<lparr>kn_history := kn_history s @ [(c, None)]\<rparr>))"
  by (simp add: wpK_def callK_def Let_def split: sum.split)

lemma wpK_conseq: "wpK m R F s \<Longrightarrow> (\<And>x s'. R x s' \<Longrightarrow> Q x s') \<Longrightarrow> (\<And>e s'. F e s' \<Longrightarrow> E e s') \<Longrightarrow> wpK m Q E s"
  by (auto simp: wpK_def split: prod.splits sum.splits)

lemma wpK_bindI: "wpK m R E s \<Longrightarrow> (\<And>x s'. R x s' \<Longrightarrow> wpK (f x) Q E s') \<Longrightarrow> wpK (bindK m f) Q E s"
  by (simp add: wp_bind) (erule wpK_conseq)

section \<open>The invariant of the stages\<close>

definition emitted :: "history \<Rightarrow> sync_event list" where
  "emitted h = concat (map (\<lambda>(c, x). case c of Emit_Call e \<Rightarrow> [e] | _ \<Rightarrow> []) h)"

lemma emitted_simps [simp]:
  "emitted [] = []"
  "emitted (h @ h') = emitted h @ emitted h'"
  "emitted ((c, x) # h) = (case c of Emit_Call e \<Rightarrow> [e] | _ \<Rightarrow> []) @ emitted h"
  by (simp_all add: emitted_def)

fun work_call :: "adapter_call \<Rightarrow> bool" where
  "work_call (Commit_Call staged pub) = False"
| "work_call (Recover_Call context) = False"
| "work_call _ = True"

text \<open>No check has raised and nothing was committed or recovered.\<close>

definition quiet :: "history \<Rightarrow> bool" where
  "quiet h \<longleftrightarrow> (\<forall>(c, x) \<in> set h. work_call c \<and> (c = Check_Call \<longrightarrow> x = None))"

lemma quiet_simps [simp]:
  "quiet []"
  "quiet (h @ [(c, x)]) \<longleftrightarrow> quiet h \<and> work_call c \<and> (c = Check_Call \<longrightarrow> x = None)"
  by (auto simp: quiet_def)

text \<open>The selections made so far: those of the first decisions, each a declared option under the plan.\<close>

definition chosen_from :: "sync_plan \<Rightarrow> selection list \<Rightarrow> bool" where
  "chosen_from p sel \<longleftrightarrow> (\<exists>n. map ds_decision sel = take n (map dr_id (pl_decisions p)))
     \<and> (\<forall>s \<in> set sel. ds_plan s = Some (pl_id p) \<and> (\<exists>d \<in> set (pl_decisions p). dr_id d = ds_decision s \<and> ds_option s \<in> set (dr_options d)))"

definition plan_for :: "hash_rules \<Rightarrow> sync_request \<Rightarrow> sync_plan \<Rightarrow> bool" where
  "plan_for hr req p \<longleftrightarrow> check_plan hr p = Inr () \<and> pl_operation_id p = rq_operation_id req"

definition selection_ok :: "hash_rules \<Rightarrow> sync_request \<Rightarrow> sync_plan option \<Rightarrow> selection list \<Rightarrow> bool" where
  "selection_ok hr req plan sel = (case plan of None \<Rightarrow> sel = [] | Some p \<Rightarrow> plan_for hr req p \<and> chosen_from p sel)"

definition steady :: "hash_rules \<Rightarrow> sync_request \<Rightarrow> kernel_run \<Rightarrow> bool" where
  "steady hr req s \<longleftrightarrow> map ev_sequence (kn_recorded s) = [0..<length (kn_recorded s)]
     \<and> (\<forall>e \<in> set (kn_recorded s). ev_operation_id e = rq_operation_id req) \<and> emitted (kn_history s) = kn_recorded s
     \<and> selection_ok hr req (kn_plan s) (kn_selected s)"

definition calm :: "hash_rules \<Rightarrow> sync_request \<Rightarrow> nat \<Rightarrow> kernel_run \<Rightarrow> bool" where
  "calm hr req k s \<longleftrightarrow> steady hr req s \<and> length (kn_recorded s) \<le> k \<and> quiet (kn_history s)"

text \<open>Everything the commit of a staged application was agreed on.\<close>

definition agreed :: "sync_request \<Rightarrow> kernel_run \<Rightarrow> staged_application \<Rightarrow> sync_publication \<Rightarrow> bool" where
  "agreed req s staged pub \<longleftrightarrow> \<not> op_dry_run (rq_options req) \<and> kn_staged s = Some staged \<and> pb_artifacts pub = sa_artifacts staged
     \<and> (\<exists>p. kn_plan s = Some p \<and> sa_plan_id staged = pl_id p \<and> pb_plan_id pub = pl_id p
        \<and> map ds_decision (kn_selected s) = map dr_id (pl_decisions p))"

text \<open>The state in which \<open>e\<close> was raised: only a check or the commit that raised it may have failed.\<close>

definition broken :: "hash_rules \<Rightarrow> sync_request \<Rightarrow> kernel_fault \<Rightarrow> kernel_run \<Rightarrow> bool" where
  "broken hr req e s \<longleftrightarrow> steady hr req s \<and> length (kn_recorded s) \<le> 12
     \<and> (quiet (kn_history s) \<or> (\<exists>h. kn_history s = h @ [(Check_Call, Some e)] \<and> quiet h)
        \<or> (\<exists>h staged pub. kn_history s = h @ [(Check_Call, None), (Commit_Call staged pub, Some e)] \<and> quiet h \<and> agreed req s staged pub))"

lemma calm_broken: "calm hr req k s \<Longrightarrow> k \<le> 12 \<Longrightarrow> broken hr req e s"
  by (simp add: calm_def broken_def)

lemma calm_stage [simp]: "calm hr req k (s\<lparr>kn_stage := x\<rparr>) \<longleftrightarrow> calm hr req k s"
  by (simp add: calm_def steady_def)

lemma calm_more [simp]:
  "calm hr req k (s\<lparr>kn_snapshot := x\<rparr>) \<longleftrightarrow> calm hr req k s"
  "calm hr req k (s\<lparr>kn_staged := y\<rparr>) \<longleftrightarrow> calm hr req k s"
  "calm hr req k (s\<lparr>kn_attempted := b\<rparr>) \<longleftrightarrow> calm hr req k s"
  by (simp_all add: calm_def steady_def)

text \<open>A step that leaves all but the history and the events.\<close>

definition frame :: "kernel_run \<Rightarrow> kernel_run \<Rightarrow> bool" where
  "frame s s' \<longleftrightarrow> kn_snapshot s' = kn_snapshot s \<and> kn_plan s' = kn_plan s \<and> kn_staged s' = kn_staged s
     \<and> kn_selected s' = kn_selected s \<and> kn_attempted s' = kn_attempted s \<and> kn_stage s' = kn_stage s"

definition work_step :: "hash_rules \<Rightarrow> sync_request \<Rightarrow> nat \<Rightarrow> nat \<Rightarrow> 'a step \<Rightarrow> bool" where
  "work_step hr req k k' m \<longleftrightarrow> (\<forall>s. calm hr req k s \<longrightarrow>
     wpK m (\<lambda>_ s'. calm hr req k' s' \<and> frame s s') (broken hr req) s)"

lemma work_stepD: "work_step hr req k k' m \<Longrightarrow> calm hr req k s \<Longrightarrow> (\<And>x s'. calm hr req k' s' \<Longrightarrow> frame s s' \<Longrightarrow> Q x s')
    \<Longrightarrow> wpK m Q (broken hr req) s"
proof -
  assume m: "work_step hr req k k' m" "calm hr req k s" and q: "\<And>x s'. calm hr req k' s' \<Longrightarrow> frame s s' \<Longrightarrow> Q x s'"
  from m have "wpK m (\<lambda>_ s'. calm hr req k' s' \<and> frame s s') (broken hr req) s" by (simp add: work_step_def)
  then show ?thesis by (rule wpK_conseq) (simp_all add: q)
qed

lemma call_step: "k \<le> 12 \<Longrightarrow> work_call c \<Longrightarrow> (\<And>e. c \<noteq> Emit_Call e) \<Longrightarrow> work_step hr req k k (callK c f)"
  by (cases c) (auto simp: work_step_def kernel_wp calm_def broken_def steady_def frame_def split: sum.split)

lemma checkpoint_step: "k \<le> 12 \<Longrightarrow> work_step hr req k k (checkpointK ad)"
  by (auto simp: checkpointK_def call_step)

lemma emit_step:
  assumes "k < 12" and "valid_ref (rq_operation_id req)" and "valid_code code"
  shows "work_step hr req k (Suc k) (emitK ad req stage phase code items tolerate)"
  unfolding work_step_def
proof (intro allI impI)
  fix s assume c: "calm hr req k s"
  then have n: "length (kn_recorded s) < max_events" using assms(1) by (simp add: calm_def max_events_def)
  let ?e = "event_at req (length (kn_recorded s)) stage phase code items"
  let ?s = "\<lambda>x. s\<lparr>kn_recorded := kn_recorded s @ [?e], kn_history := kn_history s @ [(Emit_Call ?e, x)]\<rparr>"
  have after: "calm hr req (Suc k) (?s x)" "frame s (?s x)" for x
    using c by (auto simp: calm_def steady_def frame_def event_at_def)
  have broken_after: "broken hr req e (?s x)" for e x
    by (rule calm_broken [OF after(1)]) (use assms(1) in simp)
  have broken_now: "broken hr req e s" for e by (rule calm_broken [OF c]) (use assms(1) in simp)
  show "wpK (emitK ad req stage phase code items tolerate) (\<lambda>_ s'. calm hr req (Suc k) s' \<and> frame s s') (broken hr req) s"
    using n by (auto simp: emitK_def kernel_wp Let_def emit_failed_def after broken_after broken_now split: sum.split kernel_fault.split)
qed

section \<open>The stages\<close>

lemma bind_work: "work_step hr req k k' m \<Longrightarrow> calm hr req k s \<Longrightarrow>
    (\<And>x s'. calm hr req k' s' \<Longrightarrow> frame s s' \<Longrightarrow> wpK (f x) Q (broken hr req) s') \<Longrightarrow> wpK (bindK m f) Q (broken hr req) s"
  by (simp add: wp_bind) (erule (1) work_stepD)

lemma bind_emit: "calm hr req k s \<Longrightarrow> k < 12 \<Longrightarrow> valid_ref (rq_operation_id req) \<Longrightarrow> valid_code code \<Longrightarrow>
    (\<And>s'. calm hr req (Suc k) s' \<Longrightarrow> frame s s' \<Longrightarrow> wpK (f ()) Q (broken hr req) s') \<Longrightarrow>
    wpK (bindK (emitK ad req stage phase code items tolerate) f) Q (broken hr req) s"
  by (rule bind_work [OF emit_step]) simp_all

lemma last_emit: "calm hr req k s \<Longrightarrow> k < 12 \<Longrightarrow> valid_ref (rq_operation_id req) \<Longrightarrow> valid_code code \<Longrightarrow>
    (\<And>x s'. calm hr req (Suc k) s' \<Longrightarrow> frame s s' \<Longrightarrow> Q x s') \<Longrightarrow>
    wpK (emitK ad req stage phase code items tolerate) Q (broken hr req) s"
  by (rule work_stepD [OF emit_step]) simp_all

lemma bind_check: "calm hr req k s \<Longrightarrow> k \<le> 12 \<Longrightarrow>
    (\<And>s'. calm hr req k s' \<Longrightarrow> frame s s' \<Longrightarrow> wpK (f ()) Q (broken hr req) s') \<Longrightarrow>
    wpK (bindK (checkpointK ad) f) Q (broken hr req) s"
  by (rule bind_work [OF checkpoint_step]) simp_all

lemma bind_call: "calm hr req k s \<Longrightarrow> k \<le> 12 \<Longrightarrow> work_call c \<Longrightarrow> (\<And>e. c \<noteq> Emit_Call e) \<Longrightarrow>
    (\<And>x s'. calm hr req k s' \<Longrightarrow> frame s s' \<Longrightarrow> wpK (f x) Q (broken hr req) s') \<Longrightarrow>
    wpK (bindK (callK c g) f) Q (broken hr req) s"
  by (rule bind_work [OF call_step]) simp_all

lemma bind_require: "calm hr req k s \<Longrightarrow> k \<le> 12 \<Longrightarrow> (b \<Longrightarrow> wpK (f ()) Q (broken hr req) s) \<Longrightarrow>
    wpK (bindK (requireK b code) f) Q (broken hr req) s"
  by (auto simp: kernel_wp intro: calm_broken)

lemma bind_lift: "calm hr req k s \<Longrightarrow> k \<le> 12 \<Longrightarrow> (\<And>x. r = Inr x \<Longrightarrow> wpK (f x) Q (broken hr req) s) \<Longrightarrow>
    wpK (bindK (liftK r) f) Q (broken hr req) s"
  by (auto simp: kernel_wp intro: calm_broken split: sum.split)

lemma bind_modify: "wpK (f ()) Q E (g s) \<Longrightarrow> wpK (bindK (modifyK g) f) Q E s"
  by (simp add: kernel_wp)

lemma bind_enter: "wpK (f ()) Q E (s\<lparr>kn_stage := stage\<rparr>) \<Longrightarrow> wpK (bindK (enterK stage) f) Q E s"
  by (simp add: kernel_wp)

lemma bind_get: "wpK (f (g s)) Q E s \<Longrightarrow> wpK (bindK (getK g) f) Q E s"
  by (simp add: kernel_wp)

lemma calm_updates:
  "calm hr req k s \<Longrightarrow> calm hr req k (s\<lparr>kn_stage := stage\<rparr>)"
  "calm hr req k s \<Longrightarrow> calm hr req k (s\<lparr>kn_snapshot := x\<rparr>)"
  "calm hr req k s \<Longrightarrow> calm hr req k (s\<lparr>kn_staged := y\<rparr>)"
  "calm hr req k s \<Longrightarrow> calm hr req k (s\<lparr>kn_attempted := b\<rparr>)"
  by simp_all

lemma stage_codes:
  "valid_code (u ''SYNC_SNAPSHOT_STARTED'')" "valid_code (u ''SYNC_SNAPSHOT_COMPLETED'')"
  "valid_code (u ''SYNC_COMPARISON_STARTED'')" "valid_code (u ''SYNC_COMPARISON_COMPLETED'')"
  "valid_code (u ''SYNC_PLANNING_STARTED'')" "valid_code (u ''SYNC_PLANNING_COMPLETED'')"
  "valid_code (u ''SYNC_DECISION_STARTED'')" "valid_code (u ''SYNC_DECISION_COMPLETED'')"
  "valid_code (u ''SYNC_APPLICATION_STARTED'')" "valid_code (u ''SYNC_APPLICATION_COMPLETED'')"
  "valid_code (u ''SYNC_COMMIT_STARTED'')" "valid_code (u ''SYNC_COMMIT_COMPLETED'')"
  "valid_code (u ''SYNC_RECOVERY_STARTED'')" "valid_code (u ''SYNC_RECOVERY_FAILED'')" "valid_code (u ''SYNC_RECOVERY_INCOMPLETE'')"
  by code_simp+

lemmas stage_rules = bind_emit bind_check bind_call bind_require bind_lift bind_modify bind_enter bind_get calm_updates

lemma snapshot_calm:
  assumes "calm hr req k s" and "k \<le> 10" and "valid_ref (rq_operation_id req)"
  shows "wpK (snapshot_stage hr ad req) (\<lambda>st s'. calm hr req (Suc (Suc k)) s' \<and> kn_selected s' = kn_selected s) (broken hr req) s"
  unfolding snapshot_stage_def using assms
  by (auto intro!: stage_rules simp: stage_codes wp_return frame_def)

lemma comparison_calm:
  assumes "calm hr req k s" and "k \<le> 10" and "valid_ref (rq_operation_id req)"
  shows "wpK (comparison_stage ad req st) (\<lambda>_ s'. calm hr req (Suc (Suc k)) s' \<and> kn_selected s' = kn_selected s) (broken hr req) s"
  unfolding comparison_stage_def using assms
  by (auto intro!: stage_rules simp: stage_codes wp_return frame_def)

lemma create_plan_Inr:
  "create_plan hr operation_id options fingerprint output = Inr p \<Longrightarrow> check_plan hr p = Inr () \<and> pl_operation_id p = operation_id"
  by (auto simp: create_plan_def bindE_Inr_iff Let_def)

lemma calm_plan: "calm hr req k s \<Longrightarrow> kn_selected s = [] \<Longrightarrow> plan_for hr req p \<Longrightarrow> calm hr req k (s\<lparr>kn_plan := Some p\<rparr>)"
  by (auto simp: calm_def steady_def selection_ok_def chosen_from_def)

lemma planning_calm:
  assumes "calm hr req k s" and "k \<le> 10" and "valid_ref (rq_operation_id req)" and "kn_selected s = []"
  shows "wpK (planning_stage hr ad req st deltas)
    (\<lambda>p s'. calm hr req (Suc (Suc k)) s' \<and> kn_selected s' = [] \<and> kn_plan s' = Some p) (broken hr req) s"
  unfolding planning_stage_def using assms
  by (auto intro!: stage_rules calm_plan dest: create_plan_Inr simp: stage_codes wp_return frame_def plan_for_def)

text \<open>Resolving a decision appends its selection.\<close>

lemma check_plan_decisions:
  "check_plan hr p = Inr () \<Longrightarrow> distinct (map dr_id (pl_decisions p)) \<and> pl_decisions p = sort_key dr_id (pl_decisions p)
     \<and> length (pl_decisions p) \<le> max_items"
  by (simp add: check_plan_def bindE_Inr_iff)

lemma chosen_selection_decision [simp]: "ds_decision (chosen_selection p x) = ds_decision x"
  by (simp add: chosen_selection_def)

lemma resolve_decision_calm:
  assumes "calm hr req k s" and "k \<le> 12" and p: "kn_plan s = Some p" and d: "pl_decisions p = ds @ d # ds'"
    and sel: "map ds_decision (kn_selected s) = map dr_id ds"
  shows "wpK (resolve_decision hr ad req p d) (\<lambda>_ s'. calm hr req k s' \<and> kn_plan s' = Some p
    \<and> map ds_decision (kn_selected s') = map dr_id (ds @ [d])) (broken hr req) s"
proof -
  have grow: "calm hr req k (s'\<lparr>kn_selected := sel' @ [chosen_selection p x]\<rparr>)"
    if "calm hr req k s'" "sel' = kn_selected s'" "kn_plan s' = Some p" "map ds_decision (kn_selected s') = map dr_id ds"
      "ds_decision x = dr_id d" "ds_option x \<in> set (dr_options d)" for s' sel' x
  proof -
    have "chosen_from p (kn_selected s' @ [chosen_selection p x])" using that
      by (auto simp: calm_def steady_def selection_ok_def chosen_from_def chosen_selection_def d intro!: exI [of _ "Suc (length ds)"])
    then show ?thesis using that by (auto simp: calm_def steady_def selection_ok_def)
  qed
  have step: "work_step hr req k k (case replayed_selection req (dr_id d) of Some s \<Rightarrow> returnK s
       | None \<Rightarrow> callK (Decide_Call d) (\<lambda>h. ad_decide ad h d))"
  proof (cases "replayed_selection req (dr_id d)")
    case None
    then show ?thesis using call_step [OF assms(2), of "Decide_Call d"] by simp
  next
    case (Some s)
    then show ?thesis by (simp add: work_step_def wp_return frame_def)
  qed
  show ?thesis
    unfolding resolve_decision_def using assms
    by (auto intro!: bind_work [OF step] stage_rules grow work_stepD [OF checkpoint_step] simp: frame_def)
qed

lemma resolve_each_calm:
  assumes "k \<le> 12"
  shows "calm hr req k s \<Longrightarrow> kn_plan s = Some p \<Longrightarrow> pl_decisions p = ds @ rest \<Longrightarrow> map ds_decision (kn_selected s) = map dr_id ds \<Longrightarrow>
    wpK (resolve_each (resolve_decision hr ad req p) rest) (\<lambda>_ s'. calm hr req k s' \<and> kn_plan s' = Some p
      \<and> map ds_decision (kn_selected s') = map dr_id (pl_decisions p)) (broken hr req) s"
proof (induction rest arbitrary: ds s)
  case Nil
  then show ?case by (simp add: wp_return)
next
  case (Cons d rest)
  have "wpK (resolve_each (resolve_decision hr ad req p) rest) (\<lambda>_ s'. calm hr req k s' \<and> kn_plan s' = Some p
      \<and> map ds_decision (kn_selected s') = map dr_id (pl_decisions p)) (broken hr req) s'"
    if "calm hr req k s' \<and> kn_plan s' = Some p \<and> map ds_decision (kn_selected s') = map dr_id (ds @ [d])" for s'
    using that Cons.prems(3) by (intro Cons.IH [of s' "ds @ [d]"]) auto
  then show ?case using resolve_decision_calm [OF Cons.prems(1) assms Cons.prems(2,3,4)]
    by (auto intro: wpK_bindI)
qed

lemma decision_calm:
  assumes "calm hr req k s" and "k \<le> 10" and "valid_ref (rq_operation_id req)" and "kn_plan s = Some p" and "kn_selected s = []"
  shows "wpK (decision_stage hr ad req p) (\<lambda>_ s'. calm hr req (Suc (Suc k)) s' \<and> kn_plan s' = Some p
    \<and> map ds_decision (kn_selected s') = map dr_id (pl_decisions p)) (broken hr req) s"
proof -
  have each: "wpK (bindK (resolve_each (resolve_decision hr ad req p) (pl_decisions p)) f) Q (broken hr req) s'"
    if "calm hr req (Suc k) s'" "kn_plan s' = Some p" "kn_selected s' = []"
      "\<And>s'. calm hr req (Suc k) s' \<Longrightarrow> kn_plan s' = Some p \<Longrightarrow> map ds_decision (kn_selected s') = map dr_id (pl_decisions p)
        \<Longrightarrow> wpK (f ()) Q (broken hr req) s'" for f :: "unit \<Rightarrow> unit step" and Q s'
    by (rule wpK_bindI [OF resolve_each_calm [OF _ that(1,2), of "[]"]]) (use assms(2) that in auto)
  have assoc: "wpK (bindK (bindK m g) f) Q E s = wpK (bindK m (\<lambda>x. bindK (g x) f)) Q E s"
    for m :: "unit step" and g and f :: "unit \<Rightarrow> unit step" and Q E s
    by (auto simp: wpK_def bindK_def split: prod.splits sum.splits)
  show ?thesis
    unfolding decision_stage_def resolve_decisions_def using assms
    by (auto intro!: each last_emit stage_rules simp: assoc stage_codes frame_def)
qed

lemma application_calm:
  assumes "calm hr req k s" and "k \<le> 10" and "valid_ref (rq_operation_id req)" and "kn_plan s = Some p"
  shows "wpK (application_stage ad req st p) (\<lambda>staged s'. calm hr req (Suc (Suc k)) s' \<and> kn_plan s' = Some p
    \<and> kn_selected s' = kn_selected s \<and> kn_staged s' = Some staged \<and> sa_plan_id staged = pl_id p) (broken hr req) s"
  unfolding application_stage_def using assms
  by (auto intro!: stage_rules simp: stage_codes wp_return frame_def)

text \<open>What the adapters are relied on for: publications and recovery evidence are constructed values.\<close>

definition adapters_ok :: "adapters \<Rightarrow> bool" where
  "adapters_ok ad \<longleftrightarrow> (\<forall>h staged pub. ad_prepare ad h staged = Inr pub \<longrightarrow> check_publication pub = Inr ())
     \<and> (\<forall>h context m. ad_recover ad h context = Inr m \<longrightarrow> check_recovery m = Inr ())"

lemma bind_call_result:
  assumes "calm hr req k s" and "k \<le> 12" and "work_call c" and "\<And>e. c \<noteq> Emit_Call e"
    and "\<And>x s' h. g h = Inr x \<Longrightarrow> calm hr req k s' \<Longrightarrow> frame s s' \<Longrightarrow> wpK (f x) Q (broken hr req) s'"
  shows "wpK (bindK (callK c g) f) Q (broken hr req) s"
proof -
  have "wpK (callK c g) (\<lambda>x s'. calm hr req k s' \<and> frame s s' \<and> (\<exists>h. g h = Inr x)) (broken hr req) s"
    using work_stepD [OF call_step [OF assms(2-4), of hr req g] assms(1), of "\<lambda>_ _. True"] assms(1-4)
      work_stepD [OF call_step [OF assms(2-4), of hr req g] assms(1), of "\<lambda>_ s'. calm hr req k s' \<and> frame s s'"]
    by (auto simp: wp_call split: sum.splits)
  then show ?thesis by (rule wpK_bindI) (use assms(5) in blast)
qed

definition committed_run :: "hash_rules \<Rightarrow> sync_request \<Rightarrow> sync_publication \<Rightarrow> kernel_run \<Rightarrow> bool" where
  "committed_run hr req pub s \<longleftrightarrow> steady hr req s \<and> length (kn_recorded s) \<le> 13
     \<and> (\<exists>h staged e x. kn_history s = h @ [(Check_Call, None), (Commit_Call staged pub, None), (Emit_Call e, x)]
        \<and> quiet h \<and> agreed req s staged pub)"

lemma event_at_checked:
  "valid_ref (rq_operation_id req) \<Longrightarrow> valid_code code \<Longrightarrow> n < max_events \<Longrightarrow> int items \<le> max_count
     \<Longrightarrow> check_sync_event (event_at req n stage phase code items) = Inr ()"
  by (simp add: check_sync_event_def event_at_def bindE_Inr_iff validate_ref_def validate_count_def check_code_def)

lemma commit_tail:
  assumes c: "calm hr req k s" and k: "k < 12" and ref: "valid_ref (rq_operation_id req)"
    and a: "agreed req s staged pub" and n: "length (pb_artifacts pub) \<le> max_items"
  shows "wpK (bindK (checkpointK ad) (\<lambda>_. bindK (callK (Commit_Call staged pub) g)
    (\<lambda>_. bindK (emitK ad req Commit_Stage Completed_Phase (u ''SYNC_COMMIT_COMPLETED'') (length (pb_artifacts pub)) True) (\<lambda>_. returnK pub))))
    (\<lambda>pub' s'. pub' = pub \<and> committed_run hr req pub s' \<and> kn_plan s' = kn_plan s) (broken hr req) s"
proof -
  let ?e = "event_at req (length (kn_recorded s)) Commit_Stage Completed_Phase (u ''SYNC_COMMIT_COMPLETED'') (length (pb_artifacts pub))"
  have rec: "length (kn_recorded s) < max_events" using c k by (simp add: calm_def max_events_def)
  have ev: "check_sync_event ?e = Inr ()"
    using n by (intro event_at_checked [OF ref _ rec]) (simp_all add: stage_codes max_items_def max_count_def)
  have frame_agreed: "agreed req (s\<lparr>kn_recorded := es, kn_history := h\<rparr>) staged pub" "agreed req (s\<lparr>kn_history := h\<rparr>) staged pub" for h es
    using a by (simp_all add: agreed_def)
  have done_run: "committed_run hr req pub (s\<lparr>kn_recorded := kn_recorded s @ [?e],
      kn_history := kn_history s @ [(Check_Call, None), (Commit_Call staged pub, None), (Emit_Call ?e, x)]\<rparr>)" for x
    using c k frame_agreed by (auto simp: committed_run_def calm_def steady_def event_at_def)
  have failed: "broken hr req e (s\<lparr>kn_history := kn_history s @ [(Check_Call, Some e)]\<rparr>)"
    "broken hr req e (s\<lparr>kn_history := kn_history s @ [(Check_Call, None), (Commit_Call staged pub, Some e)]\<rparr>)" for e
    using c k frame_agreed by (auto simp: broken_def calm_def steady_def)
  show ?thesis using rec failed done_run
    by (auto simp: checkpointK_def kernel_wp emitK_def emit_failed_def Let_def ev split: sum.split)
qed

lemma commit_calm:
  assumes "adapters_ok ad" and "calm hr req k s" and "k \<le> 10" and "valid_ref (rq_operation_id req)" and "kn_plan s = Some p"
    and "kn_staged s = Some staged" and "sa_plan_id staged = pl_id p"
    and "map ds_decision (kn_selected s) = map dr_id (pl_decisions p)" and "\<not> op_dry_run (rq_options req)"
  shows "wpK (commit_stage ad req p staged) (\<lambda>pub s'. committed_run hr req pub s' \<and> kn_plan s' = Some p) (broken hr req) s"
proof -
  have tail: "wpK (bindK (checkpointK ad) (\<lambda>_. bindK (callK (Commit_Call staged pub) g)
      (\<lambda>_. bindK (emitK ad req Commit_Stage Completed_Phase (u ''SYNC_COMMIT_COMPLETED'') (length (pb_artifacts pub)) True) (\<lambda>_. returnK pub))))
      (\<lambda>pub s'. committed_run hr req pub s' \<and> kn_plan s' = Some p) (broken hr req) s'"
    if "calm hr req (Suc k) s'" "agreed req s' staged pub" "check_publication pub = Inr ()" "kn_plan s' = Some p" for s' pub g
    by (rule wpK_conseq [OF commit_tail [OF that(1) _ assms(4) that(2)]])
      (use assms(3) that(3,4) in \<open>auto simp: check_publication_def check_artifacts_def check_refs_def bindE_Inr_iff\<close>)
  have prepare: "wpK (bindK (callK (Prepare_Call staged) (\<lambda>h. ad_prepare ad h staged)) (\<lambda>pub.
      bindK (requireK (pb_plan_id pub = pl_id p) c) (\<lambda>_. bindK (requireK (pb_artifacts pub = sa_artifacts staged) c') (\<lambda>_.
      bindK (checkpointK ad) (\<lambda>_. bindK (callK (Commit_Call staged pub) (\<lambda>h. ad_commit ad h staged pub)) (\<lambda>_.
      bindK (emitK ad req Commit_Stage Completed_Phase (u ''SYNC_COMMIT_COMPLETED'') (length (pb_artifacts pub)) True) (\<lambda>_. returnK pub)))))))
      (\<lambda>pub s'. committed_run hr req pub s' \<and> kn_plan s' = Some p) (broken hr req) s'"
    if "calm hr req (Suc k) s'" "frame (s\<lparr>kn_stage := Commit_Stage\<rparr>) s'" for s' c c'
  proof (rule bind_call_result [OF that(1)])
    fix pub t h assume t: "ad_prepare ad h staged = Inr pub" "calm hr req (Suc k) t" "frame s' t"
    then have "check_publication pub = Inr ()" using assms(1) by (auto simp: adapters_ok_def)
    then show "wpK (bindK (requireK (pb_plan_id pub = pl_id p) c) (\<lambda>_. bindK (requireK (pb_artifacts pub = sa_artifacts staged) c') (\<lambda>_.
      bindK (checkpointK ad) (\<lambda>_. bindK (callK (Commit_Call staged pub) (\<lambda>h. ad_commit ad h staged pub)) (\<lambda>_.
      bindK (emitK ad req Commit_Stage Completed_Phase (u ''SYNC_COMMIT_COMPLETED'') (length (pb_artifacts pub)) True) (\<lambda>_. returnK pub))))))
      (\<lambda>pub s'. committed_run hr req pub s' \<and> kn_plan s' = Some p) (broken hr req) t"
      using t that assms by (auto intro!: bind_require tail simp: frame_def agreed_def)
  qed (use assms(3) in auto)
  show ?thesis
    unfolding commit_stage_def
    by (rule bind_enter, rule bind_emit [OF calm_updates(1) [OF assms(2)]])
      (use assms in \<open>auto intro!: bind_check prepare simp: stage_codes frame_def\<close>)
qed

section \<open>Every result meets its contract\<close>

lemma every_Inr: "every check xs = Inr () \<longleftrightarrow> (\<forall>x \<in> set xs. check x = Inr ())"
  unfolding every_def by (induction xs) (auto simp: bindE_Inr_iff)

lemma chosen_from_ordered:
  assumes p: "check_plan hr p = Inr ()" and c: "chosen_from p sel"
  shows "sel = sort_key ds_decision sel \<and> distinct (map ds_decision sel) \<and> length sel \<le> max_items"
proof -
  from c obtain n where n: "map ds_decision sel = take n (map dr_id (pl_decisions p))" by (auto simp: chosen_from_def)
  note d = check_plan_decisions [OF p]
  then have "sorted (map dr_id (pl_decisions p))" by (metis sorted_sort_key)
  then have "sorted (map ds_decision sel)" unfolding n by (rule sorted_wrt_take)
  moreover have "distinct (map ds_decision sel)" unfolding n using d by (simp add: distinct_take)
  moreover have "length (map ds_decision sel) \<le> length (pl_decisions p)" unfolding n by simp
  ultimately show ?thesis using d by (simp add: sort_key_id_if_sorted)
qed

lemma chosen_from_declared:
  assumes p: "check_plan hr p = Inr ()" and c: "chosen_from p sel" and s: "s \<in> set sel"
  shows "check_chosen p s = Inr ()"
proof -
  from c s obtain d where d: "d \<in> set (pl_decisions p)" "dr_id d = ds_decision s" "ds_option s \<in> set (dr_options d)"
    and plan: "ds_plan s = Some (pl_id p)" by (auto simp: chosen_from_def)
  have "distinct (map fst (rev (map (\<lambda>d. (dr_id d, dr_options d)) (pl_decisions p))))"
    using check_plan_decisions [OF p] by (simp add: comp_def flip: rev_map)
  then have "map_of (rev (map (\<lambda>d. (dr_id d, dr_options d)) (pl_decisions p))) (ds_decision s) = Some (dr_options d)"
    using d(1,2) by (intro map_of_is_SomeI) (auto intro: rev_image_eqI)
  then show ?thesis using d(3) plan by (simp add: check_chosen_def bindE_Inr_iff)
qed

lemma steady_result:
  assumes s: "steady hr req s" and ref: "valid_ref (rq_operation_id req)" and n: "length (kn_recorded s) \<le> max_events"
    and r: "kr_operation_id r = rq_operation_id req" "kr_plan r = kn_plan s" "kr_events r = kn_recorded s"
      "kr_decisions r = kn_selected s \<or> kr_decisions r = []"
    and code: "check_some (check_code (u ''error_code'')) (kr_error_code r) = Inr ()"
  shows "check_result_decisions r = Inr () \<and> check_result_events r = Inr ()"
proof -
  have "check_result_events r = Inr ()"
    using s n r code by (simp add: check_result_events_def bindE_Inr_iff steady_def list_all_iff)
  moreover have "check_result_decisions r = Inr ()"
  proof (cases "kn_plan s")
    case None
    with s r(4) have "kr_decisions r = []" by (auto simp: steady_def selection_ok_def)
    then show ?thesis using None r ref by (simp add: check_result_decisions_def bindE_Inr_iff validate_ref_def)
  next
    case (Some p)
    with s have p: "plan_for hr req p" and c: "chosen_from p (kn_selected s)" by (simp_all add: steady_def selection_ok_def)
    have "chosen_from p (kr_decisions r)" using r(4) c by (auto simp: chosen_from_def)
    then show ?thesis using p Some r ref chosen_from_ordered [of hr p "kr_decisions r"] chosen_from_declared [of hr p "kr_decisions r"]
      by (simp add: check_result_decisions_def bindE_Inr_iff validate_ref_def plan_for_def every_Inr)
  qed
  ultimately show ?thesis by simp
qed

text \<open>What a result of a finished body says of the state it was made in.\<close>

definition succeeded :: "hash_rules \<Rightarrow> sync_request \<Rightarrow> kernel_result \<Rightarrow> kernel_run \<Rightarrow> bool" where
  "succeeded hr req r s \<longleftrightarrow> check_result r = Inr () \<and> kr_events r = kn_recorded s \<and> emitted (kn_history s) = kn_recorded s
     \<and> kr_plan r = kn_plan s \<and> (\<exists>p. kn_plan s = Some p \<and> plan_for hr req p)
     \<and> (kr_outcome r \<in> {Dry_Run, No_Change} \<and> kr_publication r = None \<and> quiet (kn_history s)
        \<or> kr_outcome r = Committed \<and> kr_decisions r = kn_selected s \<and> (\<exists>pub. kr_publication r = Some pub \<and> committed_run hr req pub s))"

lemma undecided_result:
  assumes "calm hr req k s" and "k \<le> 12" and "valid_ref (rq_operation_id req)" and "kn_plan s = Some p"
    and "outcome = Dry_Run \<or> outcome = No_Change \<and> pl_entries p = [] \<and> pl_decisions p = []"
  shows "wpK (resultK (success_result req outcome p [] None (kn_recorded s))) (succeeded hr req) (broken hr req) s"
proof -
  let ?r = "success_result req outcome p [] None (kn_recorded s)"
  have c: "steady hr req s" "length (kn_recorded s) \<le> max_events" "quiet (kn_history s)"
    using assms(1,2) by (simp_all add: calm_def max_events_def)
  have "check_result_decisions ?r = Inr () \<and> check_result_events ?r = Inr ()"
    by (rule steady_result [OF c(1) assms(3) c(2)]) (simp_all add: success_result_def assms(4) check_some_def)
  then have "check_result ?r = Inr ()" using assms(5)
    by (auto simp: check_result_def bindE_Inr_iff check_result_publication_def check_result_failure_def success_result_def no_failure_def)
  then show ?thesis using c assms(4,5)
    by (auto simp: resultK_def kernel_wp succeeded_def success_result_def steady_def selection_ok_def)
qed

lemma committed_result:
  assumes "committed_run hr req pub s" and "valid_ref (rq_operation_id req)" and p: "kn_plan s = Some p"
  shows "wpK (resultK (success_result req Committed p (kn_selected s) (Some pub) (kn_recorded s))) (succeeded hr req) (broken hr req) s"
proof -
  let ?r = "success_result req Committed p (kn_selected s) (Some pub) (kn_recorded s)"
  from assms(1) obtain staged where s: "steady hr req s" "length (kn_recorded s) \<le> max_events" and a: "agreed req s staged pub"
    by (auto simp: committed_run_def max_events_def)
  have "check_result_decisions ?r = Inr () \<and> check_result_events ?r = Inr ()"
    by (rule steady_result [OF s(1) assms(2) s(2)]) (simp_all add: success_result_def p check_some_def)
  then have "check_result ?r = Inr ()" using a p
    by (auto simp: agreed_def check_result_def bindE_Inr_iff check_result_publication_def check_result_failure_def success_result_def no_failure_def)
  then show ?thesis using s(1) p assms(1)
    by (auto simp: resultK_def kernel_wp succeeded_def success_result_def steady_def selection_ok_def)
qed

lemma publish_succeeds:
  assumes "adapters_ok ad" and "calm hr req k s" and "k \<le> 6" and ref: "valid_ref (rq_operation_id req)" and "kn_plan s = Some p"
    and "kn_selected s = []" and "\<not> op_dry_run (rq_options req)"
  shows "wpK (publishK hr ad req st p) (succeeded hr req) (broken hr req) s"
  unfolding publishK_def
proof (rule wpK_bindI [OF decision_calm [OF assms(2) _ ref assms(5,6)]])
  show "k \<le> 10" using assms(3) by simp
next
  fix x :: unit and s1
  assume s1: "calm hr req (Suc (Suc k)) s1 \<and> kn_plan s1 = Some p \<and> map ds_decision (kn_selected s1) = map dr_id (pl_decisions p)"
  then have c: "calm hr req (Suc (Suc k)) s1" "kn_plan s1 = Some p" by simp_all
  show "wpK (bindK (application_stage ad req st p) (\<lambda>staged. bindK (commit_stage ad req p staged) (\<lambda>pub.
      bindK (getK (\<lambda>s. (kn_selected s, kn_recorded s))) (\<lambda>(selected, events). resultK (success_result req Committed p selected (Some pub) events)))))
      (succeeded hr req) (broken hr req) s1"
  proof (rule wpK_bindI [OF application_calm [OF c(1) _ ref c(2)]])
    show "Suc (Suc k) \<le> 10" using assms(3) by simp
  next
    fix staged s2
    assume s2: "calm hr req (Suc (Suc (Suc (Suc k)))) s2 \<and> kn_plan s2 = Some p \<and> kn_selected s2 = kn_selected s1
      \<and> kn_staged s2 = Some staged \<and> sa_plan_id staged = pl_id p"
    then have "wpK (commit_stage ad req p staged) (\<lambda>pub s'. committed_run hr req pub s' \<and> kn_plan s' = Some p) (broken hr req) s2"
      using s1 assms(1,3,4,7) by (intro commit_calm) auto
    then show "wpK (bindK (commit_stage ad req p staged) (\<lambda>pub. bindK (getK (\<lambda>s. (kn_selected s, kn_recorded s)))
        (\<lambda>(selected, events). resultK (success_result req Committed p selected (Some pub) events)))) (succeeded hr req) (broken hr req) s2"
      by (rule wpK_bindI) (auto intro!: bind_get committed_result [OF _ ref])
  qed
qed

lemma conclude_succeeds:
  assumes "adapters_ok ad" and "calm hr req 6 s" and "valid_ref (rq_operation_id req)" and "kn_selected s = []" and "kn_plan s = Some p"
  shows "wpK (concludeK hr ad req st p) (succeeded hr req) (broken hr req) s"
  unfolding concludeK_def
  using undecided_result [OF assms(2) _ assms(3,5)] publish_succeeds [OF assms(1,2) _ assms(3,5,4)]
  by (auto intro!: bind_get)

lemma run_succeeds:
  assumes "adapters_ok ad" and ref: "valid_ref (rq_operation_id req)"
  shows "wpK (runK hr ad req) (succeeded hr req) (broken hr req) start_run"
proof -
  have "calm hr req 0 start_run" by (simp add: calm_def steady_def start_run_def selection_ok_def)
  then show ?thesis unfolding runK_def
  proof (rule wpK_bindI [OF snapshot_calm [OF _ _ ref]], simp, elim conjE)
    fix st s1 assume "calm hr req (Suc (Suc 0)) s1" "kn_selected s1 = kn_selected start_run"
    then have s1: "calm hr req (Suc (Suc 0)) s1" "kn_selected s1 = []" by (simp_all add: start_run_def)
    show "wpK (bindK (comparison_stage ad req st) (\<lambda>deltas. bindK (planning_stage hr ad req st deltas) (concludeK hr ad req st)))
        (succeeded hr req) (broken hr req) s1"
    proof (rule wpK_bindI [OF comparison_calm [OF s1(1) _ ref]], simp)
      fix deltas s2 assume "calm hr req (Suc (Suc (Suc (Suc 0)))) s2 \<and> kn_selected s2 = kn_selected s1"
      with s1(2) show "wpK (bindK (planning_stage hr ad req st deltas) (concludeK hr ad req st)) (succeeded hr req) (broken hr req) s2"
        by (intro wpK_bindI [OF planning_calm [OF _ _ ref]])
          (auto intro: conclude_succeeds [OF assms(1) _ ref] simp: eval_nat_numeral)
    qed
  qed
qed

section \<open>Failures are reported\<close>

definition reported :: "hash_rules \<Rightarrow> sync_request \<Rightarrow> kernel_run \<Rightarrow> kernel_run \<Rightarrow> bool" where
  "reported hr req s s' \<longleftrightarrow> steady hr req s' \<and> frame s s' \<and> length (kn_recorded s') \<le> Suc (length (kn_recorded s))
     \<and> (\<exists>rest. kn_history s' = kn_history s @ rest \<and> (\<forall>(c, x) \<in> set rest. \<exists>ev. c = Emit_Call ev))"

lemma reported_refl: "steady hr req s \<Longrightarrow> reported hr req s s"
  by (auto simp: reported_def frame_def)

lemma reported_emit:
  assumes "steady hr req s"
  shows "reported hr req s (s\<lparr>kn_recorded := kn_recorded s @ [event_at req (length (kn_recorded s)) stage phase code items],
      kn_history := kn_history s @ [(Emit_Call (event_at req (length (kn_recorded s)) stage phase code items), x)]\<rparr>)"
  using assms by (auto simp: reported_def frame_def steady_def event_at_def)

lemma quiet_emit_reports:
  "steady hr req s \<Longrightarrow> wpK (quietly (emitK ad req stage phase code items tolerate)) (\<lambda>_. reported hr req s) E s"
  by (auto simp: quietly_def emitK_def kernel_wp Let_def emit_failed_def reported_refl reported_emit split: sum.split kernel_fault.split)

lemma recovery_event_reports:
  "steady hr req s \<Longrightarrow> valid_ref (rq_operation_id req) \<Longrightarrow> valid_code code \<Longrightarrow>
    wpK (recovery_event ad req phase code) (\<lambda>_. reported hr req s) E s"
  by (auto simp: recovery_event_def quietly_def kernel_wp Let_def reported_refl reported_emit event_at_checked max_count_def split: sum.split)

definition recoveries :: "history \<Rightarrow> recovery_context list" where
  "recoveries h = concat (map (\<lambda>(c, x). case c of Recover_Call context \<Rightarrow> [context] | _ \<Rightarrow> []) h)"

lemma recoveries_simps [simp]:
  "recoveries [] = []"
  "recoveries (h @ h') = recoveries h @ recoveries h'"
  "recoveries ((c, x) # h) = (case c of Recover_Call context \<Rightarrow> [context] | _ \<Rightarrow> []) @ recoveries h"
  by (simp_all add: recoveries_def)

lemma recoveries_quiet: "quiet h \<Longrightarrow> recoveries h = []"
  by (induction h) (auto simp: quiet_def split: adapter_call.splits)

lemma recoveries_emits: "\<forall>(c, x) \<in> set h. \<exists>ev. c = Emit_Call ev \<Longrightarrow> recoveries h = []"
  by (induction h) auto

text \<open>The history of a failed execution after the fault: events, and at most one attempt to recover.\<close>

definition closing :: "kernel_run \<Rightarrow> kernel_run \<Rightarrow> bool" where
  "closing s s' \<longleftrightarrow> frame s s' \<and> (\<exists>rest. kn_history s' = kn_history s @ rest
     \<and> (\<forall>(c, x) \<in> set rest. (\<exists>ev. c = Emit_Call ev) \<or> (\<exists>context. c = Recover_Call context))
     \<and> length (recoveries rest) \<le> 1 \<and> (\<forall>context \<in> set (recoveries rest). rx_stage context = kn_stage s))"

lemma reported_closing: "reported hr req s s1 \<Longrightarrow> closing s1 s2 \<Longrightarrow> closing s s2"
  unfolding reported_def closing_def
  by (elim exE conjE, intro conjI) (auto simp: frame_def recoveries_emits)

lemma closing_reported: "closing s s1 \<Longrightarrow> reported hr req s1 s2 \<Longrightarrow> closing s s2"
  unfolding reported_def closing_def
  by (elim exE conjE, intro conjI) (auto simp: frame_def recoveries_emits)

lemma recover_reports:
  assumes ad: "adapters_ok ad" and s: "steady hr req s" and ref: "valid_ref (rq_operation_id req)"
  shows "wpK (recoverK ad req code) (\<lambda>recovery s'. steady hr req s' \<and> closing s s'
    \<and> length (kn_recorded s') \<le> length (kn_recorded s) + 2 \<and> (recovery \<noteq> None \<longrightarrow> valid_code code)) E s"
proof -
  have call: "wpK (recover_call ad (recovery_context_of req code s1))
      (\<lambda>recovery s'. steady hr req s' \<and> closing s1 s' \<and> kn_recorded s' = kn_recorded s1
        \<and> (\<forall>m. recovery = Some m \<longrightarrow> valid_code code \<and> check_recovery m = Inr ())) E s1"
    if "steady hr req s1" for s1
  proof -
    have "closing s1 s1" and "closing s1 (s1\<lparr>kn_history := kn_history s1 @ [(Recover_Call (recovery_context_of req code s1), x)]\<rparr>)" for x
      by (auto simp: closing_def frame_def recovery_context_of_def)
    moreover have "steady hr req (s1\<lparr>kn_history := kn_history s1 @ [(Recover_Call ctx, x)]\<rparr>)" for ctx x
      using that by (simp add: steady_def)
    moreover have "check_context (recovery_context_of req code s1) = Inr x \<Longrightarrow> valid_code code" for x
      by (auto simp: check_context_def recovery_context_of_def bindE_Inr_iff check_code_def)
    ultimately show ?thesis using that ad
      by (auto simp: recover_call_def kernel_wp adapters_ok_def split: sum.split)
  qed
  have report: "wpK (recovery_reported ad req recovery) (\<lambda>recovery s'. steady hr req s' \<and> closing s s'
      \<and> length (kn_recorded s') \<le> length (kn_recorded s) + 2 \<and> (recovery \<noteq> None \<longrightarrow> valid_code code)) E s2"
    if r: "reported hr req s s1" "steady hr req s2" "closing s1 s2" "kn_recorded s2 = kn_recorded s1"
      "\<forall>m. recovery = Some m \<longrightarrow> valid_code code \<and> check_recovery m = Inr ()" for recovery s1 s2
  proof (cases recovery)
    case None
    then show ?thesis using r reported_closing [OF r(1,3)] by (auto simp: recovery_reported_def wp_return reported_def)
  next
    case (Some m)
    then have "valid_code (rm_code m)" using r(5) by (auto simp: check_recovery_def bindE_Inr_iff check_code_def)
    then have "wpK (recovery_event ad req Completed_Phase (rm_code m)) (\<lambda>_. reported hr req s2) E s2"
      using r(2) by (intro recovery_event_reports [OF _ ref]) simp_all
    then show ?thesis unfolding Some recovery_reported_def option.case
      by (rule wpK_bindI)
        (use r Some closing_reported [OF reported_closing [OF r(1,3)]] in \<open>auto simp: wp_return reported_def\<close>)
  qed
  show ?thesis
    unfolding recoverK_def
  proof (rule wpK_bindI [OF recovery_event_reports [OF s ref]])
    show "valid_code (u ''SYNC_RECOVERY_STARTED'')" by (simp add: stage_codes)
  next
    fix x :: unit and s1 assume r1: "reported hr req s s1"
    then have s1: "steady hr req s1" by (simp add: reported_def)
    show "wpK (bindK (getK (recovery_context_of req code)) (\<lambda>context. bindK (recover_call ad context) (recovery_reported ad req)))
      (\<lambda>recovery s'. steady hr req s' \<and> closing s s' \<and> length (kn_recorded s') \<le> length (kn_recorded s) + 2
        \<and> (recovery \<noteq> None \<longrightarrow> valid_code code)) E s1"
      by (rule bind_get, rule wpK_bindI [OF call [OF s1]]) (use report [OF r1] in blast)
  qed
qed

definition failed :: "hash_rules \<Rightarrow> sync_request \<Rightarrow> kernel_fault \<Rightarrow> kernel_run \<Rightarrow> kernel_result \<Rightarrow> kernel_run \<Rightarrow> bool" where
  "failed hr req e s r s' \<longleftrightarrow> check_result r = Inr () \<and> kr_events r = kn_recorded s' \<and> emitted (kn_history s') = kn_recorded s'
     \<and> kr_outcome r = (if e = CancelFault then Cancelled_Run else Failed_Run) \<and> kr_publication r = None
     \<and> kr_plan r = kn_plan s \<and> kr_decisions r = kn_selected s \<and> kr_failed_stage r = Some (kn_stage s) \<and> closing s s'"

lemma failure_result:
  assumes s: "steady hr req s" and ref: "valid_ref (rq_operation_id req)" and n: "length (kn_recorded s) \<le> max_events"
    and c: "closing s0 s" and code: "recovery \<noteq> None \<longrightarrow> valid_code (fault_code e)"
  shows "wpK (resultK (failed_result req e (kn_stage s0) recovery s)) (failed hr req e s0) E s"
proof -
  let ?r = "failed_result req e (kn_stage s0) recovery s"
  have "valid_code (recovered_code (kn_attempted s) recovery (fault_code e))"
    using code by (auto simp: recovered_code_def stage_codes split: option.split)
  then have "check_result_decisions ?r = Inr () \<and> check_result_events ?r = Inr ()"
    by (intro steady_result [OF s ref n]) (simp_all add: failed_result_def check_some_def check_code_def)
  then have "check_result ?r = Inr ()"
    by (simp add: check_result_def bindE_Inr_iff check_result_publication_def check_result_failure_def failed_result_def)
  then show ?thesis using s c by (simp add: resultK_def kernel_wp failed_def steady_def closing_def frame_def failed_result_def)
qed

lemma fail_reports:
  assumes ad: "adapters_ok ad" and b: "broken hr req e s" and ref: "valid_ref (rq_operation_id req)"
  shows "wpK (failK ad req e) (failed hr req e s) E s"
  unfolding failK_def
proof (rule bind_get, rule wpK_bindI [OF quiet_emit_reports])
  show "steady hr req s" using b by (simp add: broken_def)
next
  fix x :: unit and s1 assume r1: "reported hr req s s1"
  then have s1: "steady hr req s1" "length (kn_recorded s1) \<le> 13" using b by (simp_all add: reported_def broken_def)
  show "wpK (bindK (recoverK ad req (fault_code e)) (\<lambda>recovery. bindK (getK (failed_result req e (kn_stage s) recovery)) resultK))
      (failed hr req e s) E s1"
    by (rule wpK_bindI [OF recover_reports [OF ad s1(1) ref]], rule bind_get, rule failure_result [OF _ ref])
      (use s1(2) in \<open>auto intro: reported_closing [OF r1] simp: max_events_def\<close>)
qed

section \<open>The properties\<close>

text \<open>An execution ends in a result, made by the body or after the fault that ended it.\<close>

lemma execute_cases:
  assumes "adapters_ok ad" and "valid_ref (rq_operation_id req)"
  obtains (success) r s where "execute hr ad req = (Inr r, kn_history s)" "succeeded hr req r s"
    | (failure) r s e s' where "execute hr ad req = (Inr r, kn_history s')" "broken hr req e s" "failed hr req e s r s'"
proof (cases "runK hr ad req start_run")
  case (Pair x s)
  show thesis
  proof (cases x)
    case (Inr r)
    then have "succeeded hr req r s" using run_succeeds [OF assms, of hr] Pair by (simp add: wpK_def)
    then show thesis using success Pair Inr by (simp add: execute_def handleK_def)
  next
    case (Inl e)
    then have b: "broken hr req e s" using run_succeeds [OF assms, of hr] Pair by (simp add: wpK_def)
    obtain y s' where y: "failK ad req e s = (y, s')" by (cases "failK ad req e s")
    from fail_reports [OF assms(1) b assms(2), of "\<lambda>_ _. False"] y
    obtain r where "y = Inr r" "failed hr req e s r s'" by (auto simp: wpK_def split: sum.splits)
    then show thesis using failure [of r s' e s] Pair Inl y b by (simp add: execute_def handleK_def)
  qed
qed

lemma check_request_ref: "check_request hr req = Inr () \<Longrightarrow> valid_ref (rq_operation_id req)"
  by (simp add: check_request_def bindE_Inr_iff validate_ref_def)

text \<open>C35: Executing a valid request always returns a result, and the result meets the contract of its class:
  no fault of an adapter, and no bound on the events, makes the coordinator raise.\<close>

theorem kernel_always_reports:
  assumes "check_request hr req = Inr ()" and "adapters_ok ad"
  shows "\<exists>r h. execute hr ad req = (Inr r, h) \<and> check_result r = Inr () \<and> kr_events r = emitted h"
  by (rule execute_cases [OF assms(2) check_request_ref [OF assms(1)], of hr]) (auto simp: succeeded_def failed_def)

lemma quiet_no_commit: "quiet h \<Longrightarrow> (Commit_Call staged pub, x) \<notin> set h"
  by (auto simp: quiet_def)

lemma quiet_checks: "quiet h \<Longrightarrow> (Check_Call, x) \<in> set h \<Longrightarrow> x = None"
  by (auto simp: quiet_def)

lemma closing_calls:
  "closing s s' \<Longrightarrow> (c, x) \<in> set (kn_history s') \<Longrightarrow> (\<And>ev. c \<noteq> Emit_Call ev) \<Longrightarrow> (\<And>context. c \<noteq> Recover_Call context)
    \<Longrightarrow> (c, x) \<in> set (kn_history s)"
  by (fastforce simp: closing_def)

lemma failure_commits:
  assumes "broken hr req e s" and "closing s s'" and "(Commit_Call staged pub, x) \<in> set (kn_history s')"
  shows "x = Some e \<and> agreed req s staged pub"
  using assms(1) closing_calls [OF assms(2,3)] by (auto simp: broken_def dest: quiet_no_commit)

lemma success_commits:
  assumes "succeeded hr req r s" and "(Commit_Call staged pub, x) \<in> set (kn_history s)"
  shows "x = None \<and> kr_publication r = Some pub \<and> agreed req s staged pub \<and> kr_decisions r = kn_selected s"
  using assms by (auto simp: succeeded_def committed_run_def dest: quiet_no_commit)

text \<open>C36: A publication is reported exactly when it was committed: the result shows a publication if and only if
  the commit adapter was called with it and returned. In particular nothing that happens after the commit,
  a failing event sink included, turns a committed release into a reported failure.\<close>

theorem commit_is_reported:
  assumes "check_request hr req = Inr ()" and "adapters_ok ad" and run: "execute hr ad req = (Inr r, h)"
  shows "kr_publication r = Some pub \<longleftrightarrow> (\<exists>staged. (Commit_Call staged pub, None) \<in> set h)"
proof (rule execute_cases [OF assms(2) check_request_ref [OF assms(1)], of hr])
  fix r' s assume "execute hr ad req = (Inr r', kn_history s)" "succeeded hr req r' s"
  with run have r: "h = kn_history s" "succeeded hr req r s" by simp_all
  then show ?thesis using success_commits [OF r(2)] by (auto simp: succeeded_def committed_run_def)
next
  fix r' s e s' assume "execute hr ad req = (Inr r', kn_history s')" "broken hr req e s" "failed hr req e s r' s'"
  with run have r: "h = kn_history s'" "failed hr req e s r s'" "broken hr req e s" by simp_all
  then have "kr_publication r = None" "closing s s'" by (simp_all add: failed_def)
  then show ?thesis using failure_commits [OF r(3)] r(1) by fastforce
qed

text \<open>C37: The commit adapter is only called when everything is agreed: not in a dry run, with the plan of the
  result, for the application staged under that plan, with the artifacts that were staged, and after every
  decision of the plan has a selection among its declared options, made for this plan.\<close>

theorem commit_is_agreed:
  assumes "check_request hr req = Inr ()" and "adapters_ok ad" and run: "execute hr ad req = (Inr r, h)"
    and c: "(Commit_Call staged pub, x) \<in> set h"
  shows "\<exists>p. kr_plan r = Some p \<and> check_plan hr p = Inr () \<and> \<not> op_dry_run (rq_options req)
    \<and> sa_plan_id staged = pl_id p \<and> pb_plan_id pub = pl_id p \<and> pb_artifacts pub = sa_artifacts staged
    \<and> map ds_decision (kr_decisions r) = map dr_id (pl_decisions p)
    \<and> (\<forall>s \<in> set (kr_decisions r). ds_plan s = Some (pl_id p)
       \<and> (\<exists>d \<in> set (pl_decisions p). dr_id d = ds_decision s \<and> ds_option s \<in> set (dr_options d)))"
proof -
  have agreed_plan: ?thesis if "steady hr req s" "agreed req s staged pub" "kr_plan r = kn_plan s" "kr_decisions r = kn_selected s" for s
    using that by (auto simp: agreed_def steady_def selection_ok_def plan_for_def chosen_from_def)
  show ?thesis
  proof (rule execute_cases [OF assms(2) check_request_ref [OF assms(1)], of hr])
    fix r' s assume "execute hr ad req = (Inr r', kn_history s)" "succeeded hr req r' s"
    with run have r: "h = kn_history s" "succeeded hr req r s" by simp_all
    then have a: "agreed req s staged pub" "kr_decisions r = kn_selected s" "kr_publication r = Some pub"
      using success_commits [OF r(2)] c by blast+
    then have "steady hr req s" "kr_plan r = kn_plan s" using r(2) by (auto simp: succeeded_def committed_run_def)
    then show ?thesis using agreed_plan a by blast
  next
    fix r' s e s' assume "execute hr ad req = (Inr r', kn_history s')" "broken hr req e s" "failed hr req e s r' s'"
    with run have r: "h = kn_history s'" "failed hr req e s r s'" "broken hr req e s" by simp_all
    then have "kr_plan r = kn_plan s" "kr_decisions r = kn_selected s" "closing s s'" by (simp_all add: failed_def)
    moreover have "steady hr req s" using r(3) by (simp add: broken_def)
    ultimately show ?thesis using agreed_plan failure_commits [OF r(3)] r(1) c by blast
  qed
qed

lemma unique_split:
  assumes "xs @ x # zs = as @ y # bs" and "P y" and "\<forall>z \<in> set xs. \<not> P z" and "\<forall>z \<in> set zs. \<not> P z"
  shows "as = xs \<and> y = x \<and> bs = zs"
  using assms by (induction xs arbitrary: as) (auto simp: Cons_eq_append_conv)

text \<open>C38: The commit is the point of no return. Just before it a check for cancellation has passed, no check
  before it has raised, and after it only the event of its completion is emitted: a cancellation is never
  noticed, and no recovery is started, once a release is committed.\<close>

theorem commit_is_last:
  assumes "check_request hr req = Inr ()" and "adapters_ok ad" and run: "execute hr ad req = (Inr r, h)"
    and h: "h = before @ (Commit_Call staged pub, None) # after"
  shows "(\<exists>h'. before = h' @ [(Check_Call, None)]) \<and> (\<exists>e x. after = [(Emit_Call e, x)])
    \<and> (\<forall>x. (Check_Call, x) \<in> set before \<longrightarrow> x = None) \<and> recoveries h = []"
proof (rule execute_cases [OF assms(2) check_request_ref [OF assms(1)], of hr])
  fix r' s assume "execute hr ad req = (Inr r', kn_history s)" "succeeded hr req r' s"
  with run have r: "h = kn_history s" "succeeded hr req r s" by simp_all
  let ?commit = "\<lambda>(c, x :: kernel_fault option). \<exists>staged pub. c = Commit_Call staged pub"
  have "(Commit_Call staged pub, None) \<in> set (kn_history s)" unfolding r(1) [symmetric] h by simp
  from success_commits [OF r(2) this] r(2) have "committed_run hr req pub s" by (auto simp: succeeded_def)
  then obtain h' staged' e x where
    s: "h = (h' @ [(Check_Call, None)]) @ (Commit_Call staged' pub, None) # [(Emit_Call e, x)]" and q: "quiet h'"
    using r(1) by (auto simp: committed_run_def)
  have "before = h' @ [(Check_Call, None)] \<and> (Commit_Call staged pub, None :: kernel_fault option) = (Commit_Call staged' pub, None)
      \<and> after = [(Emit_Call e, x)]"
    by (rule unique_split [of _ _ _ _ _ _ ?commit, OF trans [OF s [symmetric] h]])
      (use q in \<open>auto dest: quiet_no_commit\<close>)
  then show ?thesis using q s by (auto simp: recoveries_quiet dest: quiet_checks)
next
  fix r' s e s' assume "execute hr ad req = (Inr r', kn_history s')" "broken hr req e s" "failed hr req e s r' s'"
  with run have r: "h = kn_history s'" "failed hr req e s r s'" "broken hr req e s" by simp_all
  then have "closing s s'" by (simp add: failed_def)
  from failure_commits [OF r(3) this, of staged pub None] h r(1) show ?thesis by simp
qed

lemma closing_recoveries: "closing s s' \<Longrightarrow> recoveries (kn_history s) = [] \<Longrightarrow>
    length (recoveries (kn_history s')) \<le> 1 \<and> (\<forall>context \<in> set (recoveries (kn_history s')). rx_stage context = kn_stage s)"
  by (auto simp: closing_def)

lemma broken_recoveries: "broken hr req e s \<Longrightarrow> recoveries (kn_history s) = []"
  by (auto simp: broken_def recoveries_quiet)

text \<open>C39: A cancellation noticed by a check ends the execution as cancelled, and any other fault of a check as
  failed; nothing is published then. Recovery is started at most once, only in an execution that did not
  succeed, and it is told the stage the result names as failed.\<close>

theorem cancellation_ends_the_run:
  assumes "check_request hr req = Inr ()" and "adapters_ok ad" and run: "execute hr ad req = (Inr r, h)"
  shows "((Check_Call, Some e) \<in> set h \<longrightarrow>
      kr_outcome r = (if e = CancelFault then Cancelled_Run else Failed_Run) \<and> kr_publication r = None)
    \<and> length (recoveries h) \<le> 1
    \<and> (\<forall>context \<in> set (recoveries h). kr_outcome r \<in> {Cancelled_Run, Failed_Run} \<and> kr_failed_stage r = Some (rx_stage context))"
proof (rule execute_cases [OF assms(2) check_request_ref [OF assms(1)], of hr])
  fix r' s assume "execute hr ad req = (Inr r', kn_history s)" "succeeded hr req r' s"
  with run have r: "h = kn_history s" "succeeded hr req r s" by simp_all
  then have "recoveries h = []" "(Check_Call, Some e) \<notin> set h"
    by (auto simp: succeeded_def committed_run_def recoveries_quiet dest: quiet_checks)
  then show ?thesis by simp
next
  fix r' s f s' assume "execute hr ad req = (Inr r', kn_history s')" "broken hr req f s" "failed hr req f s r' s'"
  with run have r: "h = kn_history s'" "failed hr req f s r s'" "broken hr req f s" by simp_all
  then have c: "closing s s'" by (simp add: failed_def)
  have "e = f" if "(Check_Call, Some e) \<in> set h"
    using closing_calls [OF c, of Check_Call "Some e"] that r(1,3) by (auto simp: broken_def dest: quiet_checks)
  then show ?thesis using closing_recoveries [OF c broken_recoveries [OF r(3)]] r(1,2)
    by (auto simp: failed_def)
qed

section \<open>An execution\<close>

text \<open>One delta and one decision; the adapters answer with fixed values.\<close>

definition demo_document :: sync_document where
  "demo_document = \<lparr>sd_ref = u ''master'', sd_sha256 = replicate 64 98, sd_count = 3, sd_provenance = []\<rparr>"

definition demo_request :: sync_request where
  "demo_request = \<lparr>rq_operation_id = u ''op-1'', rq_master = demo_document, rq_manifest = None, rq_snapshots = [],
     rq_options = demo_options, rq_replayed = []\<rparr>"

definition demo_decision :: decision_request where
  "demo_decision = \<lparr>dr_id = u ''d1'', dr_code = u ''MERGE'', dr_subjects = [u ''person-1''], dr_options = [u ''KEEP'', u ''TAKE''],
     dr_destructive = []\<rparr>"

definition demo_plan_id :: ustr where
  "demo_plan_id = u ''plan:'' @ replicate 64 97"

definition demo_publication :: sync_publication where
  "demo_publication = \<lparr>pb_ref = u ''g0001'', pb_plan_id = demo_plan_id, pb_artifacts = [u ''master.ged'']\<rparr>"

definition demo_adapters :: "nat \<Rightarrow> adapters" where
  "demo_adapters cancel_at = \<lparr>
     ad_capture = (\<lambda>h r. Inr \<lparr>st_ref = u ''state-1'', st_master = rq_master r, st_manifest = rq_manifest r,
       st_snapshots = rq_snapshots r, st_fingerprint = replicate 64 97\<rparr>),
     ad_compare = (\<lambda>h st p. Inr [demo_delta]),
     ad_plan = (\<lambda>h st ds p. Inr \<lparr>po_deltas = ds, po_decisions = [demo_decision], po_losses = []\<rparr>),
     ad_decide = (\<lambda>h d. Inr \<lparr>ds_decision = dr_id d, ds_option = u ''TAKE'', ds_plan = None\<rparr>),
     ad_stage = (\<lambda>h st p sel. Inr \<lparr>sa_ref = u ''stage-1'', sa_plan_id = pl_id p, sa_artifacts = [u ''master.ged'']\<rparr>),
     ad_prepare = (\<lambda>h staged. Inr demo_publication),
     ad_commit = (\<lambda>h staged pub. Inr ()),
     ad_recover = (\<lambda>h context. Inr \<lparr>rm_ref = u ''recovery-1'', rm_prior_preserved = True, rm_staged_removed = True,
       rm_code = u ''RESTORED''\<rparr>),
     ad_check = (\<lambda>h. if length h = cancel_at then Inl CancelFault else Inr ()),
     ad_emit = (\<lambda>h e. Inr ())\<rparr>"

lemma demo_adapters_ok: "adapters_ok (demo_adapters n)"
proof -
  have "check_publication demo_publication = Inr ()" by code_simp
  moreover have "check_recovery \<lparr>rm_ref = u ''recovery-1'', rm_prior_preserved = True, rm_staged_removed = True,
       rm_code = u ''RESTORED''\<rparr> = Inr ()" by code_simp
  ultimately show ?thesis by (auto simp: adapters_ok_def demo_adapters_def)
qed

lemma demo_request_ok: "check_request demo_rules demo_request = Inr ()"
  by code_simp

lemma demo_commits:
  obtains r h where "execute demo_rules (demo_adapters 0) demo_request = (Inr r, h)" "kr_publication r = Some demo_publication"
proof -
  have "case execute demo_rules (demo_adapters 0) demo_request of (Inl _, _) \<Rightarrow> False
    | (Inr r, h) \<Rightarrow> kr_publication r = Some demo_publication" by code_simp
  then show thesis using that by (auto split: prod.splits sum.splits)
qed

lemma kernel_always_reports_witness:
  "\<exists>r h. execute demo_rules (demo_adapters 6) demo_request = (Inr r, h) \<and> check_result r = Inr ()"
  using kernel_always_reports [OF demo_request_ok demo_adapters_ok] by blast

lemma commit_is_reported_witness:
  "\<exists>r h staged. execute demo_rules (demo_adapters 0) demo_request = (Inr r, h) \<and> (Commit_Call staged demo_publication, None) \<in> set h"
proof -
  obtain r h where "execute demo_rules (demo_adapters 0) demo_request = (Inr r, h)" "kr_publication r = Some demo_publication"
    by (rule demo_commits)
  with commit_is_reported [OF demo_request_ok demo_adapters_ok this(1), of demo_publication] show ?thesis by blast
qed

lemma demo_commit_call:
  obtains r h staged where "execute demo_rules (demo_adapters 0) demo_request = (Inr r, h)"
    "(Commit_Call staged demo_publication, None) \<in> set h"
proof -
  have "case execute demo_rules (demo_adapters 0) demo_request of (Inl _, _) \<Rightarrow> False
    | (Inr r, h) \<Rightarrow> list_ex (\<lambda>(c, x). (case c of Commit_Call staged pub \<Rightarrow> pub = demo_publication | _ \<Rightarrow> False) \<and> x = None) h"
    by code_simp
  then obtain r h where "execute demo_rules (demo_adapters 0) demo_request = (Inr r, h)"
    "list_ex (\<lambda>(c, x). (case c of Commit_Call staged pub \<Rightarrow> pub = demo_publication | _ \<Rightarrow> False) \<and> x = None) h"
    by (auto split: prod.splits sum.splits)
  then show thesis using that by (auto simp: list_ex_iff split: adapter_call.splits)
qed

lemma commit_is_agreed_witness:
  "\<exists>r h p. execute demo_rules (demo_adapters 0) demo_request = (Inr r, h) \<and> kr_plan r = Some p
     \<and> map ds_decision (kr_decisions r) = map dr_id (pl_decisions p)"
proof -
  obtain r h staged where d: "execute demo_rules (demo_adapters 0) demo_request = (Inr r, h)"
    "(Commit_Call staged demo_publication, None) \<in> set h" by (rule demo_commit_call)
  from commit_is_agreed [OF demo_request_ok demo_adapters_ok d] d(1) show ?thesis by blast
qed

lemma commit_is_last_witness:
  "\<exists>r h before staged e x. execute demo_rules (demo_adapters 0) demo_request = (Inr r, h)
     \<and> h = before @ [(Commit_Call staged demo_publication, None), (Emit_Call e, x)]"
proof -
  obtain r h staged where d: "execute demo_rules (demo_adapters 0) demo_request = (Inr r, h)"
    "(Commit_Call staged demo_publication, None) \<in> set h" by (rule demo_commit_call)
  from split_list [OF d(2)] obtain before after' where s: "h = before @ (Commit_Call staged demo_publication, None) # after'" by blast
  from commit_is_last [OF demo_request_ok demo_adapters_ok d(1) s] d(1) s show ?thesis by blast
qed

lemma cancellation_ends_the_run_witness:
  "\<exists>r h. execute demo_rules (demo_adapters 6) demo_request = (Inr r, h) \<and> kr_outcome r = Cancelled_Run \<and> length (recoveries h) \<le> 1"
proof -
  have "case execute demo_rules (demo_adapters 6) demo_request of (Inl _, _) \<Rightarrow> False
    | (Inr r, h) \<Rightarrow> (Check_Call, Some CancelFault) \<in> set h" by code_simp
  then obtain r h where "execute demo_rules (demo_adapters 6) demo_request = (Inr r, h)" "(Check_Call, Some CancelFault) \<in> set h"
    by (auto split: prod.splits sum.splits)
  with cancellation_ends_the_run [OF demo_request_ok demo_adapters_ok this(1), of CancelFault] show ?thesis by simp
qed

end
