(* ===== verification/Duplicate_Search.thy ===== *)
theory Duplicate_Search
  imports Sync_Match "HOL-Library.Multiset"
begin

text \<open>
  The bounded search for duplicate people of \<open>gedcom/identity.py\<close>: the normalised blocking keys of a
  person, the buckets of people that share a key, the candidate pairs the buckets give under the hard
  limits, the estimate of that work, and the ranked candidates. The similarity score is the argument
  \<open>cr_assess\<close> of \<open>core_rules\<close>; Unicode tables are the fields of \<open>text_rules\<close>. A Python \<open>set\<close> of keys is
  the sorted list the profile keeps, a tuple of texts a list, so that the order of the library is
  Python's order on keys. The generator of the pairs is the list of the pairs it yields.
\<close>

section \<open>Limits\<close>

record search_limits =
  sl_bucket :: int
  sl_pairs_per_person :: int
  sl_scored :: int
  sl_candidates :: int
  sl_adjudications_per_person :: int
  sl_adjudications :: int

definition default_limits :: search_limits where
  "default_limits = \<lparr>sl_bucket = 128, sl_pairs_per_person = 32, sl_scored = 50000, sl_candidates = 50000,
     sl_adjudications_per_person = 4, sl_adjudications = 250\<rparr>"

text \<open>The messages of the \<open>ValueError\<close>s of this part.\<close>

datatype search_error = LimitNotPositive ustr | ThresholdRange

definition check_limits :: "search_limits \<Rightarrow> search_error + search_limits" where
  "check_limits l = foldE (\<lambda>_ (name, value). if value \<le> 0 then Inl (LimitNotPositive name) else Inr l) l
     [(u ''max_bucket_size'', sl_bucket l), (u ''max_pairs_per_person'', sl_pairs_per_person l),
      (u ''max_scored_pairs'', sl_scored l), (u ''max_candidates'', sl_candidates l),
      (u ''max_adjudications_per_person'', sl_adjudications_per_person l), (u ''max_adjudications'', sl_adjudications l)]"

definition positive_limits :: "search_limits \<Rightarrow> bool" where
  "positive_limits l \<longleftrightarrow> sl_bucket l > 0 \<and> sl_pairs_per_person l > 0 \<and> sl_scored l > 0 \<and> sl_candidates l > 0
     \<and> sl_adjudications_per_person l > 0 \<and> sl_adjudications l > 0"

lemma check_limits_iff: "check_limits l = Inr l' \<longleftrightarrow> positive_limits l \<and> l' = l"
  by (auto simp: check_limits_def positive_limits_def)

section \<open>Blocking keys\<close>

text \<open>\<open>\b(\d{4})\b\<close>: digits are word characters, so a match is a whole run of word characters.\<close>

definition extract_year :: "text_rules \<Rightarrow> ustr \<Rightarrow> nat option" where
  "extract_year tr date_value =
     map_option decimal_value (find (\<lambda>w. length w = 4 \<and> list_all is_decimal w) (word_runs (tr_word tr) date_value))"

definition birth_year :: "text_rules \<Rightarrow> individual \<Rightarrow> nat option" where
  "birth_year tr p = extract_year tr (in_birth_date p)"

definition death_year :: "text_rules \<Rightarrow> individual \<Rightarrow> nat option" where
  "death_year tr p = extract_year tr (in_death_date p)"

definition normalised_key_text :: "text_rules \<Rightarrow> ustr \<Rightarrow> nat \<Rightarrow> ustr" where
  "normalised_key_text tr value limit =
     (let normalised = filter (\<lambda>c. is_lower c \<or> is_digit c) (tr_casefold tr value) in
      if limit \<noteq> 0 then take limit normalised else normalised)"

definition or_unknown :: "ustr \<Rightarrow> ustr" where
  "or_unknown s = (if s = [] then u ''?'' else s)"

record duplicate_profile =
  dp_source_file :: ustr
  dp_keys :: "ustr list list"

type_synonym name_key = "ustr \<times> ustr"

text \<open>The given name and surname of each name of the record, normalised.\<close>

definition name_evidence :: "text_rules \<Rightarrow> individual \<Rightarrow> name_key list" where
  "name_evidence tr p = map (\<lambda>n. case name_parts n of (given, surname) \<Rightarrow>
       (normalised_key_text tr given 0, normalised_key_text tr surname 0))
     (filter (\<lambda>n. n \<noteq> []) (full_name p # in_alternate_names p))"

definition name_keys :: "nat option \<Rightarrow> ustr \<Rightarrow> name_key \<Rightarrow> ustr list list" where
  "name_keys year gender n =
     (let given = fst n; surname = snd n; full = given @ surname;
          year_bucket = (case year of None \<Rightarrow> u ''?'' | Some y \<Rightarrow> dec_nat (y div 5));
          surname_initial = or_unknown (take 1 surname); given_initial = or_unknown (take 1 given) in
      [[u ''sn'', surname_initial, u ''gn'', given_initial, u ''y'', year_bucket],
       [u ''sn'', surname_initial, u ''y'', year_bucket],
       [u ''gn'', given_initial, u ''y'', year_bucket],
       [u ''name'', surname_initial, given_initial]]
      @ (if full \<noteq> [] then [[u ''name-exact'', full]] else [])
      @ (case year of None \<Rightarrow> [] | Some y \<Rightarrow>
           if surname \<noteq> [] then [[u ''name-birth'', take 8 surname, dec_nat y, gender]] else []))"

record event_key =
  ek_year :: ustr
  ek_place :: ustr
  ek_countries :: "ustr list"

definition event_evidence :: "text_rules \<Rightarrow> ustr \<Rightarrow> ustr \<Rightarrow> ustr list \<Rightarrow> event_key" where
  "event_evidence tr date place countries =
     \<lparr>ek_year = (case extract_year tr date of None \<Rightarrow> [] | Some y \<Rightarrow> dec_nat y),
      ek_place = normalised_key_text tr place 18,
      ek_countries = map (\<lambda>c. normalised_key_text tr c 0) countries\<rparr>"

definition event_keys :: "ustr \<Rightarrow> event_key \<Rightarrow> ustr list list" where
  "event_keys label e =
     (if ek_year e \<noteq> []
      then [label, u ''year'', ek_year e] # map (\<lambda>c. [label, u ''year-country'', ek_year e, c]) (ek_countries e)
      else [])
     @ (if ek_place e \<noteq> [] then [[label, u ''place'', ek_place e]] else [])"

definition combined_keys :: "ustr \<Rightarrow> event_key \<Rightarrow> event_key \<Rightarrow> name_key list \<Rightarrow> ustr list list" where
  "combined_keys gender b d ns =
     (if ek_year b \<noteq> [] \<and> ek_year d \<noteq> [] then [[u ''life'', ek_year b, ek_year d, gender]] else [])
     @ (if ek_year b \<noteq> [] \<and> ek_countries b \<noteq> [] then [[u ''birth-refined'', ek_year b, hd (ek_countries b), gender]] else [])
     @ (if ek_year d \<noteq> [] \<and> ek_countries d \<noteq> [] then [[u ''death-refined'', ek_year d, hd (ek_countries d), gender]] else [])
     @ (if ek_place b \<noteq> [] \<and> ns \<noteq> [] then [[u ''birth-place-name'', ek_place b, take 8 (snd (hd ns))]] else [])
     @ (if ek_place d \<noteq> [] \<and> ns \<noteq> [] then [[u ''death-place-name'', ek_place d, take 8 (snd (hd ns))]] else [])"

definition relative_keys :: "text_rules \<Rightarrow> ustr \<Rightarrow> relative_identity \<Rightarrow> ustr list list" where
  "relative_keys tr role r =
     (let name = normalised_key_text tr (ri_name r) 18 in
      if name = [] then []
      else [role, name] # (case extract_year tr (ri_birth_date r) of None \<Rightarrow> []
        | Some y \<Rightarrow> [[role, take 12 name, dec_nat y]]))"

definition duplicate_profile :: "text_rules \<Rightarrow> individual \<Rightarrow> duplicate_profile" where
  "duplicate_profile tr p =
     (let year = birth_year tr p; gender = or_unknown (normalised_key_text tr (in_gender p) 0);
          ns = name_evidence tr p;
          b = event_evidence tr (in_birth_date p) (in_birth_place p) (birth_countries tr p);
          d = event_evidence tr (in_death_date p) (in_death_place p) (death_countries tr p);
          relatives = (\<lambda>role rs. concat (map (relative_keys tr role) (take 16 rs))) in
      \<lparr>dp_source_file = in_source_file p,
       dp_keys = sort (remdups (concat (map (name_keys year gender) ns)
         @ event_keys (u ''birth'') b @ event_keys (u ''death'') d @ combined_keys gender b d ns
         @ relatives (u ''partner'') (in_partners p) @ relatives (u ''parent'') (in_parents p)
         @ relatives (u ''child'') (in_children p)))\<rparr>)"

lemma profile_keys_distinct [simp]: "distinct (dp_keys (duplicate_profile tr p))"
  by (simp add: duplicate_profile_def Let_def)

section \<open>Buckets\<close>

text \<open>A \<open>defaultdict\<close> is an association list in the order of its first entries.\<close>

definition count_in :: "('k \<times> nat) list \<Rightarrow> 'k \<Rightarrow> nat" where
  "count_in d k = (case map_of d k of None \<Rightarrow> 0 | Some n \<Rightarrow> n)"

definition count_key :: "('k \<times> nat) list \<Rightarrow> 'k \<Rightarrow> ('k \<times> nat) list" where
  "count_key d k = AList.update k (count_in d k + 1) d"

definition blocking_frequencies :: "duplicate_profile list \<Rightarrow> (ustr list \<times> nat) list" where
  "blocking_frequencies profiles = foldl (\<lambda>d p. foldl count_key d (dp_keys p)) [] profiles"

definition bounded_blocking_buckets :: "duplicate_profile list \<Rightarrow> (ustr list \<times> nat) list \<Rightarrow> search_limits
    \<Rightarrow> (ustr list \<times> nat list) list" where
  "bounded_blocking_buckets profiles frequencies l =
     foldl (\<lambda>d (index, p). foldl (\<lambda>d k. if int (count_in frequencies k) \<le> sl_bucket l then append_entry k index d else d)
       d (dp_keys p)) [] (enumerate 0 profiles)"

section \<open>Candidate pairs\<close>

record pair_state =
  ps_counts :: "nat list"
  ps_pairs :: "(nat \<times> nat) list"
  ps_stopped :: bool

record pair_context =
  pc_profiles :: "duplicate_profile list"
  pc_limits :: search_limits
  pc_cross :: bool
  pc_frequencies :: "(ustr list \<times> nat) list"
  pc_eligible :: "ustr list list list"

definition key_rank :: "pair_context \<Rightarrow> ustr list \<Rightarrow> nat \<times> ustr list" where
  "key_rank c k = (count_in (pc_frequencies c) k, k)"

text \<open>\<open>min\<close> with a key of the shared eligible keys; \<open>None\<close> would be its error on an empty set, which
  the buckets exclude (lemma \<open>owner_exists\<close>).\<close>

definition pair_owner :: "pair_context \<Rightarrow> nat \<Rightarrow> nat \<Rightarrow> ustr list option" where
  "pair_owner c left right =
     (case sort_key (key_rank c) (filter (\<lambda>k. k \<in> set (pc_eligible c ! right)) (pc_eligible c ! left)) of
        [] \<Rightarrow> None | k # ks \<Rightarrow> Some k)"

definition full_count :: "pair_context \<Rightarrow> pair_state \<Rightarrow> nat \<Rightarrow> bool" where
  "full_count c s i \<longleftrightarrow> int (ps_counts s ! i) \<ge> sl_pairs_per_person (pc_limits c)"

definition same_source :: "pair_context \<Rightarrow> nat \<Rightarrow> nat \<Rightarrow> bool" where
  "same_source c left right \<longleftrightarrow> dp_source_file (pc_profiles c ! left) = dp_source_file (pc_profiles c ! right)"

definition emit_pair :: "nat \<Rightarrow> nat \<Rightarrow> pair_state \<Rightarrow> pair_state" where
  "emit_pair left right s = (let counts = (ps_counts s)[left := ps_counts s ! left + 1] in
     s\<lparr>ps_counts := counts[right := counts ! right + 1], ps_pairs := ps_pairs s @ [(left, right)]\<rparr>)"

fun right_loop :: "pair_context \<Rightarrow> ustr list \<Rightarrow> nat \<Rightarrow> nat list \<Rightarrow> pair_state \<Rightarrow> pair_state" where
  "right_loop c key left [] s = s"
| "right_loop c key left (right # rights) s =
     (if int (length (ps_pairs s)) \<ge> sl_scored (pc_limits c) then s\<lparr>ps_stopped := True\<rparr>
      else if full_count c s left then s
      else if full_count c s right then right_loop c key left rights s
      else if pc_cross c \<and> same_source c left right then right_loop c key left rights s
      else if pair_owner c left right \<noteq> Some key then right_loop c key left rights s
      else right_loop c key left rights (emit_pair left right s))"

fun left_loop :: "pair_context \<Rightarrow> ustr list \<Rightarrow> nat list \<Rightarrow> pair_state \<Rightarrow> pair_state" where
  "left_loop c key [] s = s"
| "left_loop c key (left # lefts) s =
     (if ps_stopped s then s
      else if full_count c s left then left_loop c key lefts s
      else left_loop c key lefts (right_loop c key left lefts s))"

definition bucket_step :: "pair_context \<Rightarrow> (ustr list \<times> nat list) list \<Rightarrow> pair_state \<Rightarrow> ustr list \<Rightarrow> pair_state" where
  "bucket_step c buckets s key = (if ps_stopped s then s else left_loop c key (entries buckets key) s)"

definition bounded_candidate_pairs :: "duplicate_profile list \<Rightarrow> search_limits \<Rightarrow> bool \<Rightarrow> (nat \<times> nat) list" where
  "bounded_candidate_pairs profiles l cross_source_only =
     (let frequencies = blocking_frequencies profiles;
          buckets = bounded_blocking_buckets profiles frequencies l;
          c = \<lparr>pc_profiles = profiles, pc_limits = l, pc_cross = cross_source_only, pc_frequencies = frequencies,
               pc_eligible = map (\<lambda>p. filter (\<lambda>k. k \<in> fst ` set buckets) (dp_keys p)) profiles\<rparr> in
      ps_pairs (foldl (bucket_step c buckets)
        \<lparr>ps_counts = replicate (length profiles) 0, ps_pairs = [], ps_stopped = False\<rparr>
        (sort_key (key_rank c) (map fst buckets))))"

section \<open>The estimate\<close>

record search_plan =
  sp_records :: nat
  sp_keys :: nat
  sp_bounded_buckets :: nat
  sp_oversized_buckets :: nat
  sp_raw_pairs :: int
  sp_scored :: int
  sp_candidates :: int
  sp_adjudications :: "int \<times> int"
  sp_tokens :: "int \<times> int"
  sp_policy :: ustr

text \<open>The counts of each key in total and per source file.\<close>

definition count_source :: "ustr \<Rightarrow> (ustr list \<times> (ustr \<times> nat) list) list \<Rightarrow> ustr list \<Rightarrow> (ustr list \<times> (ustr \<times> nat) list) list" where
  "count_source source d k = AList.update k (count_key (entries d k) source) d"

definition raw_pair_upper_bound :: "duplicate_profile list \<Rightarrow> bool \<Rightarrow> int" where
  "raw_pair_upper_bound profiles cross_source_only =
     (let totals = blocking_frequencies profiles;
          source_totals = foldl (\<lambda>d p. foldl (count_source (dp_source_file p)) d (dp_keys p)) [] profiles;
          pairs = (\<lambda>n. int n * (int n - 1) div 2) in
      sum_list (map (\<lambda>(key, total). pairs total
        - (if cross_source_only then sum_list (map (\<lambda>(s, n). pairs n) (entries source_totals key)) else 0)) totals))"

definition estimate_duplicate_search :: "text_rules \<Rightarrow> individual list \<Rightarrow> search_limits \<Rightarrow> bool \<Rightarrow> search_plan" where
  "estimate_duplicate_search tr people l cross_source_only =
     (let profiles = map (duplicate_profile tr) people; frequencies = blocking_frequencies profiles;
          raw_pairs = raw_pair_upper_bound profiles cross_source_only;
          scored = min (min raw_pairs (sl_scored l)) (int (length people) * sl_pairs_per_person l div 2);
          candidates = min scored (sl_candidates l);
          adjudications = min (min candidates (sl_adjudications l)) (int (length people) * sl_adjudications_per_person l div 2) in
      \<lparr>sp_records = length people, sp_keys = length frequencies,
       sp_bounded_buckets = length (filter (\<lambda>(k, n). int n \<le> sl_bucket l) frequencies),
       sp_oversized_buckets = length (filter (\<lambda>(k, n). int n > sl_bucket l) frequencies),
       sp_raw_pairs = raw_pairs, sp_scored = scored, sp_candidates = candidates,
       sp_adjudications = (0, adjudications), sp_tokens = (0, adjudications * 5000),
       sp_policy = u ''skip pairwise expansion; use bounded exact life event place and relationship keys''\<rparr>)"

section \<open>Ranked candidates\<close>

text \<open>The heap of \<open>heapq\<close> is the ascending list of its elements: its first element is the least, and
  \<open>heapreplace\<close> takes the least out before the new one is put in.\<close>

definition ranked_pairs :: "('s::linordered_idom) core_rules \<Rightarrow> individual list \<Rightarrow> 's \<Rightarrow> nat \<times> nat \<Rightarrow> ('s \<times> int \<times> int) option" where
  "ranked_pairs core people threshold p =
     (let score = as_score (cr_assess core (people ! fst p) (people ! snd p)) in
      if score \<ge> threshold then Some (score, - int (fst p), - int (snd p)) else None)"

definition keep_candidate :: "int \<Rightarrow> ('c::linorder) list \<Rightarrow> 'c \<Rightarrow> 'c list" where
  "keep_candidate limit candidates x =
     (if int (length candidates) < limit then insort x candidates
      else case candidates of [] \<Rightarrow> [] | least # others \<Rightarrow> if x > least then insort x others else candidates)"

definition find_duplicate_candidates :: "('s::linordered_idom) core_rules \<Rightarrow> text_rules \<Rightarrow> individual list \<Rightarrow> 's
    \<Rightarrow> search_limits \<Rightarrow> search_error + (nat \<times> nat \<times> 's) list" where
  "find_duplicate_candidates core tr people threshold l =
     (if \<not> (0 \<le> threshold \<and> threshold \<le> 100) then Inl ThresholdRange
      else (let pairs = bounded_candidate_pairs (map (duplicate_profile tr) people) l True;
                candidates = foldl (\<lambda>h p. case ranked_pairs core people threshold p of
                   None \<Rightarrow> h | Some x \<Rightarrow> keep_candidate (sl_candidates l) h x) [] pairs in
        Inr (map (\<lambda>(score, left, right). (nat (- left), nat (- right), score))
          (sort_key (\<lambda>(score, left, right). (- score, - left, - right)) candidates))))"

section \<open>What the loops yield\<close>

text \<open>How many pairs hold a person, and when a bound keeps a pair from being yielded.\<close>

definition pairs_of :: "(nat \<times> nat) list \<Rightarrow> nat \<Rightarrow> nat" where
  "pairs_of ps i = length (filter (\<lambda>(a, b). a = i \<or> b = i) ps)"

definition bound_hit :: "search_limits \<Rightarrow> (nat \<times> nat) list \<Rightarrow> nat \<Rightarrow> nat \<Rightarrow> bool" where
  "bound_hit l ps i j \<longleftrightarrow> int (length ps) \<ge> sl_scored l \<or> int (pairs_of ps i) \<ge> sl_pairs_per_person l
     \<or> int (pairs_of ps j) \<ge> sl_pairs_per_person l"

lemma pairs_of_simps [simp]: "pairs_of [] i = 0"
  "pairs_of (ps @ qs) i = pairs_of ps i + pairs_of qs i"
  "pairs_of [(a, b)] i = (if a = i \<or> b = i then 1 else 0)"
  by (simp_all add: pairs_of_def)

lemma bound_hit_append: "bound_hit l ps i j \<Longrightarrow> bound_hit l (ps @ qs) i j"
  by (auto simp: bound_hit_def)

definition within_bounds :: "pair_context \<Rightarrow> pair_state \<Rightarrow> bool" where
  "within_bounds c s \<longleftrightarrow> length (ps_counts s) = length (pc_profiles c)
     \<and> (\<forall>i < length (pc_profiles c). ps_counts s ! i = pairs_of (ps_pairs s) i)
     \<and> (\<forall>i < length (pc_profiles c). int (pairs_of (ps_pairs s) i) \<le> sl_pairs_per_person (pc_limits c))
     \<and> int (length (ps_pairs s)) \<le> sl_scored (pc_limits c)
     \<and> (ps_stopped s \<longrightarrow> int (length (ps_pairs s)) \<ge> sl_scored (pc_limits c))"

definition wanted :: "pair_context \<Rightarrow> ustr list \<Rightarrow> nat \<Rightarrow> nat \<Rightarrow> bool" where
  "wanted c key i j \<longleftrightarrow> \<not> (pc_cross c \<and> same_source c i j) \<and> pair_owner c i j = Some key"

lemma full_count_hit: "within_bounds c s \<Longrightarrow> i < length (pc_profiles c) \<Longrightarrow>
    full_count c s i \<longleftrightarrow> int (pairs_of (ps_pairs s) i) \<ge> sl_pairs_per_person (pc_limits c)"
  by (simp add: within_bounds_def full_count_def)

lemma emit_pair_pairs [simp]: "ps_pairs (emit_pair i j s) = ps_pairs s @ [(i, j)]"
  by (simp add: emit_pair_def Let_def)

lemma emit_pair_within:
  assumes "within_bounds c s" "i < j" "j < length (pc_profiles c)" "\<not> full_count c s i" "\<not> full_count c s j"
    "int (length (ps_pairs s)) < sl_scored (pc_limits c)"
  shows "within_bounds c (emit_pair i j s)"
  using assms by (auto simp: within_bounds_def emit_pair_def full_count_def Let_def nth_list_update)

text \<open>The state after a loop extends the one before by new wanted pairs, and no wanted pair of the
  range of the loop is passed over unless a bound is hit.\<close>

definition yields :: "pair_context \<Rightarrow> (nat \<Rightarrow> nat \<Rightarrow> bool) \<Rightarrow> pair_state \<Rightarrow> pair_state \<Rightarrow> bool" where
  "yields c R s s' \<longleftrightarrow> within_bounds c s' \<and> (\<exists>new. ps_pairs s' = ps_pairs s @ new \<and> distinct new
     \<and> (\<forall>(i, j) \<in> set new. R i j)
     \<and> (\<forall>i j. R i j \<longrightarrow> (i, j) \<in> set new \<or> bound_hit (pc_limits c) (ps_pairs s') i j))"

lemma yields_none: "within_bounds c s \<Longrightarrow> (\<And>i j. R i j \<Longrightarrow> bound_hit (pc_limits c) (ps_pairs s) i j) \<Longrightarrow> yields c R s s"
  by (simp add: yields_def)

lemma yields_both:
  assumes "yields c R s t" and "yields c Q t t'" and disjoint: "\<And>i j. R i j \<Longrightarrow> \<not> Q i j"
    and P: "\<And>i j. P i j \<longleftrightarrow> R i j \<or> Q i j"
  shows "yields c P s t'"
proof -
  obtain xs where x: "ps_pairs t = ps_pairs s @ xs" "distinct xs" "\<forall>(i, j) \<in> set xs. R i j"
    "\<forall>i j. R i j \<longrightarrow> (i, j) \<in> set xs \<or> bound_hit (pc_limits c) (ps_pairs t) i j"
    using assms(1) by (auto simp: yields_def)
  obtain ys where y: "ps_pairs t' = ps_pairs t @ ys" "distinct ys" "\<forall>(i, j) \<in> set ys. Q i j"
    "\<forall>i j. Q i j \<longrightarrow> (i, j) \<in> set ys \<or> bound_hit (pc_limits c) (ps_pairs t') i j"
    using assms(2) by (auto simp: yields_def)
  have "distinct (xs @ ys)" using x(2,3) y(2,3) disjoint by (fastforce simp: distinct_append)
  moreover have "(i, j) \<in> set (xs @ ys) \<or> bound_hit (pc_limits c) (ps_pairs t') i j" if "P i j" for i j
    using that x(4) y(4) P bound_hit_append [of "pc_limits c" "ps_pairs t" i j ys] y(1) by auto
  moreover have "\<forall>(i, j) \<in> set (xs @ ys). P i j" using x(3) y(3) P by auto
  ultimately show ?thesis using assms(2) x(1) y(1) by (auto simp: yields_def)
qed

lemma yields_weaken:
  assumes "yields c R s t" and "\<And>i j. R i j \<Longrightarrow> P i j" and "\<And>i j. P i j \<Longrightarrow> \<not> R i j \<Longrightarrow> bound_hit (pc_limits c) (ps_pairs t) i j"
  shows "yields c P s t"
  using assms by (fastforce simp: yields_def)

lemma yields_emit:
  assumes "within_bounds c s" "i < j" "j < length (pc_profiles c)" "\<not> full_count c s i" "\<not> full_count c s j"
    "int (length (ps_pairs s)) < sl_scored (pc_limits c)"
  shows "yields c (\<lambda>a b. a = i \<and> b = j) s (emit_pair i j s)"
  using emit_pair_within [OF assms] by (auto simp: yields_def)

lemma yields_within: "yields c R s t \<Longrightarrow> within_bounds c t"
  by (simp add: yields_def)

lemma stop_within: "within_bounds c s \<Longrightarrow> int (length (ps_pairs s)) \<ge> sl_scored (pc_limits c)
    \<Longrightarrow> within_bounds c (s\<lparr>ps_stopped := True\<rparr>)"
  by (simp add: within_bounds_def)

lemma yields_bound: "within_bounds c t \<Longrightarrow> ps_pairs t = ps_pairs s
    \<Longrightarrow> (\<And>i j. R i j \<Longrightarrow> bound_hit (pc_limits c) (ps_pairs s) i j) \<Longrightarrow> yields c R s t"
  by (simp add: yields_def)

lemma right_loop_yields:
  "within_bounds c s \<Longrightarrow> distinct rights \<Longrightarrow> left < length (pc_profiles c)
     \<Longrightarrow> \<forall>r \<in> set rights. left < r \<and> r < length (pc_profiles c)
     \<Longrightarrow> yields c (\<lambda>i j. i = left \<and> j \<in> set rights \<and> wanted c key i j) s (right_loop c key left rights s)"
proof (induction rights arbitrary: s)
  case Nil
  then show ?case by (simp add: yields_none)
next
  case (Cons r rs)
  let ?R = "\<lambda>i j. i = left \<and> j \<in> set rs \<and> wanted c key i j"
  let ?P = "\<lambda>i j. i = left \<and> j \<in> set (r # rs) \<and> wanted c key i j"
  have r: "left < r" "r < length (pc_profiles c)" using Cons.prems by simp_all
  have IH: "yields c ?R t (right_loop c key left rs t)" if "within_bounds c t" for t
    using Cons.IH [OF that] Cons.prems by simp
  note hit = full_count_hit [OF Cons.prems(1)]
  consider (stop) "int (length (ps_pairs s)) \<ge> sl_scored (pc_limits c)"
    | (left) "int (length (ps_pairs s)) < sl_scored (pc_limits c)" "full_count c s left"
    | (right) "int (length (ps_pairs s)) < sl_scored (pc_limits c)" "\<not> full_count c s left" "full_count c s r"
    | (other) "int (length (ps_pairs s)) < sl_scored (pc_limits c)" "\<not> full_count c s left" "\<not> full_count c s r" "\<not> wanted c key left r"
    | (emit) "int (length (ps_pairs s)) < sl_scored (pc_limits c)" "\<not> full_count c s left" "\<not> full_count c s r" "wanted c key left r"
    by linarith
  then show ?case
  proof cases
    case stop
    then show ?thesis using stop_within [OF Cons.prems(1) stop] by (auto intro!: yields_bound simp: bound_hit_def)
  next
    case left
    then show ?thesis using Cons.prems hit [of left] by (auto intro!: yields_none simp: bound_hit_def)
  next
    case right
    have "yields c ?P s (right_loop c key left rs s)"
    proof (rule yields_weaken [OF IH [OF Cons.prems(1)]])
      fix i j assume "?P i j" "\<not> ?R i j"
      then have "i = left" "j = r" by auto
      moreover have "bound_hit (pc_limits c) (ps_pairs s) left r" using right(3) hit [of r] r by (simp add: bound_hit_def)
      moreover obtain new where "ps_pairs (right_loop c key left rs s) = ps_pairs s @ new"
        using IH [OF Cons.prems(1)] by (auto simp: yields_def)
      ultimately show "bound_hit (pc_limits c) (ps_pairs (right_loop c key left rs s)) i j" by (simp add: bound_hit_append)
    qed auto
    then show ?thesis using right by simp
  next
    case other
    have "yields c ?P s (right_loop c key left rs s)"
      by (rule yields_weaken [OF IH [OF Cons.prems(1)]]) (use other(4) in auto)
    then show ?thesis using other by (auto simp: wanted_def)
  next
    case emit
    have "yields c ?P s (right_loop c key left rs (emit_pair left r s))"
    proof (rule yields_both [OF yields_emit IH])
      show "within_bounds c (emit_pair left r s)" using Cons.prems(1) r emit by (intro emit_pair_within) auto
      fix i j
      show "i = left \<and> j = r \<Longrightarrow> \<not> ?R i j" using Cons.prems(2) by auto
      show "?P i j \<longleftrightarrow> i = left \<and> j = r \<or> ?R i j" using emit(4) by auto
    qed (use Cons.prems(1) r emit in auto)
    moreover have "right_loop c key left (r # rs) s = right_loop c key left rs (emit_pair left r s)"
      using emit by (auto simp: wanted_def)
    ultimately show ?thesis by (simp only:)
  qed
qed

lemma left_loop_yields:
  "within_bounds c s \<Longrightarrow> sorted_wrt (<) lefts \<Longrightarrow> \<forall>i \<in> set lefts. i < length (pc_profiles c)
     \<Longrightarrow> yields c (\<lambda>i j. i \<in> set lefts \<and> j \<in> set lefts \<and> i < j \<and> wanted c key i j) s (left_loop c key lefts s)"
proof (induction lefts arbitrary: s)
  case Nil
  then show ?case by (simp add: yields_none)
next
  case (Cons l ls)
  let ?Q = "\<lambda>i j. i = l \<and> j \<in> set ls \<and> wanted c key i j"
  let ?R = "\<lambda>i j. i \<in> set ls \<and> j \<in> set ls \<and> i < j \<and> wanted c key i j"
  let ?P = "\<lambda>i j. i \<in> set (l # ls) \<and> j \<in> set (l # ls) \<and> i < j \<and> wanted c key i j"
  have above: "\<forall>r \<in> set ls. l < r \<and> r < length (pc_profiles c)" and l: "l < length (pc_profiles c)"
    and d: "distinct ls" using Cons.prems by (auto simp: strict_sorted_iff)
  have P: "?P i j \<longleftrightarrow> ?Q i j \<or> ?R i j" for i j using above by auto
  have IH: "yields c ?R t (left_loop c key ls t)" if "within_bounds c t" for t
    using Cons.IH [OF that] Cons.prems by simp
  consider "ps_stopped s" | "\<not> ps_stopped s" "full_count c s l" | "\<not> ps_stopped s" "\<not> full_count c s l" by blast
  then show ?case
  proof cases
    case 1
    then show ?thesis using Cons.prems(1) by (auto intro!: yields_none simp: bound_hit_def within_bounds_def)
  next
    case 2
    have "yields c ?Q s s"
      using Cons.prems(1) l 2(2) full_count_hit [OF Cons.prems(1) l] by (auto intro!: yields_none simp: bound_hit_def)
    then have "yields c ?P s (left_loop c key ls s)"
      by (rule yields_both [OF _ IH [OF Cons.prems(1)] _ P]) (use above in auto)
    then show ?thesis using 2 by simp
  next
    case 3
    have y: "yields c ?Q s (right_loop c key l ls s)"
      by (rule right_loop_yields [OF Cons.prems(1) d l above])
    then have "yields c ?P s (left_loop c key ls (right_loop c key l ls s))"
      by (rule yields_both [OF _ IH [OF yields_within [OF y]] _ P]) (use above in auto)
    then show ?thesis using 3 by simp
  qed
qed

lemma buckets_yield:
  assumes "within_bounds c s" and "distinct keys"
    and "\<And>k. k \<in> set keys \<Longrightarrow> sorted_wrt (<) (entries buckets k) \<and> (\<forall>i \<in> set (entries buckets k). i < length (pc_profiles c))"
  shows "yields c (\<lambda>i j. \<exists>k \<in> set keys. i \<in> set (entries buckets k) \<and> j \<in> set (entries buckets k) \<and> i < j \<and> wanted c k i j)
    s (foldl (bucket_step c buckets) s keys)"
  using assms
proof (induction keys arbitrary: s)
  case Nil
  then show ?case by (simp add: yields_none)
next
  case (Cons k ks)
  let ?B = "\<lambda>k i j. i \<in> set (entries buckets k) \<and> j \<in> set (entries buckets k) \<and> i < j \<and> wanted c k i j"
  have y: "yields c (?B k) s (bucket_step c buckets s k)"
  proof (cases "ps_stopped s")
    case True
    then show ?thesis using Cons.prems(1) by (auto intro!: yields_none simp: bound_hit_def within_bounds_def bucket_step_def)
  next
    case False
    then show ?thesis using left_loop_yields [OF Cons.prems(1)] Cons.prems(3) [of k] by (simp add: bucket_step_def)
  qed
  have "yields c (\<lambda>i j. \<exists>k \<in> set (k # ks). ?B k i j) s (foldl (bucket_step c buckets) (bucket_step c buckets s k) ks)"
  proof (rule yields_both [OF y Cons.IH [OF yields_within [OF y]]])
    show "distinct ks" using Cons.prems(2) by simp
    fix i j
    show "?B k i j \<Longrightarrow> \<not> (\<exists>k \<in> set ks. ?B k i j)" using Cons.prems(2) by (auto simp: wanted_def)
  qed (use Cons.prems(3) in auto)
  then show ?case by simp
qed

section \<open>What the buckets hold\<close>

text \<open>The people that share a key, by their positions.\<close>

definition holders :: "duplicate_profile list \<Rightarrow> ustr list \<Rightarrow> nat list" where
  "holders profiles k = filter (\<lambda>i. k \<in> set (dp_keys (profiles ! i))) [0..<length profiles]"

lemma set_holders [simp]: "i \<in> set (holders profiles k) \<longleftrightarrow> i < length profiles \<and> k \<in> set (dp_keys (profiles ! i))"
  by (auto simp: holders_def)

lemma holders_sorted [simp]: "sorted_wrt (<) (holders profiles k)"
  by (simp add: holders_def sorted_wrt_filter)

lemma holders_snoc: "holders (profiles @ [p]) k = holders profiles k @ (if k \<in> set (dp_keys p) then [length profiles] else [])"
  by (auto simp: holders_def nth_append intro: filter_cong)

lemma count_in_count_key [simp]: "count_in (count_key d k) k' = count_in d k' + (if k' = k then 1 else 0)"
  by (simp add: count_in_def count_key_def update_conv')

lemma dom_count_key [simp]: "fst ` set (count_key d k) = insert k (fst ` set d)"
  by (simp add: count_key_def dom_update)

lemma distinct_count_key [simp]: "distinct (map fst d) \<Longrightarrow> distinct (map fst (count_key d k))"
  by (simp add: count_key_def distinct_update)

lemma count_keys: "distinct ks \<Longrightarrow> count_in (foldl count_key d ks) k = count_in d k + (if k \<in> set ks then 1 else 0)"
  by (induction ks arbitrary: d) auto

lemma dom_count_keys: "fst ` set (foldl count_key d ks) = fst ` set d \<union> set ks"
  by (induction ks arbitrary: d) auto

lemma distinct_count_keys: "distinct (map fst d) \<Longrightarrow> distinct (map fst (foldl count_key d ks))"
  by (induction ks arbitrary: d) auto

definition proper :: "duplicate_profile list \<Rightarrow> bool" where
  "proper profiles \<longleftrightarrow> (\<forall>p \<in> set profiles. distinct (dp_keys p))"

lemma proper_profiles [simp]: "proper (map (duplicate_profile tr) people)"
  by (simp add: proper_def)

lemma frequencies_count: "proper profiles \<Longrightarrow> count_in (blocking_frequencies profiles) k = length (holders profiles k)"
proof (induction profiles rule: rev_induct)
  case Nil
  then show ?case by (simp add: blocking_frequencies_def holders_def count_in_def)
next
  case (snoc p ps)
  then show ?case by (simp add: blocking_frequencies_def holders_snoc count_keys proper_def)
qed

lemma frequencies_dom: "fst ` set (blocking_frequencies profiles) = (\<Union>p \<in> set profiles. set (dp_keys p))"
  by (induction profiles rule: rev_induct) (auto simp: blocking_frequencies_def dom_count_keys)

lemma frequencies_distinct: "distinct (map fst (blocking_frequencies profiles))"
  by (induction profiles rule: rev_induct) (simp_all add: blocking_frequencies_def distinct_count_keys)

definition fill_bucket :: "(ustr list \<times> nat) list \<Rightarrow> search_limits \<Rightarrow> nat \<Rightarrow> (ustr list \<times> nat list) list \<Rightarrow> ustr list
    \<Rightarrow> (ustr list \<times> nat list) list" where
  "fill_bucket frequencies l index d k = (if int (count_in frequencies k) \<le> sl_bucket l then append_entry k index d else d)"

lemma fill_bucket_entries: "distinct ks \<Longrightarrow> entries (foldl (fill_bucket f l i) d ks) k
    = entries d k @ (if k \<in> set ks \<and> int (count_in f k) \<le> sl_bucket l then [i] else [])"
  by (induction ks arbitrary: d) (auto simp: fill_bucket_def)

lemma dom_append_entry [simp]: "fst ` set (append_entry k x d) = insert k (fst ` set d)"
  by (simp add: append_entry_def dom_update)

lemma distinct_append_entry [simp]: "distinct (map fst d) \<Longrightarrow> distinct (map fst (append_entry k x d))"
  by (simp add: append_entry_def distinct_update)

lemma fill_bucket_dom: "fst ` set (foldl (fill_bucket f l i) d ks)
    = fst ` set d \<union> {k \<in> set ks. int (count_in f k) \<le> sl_bucket l}"
  by (induction ks arbitrary: d) (auto simp: fill_bucket_def)

lemma fill_bucket_distinct: "distinct (map fst d) \<Longrightarrow> distinct (map fst (foldl (fill_bucket f l i) d ks))"
  by (induction ks arbitrary: d) (auto simp: fill_bucket_def)

lemma buckets_fill: "bounded_blocking_buckets profiles f l
    = foldl (\<lambda>d (index, p). foldl (fill_bucket f l index) d (dp_keys p)) [] (enumerate 0 profiles)"
  by (simp add: bounded_blocking_buckets_def fill_bucket_def [abs_def])

lemma buckets_entries: "proper profiles \<Longrightarrow> entries (bounded_blocking_buckets profiles f l) k
    = (if int (count_in f k) \<le> sl_bucket l then holders profiles k else [])"
proof (induction profiles rule: rev_induct)
  case Nil
  then show ?case by (simp add: buckets_fill holders_def entries_def)
next
  case (snoc p ps)
  then show ?case by (simp add: buckets_fill enumerate_append_eq holders_snoc fill_bucket_entries proper_def)
qed

lemma buckets_dom: "fst ` set (bounded_blocking_buckets profiles f l)
    = {k \<in> \<Union>p \<in> set profiles. set (dp_keys p). int (count_in f k) \<le> sl_bucket l}"
proof (induction profiles rule: rev_induct)
  case Nil
  then show ?case by (simp add: buckets_fill)
next
  case (snoc p ps)
  then show ?case by (auto simp: buckets_fill enumerate_append_eq fill_bucket_dom)
qed

lemma buckets_distinct: "distinct (map fst (bounded_blocking_buckets profiles f l))"
proof (induction profiles rule: rev_induct)
  case Nil
  then show ?case by (simp add: buckets_fill)
next
  case (snoc p ps)
  then show ?case by (simp add: buckets_fill enumerate_append_eq fill_bucket_distinct)
qed

section \<open>The search as a whole\<close>

text \<open>Two people are comparable when they share a key that few enough people have and, in a search
  across sources, come from different ones.\<close>

definition comparable :: "duplicate_profile list \<Rightarrow> search_limits \<Rightarrow> bool \<Rightarrow> nat \<Rightarrow> nat \<Rightarrow> bool" where
  "comparable profiles l cross i j \<longleftrightarrow> i < j \<and> j < length profiles
     \<and> (\<exists>k \<in> set (dp_keys (profiles ! i)) \<inter> set (dp_keys (profiles ! j)). int (length (holders profiles k)) \<le> sl_bucket l)
     \<and> (cross \<longrightarrow> dp_source_file (profiles ! i) \<noteq> dp_source_file (profiles ! j))"

definition search_context :: "duplicate_profile list \<Rightarrow> search_limits \<Rightarrow> bool \<Rightarrow> pair_context" where
  "search_context profiles l cross = (let frequencies = blocking_frequencies profiles in
     \<lparr>pc_profiles = profiles, pc_limits = l, pc_cross = cross, pc_frequencies = frequencies,
      pc_eligible = map (\<lambda>p. filter (\<lambda>k. k \<in> fst ` set (bounded_blocking_buckets profiles frequencies l)) (dp_keys p)) profiles\<rparr>)"

definition search_keys :: "duplicate_profile list \<Rightarrow> search_limits \<Rightarrow> bool \<Rightarrow> ustr list list" where
  "search_keys profiles l cross = sort_key (key_rank (search_context profiles l cross))
     (map fst (bounded_blocking_buckets profiles (blocking_frequencies profiles) l))"

lemma bounded_candidate_pairs_alt: "bounded_candidate_pairs profiles l cross =
    ps_pairs (foldl (bucket_step (search_context profiles l cross) (bounded_blocking_buckets profiles (blocking_frequencies profiles) l))
      \<lparr>ps_counts = replicate (length profiles) 0, ps_pairs = [], ps_stopped = False\<rparr> (search_keys profiles l cross))"
  by (simp add: bounded_candidate_pairs_def search_context_def search_keys_def Let_def)

lemma owner_exists:
  assumes "proper profiles" "i < length profiles" "j < length profiles"
    "k \<in> set (dp_keys (profiles ! i))" "k \<in> set (dp_keys (profiles ! j))" "int (length (holders profiles k)) \<le> sl_bucket l"
  shows "\<exists>owner. pair_owner (search_context profiles l cross) i j = Some owner"
proof -
  let ?c = "search_context profiles l cross"
  have "k \<in> fst ` set (bounded_blocking_buckets profiles (blocking_frequencies profiles) l)"
    unfolding buckets_dom using assms by (auto simp: frequencies_count)
  then have "k \<in> set (filter (\<lambda>k. k \<in> set (pc_eligible ?c ! j)) (pc_eligible ?c ! i))"
    using assms by (simp add: search_context_def Let_def)
  then have "sort_key (key_rank ?c) (filter (\<lambda>k. k \<in> set (pc_eligible ?c ! j)) (pc_eligible ?c ! i)) \<noteq> []"
    by (metis empty_iff list.set(1) set_sort)
  then show ?thesis by (auto simp: pair_owner_def split: list.splits)
qed

lemma owner_shared:
  assumes "pair_owner (search_context profiles l cross) i j = Some k" "i < length profiles" "j < length profiles" "proper profiles"
  shows "k \<in> set (dp_keys (profiles ! i)) \<and> k \<in> set (dp_keys (profiles ! j)) \<and> int (length (holders profiles k)) \<le> sl_bucket l"
proof -
  let ?c = "search_context profiles l cross"
  let ?xs = "filter (\<lambda>k. k \<in> set (pc_eligible ?c ! j)) (pc_eligible ?c ! i)"
  from assms(1) obtain ks where "sort_key (key_rank ?c) ?xs = k # ks" by (auto simp: pair_owner_def split: list.splits)
  then have "k \<in> set ?xs" by (metis list.set_intros(1) set_sort)
  then have "k \<in> set (dp_keys (profiles ! i)) \<and> k \<in> set (dp_keys (profiles ! j))
      \<and> k \<in> fst ` set (bounded_blocking_buckets profiles (blocking_frequencies profiles) l)"
    using assms(2,3) by (simp add: search_context_def Let_def)
  then show ?thesis unfolding buckets_dom using assms(4) by (simp add: frequencies_count)
qed

lemma search_yields:
  assumes l: "positive_limits l" and proper: "proper profiles"
  shows "\<exists>s. yields (search_context profiles l cross) (comparable profiles l cross)
    \<lparr>ps_counts = replicate (length profiles) 0, ps_pairs = [], ps_stopped = False\<rparr> s
    \<and> ps_pairs s = bounded_candidate_pairs profiles l cross"
proof -
  let ?c = "search_context profiles l cross"
  let ?f = "blocking_frequencies profiles"
  let ?b = "bounded_blocking_buckets profiles ?f l"
  let ?s = "\<lparr>ps_counts = replicate (length profiles) 0, ps_pairs = [], ps_stopped = False\<rparr>"
  let ?B = "\<lambda>i j. \<exists>k \<in> set (search_keys profiles l cross). i \<in> set (entries ?b k) \<and> j \<in> set (entries ?b k) \<and> i < j \<and> wanted ?c k i j"
  have c: "pc_profiles ?c = profiles" "pc_limits ?c = l" "pc_cross ?c = cross" by (simp_all add: search_context_def Let_def)
  have "within_bounds ?c ?s" using l by (simp add: within_bounds_def c positive_limits_def)
  moreover have "distinct (search_keys profiles l cross)"
    by (simp add: search_keys_def buckets_distinct)
  ultimately have y: "yields ?c ?B ?s (foldl (bucket_step ?c ?b) ?s (search_keys profiles l cross))"
    by (rule buckets_yield) (simp add: buckets_entries [OF proper] c)
  have "?B i j \<longleftrightarrow> comparable profiles l cross i j" for i j
  proof
    assume "?B i j"
    then show "comparable profiles l cross i j"
      by (auto simp: comparable_def wanted_def same_source_def c buckets_entries [OF proper] frequencies_count [OF proper] split: if_splits)
  next
    assume a: "comparable profiles l cross i j"
    then obtain k where k: "k \<in> set (dp_keys (profiles ! i))" "k \<in> set (dp_keys (profiles ! j))"
      "int (length (holders profiles k)) \<le> sl_bucket l" "i < j" "j < length profiles" by (auto simp: comparable_def)
    with owner_exists [OF proper, of i j k l cross] obtain owner where owner: "pair_owner ?c i j = Some owner" by auto
    from owner_shared [OF owner] k proper have o: "owner \<in> set (dp_keys (profiles ! i))" "owner \<in> set (dp_keys (profiles ! j))"
      "int (length (holders profiles owner)) \<le> sl_bucket l" by auto
    have "owner \<in> fst ` set ?b" unfolding buckets_dom using o k by (auto simp: frequencies_count [OF proper])
    then have "owner \<in> set (search_keys profiles l cross)" by (simp add: search_keys_def)
    moreover have "wanted ?c owner i j" using a owner by (simp add: wanted_def comparable_def same_source_def c)
    ultimately show "?B i j" using o k by (auto simp: buckets_entries [OF proper] frequencies_count [OF proper])
  qed
  then have "?B = comparable profiles l cross" by (intro ext) simp
  then show ?thesis using y by (auto simp: bounded_candidate_pairs_alt)
qed

lemma search_facts:
  assumes "positive_limits l" "proper profiles"
  shows "distinct (bounded_candidate_pairs profiles l cross)"
    and "\<forall>(i, j) \<in> set (bounded_candidate_pairs profiles l cross). comparable profiles l cross i j"
    and "comparable profiles l cross i j \<Longrightarrow> (i, j) \<in> set (bounded_candidate_pairs profiles l cross)
      \<or> bound_hit l (bounded_candidate_pairs profiles l cross) i j"
    and "int (length (bounded_candidate_pairs profiles l cross)) \<le> sl_scored l"
    and "n < length profiles \<Longrightarrow> int (pairs_of (bounded_candidate_pairs profiles l cross) n) \<le> sl_pairs_per_person l"
proof -
  obtain s where "yields (search_context profiles l cross) (comparable profiles l cross)
      \<lparr>ps_counts = replicate (length profiles) 0, ps_pairs = [], ps_stopped = False\<rparr> s"
    and s: "ps_pairs s = bounded_candidate_pairs profiles l cross" using search_yields [OF assms] by blast
  then have w: "within_bounds (search_context profiles l cross) s"
    and y: "distinct (ps_pairs s)" "\<forall>(i, j) \<in> set (ps_pairs s). comparable profiles l cross i j"
      "\<forall>i j. comparable profiles l cross i j \<longrightarrow> (i, j) \<in> set (ps_pairs s) \<or> bound_hit l (ps_pairs s) i j"
    by (auto simp: yields_def search_context_def Let_def)
  show "distinct (bounded_candidate_pairs profiles l cross)"
    "\<forall>(i, j) \<in> set (bounded_candidate_pairs profiles l cross). comparable profiles l cross i j"
    using y by (simp_all add: s)
  show "comparable profiles l cross i j \<Longrightarrow> (i, j) \<in> set (bounded_candidate_pairs profiles l cross)
      \<or> bound_hit l (bounded_candidate_pairs profiles l cross) i j" using y(3) by (simp add: s)
  show "int (length (bounded_candidate_pairs profiles l cross)) \<le> sl_scored l"
    "n < length profiles \<Longrightarrow> int (pairs_of (bounded_candidate_pairs profiles l cross) n) \<le> sl_pairs_per_person l"
    using w by (simp_all add: within_bounds_def s search_context_def Let_def)
qed

section \<open>The estimate bounds the work\<close>

definition pair_number :: "nat \<Rightarrow> int" where
  "pair_number n = int n * (int n - 1) div 2"

lemma pair_number_simps [simp]: "pair_number 0 = 0" "pair_number (Suc n) = pair_number n + int n"
proof -
  show "pair_number 0 = 0" by (simp add: pair_number_def)
  have "int (Suc n) * (int (Suc n) - 1) = int n * (int n - 1) + int n * 2" by (simp add: algebra_simps)
  then show "pair_number (Suc n) = pair_number n + int n" by (simp add: pair_number_def)
qed

text \<open>Ascending pairs of a list whose elements differ under a key.\<close>

fun key_pairs :: "('a \<Rightarrow> 'b) \<Rightarrow> bool \<Rightarrow> 'a list \<Rightarrow> ('a \<times> 'a) list" where
  "key_pairs f cross [] = []"
| "key_pairs f cross (x # xs) = map (Pair x) (filter (\<lambda>y. cross \<longrightarrow> f x \<noteq> f y) xs) @ key_pairs f cross xs"

lemma key_pairs_all: "int (length (key_pairs f False xs)) = pair_number (length xs)"
  by (induction xs) simp_all

lemma sum_pair_numbers: "finite A \<Longrightarrow> f x \<in> A \<Longrightarrow>
    (\<Sum>a \<in> A. pair_number (length (filter (\<lambda>y. f y = a) (x # xs))))
    = (\<Sum>a \<in> A. pair_number (length (filter (\<lambda>y. f y = a) xs))) + int (length (filter (\<lambda>y. f y = f x) xs))"
proof -
  assume a: "finite A" "f x \<in> A"
  have "(\<Sum>a \<in> A - {f x}. pair_number (length (filter (\<lambda>y. f y = a) (x # xs))))
      = (\<Sum>a \<in> A - {f x}. pair_number (length (filter (\<lambda>y. f y = a) xs)))" by (rule sum.cong) auto
  then show ?thesis using a by (simp add: sum.remove [of A "f x"])
qed

lemma key_pairs_cross: "finite A \<Longrightarrow> f ` set xs \<subseteq> A \<Longrightarrow>
    int (length (key_pairs f True xs)) = pair_number (length xs) - (\<Sum>a \<in> A. pair_number (length (filter (\<lambda>y. f y = a) xs)))"
proof (induction xs)
  case Nil
  then show ?case by simp
next
  case (Cons x xs)
  have "length (filter (\<lambda>y. f x \<noteq> f y) xs) + length (filter (\<lambda>y. f y = f x) xs) = length xs"
    using sum_length_filter_compl [of "\<lambda>y. f y = f x" xs] by (simp add: eq_commute)
  then show ?case using Cons sum_pair_numbers [of A f x xs] by simp
qed

lemma set_key_pairs: "sorted_wrt (<) xs \<Longrightarrow> set (key_pairs f cross xs)
    = {(x, y). x \<in> set xs \<and> y \<in> set xs \<and> (x::nat) < y \<and> (cross \<longrightarrow> f x \<noteq> f y)}"
  by (induction xs) auto

text \<open>The counts per source of the people that share a key.\<close>

abbreviation source_of :: "duplicate_profile list \<Rightarrow> nat \<Rightarrow> ustr" where
  "source_of profiles i \<equiv> dp_source_file (profiles ! i)"

definition source_counts :: "duplicate_profile list \<Rightarrow> (ustr list \<times> (ustr \<times> nat) list) list" where
  "source_counts profiles = foldl (\<lambda>d p. foldl (count_source (dp_source_file p)) d (dp_keys p)) [] profiles"

lemma entries_count_source [simp]: "entries (count_source s d k) k' = (if k' = k then count_key (entries d k) s else entries d k')"
  by (simp add: entries_def count_source_def update_conv')

lemma count_sources: "distinct ks \<Longrightarrow> entries (foldl (count_source s) d ks) k
    = (if k \<in> set ks then count_key (entries d k) s else entries d k)"
  by (induction ks arbitrary: d) auto

lemma source_counts_snoc: "source_counts (profiles @ [p]) = foldl (count_source (dp_source_file p)) (source_counts profiles) (dp_keys p)"
  by (simp add: source_counts_def)

lemma holders_sources: "filter (\<lambda>i. source_of (ps @ [p]) i = s) (holders (ps @ [p]) k)
    = filter (\<lambda>i. source_of ps i = s) (holders ps k) @ (if k \<in> set (dp_keys p) \<and> dp_source_file p = s then [length ps] else [])"
  by (auto simp: holders_snoc nth_append intro!: filter_cong)

lemma source_counts_entries:
  assumes "proper profiles"
  shows "distinct (map fst (entries (source_counts profiles) k))"
    and "fst ` set (entries (source_counts profiles) k) = source_of profiles ` set (holders profiles k)"
    and "count_in (entries (source_counts profiles) k) s
      = length (filter (\<lambda>i. source_of profiles i = s) (holders profiles k))"
  using assms
proof (induction profiles rule: rev_induct)
  case Nil
  { case 1 show ?case by (simp add: source_counts_def entries_def) }
  { case 2 show ?case by (simp add: source_counts_def entries_def holders_def) }
  { case 3 show ?case by (simp add: source_counts_def entries_def holders_def count_in_def) }
next
  case (snoc p ps)
  { case 1 then show ?case using snoc by (simp add: source_counts_snoc count_sources proper_def) }
  { case 2
    then have "fst ` set (entries (source_counts ps) k) = source_of ps ` set (holders ps k)"
      using snoc by (simp add: proper_def)
    moreover have "source_of (ps @ [p]) ` set (holders ps k) = source_of ps ` set (holders ps k)"
      by (auto simp: nth_append)
    ultimately show ?case using 2
      by (simp add: source_counts_snoc count_sources proper_def holders_snoc) }
  { case 3
    then show ?case using snoc by (simp add: source_counts_snoc count_sources proper_def holders_sources) }
qed

lemma sum_entries: "distinct (map fst d) \<Longrightarrow> sum_list (map (\<lambda>(s, n). f n) d) = (\<Sum>s \<in> fst ` set d. f (count_in d s))"
proof (induction d)
  case Nil
  then show ?case by simp
next
  case (Cons e d)
  obtain s n where e: "e = (s, n)" by (cases e)
  then have "f (count_in (e # d) t) = f (count_in d t)" if "t \<in> fst ` set d" for t
    using Cons.prems that by (auto simp: count_in_def)
  then have "(\<Sum>s \<in> fst ` set d. f (count_in (e # d) s)) = (\<Sum>s \<in> fst ` set d. f (count_in d s))"
    by (intro sum.cong) auto
  moreover have "s \<notin> fst ` set d" "count_in (e # d) s = n" using Cons.prems e by (auto simp: count_in_def)
  ultimately show ?case using Cons e by simp
qed

lemma raw_pairs_sum:
  assumes "proper profiles"
  shows "raw_pair_upper_bound profiles cross
    = (\<Sum>k \<in> fst ` set (blocking_frequencies profiles). int (length (key_pairs (source_of profiles) cross (holders profiles k))))"
proof -
  let ?f = "blocking_frequencies profiles"
  let ?g = "\<lambda>k n. pair_number n - (if cross then sum_list (map (\<lambda>(s, n). pair_number n) (entries (source_counts profiles) k)) else 0)"
  have "raw_pair_upper_bound profiles cross = sum_list (map (\<lambda>(k, n). ?g k n) ?f)"
    by (simp add: raw_pair_upper_bound_def source_counts_def pair_number_def Let_def cong: if_cong)
  also have "\<dots> = (\<Sum>e \<in> set ?f. case e of (k, n) \<Rightarrow> ?g k n)"
    by (rule sum_list_distinct_conv_sum_set) (rule distinct_map [THEN iffD1, OF frequencies_distinct, THEN conjunct1])
  also have "\<dots> = (\<Sum>e \<in> set ?f. int (length (key_pairs (source_of profiles) cross (holders profiles (fst e)))))"
  proof (rule sum.cong [OF refl])
    fix e assume "e \<in> set ?f"
    moreover obtain k n where e: "e = (k, n)" by (cases e)
    ultimately have m: "map_of ?f k = Some n" using frequencies_distinct [of profiles] by (simp add: map_of_is_SomeI)
    then have n: "n = length (holders profiles k)" using frequencies_count [OF assms, of k] m by (simp add: count_in_def)
    have "sum_list (map (\<lambda>(s, n). pair_number n) (entries (source_counts profiles) k))
        = (\<Sum>s \<in> source_of profiles ` set (holders profiles k). pair_number (length (filter (\<lambda>i. source_of profiles i = s) (holders profiles k))))"
      using source_counts_entries [OF assms, of k] by (simp add: sum_entries)
    then show "(case e of (k, n) \<Rightarrow> ?g k n) = int (length (key_pairs (source_of profiles) cross (holders profiles (fst e))))"
      using key_pairs_cross [of "source_of profiles ` set (holders profiles k)" "source_of profiles" "holders profiles k"]
      by (cases cross) (simp_all add: e n key_pairs_all)
  qed
  also have "\<dots> = (\<Sum>k \<in> fst ` set ?f. int (length (key_pairs (source_of profiles) cross (holders profiles k))))"
    by (subst sum.reindex) (auto intro: distinct_map [THEN iffD1, OF frequencies_distinct, THEN conjunct2])
  finally show ?thesis .
qed

lemma search_within_raw:
  assumes "positive_limits l" "proper profiles"
  shows "int (length (bounded_candidate_pairs profiles l cross)) \<le> raw_pair_upper_bound profiles cross"
proof -
  let ?out = "bounded_candidate_pairs profiles l cross"
  let ?K = "fst ` set (blocking_frequencies profiles)"
  let ?P = "\<lambda>k. key_pairs (source_of profiles) cross (holders profiles k)"
  have "set ?out \<subseteq> (\<Union>k \<in> ?K. set (?P k))"
  proof
    fix x assume "x \<in> set ?out"
    then obtain i j where x: "x = (i, j)" "comparable profiles l cross i j" 
      using search_facts(2) [OF assms, of cross] by (cases x) auto
    then obtain k where k: "k \<in> set (dp_keys (profiles ! i))" "k \<in> set (dp_keys (profiles ! j))" "i < j" "j < length profiles"
      by (auto simp: comparable_def)
    then have "k \<in> ?K" unfolding frequencies_dom by (auto intro!: bexI [of _ "profiles ! i"])
    moreover have "x \<in> set (?P k)" using x k by (auto simp: set_key_pairs comparable_def)
    ultimately show "x \<in> (\<Union>k \<in> ?K. set (?P k))" by blast
  qed
  then have "card (set ?out) \<le> card (\<Union>k \<in> ?K. set (?P k))" by (intro card_mono) auto
  also have "\<dots> \<le> (\<Sum>k \<in> ?K. card (set (?P k)))" by (rule card_UN_le) simp
  also have "\<dots> \<le> (\<Sum>k \<in> ?K. length (?P k))" by (intro sum_mono card_length)
  finally have "length ?out \<le> (\<Sum>k \<in> ?K. length (?P k))" using search_facts(1) [OF assms] by (simp add: distinct_card)
  then show ?thesis using raw_pairs_sum [OF assms(2), of cross] by (simp flip: of_nat_sum)
qed

lemma sum_pairs_of: "\<forall>(i, j) \<in> set ps. i < j \<and> j < n \<Longrightarrow> (\<Sum>i < n. pairs_of ps i) = 2 * length ps"
proof (induction ps)
  case Nil
  then show ?case by simp
next
  case (Cons p ps)
  obtain a b where p: "p = (a, b)" by (cases p)
  with Cons.prems have ab: "a < b" "b < n" by auto
  have split: "pairs_of (p # ps) i = (if i = a then 1 else 0) + (if i = b then 1 else 0) + pairs_of ps i" for i
    using ab by (auto simp: pairs_of_def p)
  then have "(\<Sum>i < n. pairs_of (p # ps) i) = 2 + (\<Sum>i < n. pairs_of ps i)"
    using ab by (simp add: sum.distrib)
  then show ?case using Cons by simp
qed

lemma search_within_share:
  assumes "positive_limits l" "proper profiles"
  shows "int (length (bounded_candidate_pairs profiles l cross)) \<le> int (length profiles) * sl_pairs_per_person l div 2"
proof -
  let ?out = "bounded_candidate_pairs profiles l cross"
  have "\<forall>(i, j) \<in> set ?out. i < j \<and> j < length profiles"
    using search_facts(2) [OF assms] by (auto simp: comparable_def)
  then have "2 * int (length ?out) = (\<Sum>i < length profiles. int (pairs_of ?out i))"
    using sum_pairs_of [of ?out "length profiles"] by (simp flip: of_nat_sum)
  also have "\<dots> \<le> (\<Sum>i < length profiles. sl_pairs_per_person l)"
    by (intro sum_mono) (simp add: search_facts(5) [OF assms])
  finally show ?thesis by simp
qed

section \<open>The heap keeps the best\<close>

lemma keep_candidate_step:
  "sorted ys \<Longrightarrow> 0 < limit \<Longrightarrow>
     drop (Suc (length ys) - nat limit) (insort x ys) = keep_candidate limit (drop (length ys - nat limit) ys) x"
proof (induction ys)
  case Nil
  then show ?case by (simp add: keep_candidate_def)
next
  case (Cons y ys)
  consider "length (y # ys) < nat limit" | "length (y # ys) = nat limit" | "length (y # ys) > nat limit" by linarith
  then show ?case
  proof cases
    case 1
    then show ?thesis by (auto simp: keep_candidate_def)
  next
    case 2
    then show ?thesis by (auto simp: keep_candidate_def)
  next
    case 3
    then have d: "Suc (length (y # ys)) - nat limit = Suc (Suc (length ys) - nat limit)"
      "Suc (length ys) - nat limit = Suc (length ys - nat limit)" by simp_all
    show ?thesis
    proof (cases "x \<le> y")
      case True
      let ?zs = "drop (length ys - nat limit) ys"
      have len: "length ?zs = nat limit" using 3 by simp
      obtain z zs where z: "?zs = z # zs" using len Cons.prems(2) by (cases ?zs) auto
      then have "z \<in> set ys" by (metis in_set_dropD list.set_intros(1))
      then have "\<not> x > z" using Cons.prems(1) True by fastforce
      then have "keep_candidate limit ?zs x = ?zs" using z len Cons.prems(2) by (simp add: keep_candidate_def)
      then show ?thesis using True d by simp
    next
      case False
      then show ?thesis using Cons d by simp
    qed
  qed
qed

lemma keep_best: "0 < limit \<Longrightarrow>
    foldl (keep_candidate limit) [] xs = drop (length xs - nat limit) (sort xs)"
proof (induction xs rule: rev_induct)
  case Nil
  then show ?case by simp
next
  case (snoc x xs)
  have "sort (xs @ [x]) = insort x (sort xs)"
    by (rule properties_for_sort) (simp_all add: sorted_insort)
  then show ?case using snoc keep_candidate_step [of "sort xs" limit x] by simp
qed

lemma sort_reversed:
  assumes "\<And>a b. f a \<le> f b \<longleftrightarrow> (b::'a::linorder) \<le> a"
  shows "sort_key (f :: 'a \<Rightarrow> 'b::linorder) xs = rev (sort xs)"
proof -
  have "inj f" by (metis assms injI order_antisym order_refl)
  moreover have "sorted (map f (rev (sort xs)))"
    by (simp add: rev_map [symmetric] sorted_wrt_rev sorted_wrt_map assms)
  ultimately show ?thesis by (intro sort_key_inj_key_eq) (auto intro: inj_on_subset)
qed

text \<open>The pairs at or above the threshold with their score, and the order of the result.\<close>

definition scored_pairs :: "('s::linordered_idom) core_rules \<Rightarrow> individual list \<Rightarrow> 's \<Rightarrow> (nat \<times> nat) list \<Rightarrow> (nat \<times> nat \<times> 's) list" where
  "scored_pairs core people threshold pairs =
     filter (\<lambda>(i, j, score). score \<ge> threshold)
       (map (\<lambda>(i, j). (i, j, as_score (cr_assess core (people ! i) (people ! j)))) pairs)"

definition candidate_rank :: "nat \<times> nat \<times> ('s::linordered_idom) \<Rightarrow> 's \<times> nat \<times> nat" where
  "candidate_rank c = (case c of (i, j, score) \<Rightarrow> (- score, i, j))"

abbreviation unranked :: "('s::linordered_idom) \<times> int \<times> int \<Rightarrow> nat \<times> nat \<times> 's" where
  "unranked \<equiv> \<lambda>(score, left, right). (nat (- left), nat (- right), score)"

abbreviation ranked :: "nat \<times> nat \<times> ('s::linordered_idom) \<Rightarrow> 's \<times> int \<times> int" where
  "ranked \<equiv> \<lambda>(i, j, score). (score, - int i, - int j)"

lemma ranked_fold: "foldl (\<lambda>h p. case ranked_pairs core people threshold p of
      None \<Rightarrow> h | Some x \<Rightarrow> keep_candidate limit h x) h pairs
    = foldl (keep_candidate limit) h (map ranked (scored_pairs core people threshold pairs))"
  by (induction pairs arbitrary: h) (auto simp: ranked_pairs_def scored_pairs_def Let_def)

lemma sort_ranked: "map unranked (sort_key (\<lambda>(score, left, right). (- score, - left, - right)) (drop n (sort (map ranked xs))))
    = take (length xs - n) (sort_key candidate_rank (xs :: (nat \<times> nat \<times> ('s::linordered_idom)) list))"
proof -
  have un: "unranked (ranked x) = x" for x :: "nat \<times> nat \<times> 's" by (cases x) auto
  have "sort_key (\<lambda>(score, left, right). (- score, - left, - right)) (drop n (sort (map ranked xs)))
      = rev (sort (drop n (sort (map ranked xs))))"
    by (rule sort_reversed) (auto simp: less_eq_prod_def)
  also have "\<dots> = rev (drop n (sort (map ranked xs)))"
    by (simp add: sorted_sort_id sorted_wrt_drop)
  also have "\<dots> = take (length xs - n) (rev (sort (map ranked xs)))" by (simp add: rev_drop)
  also have "rev (sort (map ranked xs)) = map ranked (sort_key candidate_rank xs)"
  proof -
    have "sort_key (\<lambda>(score, left, right). (- score, - left, - right)) (map ranked xs) = rev (sort (map ranked xs))"
      by (rule sort_reversed) (auto simp: less_eq_prod_def)
    moreover have "sort_key (\<lambda>(score, left, right). (- score, - left, - right)) (map ranked xs)
        = map ranked (sort_key candidate_rank xs)"
    proof (rule sort_key_inj_key_eq)
      show "mset (map ranked xs) = mset (map ranked (sort_key candidate_rank xs))" by simp
      show "inj_on (\<lambda>(score, left, right). (- score, - left, - right)) (set (map ranked xs))" by (auto simp: inj_on_def)
      have "sorted (map candidate_rank (sort_key candidate_rank xs))" by simp
      then show "sorted (map (\<lambda>(score, left, right). (- score, - left, - right)) (map ranked (sort_key candidate_rank xs)))"
        unfolding sorted_wrt_map
      proof (rule sorted_wrt_mono_rel [rotated])
        fix a b :: "nat \<times> nat \<times> 's" assume "candidate_rank a \<le> candidate_rank b"
        then show "(case ranked a of (score, left, right) \<Rightarrow> (- score, - left, - right))
            \<le> (case ranked b of (score, left, right) \<Rightarrow> (- score, - left, - right))"
          by (cases a; cases b) (auto simp: candidate_rank_def less_eq_prod_def)
      qed
    qed
    ultimately show ?thesis by simp
  qed
  finally have "sort_key (\<lambda>(score, left, right). (- score, - left, - right)) (drop n (sort (map ranked xs)))
      = map ranked (take (length xs - n) (sort_key candidate_rank xs))" by (simp only: take_map)
  moreover have "map unranked (map ranked ys) = ys" for ys :: "(nat \<times> nat \<times> 's) list"
    by (simp add: un map_idI)
  ultimately show ?thesis by (simp only:)
qed

section \<open>Properties\<close>

text \<open>C30: the search for pairs is exact under its bounds. It yields no pair twice, only comparable pairs,
  at most the allowed number in total and per person; and it passes over a comparable pair only when
  the total or the share of one of its two people is used up.\<close>

theorem candidate_search_is_exact:
  assumes "positive_limits l"
  shows "let profiles = map (duplicate_profile tr) people; pairs = bounded_candidate_pairs profiles l cross in
    distinct pairs \<and> (\<forall>(i, j) \<in> set pairs. comparable profiles l cross i j)
    \<and> int (length pairs) \<le> sl_scored l
    \<and> (\<forall>i < length people. int (pairs_of pairs i) \<le> sl_pairs_per_person l)
    \<and> (\<forall>i j. comparable profiles l cross i j \<and> (i, j) \<notin> set pairs \<longrightarrow>
         int (length pairs) = sl_scored l \<or> int (pairs_of pairs i) = sl_pairs_per_person l
         \<or> int (pairs_of pairs j) = sl_pairs_per_person l)"
proof -
  let ?ps = "map (duplicate_profile tr) people"
  let ?out = "bounded_candidate_pairs ?ps l cross"
  have "proper ?ps" by simp
  note F = search_facts [OF assms this, where cross = cross]
  have "int (length ?out) = sl_scored l \<or> int (pairs_of ?out i) = sl_pairs_per_person l
      \<or> int (pairs_of ?out j) = sl_pairs_per_person l"
    if "comparable ?ps l cross i j" "(i, j) \<notin> set ?out" for i j
  proof -
    have "i < length ?ps" "j < length ?ps" using that(1) by (auto simp: comparable_def)
    then show ?thesis using F(3) [OF that(1)] F(4) F(5) [of i] F(5) [of j] that(2) by (auto simp: bound_hit_def)
  qed
  then show ?thesis using F(1,2,4,5) by (simp add: Let_def)
qed

lemma plan_bounds:
  "sp_scored (estimate_duplicate_search tr people l cross)
     = min (min (raw_pair_upper_bound (map (duplicate_profile tr) people) cross) (sl_scored l))
         (int (length people) * sl_pairs_per_person l div 2)"
  "sp_candidates (estimate_duplicate_search tr people l cross)
     = min (sp_scored (estimate_duplicate_search tr people l cross)) (sl_candidates l)"
  by (simp_all only: estimate_duplicate_search_def Let_def search_plan.select_convs)

text \<open>C31: the estimate of a dry run bounds the real search: no more pairs are scored and no more
  candidates are kept than it announces.\<close>

theorem estimate_bounds_the_search:
  assumes "positive_limits l"
  shows "int (length (bounded_candidate_pairs (map (duplicate_profile tr) people) l cross))
      \<le> sp_scored (estimate_duplicate_search tr people l cross)
    \<and> (\<forall>cs. find_duplicate_candidates core tr people threshold l = Inr cs \<longrightarrow>
         int (length cs) \<le> sp_candidates (estimate_duplicate_search tr people l True))"
proof -
  have scored: "int (length (bounded_candidate_pairs (map (duplicate_profile tr) people) l x))
      \<le> sp_scored (estimate_duplicate_search tr people l x)" for x
    using search_within_raw [OF assms proper_profiles, of tr people x] search_within_share [OF assms proper_profiles, of tr people x]
      search_facts(4) [OF assms proper_profiles, of tr people x]
    unfolding plan_bounds(1) by simp
  have "int (length cs) \<le> sp_candidates (estimate_duplicate_search tr people l True)"
    if "find_duplicate_candidates core tr people threshold l = Inr cs" for cs
  proof -
    let ?pairs = "bounded_candidate_pairs (map (duplicate_profile tr) people) l True"
    let ?kept = "foldl (keep_candidate (sl_candidates l)) [] (map ranked (scored_pairs core people threshold ?pairs))"
    have "length cs = length ?kept"
      using that by (auto simp: find_duplicate_candidates_def ranked_fold Let_def split: if_splits)
    also have "?kept = drop (length (scored_pairs core people threshold ?pairs) - nat (sl_candidates l))
        (sort (map ranked (scored_pairs core people threshold ?pairs)))"
      using keep_best [of "sl_candidates l" "map ranked (scored_pairs core people threshold ?pairs)"] assms
      by (simp add: positive_limits_def)
    finally have "length cs \<le> length ?pairs" "length cs \<le> nat (sl_candidates l)"
      by (auto simp: scored_pairs_def intro: le_trans [OF diff_le_self] le_trans [OF length_filter_le])
    moreover have "sl_candidates l > 0" using assms by (simp add: positive_limits_def)
    ultimately show ?thesis using scored [of True] unfolding plan_bounds(2) by simp
  qed
  then show ?thesis using scored by blast
qed

text \<open>C32: the heap gives the same candidates as scoring every pair, sorting all at or above the
  threshold by descending score and then by position, and cutting the list at the limit.\<close>

theorem candidates_are_the_best:
  assumes "positive_limits l"
  shows "find_duplicate_candidates core tr people threshold l =
    (if 0 \<le> threshold \<and> threshold \<le> 100
     then Inr (take (nat (sl_candidates l)) (sort_key candidate_rank (scored_pairs core people threshold
       (bounded_candidate_pairs (map (duplicate_profile tr) people) l True))))
     else Inl ThresholdRange)"
proof -
  let ?xs = "scored_pairs core people threshold (bounded_candidate_pairs (map (duplicate_profile tr) people) l True)"
  have "foldl (keep_candidate (sl_candidates l)) [] (map ranked ?xs)
      = drop (length ?xs - nat (sl_candidates l)) (sort (map ranked ?xs))"
    using keep_best [of "sl_candidates l" "map ranked ?xs"] assms by (simp add: positive_limits_def)
  moreover have "take (length ?xs - (length ?xs - nat (sl_candidates l))) ys = take (nat (sl_candidates l)) ys"
    if "length ys = length ?xs" for ys :: "(nat \<times> nat \<times> 'a) list"
    using that by (cases "length ?xs \<le> nat (sl_candidates l)") simp_all
  ultimately show ?thesis by (simp add: find_duplicate_candidates_def ranked_fold sort_ranked)
qed

text \<open>Three people of two sources: two in the first one and a namesake of the first in the second.\<close>

definition namesakes :: "individual list" where
  "namesakes = map (\<lambda>(pointer, given, source). (new_individual (u pointer))\<lparr>in_given_name := u given,
       in_surname := u ''berg'', in_source_file := u source\<rparr>)
     [(''@I1@'', ''ada'', ''a''), (''@I2@'', ''bo'', ''a''), (''@I3@'', ''ada'', ''b'')]"

definition single_pair :: search_limits where
  "single_pair = default_limits\<lparr>sl_scored := 1\<rparr>"

lemma single_pair_positive: "positive_limits single_pair" "positive_limits default_limits"
  by (simp_all add: single_pair_def default_limits_def positive_limits_def)

lemma namesake_pairs: "bounded_candidate_pairs (map (duplicate_profile plain_rules) namesakes) single_pair True = [(0, 2)]"
  "bounded_candidate_pairs (map (duplicate_profile plain_rules) namesakes) default_limits True = [(0, 2), (1, 2)]"
  by code_simp+

lemma candidate_search_is_exact_witness:
  "let profiles = map (duplicate_profile plain_rules) namesakes in
     bounded_candidate_pairs profiles single_pair True = [(0, 2)] \<and> comparable profiles single_pair True 0 2
     \<and> int (length [(0::nat, 2::nat)]) \<le> sl_scored single_pair"
  using candidate_search_is_exact [OF single_pair_positive(1), where tr = plain_rules and people = namesakes and cross = True]
  by (simp add: namesake_pairs(1) Let_def)

lemma estimate_bounds_the_search_witness:
  "int (length [(0::nat, 2::nat), (1, 2)]) \<le> sp_scored (estimate_duplicate_search plain_rules namesakes default_limits True)
   \<and> sp_scored (estimate_duplicate_search plain_rules namesakes default_limits True) = 6"
proof -
  have "sp_scored (estimate_duplicate_search plain_rules namesakes default_limits True) = 6" by code_simp
  with estimate_bounds_the_search [OF single_pair_positive(2), where tr = plain_rules and people = namesakes and cross = True]
  show ?thesis by (simp add: namesake_pairs(2))
qed

lemma candidates_are_the_best_witness:
  "find_duplicate_candidates name_core plain_rules namesakes 90 default_limits = Inr [(0, 2, 99)]"
proof -
  have "take (nat (sl_candidates default_limits)) (sort_key candidate_rank (scored_pairs name_core namesakes 90 [(0, 2), (1, 2)]))
      = [(0, 2, 99)]" by code_simp
  then show ?thesis
    using candidates_are_the_best [OF single_pair_positive(2), of name_core plain_rules namesakes 90]
    by (simp add: namesake_pairs(2))
qed

end
