(* ===== verification/Quality_Ancestry.thy ===== *)
theory Quality_Ancestry
  imports Gedcom_People
begin

text \<open>
  The family graph of \<open>gedcom/quality.py\<close> and the traversal of the direct ancestors: the survivor of a
  merged pointer, the parent, child and spouse tables of the family records, and the breadth-first
  search that gives every ancestor its generation and notes the cycles it meets. A \<open>defaultdict\<close> is an
  association list in the order of its first entries, a set the list of its elements; the queue is a
  list whose head is taken first.
\<close>

section \<open>Surviving pointers\<close>

function canonical_loop :: "(ustr \<times> ustr) list \<Rightarrow> ustr list \<Rightarrow> ustr \<Rightarrow> ustr" where
  "canonical_loop pointer_map seen pointer =
     (case map_of pointer_map pointer of None \<Rightarrow> pointer
      | Some target \<Rightarrow> if target = pointer \<or> pointer \<in> set seen then pointer
          else canonical_loop pointer_map (pointer # seen) target)"
  by pat_completeness auto
termination
  by (relation "measure (\<lambda>(m, seen, p). card (dom (map_of m) - set seen))")
    (auto simp: finite_dom_map_of intro!: psubset_card_mono)

declare canonical_loop.simps [simp del]

definition canonical_pointer :: "(ustr \<times> ustr) list \<Rightarrow> ustr \<Rightarrow> ustr" where
  "canonical_pointer pointer_map pointer = canonical_loop pointer_map [] pointer"

section \<open>The family graph\<close>

record family_roles =
  fr_husbands :: "ustr list"
  fr_wives :: "ustr list"
  fr_children :: "ustr list"

record kin_graph =
  fg_parents :: "(ustr \<times> ustr list) list"
  fg_children :: "(ustr \<times> ustr list) list"
  fg_spouses :: "(ustr \<times> ustr list) list"
  fg_families :: "(ustr \<times> family_roles) list"

definition read_role :: "family_roles \<Rightarrow> ustr list \<Rightarrow> gedcom_error + family_roles" where
  "read_role roles block = bindE (first_line block) (\<lambda>first.
     let pointers = xref_findall (gl_value first) in
     Inr (if gl_tag first = u ''HUSB'' then roles\<lparr>fr_husbands := fr_husbands roles @ pointers\<rparr>
          else if gl_tag first = u ''WIFE'' then roles\<lparr>fr_wives := fr_wives roles @ pointers\<rparr>
          else if gl_tag first = u ''CHIL'' then roles\<lparr>fr_children := fr_children roles @ pointers\<rparr>
          else roles))"

definition canonical_roles :: "(ustr \<times> ustr) list \<Rightarrow> family_roles \<Rightarrow> family_roles" where
  "canonical_roles pointer_map roles = (let survivors = (\<lambda>ps. unique_first (map (canonical_pointer pointer_map) ps)) in
     \<lparr>fr_husbands = survivors (fr_husbands roles), fr_wives = survivors (fr_wives roles),
      fr_children = survivors (fr_children roles)\<rparr>)"

definition roles_of :: "(ustr \<times> ustr) list \<Rightarrow> gedcom_record \<Rightarrow> gedcom_error + family_roles" where
  "roles_of pointer_map r = bindE (top_level_blocks (gr_lines r)) (\<lambda>blocks.
     bindE (foldE read_role \<lparr>fr_husbands = [], fr_wives = [], fr_children = []\<rparr> blocks) (\<lambda>roles.
       Inr (canonical_roles pointer_map roles)))"

definition parent_people :: "family_roles \<Rightarrow> ustr list" where
  "parent_people roles = unique_first (fr_husbands roles @ fr_wives roles)"

text \<open>\<open>table[k].update(xs)\<close> for every \<open>k\<close> of a list.\<close>

definition update_entry :: "ustr list \<Rightarrow> (ustr \<times> ustr list) list \<Rightarrow> ustr \<Rightarrow> (ustr \<times> ustr list) list" where
  "update_entry xs table k = AList.update k (unique_first (entries table k @ xs)) table"

definition update_spouses :: "ustr list \<Rightarrow> (ustr \<times> ustr list) list \<Rightarrow> (ustr \<times> ustr list) list" where
  "update_spouses parents table = foldl (\<lambda>t left. update_entry (filter (\<lambda>x. x \<noteq> left) parents) t left) table parents"

definition add_family_roles :: "ustr \<Rightarrow> family_roles \<Rightarrow> kin_graph \<Rightarrow> kin_graph" where
  "add_family_roles pointer roles g = (let parents = parent_people roles; children = fr_children roles in
     \<lparr>fg_parents = foldl (update_entry parents) (fg_parents g) children,
      fg_children = foldl (update_entry children) (fg_children g) parents,
      fg_spouses = update_spouses parents (fg_spouses g),
      fg_families = AList.update pointer roles (fg_families g)\<rparr>)"

definition add_graph_record :: "(ustr \<times> ustr) list \<Rightarrow> kin_graph \<Rightarrow> gedcom_record \<Rightarrow> gedcom_error + kin_graph" where
  "add_graph_record pointer_map g r = bindE (record_tag r) (\<lambda>tag.
     if tag \<noteq> u ''FAM'' then Inr g
     else bindE (roles_of pointer_map r) (\<lambda>roles. bindE (record_pointer r) (\<lambda>pointer.
       Inr (add_family_roles pointer roles g))))"

definition family_graph :: "gedcom_record list \<Rightarrow> (ustr \<times> ustr) list \<Rightarrow> gedcom_error + kin_graph" where
  "family_graph source_records pointer_map =
     foldE (add_graph_record pointer_map) \<lparr>fg_parents = [], fg_children = [], fg_spouses = [], fg_families = []\<rparr> source_records"

section \<open>The traversal\<close>

type_synonym ancestry_state = "(ustr \<times> nat) list \<times> ustr list \<times> (ustr \<times> ustr list) list"

text \<open>One parent of the person in hand, \<open>next_generation\<close> being the generation of the parents.\<close>

definition visit_parent :: "ustr list \<Rightarrow> nat \<Rightarrow> ancestry_state \<Rightarrow> ustr \<Rightarrow> ancestry_state" where
  "visit_parent path next_generation s parent = (case s of (generations, cycles, pending) \<Rightarrow>
     if parent \<in> set path
     then (generations, unique_first (cycles @ dropWhile (\<lambda>x. x \<noteq> parent) path @ [parent]), pending)
     else if (case map_of generations parent of None \<Rightarrow> True | Some g \<Rightarrow> next_generation < g)
     then (AList.update parent next_generation generations, cycles, pending @ [(parent, path @ [parent])])
     else s)"

definition known_parents :: "(ustr \<times> ustr list) list \<Rightarrow> ustr set" where
  "known_parents parents = (\<Union>e \<in> set parents. set (snd e))"

lemma finite_known_parents [simp]: "finite (known_parents parents)"
  by (simp add: known_parents_def)

lemma entries_known: "set (entries parents x) \<subseteq> known_parents parents"
proof (cases "map_of parents x")
  case (Some ps)
  then show ?thesis using map_of_SomeD [OF Some] by (auto simp: known_parents_def entries_def intro!: bexI [of _ "(x, ps)"])
qed (simp add: entries_def)

text \<open>What the loop decreases: the parents without a generation, and then the sum of the generations.\<close>

definition open_parents :: "ustr set \<Rightarrow> (ustr \<times> nat) list \<Rightarrow> nat" where
  "open_parents U generations = card (U - dom (map_of generations))"

definition total_generation :: "ustr set \<Rightarrow> (ustr \<times> nat) list \<Rightarrow> nat" where
  "total_generation U generations = (\<Sum>x \<in> U. case map_of generations x of None \<Rightarrow> 0 | Some g \<Rightarrow> g)"

definition progress :: "ustr set \<Rightarrow> ((ustr \<times> nat) list \<times> (ustr \<times> nat) list) set" where
  "progress U = inv_image (less_than <*lex*> less_than) (\<lambda>g. (open_parents U g, total_generation U g))"

lemma trans_progress: "trans (progress U)"
  by (simp add: progress_def trans_inv_image)

lemma update_progress:
  assumes "finite U" "x \<in> U" "case map_of g x of None \<Rightarrow> True | Some n \<Rightarrow> m < n"
  shows "(AList.update x m g, g) \<in> progress U"
proof (cases "map_of g x")
  case None
  then have "U - dom (map_of (AList.update x m g)) \<subset> U - dom (map_of g)"
    using assms(2) by (auto simp: update_conv')
  then have "open_parents U (AList.update x m g) < open_parents U g"
    unfolding open_parents_def using assms(1) by (intro psubset_card_mono) auto
  then show ?thesis by (simp add: progress_def)
next
  case (Some n)
  then have "open_parents U (AList.update x m g) = open_parents U g"
    by (auto simp: open_parents_def update_conv' intro!: arg_cong [where f = card])
  moreover have "total_generation U (AList.update x m g) < total_generation U g"
    unfolding total_generation_def using assms Some
    by (intro sum_strict_mono_ex1) (auto simp: update_conv')
  ultimately show ?thesis by (simp add: progress_def)
qed

lemma visit_parents_progress:
  "set ps \<subseteq> U \<Longrightarrow> finite U \<Longrightarrow> foldl (visit_parent path n) (g, c, q) ps = (g', c', q') \<Longrightarrow>
     g' = g \<and> q' = q \<or> (g', g) \<in> progress U"
proof (induction ps arbitrary: g c q)
  case Nil
  then show ?case by simp
next
  case (Cons p ps)
  obtain g1 c1 q1 where s: "visit_parent path n (g, c, q) p = (g1, c1, q1)" by (metis prod.exhaust)
  have "g1 = g \<and> q1 = q \<or> (g1, g) \<in> progress U"
    using s Cons.prems(1,2) update_progress [of U p n g] by (auto simp: visit_parent_def split: if_splits)
  moreover have "g' = g1 \<and> q' = q1 \<or> (g', g1) \<in> progress U" using Cons s by simp
  ultimately show ?case by (metis transD trans_progress)
qed

function ancestor_loop :: "(ustr \<times> ustr list) list \<Rightarrow> (ustr \<times> nat) list \<Rightarrow> ustr list \<Rightarrow> (ustr \<times> ustr list) list
    \<Rightarrow> gedcom_error + (ustr \<times> nat) list \<times> ustr list" where
  "ancestor_loop parents generations cycles [] = Inr (generations, cycles)"
| "ancestor_loop parents generations cycles ((child, path) # pending) =
     (case map_of generations child of None \<Rightarrow> Inl (KeyMissing child)
      | Some g \<Rightarrow>
          (case foldl (visit_parent path (g + 1)) (generations, cycles, pending) (sort (entries parents child)) of
             (generations', cycles', pending') \<Rightarrow> ancestor_loop parents generations' cycles' pending'))"
  by pat_completeness auto
termination
proof (relation "inv_image (less_than <*lex*> less_than <*lex*> less_than)
    (\<lambda>(parents, g, c, q). (open_parents (known_parents parents) g, total_generation (known_parents parents) g, length q))",
    goal_cases)
  case 1
  show ?case by (intro wf_inv_image wf_lex_prod wf_less_than)
next
  case (2 parents generations cycles child path pending g generations' y cycles' pending')
  then have "foldl (visit_parent path (g + 1)) (generations, cycles, pending) (sort (entries parents child))
      = (generations', cycles', pending')" by simp
  from visit_parents_progress [OF _ finite_known_parents this, of parents] entries_known [of parents child]
  show ?case by (auto simp: progress_def)
qed

definition ancestor_generations :: "ustr \<Rightarrow> gedcom_record list \<Rightarrow> (ustr \<times> ustr) list
    \<Rightarrow> gedcom_error + (ustr \<times> nat) list \<times> ustr list" where
  "ancestor_generations root_pointer source_records pointer_map =
     bindE (family_graph source_records pointer_map) (\<lambda>g.
       ancestor_loop (fg_parents g) [(root_pointer, 0)] [] [(root_pointer, [root_pointer])])"

section \<open>What the tables hold\<close>

text \<open>A family record gives a child a parent; the tables hold exactly what some record gives.\<close>

definition family_lists :: "(ustr \<times> ustr) list \<Rightarrow> gedcom_record \<Rightarrow> family_roles \<Rightarrow> bool" where
  "family_lists pointer_map r roles \<longleftrightarrow> record_tag r = Inr (u ''FAM'') \<and> roles_of pointer_map r = Inr roles"

definition parent_of :: "gedcom_record list \<Rightarrow> (ustr \<times> ustr) list \<Rightarrow> ustr \<Rightarrow> ustr \<Rightarrow> bool" where
  "parent_of records pointer_map child parent \<longleftrightarrow> (\<exists>r \<in> set records. \<exists>roles. family_lists pointer_map r roles
     \<and> child \<in> set (fr_children roles) \<and> parent \<in> set (parent_people roles))"

definition spouse_of :: "gedcom_record list \<Rightarrow> (ustr \<times> ustr) list \<Rightarrow> ustr \<Rightarrow> ustr \<Rightarrow> bool" where
  "spouse_of records pointer_map left right \<longleftrightarrow> left \<noteq> right \<and> (\<exists>r \<in> set records. \<exists>roles. family_lists pointer_map r roles
     \<and> left \<in> set (parent_people roles) \<and> right \<in> set (parent_people roles))"

lemma entries_update_entry [simp]: "set (entries (update_entry xs t k) k') = set (entries t k') \<union> (if k' = k then set xs else {})"
  by (auto simp: update_entry_def entries_def update_conv')

lemma entries_update_entries: "set (entries (foldl (update_entry xs) t ks) k) = set (entries t k) \<union> (if k \<in> set ks then set xs else {})"
  by (induction ks arbitrary: t) auto

lemma entries_update_spouses: "set (entries (update_spouses ps t) k) = set (entries t k) \<union> (if k \<in> set ps then set ps - {k} else {})"
proof -
  have "set (entries (foldl (\<lambda>t left. update_entry (filter (\<lambda>x. x \<noteq> left) ps) t left) t qs) k)
      = set (entries t k) \<union> (if k \<in> set qs then set ps - {k} else {})" for qs
    by (induction qs arbitrary: t) auto
  then show ?thesis by (simp add: update_spouses_def)
qed

lemma graph_record_Inr:
  assumes "add_graph_record pointer_map g r = Inr g'"
  obtains "record_tag r \<noteq> Inr (u ''FAM'')" "g' = g"
  | roles pointer where "family_lists pointer_map r roles" "record_pointer r = Inr pointer" "g' = add_family_roles pointer roles g"
  using assms by (auto simp: add_graph_record_def family_lists_def bindE_Inr_iff split: if_splits)

lemma family_graph_fold:
  "foldE (add_graph_record pm) g rs = Inr g' \<Longrightarrow>
     set (entries (fg_parents g') x) = set (entries (fg_parents g) x) \<union> {y. parent_of rs pm x y}
     \<and> set (entries (fg_children g') x) = set (entries (fg_children g) x) \<union> {y. parent_of rs pm y x}
     \<and> set (entries (fg_spouses g') x) = set (entries (fg_spouses g) x) \<union> {y. spouse_of rs pm x y}"
proof (induction rs arbitrary: g)
  case Nil
  then show ?case by (simp add: parent_of_def spouse_of_def)
next
  case (Cons r rs)
  from Cons.prems obtain h where s: "add_graph_record pm g r = Inr h" and t: "foldE (add_graph_record pm) h rs = Inr g'"
    by (auto simp: bindE_Inr_iff)
  note IH = Cons.IH [OF t]
  from s show ?case
  proof (cases rule: graph_record_Inr)
    case 1
    then have "\<not> family_lists pm r roles" for roles by (simp add: family_lists_def)
    then show ?thesis using IH 1(2) by (simp add: parent_of_def spouse_of_def)
  next
    case (2 roles pointer)
    then have "family_lists pm r roles' \<longleftrightarrow> roles' = roles" for roles' by (auto simp: family_lists_def)
    then show ?thesis using IH 2(3)
      by (auto simp: parent_of_def spouse_of_def add_family_roles_def Let_def entries_update_entries entries_update_spouses split: if_splits)
  qed
qed

lemma family_graph_tables:
  assumes "family_graph records pm = Inr g"
  shows "set (entries (fg_parents g) x) = {y. parent_of records pm x y}"
    and "set (entries (fg_children g) x) = {y. parent_of records pm y x}"
    and "set (entries (fg_spouses g) x) = {y. spouse_of records pm x y}"
proof -
  have "foldE (add_graph_record pm) \<lparr>fg_parents = [], fg_children = [], fg_spouses = [], fg_families = []\<rparr> records = Inr g"
    using assms unfolding family_graph_def .
  note F = family_graph_fold [OF this, of x]
  have start: "entries [] x = []" by (simp add: entries_def)
  show "set (entries (fg_parents g) x) = {y. parent_of records pm x y}"
    using F [THEN conjunct1] by (simp add: start)
  show "set (entries (fg_children g) x) = {y. parent_of records pm y x}"
    using F [THEN conjunct2, THEN conjunct1] by (simp add: start)
  show "set (entries (fg_spouses g) x) = {y. spouse_of records pm x y}"
    using F [THEN conjunct2, THEN conjunct2] by (simp add: start)
qed

section \<open>Generations are distances\<close>

text \<open>An ancestor of a person, with the number of parent steps that lead to it.\<close>

inductive ancestor_at :: "(ustr \<Rightarrow> ustr \<Rightarrow> bool) \<Rightarrow> ustr \<Rightarrow> nat \<Rightarrow> ustr \<Rightarrow> bool"
  for parent :: "ustr \<Rightarrow> ustr \<Rightarrow> bool" and root :: ustr where
  self: "ancestor_at parent root 0 root"
| up: "ancestor_at parent root n x \<Longrightarrow> parent x y \<Longrightarrow> ancestor_at parent root (Suc n) y"

inductive_simps ancestor_at_0 [simp]: "ancestor_at parent root 0 x"

definition trail :: "(ustr \<Rightarrow> ustr \<Rightarrow> bool) \<Rightarrow> ustr \<Rightarrow> (ustr \<times> nat) list \<Rightarrow> ustr \<Rightarrow> ustr list \<Rightarrow> bool" where
  "trail parent root g x path \<longleftrightarrow> path \<noteq> [] \<and> hd path = root \<and> last path = x \<and> successively parent path
     \<and> (\<forall>i < length path. map_of g (path ! i) = Some i)"

text \<open>Everyone in the queue has a trail from the root whose length is the generation; whoever has a
  generation and is not in the queue has all parents placed at most one generation above.\<close>

definition relaxed :: "(ustr \<Rightarrow> ustr \<Rightarrow> bool) \<Rightarrow> ustr \<Rightarrow> (ustr \<times> nat) list \<Rightarrow> ustr list \<Rightarrow> ustr \<Rightarrow> bool" where
  "relaxed parent root g c x \<longleftrightarrow> (\<forall>n p. map_of g x = Some n \<and> parent x p \<longrightarrow>
     (\<exists>m \<le> Suc n. map_of g p = Some m) \<and> (p = root \<longrightarrow> root \<in> set c))"

definition placed :: "(ustr \<Rightarrow> ustr \<Rightarrow> bool) \<Rightarrow> ustr \<Rightarrow> (ustr \<times> nat) list \<Rightarrow> ustr list \<Rightarrow> (ustr \<times> ustr list) list \<Rightarrow> bool" where
  "placed parent root g c q \<longleftrightarrow> map_of g root = Some 0
     \<and> (\<forall>x n. map_of g x = Some n \<longrightarrow> ancestor_at parent root n x)
     \<and> (\<forall>(x, path) \<in> set q. trail parent root g x path)
     \<and> sorted (map (length \<circ> snd) q) \<and> (\<forall>x \<in> set c. parent\<^sup>+\<^sup>+ x x)"

definition level :: "nat \<Rightarrow> (ustr \<times> nat) list \<Rightarrow> (ustr \<times> ustr list) list \<Rightarrow> bool" where
  "level len g q \<longleftrightarrow> (\<forall>(x, path) \<in> set q. len \<le> length path \<and> length path \<le> Suc len) \<and> (\<forall>x n. map_of g x = Some n \<longrightarrow> n \<le> len)"

definition visiting :: "(ustr \<Rightarrow> ustr \<Rightarrow> bool) \<Rightarrow> ustr \<Rightarrow> ustr \<Rightarrow> ustr list \<Rightarrow> ustr set \<Rightarrow> ancestry_state \<Rightarrow> bool" where
  "visiting parent root child path visited s \<longleftrightarrow> (case s of (g, c, q) \<Rightarrow>
     placed parent root g c q \<and> level (length path) g q \<and> trail parent root g child path
     \<and> (\<forall>x \<in> dom (map_of g). x = child \<or> x \<in> fst ` set q \<or> relaxed parent root g c x)
     \<and> (\<forall>p \<in> visited. p \<in> dom (map_of g) \<and> (p = root \<longrightarrow> root \<in> set c)))"

lemma trail_extend: "trail parent root g x path \<Longrightarrow> map_of g \<subseteq>\<^sub>m map_of g' \<Longrightarrow> trail parent root g' x path"
  unfolding trail_def map_le_def by (metis domI)

lemma relaxed_extend:
  assumes "relaxed parent root g c x" "map_of g \<subseteq>\<^sub>m map_of g'" "set c \<subseteq> set c'" "x \<in> dom (map_of g)"
  shows "relaxed parent root g' c' x"
  unfolding relaxed_def
proof (intro allI impI)
  fix n p assume a: "map_of g' x = Some n \<and> parent x p"
  with assms(2,4) have "map_of g x = Some n" by (metis map_le_def)
  with a assms(1) obtain m where "m \<le> Suc n" "map_of g p = Some m" "p = root \<longrightarrow> root \<in> set c" by (auto simp: relaxed_def)
  moreover from this(2) have "map_of g' p = Some m" using assms(2) by (metis domI map_le_def)
  ultimately show "(\<exists>m \<le> Suc n. map_of g' p = Some m) \<and> (p = root \<longrightarrow> root \<in> set c')" using assms(3) by auto
qed

lemma chain_reaches: "successively parent (x # path) \<Longrightarrow> y \<in> set (x # path) \<Longrightarrow> parent\<^sup>*\<^sup>* x y"
proof (induction path arbitrary: x)
  case (Cons z path)
  then show ?case by (cases "y = x") (auto intro: converse_rtranclp_into_rtranclp)
qed simp

text \<open>The part of a trail from one of its members on closes to a cycle when the member is a parent of
  its end.\<close>

lemma trail_cycle:
  assumes "successively parent path" "parent (last path) p" "p \<in> set path" "y \<in> set (dropWhile (\<lambda>x. x \<noteq> p) path @ [p])"
  shows "parent\<^sup>+\<^sup>+ y y"
proof -
  let ?d = "dropWhile (\<lambda>x. x \<noteq> p) path"
  have ne: "?d \<noteq> []" using assms(3) by (simp add: dropWhile_eq_Nil_conv)
  then obtain ds where d: "?d = p # ds" using dropWhile_hd_not [of "\<lambda>x. x \<noteq> p" path] by (cases ?d) auto
  have s: "successively parent ?d" using assms(1) by (metis successively_append_iff takeWhile_dropWhile_id)
  have l: "last ?d = last path" using ne by (rule last_dropWhile)
  have y: "y \<in> set ?d" using assms(4) d by auto
  then obtain as bs where ab: "?d = as @ y # bs" by (auto dest: split_list)
  have "parent\<^sup>*\<^sup>* p y" using s y d by (simp add: chain_reaches)
  moreover have "parent\<^sup>*\<^sup>* y (last path)"
  proof (rule chain_reaches)
    show "successively parent (y # bs)" using s ab by (simp add: successively_append_iff)
    show "last path \<in> set (y # bs)" using l ab by (metis last_appendR last_in_set list.distinct(1))
  qed
  ultimately show ?thesis using assms(2) by (meson rtranclp_into_tranclp1 rtranclp_trans tranclp_rtranclp_tranclp)
qed

lemma visit_parent_step:
  assumes inv: "visiting parent root child path visited s" and p: "parent child p"
  shows "visiting parent root child path (insert p visited) (visit_parent path (length path) s p)"
proof -
  obtain g c q where s: "s = (g, c, q)" by (cases s)
  have t: "trail parent root g child path" and l: "level (length path) g q"
    using inv by (simp_all add: visiting_def s)
  show ?thesis
  proof (cases "p \<in> set path")
    case True
    define round where "round = dropWhile (\<lambda>x. x \<noteq> p) path @ [p]"
    define c' where "c' = unique_first (c @ round)"
    have c': "set c' = set c \<union> set round" "p \<in> set round" by (simp_all add: c'_def round_def)
    have e: "visit_parent path (length path) (g, c, q) p = (g, c', q)"
      using True by (simp add: visit_parent_def c'_def round_def)
    have new: "parent\<^sup>+\<^sup>+ y y" if "y \<in> set round" for y
      by (rule trail_cycle [OF _ _ True that [unfolded round_def]]) (use t p in \<open>simp_all add: trail_def\<close>)
    have "map_of g p \<noteq> None" using True t by (auto simp: trail_def in_set_conv_nth)
    moreover have "\<forall>x \<in> dom (map_of g). relaxed parent root g c x \<longrightarrow> relaxed parent root g c' x"
      by (intro ballI impI, rule relaxed_extend [OF _ map_le_refl]) (auto simp: c')
    moreover have "placed parent root g c' q" using inv new by (auto simp: visiting_def placed_def s c')
    ultimately show ?thesis using inv c' unfolding s e visiting_def by (simp add: dom_def) blast
  next
    case False
    show ?thesis
    proof (cases "map_of g p")
      case (Some n)
      then have "n \<le> length path" using l by (auto simp: level_def)
      moreover have "p \<noteq> root" using False t by (auto simp: trail_def)
      ultimately show ?thesis using inv False Some by (auto simp: visiting_def s visit_parent_def)
    next
      case None
      let ?g = "AList.update p (length path) g"
      have le: "map_of g \<subseteq>\<^sub>m map_of ?g" using None by (auto simp: map_le_def update_conv')
      have n: "map_of g child = Some (length path - 1)" "path \<noteq> []"
        using t by (auto simp: trail_def last_conv_nth)
      have "trail parent root ?g p (path @ [p])"
        using trail_extend [OF t le] p by (auto simp: trail_def successively_append_iff nth_append update_conv')
      moreover have "ancestor_at parent root (length path) p"
        using inv n p ancestor_at.up [of parent root "length path - 1" child p] by (simp add: visiting_def placed_def s)
      moreover have "\<forall>x \<in> dom (map_of g). relaxed parent root g c x \<longrightarrow> relaxed parent root ?g c x"
        by (intro ballI impI, rule relaxed_extend [OF _ le]) auto
      moreover have "p \<noteq> root" using inv None by (auto simp: visiting_def placed_def s)
      moreover have "sorted (map (length \<circ> snd) (q @ [(p, path @ [p])]))"
        using inv l by (auto simp: visiting_def placed_def s sorted_append level_def)
      moreover have "\<forall>(x, p) \<in> set q. trail parent root ?g x p" "trail parent root ?g child path"
        using inv t trail_extend [OF _ le] by (auto simp: visiting_def placed_def s)
      ultimately have "placed parent root ?g c (q @ [(p, path @ [p])]) \<and> level (length path) ?g (q @ [(p, path @ [p])])"
          "trail parent root ?g child path"
          "\<forall>x \<in> dom (map_of ?g). x = child \<or> x \<in> fst ` set (q @ [(p, path @ [p])]) \<or> relaxed parent root ?g c x"
        using inv by (auto simp: visiting_def placed_def level_def s update_conv' dom_def)
      moreover have "visit_parent path (length path) (g, c, q) p = (?g, c, q @ [(p, path @ [p])])"
        using False None by (simp add: visit_parent_def)
      ultimately show ?thesis using inv \<open>p \<noteq> root\<close> by (auto simp: visiting_def s update_conv')
    qed
  qed
qed

lemma visit_parents:
  "visiting parent root child path visited s \<Longrightarrow> \<forall>p \<in> set ps. parent child p \<Longrightarrow>
     visiting parent root child path (visited \<union> set ps) (foldl (visit_parent path (length path)) s ps)"
proof (induction ps arbitrary: s visited)
  case Nil
  then show ?case by simp
next
  case (Cons p ps)
  then have "visiting parent root child path (insert p visited) (visit_parent path (length path) s p)"
    by (simp add: visit_parent_step)
  from Cons.IH [OF this] Cons.prems(2) show ?case by simp
qed

text \<open>The invariant between two visits.\<close>

definition searching :: "(ustr \<Rightarrow> ustr \<Rightarrow> bool) \<Rightarrow> ustr \<Rightarrow> (ustr \<times> nat) list \<Rightarrow> ustr list \<Rightarrow> (ustr \<times> ustr list) list \<Rightarrow> bool" where
  "searching parent root g c q \<longleftrightarrow> placed parent root g c q \<and> (q = [] \<or> level (length (snd (hd q))) g q)
     \<and> (\<forall>x \<in> dom (map_of g). x \<in> fst ` set q \<or> relaxed parent root g c x)"

lemma searching_start: "searching parent root [(root, 0)] [] [(root, [root])]"
  by (auto simp: searching_def placed_def level_def trail_def intro: ancestor_at.self)

lemma searching_visit:
  assumes "searching parent root g c ((child, path) # q)"
  shows "visiting parent root child path {} (g, c, q)"
  using assms by (auto simp: searching_def visiting_def placed_def level_def)

lemma searching_visited:
  assumes inv: "visiting parent root child path visited (g, c, q)" and all: "\<And>p. parent child p \<Longrightarrow> p \<in> visited"
  shows "searching parent root g c q"
proof -
  have t: "trail parent root g child path" and l: "level (length path) g q" using inv by (simp_all add: visiting_def)
  have n: "map_of g child = Some (length path - 1)" "path \<noteq> []" using t by (auto simp: trail_def last_conv_nth)
  have "relaxed parent root g c child"
    using inv all n l by (fastforce simp: relaxed_def visiting_def level_def)
  moreover have "q = [] \<or> level (length (snd (hd q))) g q"
  proof (cases q)
    case (Cons e es)
    then have "length path \<le> length (snd e)" using l by (auto simp: level_def split: prod.splits)
    moreover have "\<forall>e' \<in> set q. length (snd e) \<le> length (snd e')"
      using inv Cons by (auto simp: visiting_def placed_def)
    ultimately show ?thesis using l Cons unfolding level_def by fastforce
  qed simp
  ultimately show ?thesis using inv by (auto simp: searching_def visiting_def)
qed

lemma ancestor_loop_searches:
  "searching (\<lambda>x y. y \<in> set (entries parents x)) root g c q \<Longrightarrow>
     \<exists>g' c'. ancestor_loop parents g c q = Inr (g', c') \<and> searching (\<lambda>x y. y \<in> set (entries parents x)) root g' c' []"
proof (induction parents g c q rule: ancestor_loop.induct)
  case (1 parents g c)
  then show ?case by simp
next
  case (2 parents g c child path q)
  note v = searching_visit [OF "2.prems"]
  then have n: "map_of g child = Some (length path - 1)" "path \<noteq> []"
    by (auto simp: visiting_def trail_def last_conv_nth)
  obtain g' c' q' where f: "foldl (visit_parent path (length path)) (g, c, q) (sort (entries parents child)) = (g', c', q')"
    by (metis prod.exhaust)
  have "visiting (\<lambda>x y. y \<in> set (entries parents x)) root child path ({} \<union> set (sort (entries parents child))) (g', c', q')"
    using visit_parents [OF v, of "sort (entries parents child)"] f by simp
  then have "searching (\<lambda>x y. y \<in> set (entries parents x)) root g' c' q'"
    by (rule searching_visited) simp
  moreover have "(g', c', q') = foldl (visit_parent path (length path - 1 + 1)) (g, c, q) (sort (entries parents child))"
    using f n(2) by simp
  ultimately show ?case using "2.IH" [OF n(1) _ refl] n f by simp
qed

text \<open>When the queue is empty, every ancestor has a generation, and it is the least one.\<close>

lemma searched_distance:
  assumes "searching parent root g c []" and "ancestor_at parent root n x"
  shows "\<exists>m \<le> n. map_of g x = Some m"
  using assms(2)
proof induction
  case self
  then show ?case using assms(1) by (simp add: searching_def placed_def)
next
  case (up n x y)
  then obtain m where m: "m \<le> n" "map_of g x = Some m" by blast
  then have "relaxed parent root g c x" using assms(1) by (auto simp: searching_def)
  then obtain k where "k \<le> Suc m" "map_of g y = Some k" using m up.hyps by (auto simp: relaxed_def)
  then show ?case using m(1) by (meson Suc_le_mono le_trans)
qed

lemma searched_generation:
  assumes "searching parent root g c []"
  shows "map_of g x = Some n \<longleftrightarrow> ancestor_at parent root n x \<and> (\<forall>m < n. \<not> ancestor_at parent root m x)"
proof
  assume g: "map_of g x = Some n"
  have "\<not> ancestor_at parent root m x" if "m < n" for m
    using searched_distance [OF assms, of m x] g that by auto
  then show "ancestor_at parent root n x \<and> (\<forall>m < n. \<not> ancestor_at parent root m x)"
    using assms g by (auto simp: searching_def placed_def)
next
  assume a: "ancestor_at parent root n x \<and> (\<forall>m < n. \<not> ancestor_at parent root m x)"
  then obtain m where m: "m \<le> n" "map_of g x = Some m" using searched_distance [OF assms] by blast
  then have "ancestor_at parent root m x" using assms by (auto simp: searching_def placed_def)
  then show "map_of g x = Some n" using a m by (metis le_neq_implies_less)
qed

lemma ancestor_reached: "parent\<^sup>*\<^sup>* root x \<Longrightarrow> \<exists>n. ancestor_at parent root n x"
  by (induction rule: rtranclp_induct) (auto intro: ancestor_at.intros)

lemma searched_cycles:
  assumes "searching parent root g c []"
  shows "\<forall>x \<in> set c. parent\<^sup>+\<^sup>+ x x" and "root \<in> set c \<longleftrightarrow> parent\<^sup>+\<^sup>+ root root"
proof -
  show s: "\<forall>x \<in> set c. parent\<^sup>+\<^sup>+ x x" using assms by (simp add: searching_def placed_def)
  show "root \<in> set c \<longleftrightarrow> parent\<^sup>+\<^sup>+ root root"
  proof
    assume "parent\<^sup>+\<^sup>+ root root"
    then obtain x where x: "parent\<^sup>*\<^sup>* root x" "parent x root" by (cases rule: tranclp.cases) (auto dest: tranclp_into_rtranclp)
    then obtain n where "map_of g x = Some n" using ancestor_reached searched_distance [OF assms] by metis
    then show "root \<in> set c" using assms x(2) by (auto simp: searching_def relaxed_def)
  qed (use s in blast)
qed

text \<open>C33: the traversal ends without an error of its own; it gives exactly the ancestors of the root a
  generation, the least number of parent steps to them; everyone it reports as part of a cycle is
  their own ancestor; and it reports the root exactly when the root is its own ancestor.\<close>

theorem generations_are_distances:
  assumes "family_graph records pointer_map = Inr g"
  shows "\<exists>generations cycles. ancestor_generations root records pointer_map = Inr (generations, cycles)
    \<and> (\<forall>x n. map_of generations x = Some n \<longleftrightarrow> ancestor_at (parent_of records pointer_map) root n x
         \<and> (\<forall>m < n. \<not> ancestor_at (parent_of records pointer_map) root m x))
    \<and> (\<forall>x \<in> set cycles. (parent_of records pointer_map)\<^sup>+\<^sup>+ x x)
    \<and> (root \<in> set cycles \<longleftrightarrow> (parent_of records pointer_map)\<^sup>+\<^sup>+ root root)"
proof -
  let ?parent = "\<lambda>x y. y \<in> set (entries (fg_parents g) x)"
  have p: "?parent = parent_of records pointer_map"
    by (intro ext) (simp add: family_graph_tables(1) [OF assms])
  obtain generations cycles where
    r: "ancestor_loop (fg_parents g) [(root, 0)] [] [(root, [root])] = Inr (generations, cycles)"
    and s: "searching ?parent root generations cycles []"
    using ancestor_loop_searches [OF searching_start] by blast
  have "ancestor_generations root records pointer_map = Inr (generations, cycles)"
    using assms r by (simp add: ancestor_generations_def)
  then show ?thesis using searched_generation [OF s [unfolded p]] searched_cycles [OF s [unfolded p]] by blast
qed

text \<open>A pointer leads to its survivor: following the map of a merge never loops, and when the map
  has no cycle the result is no key of the map other than of itself.\<close>

definition merges_into :: "(ustr \<times> ustr) list \<Rightarrow> ustr \<Rightarrow> ustr \<Rightarrow> bool" where
  "merges_into pointer_map x y \<longleftrightarrow> map_of pointer_map x = Some y \<and> x \<noteq> y"

lemma canonical_loop_survives:
  "\<forall>x \<in> set seen. (merges_into m)\<^sup>+\<^sup>+ x p \<Longrightarrow> (merges_into m)\<^sup>*\<^sup>* p (canonical_loop m seen p)
     \<and> ((\<exists>y. merges_into m (canonical_loop m seen p) y)
        \<longrightarrow> (merges_into m)\<^sup>+\<^sup>+ (canonical_loop m seen p) (canonical_loop m seen p))"
proof (induction m seen p rule: canonical_loop.induct)
  case (1 m seen p)
  show ?case
  proof (cases "\<exists>q. map_of m p = Some q \<and> q \<noteq> p \<and> p \<notin> set seen")
    case True
    then obtain q where q: "map_of m p = Some q" "q \<noteq> p" "p \<notin> set seen" by blast
    then have step: "merges_into m p q" by (auto simp: merges_into_def)
    have "\<forall>x \<in> set (p # seen). (merges_into m)\<^sup>+\<^sup>+ x q" using "1.prems" step by (auto intro: tranclp.trancl_into_trancl)
    from "1.IH" [OF q(1) _ this] q have "(merges_into m)\<^sup>*\<^sup>* q (canonical_loop m (p # seen) q)
        \<and> ((\<exists>y. merges_into m (canonical_loop m (p # seen) q) y)
          \<longrightarrow> (merges_into m)\<^sup>+\<^sup>+ (canonical_loop m (p # seen) q) (canonical_loop m (p # seen) q))" by simp
    moreover have "canonical_loop m seen p = canonical_loop m (p # seen) q" using q by (simp add: canonical_loop.simps [of m seen p])
    ultimately show ?thesis using step by (auto intro: converse_rtranclp_into_rtranclp)
  next
    case False
    then have "canonical_loop m seen p = p" by (simp add: canonical_loop.simps [of m seen p] split: option.splits)
    then show ?thesis using False "1.prems" by (auto simp: merges_into_def)
  qed
qed

lemma canonical_pointer_survives:
  "(merges_into pointer_map)\<^sup>*\<^sup>* pointer (canonical_pointer pointer_map pointer)
   \<and> ((merges_into pointer_map)\<^sup>+\<^sup>+ (canonical_pointer pointer_map pointer) (canonical_pointer pointer_map pointer)
      \<or> map_of pointer_map (canonical_pointer pointer_map pointer)
          \<in> {None, Some (canonical_pointer pointer_map pointer)})"
proof -
  let ?c = "canonical_pointer pointer_map pointer"
  have s: "(merges_into pointer_map)\<^sup>*\<^sup>* pointer ?c"
    "(\<exists>y. merges_into pointer_map ?c y) \<longrightarrow> (merges_into pointer_map)\<^sup>+\<^sup>+ ?c ?c"
    using canonical_loop_survives [of "[]" pointer_map pointer] by (simp_all add: canonical_pointer_def)
  then show ?thesis by (cases "map_of pointer_map ?c") (auto simp: merges_into_def)
qed

section \<open>Examples\<close>

definition family_record :: "string \<Rightarrow> string list \<Rightarrow> gedcom_record" where
  "family_record pointer lines = \<lparr>gr_lines = u (''0 '' @ pointer @ '' FAM'') # map u lines, gr_source_file = u ''a.ged'',
     gr_sequence = 0, gr_encoding = u ''utf-8''\<rparr>"

text \<open>A person with two parents who are cousins: the common grandparents are at generation two by one
  line and at three by the other.\<close>

definition cousin_records :: "gedcom_record list" where
  "cousin_records =
     [family_record ''@F1@'' [''1 HUSB @P@'', ''1 WIFE @M@'', ''1 CHIL @R@''],
      family_record ''@F2@'' [''1 WIFE @G@'', ''1 CHIL @P@''],
      family_record ''@F3@'' [''1 HUSB @U@'', ''1 CHIL @M@''],
      family_record ''@F4@'' [''1 WIFE @G@'', ''1 CHIL @U@'']]"

lemma generations_are_distances_witness:
  "\<exists>generations cycles. ancestor_generations (u ''@R@'') cousin_records [] = Inr (generations, cycles)
     \<and> map_of generations (u ''@G@'') = Some 2 \<and> cycles = []
     \<and> \<not> (parent_of cousin_records [])\<^sup>+\<^sup>+ (u ''@R@'') (u ''@R@'')"
proof -
  have "(case family_graph cousin_records [] of Inr g \<Rightarrow> True | Inl e \<Rightarrow> False)" by code_simp
  then obtain g where g: "family_graph cousin_records [] = Inr g" by (auto split: sum.splits)
  have e: "(case ancestor_generations (u ''@R@'') cousin_records [] of
      Inr (generations, cycles) \<Rightarrow> map_of generations (u ''@G@'') = Some 2 \<and> cycles = [] | Inl e \<Rightarrow> False)" by code_simp
  show ?thesis using generations_are_distances [OF g, of "u ''@R@''"] e by auto
qed

text \<open>Two parents of the root who are each other's parents: both have a generation, and the cycle
  between them is on no trail of the search, so it is not reported.\<close>

definition circular_records :: "gedcom_record list" where
  "circular_records =
     [family_record ''@F1@'' [''1 HUSB @A@'', ''1 WIFE @B@'', ''1 CHIL @R@''],
      family_record ''@F2@'' [''1 HUSB @B@'', ''1 CHIL @A@''],
      family_record ''@F3@'' [''1 HUSB @A@'', ''1 CHIL @B@'']]"

lemma ancestry_cycle_can_be_missed:
  "(parent_of circular_records [])\<^sup>+\<^sup>+ (u ''@A@'') (u ''@A@'')
   \<and> ancestor_generations (u ''@R@'') circular_records []
      = Inr ([(u ''@R@'', 0), (u ''@A@'', 1), (u ''@B@'', 1)], [])"
proof -
  have g: "(case family_graph circular_records [] of Inr g \<Rightarrow> u ''@B@'' \<in> set (entries (fg_parents g) (u ''@A@''))
      \<and> u ''@A@'' \<in> set (entries (fg_parents g) (u ''@B@'')) | Inl e \<Rightarrow> False)" by code_simp
  then obtain g where t: "family_graph circular_records [] = Inr g" by (auto split: sum.splits)
  have "parent_of circular_records [] (u ''@A@'') (u ''@B@'')"
    using g family_graph_tables(1) [OF t, of "u ''@A@''"] by (simp add: t)
  moreover have "parent_of circular_records [] (u ''@B@'') (u ''@A@'')"
    using g family_graph_tables(1) [OF t, of "u ''@B@''"] by (simp add: t)
  ultimately have "(parent_of circular_records [])\<^sup>+\<^sup>+ (u ''@A@'') (u ''@A@'')"
    by (rule tranclp.trancl_into_trancl [OF tranclp.r_into_trancl])
  moreover have "ancestor_generations (u ''@R@'') circular_records []
      = Inr ([(u ''@R@'', 0), (u ''@A@'', 1), (u ''@B@'', 1)], [])" by code_simp
  ultimately show ?thesis by blast
qed

end
