(* ===== verification/Spec2Isabelle.thy ===== *)
theory Spec2Isabelle
  imports Gedcom_Validator Gedcom_Serializer Gedcom_Loader Job_Progress Job_Service Sync_Reconcile Sync_Citations
    Sync_Sources Sync_Claims Kernel_Claims Duplicate_Search Quality_Ancestry
begin

text \<open>
  AncestryLLM is a local-first toolset for family history. This development models the parts of it
  that decide what happens to a family tree: the GEDCOM text model, the synchronization of a master
  tree with website snapshots, and the background jobs in which all of it runs. File and function
  names below are relative to \<open>src/src/ancestryllm/\<close>. All definitions compute, errors are values of
  sum types, and text is a list of code points (\<open>ustr\<close>), with \<open>u\<close> for literals.

  \<^bold>\<open>The GEDCOM layer.\<close> \<open>Prelude\<close> holds the error monad (\<open>bindE\<close>, \<open>mapE\<close>, \<open>foldE\<close>), worklists and the
  locales of suffix searches and issuers; \<open>Py_Text\<close> holds Python strings, UTF-8 sizes and cross-reference
  patterns. \<open>Gedcom_Model\<close> is the line parser of \<open>gedcom/model.py\<close>; \<open>Gedcom_Serializer\<close> the canonical lines
  and the wrapping of \<open>gedcom/serializer.py\<close>, with the round trips of parsing and printing and the one
  that fails; \<open>Gedcom_Validator\<close> refines \<open>gedcom/validator.py\<close> to a specification of a document;
  \<open>Gedcom_Graph\<close> is \<open>gedcom/graph.py\<close>: the closures are reachability. \<open>Gedcom_Dates\<close> and \<open>Gedcom_People\<close> are
  the evidence part of \<open>gedcom/identity.py\<close>: normal forms of dates, facts, names, individuals and their
  relatives. \<open>File_Ingress\<close> models the budgets, nesting scanners and structure bounds of
  \<open>core/ingress.py\<close>, and \<open>Gedcom_Loader\<close> is \<open>gedcom/parser.py\<close>: records, the pointer allocator and
  \<open>load_sources\<close>, which keeps the sources' pointers apart. \<open>Gedcom_Rendering\<close> is \<open>gedcom/serialization.py\<close>:
  one document out of people and records, which loses nothing that is exported. \<open>Duplicate_Search\<close> is the
  bounded search for duplicate people of \<open>gedcom/identity.py\<close>: blocking keys, buckets, candidate pairs, the
  estimate that bounds them and the heap that keeps the best; it is exact up to its limits. \<open>Quality_Ancestry\<close>
  is the part of \<open>gedcom/quality.py\<close> that places the direct ancestors: the family graph, the generations,
  which are distances, and the cycles, of which one can be missed.

  \<^bold>\<open>The synchronization layer.\<close> \<open>Sync_Text\<close> and \<open>Sync_Records\<close> are the comparison values, blocks, merges,
  semantic keys and pointer counters of \<open>gedcom/sync_algorithms.py\<close>; \<open>Sync_Citations\<close> states what merging
  citations keeps and the text it can lose. \<open>Sync_Match\<close> is \<open>_match_people\<close>, \<open>Sync_Sources\<close> is
  \<open>_map_nonpeople\<close> and \<open>Sync_Reconcile\<close> is \<open>_reconcile_person_blocks\<close> with the part of the manifest it
  reads. They are called in this order by one update: people are identified conservatively, the other
  records are consolidated without losing one, and the blocks of a person are removed only for a
  reason and never against a manual deletion.

  \<open>Sync_Manifest\<close> is \<open>gedcom/sync_manifest.py\<close>: the arguments that name snapshots and the check of a
  manifest, a JSON object (\<open>jobject\<close>) whose fields \<open>Sync_Encoding\<close> translates to the values above and back.
  \<open>Sync_Update\<close> and \<open>Sync_Rebase\<close> are \<open>_perform_update\<close> and \<open>_perform_rebase\<close> of \<open>gedcom/sync_operations.py\<close>;
  what a run reads, the times it takes and the outcome of publishing are the fields of \<open>run_world\<close>.
  \<open>Sync_Generations\<close> shows group by group that the check survives the fields these operations write, and
  \<open>Sync_Claims\<close> that a published release can be opened by the next run, that a dry run foretells the
  real one, and that a rebase records every decision. The claims assume what the check asks of the surroundings
  and the operations do not ensure: digests in lower-case hexadecimal, times with a zone that do not go
  back, manifests on disk of generation 1 or more, and a pointer for every person.

  \<^bold>\<open>The kernel.\<close> \<open>Kernel_Contracts\<close>, \<open>Kernel_Plan\<close> and \<open>Kernel_Run\<close> are \<open>gedcom/sync_kernel.py\<close>: the values
  with their checks, the canonical JSON and the identities derived from it, and the coordinator that
  drives the stage adapters. An execution threads its local variables and the history of the calls;
  an adapter is a function of that history, so it may answer differently every time. \<open>Kernel_Claims\<close>
  has a weakest precondition for the steps and states what holds whatever the adapters do. An execution
  records at most fifteen events, so the limit of 256 is never met.

  \<^bold>\<open>The jobs.\<close> \<open>Cancel_Token\<close> is the token of \<open>core/cancellation.py\<close>. \<open>Job_Manager\<close> is \<open>core/jobs.py\<close>: every
  locked section is one operation, and an execution is any sequence of them, so the invariants of
  \<open>Job_Resources\<close>, \<open>Job_States\<close>, \<open>Job_Safety\<close> and the claims of \<open>Job_Claims\<close> and \<open>Job_Progress\<close> hold for every
  interleaving. \<open>Job_Contracts\<close>, \<open>Job_Repository\<close> and \<open>Job_Service\<close> are \<open>application/jobs.py\<close>: the public
  values, the memory repository, its replays, and the subscriptions.

  \<^bold>\<open>Termination.\<close> Loops over lists are structural. The worklist loops of the graph, the suffix search of
  the allocator, the structure walk, the walk to a survivor and the search for ancestors have measures, and the pointer counters search below a bound that the
  number of used pointers gives; no fuel and no partial function is used.

  \<^bold>\<open>Arguments.\<close> Standing for code that is not in the repository or for tables of the Unicode standard:
  case folding, normalization, word and alphanumeric classes and the digest (\<open>text_rules\<close>, \<open>hash_rules\<close>), the
  reading of dates in other calendars, the moment a timestamp stands for (\<open>clock\<close>: what \<open>fromisoformat\<close> accepts
  depends on the version of Python), the redaction of messages. The
  score, blocking keys and resolver of the identity matching are arguments of \<open>_match_people\<close> as they are
  in the code; scores form an ordered ring.

  \<^bold>\<open>Not modelled.\<close> Checkpoints outside cancelled jobs do nothing. Opening, hashing and publishing files, the
  thread pool (taken at its documented contract), the similarity scores (floating point and an optional
  library), the rules and the text of the quality report (a field of \<open>run_world\<close>), the staging of release
  directories, the guard that verifies the inputs around the resolver, RootsMagic, the encrypted storage, the HTTP and terminal surfaces and the
  language model providers are left out; the manifest lists each with its reason. Python sets are lists in
  which order plays no role.
\<close>

end
